(* ===== verification/Prelude.thy ===== *)
theory Prelude
  imports Main "HOL-Library.Multiset" "HOL-Library.Monad_Syntax" "HOL-Library.Word"
begin

text \<open>
  The prelude of the development: how the Rust program's effects are written in HOL, and the
  generic facts the components share.

  \<^item> A function that may panic returns an \<open>option\<close>: \<open>None\<close> is the panic. Rust's own \<open>Option\<close>
    values are \<open>option\<close> values too, so an operation that may panic and returns an \<open>Option\<close> has the
    type \<open>'a option option\<close>. Sequencing under panics is \<open>Option.bind\<close>, written with \<open>do\<close>.
  \<^item> \<open>Result<T, E>\<close> is the sum \<open>'e + 'a\<close>, \<open>Inl\<close> for \<open>Err\<close> and \<open>Inr\<close> for \<open>Ok\<close>; the \<open>?\<close> operator is
    \<open>res_bind\<close>.
  \<^item> A \<open>HashMap\<close> is a map \<open>'k \<rightharpoonup> 'v\<close>. Where the code iterates over it, the order of the iteration
    (which Rust leaves open) is an argument \<open>ks\<close> of the definition, and \<open>iterates ks m\<close> says that
    \<open>ks\<close> lists the keys of \<open>m\<close>.
  \<^item> \<open>slice::sort_by\<close> is \<open>sort_by\<close>, with the comparison \<open>lt a b\<close> for \<open>Ordering::Less\<close>.
  \<^item> Integer arithmetic is that of the release profile (no overflow checks): \<open>u32\<close> and \<open>u64\<close> are
    words and wrap. Arithmetic on \<open>Duration\<close> panics on overflow in every profile.
\<close>

named_theorems wf_intros \<open>invariants preserved by an operation\<close>
named_theorems frame_simps \<open>what an operation leaves unchanged\<close>
named_theorems spec_simps \<open>defining equations of operations, unfolded together\<close>

type_synonym u8 = "8 word"
type_synonym u32 = "32 word"
type_synonym u64 = "64 word"

section \<open>Results\<close>

definition res_bind :: "'e + 'a \<Rightarrow> ('a \<Rightarrow> 'e + 'b) \<Rightarrow> 'e + 'b" where
  "res_bind r f = (case r of Inl e \<Rightarrow> Inl e | Inr x \<Rightarrow> f x)"

lemma res_bind_simps [simp]:
  "res_bind (Inl e) f = Inl e"
  "res_bind (Inr x) f = f x"
  by (simp_all add: res_bind_def)

lemma res_bind_Inr_conv:
  "res_bind r f = Inr y \<longleftrightarrow> (\<exists>x. r = Inr x \<and> f x = Inr y)"
  by (cases r) auto

definition is_ok :: "'e + 'a \<Rightarrow> bool" where
  "is_ok r = (case r of Inl e \<Rightarrow> False | Inr x \<Rightarrow> True)"

lemma is_ok_simps [simp]: "\<not> is_ok (Inl e)" "is_ok (Inr x)"
  by (simp_all add: is_ok_def)

lemma is_ok_conv: "is_ok r \<longleftrightarrow> (\<exists>x. r = Inr x)"
  by (cases r) auto

definition ok_or :: "'e \<Rightarrow> 'a option \<Rightarrow> 'e + 'a" where
  "ok_or e v = (case v of None \<Rightarrow> Inl e | Some x \<Rightarrow> Inr x)"

lemma ok_or_simps [simp]: "ok_or e None = Inl e" "ok_or e (Some x) = Inr x"
  by (simp_all add: ok_or_def)

lemma ok_or_Inr_conv [simp]: "ok_or e v = Inr x \<longleftrightarrow> v = Some x"
  by (cases v) auto

text \<open>\<open>iter().map(f).collect::<Result<Vec<_>, _>>()\<close>: the first error, or all the values.\<close>

fun collect_results :: "('a \<Rightarrow> 'e + 'b) \<Rightarrow> 'a list \<Rightarrow> 'e + 'b list" where
  "collect_results f [] = Inr []"
| "collect_results f (x # xs) =
     res_bind (f x) (\<lambda>y. res_bind (collect_results f xs) (\<lambda>ys. Inr (y # ys)))"

lemma collect_results_map:
  "(\<And>x. x \<in> set xs \<Longrightarrow> f (g x) = Inr (h x)) \<Longrightarrow>
   collect_results f (map g xs) = Inr (map h xs)"
  by (induction xs) auto

lemma collect_results_Inr_nth:
  "collect_results f xs = Inr ys \<Longrightarrow>
   length ys = length xs \<and> (\<forall>i < length xs. f (xs ! i) = Inr (ys ! i))"
proof (induction xs arbitrary: ys)
  case Nil
  then show ?case by simp
next
  case (Cons x xs)
  then obtain y zs where "f x = Inr y" "collect_results f xs = Inr zs" "ys = y # zs"
    by (auto simp: res_bind_Inr_conv)
  with Cons.IH [of zs] show ?case
    by (auto simp: nth_Cons split: nat.splits)
qed

text \<open>The same over values that may panic.\<close>

fun collect_options :: "('a \<Rightarrow> 'b option) \<Rightarrow> 'a list \<Rightarrow> 'b list option" where
  "collect_options f [] = Some []"
| "collect_options f (x # xs) =
     Option.bind (f x) (\<lambda>y. Option.bind (collect_options f xs) (\<lambda>ys. Some (y # ys)))"

lemma collect_options_Some_nth:
  "collect_options f xs = Some ys \<Longrightarrow>
   length ys = length xs \<and> (\<forall>i < length xs. f (xs ! i) = Some (ys ! i))"
proof (induction xs arbitrary: ys)
  case Nil
  then show ?case by simp
next
  case (Cons x xs)
  then obtain y zs where "f x = Some y" "collect_options f xs = Some zs" "ys = y # zs"
    by (auto simp: bind_eq_Some_conv)
  with Cons.IH [of zs] show ?case
    by (auto simp: nth_Cons split: nat.splits)
qed

lemma collect_options_total:
  "(\<And>x. x \<in> set xs \<Longrightarrow> f x = Some (g x)) \<Longrightarrow> collect_options f xs = Some (map g xs)"
  by (induction xs) auto

section \<open>Hash tables and their iteration order\<close>

definition iterates :: "'k list \<Rightarrow> ('k \<rightharpoonup> 'v) \<Rightarrow> bool" where
  "iterates ks m \<longleftrightarrow> distinct ks \<and> set ks = dom m"

lemma iterates_empty [simp]: "iterates ks Map.empty \<longleftrightarrow> ks = []"
  by (auto simp: iterates_def)

lemma iterates_lookup:
  "iterates ks m \<Longrightarrow> k \<in> set ks \<Longrightarrow> \<exists>v. m k = Some v"
  by (auto simp: iterates_def)

lemma iterates_length: "iterates ks m \<Longrightarrow> length ks = card (dom m)"
  by (metis distinct_card iterates_def)

text \<open>\<open>map.iter().collect()\<close>: the entries in the order of the iteration.\<close>

definition entries :: "'k list \<Rightarrow> ('k \<rightharpoonup> 'v) \<Rightarrow> ('k \<times> 'v) list" where
  "entries ks m = map (\<lambda>k. (k, the (m k))) (filter (\<lambda>k. m k \<noteq> None) ks)"

lemma set_entries:
  assumes "iterates ks m"
  shows "set (entries ks m) = {(k, v). m k = Some v}"
  using assms by (force simp: entries_def iterates_def dom_def)

lemma entries_subset: "(k, v) \<in> set (entries ks m) \<Longrightarrow> m k = Some v"
  by (auto simp: entries_def)

lemma distinct_entries: "iterates ks m \<Longrightarrow> distinct (map fst (entries ks m))"
  by (simp add: entries_def iterates_def comp_def)

lemma entries_Nil [simp]: "entries [] m = []"
  by (simp add: entries_def)

lemma entries_Cons:
  "entries (k # ks) m = (case m k of None \<Rightarrow> entries ks m | Some v \<Rightarrow> (k, v) # entries ks m)"
  by (auto simp: entries_def split: option.splits)

lemma entries_update_notin: "k \<notin> set ks \<Longrightarrow> entries ks (m(k := v)) = entries ks m"
  by (induction ks) (auto simp: entries_Cons split: option.splits)

lemma distinct_entries_filter:
  assumes "iterates ks m"
  shows "distinct (map fst (map (\<lambda>(k, v). (k, f k v)) (filter P (entries ks m))))"
proof -
  have "map fst (map (\<lambda>(k, v). (k, f k v)) (filter P (entries ks m))) =
      map fst (filter P (entries ks m))"
    by (simp add: case_prod_beta comp_def)
  then show ?thesis using distinct_entries [OF assms] distinct_map_filter by metis
qed

lemma length_entries: "iterates ks m \<Longrightarrow> length (entries ks m) = card (dom m)"
  using iterates_length [of ks m]
  by (auto simp: entries_def iterates_def dom_def filter_id_conv)

section \<open>Stable sorting\<close>

text \<open>
  Rust's \<open>sort_by\<close> is a stable sort. Its result for short slices (at most 20 elements) is computed
  by shifting each element to the left over the larger ones, which is the definition here; for a
  comparison that is a strict weak order the stable sorted permutation is unique (lemma
  \<open>sort_unique\<close>), so the definition agrees with every stable algorithm at every length.
\<close>

fun shift_in :: "('a \<Rightarrow> 'a \<Rightarrow> bool) \<Rightarrow> 'a \<Rightarrow> 'a list \<Rightarrow> 'a list" where
  "shift_in lt x [] = [x]"
| "shift_in lt x (y # ys) = (if lt x y then y # shift_in lt x ys else x # y # ys)"

definition sort_by :: "('a \<Rightarrow> 'a \<Rightarrow> bool) \<Rightarrow> 'a list \<Rightarrow> 'a list" where
  "sort_by lt xs = rev (fold (shift_in lt) xs [])"

lemma mset_shift_in [simp]: "mset (shift_in lt x ys) = add_mset x (mset ys)"
  by (induction ys) auto

lemma set_shift_in [simp]: "set (shift_in lt x ys) = insert x (set ys)"
  by (metis mset_shift_in set_mset_add_mset_insert set_mset_mset)

lemma mset_fold_shift_in: "mset (fold (shift_in lt) xs acc) = mset xs + mset acc"
  by (induction xs arbitrary: acc) auto

lemma mset_sort_by [simp]: "mset (sort_by lt xs) = mset xs"
  by (simp add: sort_by_def mset_fold_shift_in)

lemma set_sort_by [simp]: "set (sort_by lt xs) = set xs"
  by (metis mset_sort_by set_mset_mset)

lemma length_sort_by [simp]: "length (sort_by lt xs) = length xs"
  by (metis mset_sort_by size_mset)

lemma sort_by_Nil [simp]: "sort_by lt [] = []"
  by (simp add: sort_by_def)

lemma sort_by_singleton [simp]: "sort_by lt [x] = [x]"
  by (simp add: sort_by_def)

lemma sort_by_eq_Nil [simp]: "sort_by lt xs = [] \<longleftrightarrow> xs = []"
  by (metis length_0_conv length_sort_by)

lemma distinct_sort_by [simp]: "distinct (sort_by lt xs) = distinct xs"
  by (metis mset_sort_by mset_eq_imp_distinct_iff)

text \<open>
  The contract of a comparison: a strict weak order on the elements that satisfy \<open>ok\<close> (for keys
  of type \<open>f64\<close>, the elements whose key is not NaN).
\<close>

locale strict_weak_order =
  fixes lt :: "'a \<Rightarrow> 'a \<Rightarrow> bool"
    and ok :: "'a \<Rightarrow> bool"
  assumes lt_irrefl: "ok a \<Longrightarrow> \<not> lt a a"
    and lt_trans: "ok a \<Longrightarrow> ok b \<Longrightarrow> ok c \<Longrightarrow> lt a b \<Longrightarrow> lt b c \<Longrightarrow> lt a c"
    and not_lt_trans: "ok a \<Longrightarrow> ok b \<Longrightarrow> ok c \<Longrightarrow> \<not> lt a b \<Longrightarrow> \<not> lt b c \<Longrightarrow> \<not> lt a c"
begin

lemma lt_asym: "ok a \<Longrightarrow> ok b \<Longrightarrow> lt a b \<Longrightarrow> \<not> lt b a"
  using lt_trans lt_irrefl by blast

definition same :: "'a \<Rightarrow> 'a \<Rightarrow> bool" where
  "same a b \<longleftrightarrow> \<not> lt a b \<and> \<not> lt b a"

lemma shift_in_sorted:
  "sorted_wrt (\<lambda>a b. \<not> lt a b) ys \<Longrightarrow> ok x \<Longrightarrow> \<forall>y \<in> set ys. ok y \<Longrightarrow>
   sorted_wrt (\<lambda>a b. \<not> lt a b) (shift_in lt x ys)"
proof (induction ys)
  case Nil
  then show ?case by simp
next
  case (Cons y ys)
  have "\<not> lt x z" if "\<not> lt x y" "z \<in> set ys" for z
    using that not_lt_trans [of x y z] Cons.prems by auto
  with Cons show ?case
    by (auto dest: lt_asym)
qed

lemma fold_shift_in_sorted:
  "sorted_wrt (\<lambda>a b. \<not> lt a b) acc \<Longrightarrow> \<forall>x \<in> set xs \<union> set acc. ok x \<Longrightarrow>
   sorted_wrt (\<lambda>a b. \<not> lt a b) (fold (shift_in lt) xs acc)"
  by (induction xs arbitrary: acc) (auto simp: shift_in_sorted)

lemma sort_by_sorted:
  assumes "\<forall>x \<in> set xs. ok x"
  shows "sorted_wrt (\<lambda>a b. \<not> lt b a) (sort_by lt xs)"
  using fold_shift_in_sorted [of "[]" xs] assms
  by (simp add: sort_by_def sorted_wrt_rev)

lemma sort_by_head:
  assumes "\<forall>x \<in> set xs. ok x" and "sort_by lt xs = y # ys" and "x \<in> set xs"
  shows "\<not> lt x y"
proof -
  have "sorted_wrt (\<lambda>a b. \<not> lt b a) (y # ys)"
    using sort_by_sorted [OF assms(1)] assms(2) by simp
  moreover have "x \<in> set (y # ys)"
    using assms(2,3) by (metis set_sort_by)
  ultimately show ?thesis
    using assms(1,3) lt_irrefl by auto
qed

lemma shift_in_stable:
  assumes "ok x" "ok z" "\<forall>y \<in> set ys. ok y"
  shows "filter (same z) (shift_in lt x ys) =
    (if same z x then x # filter (same z) ys else filter (same z) ys)"
  using assms(3)
proof (induction ys)
  case Nil
  then show ?case by simp
next
  case (Cons y ys)
  have "\<not> (same z x \<and> same z y)" if "lt x y"
    using that not_lt_trans [of x z y] assms Cons.prems by (auto simp: same_def)
  with Cons show ?case by auto
qed

lemma fold_shift_in_stable:
  "\<forall>x \<in> set xs \<union> set acc. ok x \<Longrightarrow> ok z \<Longrightarrow>
   filter (same z) (fold (shift_in lt) xs acc) =
   rev (filter (same z) xs) @ filter (same z) acc"
  by (induction xs arbitrary: acc) (auto simp: shift_in_stable)

lemma sort_by_stable:
  assumes "\<forall>x \<in> set xs. ok x" and "ok z"
  shows "filter (same z) (sort_by lt xs) = filter (same z) xs"
  using fold_shift_in_stable [of xs "[]" z] assms
  by (simp add: sort_by_def rev_filter [symmetric])

lemma sort_unique:
  assumes "sorted_wrt (\<lambda>a b. \<not> lt b a) xs" "sorted_wrt (\<lambda>a b. \<not> lt b a) ys"
    and "\<forall>x \<in> set xs. ok x" "mset xs = mset ys"
    and "\<And>z. ok z \<Longrightarrow> filter (same z) xs = filter (same z) ys"
  shows "xs = ys"
  using assms
proof (induction xs arbitrary: ys)
  case Nil
  then show ?case by simp
next
  case (Cons x xs)
  from Cons.prems(4) obtain y ys' where ys: "ys = y # ys'"
    by (cases ys) auto
  have okx: "ok x" using Cons.prems(3) by simp
  have sets: "set (x # xs) = set (y # ys')"
    using Cons.prems(4) ys by (metis set_mset_mset)
  have oky: "ok y" using sets Cons.prems(3) by auto
  have "\<not> lt y x"
  proof (cases "y = x")
    case True
    then show ?thesis using lt_irrefl okx by simp
  next
    case False
    then have "y \<in> set xs" using sets by auto
    then show ?thesis using Cons.prems(1) by auto
  qed
  moreover have "\<not> lt x y"
  proof (cases "y = x")
    case True
    then show ?thesis using lt_irrefl okx by simp
  next
    case False
    then have "x \<in> set ys'" using sets by auto
    then show ?thesis using Cons.prems(2) ys by auto
  qed
  ultimately have "same x y" "same x x"
    using lt_irrefl okx by (auto simp: same_def)
  then have xy: "x = y"
    using Cons.prems(5) [OF okx] ys by simp
  have "filter (same z) xs = filter (same z) ys'" if "ok z" for z
    using Cons.prems(5) [OF that] ys xy by (auto split: if_splits)
  then have "xs = ys'"
    using Cons.prems ys xy by (intro Cons.IH) auto
  then show ?case using ys xy by simp
qed

end

end
