(* ===== verification/F64.thy ===== *)
theory F64
  imports Prelude Complex_Main "HOL-Library.Log_Nat"
begin

text \<open>
  The \<open>f64\<close> type of Rust: IEEE-754 binary64 with rounding to nearest, ties to even.

  A value is NaN, an infinity or a finite rational. Every arithmetic operation computes the exact
  rational result and rounds it with \<open>to_f64\<close>: 53 bits of precision, subnormals down to \<open>2^-1074\<close>,
  overflow to an infinity at \<open>2^1024\<close>. Comparisons are the IEEE ones (any comparison with NaN is
  false); \<open>=\<close> of HOL identifies NaN with itself and is used for bookkeeping only.

  Zero carries no sign: \<open>-0.0\<close> and \<open>0.0\<close> are one value. The two differ in the program only by the
  sign of a quotient with a zero divisor, and the modelled code divides by a guarded positive
  value, by a sum of non-negative terms, or by a user-chosen reference for which \<open>-0.0\<close> is read
  as \<open>0.0\<close>.
\<close>

section \<open>Rounding a rational to 53 bits\<close>

definition ilog2 :: "rat \<Rightarrow> int" where
  "ilog2 x = (case quotient_of x of (n, d) \<Rightarrow>
     let k = bitlen n - bitlen d in if 2 powi k \<le> x then k else k - 1)"

definition round_half_even :: "rat \<Rightarrow> int" where
  "round_half_even x =
     (let f = \<lfloor>x\<rfloor>; r = x - of_int f
      in if r < 1 / 2 then f else if 1 / 2 < r then f + 1 else if even f then f else f + 1)"

definition ulp_exp :: "rat \<Rightarrow> int" where
  "ulp_exp x = max (ilog2 x - 52) (- 1074)"

definition rnd_pos :: "rat \<Rightarrow> rat" where
  "rnd_pos x = of_int (round_half_even (x / 2 powi ulp_exp x)) * 2 powi ulp_exp x"

definition rnd :: "rat \<Rightarrow> rat" where
  "rnd x = (if x = 0 then 0 else if 0 < x then rnd_pos x else - rnd_pos (- x))"

lemma powi_mono2: "m \<le> n \<Longrightarrow> (2::rat) powi m \<le> 2 powi n"
  by (rule power_int_increasing) auto

lemma powi_pos2 [simp]: "0 < (2::rat) powi n"
  by simp

lemma powi_less_cancel2: "(2::rat) powi m < 2 powi n \<Longrightarrow> m < n"
  using powi_mono2 [of n m] by (metis linorder_not_le)

lemma powi_strict_mono2: "m < n \<Longrightarrow> (2::rat) powi m < 2 powi n"
  by (rule power_int_strict_increasing) auto

lemma powi_split2: "(2::rat) powi m = 2 powi (m - n) * 2 powi n"
  by (simp flip: power_int_add)

lemma powi_int2: "n \<le> m \<Longrightarrow> \<exists>k::int. (2::rat) powi (m - n) = of_int k"
  by (rule exI [of _ "2 ^ nat (m - n)"]) (simp add: power_int_def)

lemma ilog2_bounds:
  assumes "0 < x"
  shows "2 powi ilog2 x \<le> x \<and> x < 2 powi (ilog2 x + 1)"
proof -
  obtain n d where q: "quotient_of x = (n, d)" by (cases "quotient_of x")
  have d: "0 < d" using quotient_of_denom_pos [OF q] .
  have x: "x = of_int n / of_int d" using quotient_of_div [OF q] .
  have n: "0 < n" using assms d x by (simp add: zero_less_divide_iff)
  let ?k = "bitlen n - bitlen d"
  have bn: "(2::rat) powi (bitlen n - 1) \<le> of_int n" "of_int n < (2::rat) powi bitlen n"
    and bd: "(2::rat) powi (bitlen d - 1) \<le> of_int d" "of_int d < (2::rat) powi bitlen d"
  proof -
    have pw: "(2::rat) powi m \<le> of_int i \<longleftrightarrow> 2 ^ nat m \<le> i"
      "of_int i < (2::rat) powi m \<longleftrightarrow> i < 2 ^ nat m" if "0 \<le> m" for i m
      using that of_int_le_iff [where 'a = rat, of "2 ^ nat m" i]
        of_int_less_iff [where 'a = rat, of i "2 ^ nat m"]
      by (simp_all add: power_int_def)
    have ge: "1 \<le> bitlen n" "1 \<le> bitlen d"
      using bitlen_eq_zero_iff [of n] bitlen_eq_zero_iff [of d] bitlen_nonneg [of n]
        bitlen_nonneg [of d] n d by linarith+
    show "(2::rat) powi (bitlen n - 1) \<le> of_int n" "of_int n < (2::rat) powi bitlen n"
      "(2::rat) powi (bitlen d - 1) \<le> of_int d" "of_int d < (2::rat) powi bitlen d"
      using ge bitlen_bounds [OF n] bitlen_bounds [OF d] by (simp_all add: pw)
  qed
  have dp: "(0::rat) < of_int d" using d by simp
  have hi: "x < 2 powi (?k + 1)"
  proof -
    have "of_int n < (2::rat) powi (?k + 1) * 2 powi (bitlen d - 1)"
      using bn(2) by (simp flip: power_int_add)
    also have "\<dots> \<le> 2 powi (?k + 1) * of_int d"
      using bd(1) by (intro mult_left_mono) auto
    finally show ?thesis using dp by (simp add: x divide_less_eq mult.commute)
  qed
  have lo: "2 powi (?k - 1) \<le> x"
  proof -
    have "2 powi (?k - 1) * of_int d \<le> 2 powi (?k - 1) * (2::rat) powi bitlen d"
      using bd(2) by (intro mult_left_mono) auto
    also have "\<dots> = 2 powi (bitlen n - 1)" by (simp flip: power_int_add)
    also have "\<dots> \<le> of_int n" by (rule bn(1))
    finally show ?thesis using dp by (simp add: x le_divide_eq mult.commute)
  qed
  show ?thesis using hi lo by (simp add: ilog2_def q Let_def)
qed

lemma ilog2_mono: "0 < x \<Longrightarrow> x \<le> y \<Longrightarrow> ilog2 x \<le> ilog2 y"
proof -
  assume "0 < x" "x \<le> y"
  then have "(2::rat) powi ilog2 x < 2 powi (ilog2 y + 1)"
    using ilog2_bounds [of x] ilog2_bounds [of y] by linarith
  then show ?thesis by (auto dest: powi_less_cancel2)
qed

lemma ilog2_less: "0 < x \<Longrightarrow> x < 2 powi n \<Longrightarrow> ilog2 x < n"
  using ilog2_bounds [of x] powi_less_cancel2 [of "ilog2 x" n] by linarith

lemma ulp_exp_mono: "0 < x \<Longrightarrow> x \<le> y \<Longrightarrow> ulp_exp x \<le> ulp_exp y"
  using ilog2_mono [of x y] by (auto simp: ulp_exp_def)

lemma round_half_even_of_int [simp]: "round_half_even (of_int i) = i"
  by (simp add: round_half_even_def)

lemma round_half_even_floor:
  "\<lfloor>x\<rfloor> \<le> round_half_even x" "round_half_even x \<le> \<lfloor>x\<rfloor> + 1"
  by (auto simp: round_half_even_def Let_def)

lemma round_half_even_mono: "x \<le> y \<Longrightarrow> round_half_even x \<le> round_half_even y"
proof -
  assume xy: "x \<le> y"
  then have fl: "\<lfloor>x\<rfloor> \<le> \<lfloor>y\<rfloor>" by (rule floor_mono)
  show ?thesis
  proof (cases "\<lfloor>x\<rfloor> = \<lfloor>y\<rfloor>")
    case True
    then show ?thesis using xy by (auto simp: round_half_even_def Let_def)
  next
    case False
    then show ?thesis
      using fl round_half_even_floor(2) [of x] round_half_even_floor(1) [of y] by linarith
  qed
qed

lemma round_half_even_le_int: "x \<le> of_int i \<Longrightarrow> round_half_even x \<le> i"
  using round_half_even_mono [of x "of_int i"] by simp

lemma int_le_round_half_even: "of_int i \<le> x \<Longrightarrow> i \<le> round_half_even x"
  using round_half_even_mono [of "of_int i" x] by simp

lemma rnd_pos_nonneg: "0 < x \<Longrightarrow> 0 \<le> rnd_pos x"
  using int_le_round_half_even [of 0 "x / 2 powi ulp_exp x"]
  by (simp add: rnd_pos_def)

text \<open>Multiples of the unit in the last place are fixed points; all binary64 numbers are such.\<close>

lemma rnd_pos_grid:
  assumes "0 < m" "m \<le> 2 ^ 53" "- 1074 \<le> e"
  shows "rnd_pos (of_int m * 2 powi e) = of_int m * 2 powi e"
proof -
  let ?r = "of_int m * (2::rat) powi e"
  have pos: "0 < ?r" using assms by simp
  obtain k :: int where k: "?r / 2 powi ulp_exp ?r = of_int k"
  proof (cases "m = 2 ^ 53")
    case True
    have r: "?r = 2 powi (e + 53)" using True by (simp add: power_int_add)
    have "(2::rat) powi (e + 53) < 2 powi (ilog2 ?r + 1)" "?r < 2 powi (e + 54)"
      using ilog2_bounds [OF pos] powi_strict_mono2 [of "e + 53" "e + 54"] by (simp_all add: r)
    then have "ilog2 ?r = e + 53"
      using powi_less_cancel2 [of "e + 53" "ilog2 ?r + 1"] ilog2_less [OF pos, of "e + 54"]
      by simp
    then have "ulp_exp ?r = e + 1" using assms by (simp add: ulp_exp_def)
    then have "?r / 2 powi ulp_exp ?r = 2 powi (e + 53 - (e + 1))"
      unfolding r by (simp flip: power_int_diff)
    then show ?thesis using that [of "2 ^ 52"] by (simp add: power_int_def)
  next
    case False
    then have "m < 2 ^ 53" using assms by simp
    then have "(of_int m :: rat) < 2 ^ 53"
      by (metis of_int_less_iff of_int_numeral of_int_power)
    then have "?r < 2 ^ 53 * 2 powi e" by (intro mult_strict_right_mono) simp_all
    also have "\<dots> = 2 powi (e + 53)" by (simp add: power_int_add)
    finally have "?r < 2 powi (e + 53)" .
    then have "ilog2 ?r < e + 53" by (rule ilog2_less [OF pos])
    then have "ulp_exp ?r \<le> e" using assms by (simp add: ulp_exp_def)
    then obtain j :: int where j: "(2::rat) powi (e - ulp_exp ?r) = of_int j"
      using powi_int2 by blast
    have "?r / 2 powi ulp_exp ?r = of_int m * (2 powi e / 2 powi ulp_exp ?r)" by simp
    also have "\<dots> = of_int m * 2 powi (e - ulp_exp ?r)" by (simp flip: power_int_diff)
    also have "\<dots> = of_int (m * j)" using j by simp
    finally show ?thesis by (rule that)
  qed
  have "rnd_pos ?r = of_int k * 2 powi ulp_exp ?r"
    by (simp add: rnd_pos_def k)
  also have "\<dots> = ?r" by (simp flip: k)
  finally show ?thesis .
qed

lemma rnd_grid:
  assumes "\<bar>m\<bar> \<le> 2 ^ 53" "- 1074 \<le> e"
  shows "rnd (of_int m * 2 powi e) = of_int m * 2 powi e"
proof -
  have p: "0 < (2::rat) powi e" by simp
  then have q: "\<not> (2::rat) powi e < 0" by linarith
  consider "m = 0" | "0 < m" | "m < 0" by linarith
  then show ?thesis
    using assms rnd_pos_grid [of m e] rnd_pos_grid [of "- m" e] p q
    by cases (simp_all add: rnd_def zero_less_mult_iff)
qed

lemma rnd_pos_form:
  assumes "0 < x"
  shows "\<exists>m e. rnd_pos x = of_int m * 2 powi e \<and> 0 \<le> m \<and> m \<le> 2 ^ 53 \<and> - 1074 \<le> e"
proof (intro exI conjI)
  let ?m = "round_half_even (x / 2 powi ulp_exp x)"
  show "rnd_pos x = of_int ?m * 2 powi ulp_exp x" by (simp add: rnd_pos_def)
  show "0 \<le> ?m" using assms by (intro int_le_round_half_even) simp
  have "x < 2 powi (ilog2 x + 1)" using ilog2_bounds [OF assms] by simp
  also have "\<dots> \<le> 2 powi (53 + ulp_exp x)" by (intro powi_mono2) (simp add: ulp_exp_def)
  also have "\<dots> = 2 ^ 53 * 2 powi ulp_exp x"
    by (simp add: power_int_add)
  finally have "x / 2 powi ulp_exp x \<le> of_int (2 ^ 53)" by (simp add: divide_le_eq)
  then show "?m \<le> 2 ^ 53" by (rule round_half_even_le_int)
  show "- 1074 \<le> ulp_exp x" by (simp add: ulp_exp_def)
qed

lemma rnd_form: "\<exists>m e. rnd x = of_int m * 2 powi e \<and> \<bar>m\<bar> \<le> 2 ^ 53 \<and> - 1074 \<le> e"
proof -
  consider "x = 0" | "0 < x" | "x < 0" by linarith
  then show ?thesis
  proof cases
    case 1
    then show ?thesis by (intro exI [of _ 0]) (simp add: rnd_def)
  next
    case 2
    then show ?thesis using rnd_pos_form [of x] by (fastforce simp: rnd_def)
  next
    case 3
    then obtain m e where "rnd_pos (- x) = of_int m * 2 powi e" "0 \<le> m" "m \<le> 2 ^ 53" "- 1074 \<le> e"
      using rnd_pos_form [of "- x"] by auto
    then show ?thesis using 3 by (intro exI [of _ "- m"] exI [of _ e]) (simp add: rnd_def)
  qed
qed

lemma rnd_pos_mono:
  assumes "0 < x" "x \<le> y"
  shows "rnd_pos x \<le> rnd_pos y"
proof (cases "ulp_exp x = ulp_exp y")
  case True
  have "x / 2 powi ulp_exp y \<le> y / 2 powi ulp_exp y"
    using assms by (simp add: divide_right_mono)
  then have "round_half_even (x / 2 powi ulp_exp y) \<le> round_half_even (y / 2 powi ulp_exp y)"
    by (rule round_half_even_mono)
  then show ?thesis using True by (simp add: rnd_pos_def)
next
  case False
  then have lt: "ulp_exp x < ulp_exp y" using ulp_exp_mono [OF assms] by simp
  then have uy: "ulp_exp y = ilog2 y - 52" and ly: "ulp_exp x \<le> ilog2 y" and "ilog2 x < ilog2 y"
    by (auto simp: ulp_exp_def max_def split: if_splits)
  then have xL: "x \<le> 2 powi ilog2 y"
    using ilog2_bounds [OF assms(1)] powi_mono2 [of "ilog2 x + 1" "ilog2 y"] by linarith
  obtain j :: int where j: "(2::rat) powi (ilog2 y - ulp_exp x) = of_int j"
    using powi_int2 [OF ly] by blast
  have "x / 2 powi ulp_exp x \<le> of_int j"
    using xL by (simp add: divide_le_eq powi_split2 [of "ilog2 y" "ulp_exp x"] flip: j)
  then have "rnd_pos x \<le> of_int j * 2 powi ulp_exp x"
    by (auto simp: rnd_pos_def intro!: mult_right_mono dest: round_half_even_le_int)
  also have "\<dots> = 2 powi ilog2 y"
    by (simp add: powi_split2 [of "ilog2 y" "ulp_exp x"] flip: j)
  also have "\<dots> = of_int (2 ^ 52) * 2 powi ulp_exp y"
    using powi_split2 [of "ilog2 y" "ulp_exp y"] by (simp add: uy power_int_def)
  also have "\<dots> \<le> rnd_pos y"
  proof -
    have "y \<ge> 2 powi ilog2 y" using ilog2_bounds [of y] assms by simp
    then have "of_int (2 ^ 52) * 2 powi ulp_exp y \<le> y"
      using powi_split2 [of "ilog2 y" "ulp_exp y"] by (simp add: uy power_int_def)
    then have "of_int (2 ^ 52) \<le> y / 2 powi ulp_exp y" by (simp add: le_divide_eq)
    then have "2 ^ 52 \<le> round_half_even (y / 2 powi ulp_exp y)" by (rule int_le_round_half_even)
    then show ?thesis
      unfolding rnd_pos_def by (intro mult_right_mono) (simp_all only: of_int_le_iff, simp)
  qed
  finally show ?thesis .
qed

lemma rnd_zero [simp]: "rnd 0 = 0"
  by (simp add: rnd_def)

lemma rnd_uminus [simp]: "rnd (- x) = - rnd x"
  by (simp add: rnd_def)

lemma rnd_mono: "x \<le> y \<Longrightarrow> rnd x \<le> rnd y"
proof -
  assume "x \<le> y"
  moreover have "- rnd_pos (- x) \<le> 0" if "x < 0" using rnd_pos_nonneg [of "- x"] that by simp
  moreover have "0 \<le> rnd_pos y" if "0 < y" using rnd_pos_nonneg [of y] that by simp
  moreover have "rnd_pos (- y) \<le> rnd_pos (- x)" if "y < 0" "x \<le> y"
    using rnd_pos_mono [of "- y" "- x"] that by simp
  ultimately show ?thesis
    using rnd_pos_mono [of x y] by (auto simp: rnd_def)
qed

lemma rnd_rnd [simp]: "rnd (rnd x) = rnd x"
  using rnd_form [of x] rnd_grid by fastforce

lemma rnd_of_int: "\<bar>i\<bar> \<le> 2 ^ 53 \<Longrightarrow> rnd (of_int i) = of_int i"
  using rnd_grid [of i 0] by simp

lemma rnd_one [simp]: "rnd 1 = 1"
  using rnd_of_int [of 1] by simp

section \<open>The type and its operations\<close>

datatype f64 = NaN | PInf | NInf | Fin rat

definition to_f64 :: "rat \<Rightarrow> f64" where
  "to_f64 q = (let r = rnd q in
     if 2 ^ 1024 \<le> r then PInf else if r \<le> - (2 ^ 1024) then NInf else Fin r)"

text \<open>Literals and integer casts (\<open>x as f64\<close>) round to nearest.\<close>

definition f64_of_nat :: "nat \<Rightarrow> f64" where
  "f64_of_nat n = to_f64 (of_nat n)"

definition f64_of_int :: "int \<Rightarrow> f64" where
  "f64_of_int i = to_f64 (of_int i)"

instantiation f64 :: "{zero, one, plus, uminus, minus, times, inverse, ord, abs}"
begin

definition zero_f64 :: f64 where "zero_f64 = Fin 0"

definition one_f64 :: f64 where "one_f64 = Fin 1"

fun plus_f64 :: "f64 \<Rightarrow> f64 \<Rightarrow> f64" where
  "plus_f64 (Fin a) (Fin b) = to_f64 (a + b)"
| "plus_f64 NaN _ = NaN"
| "plus_f64 _ NaN = NaN"
| "plus_f64 PInf NInf = NaN"
| "plus_f64 NInf PInf = NaN"
| "plus_f64 PInf _ = PInf"
| "plus_f64 _ PInf = PInf"
| "plus_f64 NInf _ = NInf"
| "plus_f64 _ NInf = NInf"

fun uminus_f64 :: "f64 \<Rightarrow> f64" where
  "uminus_f64 NaN = NaN"
| "uminus_f64 PInf = NInf"
| "uminus_f64 NInf = PInf"
| "uminus_f64 (Fin a) = Fin (- a)"

definition minus_f64 :: "f64 \<Rightarrow> f64 \<Rightarrow> f64" where
  "minus_f64 a b = a + (- b)"

fun times_f64 :: "f64 \<Rightarrow> f64 \<Rightarrow> f64" where
  "times_f64 (Fin a) (Fin b) = to_f64 (a * b)"
| "times_f64 NaN _ = NaN"
| "times_f64 _ NaN = NaN"
| "times_f64 (Fin a) PInf = (if a = 0 then NaN else if 0 < a then PInf else NInf)"
| "times_f64 (Fin a) NInf = (if a = 0 then NaN else if 0 < a then NInf else PInf)"
| "times_f64 PInf (Fin b) = (if b = 0 then NaN else if 0 < b then PInf else NInf)"
| "times_f64 NInf (Fin b) = (if b = 0 then NaN else if 0 < b then NInf else PInf)"
| "times_f64 PInf PInf = PInf"
| "times_f64 PInf NInf = NInf"
| "times_f64 NInf PInf = NInf"
| "times_f64 NInf NInf = PInf"

fun divide_f64 :: "f64 \<Rightarrow> f64 \<Rightarrow> f64" where
  "divide_f64 (Fin a) (Fin b) =
     (if b = 0 then (if a = 0 then NaN else if 0 < a then PInf else NInf) else to_f64 (a / b))"
| "divide_f64 NaN _ = NaN"
| "divide_f64 _ NaN = NaN"
| "divide_f64 (Fin a) _ = Fin 0"
| "divide_f64 PInf (Fin b) = (if 0 \<le> b then PInf else NInf)"
| "divide_f64 NInf (Fin b) = (if 0 \<le> b then NInf else PInf)"
| "divide_f64 _ _ = NaN"

definition inverse_f64 :: "f64 \<Rightarrow> f64" where
  "inverse_f64 a = (1 :: f64) div a"

fun less_eq_f64 :: "f64 \<Rightarrow> f64 \<Rightarrow> bool" where
  "less_eq_f64 (Fin a) (Fin b) \<longleftrightarrow> a \<le> b"
| "less_eq_f64 NaN _ \<longleftrightarrow> False"
| "less_eq_f64 _ NaN \<longleftrightarrow> False"
| "less_eq_f64 NInf _ \<longleftrightarrow> True"
| "less_eq_f64 _ PInf \<longleftrightarrow> True"
| "less_eq_f64 _ _ \<longleftrightarrow> False"

fun less_f64 :: "f64 \<Rightarrow> f64 \<Rightarrow> bool" where
  "less_f64 (Fin a) (Fin b) \<longleftrightarrow> a < b"
| "less_f64 NaN _ \<longleftrightarrow> False"
| "less_f64 _ NaN \<longleftrightarrow> False"
| "less_f64 NInf NInf \<longleftrightarrow> False"
| "less_f64 NInf _ \<longleftrightarrow> True"
| "less_f64 PInf PInf \<longleftrightarrow> False"
| "less_f64 _ PInf \<longleftrightarrow> True"
| "less_f64 _ _ \<longleftrightarrow> False"

fun abs_f64 :: "f64 \<Rightarrow> f64" where
  "abs_f64 NaN = NaN"
| "abs_f64 PInf = PInf"
| "abs_f64 NInf = PInf"
| "abs_f64 (Fin a) = Fin \<bar>a\<bar>"

instance ..

end

text \<open>
  \<open>f64::min\<close> and \<open>f64::max\<close> return the other operand when one is NaN; \<open>clamp\<close> passes NaN through.
\<close>

definition f64_max :: "f64 \<Rightarrow> f64 \<Rightarrow> f64" where
  "f64_max a b = (if a = NaN then b else if b = NaN then a else if a < b then b else a)"

definition f64_min :: "f64 \<Rightarrow> f64 \<Rightarrow> f64" where
  "f64_min a b = (if a = NaN then b else if b = NaN then a else if b < a then b else a)"

definition clamp :: "f64 \<Rightarrow> f64 \<Rightarrow> f64 \<Rightarrow> f64" where
  "clamp x lo hi = (let y = (if x < lo then lo else x) in if hi < y then hi else y)"

definition is_finite :: "f64 \<Rightarrow> bool" where
  "is_finite x = (case x of Fin _ \<Rightarrow> True | _ \<Rightarrow> False)"

text \<open>\<open>x as u64\<close>: truncation towards zero, saturating, NaN to zero.\<close>

definition f64_to_nat_sat :: "nat \<Rightarrow> f64 \<Rightarrow> nat" where
  "f64_to_nat_sat maxv x = (case x of NaN \<Rightarrow> 0 | PInf \<Rightarrow> maxv | NInf \<Rightarrow> 0
     | Fin a \<Rightarrow> if a \<le> 0 then 0 else min maxv (nat \<lfloor>a\<rfloor>))"

definition f64_to_u64 :: "f64 \<Rightarrow> u64" where
  "f64_to_u64 x = of_nat (f64_to_nat_sat (2 ^ 64 - 1) x)"

definition f64_sum :: "f64 list \<Rightarrow> f64" where
  "f64_sum xs = foldl (+) 0 xs"

definition f64_product :: "f64 list \<Rightarrow> f64" where
  "f64_product xs = foldl (*) 1 xs"

definition EPSILON :: f64 where
  "EPSILON = Fin (1 / 2 ^ 52)"

definition F64_MAX :: f64 where
  "F64_MAX = Fin ((2 ^ 53 - 1) * 2 ^ 971)"

section \<open>Order\<close>

lemma f64_zero_one_Fin: "(0::f64) = Fin 0" "(1::f64) = Fin 1"
  by (simp_all add: zero_f64_def one_f64_def)

lemma f64_zero_not_NaN [simp]: "(0::f64) \<noteq> NaN" "(1::f64) \<noteq> NaN"
  by (simp_all add: f64_zero_one_Fin)

lemma f64_le_PInf: "x \<noteq> NaN \<Longrightarrow> x \<le> PInf"
  by (cases x) auto

lemma f64_le_NaN [simp]: "\<not> (x::f64) \<le> NaN" "\<not> NaN \<le> (x::f64)"
  by (cases x; simp)+

lemma f64_less_NaN [simp]: "\<not> (x::f64) < NaN" "\<not> NaN < (x::f64)"
  by (cases x; simp)+

lemma f64_less_irrefl [simp]: "\<not> (x::f64) < x"
  by (cases x) auto

lemma f64_le_refl: "x \<noteq> NaN \<Longrightarrow> (x::f64) \<le> x"
  by (cases x) auto

lemma f64_less_le: "(x::f64) < y \<longleftrightarrow> x \<le> y \<and> \<not> y \<le> x"
  by (cases x; cases y) auto

lemma f64_not_less: "x \<noteq> NaN \<Longrightarrow> y \<noteq> NaN \<Longrightarrow> \<not> (x::f64) < y \<longleftrightarrow> y \<le> x"
  by (cases x; cases y) auto

lemma f64_not_le: "x \<noteq> NaN \<Longrightarrow> y \<noteq> NaN \<Longrightarrow> \<not> (x::f64) \<le> y \<longleftrightarrow> y < x"
  by (cases x; cases y) auto

lemma f64_le_trans: "(x::f64) \<le> y \<Longrightarrow> y \<le> z \<Longrightarrow> x \<le> z"
  by (cases x; cases y; cases z) auto

lemma f64_less_trans: "(x::f64) < y \<Longrightarrow> y < z \<Longrightarrow> x < z"
  by (cases x; cases y; cases z) auto

lemma f64_le_less_trans: "(x::f64) \<le> y \<Longrightarrow> y < z \<Longrightarrow> x < z"
  by (cases x; cases y; cases z) auto

lemma f64_less_le_trans: "(x::f64) < y \<Longrightarrow> y \<le> z \<Longrightarrow> x < z"
  by (cases x; cases y; cases z) auto

lemma f64_less_imp_le: "(x::f64) < y \<Longrightarrow> x \<le> y"
  by (cases x; cases y) auto

lemma f64_le_antisym: "(x::f64) \<le> y \<Longrightarrow> y \<le> x \<Longrightarrow> x = y"
  by (cases x; cases y) auto

lemma f64_le_not_NaN: "(x::f64) \<le> y \<Longrightarrow> x \<noteq> NaN \<and> y \<noteq> NaN"
  by (cases x; cases y) auto

lemma f64_less_not_NaN: "(x::f64) < y \<Longrightarrow> x \<noteq> NaN \<and> y \<noteq> NaN"
  by (cases x; cases y) auto

lemma f64_not_less_trans:
  "b \<noteq> NaN \<Longrightarrow> \<not> (a::f64) < b \<Longrightarrow> \<not> b < c \<Longrightarrow> \<not> a < c"
  by (cases a; cases b; cases c) auto

lemma key_ascending:
  "strict_weak_order (\<lambda>a b. (key a :: f64) < key b) (\<lambda>a. key a \<noteq> NaN)"
  by unfold_locales (auto intro: f64_less_trans dest: f64_not_less_trans)

lemma key_descending:
  "strict_weak_order (\<lambda>a b. (key b :: f64) < key a) (\<lambda>a. key a \<noteq> NaN)"
  by unfold_locales (auto intro: f64_less_trans dest: f64_not_less_trans)

section \<open>Rounding facts on the type\<close>

lemma to_f64_not_NaN [simp]: "to_f64 q \<noteq> NaN"
  by (simp add: to_f64_def Let_def)

lemma to_f64_mono: "p \<le> q \<Longrightarrow> to_f64 p \<le> to_f64 q"
  using rnd_mono [of p q] by (auto simp: to_f64_def Let_def)

text \<open>A value that binary64 represents exactly.\<close>

definition exact :: "rat \<Rightarrow> bool" where
  "exact q \<longleftrightarrow> rnd q = q \<and> \<bar>q\<bar> < 2 ^ 1024"

definition f64_wf :: "f64 \<Rightarrow> bool" where
  "f64_wf x = (case x of Fin q \<Rightarrow> exact q | _ \<Rightarrow> True)"

lemma to_f64_exact: "exact q \<Longrightarrow> to_f64 q = Fin q"
  by (auto simp: to_f64_def exact_def)

lemma f64_wf_to_f64 [simp]: "f64_wf (to_f64 q)"
  by (auto simp: to_f64_def f64_wf_def exact_def Let_def)

lemma f64_wf_Fin: "f64_wf (Fin q) \<longleftrightarrow> exact q"
  by (simp add: f64_wf_def)

lemma exact_of_int: "\<bar>i\<bar> \<le> 2 ^ 53 \<Longrightarrow> exact (of_int i)"
proof -
  assume i: "\<bar>i\<bar> \<le> 2 ^ 53"
  then have "\<bar>of_int i :: rat\<bar> \<le> 2 ^ 53"
    by (metis of_int_abs of_int_le_iff of_int_numeral of_int_power)
  then have "\<bar>of_int i :: rat\<bar> < 2 ^ 1024"
    by (rule order.strict_trans1) simp
  then show ?thesis using i by (simp add: exact_def rnd_of_int)
qed

lemma exact_0 [simp]: "exact 0" and exact_1 [simp]: "exact 1"
  using exact_of_int [of 0] exact_of_int [of 1] by simp_all

lemma exact_grid:
  assumes "\<bar>m\<bar> \<le> 2 ^ 53" "- 1074 \<le> e" "e \<le> 900"
  shows "exact (of_int m * 2 powi e)"
proof -
  have "\<bar>of_int m :: rat\<bar> \<le> 2 ^ 53"
    using assms(1) by (metis of_int_abs of_int_le_iff of_int_numeral of_int_power)
  moreover have "(2::rat) powi e \<le> 2 powi 900" using assms by (intro powi_mono2)
  ultimately have "\<bar>of_int m * 2 powi e :: rat\<bar> \<le> 2 ^ 53 * 2 powi 900"
    unfolding abs_mult by (intro mult_mono) auto
  also have "\<dots> < 2 ^ 1024" by (simp add: power_int_def)
  finally show ?thesis using assms by (simp add: exact_def rnd_grid)
qed

lemma exact_frac:
  assumes "\<bar>n\<bar> \<le> 2 ^ 53" "k \<le> 1000"
  shows "exact (of_int n / 2 ^ k)"
  using exact_grid [of n "- int k"] assms by (simp add: power_int_minus divide_inverse)

lemma round_half_even_near:
  assumes "\<bar>y - of_int m\<bar> < 1 / 2 \<or> \<bar>y - of_int m\<bar> = 1 / 2 \<and> even m"
  shows "round_half_even y = m"
proof -
  consider "of_int m \<le> y" | "y < of_int m" by linarith
  then show ?thesis
  proof cases
    case 1
    then have "\<lfloor>y\<rfloor> = m" using assms by (intro floor_unique) (auto simp: abs_if split: if_splits)
    then show ?thesis using assms 1 by (auto simp: round_half_even_def Let_def)
  next
    case 2
    then have "\<lfloor>y\<rfloor> = m - 1" using assms by (intro floor_unique) (auto simp: abs_if split: if_splits)
    then show ?thesis using assms 2 by (auto simp: round_half_even_def Let_def)
  qed
qed

lemma ilog2_eq:
  assumes "2 powi e \<le> x" "x < 2 powi (e + 1)"
  shows "ilog2 x = e"
proof -
  have "0 < x" using assms(1) powi_pos2 [of e] by linarith
  then have "2 powi ilog2 x \<le> x" "x < 2 powi (ilog2 x + 1)" using ilog2_bounds by auto
  then have "(2::rat) powi e < 2 powi (ilog2 x + 1)" "(2::rat) powi ilog2 x < 2 powi (e + 1)"
    using assms by linarith+
  then have "e < ilog2 x + 1" "ilog2 x < e + 1" by (simp_all only: powi_less_cancel2)
  then show ?thesis by simp
qed

lemma rnd_lit:
  assumes "2 ^ 52 \<le> q * 2 ^ k" "q * 2 ^ k < 2 ^ 53" "k \<le> 1074"
    and "\<bar>q * 2 ^ k - of_int m\<bar> < 1 / 2 \<or> \<bar>q * 2 ^ k - of_int m\<bar> = 1 / 2 \<and> even m"
  shows "rnd q = of_int m / 2 ^ k"
proof -
  have p: "(2::rat) powi (52 - int k) * 2 ^ k = 2 ^ 52" "(2::rat) powi (53 - int k) * 2 ^ k = 2 ^ 53"
    by (simp_all add: power_int_diff)
  have "0 < q * 2 ^ k" using assms(1) by (rule less_le_trans [rotated]) simp
  then have q: "0 < q" by (simp add: zero_less_mult_iff)
  have "2 powi (52 - int k) \<le> q"
    by (rule mult_right_le_imp_le [of _ "2 ^ k"]) (use p assms(1) in simp_all)
  moreover have "q < 2 powi (52 - int k + 1)"
    by (rule mult_right_less_imp_less [of _ "2 ^ k"]) (use p assms(2) in simp_all)
  ultimately have "ilog2 q = 52 - int k" by (rule ilog2_eq)
  then have u: "ulp_exp q = - int k" using assms(3) by (simp add: ulp_exp_def)
  have d: "q / 2 powi - int k = q * 2 ^ k" by (simp add: power_int_minus divide_inverse)
  have "rnd_pos q = of_int m * 2 powi - int k"
    unfolding rnd_pos_def u d by (simp add: round_half_even_near [OF assms(4)])
  then show ?thesis using q by (simp add: rnd_def power_int_minus divide_inverse)
qed

lemma to_f64_lit:
  assumes "2 ^ 52 \<le> q * 2 ^ k" "q * 2 ^ k < 2 ^ 53" "k \<le> 1074"
    and "\<bar>q * 2 ^ k - of_int m\<bar> < 1 / 2 \<or> \<bar>q * 2 ^ k - of_int m\<bar> = 1 / 2 \<and> even m"
  shows "to_f64 q = Fin (of_int m / 2 ^ k)"
proof -
  have "(1::rat) \<le> 2 ^ k" by simp
  then have "of_int m / 2 ^ k < (2::rat) ^ 1024"
  proof -
    have "(of_int m :: rat) < 2 ^ 54" using assms(2,4) by (auto simp: abs_if split: if_splits)
    also have "(2::rat) ^ 54 \<le> 2 ^ 1024" by (rule power_increasing) auto
    also have "\<dots> \<le> 2 ^ 1024 * 2 ^ k" by simp
    finally show ?thesis by (simp add: divide_less_eq)
  qed
  moreover have "- (2 ^ 1024) < of_int m / (2::rat) ^ k"
  proof -
    have "(0::rat) \<le> of_int m"
      using assms(1,4) by (auto simp: abs_if split: if_splits)
    then have "0 \<le> of_int m / (2::rat) ^ k" by simp
    moreover have "- (2 ^ 1024) < (0::rat)" by simp
    ultimately show ?thesis by linarith
  qed
  ultimately show ?thesis using rnd_lit [OF assms] by (simp add: to_f64_def Let_def not_le)
qed

text \<open>The literals of the sources.\<close>

lemma to_f64_lits:
  "to_f64 (7 / 10) = Fin (3152519739159347 / 4503599627370496)"
  "to_f64 (3 / 10) = Fin (5404319552844595 / 18014398509481984)"
  "to_f64 (4 / 5) = Fin (3602879701896397 / 4503599627370496)"
  "to_f64 (1 / 10) = Fin (3602879701896397 / 36028797018963968)"
  "to_f64 (1 / 5) = Fin (3602879701896397 / 18014398509481984)"
  "to_f64 (1 / 100) = Fin (5764607523034235 / 576460752303423488)"
  "to_f64 (6 / 5) = Fin (5404319552844595 / 4503599627370496)"
  "to_f64 (2 / 5) = Fin (3602879701896397 / 9007199254740992)"
  "to_f64 (3 / 5) = Fin (5404319552844595 / 9007199254740992)"
  "to_f64 (9 / 10) = Fin (8106479329266893 / 9007199254740992)"
  "to_f64 (1 / 20) = Fin (3602879701896397 / 72057594037927936)"
  "to_f64 (19 / 20) = Fin (4278419646001971 / 4503599627370496)"
  "to_f64 (1 / 2) = Fin (1 / 2)" "to_f64 (3 / 2) = Fin (3 / 2)" "to_f64 1 = Fin 1"
  using to_f64_lit [of "7 / 10" 53 6305039478318694]
    to_f64_lit [of "3 / 10" 54 5404319552844595]
    to_f64_lit [of "4 / 5" 53 7205759403792794]
    to_f64_lit [of "1 / 10" 56 7205759403792794]
    to_f64_lit [of "1 / 5" 55 7205759403792794]
    to_f64_lit [of "1 / 100" 59 5764607523034235]
    to_f64_lit [of "6 / 5" 52 5404319552844595]
    to_f64_lit [of "2 / 5" 54 7205759403792794]
    to_f64_lit [of "3 / 5" 53 5404319552844595]
    to_f64_lit [of "9 / 10" 53 8106479329266893]
    to_f64_lit [of "1 / 20" 57 7205759403792794]
    to_f64_lit [of "19 / 20" 53 8556839292003942]
    to_f64_exact [OF exact_frac, of 1 1] to_f64_exact [OF exact_frac, of 3 1]
    to_f64_exact [OF exact_1]
  by simp_all

lemma f64_wf_01 [simp]: "f64_wf 0" "f64_wf 1"
  by (simp_all add: f64_zero_one_Fin f64_wf_Fin)

lemma f64_wf_plus [simp]: "f64_wf a \<Longrightarrow> f64_wf b \<Longrightarrow> f64_wf (a + b)"
  by (cases a; cases b) (simp_all add: f64_wf_def [of PInf] f64_wf_def [of NInf] f64_wf_def [of NaN])

lemma f64_wf_times [simp]: "f64_wf (a * b)"
  by (cases a; cases b) (simp_all add: f64_wf_def [of PInf] f64_wf_def [of NInf] f64_wf_def [of NaN])

section \<open>The unit interval and the non-negative values\<close>

definition unit_f64 :: "f64 \<Rightarrow> bool" where
  "unit_f64 x \<longleftrightarrow> 0 \<le> x \<and> x \<le> 1"

lemma unit_f64_Fin: "unit_f64 x \<longleftrightarrow> (\<exists>q. x = Fin q \<and> 0 \<le> q \<and> q \<le> 1)"
  by (cases x) (auto simp: unit_f64_def f64_zero_one_Fin)

lemma unit_f64_01 [simp]: "unit_f64 0" "unit_f64 1"
  by (simp_all add: unit_f64_def f64_zero_one_Fin)

lemma unit_f64_not_NaN: "unit_f64 x \<Longrightarrow> x \<noteq> NaN"
  by (auto simp: unit_f64_Fin)

lemma to_f64_between:
  assumes "p \<le> q" "q \<le> r" "exact p" "exact r"
  shows "\<exists>s. to_f64 q = Fin s \<and> p \<le> s \<and> s \<le> r \<and> exact s"
proof -
  have "Fin p \<le> to_f64 q" "to_f64 q \<le> Fin r"
    using to_f64_mono [OF assms(1)] to_f64_mono [OF assms(2)] assms(3,4)
    by (simp_all add: to_f64_exact)
  then obtain s where "to_f64 q = Fin s" by (cases "to_f64 q") auto
  then show ?thesis
    using \<open>Fin p \<le> to_f64 q\<close> \<open>to_f64 q \<le> Fin r\<close> f64_wf_to_f64 [of q] by (simp add: f64_wf_Fin)
qed

lemma to_f64_unit: "0 \<le> q \<Longrightarrow> q \<le> 1 \<Longrightarrow> unit_f64 (to_f64 q)"
  using to_f64_between [of 0 q 1] by (auto simp: unit_f64_Fin)

lemma unit_times [simp]: "unit_f64 a \<Longrightarrow> unit_f64 b \<Longrightarrow> unit_f64 (a * b)"
  by (auto simp: unit_f64_Fin [of a] unit_f64_Fin [of b] intro!: to_f64_unit mult_le_one)

lemma unit_one_minus [simp]: "unit_f64 a \<Longrightarrow> unit_f64 (1 - a)"
  by (auto simp: unit_f64_Fin [of a] minus_f64_def f64_zero_one_Fin intro!: to_f64_unit)

lemma unit_product: "\<forall>x \<in> set xs. unit_f64 x \<Longrightarrow> unit_f64 a \<Longrightarrow> unit_f64 (foldl (*) a xs)"
  by (induction xs arbitrary: a) auto

lemma unit_f64_product: "\<forall>x \<in> set xs. unit_f64 x \<Longrightarrow> unit_f64 (f64_product xs)"
  by (simp add: f64_product_def unit_product)

lemma clamp_unit: "x \<noteq> NaN \<Longrightarrow> unit_f64 (clamp x 0 1)"
  by (cases x) (auto simp: clamp_def Let_def unit_f64_def f64_zero_one_Fin)

lemma clamp_id: "unit_f64 x \<Longrightarrow> clamp x 0 1 = x"
  by (auto simp: clamp_def Let_def unit_f64_Fin f64_zero_one_Fin)

lemma clamp_NaN [simp]: "clamp NaN lo hi = NaN"
  by (simp add: clamp_def)

lemma clamp_eq_NaN [simp]: "clamp x 0 1 = NaN \<longleftrightarrow> x = NaN"
  using clamp_unit [of x] unit_f64_not_NaN by auto

lemma nonneg_plus: "(0::f64) \<le> a \<Longrightarrow> 0 \<le> b \<Longrightarrow> 0 \<le> a + b"
  using to_f64_mono [of 0] by (cases a; cases b) (auto simp: f64_zero_one_Fin to_f64_exact)

lemma le_plus_nonneg: "f64_wf a \<Longrightarrow> (0::f64) \<le> a \<Longrightarrow> 0 \<le> b \<Longrightarrow> a \<le> a + b"
proof (cases a; cases b)
  fix p q assume a: "f64_wf a" "0 \<le> a" "0 \<le> b" "a = Fin p" "b = Fin q"
  then have "to_f64 p \<le> to_f64 (p + q)" by (intro to_f64_mono) (simp add: f64_zero_one_Fin)
  then show "a \<le> a + b" using a by (simp add: f64_wf_Fin to_f64_exact)
qed (auto simp: f64_zero_one_Fin)

lemma plus_mono_nonneg:
  "(0::f64) \<le> a \<Longrightarrow> a \<le> b \<Longrightarrow> 0 \<le> c \<Longrightarrow> c \<le> d \<Longrightarrow> a + c \<le> b + d"
  by (cases a; cases b; cases c; cases d) (auto simp: f64_zero_one_Fin f64_le_PInf intro: to_f64_mono)

lemma nonneg_sum: "\<forall>x \<in> set xs. (0::f64) \<le> x \<Longrightarrow> 0 \<le> a \<Longrightarrow> 0 \<le> foldl (+) a xs"
  by (induction xs arbitrary: a) (auto simp: nonneg_plus)

lemma f64_sum_nonneg: "\<forall>x \<in> set xs. (0::f64) \<le> x \<Longrightarrow> 0 \<le> f64_sum xs"
  using nonneg_sum [of xs 0] by (simp add: f64_sum_def f64_le_refl f64_zero_not_NaN)

lemma nonneg_times_fin:
  "(0::f64) \<le> a \<Longrightarrow> 0 \<le> b \<Longrightarrow> is_finite a \<Longrightarrow> is_finite b \<Longrightarrow> 0 \<le> a * b"
  using to_f64_mono [of 0]
  by (cases a; cases b) (auto simp: f64_zero_one_Fin to_f64_exact is_finite_def)

lemma times_unit_le:
  assumes "unit_f64 q" "(0::f64) \<le> w" "is_finite w" "f64_wf w"
  shows "q * w \<le> w" "w * q \<le> w"
proof -
  obtain a where a: "q = Fin a" "0 \<le> a" "a \<le> 1" using assms(1) by (auto simp: unit_f64_Fin)
  obtain b where b: "w = Fin b" "0 \<le> b" "exact b"
    using assms by (cases w) (auto simp: f64_zero_one_Fin is_finite_def f64_wf_def)
  have "to_f64 (a * b) \<le> to_f64 b" using a b by (intro to_f64_mono mult_left_le_one_le) auto
  then show "q * w \<le> w" "w * q \<le> w" using a b by (simp_all add: to_f64_exact mult.commute)
qed

lemma div_le_one:
  assumes "(0::f64) \<le> n" "n \<le> d" "0 < d" "is_finite d"
  shows "unit_f64 (n / d)"
proof -
  obtain b where b: "d = Fin b" "0 < b"
    using assms by (cases d) (auto simp: f64_zero_one_Fin is_finite_def)
  obtain a where a: "n = Fin a" "0 \<le> a" "a \<le> b"
    using assms b by (cases n) (auto simp: f64_zero_one_Fin)
  show ?thesis using a b by (auto intro!: to_f64_unit)
qed

lemma clamp_mono: "(x::f64) \<le> y \<Longrightarrow> clamp x 0 1 \<le> clamp y 0 1"
  by (cases x; cases y) (auto simp: clamp_def Let_def f64_zero_one_Fin)

lemma f64_NInf_le: "x \<noteq> NaN \<Longrightarrow> NInf \<le> x"
  by (cases x) auto

lemma one_minus_antimono: "(x::f64) \<le> y \<Longrightarrow> 1 - y \<le> 1 - x"
  by (cases x; cases y) (auto simp: minus_f64_def f64_zero_one_Fin f64_le_PInf f64_NInf_le intro: to_f64_mono)

lemma div_mono: "(x::f64) \<le> y \<Longrightarrow> 0 < d \<Longrightarrow> is_finite d \<Longrightarrow> x / d \<le> y / d"
  by (cases x; cases y; cases d)
    (auto simp: f64_zero_one_Fin is_finite_def f64_le_PInf f64_NInf_le intro!: to_f64_mono divide_right_mono)

lemma times_unit_mono:
  "unit_f64 a \<Longrightarrow> unit_f64 b \<Longrightarrow> a \<le> b \<Longrightarrow> 0 \<le> w \<Longrightarrow> is_finite w \<Longrightarrow> w * a \<le> w * b"
  by (cases w) (auto simp: unit_f64_Fin f64_zero_one_Fin is_finite_def
      intro!: to_f64_mono mult_left_mono)

lemma times_unit_nonneg: "unit_f64 a \<Longrightarrow> 0 \<le> w \<Longrightarrow> is_finite w \<Longrightarrow> 0 \<le> w * a"
  by (rule nonneg_times_fin) (auto simp: unit_f64_Fin f64_zero_one_Fin is_finite_def)

section \<open>The contract of rounding\<close>

text \<open>
  What the rest of the development uses of rounding, as an interface: a monotone, odd, idempotent
  map of the rationals that fixes zero and one.
\<close>

locale rounding =
  fixes r :: "rat \<Rightarrow> rat"
  assumes r_mono: "x \<le> y \<Longrightarrow> r x \<le> r y"
    and r_odd: "r (- x) = - r x"
    and r_idem: "r (r x) = r x"
    and r_one: "r 1 = 1"
begin

lemma r_zero: "r 0 = 0"
  using r_odd [of 0] by simp

lemma r_nonneg: "0 \<le> x \<Longrightarrow> 0 \<le> r x"
  using r_mono [of 0 x] by (simp add: r_zero)

lemma r_unit: "0 \<le> x \<Longrightarrow> x \<le> 1 \<Longrightarrow> 0 \<le> r x \<and> r x \<le> 1"
  using r_mono [of 0 x] r_mono [of x 1] by (simp add: r_zero r_one)

lemma r_absorb: "0 \<le> y \<Longrightarrow> r x = x \<Longrightarrow> x \<le> r (x + y)"
  using r_mono [of x "x + y"] by simp

lemma r_scale_down: "0 \<le> x \<Longrightarrow> r x = x \<Longrightarrow> 0 \<le> u \<Longrightarrow> u \<le> 1 \<Longrightarrow> r (u * x) \<le> x"
  using r_mono [of "u * x" x] mult_left_le_one_le [of x u] by simp

end

interpretation binary64: rounding rnd
  by unfold_locales (auto intro: rnd_mono)

end
