(* ===== verification/Rust_Time.thy ===== *)
theory Rust_Time
  imports F64
begin

text \<open>
  \<open>std::time::Duration\<close> and the instants of \<open>chrono\<close>.

  A \<open>Duration\<close> is its length in nanoseconds, at most \<open>DURATION_MAX\<close> (a \<open>u64\<close> of seconds and
  999999999 nanoseconds); an operation whose result is longer panics (\<open>None\<close>).

  An instant \<open>DateTime<Utc>\<close> and a signed \<open>TimeDelta\<close> are integers, nanoseconds since the Unix
  epoch and nanoseconds; \<open>signed_duration_since\<close> is their difference and comparisons are those of
  the integers. What \<open>chrono\<close> does at the limits of its range is not part of the sources: the
  conversions and additions that can fail there are the fields of the parameter \<open>chrono\<close>, and
  \<open>chrono_sound\<close> states what their documentation promises of a result that is returned.
\<close>

type_synonym duration = nat

type_synonym datetime = int

type_synonym timedelta = int

definition NANOS_PER_SEC :: nat where
  "NANOS_PER_SEC = 1000000000"

definition DURATION_MAX :: duration where
  "DURATION_MAX = (2 ^ 64 - 1) * NANOS_PER_SEC + 999999999"

definition dur_ok :: "duration \<Rightarrow> bool" where
  "dur_ok d \<longleftrightarrow> d \<le> DURATION_MAX"

definition from_secs :: "nat \<Rightarrow> duration" where
  "from_secs s = s * NANOS_PER_SEC"

definition from_millis :: "nat \<Rightarrow> duration" where
  "from_millis ms = ms * 1000000"

text \<open>\<open>as_millis() as u64\<close>: the \<open>u128\<close> number of milliseconds, truncated to 64 bits.\<close>

definition as_millis :: "duration \<Rightarrow> nat" where
  "as_millis d = d div 1000000"

definition as_millis_u64 :: "duration \<Rightarrow> u64" where
  "as_millis_u64 d = of_nat (as_millis d)"

definition dur_add :: "duration \<Rightarrow> duration \<Rightarrow> duration option" where
  "dur_add a b = (if a + b \<le> DURATION_MAX then Some (a + b) else None)"

definition dur_mul :: "duration \<Rightarrow> u32 \<Rightarrow> duration option" where
  "dur_mul d k = (if d * unat k \<le> DURATION_MAX then Some (d * unat k) else None)"

text \<open>\<open>iter().sum::<Duration>()\<close>.\<close>

fun dur_sum_from :: "duration \<Rightarrow> duration list \<Rightarrow> duration option" where
  "dur_sum_from acc [] = Some acc"
| "dur_sum_from acc (d # ds) = Option.bind (dur_add acc d) (\<lambda>a. dur_sum_from a ds)"

definition dur_sum :: "duration list \<Rightarrow> duration option" where
  "dur_sum ds = dur_sum_from 0 ds"

definition as_secs_f64 :: "duration \<Rightarrow> f64" where
  "as_secs_f64 d = f64_of_nat (d div NANOS_PER_SEC)
     + f64_of_nat (d mod NANOS_PER_SEC) / f64_of_nat NANOS_PER_SEC"

text \<open>
  \<open>Duration::from_secs_f64\<close>: rounds to the nearest nanosecond, ties to even; panics on a negative
  value, on NaN, on an infinity and on overflow.
\<close>

definition from_secs_f64 :: "f64 \<Rightarrow> duration option" where
  "from_secs_f64 x = (case x of
     Fin q \<Rightarrow> if q < 0 then None
       else (let n = nat (round_half_even (q * of_nat NANOS_PER_SEC))
             in if n \<le> DURATION_MAX then Some n else None)
   | _ \<Rightarrow> None)"

lemma dur_add_Some [simp]: "dur_add a b = Some c \<longleftrightarrow> c = a + b \<and> a + b \<le> DURATION_MAX"
  by (auto simp: dur_add_def)

lemma dur_mul_Some [simp]:
  "dur_mul d k = Some c \<longleftrightarrow> c = d * unat k \<and> d * unat k \<le> DURATION_MAX"
  by (auto simp: dur_mul_def)

lemma dur_sum_from_Some:
  "a \<le> DURATION_MAX \<Longrightarrow>
   dur_sum_from a ds = Some c \<longleftrightarrow> c = a + sum_list ds \<and> a + sum_list ds \<le> DURATION_MAX"
proof (induction ds arbitrary: a)
  case Nil
  then show ?case by auto
next
  case (Cons d ds)
  then show ?case by (cases "a + d \<le> DURATION_MAX") (simp_all add: dur_add_def add.assoc)
qed

lemma dur_sum_Some [simp]:
  "dur_sum ds = Some c \<longleftrightarrow> c = sum_list ds \<and> sum_list ds \<le> DURATION_MAX"
  by (simp add: dur_sum_def dur_sum_from_Some)

lemma from_secs_f64_ok: "from_secs_f64 x = Some d \<Longrightarrow> dur_ok d"
  by (auto simp: from_secs_f64_def dur_ok_def Let_def split: f64.splits if_splits)

lemma nonneg_div_pos:
  "(0::f64) \<le> a \<Longrightarrow> a \<noteq> PInf \<Longrightarrow> 0 < b \<Longrightarrow> b \<noteq> PInf \<Longrightarrow> 0 \<le> a / b"
  using to_f64_mono [of 0] by (cases a; cases b) (auto simp: f64_zero_one_Fin to_f64_exact)

lemma f64_of_nat_nonneg [simp]: "0 \<le> f64_of_nat n"
  using to_f64_mono [of 0 "of_nat n"] by (simp add: f64_of_nat_def f64_zero_one_Fin to_f64_exact)

lemma f64_of_nat_exact: "n \<le> 2 ^ 53 \<Longrightarrow> f64_of_nat n = Fin (of_nat n)"
proof -
  assume "n \<le> 2 ^ 53"
  then have "\<bar>int n\<bar> \<le> 2 ^ 53" by simp
  then have "exact (of_int (int n))" by (rule exact_of_int)
  then show ?thesis by (simp add: f64_of_nat_def to_f64_exact)
qed

lemma as_secs_f64_nonneg [simp]: "0 \<le> as_secs_f64 d"
proof -
  have "d mod NANOS_PER_SEC \<le> 2 ^ 53"
    by (rule order.trans [OF less_imp_le [OF mod_less_divisor]]) (simp_all add: NANOS_PER_SEC_def)
  then have "f64_of_nat (d mod NANOS_PER_SEC) = Fin (of_nat (d mod NANOS_PER_SEC))"
    by (rule f64_of_nat_exact)
  moreover have "f64_of_nat NANOS_PER_SEC = Fin (of_nat NANOS_PER_SEC)"
    by (intro f64_of_nat_exact) (simp add: NANOS_PER_SEC_def)
  ultimately have "0 \<le> f64_of_nat (d mod NANOS_PER_SEC) / f64_of_nat NANOS_PER_SEC"
    by (intro nonneg_div_pos) (auto simp: f64_zero_one_Fin NANOS_PER_SEC_def)
  then show ?thesis unfolding as_secs_f64_def by (intro nonneg_plus) simp_all
qed

lemma nanos_lt: "d mod NANOS_PER_SEC < NANOS_PER_SEC"
  by (simp add: NANOS_PER_SEC_def)

lemma frac_secs:
  "f64_of_nat (d mod NANOS_PER_SEC) / f64_of_nat NANOS_PER_SEC
     = to_f64 (of_nat (d mod NANOS_PER_SEC) / of_nat NANOS_PER_SEC)"
proof -
  have "d mod NANOS_PER_SEC \<le> 2 ^ 53"
    by (rule order.trans [OF less_imp_le [OF nanos_lt]]) (simp add: NANOS_PER_SEC_def)
  then have "f64_of_nat (d mod NANOS_PER_SEC) = Fin (of_nat (d mod NANOS_PER_SEC))"
    by (rule f64_of_nat_exact)
  moreover have "f64_of_nat NANOS_PER_SEC = Fin (of_nat NANOS_PER_SEC)"
    by (intro f64_of_nat_exact) (simp add: NANOS_PER_SEC_def)
  ultimately show ?thesis by (simp add: NANOS_PER_SEC_def)
qed

lemma as_secs_f64_small:
  assumes "d div NANOS_PER_SEC \<le> 2 ^ 53"
  obtains x where "to_f64 (of_nat (d mod NANOS_PER_SEC) / of_nat NANOS_PER_SEC) = Fin x"
    "0 \<le> x" "x \<le> 1" "as_secs_f64 d = to_f64 (of_nat (d div NANOS_PER_SEC) + x)"
proof -
  have "(of_nat (d mod NANOS_PER_SEC) :: rat) / of_nat NANOS_PER_SEC \<le> 1"
    using nanos_lt [of d] by (simp add: NANOS_PER_SEC_def)
  then have "unit_f64 (to_f64 (of_nat (d mod NANOS_PER_SEC) / of_nat NANOS_PER_SEC))"
    by (intro to_f64_unit) simp_all
  then obtain x where "to_f64 (of_nat (d mod NANOS_PER_SEC) / of_nat NANOS_PER_SEC) = Fin x"
    "0 \<le> x" "x \<le> 1" by (auto simp: unit_f64_Fin)
  then show ?thesis
    using that by (simp add: as_secs_f64_def frac_secs f64_of_nat_exact [OF assms])
qed

lemma as_secs_f64_mono:
  assumes "d \<le> e" "e div NANOS_PER_SEC \<le> 2 ^ 53"
  shows "as_secs_f64 d \<le> as_secs_f64 e"
proof -
  let ?r = "\<lambda>d. (of_nat (d mod NANOS_PER_SEC) :: rat) / of_nat NANOS_PER_SEC"
  have le: "d div NANOS_PER_SEC \<le> e div NANOS_PER_SEC" using assms(1) by (rule div_le_mono)
  obtain x where x: "to_f64 (?r d) = Fin x" "0 \<le> x" "x \<le> 1"
    "as_secs_f64 d = to_f64 (of_nat (d div NANOS_PER_SEC) + x)"
    using as_secs_f64_small [of d] le assms(2) by auto
  obtain y where y: "to_f64 (?r e) = Fin y" "0 \<le> y" "y \<le> 1"
    "as_secs_f64 e = to_f64 (of_nat (e div NANOS_PER_SEC) + y)"
    using as_secs_f64_small [of e] assms(2) by auto
  have "of_nat (d div NANOS_PER_SEC) + x \<le> of_nat (e div NANOS_PER_SEC) + y"
  proof (cases "d div NANOS_PER_SEC = e div NANOS_PER_SEC")
    case True
    then have "d mod NANOS_PER_SEC \<le> e mod NANOS_PER_SEC"
      using assms(1) by (metis add_le_cancel_left mult_div_mod_eq)
    then have "?r d \<le> ?r e" by (intro divide_right_mono) simp_all
    then have "Fin x \<le> Fin y" using to_f64_mono [of "?r d" "?r e"] x y by simp
    then show ?thesis using True by simp
  next
    case False
    then have "d div NANOS_PER_SEC + 1 \<le> e div NANOS_PER_SEC" using le by simp
    then have "(of_nat (d div NANOS_PER_SEC + 1) :: rat) \<le> of_nat (e div NANOS_PER_SEC)"
      by (simp only: of_nat_le_iff)
    then show ?thesis using x y by simp
  qed
  then show ?thesis using x y by (simp add: to_f64_mono)
qed

lemma as_secs_f64_finite:
  assumes "d div NANOS_PER_SEC \<le> 2 ^ 53"
  shows "is_finite (as_secs_f64 d)"
proof -
  obtain x where x: "0 \<le> x" "x \<le> 1" "as_secs_f64 d = to_f64 (of_nat (d div NANOS_PER_SEC) + x)"
    using as_secs_f64_small [OF assms] by metis
  have "(of_nat (d div NANOS_PER_SEC) :: rat) \<le> of_nat (2 ^ 53)"
    using assms by (simp only: of_nat_le_iff)
  then have "of_nat (d div NANOS_PER_SEC) + x \<le> 2 ^ 54" using x by simp
  moreover have "exact (2 ^ 54)" using exact_grid [of 1 54] by simp
  moreover have "0 \<le> of_nat (d div NANOS_PER_SEC) + x" using x by simp
  ultimately obtain s where "as_secs_f64 d = Fin s"
    using to_f64_between [of 0 "of_nat (d div NANOS_PER_SEC) + x" "2 ^ 54"] x by auto
  then show ?thesis by (simp add: is_finite_def)
qed

section \<open>chrono\<close>

record chrono =
  td_from_std :: "duration \<Rightarrow> timedelta option"  \<comment> \<open>\<open>TimeDelta::from_std\<close>, \<open>None\<close> for \<open>Err\<close>\<close>
  td_add :: "timedelta \<Rightarrow> timedelta \<Rightarrow> timedelta option"  \<comment> \<open>\<open>TimeDelta + TimeDelta\<close>\<close>
  dt_add :: "datetime \<Rightarrow> timedelta \<Rightarrow> datetime option"  \<comment> \<open>\<open>DateTime + TimeDelta\<close>\<close>
  dt_sub :: "datetime \<Rightarrow> timedelta \<Rightarrow> datetime option"  \<comment> \<open>\<open>DateTime - TimeDelta\<close>\<close>

definition chrono_sound :: "chrono \<Rightarrow> bool" where
  "chrono_sound c \<longleftrightarrow>
     (\<forall>d t. td_from_std c d = Some t \<longrightarrow> t = int d) \<and>
     (\<forall>a b t. td_add c a b = Some t \<longrightarrow> t = a + b) \<and>
     (\<forall>a b t. dt_add c a b = Some t \<longrightarrow> t = a + b) \<and>
     (\<forall>a b t. dt_sub c a b = Some t \<longrightarrow> t = a - b)"

lemma chrono_soundD:
  assumes "chrono_sound c"
  shows "td_from_std c d = Some t \<Longrightarrow> t = int d"
    and "td_add c a b = Some t \<Longrightarrow> t = a + b"
    and "dt_add c a b = Some t \<Longrightarrow> t = a + b"
    and "dt_sub c a b = Some t \<Longrightarrow> t = a - b"
  using assms by (auto simp: chrono_sound_def)

text \<open>\<open>TimeDelta::from_std(d).unwrap_or_else(|_| TimeDelta::seconds(n))\<close>.\<close>

definition from_std_or_secs :: "chrono \<Rightarrow> nat \<Rightarrow> duration \<Rightarrow> timedelta" where
  "from_std_or_secs c n d = (case td_from_std c d of Some t \<Rightarrow> t | None \<Rightarrow> int (from_secs n))"

text \<open>
  An instance with the limits of the library: a \<open>TimeDelta\<close> holds at most \<open>i64::MAX\<close>
  milliseconds, a \<open>DateTime\<close> about 262000 years on either side of the epoch.
\<close>

definition TD_MAX :: int where
  "TD_MAX = (2 ^ 63 - 1) * 1000000"

definition DT_MAX :: int where
  "DT_MAX = 8210266876799999999999"

definition chrono_limits :: chrono where
  "chrono_limits =
     \<lparr>td_from_std = (\<lambda>d. if int d \<le> TD_MAX then Some (int d) else None),
      td_add = (\<lambda>a b. if \<bar>a + b\<bar> \<le> TD_MAX then Some (a + b) else None),
      dt_add = (\<lambda>a b. if \<bar>a + b\<bar> \<le> DT_MAX then Some (a + b) else None),
      dt_sub = (\<lambda>a b. if \<bar>a - b\<bar> \<le> DT_MAX then Some (a - b) else None)\<rparr>"

lemma chrono_limits_sound: "chrono_sound chrono_limits"
  by (auto simp: chrono_sound_def chrono_limits_def)

end
