(* ===== verification/Atp_Types.thy ===== *)
theory Atp_Types
  imports Rust_Time
begin

text \<open>
  The data of the crate \<open>atp-types\<close>: identifiers, capabilities, QoS constraints, configuration,
  trust records, messages, routes and errors, with the small operations that live beside them.

  A \<open>Uuid\<close> is its 128-bit value. A \<open>String\<close> the program only passes on is a \<open>string\<close>; the strings
  of a \<open>Did\<close>, which the program decodes character by character, are lists of Unicode scalar values
  (\<open>text\<close>). Where an error message renders an identifier with \<open>to_string()\<close>, the model's error
  carries the identifier. Record fields carry a prefix, since the structs share field names.
\<close>

section \<open>Identifiers\<close>

type_synonym uuid = "128 word"

datatype agent_id = AgentId (agent_uuid: uuid)

type_synonym unicode_text = "nat list"

definition text_of :: "string \<Rightarrow> unicode_text" where
  "text_of s = map of_char s"

record did =
  did_method :: unicode_text
  did_identifier :: unicode_text

definition to_uri :: "did \<Rightarrow> unicode_text" where
  "to_uri d = text_of ''did:'' @ did_method d @ text_of '':'' @ did_identifier d"

section \<open>Capabilities and QoS\<close>

datatype task_type = CodeGeneration | Analysis | CreativeWriting | DataProcessing

fun complexity_weight :: "task_type \<Rightarrow> f64" where
  "complexity_weight CodeGeneration = to_f64 (15 / 10)"
| "complexity_weight Analysis = to_f64 (12 / 10)"
| "complexity_weight CreativeWriting = to_f64 1"
| "complexity_weight DataProcessing = to_f64 (8 / 10)"

definition all_task_types :: "task_type list" where
  "all_task_types = [CodeGeneration, Analysis, CreativeWriting, DataProcessing]"

fun show_task_type :: "task_type \<Rightarrow> string" where
  "show_task_type CodeGeneration = ''code_generation''"
| "show_task_type Analysis = ''analysis''"
| "show_task_type CreativeWriting = ''creative_writing''"
| "show_task_type DataProcessing = ''data_processing''"

record capability =
  cap_task_type :: task_type
  cap_estimated_quality :: f64
  cap_estimated_latency :: duration
  cap_cost_per_task :: f64

record qos_constraints =
  min_quality :: f64
  max_latency :: duration
  max_cost :: f64
  min_trust :: f64

text \<open>\<open>QoSConstraints::relax\<close>; the conversion back to a \<open>Duration\<close> may panic.\<close>

definition relax :: "qos_constraints \<Rightarrow> f64 \<Rightarrow> qos_constraints option" where
  "relax q factor = do {
     lat \<leftarrow> from_secs_f64 (as_secs_f64 (max_latency q) * (1 + factor));
     Some \<lparr>min_quality = f64_max (min_quality q * (1 - factor)) 0,
           max_latency = lat,
           max_cost = max_cost q * (1 + factor),
           min_trust = f64_max (min_trust q * (1 - factor)) 0\<rparr>
   }"

definition default_qos :: qos_constraints where
  "default_qos = \<lparr>min_quality = to_f64 (7 / 10), max_latency = from_secs 10, max_cost = 1,
     min_trust = to_f64 (5 / 10)\<rparr>"

text \<open>The identity card of an agent (\<open>AgentIdentity\<close>).\<close>

record agent_identity =
  ident_id :: agent_id
  ident_did :: did
  ident_public_key :: "u8 list"
  ident_capabilities :: "capability list"
  ident_created_at :: datetime

section \<open>Configuration\<close>

record identity_config =
  trust_decay_rate :: f64
  sybil_dampening :: f64
  min_interactions :: u32

definition default_identity_config :: identity_config where
  "default_identity_config =
     \<lparr>trust_decay_rate = to_f64 (1 / 100), sybil_dampening = to_f64 (5 / 10), min_interactions = 3\<rparr>"

record handshake_config =
  probe_timeout :: duration
  relaxation_factor :: f64
  max_retries :: u32

definition default_handshake_config :: handshake_config where
  "default_handshake_config =
     \<lparr>probe_timeout = from_millis 500, relaxation_factor = to_f64 (1 / 10), max_retries = 3\<rparr>"

record context_config =
  cc_relevance_threshold :: f64
  cc_confidence_threshold :: f64
  cc_embedding_dimensions :: nat

definition default_context_config :: context_config where
  "default_context_config =
     \<lparr>cc_relevance_threshold = to_f64 (3 / 10), cc_confidence_threshold = to_f64 (7 / 10),
      cc_embedding_dimensions = 768\<rparr>"

record routing_config =
  recompute_interval :: duration
  cfg_route_ttl :: duration
  cfg_max_routes :: nat

definition default_routing_config :: routing_config where
  "default_routing_config =
     \<lparr>recompute_interval = from_secs 60, cfg_route_ttl = from_secs 120, cfg_max_routes = 10\<rparr>"

record fault_config =
  heartbeat_interval :: duration
  heartbeat_timeout_multiplier :: u32
  circuit_breaker_threshold :: u32
  poison_detection_window :: duration
  poison_agent_threshold :: u32
  backpressure_threshold :: u32

definition default_fault_config :: fault_config where
  "default_fault_config =
     \<lparr>heartbeat_interval = from_secs 1, heartbeat_timeout_multiplier = 3,
      circuit_breaker_threshold = 3, poison_detection_window = from_secs 60,
      poison_agent_threshold = 3, backpressure_threshold = 100\<rparr>"

record atp_config =
  cfg_identity :: identity_config
  cfg_handshake :: handshake_config
  cfg_context :: context_config
  cfg_routing :: routing_config
  cfg_fault :: fault_config

definition default_atp_config :: atp_config where
  "default_atp_config =
     \<lparr>cfg_identity = default_identity_config, cfg_handshake = default_handshake_config,
      cfg_context = default_context_config, cfg_routing = default_routing_config,
      cfg_fault = default_fault_config\<rparr>"

section \<open>Context\<close>

record context_embedding =
  emb_dimensions :: nat
  emb_values :: "f64 list"

definition embedding_new :: "f64 list \<Rightarrow> context_embedding" where
  "embedding_new vs = \<lparr>emb_dimensions = length vs, emb_values = vs\<rparr>"

definition embedding_zeros :: "nat \<Rightarrow> context_embedding" where
  "embedding_zeros n = \<lparr>emb_dimensions = n, emb_values = replicate n 0\<rparr>"

record context_chunk =
  chunk_index :: u32
  chunk_data :: "u8 list"
  chunk_relevance_score :: f64

record context_diff =
  diff_base_hash :: "u8 list"
  diff_chunks :: "context_chunk list"
  diff_confidence :: f64
  diff_original_size :: u64
  diff_compressed_size :: u64

definition compression_ratio :: "context_diff \<Rightarrow> f64" where
  "compression_ratio d =
     (if diff_original_size d = 0 then 1
      else f64_of_nat (unat (diff_compressed_size d)) / f64_of_nat (unat (diff_original_size d)))"

section \<open>Tasks\<close>

text \<open>The result of a task (\<open>TaskResult\<close>), which only the codec handles, is declared there.\<close>

datatype task_status =
    TaskPending | TaskAssigned | TaskInProgress | TaskCompleted | TaskFailed | TaskPoisoned

record atp_task =
  atask_id :: uuid
  atask_task_type :: task_type
  atask_payload :: "u8 list"
  atask_context :: "context_diff option"
  atask_status :: task_status
  atask_assigned_to :: "agent_id option"
  atask_submitted_at :: datetime

section \<open>Trust\<close>

record interaction_record =
  ir_evaluator :: agent_id
  ir_subject :: agent_id
  ir_task_type :: task_type
  ir_quality_score :: f64
  ir_latency_ms :: u64
  ir_cost :: f64
  ir_timestamp :: datetime
  ir_signature :: "u8 list"

record trust_score =
  ts_agent :: agent_id
  ts_task_type :: task_type
  ts_score :: f64
  ts_sample_count :: u32
  ts_last_updated :: datetime

text \<open>The map of a \<open>TrustVector\<close>, with its reader and its clamping writer.\<close>

type_synonym trust_vector = "task_type \<rightharpoonup> f64"

definition tv_get :: "trust_vector \<Rightarrow> task_type \<Rightarrow> f64" where
  "tv_get tv t = (case tv t of Some s \<Rightarrow> s | None \<Rightarrow> to_f64 (5 / 10))"

definition tv_set :: "trust_vector \<Rightarrow> task_type \<Rightarrow> f64 \<Rightarrow> trust_vector" where
  "tv_set tv t s = tv(t \<mapsto> clamp s 0 1)"

section \<open>Routes\<close>

datatype routing_pattern = DraftRefine | ParallelMerge | Cascade | Ensemble | Pipeline

record route_metrics =
  rm_quality :: f64
  rm_latency :: duration
  rm_cost :: f64

record route =
  route_id :: uuid
  route_pattern :: routing_pattern
  route_agents :: "agent_id list"
  route_metrics :: route_metrics
  route_computed_at :: datetime
  route_ttl :: duration

section \<open>Messages\<close>

datatype circuit_state = Closed | Open | HalfOpen

record capability_probe_msg =
  probe_from :: agent_id
  probe_task_type :: task_type
  probe_qos :: qos_constraints
  probe_context_embedding :: "context_embedding option"
  probe_nonce :: u64
  probe_timestamp :: datetime
  probe_signature :: "u8 list"

record capability_offer_msg =
  offer_from :: agent_id
  offer_in_reply_to :: u64
  offer_capability :: capability
  offer_trust_score :: f64
  offer_trust_proof :: "u8 list"
  offer_ttl :: duration
  offer_timestamp :: datetime
  offer_signature :: "u8 list"

record contract_accept_msg =
  contract_from :: agent_id
  contract_to :: agent_id
  contract_agreed_qos :: qos_constraints
  contract_context_plan :: string
  contract_id :: uuid
  contract_expires_at :: datetime
  contract_timestamp :: datetime
  contract_signature :: "u8 list"

record context_request_msg =
  creq_from :: agent_id
  creq_to :: agent_id
  creq_task_id :: uuid
  creq_current_confidence :: f64
  creq_requested_chunk_indices :: "u32 list"

record task_submit_msg =
  submit_from :: agent_id
  submit_to :: agent_id
  submit_task_id :: uuid
  submit_task_type :: task_type
  submit_payload :: "u8 list"
  submit_context :: context_diff
  submit_contract_id :: uuid

record task_result_msg =
  result_from :: agent_id
  result_task_id :: uuid
  result_quality_self_report :: f64
  result_payload :: "u8 list"
  result_elapsed :: duration
  result_actual_cost :: f64

record interaction_proof_msg =
  proof_evaluator :: agent_id
  proof_subject :: agent_id
  proof_task_id :: uuid
  proof_task_type :: task_type
  proof_quality_score :: f64
  proof_latency_ms :: u64
  proof_cost :: f64
  proof_timestamp :: datetime
  proof_signature :: "u8 list"

record heartbeat_msg =
  hb_from :: agent_id
  hb_sequence :: u64
  hb_queue_depth :: u32
  hb_load_factor :: f64

record backpressure_msg =
  bp_from :: agent_id
  bp_queue_depth :: u32
  bp_recommended_rate :: f64
  bp_estimated_drain_ms :: u64

record circuit_break_msg =
  cb_from :: agent_id
  cb_target :: agent_id
  cb_state :: circuit_state
  cb_failure_count :: u32

datatype atp_message =
    CapabilityProbe capability_probe_msg
  | CapabilityOffer capability_offer_msg
  | ContractAccept contract_accept_msg
  | ContextRequest context_request_msg
  | TaskSubmit task_submit_msg
  | TaskResult task_result_msg
  | InteractionProof interaction_proof_msg
  | Heartbeat heartbeat_msg
  | Backpressure backpressure_msg
  | CircuitBreak circuit_break_msg

section \<open>Errors\<close>

datatype identity_error =
    InvalidDid unicode_text
  | SignatureVerification
  | UnknownAgent agent_id
  | InsufficientTrust f64 f64
  | KeyGeneration string

datatype handshake_error =
    HandshakeTimeout duration
  | NoCapableAgents string
  | NegotiationFailed string
  | InvalidTransition string string
  | OfferExpired

datatype context_error =
    DimensionMismatch nat nat
  | LowConfidence f64
  | ExtractionFailed string

datatype routing_error = NoFeasibleRoute | NegativeCycle | RouteExpired | EmptyGraph

datatype fault_error =
    HeartbeatTimeout agent_id
  | CircuitOpen agent_id
  | PoisonTask uuid
  | CheckpointFailed string

datatype atp_error =
    IdentityErr identity_error
  | HandshakeErr handshake_error
  | ContextErr context_error
  | RoutingErr routing_error
  | FaultErr fault_error
  | InternalErr string

section \<open>Order on the identifiers and task types\<close>

text \<open>Used for the finite enumerations of witnesses; the code compares identifiers for equality.\<close>

instantiation agent_id :: linorder
begin

definition less_eq_agent_id :: "agent_id \<Rightarrow> agent_id \<Rightarrow> bool" where
  "less_eq_agent_id a b \<longleftrightarrow> agent_uuid a \<le> agent_uuid b"

definition less_agent_id :: "agent_id \<Rightarrow> agent_id \<Rightarrow> bool" where
  "less_agent_id a b \<longleftrightarrow> agent_uuid a < agent_uuid b"

instance
  by standard (auto simp: less_eq_agent_id_def less_agent_id_def agent_id.expand)

end

instantiation task_type :: enum
begin

definition enum_task_type :: "task_type list" where
  "enum_task_type = all_task_types"

definition enum_all_task_type :: "(task_type \<Rightarrow> bool) \<Rightarrow> bool" where
  "enum_all_task_type P \<longleftrightarrow> list_all P all_task_types"

definition enum_ex_task_type :: "(task_type \<Rightarrow> bool) \<Rightarrow> bool" where
  "enum_ex_task_type P \<longleftrightarrow> list_ex P all_task_types"

instance
proof
  have univ: "(UNIV :: task_type set) = set all_task_types"
    by (auto simp: all_task_types_def intro: task_type.exhaust)
  show "(UNIV :: task_type set) = set enum_class.enum"
    by (simp add: enum_task_type_def univ)
  show "distinct (enum_class.enum :: task_type list)"
    by (simp add: enum_task_type_def all_task_types_def)
  show "enum_class.enum_all P \<longleftrightarrow> Ball UNIV P" for P :: "task_type \<Rightarrow> bool"
    by (simp add: enum_all_task_type_def univ list_all_iff)
  show "enum_class.enum_ex P \<longleftrightarrow> Bex UNIV P" for P :: "task_type \<Rightarrow> bool"
    by (simp add: enum_ex_task_type_def univ list_ex_iff)
qed

end

section \<open>Facts about weights, vectors and relaxation\<close>

lemma complexity_weight_bounds:
  "Fin (1 / 2) \<le> complexity_weight t \<and> complexity_weight t \<le> Fin 2"
proof -
  have h: "exact (1 / 2)" "exact 2"
    using exact_frac [of 1 1] exact_of_int [of 2] by simp_all
  have "Fin (1 / 2) \<le> to_f64 q \<and> to_f64 q \<le> Fin 2" if "1 / 2 \<le> q" "q \<le> 2" for q
    using to_f64_mono [of "1 / 2" q] to_f64_mono [of q 2] that h by (simp add: to_f64_exact)
  then show ?thesis by (cases t) simp_all
qed

lemma tv_set_get: "tv_get (tv_set tv t s) t' = (if t' = t then clamp s 0 1 else tv_get tv t')"
  by (simp add: tv_set_def tv_get_def)

lemma relax_fields:
  assumes "relax q f = Some q'"
  shows "min_quality q' = f64_max (min_quality q * (1 - f)) 0"
    and "max_cost q' = max_cost q * (1 + f)"
    and "min_trust q' = f64_max (min_trust q * (1 - f)) 0"
    and "from_secs_f64 (as_secs_f64 (max_latency q) * (1 + f)) = Some (max_latency q')"
  using assms by (auto simp: relax_def bind_eq_Some_conv)

end
