(* ===== verification/Circuit_Breaker.thy ===== *)
theory Circuit_Breaker
  imports Atp_Types
begin

text \<open>
  The circuit breaker of the crate \<open>atp-fault\<close> (\<open>circuit_breaker.rs\<close>): one three-state machine
  per remote agent, kept in a hash table behind a lock. Every method holds the lock for its whole
  body, so a method is one atomic step; the table is passed and returned.

  \<open>Utc::now()\<close> is an argument: a \<open>clock\<close> gives the successive readings the call makes.
  The counters are words and wrap, as in a release build.
\<close>

type_synonym clock = "nat \<Rightarrow> datetime"

record breaker_state =
  bs_state :: circuit_state
  bs_consecutive_failures :: u32
  bs_last_state_change :: datetime
  bs_total_failures :: u64
  bs_total_successes :: u64

record circuit_breaker =
  brk_config :: fault_config
  brk_cooldown :: duration
  brk_breakers :: "agent_id \<rightharpoonup> breaker_state"

definition breaker_new :: "datetime \<Rightarrow> breaker_state" where
  "breaker_new now = \<lparr>bs_state = Closed, bs_consecutive_failures = 0, bs_last_state_change = now,
     bs_total_failures = 0, bs_total_successes = 0\<rparr>"

definition circuit_breaker_new :: "fault_config \<Rightarrow> duration \<Rightarrow> circuit_breaker" where
  "circuit_breaker_new cfg cooldown =
     \<lparr>brk_config = cfg, brk_cooldown = cooldown, brk_breakers = Map.empty\<rparr>"

definition circuit_breaker_with_defaults :: circuit_breaker where
  "circuit_breaker_with_defaults = circuit_breaker_new default_fault_config (from_secs 30)"

text \<open>\<open>breakers.entry(agent).or_insert_with(BreakerState::new)\<close>.\<close>

definition breaker_entry :: "datetime \<Rightarrow> circuit_breaker \<Rightarrow> agent_id \<Rightarrow> breaker_state" where
  "breaker_entry now cb a =
     (case brk_breakers cb a of Some s \<Rightarrow> s | None \<Rightarrow> breaker_new now)"

definition put_breaker :: "circuit_breaker \<Rightarrow> agent_id \<Rightarrow> breaker_state \<Rightarrow> circuit_breaker" where
  "put_breaker cb a s = cb\<lparr>brk_breakers := (brk_breakers cb)(a \<mapsto> s)\<rparr>"

section \<open>Operations\<close>

definition allow_request ::
  "chrono \<Rightarrow> clock \<Rightarrow> circuit_breaker \<Rightarrow> agent_id \<Rightarrow> (fault_error + unit) \<times> circuit_breaker" where
  "allow_request c clk cb a =
     (let entry = breaker_entry (clk 0) cb a
      in case bs_state entry of
           Closed \<Rightarrow> (Inr (), put_breaker cb a entry)
         | HalfOpen \<Rightarrow> (Inr (), put_breaker cb a entry)
         | Open \<Rightarrow>
             (let elapsed = clk 0 - bs_last_state_change entry;
                  cooldown = from_std_or_secs c 30 (brk_cooldown cb)
              in if cooldown \<le> elapsed
                 then (Inr (), put_breaker cb a
                         (entry\<lparr>bs_state := HalfOpen, bs_last_state_change := clk 1\<rparr>))
                 else (Inl (CircuitOpen a), put_breaker cb a entry)))"

definition circuit_state_of :: "circuit_breaker \<Rightarrow> agent_id \<Rightarrow> circuit_state" where
  "circuit_state_of cb a = (case brk_breakers cb a of Some s \<Rightarrow> bs_state s | None \<Rightarrow> Closed)"

definition failure_count :: "circuit_breaker \<Rightarrow> agent_id \<Rightarrow> u32" where
  "failure_count cb a =
     (case brk_breakers cb a of Some s \<Rightarrow> bs_consecutive_failures s | None \<Rightarrow> 0)"

definition breaker_record_success ::
  "clock \<Rightarrow> circuit_breaker \<Rightarrow> agent_id \<Rightarrow> circuit_breaker" where
  "breaker_record_success clk cb a =
     (let entry0 = breaker_entry (clk 0) cb a;
          entry = entry0\<lparr>bs_total_successes := bs_total_successes entry0 + 1\<rparr>
      in put_breaker cb a
           (case bs_state entry of
              HalfOpen \<Rightarrow> entry\<lparr>bs_state := Closed, bs_consecutive_failures := 0,
                               bs_last_state_change := clk 0\<rparr>
            | Closed \<Rightarrow> entry\<lparr>bs_consecutive_failures := 0\<rparr>
            | Open \<Rightarrow> entry))"

definition breaker_record_failure ::
  "clock \<Rightarrow> circuit_breaker \<Rightarrow> agent_id \<Rightarrow> circuit_breaker" where
  "breaker_record_failure clk cb a =
     (let stamp = (if brk_breakers cb a = None then clk 1 else clk 0);
          entry0 = breaker_entry (clk 0) cb a;
          entry = entry0\<lparr>bs_consecutive_failures := bs_consecutive_failures entry0 + 1,
                         bs_total_failures := bs_total_failures entry0 + 1\<rparr>
      in put_breaker cb a
           (case bs_state entry of
              Closed \<Rightarrow>
                (if circuit_breaker_threshold (brk_config cb) \<le> bs_consecutive_failures entry
                 then entry\<lparr>bs_state := Open, bs_last_state_change := stamp\<rparr> else entry)
            | HalfOpen \<Rightarrow> entry\<lparr>bs_state := Open, bs_last_state_change := stamp\<rparr>
            | Open \<Rightarrow> entry))"

definition breaker_reset :: "clock \<Rightarrow> circuit_breaker \<Rightarrow> agent_id \<Rightarrow> circuit_breaker" where
  "breaker_reset clk cb a =
     (case brk_breakers cb a of
        Some entry \<Rightarrow> put_breaker cb a
          (entry\<lparr>bs_state := Closed, bs_consecutive_failures := 0, bs_last_state_change := clk 0\<rparr>)
      | None \<Rightarrow> cb)"

definition breaker_build_message ::
  "circuit_breaker \<Rightarrow> agent_id \<Rightarrow> agent_id \<Rightarrow> circuit_break_msg" where
  "breaker_build_message cb from target =
     (let (state, count) =
        (case brk_breakers cb target of
           Some s \<Rightarrow> (bs_state s, bs_consecutive_failures s) | None \<Rightarrow> (Closed, 0))
      in \<lparr>cb_from = from, cb_target = target, cb_state = state, cb_failure_count = count\<rparr>)"

definition open_circuits :: "agent_id list \<Rightarrow> circuit_breaker \<Rightarrow> agent_id list" where
  "open_circuits ks cb =
     map fst (filter (\<lambda>(_, s). bs_state s = Open) (entries ks (brk_breakers cb)))"

lemmas breaker_ops = allow_request_def breaker_record_success_def breaker_record_failure_def
  breaker_reset_def put_breaker_def breaker_entry_def breaker_new_def Let_def

section \<open>One step on one agent\<close>

lemma circuit_breaker_new_view [simp]:
  "circuit_state_of (circuit_breaker_new cfg cooldown) a = Closed"
  "failure_count (circuit_breaker_new cfg cooldown) a = 0"
  "brk_config (circuit_breaker_new cfg cooldown) = cfg"
  "brk_cooldown (circuit_breaker_new cfg cooldown) = cooldown"
  by (simp_all add: circuit_breaker_new_def circuit_state_of_def failure_count_def)

text \<open>The state an entry shows, whether or not the table holds it yet.\<close>

lemma circuit_state_of_entry [simp]:
  "bs_state (breaker_entry now cb a) = circuit_state_of cb a"
  "bs_consecutive_failures (breaker_entry now cb a) = failure_count cb a"
  by (auto simp: breaker_entry_def circuit_state_of_def failure_count_def breaker_new_def
      split: option.splits)

lemma circuit_state_of_put [simp]:
  "circuit_state_of (put_breaker cb a s) b = (if b = a then bs_state s else circuit_state_of cb b)"
  "failure_count (put_breaker cb a s) b =
     (if b = a then bs_consecutive_failures s else failure_count cb b)"
  by (auto simp: put_breaker_def circuit_state_of_def failure_count_def)

lemma allow_request_config [frame_simps]:
  "brk_config (snd (allow_request c clk cb a)) = brk_config cb"
  "brk_cooldown (snd (allow_request c clk cb a)) = brk_cooldown cb"
  by (auto simp: allow_request_def put_breaker_def Let_def split: circuit_state.splits)

lemma breaker_record_config [frame_simps]:
  "brk_config (breaker_record_success clk cb a) = brk_config cb"
  "brk_cooldown (breaker_record_success clk cb a) = brk_cooldown cb"
  "brk_config (breaker_record_failure clk cb a) = brk_config cb"
  "brk_cooldown (breaker_record_failure clk cb a) = brk_cooldown cb"
  "brk_config (breaker_reset clk cb a) = brk_config cb"
  "brk_cooldown (breaker_reset clk cb a) = brk_cooldown cb"
  by (auto simp: breaker_record_success_def breaker_record_failure_def breaker_reset_def
      put_breaker_def Let_def split: circuit_state.splits option.splits)

lemma success_state:
  "circuit_state_of (breaker_record_success clk cb a) b =
     (if b = a \<and> circuit_state_of cb a \<noteq> Open then Closed else circuit_state_of cb b)"
  by (auto simp: breaker_record_success_def Let_def split: circuit_state.splits)

lemma success_count:
  "failure_count (breaker_record_success clk cb a) b =
     (if b = a \<and> circuit_state_of cb a \<noteq> Open then 0 else failure_count cb b)"
  by (auto simp: breaker_record_success_def Let_def split: circuit_state.splits)

lemma failure_state:
  "circuit_state_of (breaker_record_failure clk cb a) b =
     (if b = a \<and> (circuit_state_of cb a \<noteq> Closed \<or>
         circuit_breaker_threshold (brk_config cb) \<le> failure_count cb a + 1)
      then Open else circuit_state_of cb b)"
  by (auto simp: breaker_record_failure_def Let_def split: circuit_state.splits)

lemma failure_count_failure:
  "failure_count (breaker_record_failure clk cb a) b =
     (if b = a then failure_count cb a + 1 else failure_count cb b)"
  by (auto simp: breaker_record_failure_def Let_def split: circuit_state.splits)

lemma reset_state:
  "circuit_state_of (breaker_reset clk cb a) b = (if b = a then Closed else circuit_state_of cb b)"
  by (auto simp: breaker_reset_def split: option.splits) (simp add: circuit_state_of_def)

lemma reset_count:
  "failure_count (breaker_reset clk cb a) b = (if b = a then 0 else failure_count cb b)"
  by (auto simp: breaker_reset_def split: option.splits) (simp add: failure_count_def)

lemma allow_state:
  "circuit_state_of (snd (allow_request c clk cb a)) b =
     (if b = a \<and> is_ok (fst (allow_request c clk cb a)) \<and> circuit_state_of cb a = Open
      then HalfOpen else circuit_state_of cb b)"
  by (auto simp: allow_request_def Let_def split: circuit_state.splits)

lemma allow_count:
  "failure_count (snd (allow_request c clk cb a)) b = failure_count cb b"
  by (auto simp: allow_request_def Let_def split: circuit_state.splits)

lemma allow_denied:
  assumes "\<not> is_ok (fst (allow_request c clk cb a))"
  shows "circuit_state_of cb a = Open \<and> snd (allow_request c clk cb a) = cb"
proof -
  have o: "circuit_state_of cb a = Open"
    using assms by (auto simp: allow_request_def Let_def split: circuit_state.splits)
  then obtain s where "brk_breakers cb a = Some s"
    by (auto simp: circuit_state_of_def split: option.splits)
  then have "put_breaker cb a (breaker_entry (clk 0) cb a) = cb"
    by (simp add: put_breaker_def breaker_entry_def map_upd_triv)
  then show ?thesis
    using assms o by (auto simp: allow_request_def Let_def split: circuit_state.splits if_splits)
qed

section \<open>The contract of a request gate\<close>

text \<open>
  What the dispatcher and the node rely on: a gate admits or refuses a request, learns of
  successes and failures, and an open gate is opened again only by admitting a request.
\<close>

locale request_gate =
  fixes gate :: "'g \<Rightarrow> 'a \<Rightarrow> circuit_state"
    and admit :: "'t \<Rightarrow> 'g \<Rightarrow> 'a \<Rightarrow> bool \<times> 'g"
    and success :: "'t \<Rightarrow> 'g \<Rightarrow> 'a \<Rightarrow> 'g"
    and failure :: "'t \<Rightarrow> 'g \<Rightarrow> 'a \<Rightarrow> 'g"
  assumes admit_yes: "fst (admit t g a) \<Longrightarrow> gate (snd (admit t g a)) a \<noteq> Open"
    and admit_no: "\<not> fst (admit t g a) \<Longrightarrow> gate g a = Open \<and> snd (admit t g a) = g"
    and admit_other: "b \<noteq> a \<Longrightarrow> gate (snd (admit t g a)) b = gate g b"
    and success_gate: "gate (success t g a) b =
      (if b = a \<and> gate g a \<noteq> Open then Closed else gate g b)"
    and failure_other: "b \<noteq> a \<Longrightarrow> gate (failure t g a) b = gate g b"
    and failure_not_closed: "gate g a \<noteq> Closed \<Longrightarrow> gate (failure t g a) a = Open"
    and failure_opens: "gate (failure t g a) a \<in> {gate g a, Open}"
begin

definition report :: "'g \<Rightarrow> 't \<times> 'a \<times> bool \<Rightarrow> 'g" where
  "report g e = (case e of (t, a, good) \<Rightarrow> if good then success t g a else failure t g a)"

lemma failure_open: "gate g b = Open \<Longrightarrow> gate (failure t g a) b = Open"
  using failure_other [of b a t g] failure_opens [of t g a] by (cases "b = a") auto

lemma report_open: "gate g b = Open \<Longrightarrow> gate (report g e) b = Open"
  by (cases e) (auto simp: report_def success_gate failure_open)

text \<open>No sequence of reported successes and failures re-admits an agent.\<close>

lemma reports_open: "gate g b = Open \<Longrightarrow> gate (foldl report g es) b = Open"
  by (induction es arbitrary: g) (auto simp: report_open)

lemma report_other: "fst (snd e) \<noteq> b \<Longrightarrow> gate (report g e) b = gate g b"
  using failure_other by (cases e) (auto simp: report_def success_gate)

lemma reports_other:
  "b \<notin> set (map (fst \<circ> snd) es) \<Longrightarrow> gate (foldl report g es) b = gate g b"
  by (induction es arbitrary: g) (auto simp: report_other)

lemma admitted_then_success:
  "fst (admit t g a) \<Longrightarrow> gate (success t' (snd (admit t g a)) a) a = Closed"
  using admit_yes by (simp add: success_gate)

end

definition admit_request ::
  "chrono \<Rightarrow> clock \<Rightarrow> circuit_breaker \<Rightarrow> agent_id \<Rightarrow> bool \<times> circuit_breaker" where
  "admit_request c clk cb a = map_prod is_ok id (allow_request c clk cb a)"

interpretation breaker_gate: request_gate circuit_state_of "admit_request c"
  breaker_record_success breaker_record_failure
  for c
  by unfold_locales
    (auto simp: admit_request_def allow_state success_state failure_state dest: allow_denied)

section \<open>The machine of one agent and its reachable states\<close>

datatype breaker_event =
    Allow agent_id
  | Success agent_id
  | Failure agent_id
  | Reset agent_id

fun breaker_step :: "chrono \<Rightarrow> clock \<Rightarrow> circuit_breaker \<Rightarrow> breaker_event \<Rightarrow> circuit_breaker" where
  "breaker_step c clk cb (Allow a) = snd (allow_request c clk cb a)"
| "breaker_step c clk cb (Success a) = breaker_record_success clk cb a"
| "breaker_step c clk cb (Failure a) = breaker_record_failure clk cb a"
| "breaker_step c clk cb (Reset a) = breaker_reset clk cb a"

inductive breaker_reach :: "chrono \<Rightarrow> fault_config \<Rightarrow> duration \<Rightarrow> circuit_breaker \<Rightarrow> bool"
  for c cfg cooldown where
  reach_new: "breaker_reach c cfg cooldown (circuit_breaker_new cfg cooldown)"
| reach_step: "breaker_reach c cfg cooldown cb \<Longrightarrow>
     breaker_reach c cfg cooldown (breaker_step c clk cb e)"

text \<open>The edges of the diagram in the module's comment, with the forced reset.\<close>

inductive breaker_edge :: "circuit_state \<Rightarrow> circuit_state \<Rightarrow> bool" where
  edge_stay: "breaker_edge s s"
| edge_trip: "breaker_edge Closed Open"
| edge_cooldown: "breaker_edge Open HalfOpen"
| edge_probe_ok: "breaker_edge HalfOpen Closed"
| edge_probe_failed: "breaker_edge HalfOpen Open"

inductive_simps breaker_edge_iff: "breaker_edge s t"

lemma breaker_step_edge:
  assumes "\<And>a. e \<noteq> Reset a"
  shows "breaker_edge (circuit_state_of cb b) (circuit_state_of (breaker_step c clk cb e) b)"
proof (cases e)
  case (Allow a)
  then show ?thesis by (auto simp: allow_state intro: breaker_edge.intros)
next
  case (Success a)
  then show ?thesis
    by (cases "circuit_state_of cb a") (auto simp: success_state intro: breaker_edge.intros)
next
  case (Failure a)
  then show ?thesis
    by (cases "circuit_state_of cb a") (auto simp: failure_state intro: breaker_edge.intros)
next
  case (Reset a)
  then show ?thesis using assms [of a] by simp
qed

definition breaker_inv :: "circuit_breaker \<Rightarrow> bool" where
  "breaker_inv cb \<longleftrightarrow>
     (\<forall>a. circuit_state_of cb a = Closed \<longrightarrow>
        failure_count cb a < circuit_breaker_threshold (brk_config cb))"

lemma breaker_step_config [frame_simps]:
  "brk_config (breaker_step c clk cb e) = brk_config cb"
  "brk_cooldown (breaker_step c clk cb e) = brk_cooldown cb"
  by (cases e; simp add: frame_simps)+

lemma breaker_step_inv [wf_intros]:
  assumes "breaker_inv cb" and "circuit_breaker_threshold (brk_config cb) \<noteq> 0"
  shows "breaker_inv (breaker_step c clk cb e)"
proof -
  have pos: "0 < circuit_breaker_threshold (brk_config cb)"
    using assms(2) word_neq_0_conv by blast
  show ?thesis
    using assms(1) pos
    by (cases e)
      (auto simp: breaker_inv_def frame_simps allow_state allow_count success_state success_count
        failure_state failure_count_failure reset_state reset_count not_le split: if_splits)
qed

lemma breaker_reach_inv:
  assumes "breaker_reach c cfg cooldown cb" and "circuit_breaker_threshold cfg \<noteq> 0"
  shows "brk_config cb = cfg \<and> brk_cooldown cb = cooldown \<and> breaker_inv cb"
  using assms
proof (induction rule: breaker_reach.induct)
  case reach_new
  then show ?case
    using word_neq_0_conv
    by (auto simp: breaker_inv_def)
next
  case (reach_step cb clk e)
  then show ?case by (auto simp: frame_simps intro: breaker_step_inv)
qed

section \<open>Properties\<close>

text \<open>
  C20. In every state the breaker can reach, under any sequence of calls and any clock readings, a
  closed circuit has counted fewer consecutive failures than the threshold (for a threshold that
  is not zero).
\<close>

theorem closed_below_threshold:
  assumes "breaker_reach c cfg cooldown cb"
    and "circuit_breaker_threshold cfg \<noteq> 0"
    and "circuit_state_of cb a = Closed"
  shows "failure_count cb a < circuit_breaker_threshold cfg"
  using breaker_reach_inv [OF assms(1,2)] assms(3) by (auto simp: breaker_inv_def)

theorem closed_below_threshold_witness:
  "failure_count (breaker_record_failure (\<lambda>_. 5)
     (circuit_breaker_new default_fault_config 7) (AgentId 1)) (AgentId 1)
   < circuit_breaker_threshold default_fault_config"
proof -
  let ?new = "circuit_breaker_new default_fault_config 7"
  have "breaker_reach chrono_limits default_fault_config 7
      (breaker_step chrono_limits (\<lambda>_. 5) ?new (Failure (AgentId 1)))"
    by (intro breaker_reach.intros)
  moreover have "circuit_breaker_threshold default_fault_config \<noteq> 0"
    by (simp add: default_fault_config_def)
  moreover have "circuit_state_of (breaker_step chrono_limits (\<lambda>_. 5) ?new (Failure (AgentId 1)))
      (AgentId 1) = Closed"
    by (simp add: failure_state default_fault_config_def word_le_nat_alt)
  ultimately show ?thesis
    using closed_below_threshold [of chrono_limits default_fault_config 7
        "breaker_step chrono_limits (\<lambda>_. 5) ?new (Failure (AgentId 1))" "AgentId 1"]
    by simp
qed

lemma failures_in_a_row:
  assumes "circuit_state_of cb a = Closed" "failure_count cb a = 0"
    and "n < 2 ^ 32" "0 < unat (circuit_breaker_threshold (brk_config cb))"
  shows "let cb' = foldl (\<lambda>g clk. breaker_record_failure clk g a) cb (map clks [0..<n])
    in failure_count cb' a = of_nat n \<and> brk_config cb' = brk_config cb \<and>
       circuit_state_of cb' a =
         (if n < unat (circuit_breaker_threshold (brk_config cb)) then Closed else Open)"
  using assms(3)
proof (induction n)
  case 0
  then show ?case using assms by simp
next
  case (Suc n)
  let ?g = "foldl (\<lambda>g clk. breaker_record_failure clk g a) cb (map clks [0..<n])"
  have IH: "failure_count ?g a = of_nat n" "brk_config ?g = brk_config cb"
    "circuit_state_of ?g a =
       (if n < unat (circuit_breaker_threshold (brk_config cb)) then Closed else Open)"
    using Suc by (simp_all add: Let_def)
  have w: "circuit_breaker_threshold (brk_config cb) \<le> (of_nat (Suc n) :: u32) \<longleftrightarrow>
      unat (circuit_breaker_threshold (brk_config cb)) \<le> Suc n"
    using Suc.prems by (simp add: word_le_nat_alt unat_of_nat take_bit_nat_eq_self del: of_nat_Suc)
  show ?case
    using IH w by (auto simp: Let_def failure_state failure_count_failure frame_simps add.commute)
qed

text \<open>
  C21. From a closed circuit with no recorded failure, \<open>n\<close> consecutive failures leave it closed
  exactly while \<open>n\<close> is below the threshold: the circuit opens at the threshold-th failure, not
  before and not later, at whatever times the failures are recorded.
\<close>

theorem trips_at_threshold:
  assumes "circuit_state_of cb a = Closed" and "failure_count cb a = 0"
    and "circuit_breaker_threshold (brk_config cb) \<noteq> 0" and "n < 2 ^ 32"
  shows "circuit_state_of
      (foldl (\<lambda>g clk. breaker_record_failure clk g a) cb (map clks [0..<n])) a =
    (if n < unat (circuit_breaker_threshold (brk_config cb)) then Closed else Open)"
proof -
  have "0 < unat (circuit_breaker_threshold (brk_config cb))"
    using assms(3) by (simp add: unat_gt_0)
  then show ?thesis
    using failures_in_a_row [OF assms(1,2,4), of clks] by (simp add: Let_def)
qed

theorem trips_at_threshold_witness:
  "circuit_state_of (foldl (\<lambda>g clk. breaker_record_failure clk g (AgentId 1))
      circuit_breaker_with_defaults (map (\<lambda>i _. int i) [0..<3])) (AgentId 1) = Open"
  using trips_at_threshold [of circuit_breaker_with_defaults "AgentId 1" 3 "\<lambda>i _. int i"]
  by (simp add: circuit_breaker_with_defaults_def default_fault_config_def)

text \<open>A circuit opened at second 20.\<close>

definition breaker_example :: circuit_breaker where
  "breaker_example = put_breaker circuit_breaker_with_defaults (AgentId 1)
     ((breaker_new 20000000000)\<lparr>bs_state := Open\<rparr>)"

text \<open>
  A request is refused exactly when the agent's circuit is open and the cool-down has not
  elapsed; a refused call changes nothing, and an admitted call on an open circuit makes it
  half-open.
\<close>

lemma allow_request_decision:
  "(case allow_request c clk cb a of
      (Inl e, cb') \<Rightarrow> e = CircuitOpen a \<and> cb' = cb \<and>
        (\<exists>s. brk_breakers cb a = Some s \<and> bs_state s = Open \<and>
           clk 0 - bs_last_state_change s < from_std_or_secs c 30 (brk_cooldown cb))
    | (Inr _, cb') \<Rightarrow>
        (\<forall>s. brk_breakers cb a \<noteq> Some s \<or> bs_state s \<noteq> Open \<or>
           from_std_or_secs c 30 (brk_cooldown cb) \<le> clk 0 - bs_last_state_change s) \<and>
        circuit_state_of cb' a = (if circuit_state_of cb a = Closed then Closed else HalfOpen))"
proof (cases "brk_breakers cb a")
  case None
  then show ?thesis
    by (simp add: allow_request_def breaker_entry_def breaker_new_def circuit_state_of_def
        put_breaker_def)
next
  case (Some s)
  then show ?thesis
    by (cases "bs_state s")
      (auto simp: allow_request_def breaker_entry_def circuit_state_of_def put_breaker_def
        Let_def map_upd_triv)
qed

lemma allow_request_decision_example:
  "fst (allow_request chrono_limits (\<lambda>_. 40000000000) breaker_example (AgentId 1))
     = Inl (CircuitOpen (AgentId 1))"
proof -
  have t: "from_std_or_secs chrono_limits 30 (brk_cooldown breaker_example) = 30000000000"
    by (simp add: breaker_example_def put_breaker_def circuit_breaker_with_defaults_def
        from_std_or_secs_def chrono_limits_def from_secs_def NANOS_PER_SEC_def TD_MAX_def)
  have s: "brk_breakers breaker_example (AgentId 1) =
      Some ((breaker_new 20000000000)\<lparr>bs_state := Open\<rparr>)"
    by (simp add: put_breaker_def breaker_example_def)
  show ?thesis
    using allow_request_decision [where c = chrono_limits and clk = "\<lambda>_. 40000000000"
        and cb = breaker_example and a = "AgentId 1"]
    by (auto simp: t s breaker_new_def split: prod.splits sum.splits)
qed

text \<open>
  Once open, a circuit stays open under any sequence of recorded successes and failures of
  any agents: only an admitted request after the cool-down, or a forced reset, leaves it.
\<close>

lemma open_circuit_ignores_reports:
  assumes "circuit_state_of cb b = Open"
  shows "circuit_state_of (foldl (\<lambda>g (clk, a, good).
      if good then breaker_record_success clk g a else breaker_record_failure clk g a) cb es) b
    = Open"
proof -
  have "request_gate.report breaker_record_success breaker_record_failure =
      (\<lambda>g (clk, a, good).
        if good then breaker_record_success clk g a else breaker_record_failure clk g a)"
    by (auto simp: fun_eq_iff breaker_gate.report_def)
  then show ?thesis using breaker_gate.reports_open [OF assms, of es] by simp
qed

lemma open_circuit_ignores_reports_example:
  "circuit_state_of (foldl (\<lambda>g (clk, a, good).
      if good then breaker_record_success clk g a else breaker_record_failure clk g a)
      (put_breaker circuit_breaker_with_defaults (AgentId 1)
         ((breaker_new 0)\<lparr>bs_state := Open\<rparr>))
      [(\<lambda>_. 3, AgentId 1, True), (\<lambda>_. 4, AgentId 2, False)]) (AgentId 1) = Open"
  by (rule open_circuit_ignores_reports) simp

text \<open>
  A half-open circuit admits every request, not one probe: any number of requests in a row is
  admitted and leaves the circuit half-open. (The module's comment promises exactly one probe.)
\<close>

lemma half_open_admits_all:
  assumes "circuit_state_of cb a = HalfOpen"
  shows "let g = foldl (\<lambda>g clk. snd (allow_request c clk g a)) cb clks
    in circuit_state_of g a = HalfOpen \<and> fst (allow_request c clk g a) = Inr ()"
proof -
  have one: "fst (allow_request c clk g a) = Inr () \<and>
      circuit_state_of (snd (allow_request c clk g a)) a = HalfOpen"
    if "circuit_state_of g a = HalfOpen" for g clk
    using that by (simp add: allow_request_def Let_def)
  have "circuit_state_of (foldl (\<lambda>g clk. snd (allow_request c clk g a)) cb clks) a = HalfOpen"
    using assms by (induction clks arbitrary: cb) (auto simp: one)
  then show ?thesis by (simp add: Let_def one)
qed

lemma half_open_admits_all_example:
  "fst (allow_request chrono_limits (\<lambda>_. 9) (foldl (\<lambda>g clk.
      snd (allow_request chrono_limits clk g (AgentId 1)))
      (put_breaker circuit_breaker_with_defaults (AgentId 1)
         ((breaker_new 0)\<lparr>bs_state := HalfOpen\<rparr>)) [\<lambda>_. 1, \<lambda>_. 2]) (AgentId 1)) = Inr ()"
proof -
  have h: "circuit_state_of (put_breaker circuit_breaker_with_defaults (AgentId 1)
         ((breaker_new 0)\<lparr>bs_state := HalfOpen\<rparr>)) (AgentId 1) = HalfOpen"
    by simp
  show ?thesis
    using half_open_admits_all [OF h, of chrono_limits "[\<lambda>_. 1, \<lambda>_. 2]" "\<lambda>_. 9"]
    by (simp only: Let_def)
qed

end
