(* ===== verification/Heartbeat.thy ===== *)
theory Heartbeat
  imports Atp_Types
begin

text \<open>
  The heartbeat monitor of \<open>atp-fault\<close> (\<open>heartbeat.rs\<close>): a table of the last heartbeat of every
  agent and a periodic check that turns silence into a verdict. Every method takes the lock once,
  so it is one atomic step on the table.

  The timeout is a \<open>Duration\<close> product and may overflow, and doubling it is a \<open>TimeDelta\<close> sum that
  may overflow: both are panics (\<open>None\<close>).
\<close>

datatype heartbeat_status = Alive | Suspected | Dead

record agent_heartbeat_state =
  hs_last_sequence :: u64
  hs_last_seen :: datetime
  hs_queue_depth :: u32
  hs_load_factor :: f64
  hs_status :: heartbeat_status

record heartbeat_monitor =
  hm_config :: fault_config
  hm_agents :: "agent_id \<rightharpoonup> agent_heartbeat_state"

definition heartbeat_monitor_new :: "fault_config \<Rightarrow> heartbeat_monitor" where
  "heartbeat_monitor_new cfg = \<lparr>hm_config = cfg, hm_agents = Map.empty\<rparr>"

definition heartbeat_monitor_with_defaults :: heartbeat_monitor where
  "heartbeat_monitor_with_defaults = heartbeat_monitor_new default_fault_config"

definition heartbeat_timeout :: "heartbeat_monitor \<Rightarrow> duration option" where
  "heartbeat_timeout m =
     dur_mul (heartbeat_interval (hm_config m)) (heartbeat_timeout_multiplier (hm_config m))"

definition record_heartbeat ::
  "datetime \<Rightarrow> heartbeat_monitor \<Rightarrow> heartbeat_msg \<Rightarrow> heartbeat_monitor" where
  "record_heartbeat now m msg =
     (let entry = (case hm_agents m (hb_from msg) of
            Some s \<Rightarrow> s
          | None \<Rightarrow> \<lparr>hs_last_sequence = 0, hs_last_seen = now, hs_queue_depth = 0,
                     hs_load_factor = 0, hs_status = Alive\<rparr>);
          entry' = (if hs_last_sequence entry < hb_sequence msg
            then \<lparr>hs_last_sequence = hb_sequence msg, hs_last_seen = now,
                  hs_queue_depth = hb_queue_depth msg, hs_load_factor = hb_load_factor msg,
                  hs_status = Alive\<rparr>
            else entry)
      in m\<lparr>hm_agents := (hm_agents m)(hb_from msg \<mapsto> entry')\<rparr>)"

text \<open>The verdict for one agent inside the loop of \<open>check_all\<close>.\<close>

definition heartbeat_verdict ::
  "chrono \<Rightarrow> timedelta \<Rightarrow> timedelta \<Rightarrow> heartbeat_status option" where
  "heartbeat_verdict c timeout elapsed =
     (if elapsed \<le> timeout then Some Alive
      else do {
        twice \<leftarrow> td_add c timeout timeout;
        Some (if elapsed \<le> twice then Suspected else Dead)
      })"

fun check_loop ::
  "chrono \<Rightarrow> datetime \<Rightarrow> timedelta \<Rightarrow> agent_id list \<Rightarrow>
   (agent_id \<rightharpoonup> agent_heartbeat_state) \<Rightarrow>
   ((agent_id \<times> heartbeat_status) list \<times> (agent_id \<rightharpoonup> agent_heartbeat_state)) option" where
  "check_loop c now timeout [] agents = Some ([], agents)"
| "check_loop c now timeout (i # ids) agents =
     (case agents i of
        None \<Rightarrow> check_loop c now timeout ids agents
      | Some s \<Rightarrow> do {
          new_status \<leftarrow> heartbeat_verdict c timeout (now - hs_last_seen s);
          (changed, agents') \<leftarrow>
            check_loop c now timeout ids (agents(i \<mapsto> s\<lparr>hs_status := new_status\<rparr>));
          Some (if new_status \<noteq> hs_status s then ((i, new_status) # changed, agents')
                else (changed, agents'))
        })"

definition check_all ::
  "chrono \<Rightarrow> datetime \<Rightarrow> agent_id list \<Rightarrow> heartbeat_monitor \<Rightarrow>
   ((agent_id \<times> heartbeat_status) list \<times> heartbeat_monitor) option" where
  "check_all c now ks m = do {
     t \<leftarrow> heartbeat_timeout m;
     let timeout = from_std_or_secs c 3 t;
     (changed, agents) \<leftarrow> check_loop c now timeout ks (hm_agents m);
     Some (changed, m\<lparr>hm_agents := agents\<rparr>)
   }"

definition heartbeat_status_of :: "heartbeat_monitor \<Rightarrow> agent_id \<Rightarrow> fault_error + heartbeat_status"
  where
  "heartbeat_status_of m a =
     ok_or (HeartbeatTimeout a) (map_option hs_status (hm_agents m a))"

definition heartbeat_last_seen :: "heartbeat_monitor \<Rightarrow> agent_id \<Rightarrow> datetime option" where
  "heartbeat_last_seen m a = map_option hs_last_seen (hm_agents m a)"

definition heartbeat_queue_depth :: "heartbeat_monitor \<Rightarrow> agent_id \<Rightarrow> u32 option" where
  "heartbeat_queue_depth m a = map_option hs_queue_depth (hm_agents m a)"

definition alive_agents :: "agent_id list \<Rightarrow> heartbeat_monitor \<Rightarrow> agent_id list" where
  "alive_agents ks m =
     map fst (filter (\<lambda>(_, s). hs_status s = Alive) (entries ks (hm_agents m)))"

definition failed_agents ::
  "agent_id list \<Rightarrow> heartbeat_monitor \<Rightarrow> (agent_id \<times> heartbeat_status) list" where
  "failed_agents ks m =
     map (\<lambda>(i, s). (i, hs_status s))
       (filter (\<lambda>(_, s). hs_status s \<noteq> Alive) (entries ks (hm_agents m)))"

definition heartbeat_remove_agent ::
  "heartbeat_monitor \<Rightarrow> agent_id \<Rightarrow> bool \<times> heartbeat_monitor" where
  "heartbeat_remove_agent m a =
     (hm_agents m a \<noteq> None, m\<lparr>hm_agents := (hm_agents m)(a := None)\<rparr>)"

definition heartbeat_tracked_count :: "heartbeat_monitor \<Rightarrow> nat" where
  "heartbeat_tracked_count m = card (dom (hm_agents m))"

section \<open>The check\<close>

text \<open>The verdict the thresholds ask for, when doubling the timeout does not panic.\<close>

definition heartbeat_spec :: "timedelta \<Rightarrow> datetime \<Rightarrow> agent_heartbeat_state \<Rightarrow> heartbeat_status"
  where
  "heartbeat_spec timeout now s =
     (if now - hs_last_seen s \<le> timeout then Alive
      else if now - hs_last_seen s \<le> 2 * timeout then Suspected else Dead)"

lemma heartbeat_verdict_Some:
  assumes "chrono_sound c" and "heartbeat_verdict c t (now - hs_last_seen s) = Some v"
  shows "v = heartbeat_spec t now s"
  using assms by (auto simp: heartbeat_verdict_def heartbeat_spec_def bind_eq_Some_conv
      dest: chrono_soundD split: if_splits)

lemma heartbeat_spec_status [simp]: "heartbeat_spec t now (s\<lparr>hs_status := v\<rparr>) = heartbeat_spec t now s"
  by (simp add: heartbeat_spec_def)

lemma alive_again:
  "Alive = heartbeat_spec t now s \<Longrightarrow> past \<le> now \<Longrightarrow> heartbeat_spec t past s = Alive"
  by (simp add: heartbeat_spec_def split: if_splits)

lemma check_loop_table:
  assumes "chrono_sound c" and "check_loop c now t ks m = Some (changed, m')" and "distinct ks"
  shows "m' = (\<lambda>i. if i \<in> set ks
       then map_option (\<lambda>s. s\<lparr>hs_status := heartbeat_spec t now s\<rparr>) (m i) else m i)"
  using assms(2,3)
proof (induction ks arbitrary: m changed m')
  case Nil
  then show ?case by simp
next
  case (Cons i ks)
  show ?case
  proof (cases "m i")
    case None
    with Cons.prems have "check_loop c now t ks m = Some (changed, m')" and "distinct ks" by auto
    from Cons.IH [OF this] None show ?thesis by (auto simp: fun_eq_iff)
  next
    case (Some s)
    from Cons.prems Some obtain v ch where "heartbeat_verdict c t (now - hs_last_seen s) = Some v"
      and ch: "check_loop c now t ks (m(i \<mapsto> s\<lparr>hs_status := v\<rparr>)) = Some (ch, m')"
      by (auto simp: bind_eq_Some_conv split: if_splits)
    with heartbeat_verdict_Some [OF assms(1)] Cons.IH [OF ch] Cons.prems(2) Some
    show ?thesis by (auto simp: fun_eq_iff)
  qed
qed

lemma check_loop_changed:
  assumes "chrono_sound c" and "check_loop c now t ks m = Some (changed, m')" and "distinct ks"
  shows "changed = map (\<lambda>(i, s). (i, heartbeat_spec t now s))
     (filter (\<lambda>(i, s). heartbeat_spec t now s \<noteq> hs_status s) (entries ks m))"
  using assms(2,3)
proof (induction ks arbitrary: m changed m')
  case Nil
  then show ?case by simp
next
  case (Cons i ks)
  show ?case
  proof (cases "m i")
    case None
    with Cons show ?thesis by (auto simp: entries_Cons)
  next
    case (Some s)
    from Cons.prems Some obtain v ch where
      v: "heartbeat_verdict c t (now - hs_last_seen s) = Some v"
      and ch: "check_loop c now t ks (m(i \<mapsto> s\<lparr>hs_status := v\<rparr>)) = Some (ch, m')"
      and changed: "changed = (if v \<noteq> hs_status s then (i, v) # ch else ch)"
      by (auto simp: bind_eq_Some_conv split: if_splits)
    have "entries ks (m(i := Some (s\<lparr>hs_status := v\<rparr>))) = entries ks m"
      by (intro entries_update_notin) (use Cons.prems(2) in simp)
    then show ?thesis
      using heartbeat_verdict_Some [OF assms(1) v] Cons.IH [OF ch] Cons.prems(2) Some changed
      by (simp only: entries_Cons) auto
  qed
qed

lemma record_heartbeat_other [frame_simps]:
  "b \<noteq> hb_from msg \<Longrightarrow> hm_agents (record_heartbeat now m msg) b = hm_agents m b"
  by (simp add: record_heartbeat_def Let_def)

lemma record_heartbeat_config [frame_simps]:
  "hm_config (record_heartbeat now m msg) = hm_config m"
  by (simp add: record_heartbeat_def Let_def)

text \<open>The last accepted sequence number, zero for an agent that is not tracked.\<close>

definition hb_known_sequence :: "heartbeat_monitor \<Rightarrow> agent_id \<Rightarrow> u64" where
  "hb_known_sequence m a = (case hm_agents m a of Some s \<Rightarrow> hs_last_sequence s | None \<Rightarrow> 0)"

lemma hb_known_sequence_record:
  "hb_known_sequence (record_heartbeat now m msg) a =
     (if a = hb_from msg then max (hb_known_sequence m a) (hb_sequence msg)
      else hb_known_sequence m a)"
  by (auto simp: hb_known_sequence_def record_heartbeat_def Let_def max_def word_neq_0_conv [symmetric]
      split: option.splits)

lemma record_heartbeat_stale:
  assumes "hm_agents m (hb_from msg) = Some s" and "hb_sequence msg \<le> hs_last_sequence s"
  shows "record_heartbeat now m msg = m"
  using assms by (auto simp: record_heartbeat_def Let_def not_less map_upd_triv)

section \<open>Properties\<close>

text \<open>
  C23. When the check returns, it has given every tracked agent the verdict of the thresholds
  (silent for at most the timeout: alive; at most twice the timeout: suspected; else dead), left
  the rest of the table alone, and reported exactly the agents whose verdict changed, each once.
  That includes a change back to alive, which the comment of \<open>check_all\<close> (changed to suspected or
  dead) leaves out. It takes a clock that has been set back: the status on record is then not alive,
  and not the verdict of any reading of the clock up to now.
\<close>

theorem check_all_verdicts:
  assumes "chrono_sound c" and "iterates ks (hm_agents m)"
    and "check_all c now ks m = Some (changed, m')" and "heartbeat_timeout m = Some t"
  defines "verdict \<equiv> heartbeat_spec (from_std_or_secs c 3 t) now"
  shows "m' = m\<lparr>hm_agents := map_option (\<lambda>s. s\<lparr>hs_status := verdict s\<rparr>) \<circ> hm_agents m\<rparr>
    \<and> distinct (map fst changed)
    \<and> set changed = {(a, v). \<exists>s. hm_agents m a = Some s \<and> v = verdict s \<and> v \<noteq> hs_status s}
    \<and> (\<forall>a s past. (a, Alive) \<in> set changed \<and> hm_agents m a = Some s \<and> past \<le> now \<longrightarrow>
        hs_status s \<noteq> Alive \<and> hs_status s \<noteq> heartbeat_spec (from_std_or_secs c 3 t) past s)"
proof -
  from assms(3,4) obtain ags where loop:
    "check_loop c now (from_std_or_secs c 3 t) ks (hm_agents m) = Some (changed, ags)"
    and m': "m' = m\<lparr>hm_agents := ags\<rparr>"
    by (auto simp: check_all_def bind_eq_Some_conv Let_def)
  have ks: "distinct ks" "\<And>a. a \<in> set ks \<longleftrightarrow> hm_agents m a \<noteq> None"
    using assms(2) by (auto simp: iterates_def dom_def)
  have "ags = map_option (\<lambda>s. s\<lparr>hs_status := verdict s\<rparr>) \<circ> hm_agents m"
    using check_loop_table [OF assms(1) loop ks(1)] ks(2)
    by (auto simp: verdict_def fun_eq_iff)
  then have tab: "m' = m\<lparr>hm_agents := map_option (\<lambda>s. s\<lparr>hs_status := verdict s\<rparr>) \<circ> hm_agents m\<rparr>"
    using m' by simp
  have dist: "distinct (map fst changed)"
    using check_loop_changed [OF assms(1) loop ks(1)] distinct_entries_filter [OF assms(2)]
    by (simp add: verdict_def)
  have set: "set changed = {(a, v). \<exists>s. hm_agents m a = Some s \<and> v = verdict s \<and> v \<noteq> hs_status s}"
    using check_loop_changed [OF assms(1) loop ks(1)]
    by (auto simp: verdict_def set_entries [OF assms(2)])
  have "hs_status s \<noteq> Alive \<and> hs_status s \<noteq> heartbeat_spec (from_std_or_secs c 3 t) past s"
    if "(a, Alive) \<in> set changed" "hm_agents m a = Some s" "past \<le> now" for a s past
    using that(1,2) alive_again [OF _ that(3)] unfolding set verdict_def by fastforce
  then show ?thesis using tab dist set by blast
qed

text \<open>Three agents, silent for 1, 4 and 9 seconds under a timeout of 3 seconds.\<close>

definition heartbeat_example :: heartbeat_monitor where
  "heartbeat_example = heartbeat_monitor_with_defaults\<lparr>hm_agents :=
     [AgentId 1 \<mapsto> \<lparr>hs_last_sequence = 1, hs_last_seen = 8000000000, hs_queue_depth = 0,
                    hs_load_factor = 0, hs_status = Alive\<rparr>,
      AgentId 2 \<mapsto> \<lparr>hs_last_sequence = 1, hs_last_seen = 5000000000, hs_queue_depth = 0,
                    hs_load_factor = 0, hs_status = Alive\<rparr>,
      AgentId 3 \<mapsto> \<lparr>hs_last_sequence = 1, hs_last_seen = 0, hs_queue_depth = 0,
                    hs_load_factor = 0, hs_status = Suspected\<rparr>]\<rparr>"

theorem check_all_verdicts_witness:
  "\<exists>m'. check_all chrono_limits 9000000000 [AgentId 1, AgentId 2, AgentId 3] heartbeat_example
     = Some ([(AgentId 2, Suspected), (AgentId 3, Dead)], m') \<and>
   map_option hs_status (hm_agents m' (AgentId 1)) = Some Alive \<and>
   map_option hs_status (hm_agents m' (AgentId 3)) = Some Dead"
proof -
  have it: "iterates [AgentId 1, AgentId 2, AgentId 3] (hm_agents heartbeat_example)"
    by (auto simp: iterates_def heartbeat_example_def)
  have t: "heartbeat_timeout heartbeat_example = Some 3000000000"
    by (simp add: heartbeat_timeout_def heartbeat_example_def heartbeat_monitor_with_defaults_def
        heartbeat_monitor_new_def default_fault_config_def from_secs_def NANOS_PER_SEC_def
        DURATION_MAX_def)
  have fs: "from_std_or_secs chrono_limits 3 3000000000 = 3000000000"
    by (simp add: from_std_or_secs_def chrono_limits_def TD_MAX_def)
  obtain m' where run:
    "check_all chrono_limits 9000000000 [AgentId 1, AgentId 2, AgentId 3] heartbeat_example
     = Some ([(AgentId 2, Suspected), (AgentId 3, Dead)], m')"
    unfolding check_all_def t
    by (simp add: fs, simp add: heartbeat_example_def heartbeat_verdict_def chrono_limits_def
        TD_MAX_def Let_def)
  show ?thesis
    using check_all_verdicts [OF chrono_limits_sound it run t] run
    by (simp add: fs heartbeat_spec_def heartbeat_example_def)
qed

text \<open>
  Whatever heartbeats arrive in whatever order, the sequence number kept for an agent is the
  largest it has sent, and a heartbeat that does not exceed it changes nothing at all: neither the
  last-seen time nor the reported load can be moved by a replayed or reordered message.
\<close>

lemma heartbeat_sequence_newest:
  "hb_known_sequence (foldl (\<lambda>m (now, msg). record_heartbeat now m msg) m es) a =
     fold max (map (hb_sequence \<circ> snd) (filter (\<lambda>e. hb_from (snd e) = a) es))
       (hb_known_sequence m a)
   \<and> (\<forall>now s msg. hm_agents m (hb_from msg) \<noteq> Some s \<or> hs_last_sequence s < hb_sequence msg
        \<or> record_heartbeat now m msg = m)"
proof
  show "hb_known_sequence (foldl (\<lambda>m (now, msg). record_heartbeat now m msg) m es) a =
     fold max (map (hb_sequence \<circ> snd) (filter (\<lambda>e. hb_from (snd e) = a) es))
       (hb_known_sequence m a)"
    by (induction es arbitrary: m) (auto simp: hb_known_sequence_record max.commute)
  show "\<forall>now s msg. hm_agents m (hb_from msg) \<noteq> Some s \<or> hs_last_sequence s < hb_sequence msg
        \<or> record_heartbeat now m msg = m"
    using record_heartbeat_stale by (metis not_less)
qed

lemma heartbeat_sequence_newest_example:
  "record_heartbeat 5 heartbeat_example
     \<lparr>hb_from = AgentId 1, hb_sequence = 1, hb_queue_depth = 9, hb_load_factor = 0\<rparr>
   = heartbeat_example"
proof -
  let ?msg = "\<lparr>hb_from = AgentId 1, hb_sequence = 1, hb_queue_depth = 9, hb_load_factor = 0\<rparr>"
  let ?s = "\<lparr>hs_last_sequence = 1, hs_last_seen = 8000000000, hs_queue_depth = 0,
                    hs_load_factor = 0, hs_status = Alive\<rparr>"
  have "hm_agents heartbeat_example (hb_from ?msg) = Some ?s"
    by (simp add: heartbeat_example_def)
  then show ?thesis
    using heartbeat_sequence_newest [of heartbeat_example "[]", THEN conjunct2,
        THEN spec [of _ 5], THEN spec [of _ ?s], THEN spec [of _ ?msg]]
    by simp
qed

end
