(* ===== verification/Checkpoint.thy ===== *)
theory Checkpoint
  imports Atp_Types
begin

text \<open>
  The checkpoint store of \<open>atp-fault\<close> (\<open>checkpoint.rs\<close>): the newest checkpoint of every task and
  the log of all of them, behind two separate locks. \<open>save\<close> and \<open>remove\<close> take one lock after the
  other, so each is two atomic sections; the sections are definitions of their own, composed here
  by the methods and, in the last section, interleaved by concurrent calls.
\<close>

record checkpoint_data =
  cp_task_id :: uuid
  cp_state_bytes :: "u8 list"
  cp_agent_id :: agent_id
  cp_timestamp :: datetime
  cp_version :: u64

record failover_decision =
  fo_task_id :: uuid
  fo_checkpoint :: "checkpoint_data option"
  fo_failed_agent :: agent_id
  fo_new_agent :: agent_id
  fo_decided_at :: datetime

record checkpoint_store =
  cs_store :: "uuid \<rightharpoonup> checkpoint_data"
  cs_history :: "uuid \<rightharpoonup> checkpoint_data list"

definition checkpoint_store_new :: checkpoint_store where
  "checkpoint_store_new = \<lparr>cs_store = Map.empty, cs_history = Map.empty\<rparr>"

definition get_history :: "checkpoint_store \<Rightarrow> uuid \<Rightarrow> checkpoint_data list" where
  "get_history s t = (case cs_history s t of Some h \<Rightarrow> h | None \<Rightarrow> [])"

text \<open>The two sections of \<open>save\<close>.\<close>

definition save_history :: "checkpoint_data \<Rightarrow> checkpoint_store \<Rightarrow> checkpoint_store" where
  "save_history d s =
     s\<lparr>cs_history := (cs_history s)(cp_task_id d \<mapsto> get_history s (cp_task_id d) @ [d])\<rparr>"

definition save_store :: "checkpoint_data \<Rightarrow> checkpoint_store \<Rightarrow> checkpoint_store" where
  "save_store d s =
     (let should_update = (case cs_store s (cp_task_id d) of
            Some existing \<Rightarrow> cp_version existing < cp_version d
          | None \<Rightarrow> True)
      in if should_update then s\<lparr>cs_store := (cs_store s)(cp_task_id d \<mapsto> d)\<rparr> else s)"

definition checkpoint_save :: "checkpoint_store \<Rightarrow> checkpoint_data \<Rightarrow> checkpoint_store" where
  "checkpoint_save s d = save_store d (save_history d s)"

definition create_checkpoint ::
  "datetime \<Rightarrow> checkpoint_store \<Rightarrow> uuid \<Rightarrow> u8 list \<Rightarrow> agent_id \<Rightarrow> u64 \<Rightarrow>
   checkpoint_data \<times> checkpoint_store" where
  "create_checkpoint now s task_id state_bytes agent_id version =
     (let cp = \<lparr>cp_task_id = task_id, cp_state_bytes = state_bytes, cp_agent_id = agent_id,
                cp_timestamp = now, cp_version = version\<rparr>
      in (cp, checkpoint_save s cp))"

definition checkpoint_get :: "checkpoint_store \<Rightarrow> uuid \<Rightarrow> checkpoint_data option" where
  "checkpoint_get s t = cs_store s t"

definition has_checkpoint :: "checkpoint_store \<Rightarrow> uuid \<Rightarrow> bool" where
  "has_checkpoint s t \<longleftrightarrow> cs_store s t \<noteq> None"

definition checkpoint_count :: "checkpoint_store \<Rightarrow> nat" where
  "checkpoint_count s = card (dom (cs_store s))"

text \<open>The two sections of \<open>remove\<close>.\<close>

definition remove_store :: "uuid \<Rightarrow> checkpoint_store \<Rightarrow> checkpoint_store" where
  "remove_store t s = s\<lparr>cs_store := (cs_store s)(t := None)\<rparr>"

definition remove_history :: "uuid \<Rightarrow> checkpoint_store \<Rightarrow> checkpoint_store" where
  "remove_history t s = s\<lparr>cs_history := (cs_history s)(t := None)\<rparr>"

definition checkpoint_remove ::
  "checkpoint_store \<Rightarrow> uuid \<Rightarrow> checkpoint_data option \<times> checkpoint_store" where
  "checkpoint_remove s t = (cs_store s t, remove_history t (remove_store t s))"

definition failover ::
  "datetime \<Rightarrow> checkpoint_store \<Rightarrow> uuid \<Rightarrow> agent_id \<Rightarrow> agent_id \<Rightarrow>
   fault_error + failover_decision" where
  "failover now s task_id failed_agent new_agent =
     (if failed_agent = new_agent
      then Inl (CheckpointFailed ''new agent is the same as the failed agent'')
      else Inr \<lparr>fo_task_id = task_id, fo_checkpoint = checkpoint_get s task_id,
               fo_failed_agent = failed_agent, fo_new_agent = new_agent, fo_decided_at = now\<rparr>)"

section \<open>The store against its log\<close>

text \<open>The newest entry of a log: the first of those with the largest version.\<close>

fun newest :: "checkpoint_data list \<Rightarrow> checkpoint_data option" where
  "newest [] = None"
| "newest (d # ds) =
     (case newest ds of
        None \<Rightarrow> Some d
      | Some e \<Rightarrow> if cp_version d < cp_version e then Some e else Some d)"

lemma newest_append:
  "newest (ds @ [d]) =
     (case newest ds of
        None \<Rightarrow> Some d
      | Some e \<Rightarrow> if cp_version e < cp_version d then Some d else Some e)"
  by (induction ds) (auto split: option.splits)

lemma newest_None [simp]: "newest ds = None \<longleftrightarrow> ds = []"
  by (cases ds) (auto split: option.splits)

lemma newest_Some:
  "newest ds = Some e \<Longrightarrow> e \<in> set ds \<and> (\<forall>d \<in> set ds. cp_version d \<le> cp_version e)"
proof (induction ds arbitrary: e)
  case Nil
  then show ?case by simp
next
  case (Cons d ds)
  then show ?case
    by (cases "newest ds") (force split: if_splits)+
qed

lemma get_history_save_history [simp]:
  "get_history (save_history d s) t =
     (if t = cp_task_id d then get_history s t @ [d] else get_history s t)"
  by (simp add: get_history_def save_history_def)

lemma get_history_frame [simp]:
  "get_history (save_store d s) t = get_history s t"
  "get_history (remove_store u s) t = get_history s t"
  "get_history (remove_history u s) t = (if t = u then [] else get_history s t)"
  by (simp_all add: get_history_def save_store_def remove_store_def remove_history_def Let_def)

lemma cs_store_frame [simp]:
  "cs_store (save_history d s) = cs_store s"
  "cs_store (remove_history u s) = cs_store s"
  "cs_store (remove_store u s) = (cs_store s)(u := None)"
  by (simp_all add: save_history_def remove_history_def remove_store_def)

lemma cs_store_save_store:
  "cs_store (save_store d s) t =
     (if t = cp_task_id d \<and>
         (case cs_store s t of Some e \<Rightarrow> cp_version e < cp_version d | None \<Rightarrow> True)
      then Some d else cs_store s t)"
  by (auto simp: save_store_def Let_def split: option.splits)

datatype checkpoint_call =
    Save checkpoint_data
  | Remove uuid

fun checkpoint_run :: "checkpoint_store \<Rightarrow> checkpoint_call \<Rightarrow> checkpoint_store" where
  "checkpoint_run s (Save d) = checkpoint_save s d"
| "checkpoint_run s (Remove t) = snd (checkpoint_remove s t)"

definition checkpoint_inv :: "checkpoint_store \<Rightarrow> bool" where
  "checkpoint_inv s \<longleftrightarrow> (\<forall>t. cs_store s t = newest (get_history s t))"

lemma checkpoint_new_inv [wf_intros]: "checkpoint_inv checkpoint_store_new"
  by (simp add: checkpoint_inv_def checkpoint_store_new_def get_history_def)

lemma checkpoint_run_inv [wf_intros]: "checkpoint_inv s \<Longrightarrow> checkpoint_inv (checkpoint_run s e)"
  by (cases e)
    (auto simp: checkpoint_inv_def checkpoint_save_def checkpoint_remove_def cs_store_save_store
      newest_append split: option.splits)

section \<open>Concurrent calls\<close>

text \<open>
  A call in progress is the list of the sections it has still to run. One step of the system runs
  the next section of one call.
\<close>

datatype checkpoint_section =
    PushHistory checkpoint_data
  | UpdateStore checkpoint_data
  | DropStore uuid
  | DropHistory uuid

fun run_section :: "checkpoint_section \<Rightarrow> checkpoint_store \<Rightarrow> checkpoint_store" where
  "run_section (PushHistory d) = save_history d"
| "run_section (UpdateStore d) = save_store d"
| "run_section (DropStore t) = remove_store t"
| "run_section (DropHistory t) = remove_history t"

fun call_sections :: "checkpoint_call \<Rightarrow> checkpoint_section list" where
  "call_sections (Save d) = [PushHistory d, UpdateStore d]"
| "call_sections (Remove t) = [DropStore t, DropHistory t]"

lemma call_sections_run: "fold run_section (call_sections e) s = checkpoint_run s e"
  by (cases e) (simp_all add: checkpoint_save_def checkpoint_remove_def)

inductive interleave ::
  "checkpoint_store \<times> checkpoint_section list list \<Rightarrow>
   checkpoint_store \<times> checkpoint_section list list \<Rightarrow> bool" where
  interleave_start: "interleave (s, calls) (s, calls)"
| interleave_step:
    "interleave (s0, c0) (s, calls) \<Longrightarrow> i < length calls \<Longrightarrow> calls ! i = x # xs \<Longrightarrow>
     interleave (s0, c0) (run_section x s, calls[i := xs])"

text \<open>A given schedule, as the list of the calls that take the next step.\<close>

fun schedule ::
  "nat list \<Rightarrow> checkpoint_store \<times> checkpoint_section list list \<Rightarrow>
   checkpoint_store \<times> checkpoint_section list list" where
  "schedule [] cfg = cfg"
| "schedule (i # is) (s, calls) = schedule is
     (if i < length calls then
        (case calls ! i of
           [] \<Rightarrow> (s, calls)
         | x # xs \<Rightarrow> (run_section x s, calls[i := xs]))
      else (s, calls))"

lemma interleave_schedule: "interleave cfg0 cfg \<Longrightarrow> interleave cfg0 (schedule is cfg)"
proof (induction "is" cfg rule: schedule.induct)
  case (1 cfg)
  then show ?case by simp
next
  case (2 i "is" s calls)
  obtain s0 c0 where c0: "cfg0 = (s0, c0)" by (cases cfg0)
  have "interleave cfg0 (if i < length calls then
      (case calls ! i of [] \<Rightarrow> (s, calls) | x # xs \<Rightarrow> (run_section x s, calls[i := xs]))
      else (s, calls))"
    using 2(2) unfolding c0 by (auto split: list.splits intro: interleave_step)
  from 2(1) [OF this] show ?case by simp
qed

lemma schedule_reachable: "interleave cfg (schedule is cfg)"
  by (cases cfg) (auto intro: interleave_schedule interleave_start)

text \<open>What holds between the sections of concurrent saves.\<close>

definition logged :: "checkpoint_store \<Rightarrow> checkpoint_data \<Rightarrow> bool" where
  "logged s d \<longleftrightarrow> d \<in> set (get_history s (cp_task_id d))"

definition covered :: "checkpoint_store \<Rightarrow> checkpoint_data \<Rightarrow> bool" where
  "covered s d \<longleftrightarrow>
     (\<exists>e. cs_store s (cp_task_id d) = Some e \<and> cp_version d \<le> cp_version e)"

definition save_call :: "checkpoint_store \<Rightarrow> checkpoint_section list \<Rightarrow> bool" where
  "save_call s c \<longleftrightarrow>
     c = [] \<or> (\<exists>d. c = [PushHistory d, UpdateStore d] \<or> c = [UpdateStore d] \<and> logged s d)"

definition saves_inv :: "checkpoint_store \<Rightarrow> checkpoint_section list list \<Rightarrow> bool" where
  "saves_inv s calls \<longleftrightarrow>
     (\<forall>c \<in> set calls. save_call s c) \<and>
     (\<forall>t e. cs_store s t = Some e \<longrightarrow> e \<in> set (get_history s t)) \<and>
     (\<forall>t. \<forall>d \<in> set (get_history s t).
        cp_task_id d = t \<and> ([UpdateStore d] \<in> set calls \<or> covered s d))"

lemma saves_invD:
  assumes "saves_inv s calls"
  shows "c \<in> set calls \<Longrightarrow> save_call s c"
    and "cs_store s t = Some e \<Longrightarrow> e \<in> set (get_history s t)"
    and "d \<in> set (get_history s t) \<Longrightarrow> cp_task_id d = t"
    and "d \<in> set (get_history s t) \<Longrightarrow> [UpdateStore d] \<in> set calls \<or> covered s d"
  using assms unfolding saves_inv_def by blast+

lemma logged_sections:
  "logged (save_history d s) e \<longleftrightarrow> e = d \<or> logged s e"
  "logged (save_store d s) e \<longleftrightarrow> logged s e"
  by (auto simp: logged_def)

lemma covered_sections:
  "covered (save_history d s) e \<longleftrightarrow> covered s e"
  "covered s e \<Longrightarrow> covered (save_store d s) e"
  "covered (save_store d s) d"
proof -
  show "covered (save_store d s) d"
    by (cases "cs_store s (cp_task_id d)") (auto simp: covered_def cs_store_save_store)
qed (auto simp: covered_def cs_store_save_store)

lemma save_call_sections:
  "save_call s c \<Longrightarrow> save_call (save_history d s) c"
  "save_call s c \<Longrightarrow> save_call (save_store d s) c"
  by (auto simp: save_call_def logged_sections)

lemma mem_list_update:
  assumes "c \<in> set (calls[i := x])"
  shows "c = x \<or> c \<in> set calls"
  using assms set_update_subset_insert [of calls i x] by auto

lemma mem_list_update_other:
  assumes "c \<in> set calls" "calls ! i \<noteq> c"
  shows "c \<in> set (calls[i := x])"
  using assms by (metis in_set_conv_nth length_list_update nth_list_update_neq)

lemma saves_inv_push:
  assumes inv: "saves_inv s calls" and i: "i < length calls"
    and c: "calls ! i = [PushHistory d, UpdateStore d]"
  shows "saves_inv (save_history d s) (calls[i := [UpdateStore d]])"
proof -
  have 1: "save_call (save_history d s) c" if "c \<in> set (calls[i := [UpdateStore d]])" for c
    using mem_list_update [OF that]
  proof
    assume "c = [UpdateStore d]"
    then show ?thesis by (simp add: save_call_def logged_sections)
  qed (use saves_invD(1) [OF inv] save_call_sections in blast)
  have 2: "e \<in> set (get_history (save_history d s) t)"
    if "cs_store (save_history d s) t = Some e" for t e
    using that saves_invD(2) [OF inv, of t e] by auto
  have new: "[UpdateStore d] \<in> set (calls[i := [UpdateStore d]])"
    using i by (simp add: set_update_memI)
  have old: "[UpdateStore e] \<in> set (calls[i := [UpdateStore d]])"
    if "[UpdateStore e] \<in> set calls" for e
    by (rule mem_list_update_other [OF that]) (simp add: c)
  have 3: "cp_task_id e = t \<and>
      ([UpdateStore e] \<in> set (calls[i := [UpdateStore d]]) \<or> covered (save_history d s) e)"
    if "e \<in> set (get_history (save_history d s) t)" for t e
  proof (cases "e \<in> set (get_history s t)")
    case True
    then show ?thesis
      using saves_invD(3,4) [OF inv True] old by (auto simp: covered_sections)
  next
    case False
    then show ?thesis using that new by (auto split: if_splits)
  qed
  show ?thesis unfolding saves_inv_def using 1 2 3 by blast
qed

lemma saves_inv_store:
  assumes inv: "saves_inv s calls" and i: "i < length calls" and c: "calls ! i = [UpdateStore d]"
  shows "saves_inv (save_store d s) (calls[i := []])"
proof -
  have 1: "save_call (save_store d s) c" if "c \<in> set (calls[i := []])" for c
    using mem_list_update [OF that]
  proof
    assume "c = []"
    then show ?thesis by (simp add: save_call_def)
  qed (use saves_invD(1) [OF inv] save_call_sections in blast)
  have "[UpdateStore d] \<in> set calls" using nth_mem [OF i] c by simp
  then have "logged s d"
    using saves_invD(1) [OF inv] by (fastforce simp: save_call_def)
  then have 2: "e \<in> set (get_history (save_store d s) t)"
    if "cs_store (save_store d s) t = Some e" for t e
    using that saves_invD(2) [OF inv, of t e]
    by (auto simp: cs_store_save_store logged_def split: if_splits)
  have 3: "cp_task_id e = t \<and>
      ([UpdateStore e] \<in> set (calls[i := []]) \<or> covered (save_store d s) e)"
    if "e \<in> set (get_history (save_store d s) t)" for t e
  proof -
    from that have e: "e \<in> set (get_history s t)" by simp
    show ?thesis
    proof (cases "e = d")
      case True
      then show ?thesis using saves_invD(3) [OF inv e] by (simp add: covered_sections)
    next
      case False
      have "[UpdateStore e] \<in> set (calls[i := []])" if "[UpdateStore e] \<in> set calls"
        by (rule mem_list_update_other [OF that]) (simp add: c False [symmetric])
      then show ?thesis
        using saves_invD(3,4) [OF inv e] covered_sections(2) by blast
    qed
  qed
  show ?thesis unfolding saves_inv_def using 1 2 3 by blast
qed

lemma saves_inv_interleave:
  assumes "interleave (checkpoint_store_new, map (call_sections \<circ> Save) ds) (s, calls)"
  shows "saves_inv s calls"
  using assms
proof (induction "(checkpoint_store_new, map (call_sections \<circ> Save) ds)" "(s, calls)"
    arbitrary: s calls rule: interleave.induct)
  case interleave_start
  then show ?case
    by (auto simp: saves_inv_def save_call_def checkpoint_store_new_def get_history_def)
next
  case (interleave_step s calls i x xs)
  from interleave_step have inv: "saves_inv s calls" by simp
  have "save_call s (x # xs)"
    using saves_invD(1) [OF inv nth_mem [OF interleave_step.hyps(3)]] interleave_step.hyps(4)
    by simp
  then obtain d where "x # xs = [PushHistory d, UpdateStore d] \<or> x # xs = [UpdateStore d]"
    by (auto simp: save_call_def)
  then show ?case
    using saves_inv_push [OF inv interleave_step.hyps(3)] interleave_step.hyps(4)
      saves_inv_store [OF inv interleave_step.hyps(3)] by auto
qed

section \<open>Properties\<close>

text \<open>
  C17. After any sequence of saves and removals the stored checkpoint of a task is the newest entry
  of its log (the earliest of those with the largest version), and there is one exactly when the
  log is not empty; a failover between different agents resumes from that checkpoint, and fails
  only between an agent and itself.
\<close>

theorem stored_checkpoint_is_newest:
  defines "run \<equiv> foldl checkpoint_run checkpoint_store_new"
  shows "checkpoint_get (run es) t = newest (get_history (run es) t)
    \<and> failover now (run es) t a b =
        (if a = b then Inl (CheckpointFailed ''new agent is the same as the failed agent'')
         else Inr \<lparr>fo_task_id = t, fo_checkpoint = newest (get_history (run es) t),
                  fo_failed_agent = a, fo_new_agent = b, fo_decided_at = now\<rparr>)"
proof -
  have all: "checkpoint_inv (foldl checkpoint_run s es)" if "checkpoint_inv s" for s
    using that by (induction es arbitrary: s) (auto intro: wf_intros)
  have "checkpoint_inv (run es)"
    unfolding run_def by (rule all [OF checkpoint_new_inv])
  then show ?thesis
    by (simp add: checkpoint_inv_def checkpoint_get_def failover_def)
qed

text \<open>
  C18. Saves that run concurrently, their two critical sections interleaved in any way, end with
  a newest version in the store: once all calls have returned, the stored checkpoint is one of
  those logged for the task and none of them has a larger version.
\<close>

theorem concurrent_saves_keep_newest:
  assumes "interleave (checkpoint_store_new, map (call_sections \<circ> Save) ds) (s, calls)"
    and "\<forall>c \<in> set calls. c = []" and "d \<in> set (get_history s t)"
  shows "\<exists>e. checkpoint_get s t = Some e \<and> e \<in> set (get_history s t)
    \<and> cp_version d \<le> cp_version e"
proof -
  note inv = saves_inv_interleave [OF assms(1)]
  have "covered s d"
    using saves_invD(4) [OF inv assms(3)] assms(2) by auto
  then show ?thesis
    using saves_invD(2,3) [OF inv] assms(3) by (auto simp: covered_def checkpoint_get_def)
qed

definition checkpoint_example :: "u64 \<Rightarrow> checkpoint_data" where
  "checkpoint_example v = \<lparr>cp_task_id = 9, cp_state_bytes = [], cp_agent_id = AgentId 1,
     cp_timestamp = 0, cp_version = v\<rparr>"

theorem concurrent_saves_keep_newest_witness:
  "\<exists>s. interleave (checkpoint_store_new,
       map (call_sections \<circ> Save) [checkpoint_example 1, checkpoint_example 2]) (s, [[], []]) \<and>
     (\<exists>e. checkpoint_get s 9 = Some e \<and> cp_version (checkpoint_example 2) \<le> cp_version e)"
proof -
  let ?d = checkpoint_example
  let ?s = "save_store (?d 1) (save_store (?d 2) (save_history (?d 2)
      (save_history (?d 1) checkpoint_store_new)))"
  have r: "interleave (checkpoint_store_new, map (call_sections \<circ> Save) [?d 1, ?d 2]) (?s, [[], []])"
    using schedule_reachable [of "(checkpoint_store_new,
        map (call_sections \<circ> Save) [?d 1, ?d 2])" "[0, 1, 1, 0]"] by simp
  have h: "?d 2 \<in> set (get_history ?s 9)"
    by (simp add: checkpoint_example_def)
  show ?thesis
    using concurrent_saves_keep_newest [OF r _ h] r by auto
qed

text \<open>
  A removal that runs between the two sections of a save undoes the link between the two
  tables: the store keeps a checkpoint of the task while its log is empty, so the removed task can
  still be resumed.
\<close>

lemma remove_races_save:
  "\<exists>s. interleave (checkpoint_store_new,
       [call_sections (Save (checkpoint_example 1)), call_sections (Remove 9)]) (s, [[], []])
     \<and> checkpoint_get s 9 = Some (checkpoint_example 1) \<and> get_history s 9 = []"
proof -
  let ?d = "checkpoint_example 1"
  let ?s = "save_store ?d (remove_history 9 (remove_store 9 (save_history ?d checkpoint_store_new)))"
  have "interleave (checkpoint_store_new, [call_sections (Save ?d), call_sections (Remove 9)])
      (?s, [[], []])"
    using schedule_reachable [of "(checkpoint_store_new,
        [call_sections (Save ?d), call_sections (Remove 9)])" "[0, 1, 1, 0]"] by simp
  moreover have "checkpoint_get ?s 9 = Some ?d" and "get_history ?s 9 = []"
    by (simp_all add: checkpoint_get_def cs_store_save_store checkpoint_example_def
        checkpoint_store_new_def)
  ultimately show ?thesis by blast
qed

end
