(* ===== verification/Poison.thy ===== *)
theory Poison
  imports Atp_Types
begin

text \<open>
  The poison-task detector of \<open>atp-fault\<close> (\<open>poison.rs\<close>): the failures of every task inside a
  sliding window, and the set of tasks marked as poisoned. A call is modelled as one step. The
  subtraction \<open>now - window\<close> panics when the instant leaves the range of \<open>DateTime\<close>; a step that
  panics has no result (\<open>None\<close>).
\<close>

datatype poison_status = Healthy | TaskSuspected | Poisoned

record failure_record =
  fr_agent_id :: agent_id
  fr_timestamp :: datetime

record poison_detector =
  pd_config :: fault_config
  pd_failures :: "uuid \<rightharpoonup> failure_record list"
  pd_poisoned :: "uuid set"

definition poison_detector_new :: "fault_config \<Rightarrow> poison_detector" where
  "poison_detector_new cfg = \<lparr>pd_config = cfg, pd_failures = Map.empty, pd_poisoned = {}\<rparr>"

definition poison_detector_with_defaults :: poison_detector where
  "poison_detector_with_defaults = poison_detector_new default_fault_config"

definition window_cutoff :: "chrono \<Rightarrow> poison_detector \<Rightarrow> datetime \<Rightarrow> datetime option" where
  "window_cutoff c d now =
     dt_sub c now (from_std_or_secs c 60 (poison_detection_window (pd_config d)))"

text \<open>\<open>distinct_agents.len()\<close>.\<close>

definition distinct_agents :: "failure_record list \<Rightarrow> nat" where
  "distinct_agents rs = card (set (map fr_agent_id rs))"

definition poison_record_failure ::
  "chrono \<Rightarrow> datetime \<Rightarrow> poison_detector \<Rightarrow> uuid \<Rightarrow> agent_id \<Rightarrow>
   (poison_status \<times> poison_detector) option" where
  "poison_record_failure c now d t a =
     (if t \<in> pd_poisoned d then Some (Poisoned, d)
      else do {
        let records = (case pd_failures d t of Some rs \<Rightarrow> rs | None \<Rightarrow> [])
            @ [\<lparr>fr_agent_id = a, fr_timestamp = now\<rparr>];
        cutoff \<leftarrow> window_cutoff c d now;
        let records = filter (\<lambda>r. cutoff \<le> fr_timestamp r) records;
        let d = d\<lparr>pd_failures := (pd_failures d)(t \<mapsto> records)\<rparr>;
        let n = (of_nat (distinct_agents records) :: u32);
        if poison_agent_threshold (pd_config d) \<le> n
        then Some (Poisoned, d\<lparr>pd_poisoned := insert t (pd_poisoned d)\<rparr>)
        else if 2 \<le> n then Some (TaskSuspected, d)
        else Some (Healthy, d)
      })"

definition poison_status_of ::
  "chrono \<Rightarrow> datetime \<Rightarrow> poison_detector \<Rightarrow> uuid \<Rightarrow> poison_status option" where
  "poison_status_of c now d t =
     (if t \<in> pd_poisoned d then Some Poisoned
      else case pd_failures d t of
        None \<Rightarrow> Some Healthy
      | Some records \<Rightarrow> do {
          cutoff \<leftarrow> window_cutoff c d now;
          let n = distinct_agents (filter (\<lambda>r. cutoff \<le> fr_timestamp r) records);
          if poison_agent_threshold (pd_config d) \<le> (of_nat n :: u32) then Some Poisoned
          else if 2 \<le> n then Some TaskSuspected
          else Some Healthy
        })"

definition is_poisoned :: "poison_detector \<Rightarrow> uuid \<Rightarrow> bool" where
  "is_poisoned d t \<longleftrightarrow> t \<in> pd_poisoned d"

definition allow_retry :: "poison_detector \<Rightarrow> uuid \<Rightarrow> fault_error + unit" where
  "allow_retry d t = (if is_poisoned d t then Inl (PoisonTask t) else Inr ())"

definition poisoned_tasks :: "poison_detector \<Rightarrow> uuid set" where
  "poisoned_tasks d = pd_poisoned d"

text \<open>The \<open>filter_map\<close> over a set of agents already seen.\<close>

fun first_seen :: "agent_id set \<Rightarrow> failure_record list \<Rightarrow> agent_id list" where
  "first_seen seen [] = []"
| "first_seen seen (r # rs) =
     (if fr_agent_id r \<in> seen then first_seen seen rs
      else fr_agent_id r # first_seen (insert (fr_agent_id r) seen) rs)"

definition failed_agents_for ::
  "chrono \<Rightarrow> datetime \<Rightarrow> poison_detector \<Rightarrow> uuid \<Rightarrow> agent_id list option" where
  "failed_agents_for c now d t =
     (case pd_failures d t of
        None \<Rightarrow> Some []
      | Some records \<Rightarrow> do {
          cutoff \<leftarrow> window_cutoff c d now;
          Some (first_seen {} (filter (\<lambda>r. cutoff \<le> fr_timestamp r) records))
        })"

definition force_poison :: "poison_detector \<Rightarrow> uuid \<Rightarrow> poison_detector" where
  "force_poison d t = d\<lparr>pd_poisoned := insert t (pd_poisoned d)\<rparr>"

definition poison_clear :: "poison_detector \<Rightarrow> uuid \<Rightarrow> poison_detector" where
  "poison_clear d t =
     d\<lparr>pd_poisoned := pd_poisoned d - {t}, pd_failures := (pd_failures d)(t := None)\<rparr>"

section \<open>Windows\<close>

lemma first_seen_props:
  "distinct (first_seen seen rs) \<and> set (first_seen seen rs) = fr_agent_id ` set rs - seen"
  by (induction seen rs rule: first_seen.induct) auto

lemma distinct_agents_mono:
  "set xs \<subseteq> set ys \<Longrightarrow> distinct_agents xs \<le> distinct_agents ys"
  unfolding distinct_agents_def by (intro card_mono) auto

lemma distinct_agents_length: "distinct_agents xs \<le> length xs"
  unfolding distinct_agents_def by (metis card_length length_map)

lemma window_cutoff_config [frame_simps]:
  "window_cutoff c (d\<lparr>pd_failures := f\<rparr>) now = window_cutoff c d now"
  "window_cutoff c (d\<lparr>pd_poisoned := p\<rparr>) now = window_cutoff c d now"
  by (simp_all add: window_cutoff_def)

lemma window_cutoff_Some:
  assumes "chrono_sound c" and "window_cutoff c d now = Some cutoff"
  shows "cutoff = now - from_std_or_secs c 60 (poison_detection_window (pd_config d))"
  using assms by (auto simp: window_cutoff_def dest: chrono_soundD)

lemma of_nat_u32_le:
  assumes "n < 2 ^ 32"
  shows "w \<le> (of_nat n :: u32) \<longleftrightarrow> unat w \<le> n"
  using assms by (simp add: word_le_nat_alt unat_of_nat take_bit_nat_eq_self)

section \<open>The detector as a set of calls\<close>

datatype poison_call =
    RecordFailure datetime uuid agent_id
  | ForcePoison uuid
  | ClearTask uuid

fun poison_step :: "chrono \<Rightarrow> poison_call \<Rightarrow> poison_detector \<Rightarrow> poison_detector option" where
  "poison_step c (RecordFailure now t a) d = map_option snd (poison_record_failure c now d t a)"
| "poison_step c (ForcePoison t) d = Some (force_poison d t)"
| "poison_step c (ClearTask t) d = Some (poison_clear d t)"

inductive poison_reach :: "chrono \<Rightarrow> fault_config \<Rightarrow> poison_detector \<Rightarrow> bool" for c cfg where
  poison_init: "poison_reach c cfg (poison_detector_new cfg)"
| poison_next: "poison_reach c cfg d \<Longrightarrow> poison_step c e d = Some d' \<Longrightarrow> poison_reach c cfg d'"

text \<open>The records of a task that is not marked never reach the threshold.\<close>

definition poison_inv :: "poison_detector \<Rightarrow> bool" where
  "poison_inv d \<longleftrightarrow>
     (\<forall>t rs. t \<notin> pd_poisoned d \<longrightarrow> pd_failures d t = Some rs \<longrightarrow>
        (of_nat (distinct_agents rs) :: u32) < poison_agent_threshold (pd_config d))"

text \<open>What an unmarked task's failure does, once the cut-off is known.\<close>

definition kept_records ::
  "datetime \<Rightarrow> datetime \<Rightarrow> poison_detector \<Rightarrow> uuid \<Rightarrow> agent_id \<Rightarrow> failure_record list" where
  "kept_records cutoff now d t a = filter (\<lambda>r. cutoff \<le> fr_timestamp r)
     ((case pd_failures d t of Some rs \<Rightarrow> rs | None \<Rightarrow> [])
        @ [\<lparr>fr_agent_id = a, fr_timestamp = now\<rparr>])"

lemma poison_record_failure_marked:
  "t \<in> pd_poisoned d \<Longrightarrow> poison_record_failure c now d t a = Some (Poisoned, d)"
  by (simp add: poison_record_failure_def)

lemma poison_record_failure_panics:
  "t \<notin> pd_poisoned d \<Longrightarrow> window_cutoff c d now = None \<Longrightarrow>
   poison_record_failure c now d t a = None"
  by (simp add: poison_record_failure_def Let_def)

lemma poison_record_failure_fresh:
  assumes "t \<notin> pd_poisoned d" and "window_cutoff c d now = Some cutoff"
    and "rs = kept_records cutoff now d t a" and "n = (of_nat (distinct_agents rs) :: u32)"
  shows "poison_record_failure c now d t a =
    Some (if poison_agent_threshold (pd_config d) \<le> n
      then (Poisoned, d\<lparr>pd_failures := (pd_failures d)(t \<mapsto> rs),
                        pd_poisoned := insert t (pd_poisoned d)\<rparr>)
      else (if 2 \<le> n then TaskSuspected else Healthy,
            d\<lparr>pd_failures := (pd_failures d)(t \<mapsto> rs)\<rparr>))"
  using assms by (simp add: poison_record_failure_def Let_def kept_records_def)

lemma poison_record_failure_inv:
  assumes "poison_inv d" and "poison_record_failure c now d t a = Some (st, d')"
  shows "poison_inv d' \<and> pd_config d' = pd_config d"
proof (cases "t \<in> pd_poisoned d \<or> window_cutoff c d now = None")
  case True
  then have "d' = d"
    using assms(2) poison_record_failure_marked [of t d c now a]
      poison_record_failure_panics [of t d c now a]
    by (cases "t \<in> pd_poisoned d") simp_all
  then show ?thesis using assms(1) by simp
next
  case False
  then obtain cutoff where t: "t \<notin> pd_poisoned d" and c: "window_cutoff c d now = Some cutoff"
    by auto
  define rs where "rs = kept_records cutoff now d t a"
  note r = assms(2) [unfolded poison_record_failure_fresh [OF t c rs_def refl]]
  then consider
    "d' = d\<lparr>pd_failures := (pd_failures d)(t \<mapsto> rs), pd_poisoned := insert t (pd_poisoned d)\<rparr>"
  | "d' = d\<lparr>pd_failures := (pd_failures d)(t \<mapsto> rs)\<rparr>"
    "(of_nat (distinct_agents rs) :: u32) < poison_agent_threshold (pd_config d)"
    by (cases "poison_agent_threshold (pd_config d) \<le> (of_nat (distinct_agents rs) :: u32)")
      (simp_all add: not_le)
  then show ?thesis
  proof cases
    case 1
    then show ?thesis using assms(1) by (auto simp: poison_inv_def)
  next
    case 2
    then show ?thesis using assms(1) by (simp add: poison_inv_def)
  qed
qed

lemma poison_record_failure_total:
  assumes "window_cutoff c d now \<noteq> None"
  shows "\<exists>st d'. poison_record_failure c now d t a = Some (st, d') \<and> pd_config d' = pd_config d"
  using assms poison_record_failure_fresh [of t d c now] poison_record_failure_marked [of t d]
  by (cases "t \<in> pd_poisoned d") auto

lemma poison_step_inv [wf_intros]:
  assumes "poison_inv d" and "poison_step c e d = Some d'"
  shows "poison_inv d' \<and> pd_config d' = pd_config d"
proof (cases e)
  case (RecordFailure now t a)
  then obtain st where "poison_record_failure c now d t a = Some (st, d')"
    using assms(2) by auto
  then show ?thesis by (rule poison_record_failure_inv [OF assms(1)])
next
  case (ForcePoison t)
  then show ?thesis using assms by (auto simp: poison_inv_def force_poison_def)
next
  case (ClearTask t)
  then show ?thesis using assms by (auto simp: poison_inv_def poison_clear_def split: if_splits)
qed

lemma poison_reach_inv: "poison_reach c cfg d \<Longrightarrow> poison_inv d \<and> pd_config d = cfg"
proof (induction rule: poison_reach.induct)
  case poison_init
  then show ?case by (simp add: poison_inv_def poison_detector_new_def)
next
  case (poison_next d e d')
  then show ?case using poison_step_inv by metis
qed

section \<open>The sliding window\<close>

text \<open>
  The specification of the window: the failures of one task at times \<open>es\<close> leave it poisoned when,
  at some failure, enough distinct agents have failed it within the window that ends there.
\<close>

definition in_window :: "timedelta \<Rightarrow> (datetime \<times> agent_id) list \<Rightarrow> nat \<Rightarrow> agent_id set" where
  "in_window w es k = snd ` {e \<in> set (take (Suc k) es). fst (es ! k) - w \<le> fst e}"

definition window_trips :: "u32 \<Rightarrow> timedelta \<Rightarrow> (datetime \<times> agent_id) list \<Rightarrow> bool" where
  "window_trips threshold w es \<longleftrightarrow>
     (\<exists>k < length es. unat threshold \<le> card (in_window w es k))"

lemma in_window_append: "k < length es \<Longrightarrow> in_window w (es @ [e]) k = in_window w es k"
  by (simp add: in_window_def nth_append)

lemma window_trips_append:
  "window_trips th w (es @ [e]) \<longleftrightarrow>
     window_trips th w es \<or> unat th \<le> card (in_window w (es @ [e]) (length es))"
  using in_window_append [of _ es w e] by (auto simp: window_trips_def less_Suc_eq)

fun record_failures ::
  "chrono \<Rightarrow> uuid \<Rightarrow> (datetime \<times> agent_id) list \<Rightarrow> poison_detector \<Rightarrow> poison_detector option" where
  "record_failures c t [] d = Some d"
| "record_failures c t ((now, a) # es) d = do {
     (_, d') \<leftarrow> poison_record_failure c now d t a;
     record_failures c t es d'
   }"

lemma record_failures_append:
  "record_failures c t (es @ fs) d = Option.bind (record_failures c t es d) (record_failures c t fs)"
  by (induction c t es d rule: record_failures.induct)
    (auto simp: Option.bind_assoc case_prod_beta intro!: Option.bind_cong)

lemma record_failures_total:
  assumes "\<forall>e \<in> set es. window_cutoff c d (fst e) \<noteq> None"
  shows "\<exists>d'. record_failures c t es d = Some d'"
  using assms
proof (induction es arbitrary: d)
  case Nil
  then show ?case by simp
next
  case (Cons e es)
  obtain now a where e: "e = (now, a)" by (cases e)
  then obtain st d1 where d1: "poison_record_failure c now d t a = Some (st, d1)"
    "pd_config d1 = pd_config d"
    using poison_record_failure_total [of c d now t a] Cons.prems by auto
  have "\<forall>e \<in> set es. window_cutoff c d1 (fst e) \<noteq> None"
    using Cons.prems d1(2) by (simp add: window_cutoff_def)
  then show ?case using Cons.IH d1(1) e by auto
qed

definition failure_of :: "datetime \<times> agent_id \<Rightarrow> failure_record" where
  "failure_of e = \<lparr>fr_agent_id = snd e, fr_timestamp = fst e\<rparr>"

lemma in_window_records:
  "card (in_window w (es @ [(now, a)]) (length es)) =
     distinct_agents (filter (\<lambda>r. now - w \<le> fr_timestamp r) (map failure_of (es @ [(now, a)])))"
  by (simp add: in_window_def distinct_agents_def nth_append failure_of_def image_image
      filter_map comp_def del: map_append filter_append)

text \<open>The records an unmarked task keeps after its failures \<open>es\<close>.\<close>

definition window_records :: "timedelta \<Rightarrow> (datetime \<times> agent_id) list \<Rightarrow> failure_record list" where
  "window_records w es =
     (if es = [] then []
      else filter (\<lambda>r. fst (last es) - w \<le> fr_timestamp r) (map failure_of es))"

lemma window_records_snoc:
  assumes "sorted (map fst (es @ [(now, a)]))"
  shows "filter (\<lambda>r. now - w \<le> fr_timestamp r)
      (window_records w es @ [failure_of (now, a)]) =
    filter (\<lambda>r. now - w \<le> fr_timestamp r) (map failure_of (es @ [(now, a)]))"
proof (cases "es = []")
  case False
  then have "fst (last es) \<le> now"
    using assms by (auto simp: sorted_append)
  then have "(now - w \<le> x) \<Longrightarrow> (fst (last es) - w \<le> x)" for x by linarith
  then show ?thesis
    using False by (auto simp: window_records_def intro!: filter_cong)
qed (simp add: window_records_def)

lemma record_failures_window:
  assumes "chrono_sound c" and "t \<notin> pd_poisoned d0" and "pd_failures d0 t = None"
    and "record_failures c t es d0 = Some d"
    and "sorted (map fst es)" and "length es < 2 ^ 32"
  defines "w \<equiv> from_std_or_secs c 60 (poison_detection_window (pd_config d0))"
  defines "th \<equiv> poison_agent_threshold (pd_config d0)"
  shows "pd_config d = pd_config d0 \<and> (t \<in> pd_poisoned d \<longleftrightarrow> window_trips th w es) \<and>
    (t \<notin> pd_poisoned d \<longrightarrow>
       (case pd_failures d t of Some rs \<Rightarrow> rs | None \<Rightarrow> []) = window_records w es)"
  using assms(4-6)
proof (induction es arbitrary: d rule: rev_induct)
  case Nil
  then show ?case using assms(2,3) by (simp add: window_trips_def window_records_def)
next
  case (snoc e es)
  obtain now a where e: "e = (now, a)" by (cases e)
  from snoc.prems(1) obtain d1 st where d1: "record_failures c t es d0 = Some d1"
    and rec: "poison_record_failure c now d1 t a = Some (st, d)"
    by (auto simp: record_failures_append e bind_eq_Some_conv)
  have IH: "pd_config d1 = pd_config d0" "t \<in> pd_poisoned d1 \<longleftrightarrow> window_trips th w es"
    "t \<notin> pd_poisoned d1 \<Longrightarrow>
       (case pd_failures d1 t of Some rs \<Rightarrow> rs | None \<Rightarrow> []) = window_records w es"
    using snoc.IH [OF d1] snoc.prems(2,3) by (auto simp: sorted_append)
  show ?case
  proof (cases "t \<in> pd_poisoned d1")
    case True
    then have "d = d1" using rec by (simp add: poison_record_failure_marked)
    then show ?thesis using IH True by (simp add: window_trips_append)
  next
    case False
    with rec obtain cutoff where cutoff: "window_cutoff c d1 now = Some cutoff"
      using poison_record_failure_panics [OF False] by (cases "window_cutoff c d1 now") auto
    have co: "cutoff = now - w"
      using window_cutoff_Some [OF assms(1) cutoff] IH(1) by (simp add: w_def)
    define rs where "rs = kept_records cutoff now d1 t a"
    have rs: "rs = filter (\<lambda>r. now - w \<le> fr_timestamp r) (map failure_of (es @ [e]))"
      using window_records_snoc [of es now a w] snoc.prems(2) IH(3) [OF False]
      by (simp add: rs_def kept_records_def co e failure_of_def del: filter_append)
    have win: "distinct_agents rs = card (in_window w (es @ [e]) (length es))"
      using in_window_records [of w es now a] by (simp add: rs e)
    have "length rs \<le> length (es @ [e])"
      unfolding rs by (rule order.trans [OF length_filter_le]) simp
    then have n: "distinct_agents rs < 2 ^ 32"
      using snoc.prems(3) distinct_agents_length [of rs] by linarith
    have last: "rs = window_records w (es @ [e])"
      by (simp add: window_records_def rs e)
    have trips: "window_trips th w (es @ [e]) \<longleftrightarrow> th \<le> (of_nat (distinct_agents rs) :: u32)"
      using IH(2) False by (simp add: window_trips_append win [symmetric] of_nat_u32_le [OF n])
    have thc: "poison_agent_threshold (pd_config d1) = th" using IH(1) by (simp add: th_def)
    note r = rec [unfolded poison_record_failure_fresh [OF False cutoff rs_def refl] thc]
    show ?thesis
    proof (cases "th \<le> (of_nat (distinct_agents rs) :: u32)")
      case True
      then have "d = d1\<lparr>pd_failures := (pd_failures d1)(t \<mapsto> rs),
          pd_poisoned := insert t (pd_poisoned d1)\<rparr>" using r by simp
      then show ?thesis using IH(1) True trips by simp
    next
      case thr: False
      then have "d = d1\<lparr>pd_failures := (pd_failures d1)(t \<mapsto> rs)\<rparr>" using r by simp
      then show ?thesis using IH(1) False thr trips last by simp
    qed
  qed
qed

section \<open>Properties\<close>

text \<open>
  C22. A task that is not poisoned and has no recorded failure is marked poisoned by a series of
  failures (fewer than \<open>2^32\<close>, recorded at non-decreasing times, without a panic) exactly when, at
  some failure of the series, at least the threshold number of distinct agents have failed it within
  the window that ends there. As long as it is not, the detector keeps exactly the failures of the
  window that ends at the last one.
\<close>

theorem poisoned_iff_window_trips:
  assumes "chrono_sound c" and "t \<notin> pd_poisoned d0" and "pd_failures d0 t = None"
    and "record_failures c t es d0 = Some d"
    and "sorted (map fst es)" and "length es < 2 ^ 32"
  shows "(is_poisoned d t \<longleftrightarrow>
      window_trips (poison_agent_threshold (pd_config d0))
        (from_std_or_secs c 60 (poison_detection_window (pd_config d0))) es)
    \<and> (\<not> is_poisoned d t \<longrightarrow> (case pd_failures d t of Some rs \<Rightarrow> rs | None \<Rightarrow> []) =
        window_records (from_std_or_secs c 60 (poison_detection_window (pd_config d0))) es)"
  using record_failures_window [OF assms] by (simp add: is_poisoned_def)

text \<open>Two agents at second 0 and 30 and a third at second 60, under a window of 60 seconds.\<close>

theorem poisoned_iff_window_trips_witness:
  "\<exists>d. record_failures chrono_limits 7
      [(0, AgentId 1), (30000000000, AgentId 2), (30000000000, AgentId 2), (60000000000, AgentId 3)]
      poison_detector_with_defaults = Some d \<and> is_poisoned d 7"
proof -
  let ?es = "[(0, AgentId 1), (30000000000, AgentId 2), (30000000000, AgentId 2),
    (60000000000, AgentId 3)]"
  have co: "window_cutoff chrono_limits d now = Some (now - 60000000000)"
    if "pd_config d = default_fault_config" "0 \<le> now" "now \<le> 100000000000" for d now
    using that
    by (simp add: window_cutoff_def default_fault_config_def from_std_or_secs_def chrono_limits_def
        from_secs_def NANOS_PER_SEC_def TD_MAX_def DT_MAX_def)
  obtain d where run: "record_failures chrono_limits 7 ?es poison_detector_with_defaults = Some d"
    using record_failures_total [of ?es chrono_limits poison_detector_with_defaults 7]
    by (auto simp: co poison_detector_with_defaults_def poison_detector_new_def)
  have w: "from_std_or_secs chrono_limits 60
      (poison_detection_window (pd_config poison_detector_with_defaults)) = 60000000000"
    by (simp add: from_std_or_secs_def chrono_limits_def TD_MAX_def poison_detector_with_defaults_def
        poison_detector_new_def default_fault_config_def from_secs_def NANOS_PER_SEC_def)
  have "in_window 60000000000 ?es 3 = {AgentId 1, AgentId 2, AgentId 3}"
    by (force simp: in_window_def)
  then have "window_trips 3 60000000000 ?es"
    unfolding window_trips_def by (intro exI [of _ 3]) simp
  moreover have "poison_agent_threshold (pd_config poison_detector_with_defaults) = 3"
    by (simp add: poison_detector_with_defaults_def poison_detector_new_def default_fault_config_def)
  ultimately have "is_poisoned d 7"
    using poisoned_iff_window_trips [OF chrono_limits_sound _ _ run] w
    by (simp add: poison_detector_with_defaults_def poison_detector_new_def)
  then show ?thesis using run by blast
qed

text \<open>
  In every state the detector can reach by recorded failures, forced marks and clears, the
  queries agree: \<open>status\<close> (which recounts the window) answers \<open>Poisoned\<close> exactly for the tasks
  that are marked, which are exactly the tasks \<open>allow_retry\<close> refuses.
\<close>

lemma poison_queries_agree:
  assumes "poison_reach c cfg d" and "poison_status_of c now d t = Some st"
    and "\<forall>rs. pd_failures d t = Some rs \<longrightarrow> length rs < 2 ^ 32"
  shows "(st = Poisoned \<longleftrightarrow> is_poisoned d t) \<and>
    (allow_retry d t = Inl (PoisonTask t) \<longleftrightarrow> is_poisoned d t)"
proof -
  have "\<not> is_poisoned d t \<Longrightarrow> st \<noteq> Poisoned"
  proof
    assume p: "\<not> is_poisoned d t" and st: "st = Poisoned"
    then obtain rs cutoff where rs: "pd_failures d t = Some rs" and
      trip: "poison_agent_threshold (pd_config d) \<le>
        (of_nat (distinct_agents (filter (\<lambda>r. cutoff \<le> fr_timestamp r) rs)) :: u32)"
      using assms(2) by (auto simp: poison_status_of_def is_poisoned_def bind_eq_Some_conv Let_def
          split: option.splits if_splits)
    let ?f = "filter (\<lambda>r. cutoff \<le> fr_timestamp r) rs"
    have len: "distinct_agents rs < 2 ^ 32" "distinct_agents ?f \<le> distinct_agents rs"
      using assms(3) rs distinct_agents_length [of rs]
      by (auto intro: distinct_agents_mono)
    have "\<not> poison_agent_threshold (pd_config d) \<le> (of_nat (distinct_agents rs) :: u32)"
      using poison_reach_inv [OF assms(1)] p rs by (auto simp: poison_inv_def is_poisoned_def not_le)
    then show False using trip len of_nat_u32_le by simp
  qed
  moreover have "is_poisoned d t \<Longrightarrow> st = Poisoned"
    using assms(2) by (simp add: poison_status_of_def is_poisoned_def)
  ultimately show ?thesis by (auto simp: allow_retry_def)
qed

lemma poison_queries_agree_example:
  "allow_retry (force_poison poison_detector_with_defaults 7) 7 = Inl (PoisonTask 7)"
proof -
  have "poison_reach chrono_limits default_fault_config (force_poison poison_detector_with_defaults 7)"
    unfolding poison_detector_with_defaults_def
    by (rule poison_next [OF poison_init, where e = "ForcePoison 7"]) simp
  then show ?thesis
    by (rule poison_queries_agree [of _ _ _ 0 7 Poisoned, THEN conjunct2, THEN iffD2])
      (simp_all add: poison_status_of_def force_poison_def is_poisoned_def
        poison_detector_with_defaults_def poison_detector_new_def)
qed

end
