(* ===== verification/Poison_Concurrent.thy ===== *)
theory Poison_Concurrent
  imports Poison
begin

text \<open>
  Concurrent calls of the poison-task detector (\<open>poison.rs\<close>). Its two tables have a lock each, and
  \<open>record_failure\<close> and \<open>clear\<close> take them one after the other: a call is a list of critical
  sections, and the sections of several calls interleave.
\<close>

section \<open>Interleaved calls\<close>

text \<open>One step of the system lets one call run its next section.\<close>

inductive interleaved ::
  "('c \<Rightarrow> 's \<Rightarrow> ('c \<times> 's) option) \<Rightarrow> 's \<Rightarrow> 'c list \<Rightarrow> 's \<Rightarrow> 'c list \<Rightarrow> bool"
  for step s0 calls0 where
  interleaved_start: "interleaved step s0 calls0 s0 calls0"
| interleaved_step: "interleaved step s0 calls0 s calls \<Longrightarrow> i < length calls \<Longrightarrow>
    step (calls ! i) s = Some (c, s') \<Longrightarrow> interleaved step s0 calls0 s' (calls[i := c])"

text \<open>What every section keeps holds in every interleaving.\<close>

locale interleaving_invariant =
  fixes step :: "'c \<Rightarrow> 's \<Rightarrow> ('c \<times> 's) option" and inv :: "'s \<Rightarrow> 'c list \<Rightarrow> bool"
  assumes section_keeps: "inv s calls \<Longrightarrow> i < length calls \<Longrightarrow> step (calls ! i) s = Some (c, s') \<Longrightarrow>
    inv s' (calls[i := c])"
begin

lemma reachable_inv:
  assumes "interleaved step s0 calls0 s calls" and "inv s0 calls0"
  shows "inv s calls"
  using assms by (induction rule: interleaved.induct) (auto intro: section_keeps)

end

text \<open>A schedule is the list of the calls that take the next step; calls that are finished stay.\<close>

fun run_schedule ::
  "('c \<Rightarrow> 's \<Rightarrow> ('c \<times> 's) option) \<Rightarrow> nat list \<Rightarrow> 's \<Rightarrow> 'c list \<Rightarrow> 's \<times> 'c list" where
  "run_schedule step [] s calls = (s, calls)"
| "run_schedule step (i # is) s calls =
     (if i < length calls then
        (case step (calls ! i) s of
           None \<Rightarrow> run_schedule step is s calls
         | Some (c, s') \<Rightarrow> run_schedule step is s' (calls[i := c]))
      else run_schedule step is s calls)"

lemma run_schedule_interleaved:
  "interleaved step s0 calls0 s calls \<Longrightarrow> run_schedule step is s calls = (s', calls') \<Longrightarrow>
    interleaved step s0 calls0 s' calls'"
proof (induction "is" arbitrary: s calls)
  case Nil
  then show ?case by simp
next
  case (Cons i "is")
  show ?case
  proof (cases "i < length calls \<and> step (calls ! i) s \<noteq> None")
    case True
    then obtain c s1 where "step (calls ! i) s = Some (c, s1)" by force
    then show ?thesis
      using True Cons.IH [OF interleaved_step [OF Cons.prems(1)]] Cons.prems(2) by simp
  next
    case False
    then show ?thesis
      using Cons by (cases "step (calls ! i) s") (auto split: if_splits)
  qed
qed

section \<open>The sections of the detector\<close>

text \<open>Where a call is: the section it runs next.\<close>

datatype poison_progress =
    EnterFailure datetime uuid agent_id  \<comment> \<open>read the marks\<close>
  | CountFailure datetime uuid agent_id  \<comment> \<open>update the failures\<close>
  | MarkPoisoned uuid  \<comment> \<open>write the mark\<close>
  | UnmarkTask uuid
  | ForgetTask uuid
  | CallDone

definition count_section ::
  "chrono \<Rightarrow> datetime \<Rightarrow> uuid \<Rightarrow> agent_id \<Rightarrow> poison_detector \<Rightarrow> (bool \<times> poison_detector) option" where
  "count_section c now t a d = do {
     cutoff \<leftarrow> window_cutoff c d now;
     let records = kept_records cutoff now d t a;
     Some (poison_agent_threshold (pd_config d) \<le> (of_nat (distinct_agents records) :: u32),
       d\<lparr>pd_failures := (pd_failures d)(t \<mapsto> records)\<rparr>)
   }"

text \<open>The two sections of \<open>clear\<close>.\<close>

definition unmark_section :: "poison_detector \<Rightarrow> uuid \<Rightarrow> poison_detector" where
  "unmark_section d t = d\<lparr>pd_poisoned := pd_poisoned d - {t}\<rparr>"

definition forget_section :: "poison_detector \<Rightarrow> uuid \<Rightarrow> poison_detector" where
  "forget_section d t = d\<lparr>pd_failures := (pd_failures d)(t := None)\<rparr>"

fun poison_section ::
  "chrono \<Rightarrow> poison_progress \<Rightarrow> poison_detector \<Rightarrow> (poison_progress \<times> poison_detector) option" where
  "poison_section c (EnterFailure now t a) d =
     Some (if t \<in> pd_poisoned d then CallDone else CountFailure now t a, d)"
| "poison_section c (CountFailure now t a) d = do {
     (trips, d) \<leftarrow> count_section c now t a d;
     Some (if trips then MarkPoisoned t else CallDone, d)
   }"
| "poison_section c (MarkPoisoned t) d = Some (CallDone, force_poison d t)"
| "poison_section c (UnmarkTask t) d = Some (ForgetTask t, unmark_section d t)"
| "poison_section c (ForgetTask t) d = Some (CallDone, forget_section d t)"
| "poison_section c CallDone d = None"

text \<open>Run alone, the sections of a call do what the call does.\<close>

lemma record_failure_sections:
  assumes "poison_record_failure c now d t a = Some (st, d')"
  shows "run_schedule (poison_section c) [0, 0, 0] d [EnterFailure now t a] = (d', [CallDone])"
proof (cases "t \<in> pd_poisoned d")
  case True
  then show ?thesis using assms by (simp add: poison_record_failure_marked)
next
  case False
  then obtain cutoff where "window_cutoff c d now = Some cutoff"
    using assms poison_record_failure_panics by fastforce
  then show ?thesis
    using assms False
    by (auto simp: poison_record_failure_fresh [OF False _ refl refl] count_section_def Let_def
        force_poison_def split: if_splits)
qed

lemma clear_sections:
  "run_schedule (poison_section c) [0, 0] d [UnmarkTask t] = (poison_clear d t, [CallDone])"
  by (simp add: poison_clear_def unmark_section_def forget_section_def)

section \<open>A burst of failures\<close>

text \<open>
  Calls of \<open>record_failure\<close> for the failures \<open>es\<close>, all within one window of each other, on a new
  detector.
\<close>

type_synonym failure_event = "datetime \<times> uuid \<times> agent_id"

fun failure_call :: "failure_event \<Rightarrow> poison_progress" where
  "failure_call (now, t, a) = EnterFailure now t a"

definition failing_agents :: "failure_event list \<Rightarrow> uuid \<Rightarrow> agent_id set" where
  "failing_agents es t = {a. \<exists>now. (now, t, a) \<in> set es}"

definition detection_window :: "chrono \<Rightarrow> fault_config \<Rightarrow> timedelta" where
  "detection_window c cfg = from_std_or_secs c 60 (poison_detection_window cfg)"

definition one_burst :: "timedelta \<Rightarrow> failure_event list \<Rightarrow> bool" where
  "one_burst w es \<longleftrightarrow> (\<forall>e \<in> set es. \<forall>e' \<in> set es. fst e - w \<le> fst e')"

definition records_of :: "poison_detector \<Rightarrow> uuid \<Rightarrow> failure_record list" where
  "records_of d t = (case pd_failures d t of Some rs \<Rightarrow> rs | None \<Rightarrow> [])"

text \<open>A task is settled once it is marked or a call is about to mark it.\<close>

definition settled :: "poison_detector \<Rightarrow> poison_progress list \<Rightarrow> uuid \<Rightarrow> bool" where
  "settled d calls t \<longleftrightarrow> t \<in> pd_poisoned d \<or> MarkPoisoned t \<in> set calls"

definition reaches :: "fault_config \<Rightarrow> failure_event list \<Rightarrow> uuid \<Rightarrow> bool" where
  "reaches cfg es t \<longleftrightarrow> failing_agents es t \<noteq> {}
     \<and> unat (poison_agent_threshold cfg) \<le> card (failing_agents es t)"

definition call_ok ::
  "poison_detector \<Rightarrow> poison_progress list \<Rightarrow> failure_event \<Rightarrow> poison_progress \<Rightarrow> bool" where
  "call_ok d calls e c = (case e of (now, t, a) \<Rightarrow>
     c = EnterFailure now t a \<or> c = CountFailure now t a
     \<or> (c = MarkPoisoned t \<or> c = CallDone)
       \<and> (settled d calls t \<or> \<lparr>fr_agent_id = a, fr_timestamp = now\<rparr> \<in> set (records_of d t)))"

definition burst_inv ::
  "fault_config \<Rightarrow> failure_event list \<Rightarrow> poison_detector \<Rightarrow> poison_progress list \<Rightarrow> bool" where
  "burst_inv cfg es d calls \<longleftrightarrow> pd_config d = cfg
     \<and> length calls = length es \<and> (\<forall>i < length es. call_ok d calls (es ! i) (calls ! i))
     \<and> (\<forall>t. \<forall>r \<in> set (records_of d t). (fr_timestamp r, t, fr_agent_id r) \<in> set es)
     \<and> (\<forall>t. settled d calls t \<longrightarrow> reaches cfg es t)
     \<and> (\<forall>t. settled d calls t \<or> records_of d t = []
          \<or> distinct_agents (records_of d t) < unat (poison_agent_threshold cfg))"

section \<open>Every section keeps the burst\<close>

lemma marking_update:
  assumes "i < length calls" and "calls ! i \<noteq> MarkPoisoned t"
  shows "MarkPoisoned t \<in> set (calls[i := c]) \<longleftrightarrow> c = MarkPoisoned t \<or> MarkPoisoned t \<in> set calls"
  using assms by (auto simp: in_set_conv_nth nth_list_update split: if_splits)

lemma call_ok_mono:
  assumes "call_ok d calls e c" and "\<And>t. settled d calls t \<Longrightarrow> settled d' calls' t"
    and "\<And>t. set (records_of d t) \<subseteq> set (records_of d' t)"
  shows "call_ok d' calls' e c"
  using assms by (fastforce simp: call_ok_def split: prod.splits)

text \<open>A section that only moves a call on, and settles no task, keeps the invariant.\<close>

lemma burst_inv_move:
  assumes "burst_inv cfg es d calls" and "i < length calls"
    and "pd_config d' = pd_config d" and "\<And>t. records_of d' t = records_of d t"
    and "\<And>t. settled d' (calls[i := c]) t \<longleftrightarrow> settled d calls t"
    and "call_ok d' (calls[i := c]) (es ! i) c"
  shows "burst_inv cfg es d' (calls[i := c])"
proof -
  have "call_ok d' (calls[i := c]) (es ! j) (calls[i := c] ! j)" if "j < length es" for j
    using that assms call_ok_mono [of d calls "es ! j" "calls ! j" d' "calls[i := c]"]
    by (cases "j = i") (auto simp: burst_inv_def)
  then show ?thesis using assms by (simp add: burst_inv_def)
qed

lemma burst_inv_call:
  assumes "burst_inv cfg es d calls" and "i < length calls"
  shows "calls ! i = EnterFailure now t a \<or> calls ! i = CountFailure now t a \<Longrightarrow>
    es ! i = (now, t, a) \<and> (now, t, a) \<in> set es"
  and "\<not> (\<exists>t. calls ! i = UnmarkTask t \<or> calls ! i = ForgetTask t)"
proof -
  obtain now' t' a' where e: "es ! i = (now', t', a')" by (cases "es ! i")
  have len: "i < length es" using assms by (simp add: burst_inv_def)
  have ok: "call_ok d calls (es ! i) (calls ! i)"
    using assms(1) len unfolding burst_inv_def by blast
  show "calls ! i = EnterFailure now t a \<or> calls ! i = CountFailure now t a \<Longrightarrow>
      es ! i = (now, t, a) \<and> (now, t, a) \<in> set es"
    using ok e nth_mem [OF len] by (auto simp: call_ok_def)
  show "\<not> (\<exists>t. calls ! i = UnmarkTask t \<or> calls ! i = ForgetTask t)"
    using ok e by (auto simp: call_ok_def)
qed

lemma enter_keeps_burst:
  assumes "burst_inv cfg es d calls" and "i < length calls" and "calls ! i = EnterFailure now t a"
    and "poison_section c (EnterFailure now t a) d = Some (p, d')"
  shows "burst_inv cfg es d' (calls[i := p])"
proof -
  have d: "d' = d" and p: "p = (if t \<in> pd_poisoned d then CallDone else CountFailure now t a)"
    using assms(4) by auto
  have e: "es ! i = (now, t, a)"
    using burst_inv_call(1) [OF assms(1,2)] assms(3) by simp
  have settled: "settled d (calls[i := p]) u \<longleftrightarrow> settled d calls u" for u
    using marking_update [OF assms(2), of u p] assms(3) by (simp add: settled_def p)
  then show ?thesis
    unfolding d using burst_inv_move [OF assms(1,2) refl refl settled] e
    by (auto simp: call_ok_def p settled_def)
qed

lemma mark_keeps_burst:
  assumes "burst_inv cfg es d calls" and "i < length calls" and "calls ! i = MarkPoisoned t"
  shows "burst_inv cfg es (force_poison d t) (calls[i := CallDone])"
proof -
  let ?calls = "calls[i := CallDone]"
  have mem: "MarkPoisoned t \<in> set calls"
    using assms(2,3) nth_mem by metis
  have "MarkPoisoned u \<in> set ?calls \<longleftrightarrow> MarkPoisoned u \<in> set calls" if "u \<noteq> t" for u
    using marking_update [OF assms(2), of u CallDone] assms(3) that by simp
  then have settled: "settled (force_poison d t) ?calls u \<longleftrightarrow> settled d calls u" for u
    using mem by (cases "u = t") (auto simp: settled_def force_poison_def)
  have "call_ok d calls (es ! i) (MarkPoisoned t)"
    using assms by (auto simp: burst_inv_def)
  then have "call_ok (force_poison d t) ?calls (es ! i) CallDone"
    using mem by (auto simp: call_ok_def settled_def force_poison_def split: prod.splits)
  then show ?thesis
    by (intro burst_inv_move [OF assms(1,2)] settled) (simp_all add: force_poison_def records_of_def)
qed

text \<open>Within a burst nothing leaves the window, so a failure is appended.\<close>

lemma count_section_burst:
  assumes "chrono_sound c" and "one_burst (detection_window c cfg) es"
    and "burst_inv cfg es d calls" and "(now, t, a) \<in> set es"
    and "count_section c now t a d = Some (trips, d')"
  defines "new \<equiv> \<lparr>fr_agent_id = a, fr_timestamp = now\<rparr>"
  shows "d' = d\<lparr>pd_failures := (pd_failures d)(t \<mapsto> records_of d t @ [new])\<rparr> \<and>
    (trips \<longleftrightarrow> poison_agent_threshold cfg \<le> (of_nat (distinct_agents (records_of d t @ [new])) :: u32))"
proof -
  have cfg: "pd_config d = cfg" using assms(3) by (simp add: burst_inv_def)
  obtain cutoff where cutoff: "window_cutoff c d now = Some cutoff"
    using assms(5) by (auto simp: count_section_def bind_eq_Some_conv)
  have co: "cutoff = now - detection_window c cfg"
    using window_cutoff_Some [OF assms(1) cutoff] cfg by (simp add: detection_window_def)
  have "cutoff \<le> fr_timestamp r" if "r \<in> set (records_of d t @ [new])" for r
  proof -
    have "(fr_timestamp r, t, fr_agent_id r) \<in> set es"
      using that assms(3,4) by (auto simp: burst_inv_def new_def)
    then show ?thesis using assms(2,4) by (force simp: one_burst_def co)
  qed
  then have "kept_records cutoff now d t a = records_of d t @ [new]"
    unfolding kept_records_def records_of_def [symmetric] new_def [symmetric]
    by (simp add: filter_id_conv)
  then show ?thesis using assms(5) cutoff cfg by (auto simp: count_section_def Let_def)
qed

lemma failing_agents_bound:
  "finite (failing_agents es t) \<and> card (failing_agents es t) \<le> length es"
proof -
  have sub: "failing_agents es t \<subseteq> (\<lambda>e. snd (snd e)) ` set es"
    by (force simp: failing_agents_def)
  then have "card (failing_agents es t) \<le> card (set es)"
    by (meson List.finite_set card_image_le card_mono finite_imageI order.trans)
  then show ?thesis using sub card_length [of es] by (meson List.finite_set finite_imageI
      finite_subset order.trans)
qed

lemma records_agents:
  assumes "\<forall>r \<in> set rs. (fr_timestamp r, t, fr_agent_id r) \<in> set es"
  shows "distinct_agents rs \<le> card (failing_agents es t)"
  unfolding distinct_agents_def using assms failing_agents_bound [of es t]
  by (intro card_mono) (auto simp: failing_agents_def)

lemma count_keeps_burst:
  assumes "chrono_sound c" and "one_burst (detection_window c cfg) es" and "length es < 2 ^ 32"
    and "burst_inv cfg es d calls" and "i < length calls" and "calls ! i = CountFailure now t a"
    and "poison_section c (CountFailure now t a) d = Some (p, d')"
  shows "burst_inv cfg es d' (calls[i := p])"
proof -
  let ?calls = "calls[i := p]" and ?th = "poison_agent_threshold cfg"
  have e: "es ! i = (now, t, a)" "(now, t, a) \<in> set es"
    using burst_inv_call(1) [OF assms(4,5)] assms(6) by simp_all
  note inv = assms(4) [unfolded burst_inv_def]
  define rs where "rs = records_of d t @ [\<lparr>fr_agent_id = a, fr_timestamp = now\<rparr>]"
  obtain trips where "count_section c now t a d = Some (trips, d')"
    and p: "p = (if trips then MarkPoisoned t else CallDone)"
    using assms(7) by (auto simp: bind_eq_Some_conv)
  then have d': "d' = d\<lparr>pd_failures := (pd_failures d)(t \<mapsto> rs)\<rparr>"
    and trips': "trips \<longleftrightarrow> ?th \<le> (of_nat (distinct_agents rs) :: u32)"
    using count_section_burst [OF assms(1,2,4) e(2)] unfolding rs_def by blast+
  have rec: "records_of d' u = (if u = t then rs else records_of d u)" for u
    by (simp add: d' records_of_def)
  have rs: "\<forall>r \<in> set rs. (fr_timestamp r, t, fr_agent_id r) \<in> set es"
    using inv e(2) by (auto simp: rs_def)
  note bound = records_agents [OF rs] failing_agents_bound [of es t]
  have trips: "trips \<longleftrightarrow> unat ?th \<le> distinct_agents rs"
    unfolding trips' by (rule of_nat_u32_le) (use bound assms(3) in linarith)
  have settled: "settled d' ?calls u \<longleftrightarrow> settled d calls u \<or> trips \<and> u = t" for u
    using marking_update [OF assms(5), of u p] assms(6) by (auto simp: settled_def p d')
  have "call_ok d' ?calls (es ! j) (?calls ! j)" if "j < length es" for j
  proof (cases "j = i")
    case True
    then show ?thesis using e assms(5) settled [of t]
      by (auto simp: call_ok_def p rec rs_def)
  next
    case False
    have "call_ok d' ?calls (es ! j) (calls ! j)"
      by (rule call_ok_mono [of d calls]) (use that inv settled in \<open>auto simp: rec rs_def\<close>)
    then show ?thesis using False by simp
  qed
  moreover have "reaches cfg es u" if "settled d' ?calls u" for u
  proof (cases "settled d calls u")
    case False
    then have "trips" "u = t" using that settled by auto
    then show ?thesis using trips bound e(2) by (auto simp: reaches_def failing_agents_def)
  qed (use inv in blast)
  moreover have "settled d' ?calls u \<or> records_of d' u = []
      \<or> distinct_agents (records_of d' u) < unat ?th" for u
    using inv settled [of u] trips by (cases "u = t") (auto simp: rec)
  ultimately show ?thesis
    using inv rs unfolding burst_inv_def by (simp add: d' rec [unfolded d'])
qed

text \<open>The interface of the bursts: which calls, and what the detector is asked to guarantee.\<close>

definition burst_calls_ok ::
  "chrono \<Rightarrow> fault_config \<Rightarrow> failure_event list \<Rightarrow> bool" where
  "burst_calls_ok c cfg es \<longleftrightarrow>
     chrono_sound c \<and> one_burst (detection_window c cfg) es \<and> length es < 2 ^ 32"

lemma burst_section_keeps:
  assumes "burst_calls_ok c cfg es" and "burst_inv cfg es d calls" and "i < length calls"
    and "poison_section c (calls ! i) d = Some (p, d')"
  shows "burst_inv cfg es d' (calls[i := p])"
proof (cases "calls ! i")
  case (EnterFailure now t a)
  then show ?thesis using enter_keeps_burst [OF assms(2,3)] assms(4) by metis
next
  case (CountFailure now t a)
  then show ?thesis
    using count_keeps_burst [of c cfg es d calls i] assms by (simp add: burst_calls_ok_def)
next
  case (MarkPoisoned t)
  then show ?thesis using mark_keeps_burst [OF assms(2,3)] assms(4) by auto
qed (use burst_inv_call(2) [OF assms(2,3)] assms(4) in auto)

interpretation bursts:
  interleaving_invariant "poison_section c" "\<lambda>d calls. burst_calls_ok c cfg es \<longrightarrow> burst_inv cfg es d calls"
  for c cfg es
  by unfold_locales (blast intro: burst_section_keeps)

lemma burst_inv_start:
  "burst_inv cfg es (poison_detector_new cfg) (map failure_call es)"
  by (auto simp: burst_inv_def poison_detector_new_def records_of_def settled_def call_ok_def
      in_set_conv_nth split: prod.splits)

lemma burst_reachable:
  assumes "burst_calls_ok c cfg es"
    and "interleaved (poison_section c) (poison_detector_new cfg) (map failure_call es) d calls"
  shows "burst_inv cfg es d calls"
  using bursts.reachable_inv [OF assms(2), of cfg es] assms(1) burst_inv_start by blast

text \<open>When every call has returned, the marks are the tasks that reach the threshold.\<close>

lemma burst_inv_done:
  assumes "burst_inv cfg es d calls" and "set calls \<subseteq> {CallDone}"
  shows "t \<in> pd_poisoned d \<longleftrightarrow> reaches cfg es t"
proof
  assume "t \<in> pd_poisoned d"
  then show "reaches cfg es t" using assms(1) by (auto simp: burst_inv_def settled_def)
next
  assume r: "reaches cfg es t"
  show "t \<in> pd_poisoned d"
  proof (rule ccontr)
    assume "t \<notin> pd_poisoned d"
    then have un: "\<not> settled d calls t" using assms(2) by (auto simp: settled_def)
    have rec: "\<lparr>fr_agent_id = a, fr_timestamp = now\<rparr> \<in> set (records_of d t)"
      if e: "(now, t, a) \<in> set es" for now a
    proof -
      obtain i where i: "i < length es" "es ! i = (now, t, a)"
        using e by (auto simp: in_set_conv_nth)
      moreover have "i < length calls" using i assms(1) by (simp add: burst_inv_def)
      then have "calls ! i = CallDone" using assms(2) nth_mem by blast
      ultimately have "call_ok d calls (now, t, a) CallDone"
        using assms(1) unfolding burst_inv_def by metis
      then show ?thesis using un by (simp add: call_ok_def)
    qed
    then have "failing_agents es t \<subseteq> set (map fr_agent_id (records_of d t))"
      by (force simp: failing_agents_def)
    then have "card (failing_agents es t) \<le> distinct_agents (records_of d t)"
      unfolding distinct_agents_def by (rule card_mono [rotated]) simp
    moreover have "records_of d t \<noteq> []"
      using r rec by (force simp: reaches_def failing_agents_def)
    ultimately show False
      using assms(1) un r unfolding burst_inv_def reaches_def by (meson leD order.trans)
  qed
qed

text \<open>No call waits for another: only a cut-off outside the calendar stops one.\<close>

lemma burst_inv_progress:
  assumes "burst_inv cfg es d calls"
    and "\<forall>e \<in> set es. dt_sub c (fst e) (detection_window c cfg) \<noteq> None"
    and "i < length calls" and "calls ! i \<noteq> CallDone"
  shows "poison_section c (calls ! i) d \<noteq> None"
proof (cases "calls ! i")
  case (CountFailure now t a)
  then have "(now, t, a) \<in> set es"
    using burst_inv_call(1) [OF assms(1,3)] by blast
  then have "dt_sub c now (detection_window c cfg) \<noteq> None" using assms(2) by fastforce
  then have "window_cutoff c d now \<noteq> None"
    using assms(1) by (simp add: burst_inv_def window_cutoff_def detection_window_def)
  then show ?thesis by (auto simp: CountFailure count_section_def Let_def)
qed (use assms(4) in simp_all)

text \<open>Every call ends after at most three sections.\<close>

fun sections_left :: "poison_progress \<Rightarrow> nat" where
  "sections_left (EnterFailure _ _ _) = 3"
| "sections_left (CountFailure _ _ _) = 2"
| "sections_left (MarkPoisoned _) = 1"
| "sections_left (UnmarkTask _) = 2"
| "sections_left (ForgetTask _) = 1"
| "sections_left CallDone = 0"

lemma section_decreases:
  "poison_section c p d = Some (p', d') \<Longrightarrow> sections_left p' < sections_left p"
  by (cases p) (auto simp: bind_eq_Some_conv split: if_splits)

section \<open>Properties\<close>

lemma concurrent_burst_spec:
  assumes "chrono_sound c" and "one_burst (detection_window c cfg) es" and "length es < 2 ^ 32"
    and "\<forall>e \<in> set es. dt_sub c (fst e) (detection_window c cfg) \<noteq> None"
    and "interleaved (poison_section c) (poison_detector_new cfg) (map failure_call es) d calls"
  shows "(is_poisoned d t \<longrightarrow> reaches cfg es t) \<and>
    (if set calls \<subseteq> {CallDone} then is_poisoned d t \<longleftrightarrow> reaches cfg es t
     else \<exists>i < length calls. poison_section c (calls ! i) d \<noteq> None)"
proof -
  have inv: "burst_inv cfg es d calls"
    using burst_reachable [OF _ assms(5)] assms(1-3) by (simp add: burst_calls_ok_def)
  then have "is_poisoned d t \<longrightarrow> reaches cfg es t"
    by (auto simp: burst_inv_def settled_def is_poisoned_def)
  moreover have "\<exists>i < length calls. poison_section c (calls ! i) d \<noteq> None"
    if "\<not> set calls \<subseteq> {CallDone}"
    using that burst_inv_progress [OF inv assms(4)] by (fastforce simp: in_set_conv_nth)
  ultimately show ?thesis
    using burst_inv_done [OF inv] by (auto simp: is_poisoned_def)
qed

text \<open>
  C19. Calls of \<open>record_failure\<close> that run at the same time on a new detector, for failures within
  one detection window of each other, never mark a task that fewer distinct agents than the
  threshold have failed, however their critical sections interleave; none of them waits for ever,
  and once all have returned the marked tasks are exactly those that reach the threshold.
\<close>

theorem concurrent_burst:
  assumes "chrono_sound c" and "one_burst (detection_window c cfg) es" and "length es < 2 ^ 32"
    and "\<forall>e \<in> set es. dt_sub c (fst e) (detection_window c cfg) \<noteq> None"
    and "interleaved (poison_section c) (poison_detector_new cfg) (map failure_call es) d calls"
  shows "(is_poisoned d t \<longrightarrow> reaches cfg es t) \<and>
    (if set calls \<subseteq> {CallDone} then is_poisoned d t \<longleftrightarrow> reaches cfg es t
     else \<exists>i < length calls. poison_section c (calls ! i) d \<noteq> None)"
  using concurrent_burst_spec [OF assms] .

lemma default_detection_window:
  "detection_window chrono_limits default_fault_config = 60000000000"
  by (simp add: detection_window_def from_std_or_secs_def chrono_limits_def TD_MAX_def
      default_fault_config_def from_secs_def NANOS_PER_SEC_def)

lemma default_window_cutoff:
  assumes "poison_detection_window (pd_config d) = poison_detection_window default_fault_config"
    and "0 \<le> now" and "now \<le> 100000000000"
  shows "window_cutoff chrono_limits d now = Some (now - 60000000000)"
  using assms
  by (simp add: window_cutoff_def default_fault_config_def from_std_or_secs_def chrono_limits_def
      from_secs_def NANOS_PER_SEC_def TD_MAX_def DT_MAX_def)

lemma distinct_agents_remdups: "distinct_agents rs = length (remdups (map fr_agent_id rs))"
  unfolding distinct_agents_def by (rule length_remdups_card_conv [symmetric])

text \<open>Three agents report at once: all have passed the first check before any of them counts.\<close>

theorem concurrent_burst_witness:
  "\<exists>d calls. run_schedule (poison_section chrono_limits) [0, 1, 2, 1, 0, 2, 2]
      (poison_detector_new default_fault_config)
      (map failure_call [(0, 7, AgentId 1), (1, 7, AgentId 2), (2, 7, AgentId 3)]) = (d, calls)
    \<and> is_poisoned d 7 \<and> \<not> is_poisoned d 8"
proof -
  let ?es = "[(0, 7, AgentId 1), (1, 7, AgentId 2), (2, 7, AgentId 3)]"
  let ?d0 = "poison_detector_new default_fault_config"
  obtain d calls where run: "run_schedule (poison_section chrono_limits) [0, 1, 2, 1, 0, 2, 2] ?d0
      (map failure_call ?es) = (d, calls)" by fastforce
  moreover have "\<not> (3::u32) \<le> 1" by (simp add: word_le_def)
  ultimately have fin: "set calls \<subseteq> {CallDone}"
    by (auto simp: poison_detector_new_def count_section_def default_window_cutoff Let_def
        kept_records_def distinct_agents_remdups default_fault_config_def force_poison_def)
  have "interleaved (poison_section chrono_limits) ?d0 (map failure_call ?es) d calls"
    by (rule run_schedule_interleaved [OF interleaved_start run])
  note burst = concurrent_burst [OF chrono_limits_sound _ _ _ this]
  have ok: "one_burst (detection_window chrono_limits default_fault_config) ?es"
    "\<forall>e \<in> set ?es. dt_sub chrono_limits (fst e) (detection_window chrono_limits default_fault_config)
      \<noteq> None"
    unfolding default_detection_window
    by (simp_all add: one_burst_def chrono_limits_def DT_MAX_def)
  have "failing_agents ?es 7 = {AgentId 1, AgentId 2, AgentId 3}" "failing_agents ?es 8 = {}"
    by (auto simp: failing_agents_def)
  then have "reaches default_fault_config ?es 7" "\<not> reaches default_fault_config ?es 8"
    by (simp_all add: reaches_def default_fault_config_def)
  then have "is_poisoned d 7 \<and> \<not> is_poisoned d 8"
    using burst [of 7] burst [of 8] ok fin by simp
  then show ?thesis using run by blast
qed

text \<open>
  \<open>clear\<close> is not atomic with \<open>record_failure\<close>: when it runs between the count and the mark of a
  failure, the task it cleared stays marked with no failure on record, which neither order of the
  two calls gives.
\<close>

lemma clear_races_failure:
  fixes cfg :: fault_config
  defines "cfg \<equiv> default_fault_config\<lparr>poison_agent_threshold := 1\<rparr>"
  defines "d0 \<equiv> poison_detector_new cfg"
  defines "race \<equiv> \<lambda>is. fst (run_schedule (poison_section chrono_limits) is d0
    [EnterFailure 0 7 (AgentId 1), UnmarkTask 7])"
  shows "is_poisoned (race [0, 0, 1, 1, 0]) 7 \<and> pd_failures (race [0, 0, 1, 1, 0]) 7 = None"
    and "is_poisoned (race [0, 0, 0, 1, 1]) 7 = False"
    and "pd_failures (race [1, 1, 0, 0, 0]) 7 \<noteq> None"
proof -
  have co: "window_cutoff chrono_limits d 0 = Some (- 60000000000)" if "pd_config d = cfg" for d
    using default_window_cutoff [of d 0] that by (simp add: cfg_def)
  have th: "poison_agent_threshold cfg = 1" by (simp add: cfg_def)
  note run = race_def d0_def poison_detector_new_def count_section_def co th kept_records_def
    distinct_agents_remdups force_poison_def is_poisoned_def
    unmark_section_def forget_section_def
  show "is_poisoned (race [0, 0, 1, 1, 0]) 7 \<and> pd_failures (race [0, 0, 1, 1, 0]) 7 = None"
    by (simp add: run)
  show "is_poisoned (race [0, 0, 0, 1, 1]) 7 = False" by (simp add: run)
  show "pd_failures (race [1, 1, 0, 0, 0]) 7 \<noteq> None" by (simp add: run)
qed

end
