(* ===== verification/Backpressure.thy ===== *)
theory Backpressure
  imports Atp_Types
begin

text \<open>
  Queue-depth signalling of \<open>atp-fault\<close> (\<open>backpressure.rs\<close>): the load of every agent, smoothed by
  an exponential moving average, and the signals raised above a threshold. One lock, so every
  method is one step. \<open>Duration::from_secs_f64\<close> panics on values it cannot represent: a query that
  panics has no result (\<open>None\<close>).
\<close>

record backpressure_signal =
  sig_agent_id :: agent_id
  sig_queue_depth :: u32
  sig_recommended_rate :: f64
  sig_estimated_drain_time :: duration
  sig_timestamp :: datetime

record agent_load =
  al_queue_depth :: u32
  al_processing_rate :: f64
  al_last_updated :: datetime

record load_tracker =
  lt_config :: fault_config
  lt_agents :: "agent_id \<rightharpoonup> agent_load"

definition agent_load_new :: "datetime \<Rightarrow> agent_load" where
  "agent_load_new now = \<lparr>al_queue_depth = 0, al_processing_rate = 1, al_last_updated = now\<rparr>"

definition load_tracker_new :: "fault_config \<Rightarrow> load_tracker" where
  "load_tracker_new cfg = \<lparr>lt_config = cfg, lt_agents = Map.empty\<rparr>"

definition load_tracker_with_defaults :: load_tracker where
  "load_tracker_with_defaults = load_tracker_new default_fault_config"

definition load_threshold :: "load_tracker \<Rightarrow> u32" where
  "load_threshold lt = backpressure_threshold (lt_config lt)"

definition smoothed_rate :: "f64 \<Rightarrow> f64 \<Rightarrow> f64" where
  "smoothed_rate old rate = to_f64 (7 / 10) * old + to_f64 (3 / 10) * rate"

definition load_update ::
  "datetime \<Rightarrow> load_tracker \<Rightarrow> agent_id \<Rightarrow> u32 \<Rightarrow> f64 option \<Rightarrow> load_tracker" where
  "load_update now lt a depth processing_rate =
     (let entry = (case lt_agents lt a of Some l \<Rightarrow> l | None \<Rightarrow> agent_load_new now);
          entry = entry\<lparr>al_queue_depth := depth\<rparr>;
          entry = (case processing_rate of
              Some rate \<Rightarrow> entry\<lparr>al_processing_rate := smoothed_rate (al_processing_rate entry) rate\<rparr>
            | None \<Rightarrow> entry);
          entry = entry\<lparr>al_last_updated := now\<rparr>
      in lt\<lparr>lt_agents := (lt_agents lt)(a \<mapsto> entry)\<rparr>)"

definition heartbeat_rate :: "heartbeat_msg \<Rightarrow> f64" where
  "heartbeat_rate msg = to_f64 10 * f64_max (1 - hb_load_factor msg) (to_f64 (1 / 100))"

definition update_from_heartbeat ::
  "datetime \<Rightarrow> load_tracker \<Rightarrow> heartbeat_msg \<Rightarrow> load_tracker" where
  "update_from_heartbeat now lt msg =
     load_update now lt (hb_from msg) (hb_queue_depth msg) (Some (heartbeat_rate msg))"

definition update_from_backpressure ::
  "datetime \<Rightarrow> load_tracker \<Rightarrow> backpressure_msg \<Rightarrow> load_tracker" where
  "update_from_backpressure now lt msg =
     load_update now lt (bp_from msg) (bp_queue_depth msg) (Some (bp_recommended_rate msg))"

definition load_queue_depth :: "load_tracker \<Rightarrow> agent_id \<Rightarrow> u32 option" where
  "load_queue_depth lt a = map_option al_queue_depth (lt_agents lt a)"

definition is_overloaded :: "load_tracker \<Rightarrow> agent_id \<Rightarrow> bool" where
  "is_overloaded lt a =
     (case map_option (\<lambda>d. backpressure_threshold (lt_config lt) < d) (load_queue_depth lt a) of
        Some b \<Rightarrow> b | None \<Rightarrow> False)"

definition f64_of_u32 :: "u32 \<Rightarrow> f64" where
  "f64_of_u32 w = f64_of_nat (unat w)"

definition load_signal ::
  "datetime \<Rightarrow> load_tracker \<Rightarrow> agent_id \<Rightarrow> backpressure_signal option option" where
  "load_signal now lt a =
     (case lt_agents lt a of
        None \<Rightarrow> Some None
      | Some load \<Rightarrow>
          if al_queue_depth load \<le> backpressure_threshold (lt_config lt) then Some None
          else do {
            let recommended_rate = f64_max (al_processing_rate load * to_f64 (8 / 10)) (to_f64 (1 / 10));
            let drain_secs = (if 0 < al_processing_rate load
                then f64_of_u32 (al_queue_depth load) / al_processing_rate load else PInf);
            drain \<leftarrow> (if is_finite drain_secs then from_secs_f64 drain_secs
                      else Some (from_secs 3600));
            Some (Some \<lparr>sig_agent_id = a, sig_queue_depth = al_queue_depth load,
                        sig_recommended_rate = recommended_rate,
                        sig_estimated_drain_time = drain, sig_timestamp = now\<rparr>)
          })"

fun overloaded_signals ::
  "(nat \<Rightarrow> datetime) \<Rightarrow> nat \<Rightarrow> (agent_id \<times> agent_load) list \<Rightarrow> backpressure_signal list option" where
  "overloaded_signals clk i [] = Some []"
| "overloaded_signals clk i ((a, load) # loads) = do {
     let recommended_rate = f64_max (al_processing_rate load * to_f64 (8 / 10)) (to_f64 (1 / 10));
     let drain_secs = (if 0 < al_processing_rate load
         then f64_of_u32 (al_queue_depth load) / al_processing_rate load else to_f64 3600);
     drain \<leftarrow> from_secs_f64 drain_secs;
     rest \<leftarrow> overloaded_signals clk (Suc i) loads;
     Some (\<lparr>sig_agent_id = a, sig_queue_depth = al_queue_depth load,
            sig_recommended_rate = recommended_rate,
            sig_estimated_drain_time = drain, sig_timestamp = clk i\<rparr> # rest)
   }"

definition overloaded_agents ::
  "(nat \<Rightarrow> datetime) \<Rightarrow> agent_id list \<Rightarrow> load_tracker \<Rightarrow> backpressure_signal list option" where
  "overloaded_agents clk ks lt =
     overloaded_signals clk 0
       (filter (\<lambda>(_, load). backpressure_threshold (lt_config lt) < al_queue_depth load)
          (entries ks (lt_agents lt)))"

definition load_build_message :: "load_tracker \<Rightarrow> agent_id \<Rightarrow> backpressure_msg" where
  "load_build_message lt a =
     (let (queue_depth, recommended_rate, drain_ms) =
        (case lt_agents lt a of
           Some load \<Rightarrow>
             (let rate = f64_max (al_processing_rate load * to_f64 (8 / 10)) (to_f64 (1 / 10));
                  drain = (if 0 < al_processing_rate load
                    then f64_to_u64 (f64_of_u32 (al_queue_depth load) / al_processing_rate load
                       * to_f64 1000)
                    else 3600000)
              in (al_queue_depth load, rate, drain))
         | None \<Rightarrow> (0, 1, 0))
      in \<lparr>bp_from = a, bp_queue_depth = queue_depth, bp_recommended_rate = recommended_rate,
          bp_estimated_drain_ms = drain_ms\<rparr>)"

definition load_remove_agent :: "load_tracker \<Rightarrow> agent_id \<Rightarrow> bool \<times> load_tracker" where
  "load_remove_agent lt a = (lt_agents lt a \<noteq> None, lt\<lparr>lt_agents := (lt_agents lt)(a := None)\<rparr>)"

definition load_tracked_count :: "load_tracker \<Rightarrow> nat" where
  "load_tracked_count lt = card (dom (lt_agents lt))"

section \<open>Rates\<close>

lemma f64_max_ge_right: "b \<noteq> NaN \<Longrightarrow> b \<le> f64_max a b"
  by (cases a; cases b) (auto simp: f64_max_def)

lemma times_mono_nonneg:
  "(0::f64) \<le> a \<Longrightarrow> is_finite a \<Longrightarrow> 0 < a \<Longrightarrow> Fin x \<le> b \<Longrightarrow> 0 \<le> x \<Longrightarrow> a * Fin x \<le> a * b"
  by (cases a; cases b)
    (auto simp: f64_zero_one_Fin is_finite_def f64_le_PInf intro!: to_f64_mono mult_left_mono)

text \<open>The rates a report may lower an average to: at least a sixteenth of a task per second.\<close>

definition rate_floor :: "f64 \<Rightarrow> bool" where
  "rate_floor r \<longleftrightarrow> Fin (1 / 16) \<le> r"

lemma rate_floor_cases:
  assumes "rate_floor r"
  obtains "r = PInf" | q where "r = Fin q" "1 / 16 \<le> q"
  using assms by (cases r) (auto simp: rate_floor_def)

lemma rate_floor_not_NaN: "rate_floor r \<Longrightarrow> r \<noteq> NaN"
  by (auto simp: rate_floor_def)

lemma rate_floor_one: "rate_floor 1"
  by (simp add: rate_floor_def f64_zero_one_Fin)

lemma smoothed_rate_floor:
  assumes "rate_floor old" and "rate_floor rate"
  shows "rate_floor (smoothed_rate old rate)"
proof -
  have a: "to_f64 (7 / 10) * Fin (1 / 16) = Fin (3152519739159347 / 72057594037927936)"
    using to_f64_exact [OF exact_frac, of 3152519739159347 56] by (simp add: to_f64_lits)
  have b: "to_f64 (3 / 10) * Fin (1 / 16) = Fin (5404319552844595 / 288230376151711744)"
    using to_f64_exact [OF exact_frac, of 5404319552844595 58] by (simp add: to_f64_lits)
  have "Fin (1 / 16) = to_f64 (3152519739159347 / 72057594037927936
      + 5404319552844595 / 288230376151711744)"
    using to_f64_lit [of "18014398509481983 / 288230376151711744" 57 9007199254740992] by simp
  also have "\<dots> = to_f64 (7 / 10) * Fin (1 / 16) + to_f64 (3 / 10) * Fin (1 / 16)"
    by (simp only: a b plus_f64.simps)
  also have "\<dots> \<le> to_f64 (7 / 10) * old + to_f64 (3 / 10) * rate"
  proof (rule plus_mono_nonneg)
    show "to_f64 (7 / 10) * Fin (1 / 16) \<le> to_f64 (7 / 10) * old"
      by (rule times_mono_nonneg)
        (use assms(1) in \<open>simp_all add: rate_floor_def to_f64_lits f64_zero_one_Fin is_finite_def\<close>)
    show "to_f64 (3 / 10) * Fin (1 / 16) \<le> to_f64 (3 / 10) * rate"
      by (rule times_mono_nonneg)
        (use assms(2) in \<open>simp_all add: rate_floor_def to_f64_lits f64_zero_one_Fin is_finite_def\<close>)
  qed (simp_all add: a b f64_zero_one_Fin)
  finally show ?thesis by (simp add: rate_floor_def smoothed_rate_def)
qed

lemma heartbeat_rate_floor: "rate_floor (heartbeat_rate msg)"
proof -
  have ten: "to_f64 10 = Fin 10" using to_f64_exact [OF exact_of_int, of 10] by simp
  have "to_f64 (1 / 100) \<le> f64_max (1 - hb_load_factor msg) (to_f64 (1 / 100))"
    by (rule f64_max_ge_right) simp
  then have "Fin (1 / 128) \<le> f64_max (1 - hb_load_factor msg) (to_f64 (1 / 100))"
    by (rule f64_le_trans [rotated]) (simp add: to_f64_lits)
  then have "Fin 10 * Fin (1 / 128) \<le> heartbeat_rate msg"
    unfolding heartbeat_rate_def ten
    by (intro times_mono_nonneg) (simp_all add: f64_zero_one_Fin is_finite_def)
  moreover have "Fin 10 * Fin (1 / 128) = Fin (5 / 64)"
    using to_f64_exact [OF exact_frac, of 5 6] by simp
  ultimately show ?thesis
    unfolding rate_floor_def by (auto intro: f64_le_trans [of _ "Fin (5 / 64)"])
qed

definition rates_ok :: "load_tracker \<Rightarrow> bool" where
  "rates_ok lt \<longleftrightarrow> (\<forall>a load. lt_agents lt a = Some load \<longrightarrow> rate_floor (al_processing_rate load))"

lemma rates_ok_new [wf_intros]: "rates_ok (load_tracker_new cfg)"
  by (simp add: rates_ok_def load_tracker_new_def)

lemma rates_ok_update [wf_intros]:
  assumes "rates_ok lt" and "\<And>r. report = Some r \<Longrightarrow> rate_floor r"
  shows "rates_ok (load_update now lt a depth report)"
proof -
  have "rate_floor (al_processing_rate
      (case lt_agents lt a of Some l \<Rightarrow> l | None \<Rightarrow> agent_load_new now))"
    using assms(1)
    by (auto simp: rates_ok_def agent_load_new_def rate_floor_one split: option.splits)
  then show ?thesis
    using assms by (auto simp: rates_ok_def load_update_def Let_def
        intro: smoothed_rate_floor split: option.splits if_splits)
qed

text \<open>Above the floor a queue drains in a time that a \<open>Duration\<close> can hold.\<close>

lemma drain_time_ok:
  assumes "rate_floor r"
  shows "\<exists>q. f64_of_u32 depth / r = Fin q \<and> 0 \<le> q \<and> q \<le> 2 ^ 36"
proof -
  have u: "unat depth < 2 ^ 32" using unsigned_less [of depth] by simp
  then have d: "f64_of_u32 depth = Fin (of_nat (unat depth))"
    unfolding f64_of_u32_def by (intro f64_of_nat_exact) simp
  have u': "(of_nat (unat depth) :: rat) \<le> 2 ^ 32"
    using u by (metis less_imp_le of_nat_le_iff of_nat_numeral of_nat_power)
  show ?thesis
    using assms
  proof (cases rule: rate_floor_cases)
    case 1
    then show ?thesis by (simp add: d)
  next
    case (2 p)
    have ex: "exact (2 ^ 36)" using exact_of_int [of "2 ^ 36"] by simp
    have le: "of_nat (unat depth) / p \<le> 2 ^ 36"
    proof -
      have "(of_nat (unat depth) :: rat) \<le> 2 ^ 36 * (1 / 16)" using u' by simp
      also have "\<dots> \<le> 2 ^ 36 * p" using 2 by (intro mult_left_mono) simp_all
      finally show ?thesis using 2 by (simp add: divide_le_eq)
    qed
    have nonneg: "0 \<le> of_nat (unat depth) / p"
      by (rule divide_nonneg_nonneg [OF of_nat_0_le_iff]) (use 2 in simp)
    show ?thesis
      using to_f64_between [OF nonneg le exact_0 ex] 2 by (auto simp: d)
  qed
qed

lemma from_secs_f64_small:
  assumes "0 \<le> q" "q \<le> 2 ^ 36"
  shows "\<exists>t. from_secs_f64 (Fin q) = Some t"
proof -
  have "q * of_nat NANOS_PER_SEC \<le> of_int (2 ^ 36 * 1000000000)"
    using assms by (simp add: NANOS_PER_SEC_def)
  then have "round_half_even (q * of_nat NANOS_PER_SEC) \<le> 2 ^ 36 * 1000000000"
    by (rule round_half_even_le_int)
  then have "nat (round_half_even (q * of_nat NANOS_PER_SEC)) \<le> DURATION_MAX"
    by (simp add: DURATION_MAX_def NANOS_PER_SEC_def)
  then show ?thesis using assms by (simp add: from_secs_f64_def Let_def)
qed

lemma overloaded_signals_total:
  assumes "\<forall>(a, load) \<in> set loads. rate_floor (al_processing_rate load)"
  shows "\<exists>sigs. overloaded_signals clk i loads = Some sigs \<and> map sig_agent_id sigs = map fst loads"
  using assms
proof (induction loads arbitrary: i)
  case Nil
  then show ?case by simp
next
  case (Cons e loads)
  obtain a load where e: "e = (a, load)" by (cases e)
  then have r: "rate_floor (al_processing_rate load)" using Cons.prems by simp
  then have pos: "0 < al_processing_rate load"
    by (auto simp: f64_zero_one_Fin elim!: rate_floor_cases)
  obtain q where "f64_of_u32 (al_queue_depth load) / al_processing_rate load = Fin q"
    "0 \<le> q" "q \<le> 2 ^ 36" using drain_time_ok [OF r] by blast
  moreover from this obtain t where "from_secs_f64 (Fin q) = Some t"
    using from_secs_f64_small by blast
  moreover obtain sigs where "overloaded_signals clk (Suc i) loads = Some sigs"
    "map sig_agent_id sigs = map fst loads"
    using Cons.IH [of "Suc i"] Cons.prems by auto
  ultimately show ?case using pos e by simp
qed

section \<open>Properties\<close>

text \<open>
  A tracker that learns of its agents from heartbeats, whatever they contain (a NaN or
  infinite load factor included), never panics when it is asked for signals: \<open>overloaded_agents\<close>
  returns one signal for each agent above the threshold, and \<open>signal\<close> returns one exactly for
  those agents.
\<close>

lemma heartbeat_signals_total:
  assumes "lt = foldl (\<lambda>lt (now, msg). update_from_heartbeat now lt msg) (load_tracker_new cfg) es"
    and "iterates ks (lt_agents lt)"
  shows "(\<exists>sigs. overloaded_agents clk ks lt = Some sigs \<and>
      set (map sig_agent_id sigs) = {a. is_overloaded lt a}) \<and>
    (\<exists>s. load_signal now lt a = Some s \<and> (s \<noteq> None \<longleftrightarrow> is_overloaded lt a))"
proof -
  have "rates_ok (foldl (\<lambda>lt (now, msg). update_from_heartbeat now lt msg) lt0 es)"
    if "rates_ok lt0" for lt0
    using that
  proof (induction es arbitrary: lt0)
    case (Cons e es)
    have "rates_ok (update_from_heartbeat (fst e) lt0 (snd e))"
      using Cons.prems unfolding update_from_heartbeat_def
      by (auto intro!: rates_ok_update heartbeat_rate_floor)
    from Cons.IH [OF this] show ?case by (simp add: case_prod_beta)
  qed simp
  then have ok: "rates_ok lt" using rates_ok_new assms(1) by blast
  have over: "is_overloaded lt b \<longleftrightarrow> (\<exists>load. lt_agents lt b = Some load \<and>
      backpressure_threshold (lt_config lt) < al_queue_depth load)" for b
    by (auto simp: is_overloaded_def load_queue_depth_def split: option.splits)
  let ?es = "filter (\<lambda>(_, load). backpressure_threshold (lt_config lt) < al_queue_depth load)
          (entries ks (lt_agents lt))"
  have "\<forall>(a, load) \<in> set ?es. rate_floor (al_processing_rate load)"
    using ok by (auto simp: rates_ok_def dest: entries_subset)
  then obtain sigs where sigs: "overloaded_agents clk ks lt = Some sigs"
    "map sig_agent_id sigs = map fst ?es"
    using overloaded_signals_total unfolding overloaded_agents_def by blast
  have "set (map fst ?es) = {a. is_overloaded lt a}"
    by (force simp: set_entries [OF assms(2)] over)
  moreover have "\<exists>s. load_signal now lt a = Some s \<and> (s \<noteq> None \<longleftrightarrow> is_overloaded lt a)"
  proof (cases "lt_agents lt a")
    case None
    then show ?thesis by (simp add: load_signal_def over)
  next
    case (Some load)
    then have r: "rate_floor (al_processing_rate load)" using ok by (simp add: rates_ok_def)
    then have pos: "0 < al_processing_rate load"
      by (auto simp: f64_zero_one_Fin elim!: rate_floor_cases)
    obtain q where "f64_of_u32 (al_queue_depth load) / al_processing_rate load = Fin q"
      "0 \<le> q" "q \<le> 2 ^ 36" using drain_time_ok [OF r] by blast
    moreover from this obtain t where "from_secs_f64 (Fin q) = Some t"
      using from_secs_f64_small by blast
    ultimately show ?thesis
      using Some pos by (auto simp: load_signal_def over is_finite_def Let_def not_le)
  qed
  ultimately show ?thesis using sigs by metis
qed

lemma heartbeat_signals_total_example:
  "\<exists>sigs. overloaded_agents (\<lambda>_. 0) [AgentId 1]
     (foldl (\<lambda>lt (now, msg). update_from_heartbeat now lt msg) load_tracker_with_defaults
        [(0, \<lparr>hb_from = AgentId 1, hb_sequence = 1, hb_queue_depth = 150, hb_load_factor = NaN\<rparr>)])
     = Some sigs \<and> set (map sig_agent_id sigs) = {AgentId 1}"
proof -
  let ?lt = "foldl (\<lambda>lt (now, msg). update_from_heartbeat now lt msg) load_tracker_with_defaults
        [(0, \<lparr>hb_from = AgentId 1, hb_sequence = 1, hb_queue_depth = 150, hb_load_factor = NaN\<rparr>)]"
  have it: "iterates [AgentId 1] (lt_agents ?lt)"
    by (simp add: iterates_def update_from_heartbeat_def load_update_def Let_def
        load_tracker_with_defaults_def load_tracker_new_def)
  have "{a. is_overloaded ?lt a} = {AgentId 1}"
    by (auto simp: is_overloaded_def load_queue_depth_def update_from_heartbeat_def load_update_def
        Let_def load_tracker_with_defaults_def load_tracker_new_def default_fault_config_def
        split: if_splits option.splits)
  then show ?thesis
    using heartbeat_signals_total [OF refl it [unfolded load_tracker_with_defaults_def]]
    by (simp add: load_tracker_with_defaults_def)
qed

definition slow_agent_msg :: backpressure_msg where
  "slow_agent_msg = \<lparr>bp_from = AgentId 1, bp_queue_depth = 4294967295,
     bp_recommended_rate = Fin (- (2627099782632789 / 1125899906842624)),
     bp_estimated_drain_ms = 0\<rparr>"

text \<open>
  The drain time of a load, its queue over its rate, when the rate is positive: finite but longer than
  a \<open>Duration\<close> holds, or infinite.
\<close>

definition drains_too_long :: "agent_load \<Rightarrow> bool" where
  "drains_too_long l \<longleftrightarrow> 0 < al_processing_rate l
     \<and> (\<exists>x. f64_of_u32 (al_queue_depth l) / al_processing_rate l = Fin x
        \<and> int DURATION_MAX < round_half_even (x * of_nat NANOS_PER_SEC))"

definition never_drains :: "agent_load \<Rightarrow> bool" where
  "never_drains l \<longleftrightarrow> 0 < al_processing_rate l
     \<and> f64_of_u32 (al_queue_depth l) / al_processing_rate l = PInf"

definition known_rate :: "load_tracker \<Rightarrow> agent_id \<Rightarrow> f64" where
  "known_rate lt a = (case lt_agents lt a of Some l \<Rightarrow> al_processing_rate l | None \<Rightarrow> 1)"

lemma f64_of_u32_exact: "f64_of_u32 d = Fin (of_nat (unat d))"
proof -
  have "unat d < 2 ^ 32" using unsigned_less [of d, where 'a = nat] by simp
  then show ?thesis unfolding f64_of_u32_def by (intro f64_of_nat_exact) simp
qed

lemma drain_cases:
  assumes "0 < r"
  obtains x where "f64_of_u32 d / r = Fin x" "0 \<le> x" | "f64_of_u32 d / r = PInf"
proof (cases r)
  case (Fin p)
  then have p: "0 < p" using assms by (simp add: f64_zero_one_Fin)
  have "0 \<le> (of_nat (unat d) :: rat) / p"
    by (rule divide_nonneg_nonneg [OF of_nat_0_le_iff]) (use p in simp)
  from to_f64_mono [OF this] have "Fin 0 \<le> f64_of_u32 d / r"
    using p by (simp add: f64_of_u32_exact Fin to_f64_exact)
  then show ?thesis using that by (cases "f64_of_u32 d / r") auto
next
  case PInf
  then show ?thesis using that(1) [of 0] by (simp add: f64_of_u32_exact)
qed (use assms in \<open>simp_all add: f64_zero_one_Fin\<close>)

lemma from_secs_f64_None:
  "0 \<le> x \<Longrightarrow> from_secs_f64 (Fin x) = None \<longleftrightarrow> int DURATION_MAX < round_half_even (x * of_nat NANOS_PER_SEC)"
  by (simp add: from_secs_f64_def Let_def nat_le_iff not_le)

lemma hour_ok: "from_secs_f64 (to_f64 3600) \<noteq> None"
proof -
  have "to_f64 3600 = Fin 3600" using to_f64_exact [OF exact_of_int, of 3600] by simp
  moreover have "\<exists>t. from_secs_f64 (Fin 3600) = Some t" by (rule from_secs_f64_small) simp_all
  ultimately show ?thesis by auto
qed

lemma load_signal_None:
  "load_signal now lt a = None \<longleftrightarrow> (\<exists>l. lt_agents lt a = Some l
     \<and> load_threshold lt < al_queue_depth l \<and> drains_too_long l)"
proof (cases "lt_agents lt a")
  case None
  then show ?thesis by (simp add: load_signal_def)
next
  case (Some l)
  show ?thesis
  proof (cases "0 < al_processing_rate l")
    case True
    then show ?thesis
      using Some drain_cases [OF True, of "al_queue_depth l"]
      by (cases rule: drain_cases [OF True, of "al_queue_depth l"])
        (auto simp: load_signal_def load_threshold_def drains_too_long_def is_finite_def Let_def
          bind_eq_None_conv from_secs_f64_None not_le)
  next
    case False
    then show ?thesis
      using Some by (simp add: load_signal_def load_threshold_def drains_too_long_def is_finite_def Let_def)
  qed
qed

lemma overloaded_signals_None:
  "overloaded_signals clk i loads = None \<longleftrightarrow>
     (\<exists>(a, l) \<in> set loads. drains_too_long l \<or> never_drains l)"
proof (induction loads arbitrary: i)
  case Nil
  then show ?case by simp
next
  case (Cons e loads)
  obtain a l where e: "e = (a, l)" by (cases e)
  let ?drain = "if 0 < al_processing_rate l
    then f64_of_u32 (al_queue_depth l) / al_processing_rate l else to_f64 3600"
  have "from_secs_f64 ?drain = None \<longleftrightarrow> drains_too_long l \<or> never_drains l"
  proof (cases "0 < al_processing_rate l")
    case True
    then show ?thesis
      by (cases rule: drain_cases [OF True, of "al_queue_depth l"])
        (simp_all add: drains_too_long_def never_drains_def from_secs_f64_None,
          simp add: from_secs_f64_def)
  next
    case False
    then show ?thesis using hour_ok by (simp add: drains_too_long_def never_drains_def)
  qed
  then show ?case
    by (simp only: e overloaded_signals.simps Let_def)
      (simp add: Cons.IH bind_eq_None_conv split: option.split; blast)
qed

lemma overloaded_agents_None:
  assumes "iterates ks (lt_agents lt)"
  shows "overloaded_agents clk ks lt = None \<longleftrightarrow> (\<exists>a l. lt_agents lt a = Some l
     \<and> load_threshold lt < al_queue_depth l \<and> (drains_too_long l \<or> never_drains l))"
  unfolding overloaded_agents_def overloaded_signals_None
  by (auto simp: set_entries [OF assms] load_threshold_def)

text \<open>A rate of at most the queue over \<open>2^65\<close> is too small for a \<open>Duration\<close>.\<close>

lemma tiny_rate_too_slow:
  assumes "al_processing_rate l = Fin p" "0 < p" "p * 2 ^ 65 \<le> of_nat (unat (al_queue_depth l))"
  shows "drains_too_long l \<or> never_drains l"
proof -
  let ?n = "of_nat (unat (al_queue_depth l)) :: rat"
  have pos: "0 < al_processing_rate l" using assms by (simp add: f64_zero_one_Fin)
  have "exact (2 ^ 65)" using exact_grid [of 1 65] by simp
  moreover have "2 ^ 65 \<le> ?n / p" using assms(2,3) by (simp add: le_divide_eq mult.commute)
  ultimately have le: "Fin (2 ^ 65) \<le> f64_of_u32 (al_queue_depth l) / al_processing_rate l"
    using to_f64_mono [of "2 ^ 65" "?n / p"] assms(1,2) by (simp add: f64_of_u32_exact to_f64_exact)
  show ?thesis
  proof (cases rule: drain_cases [OF pos, of "al_queue_depth l"])
    case (1 x)
    then have "2 ^ 65 \<le> x" using le by simp
    then have "of_int (2 ^ 65 * 1000000000) \<le> x * of_nat NANOS_PER_SEC"
      by (simp add: NANOS_PER_SEC_def)
    then have "2 ^ 65 * 1000000000 \<le> round_half_even (x * of_nat NANOS_PER_SEC)"
      by (rule int_le_round_half_even)
    then show ?thesis
      using 1 pos by (simp add: drains_too_long_def DURATION_MAX_def NANOS_PER_SEC_def)
  next
    case 2
    then show ?thesis using pos by (simp add: never_drains_def)
  qed
qed

lemma backpressure_entry:
  "lt_agents (update_from_backpressure now lt msg) (bp_from msg) =
     Some \<lparr>al_queue_depth = bp_queue_depth msg,
       al_processing_rate = smoothed_rate (known_rate lt (bp_from msg)) (bp_recommended_rate msg),
       al_last_updated = now\<rparr>"
  "load_threshold (update_from_backpressure now lt msg) = load_threshold lt"
  by (simp_all add: update_from_backpressure_def load_update_def known_rate_def agent_load_new_def
      load_threshold_def Let_def split: option.split)

text \<open>
  C37. When a query of the load panics: \<open>signal\<close> does so exactly for an agent above the threshold whose
  drain time is finite but longer than a \<open>Duration\<close> holds, \<open>overloaded_agents\<close> exactly when some
  agent above the threshold has such a drain time or an infinite one. The rate that a remote agent
  recommends is averaged in without a check, so that one message is enough: whatever the tracker
  holds, after a backpressure message with a queue \<open>d\<close> above the threshold that brings the average
  down to a positive rate of at most \<open>d / 2^65\<close>, \<open>overloaded_agents\<close> panics, and so does \<open>signal\<close> for
  the sender unless the quotient is infinite.
\<close>

theorem backpressure_message_can_panic:
  assumes "iterates ks (lt_agents lt)"
  shows "(load_signal now lt a = None \<longleftrightarrow> (\<exists>l. lt_agents lt a = Some l
        \<and> load_threshold lt < al_queue_depth l \<and> drains_too_long l))
    \<and> (overloaded_agents clk ks lt = None \<longleftrightarrow> (\<exists>b l. lt_agents lt b = Some l
        \<and> load_threshold lt < al_queue_depth l \<and> (drains_too_long l \<or> never_drains l)))
    \<and> (\<forall>lt0 t msg p. lt = update_from_backpressure t lt0 msg
        \<and> smoothed_rate (known_rate lt0 (bp_from msg)) (bp_recommended_rate msg) = Fin p
        \<and> 0 < p \<and> p * 2 ^ 65 \<le> of_nat (unat (bp_queue_depth msg))
        \<and> load_threshold lt0 < bp_queue_depth msg \<longrightarrow>
        overloaded_agents clk ks lt = None
        \<and> (load_signal now lt (bp_from msg) = None
          \<or> f64_of_u32 (bp_queue_depth msg) / Fin p = PInf))"
proof -
  have panic: "overloaded_agents clk ks lt = None \<and> (load_signal now lt (bp_from msg) = None
      \<or> f64_of_u32 (bp_queue_depth msg) / Fin p = PInf)"
    if lt: "lt = update_from_backpressure t lt0 msg"
      and r: "smoothed_rate (known_rate lt0 (bp_from msg)) (bp_recommended_rate msg) = Fin p"
      and p: "0 < p" "p * 2 ^ 65 \<le> of_nat (unat (bp_queue_depth msg))"
      and d: "load_threshold lt0 < bp_queue_depth msg" for lt0 t msg p
  proof -
    let ?l = "\<lparr>al_queue_depth = bp_queue_depth msg, al_processing_rate = Fin p, al_last_updated = t\<rparr>"
    have l: "lt_agents lt (bp_from msg) = Some ?l" "load_threshold lt < al_queue_depth ?l"
      using backpressure_entry [of t lt0 msg] r d by (simp_all add: lt)
    have "drains_too_long ?l \<or> never_drains ?l" by (rule tiny_rate_too_slow [of _ p]) (use p in simp_all)
    moreover have "never_drains ?l \<Longrightarrow> f64_of_u32 (bp_queue_depth msg) / Fin p = PInf"
      by (simp add: never_drains_def)
    ultimately show ?thesis
      using l unfolding overloaded_agents_None [OF assms] load_signal_None by blast
  qed
  show ?thesis
    by (intro conjI load_signal_None overloaded_agents_None [OF assms] allI impI; elim conjE)
      (rule panic [THEN conjunct1] panic [THEN conjunct2], assumption+)+
qed

text \<open>One message to a fresh tracker brings the rate down to \<open>2^-53\<close>.\<close>

lemma slow_agent_rate: "smoothed_rate 1 (bp_recommended_rate slow_agent_msg) = Fin (1 / 9007199254740992)"
proof -
  have "rnd (14197686722556166969903268425455 / 20282409603651670423947251286016)
      = 6305039478318693 / 9007199254740992"
    using rnd_lit [of "14197686722556166969903268425455 / 20282409603651670423947251286016"
        53 6305039478318693] by simp
  then have p: "to_f64 (- (14197686722556166969903268425455 / 20282409603651670423947251286016))
      = Fin (- (6305039478318693 / 9007199254740992))"
    by (simp add: to_f64_def del: rnd_uminus add: rnd_uminus [of "14197686722556166969903268425455
        / 20282409603651670423947251286016"])
  show ?thesis
    using p to_f64_exact [OF exact_frac, of 1 53] to_f64_exact [OF exact_frac, of 3152519739159347 52]
    by (simp add: smoothed_rate_def slow_agent_msg_def to_f64_lits f64_zero_one_Fin)
qed

theorem backpressure_message_can_panic_witness:
  "load_signal 0 (update_from_backpressure 0 load_tracker_with_defaults slow_agent_msg) (AgentId 1) = None
   \<and> overloaded_agents (\<lambda>_. 0) [AgentId 1]
       (update_from_backpressure 0 load_tracker_with_defaults slow_agent_msg) = None"
proof -
  let ?fresh = load_tracker_with_defaults
  let ?lt = "update_from_backpressure 0 ?fresh slow_agent_msg"
  have it: "iterates [AgentId 1] (lt_agents ?lt)"
    by (simp add: iterates_def update_from_backpressure_def load_update_def slow_agent_msg_def
        load_tracker_with_defaults_def load_tracker_new_def Let_def)
  have k: "known_rate ?fresh (AgentId 1) = 1" "bp_from slow_agent_msg = AgentId 1"
    "unat (bp_queue_depth slow_agent_msg) = 4294967295" "load_threshold ?fresh < bp_queue_depth slow_agent_msg"
    by (simp_all add: known_rate_def load_tracker_with_defaults_def load_tracker_new_def
        slow_agent_msg_def load_threshold_def default_fault_config_def word_less_nat_alt)
  have "f64_of_u32 (bp_queue_depth slow_agent_msg) / Fin (1 / 9007199254740992)
      = Fin (4294967295 * 9007199254740992)"
    using to_f64_exact [OF exact_grid, of 4294967295 53] by (simp add: f64_of_u32_exact k(3))
  then show ?thesis
    using backpressure_message_can_panic [OF it, of 0 "AgentId 1" "\<lambda>_. 0", THEN conjunct2, THEN conjunct2,
        THEN spec, of ?fresh, THEN spec, of 0, THEN spec, of slow_agent_msg, THEN spec,
        of "1 / 9007199254740992"] k slow_agent_rate by simp
qed

end
