(* ===== verification/Registry.thy ===== *)
theory Registry
  imports Atp_Types
begin

text \<open>
  The capability registry of \<open>atp-handshake\<close> (\<open>registry.rs\<close>) and the processing of a probe
  (\<open>probe.rs\<close>): two indexes over the same registrations, one per task type and one per agent.

  The abstract view of a registry is the map from an agent and a task type to the registered
  capability and trust; every operation is an update of that map, and the locale
  \<open>capability_directory\<close> is what the negotiation relies on.
\<close>

record registry_entry =
  re_agent_id :: agent_id
  re_capability :: capability
  re_trust_score :: f64

record capability_registry =
  by_task_type :: "task_type \<rightharpoonup> registry_entry list"
  by_agent :: "agent_id \<rightharpoonup> capability list"

definition registry_new :: capability_registry where
  "registry_new = \<lparr>by_task_type = Map.empty, by_agent = Map.empty\<rparr>"

definition registry_register ::
  "capability_registry \<Rightarrow> agent_id \<Rightarrow> capability \<Rightarrow> f64 \<Rightarrow> capability_registry" where
  "registry_register r a cap trust =
     (let task_type = cap_task_type cap;
          tasks = (case by_task_type r task_type of
              Some es \<Rightarrow> (by_task_type r)(task_type \<mapsto> filter (\<lambda>e. re_agent_id e \<noteq> a) es)
            | None \<Rightarrow> by_task_type r);
          entry = \<lparr>re_agent_id = a, re_capability = cap, re_trust_score = trust\<rparr>;
          tasks = tasks(task_type \<mapsto>
            (case tasks task_type of Some es \<Rightarrow> es | None \<Rightarrow> []) @ [entry]);
          caps = (case by_agent r a of Some cs \<Rightarrow> cs | None \<Rightarrow> []);
          caps = filter (\<lambda>c. cap_task_type c \<noteq> task_type) caps @ [cap]
      in \<lparr>by_task_type = tasks, by_agent = (by_agent r)(a \<mapsto> caps)\<rparr>)"

definition registry_unregister :: "capability_registry \<Rightarrow> agent_id \<Rightarrow> capability_registry" where
  "registry_unregister r a =
     \<lparr>by_task_type = (\<lambda>t. map_option (filter (\<lambda>e. re_agent_id e \<noteq> a)) (by_task_type r t)),
      by_agent = (by_agent r)(a := None)\<rparr>"

definition unregister_capability ::
  "capability_registry \<Rightarrow> agent_id \<Rightarrow> task_type \<Rightarrow> capability_registry" where
  "unregister_capability r a t =
     (let tasks = (case by_task_type r t of
              Some es \<Rightarrow> (by_task_type r)(t \<mapsto> filter (\<lambda>e. re_agent_id e \<noteq> a) es)
            | None \<Rightarrow> by_task_type r);
          agents = (case by_agent r a of
              Some cs \<Rightarrow>
                (let cs' = filter (\<lambda>c. cap_task_type c \<noteq> t) cs
                 in if cs' = [] then (by_agent r)(a := None) else (by_agent r)(a \<mapsto> cs'))
            | None \<Rightarrow> by_agent r)
      in \<lparr>by_task_type = tasks, by_agent = agents\<rparr>)"

definition meets_constraints :: "registry_entry \<Rightarrow> qos_constraints \<Rightarrow> bool" where
  "meets_constraints e q \<longleftrightarrow>
     min_quality q \<le> cap_estimated_quality (re_capability e)
     \<and> cap_estimated_latency (re_capability e) \<le> max_latency q
     \<and> cap_cost_per_task (re_capability e) \<le> max_cost q
     \<and> min_trust q \<le> re_trust_score e"

definition find_capable ::
  "capability_registry \<Rightarrow> task_type \<Rightarrow> qos_constraints \<Rightarrow> registry_entry list" where
  "find_capable r t q =
     sort_by (\<lambda>a b. re_trust_score b < re_trust_score a)
       (case by_task_type r t of
          Some es \<Rightarrow> filter (\<lambda>e. meets_constraints e q) es | None \<Rightarrow> [])"

definition get_agent_capabilities :: "capability_registry \<Rightarrow> agent_id \<Rightarrow> capability list" where
  "get_agent_capabilities r a = (case by_agent r a of Some cs \<Rightarrow> cs | None \<Rightarrow> [])"

definition get_capability ::
  "capability_registry \<Rightarrow> agent_id \<Rightarrow> task_type \<Rightarrow> registry_entry option" where
  "get_capability r a t =
     (case by_task_type r t of
        Some es \<Rightarrow> find (\<lambda>e. re_agent_id e = a) es | None \<Rightarrow> None)"

definition registry_update_trust ::
  "capability_registry \<Rightarrow> agent_id \<Rightarrow> task_type \<Rightarrow> f64 \<Rightarrow> capability_registry" where
  "registry_update_trust r a t new_trust =
     (case by_task_type r t of
        Some es \<Rightarrow> r\<lparr>by_task_type := (by_task_type r)(t \<mapsto>
          map (\<lambda>e. if re_agent_id e = a then e\<lparr>re_trust_score := clamp new_trust 0 1\<rparr> else e) es)\<rparr>
      | None \<Rightarrow> r)"

definition registry_len :: "capability_registry \<Rightarrow> nat" where
  "registry_len r =
     sum_list (map (\<lambda>t. case by_task_type r t of Some es \<Rightarrow> length es | None \<Rightarrow> 0) all_task_types)"

definition registry_is_empty :: "capability_registry \<Rightarrow> bool" where
  "registry_is_empty r \<longleftrightarrow> registry_len r = 0"

definition agent_count :: "capability_registry \<Rightarrow> nat" where
  "agent_count r = card (dom (by_agent r))"

text \<open>\<open>probe.rs\<close>. The nonce is drawn from the random generator: it is an argument.\<close>

definition create_probe ::
  "u64 \<Rightarrow> datetime \<Rightarrow> agent_id \<Rightarrow> task_type \<Rightarrow> qos_constraints \<Rightarrow> context_embedding option \<Rightarrow>
   capability_probe_msg" where
  "create_probe nonce now from t q emb =
     \<lparr>probe_from = from, probe_task_type = t, probe_qos = q, probe_context_embedding = emb,
      probe_nonce = nonce, probe_timestamp = now, probe_signature = []\<rparr>"

record probe_result =
  pr_matching_entries :: "registry_entry list"
  pr_probe_nonce :: u64
  pr_task_type :: task_type
  pr_qos :: qos_constraints

definition process_probe :: "capability_probe_msg \<Rightarrow> capability_registry \<Rightarrow> probe_result" where
  "process_probe p r =
     \<lparr>pr_matching_entries = find_capable r (probe_task_type p) (probe_qos p),
      pr_probe_nonce = probe_nonce p, pr_task_type = probe_task_type p, pr_qos = probe_qos p\<rparr>"

definition capability_matches_probe :: "capability \<Rightarrow> f64 \<Rightarrow> qos_constraints \<Rightarrow> bool" where
  "capability_matches_probe cap trust q \<longleftrightarrow>
     min_quality q \<le> cap_estimated_quality cap
     \<and> cap_estimated_latency cap \<le> max_latency q
     \<and> cap_cost_per_task cap \<le> max_cost q
     \<and> min_trust q \<le> trust"

lemma meets_constraints_matches:
  "meets_constraints e q \<longleftrightarrow> capability_matches_probe (re_capability e) (re_trust_score e) q"
  by (simp add: meets_constraints_def capability_matches_probe_def)

section \<open>The abstract registry\<close>

definition task_entries :: "capability_registry \<Rightarrow> task_type \<Rightarrow> registry_entry list" where
  "task_entries r t = (case by_task_type r t of Some es \<Rightarrow> es | None \<Rightarrow> [])"

definition registered ::
  "capability_registry \<Rightarrow> agent_id \<times> task_type \<rightharpoonup> capability \<times> f64" where
  "registered r = (\<lambda>(a, t). map_option (\<lambda>e. (re_capability e, re_trust_score e))
     (find (\<lambda>e. re_agent_id e = a) (task_entries r t)))"

text \<open>
  The invariant of the two indexes: at most one entry per agent in every task list, each under its
  own task type, and the list of an agent holds exactly its registered capabilities.
\<close>

definition registry_inv :: "capability_registry \<Rightarrow> bool" where
  "registry_inv r \<longleftrightarrow>
     (\<forall>t. distinct (map re_agent_id (task_entries r t))) \<and>
     (\<forall>t. \<forall>e \<in> set (task_entries r t). cap_task_type (re_capability e) = t) \<and>
     (\<forall>a. distinct (map cap_task_type (get_agent_capabilities r a))) \<and>
     (\<forall>a c. c \<in> set (get_agent_capabilities r a) \<longleftrightarrow>
        (\<exists>e \<in> set (task_entries r (cap_task_type c)). re_agent_id e = a \<and> re_capability e = c)) \<and>
     (\<forall>a. by_agent r a \<noteq> Some [])"

lemma registry_invD:
  assumes "registry_inv r"
  shows "distinct (map re_agent_id (task_entries r t))"
    and "e \<in> set (task_entries r t) \<Longrightarrow> cap_task_type (re_capability e) = t"
    and "distinct (map cap_task_type (get_agent_capabilities r a))"
    and "c \<in> set (get_agent_capabilities r a) \<longleftrightarrow>
        (\<exists>e \<in> set (task_entries r (cap_task_type c)). re_agent_id e = a \<and> re_capability e = c)"
    and "by_agent r a \<noteq> Some []"
  using assms unfolding registry_inv_def by blast+

lemma find_agent_entry:
  assumes "distinct (map re_agent_id es)"
  shows "find (\<lambda>e. re_agent_id e = a) es = Some e \<longleftrightarrow> e \<in> set es \<and> re_agent_id e = a"
  using assms by (induction es) (auto simp: rev_image_eqI)

lemma registered_Some:
  assumes "registry_inv r"
  shows "registered r (a, t) = Some (cap, trust) \<longleftrightarrow>
    \<lparr>re_agent_id = a, re_capability = cap, re_trust_score = trust\<rparr> \<in> set (task_entries r t)"
proof -
  let ?e = "\<lparr>re_agent_id = a, re_capability = cap, re_trust_score = trust\<rparr>"
  have "registered r (a, t) = Some (cap, trust) \<longleftrightarrow>
      (\<exists>e. find (\<lambda>e. re_agent_id e = a) (task_entries r t) = Some e \<and>
        re_capability e = cap \<and> re_trust_score e = trust)"
    by (auto simp: registered_def)
  also have "\<dots> \<longleftrightarrow> (\<exists>e. e \<in> set (task_entries r t) \<and> e = ?e)"
    unfolding find_agent_entry [OF registry_invD(1) [OF assms]]
    by (intro ex_cong1) auto
  finally show ?thesis by simp
qed

lemma registry_entry_eta [simp]:
  "\<lparr>re_agent_id = re_agent_id e, re_capability = re_capability e, re_trust_score = re_trust_score e\<rparr>
     = (e :: registry_entry)"
  by simp

lemma task_entries_ops [simp]:
  "task_entries registry_new t = []"
  "task_entries (registry_register r a cap tr) t =
     (if t = cap_task_type cap
      then filter (\<lambda>e. re_agent_id e \<noteq> a) (task_entries r t)
         @ [\<lparr>re_agent_id = a, re_capability = cap, re_trust_score = tr\<rparr>]
      else task_entries r t)"
  "task_entries (registry_unregister r a) t = filter (\<lambda>e. re_agent_id e \<noteq> a) (task_entries r t)"
  "task_entries (unregister_capability r a u) t =
     (if t = u then filter (\<lambda>e. re_agent_id e \<noteq> a) (task_entries r t) else task_entries r t)"
  "task_entries (registry_update_trust r a u x) t =
     (if t = u then map (\<lambda>e. if re_agent_id e = a then e\<lparr>re_trust_score := clamp x 0 1\<rparr> else e)
        (task_entries r t) else task_entries r t)"
  by (auto simp: task_entries_def registry_new_def registry_register_def registry_unregister_def
      unregister_capability_def registry_update_trust_def Let_def split: option.splits)

lemma agent_capabilities_ops [simp]:
  "get_agent_capabilities registry_new b = []"
  "get_agent_capabilities (registry_register r a cap tr) b =
     (if b = a then filter (\<lambda>c. cap_task_type c \<noteq> cap_task_type cap) (get_agent_capabilities r b) @ [cap]
      else get_agent_capabilities r b)"
  "get_agent_capabilities (registry_unregister r a) b =
     (if b = a then [] else get_agent_capabilities r b)"
  "get_agent_capabilities (unregister_capability r a u) b =
     (if b = a then filter (\<lambda>c. cap_task_type c \<noteq> u) (get_agent_capabilities r b)
      else get_agent_capabilities r b)"
  "get_agent_capabilities (registry_update_trust r a u x) b = get_agent_capabilities r b"
  by (auto simp: get_agent_capabilities_def registry_new_def registry_register_def
      registry_unregister_def unregister_capability_def registry_update_trust_def Let_def
      split: option.splits)

lemma by_agent_ops [simp]:
  "by_agent registry_new b = None"
  "by_agent (registry_unregister r a) b = (if b = a then None else by_agent r b)"
  "by_agent (registry_update_trust r a u x) b = by_agent r b"
  "by_agent (registry_register r a cap tr) b \<noteq> Some [] \<longleftrightarrow> b = a \<or> by_agent r b \<noteq> Some []"
  by (auto simp: registry_new_def registry_unregister_def registry_update_trust_def
      registry_register_def Let_def split: option.splits)

lemma distinct_map_filterI: "distinct (map f xs) \<Longrightarrow> distinct (map f (filter P xs))"
  by (simp add: distinct_map_filter)

lemma registry_inv_new [wf_intros]: "registry_inv registry_new"
  by (simp add: registry_inv_def)

lemma registry_inv_register [wf_intros]:
  assumes "registry_inv r"
  shows "registry_inv (registry_register r a cap tr)"
  unfolding registry_inv_def
proof (intro conjI allI ballI)
  note D = registry_invD [OF assms]
  fix t b c e
  show "distinct (map re_agent_id (task_entries (registry_register r a cap tr) t))"
    using D(1) by (auto intro: distinct_map_filterI)
  show "cap_task_type (re_capability e) = t"
    if "e \<in> set (task_entries (registry_register r a cap tr) t)"
    using that D(2) by (auto split: if_splits)
  show "distinct (map cap_task_type (get_agent_capabilities (registry_register r a cap tr) b))"
    using D(3) by (auto intro: distinct_map_filterI)
  show "c \<in> set (get_agent_capabilities (registry_register r a cap tr) b) \<longleftrightarrow>
      (\<exists>e \<in> set (task_entries (registry_register r a cap tr) (cap_task_type c)).
         re_agent_id e = b \<and> re_capability e = c)"
    using D(4) [of c b] by auto
  show "by_agent (registry_register r a cap tr) b \<noteq> Some []"
    using D(5) by simp
qed

lemma registry_inv_unregister [wf_intros]:
  assumes "registry_inv r"
  shows "registry_inv (registry_unregister r a)"
  unfolding registry_inv_def
proof (intro conjI allI ballI)
  note D = registry_invD [OF assms]
  fix t b c e
  show "distinct (map re_agent_id (task_entries (registry_unregister r a) t))"
    using D(1) by (auto intro: distinct_map_filterI)
  show "cap_task_type (re_capability e) = t" if "e \<in> set (task_entries (registry_unregister r a) t)"
    using that D(2) by auto
  show "distinct (map cap_task_type (get_agent_capabilities (registry_unregister r a) b))"
    using D(3) by simp
  show "c \<in> set (get_agent_capabilities (registry_unregister r a) b) \<longleftrightarrow>
      (\<exists>e \<in> set (task_entries (registry_unregister r a) (cap_task_type c)).
         re_agent_id e = b \<and> re_capability e = c)"
    using D(4) [of c b] by auto
  show "by_agent (registry_unregister r a) b \<noteq> Some []" using D(5) by simp
qed

lemma registry_inv_unregister_capability [wf_intros]:
  assumes "registry_inv r"
  shows "registry_inv (unregister_capability r a u)"
  unfolding registry_inv_def
proof (intro conjI allI ballI)
  note D = registry_invD [OF assms]
  fix t b c e
  show "distinct (map re_agent_id (task_entries (unregister_capability r a u) t))"
    using D(1) by (auto intro: distinct_map_filterI)
  show "cap_task_type (re_capability e) = t"
    if "e \<in> set (task_entries (unregister_capability r a u) t)"
    using that D(2) by (auto split: if_splits)
  show "distinct (map cap_task_type (get_agent_capabilities (unregister_capability r a u) b))"
    using D(3) by (auto intro: distinct_map_filterI)
  show "c \<in> set (get_agent_capabilities (unregister_capability r a u) b) \<longleftrightarrow>
      (\<exists>e \<in> set (task_entries (unregister_capability r a u) (cap_task_type c)).
         re_agent_id e = b \<and> re_capability e = c)"
    using D(4) [of c b] by auto
  show "by_agent (unregister_capability r a u) b \<noteq> Some []"
    using D(5) by (auto simp: unregister_capability_def Let_def split: option.splits)
qed

lemma registry_inv_update_trust [wf_intros]:
  assumes "registry_inv r"
  shows "registry_inv (registry_update_trust r a u x)"
  unfolding registry_inv_def
proof (intro conjI allI ballI)
  note D = registry_invD [OF assms]
  let ?f = "\<lambda>e. if re_agent_id e = a then e\<lparr>re_trust_score := clamp x 0 1\<rparr> else e"
  have f: "re_agent_id (?f e) = re_agent_id e" "re_capability (?f e) = re_capability e" for e
    by simp_all
  fix t b c e
  have "map re_agent_id (task_entries (registry_update_trust r a u x) t) =
      map re_agent_id (task_entries r t)"
    by (auto simp: f)
  then show "distinct (map re_agent_id (task_entries (registry_update_trust r a u x) t))"
    using D(1) by simp
  show "cap_task_type (re_capability e) = t"
    if "e \<in> set (task_entries (registry_update_trust r a u x) t)"
    using that D(2) by (auto split: if_splits)
  show "distinct (map cap_task_type (get_agent_capabilities (registry_update_trust r a u x) b))"
    using D(3) by simp
  show "c \<in> set (get_agent_capabilities (registry_update_trust r a u x) b) \<longleftrightarrow>
      (\<exists>e \<in> set (task_entries (registry_update_trust r a u x) (cap_task_type c)).
         re_agent_id e = b \<and> re_capability e = c)"
  proof (cases "cap_task_type c = u")
    case True
    then show ?thesis
      using D(4) [of c b] unfolding task_entries_ops agent_capabilities_ops True
      by (simp only: if_True list.set_map bex_simps f refl)
  next
    case False
    then show ?thesis using D(4) [of c b] by simp
  qed
  show "by_agent (registry_update_trust r a u x) b \<noteq> Some []" using D(5) by simp
qed

section \<open>The directory the negotiation reads\<close>

locale capability_directory =
  fixes offers :: "'r \<Rightarrow> task_type \<Rightarrow> qos_constraints \<Rightarrow> registry_entry list"
    and holds :: "'r \<Rightarrow> agent_id \<times> task_type \<rightharpoonup> capability \<times> f64"
    and valid :: "'r \<Rightarrow> bool"
  assumes offers_iff: "valid r \<Longrightarrow> e \<in> set (offers r t q) \<longleftrightarrow>
      holds r (re_agent_id e, t) = Some (re_capability e, re_trust_score e) \<and> meets_constraints e q"
    and offers_distinct: "valid r \<Longrightarrow> distinct (map re_agent_id (offers r t q))"
    and offers_sorted: "sorted_wrt (\<lambda>e f. \<not> re_trust_score e < re_trust_score f) (offers r t q)"
begin

lemma offers_empty:
  "valid r \<Longrightarrow> offers r t q = [] \<longleftrightarrow>
     (\<forall>a cap trust. holds r (a, t) = Some (cap, trust) \<longrightarrow>
        \<not> capability_matches_probe cap trust q)"
proof
  assume v: "valid r" and "offers r t q = []"
  then have no: "e \<notin> set (offers r t q)" for e by simp
  show "\<forall>a cap trust. holds r (a, t) = Some (cap, trust) \<longrightarrow> \<not> capability_matches_probe cap trust q"
    using no offers_iff [OF v, of "\<lparr>re_agent_id = a, re_capability = c, re_trust_score = s\<rparr>" t q
        for a c s]
    by (auto simp: meets_constraints_matches)
next
  assume v: "valid r" and "\<forall>a cap trust. holds r (a, t) = Some (cap, trust) \<longrightarrow>
      \<not> capability_matches_probe cap trust q"
  then show "offers r t q = []"
    using offers_iff [OF v, of "hd (offers r t q)" t q]
    by (cases "offers r t q") (auto simp: meets_constraints_matches)
qed

lemma offers_mono:
  assumes "valid r" "e \<in> set (offers r t q)" "meets_constraints e q'"
  shows "e \<in> set (offers r t q')"
  using assms by (simp add: offers_iff)

end

interpretation entry_trust: strict_weak_order "\<lambda>a b. re_trust_score b < re_trust_score a"
  "\<lambda>e. re_trust_score e \<noteq> NaN"
  by (rule key_descending)

lemma set_find_capable:
  "set (find_capable r t q) = {e \<in> set (task_entries r t). meets_constraints e q}"
  by (auto simp: find_capable_def task_entries_def split: option.splits)

lemma meets_constraints_not_NaN: "meets_constraints e q \<Longrightarrow> re_trust_score e \<noteq> NaN"
  by (auto simp: meets_constraints_def)

interpretation registry_directory: capability_directory find_capable registered registry_inv
proof unfold_locales
  fix r t q and e :: registry_entry
  show "sorted_wrt (\<lambda>e f. \<not> re_trust_score e < re_trust_score f) (find_capable r t q)"
    unfolding find_capable_def
    by (rule entry_trust.sort_by_sorted)
      (auto simp: meets_constraints_not_NaN split: option.splits)
  assume inv: "registry_inv r"
  show "e \<in> set (find_capable r t q) \<longleftrightarrow>
      registered r (re_agent_id e, t) = Some (re_capability e, re_trust_score e) \<and>
      meets_constraints e q"
    by (auto simp: registered_Some [OF inv] set_find_capable)
  have "distinct (map re_agent_id (filter (\<lambda>e. meets_constraints e q) (task_entries r t)))"
    using registry_invD(1) [OF inv] by (rule distinct_map_filterI)
  moreover have "mset (find_capable r t q) = mset (filter (\<lambda>e. meets_constraints e q) (task_entries r t))"
    by (simp add: find_capable_def task_entries_def split: option.splits)
  ultimately show "distinct (map re_agent_id (find_capable r t q))"
    by (metis mset_eq_imp_distinct_iff mset_map)
qed

section \<open>Refinement of the abstract map\<close>

datatype registry_call =
    Register agent_id capability f64
  | Unregister agent_id
  | UnregisterCapability agent_id task_type
  | UpdateTrust agent_id task_type f64

fun registry_run :: "capability_registry \<Rightarrow> registry_call \<Rightarrow> capability_registry" where
  "registry_run r (Register a cap trust) = registry_register r a cap trust"
| "registry_run r (Unregister a) = registry_unregister r a"
| "registry_run r (UnregisterCapability a t) = unregister_capability r a t"
| "registry_run r (UpdateTrust a t x) = registry_update_trust r a t x"

fun directory_run ::
  "(agent_id \<times> task_type \<rightharpoonup> capability \<times> f64) \<Rightarrow> registry_call \<Rightarrow>
   (agent_id \<times> task_type \<rightharpoonup> capability \<times> f64)" where
  "directory_run m (Register a cap trust) = m((a, cap_task_type cap) \<mapsto> (cap, trust))"
| "directory_run m (Unregister a) = (\<lambda>(b, t). if b = a then None else m (b, t))"
| "directory_run m (UnregisterCapability a t) = m((a, t) := None)"
| "directory_run m (UpdateTrust a t x) =
     m((a, t) := map_option (\<lambda>(cap, _). (cap, clamp x 0 1)) (m (a, t)))"

lemma registry_run_inv [wf_intros]: "registry_inv r \<Longrightarrow> registry_inv (registry_run r e)"
  by (cases e) (auto intro: wf_intros)

lemma find_filter_agent:
  "find (\<lambda>e. re_agent_id e = b) (filter (\<lambda>e. re_agent_id e \<noteq> a) es) =
     (if b = a then None else find (\<lambda>e. re_agent_id e = b) es)"
  by (induction es) auto

lemma find_append:
  "find P (xs @ ys) = (case find P xs of None \<Rightarrow> find P ys | Some x \<Rightarrow> Some x)"
  by (induction xs) auto

lemma find_map_agent:
  "find (\<lambda>e. re_agent_id e = b)
     (map (\<lambda>e. if re_agent_id e = a then e\<lparr>re_trust_score := x\<rparr> else e) es) =
   map_option (\<lambda>e. if re_agent_id e = a then e\<lparr>re_trust_score := x\<rparr> else e)
     (find (\<lambda>e. re_agent_id e = b) es)"
  by (induction es) auto

lemma find_agent_id: "find (\<lambda>e. re_agent_id e = b) es = Some e \<Longrightarrow> re_agent_id e = b"
  by (induction es) (auto split: if_splits)

lemma registered_run: "registered (registry_run r e) = directory_run (registered r) e"
proof
  fix k :: "agent_id \<times> task_type"
  obtain b u where k: "k = (b, u)" by (cases k)
  show "registered (registry_run r e) k = directory_run (registered r) e k"
  proof (cases e)
    case (UpdateTrust a t x)
    then show ?thesis
      by (auto simp: k registered_def find_map_agent option.map_comp comp_def
          intro!: map_option_cong dest: find_agent_id)
  qed (auto simp: k registered_def find_filter_agent find_append split: option.splits)
qed

section \<open>Properties\<close>

text \<open>
  C13. The registry refines a map from agents and task types to registrations: after any sequence
  of registrations, removals and trust updates, what is registered is what the map holds under the
  same updates, \<open>get_capability\<close> reads it, and the two indexes agree (every agent's list holds
  exactly its registered capabilities, one per task type).
\<close>

theorem registry_refines_map:
  fixes es :: "registry_call list"
  defines "r \<equiv> foldl registry_run registry_new es"
  defines "m \<equiv> foldl directory_run Map.empty es"
  shows "registered r = m \<and> registry_inv r
    \<and> map_option (\<lambda>e. (re_capability e, re_trust_score e)) (get_capability r a t) = m (a, t)
    \<and> c \<in> set (get_agent_capabilities r a) = (\<exists>x. m (a, cap_task_type c) = Some (c, x))"
proof -
  have inv: "registry_inv (foldl registry_run r0 es)" if "registry_inv r0" for r0
    using that by (induction es arbitrary: r0) (auto intro: wf_intros)
  have reg: "registered (foldl registry_run r0 es) = foldl directory_run (registered r0) es" for r0
    by (induction es arbitrary: r0) (simp_all add: registered_run)
  have "registered registry_new = Map.empty" by (auto simp: registered_def)
  then have m: "registered r = m" and i: "registry_inv r"
    using reg [of registry_new] inv [OF registry_inv_new] by (simp_all add: r_def m_def)
  have g: "map_option (\<lambda>e. (re_capability e, re_trust_score e)) (get_capability r a t) = m (a, t)"
    unfolding m [symmetric]
    by (simp add: get_capability_def registered_def task_entries_def split: option.splits)
  have "c \<in> set (get_agent_capabilities r a) = (\<exists>x. m (a, cap_task_type c) = Some (c, x))"
    unfolding m [symmetric] registered_Some [OF i] registry_invD(4) [OF i, of c]
    by (metis registry_entry.select_convs registry_entry.surjective old.unit.exhaust)
  then show ?thesis using m i g by simp
qed

text \<open>
  C24. \<open>find_capable\<close> answers with exactly the registrations that meet the constraints, one per
  agent, the most trusted first; processing a probe returns that answer under the probe's nonce, with
  the task type and the constraints it was asked for.
\<close>

theorem find_capable_correct:
  assumes "registry_inv r"
  shows "set (find_capable r t q) = {e. registered r (re_agent_id e, t) =
        Some (re_capability e, re_trust_score e) \<and>
        capability_matches_probe (re_capability e) (re_trust_score e) q}
    \<and> distinct (map re_agent_id (find_capable r t q))
    \<and> sorted_wrt (\<lambda>e f. re_trust_score f \<le> re_trust_score e) (find_capable r t q)
    \<and> process_probe (create_probe n now from t q emb) r =
        \<lparr>pr_matching_entries = find_capable r t q, pr_probe_nonce = n, pr_task_type = t, pr_qos = q\<rparr>"
proof -
  have "sorted_wrt (\<lambda>e f. re_trust_score f \<le> re_trust_score e) (find_capable r t q)"
  proof (rule sorted_wrt_mono_rel [OF _ registry_directory.offers_sorted])
    fix e f assume "e \<in> set (find_capable r t q)" "f \<in> set (find_capable r t q)"
      "\<not> re_trust_score e < re_trust_score f"
    then show "re_trust_score f \<le> re_trust_score e"
      by (auto simp: set_find_capable f64_not_less dest!: meets_constraints_not_NaN)
  qed
  then show ?thesis
    using registry_directory.offers_iff [OF assms] registry_directory.offers_distinct [OF assms]
    by (auto simp: meets_constraints_matches process_probe_def create_probe_def)
qed

definition registry_example :: capability_registry where
  "registry_example = registry_register (registry_register registry_new (AgentId 1)
     \<lparr>cap_task_type = Analysis, cap_estimated_quality = 1, cap_estimated_latency = 5,
      cap_cost_per_task = 0\<rparr> 0) (AgentId 2)
     \<lparr>cap_task_type = Analysis, cap_estimated_quality = 1, cap_estimated_latency = 5,
      cap_cost_per_task = 0\<rparr> 1"

theorem find_capable_correct_witness:
  "map re_agent_id (find_capable registry_example Analysis
     \<lparr>min_quality = 1, max_latency = 5, max_cost = 0, min_trust = 0\<rparr>) = [AgentId 2, AgentId 1]
   \<and> distinct (map re_agent_id (find_capable registry_example Analysis
     \<lparr>min_quality = 1, max_latency = 5, max_cost = 0, min_trust = 0\<rparr>))"
proof -
  have "registry_inv registry_example"
    by (simp add: registry_example_def wf_intros)
  note c = find_capable_correct [OF this, of Analysis
      "\<lparr>min_quality = 1, max_latency = 5, max_cost = 0, min_trust = 0\<rparr>" 0 0 "AgentId 3" None]
  have "map re_agent_id (find_capable registry_example Analysis
     \<lparr>min_quality = 1, max_latency = 5, max_cost = 0, min_trust = 0\<rparr>) = [AgentId 2, AgentId 1]"
    by (simp add: find_capable_def registry_example_def registry_register_def registry_new_def
        meets_constraints_def f64_zero_one_Fin sort_by_def Let_def)
  with c show ?thesis by simp
qed

end
