(* ===== verification/Offer.thy ===== *)
theory Offer
  imports Registry
begin

text \<open>
  Offers of \<open>atp-handshake\<close> (\<open>offer.rs\<close>): their creation, the weighted score, the ranking and the
  expiry test. Adding the time to live to an instant may leave the range of \<open>DateTime\<close>, which
  panics.
\<close>

definition create_offer ::
  "datetime \<Rightarrow> agent_id \<Rightarrow> capability_probe_msg \<Rightarrow> capability \<Rightarrow> f64 \<Rightarrow> duration \<Rightarrow>
   capability_offer_msg" where
  "create_offer now from probe cap trust ttl =
     \<lparr>offer_from = from, offer_in_reply_to = probe_nonce probe, offer_capability = cap,
      offer_trust_score = trust, offer_trust_proof = [], offer_ttl = ttl, offer_timestamp = now,
      offer_signature = []\<rparr>"

definition DEFAULT_OFFER_TTL :: duration where
  "DEFAULT_OFFER_TTL = from_secs 5"

record offer_weights =
  ow_quality :: f64
  ow_latency :: f64
  ow_cost :: f64
  ow_trust :: f64

definition default_offer_weights :: offer_weights where
  "default_offer_weights = \<lparr>ow_quality = to_f64 (35 / 100), ow_latency = to_f64 (20 / 100),
     ow_cost = to_f64 (15 / 100), ow_trust = to_f64 (30 / 100)\<rparr>"

record ranked_offer =
  ro_offer :: capability_offer_msg
  ro_score :: f64

record offer_ranker =
  or_weights :: offer_weights
  or_max_latency :: duration
  or_max_cost :: f64

definition offer_ranker_new :: "offer_weights \<Rightarrow> duration \<Rightarrow> f64 \<Rightarrow> offer_ranker" where
  "offer_ranker_new w max_lat max_c =
     \<lparr>or_weights = w, or_max_latency = max_lat, or_max_cost = max_c\<rparr>"

definition offer_ranker_from_defaults :: "duration \<Rightarrow> f64 \<Rightarrow> offer_ranker" where
  "offer_ranker_from_defaults max_lat max_c =
     \<lparr>or_weights = default_offer_weights, or_max_latency = max_lat, or_max_cost = max_c\<rparr>"

definition offer_lat_score :: "offer_ranker \<Rightarrow> capability_offer_msg \<Rightarrow> f64" where
  "offer_lat_score rk ofr =
     (let max_lat_secs = as_secs_f64 (or_max_latency rk)
      in if 0 < max_lat_secs
         then clamp (1 - as_secs_f64 (cap_estimated_latency (offer_capability ofr)) / max_lat_secs) 0 1
         else 1)"

definition offer_cost_score :: "offer_ranker \<Rightarrow> capability_offer_msg \<Rightarrow> f64" where
  "offer_cost_score rk ofr =
     (if 0 < or_max_cost rk
      then clamp (1 - cap_cost_per_task (offer_capability ofr) / or_max_cost rk) 0 1
      else 1)"

definition offer_score :: "offer_ranker \<Rightarrow> capability_offer_msg \<Rightarrow> f64" where
  "offer_score rk ofr =
     (let w = or_weights rk;
          q = clamp (cap_estimated_quality (offer_capability ofr)) 0 1;
          lat_score = offer_lat_score rk ofr;
          cost_score = offer_cost_score rk ofr;
          t = clamp (offer_trust_score ofr) 0 1
      in ow_quality w * q + ow_latency w * lat_score + ow_cost w * cost_score + ow_trust w * t)"

definition offer_rank :: "offer_ranker \<Rightarrow> capability_offer_msg list \<Rightarrow> ranked_offer list" where
  "offer_rank rk os =
     sort_by (\<lambda>a b. ro_score b < ro_score a)
       (map (\<lambda>ofr. \<lparr>ro_offer = ofr, ro_score = offer_score rk ofr\<rparr>) os)"

definition rank_offers ::
  "capability_offer_msg list \<Rightarrow> duration \<Rightarrow> f64 \<Rightarrow> ranked_offer list" where
  "rank_offers os max_lat max_c = offer_rank (offer_ranker_from_defaults max_lat max_c) os"

definition is_offer_expired ::
  "chrono \<Rightarrow> datetime \<Rightarrow> capability_offer_msg \<Rightarrow> bool option" where
  "is_offer_expired c now ofr = do {
     expires_at \<leftarrow> dt_add c (offer_timestamp ofr)
       (case td_from_std c (offer_ttl ofr) of Some t \<Rightarrow> t | None \<Rightarrow> 0);
     Some (expires_at < now)
   }"

section \<open>The score\<close>

interpretation offer_order: strict_weak_order "\<lambda>a b. ro_score b < ro_score a"
  "\<lambda>r. ro_score r \<noteq> NaN"
  by (rule key_descending)

text \<open>An offer whose numbers are comparable: no NaN, and a cost that is a number.\<close>

definition offer_ok :: "capability_offer_msg \<Rightarrow> bool" where
  "offer_ok ofr \<longleftrightarrow> cap_estimated_quality (offer_capability ofr) \<noteq> NaN \<and> offer_trust_score ofr \<noteq> NaN
     \<and> is_finite (cap_cost_per_task (offer_capability ofr))
     \<and> cap_estimated_latency (offer_capability ofr) div NANOS_PER_SEC \<le> 2 ^ 53"

definition ranker_ok :: "offer_ranker \<Rightarrow> bool" where
  "ranker_ok rk \<longleftrightarrow> or_weights rk = default_offer_weights \<and> is_finite (or_max_cost rk)
     \<and> or_max_latency rk div NANOS_PER_SEC \<le> 2 ^ 53"

text \<open>\<open>a\<close> is at least as good as \<open>b\<close> in all four dimensions.\<close>

definition offer_dominates :: "capability_offer_msg \<Rightarrow> capability_offer_msg \<Rightarrow> bool" where
  "offer_dominates a b \<longleftrightarrow>
     cap_estimated_quality (offer_capability b) \<le> cap_estimated_quality (offer_capability a)
     \<and> cap_estimated_latency (offer_capability a) \<le> cap_estimated_latency (offer_capability b)
     \<and> cap_cost_per_task (offer_capability a) \<le> cap_cost_per_task (offer_capability b)
     \<and> offer_trust_score b \<le> offer_trust_score a"

lemma default_weights:
  "ow_quality default_offer_weights = Fin (3152519739159347 / 9007199254740992)"
  "ow_latency default_offer_weights = Fin (3602879701896397 / 18014398509481984)"
  "ow_cost default_offer_weights = Fin (5404319552844595 / 36028797018963968)"
  "ow_trust default_offer_weights = Fin (5404319552844595 / 18014398509481984)"
  using to_f64_lit [of "7 / 20" 54 6305039478318694] to_f64_lit [of "3 / 20" 55 5404319552844595]
  by (simp_all add: default_offer_weights_def to_f64_lits)

lemma default_weights_ok:
  "0 \<le> ow_quality default_offer_weights" "is_finite (ow_quality default_offer_weights)"
  "0 \<le> ow_latency default_offer_weights" "is_finite (ow_latency default_offer_weights)"
  "0 \<le> ow_cost default_offer_weights" "is_finite (ow_cost default_offer_weights)"
  "0 \<le> ow_trust default_offer_weights" "is_finite (ow_trust default_offer_weights)"
  by (simp_all add: default_weights f64_zero_one_Fin is_finite_def)

text \<open>The weights add up to exactly one, also after rounding.\<close>

definition weighted_sum :: "f64 \<Rightarrow> f64 \<Rightarrow> f64 \<Rightarrow> f64 \<Rightarrow> f64" where
  "weighted_sum q l c t = ow_quality default_offer_weights * q + ow_latency default_offer_weights * l
     + ow_cost default_offer_weights * c + ow_trust default_offer_weights * t"

lemma weighted_sum_one: "weighted_sum 1 1 1 1 = 1"
proof -
  have w: "to_f64 (3152519739159347 / 9007199254740992) = Fin (3152519739159347 / 9007199254740992)"
    "to_f64 (3602879701896397 / 18014398509481984) = Fin (3602879701896397 / 18014398509481984)"
    "to_f64 (5404319552844595 / 36028797018963968) = Fin (5404319552844595 / 36028797018963968)"
    "to_f64 (5404319552844595 / 18014398509481984) = Fin (5404319552844595 / 18014398509481984)"
    using to_f64_exact [OF exact_frac, of 3152519739159347 53]
      to_f64_exact [OF exact_frac, of 3602879701896397 54]
      to_f64_exact [OF exact_frac, of 5404319552844595 55]
      to_f64_exact [OF exact_frac, of 5404319552844595 54] by simp_all
  have s: "to_f64 (9907919180215091 / 18014398509481984) = Fin (4953959590107546 / 9007199254740992)"
    "to_f64 (25220157913274779 / 36028797018963968) = Fin (6305039478318695 / 9007199254740992)"
    "to_f64 (18014398509481985 / 18014398509481984) = Fin 1"
    using to_f64_lit [of "9907919180215091 / 18014398509481984" 53 4953959590107546]
      to_f64_lit [of "25220157913274779 / 36028797018963968" 53 6305039478318695]
      to_f64_lit [of "18014398509481985 / 18014398509481984" 52 4503599627370496] by simp_all
  show ?thesis by (simp add: weighted_sum_def default_weights f64_zero_one_Fin w s)
qed

lemma weighted_sum_mono:
  assumes "unit_f64 q" "unit_f64 l" "unit_f64 c" "unit_f64 t"
    and "unit_f64 q'" "unit_f64 l'" "unit_f64 c'" "unit_f64 t'"
    and "q \<le> q'" "l \<le> l'" "c \<le> c'" "t \<le> t'"
  shows "0 \<le> weighted_sum q l c t \<and> weighted_sum q l c t \<le> weighted_sum q' l' c' t'"
  unfolding weighted_sum_def
  using assms by (intro conjI plus_mono_nonneg nonneg_plus times_unit_mono times_unit_nonneg
      default_weights_ok)

lemma is_finite_conv: "is_finite x \<longleftrightarrow> (\<exists>a. x = Fin a)"
  by (cases x) (auto simp: is_finite_def)

lemma lat_score_unit:
  assumes "ranker_ok rk" "offer_ok ofr"
  shows "unit_f64 (offer_lat_score rk ofr)"
proof (cases "0 < as_secs_f64 (or_max_latency rk)")
  case True
  obtain a b where "as_secs_f64 (or_max_latency rk) = Fin a"
    "as_secs_f64 (cap_estimated_latency (offer_capability ofr)) = Fin b"
    using as_secs_f64_finite [of "or_max_latency rk"]
      as_secs_f64_finite [of "cap_estimated_latency (offer_capability ofr)"] assms
    unfolding ranker_ok_def offer_ok_def is_finite_conv by blast
  then show ?thesis
    using True by (auto simp: offer_lat_score_def f64_zero_one_Fin minus_f64_def Let_def
        intro!: clamp_unit [unfolded f64_zero_one_Fin])
      (cases "to_f64 (b / a)"; simp)
qed (simp add: offer_lat_score_def)

lemma cost_score_unit:
  assumes "ranker_ok rk" "offer_ok ofr"
  shows "unit_f64 (offer_cost_score rk ofr)"
proof (cases "0 < or_max_cost rk")
  case True
  obtain a b where "or_max_cost rk = Fin a" "cap_cost_per_task (offer_capability ofr) = Fin b"
    using assms unfolding ranker_ok_def offer_ok_def is_finite_conv by blast
  then show ?thesis
    using True by (auto simp: offer_cost_score_def f64_zero_one_Fin minus_f64_def
        intro!: clamp_unit [unfolded f64_zero_one_Fin])
      (cases "to_f64 (b / a)"; simp)
qed (simp add: offer_cost_score_def)

lemma offer_score_sum:
  "or_weights rk = default_offer_weights \<Longrightarrow> offer_score rk ofr =
     weighted_sum (clamp (cap_estimated_quality (offer_capability ofr)) 0 1) (offer_lat_score rk ofr)
       (offer_cost_score rk ofr) (clamp (offer_trust_score ofr) 0 1)"
  by (simp add: offer_score_def weighted_sum_def Let_def)

lemma lat_score_antimono:
  assumes "ranker_ok rk" "offer_ok a" "offer_ok b"
    and "cap_estimated_latency (offer_capability a) \<le> cap_estimated_latency (offer_capability b)"
  shows "offer_lat_score rk b \<le> offer_lat_score rk a"
  using assms
  by (auto simp: offer_lat_score_def Let_def ranker_ok_def offer_ok_def f64_le_refl
      intro!: clamp_mono one_minus_antimono div_mono as_secs_f64_mono as_secs_f64_finite)

lemma cost_score_antimono:
  assumes "ranker_ok rk" "offer_ok a" "offer_ok b"
    and "cap_cost_per_task (offer_capability a) \<le> cap_cost_per_task (offer_capability b)"
  shows "offer_cost_score rk b \<le> offer_cost_score rk a"
  using assms
  by (auto simp: offer_cost_score_def ranker_ok_def f64_le_refl
      intro!: clamp_mono one_minus_antimono div_mono)

lemma unit_le_one: "unit_f64 x \<Longrightarrow> x \<le> 1"
  by (simp add: unit_f64_def)

lemma offer_score_bounds:
  assumes "ranker_ok rk" "offer_ok ofr"
  shows "unit_f64 (offer_score rk ofr)"
proof -
  have u: "unit_f64 (clamp (cap_estimated_quality (offer_capability ofr)) 0 1)"
    "unit_f64 (clamp (offer_trust_score ofr) 0 1)"
    using assms by (auto simp: offer_ok_def intro: clamp_unit)
  note L = lat_score_unit [OF assms] cost_score_unit [OF assms]
  have "0 \<le> offer_score rk ofr \<and> offer_score rk ofr \<le> weighted_sum 1 1 1 1"
    using assms(1) offer_score_sum [of rk ofr]
      weighted_sum_mono [OF u(1) L u(2), of 1 1 1 1] u L
    by (simp add: ranker_ok_def unit_le_one)
  then show ?thesis by (simp add: weighted_sum_one unit_f64_def)
qed

lemma offer_score_mono:
  assumes "ranker_ok rk" "offer_ok a" "offer_ok b" "offer_dominates a b"
  shows "offer_score rk b \<le> offer_score rk a"
proof -
  have u: "unit_f64 (clamp (cap_estimated_quality (offer_capability ofr)) 0 1)"
    "unit_f64 (clamp (offer_trust_score ofr) 0 1)" if "offer_ok ofr" for ofr
    using that by (auto simp: offer_ok_def intro: clamp_unit)
  show ?thesis
    using assms offer_score_sum [of rk]
      weighted_sum_mono [OF u(1) lat_score_unit cost_score_unit u(2) u(1) lat_score_unit
        cost_score_unit u(2)]
      lat_score_antimono [OF assms(1-3)] cost_score_antimono [OF assms(1-3)] clamp_mono
    by (simp add: ranker_ok_def offer_dominates_def)
qed

lemma rank_offers_mset:
  "image_mset ro_offer (mset (rank_offers os l c)) = mset os"
  by (simp add: rank_offers_def offer_rank_def comp_def flip: mset_map)

section \<open>Properties\<close>

text \<open>
  The composite score of an offer whose numbers are comparable lies in the unit interval (the
  default weights add up to one also in binary64), and an offer that is at least as good in
  quality, latency, cost and trust never scores lower.
\<close>

lemma offer_score_correct:
  assumes "rk = offer_ranker_from_defaults max_lat max_c"
    and "is_finite max_c" and "max_lat div NANOS_PER_SEC \<le> 2 ^ 53"
    and "offer_ok a" and "offer_ok b"
  shows "0 \<le> offer_score rk a \<and> offer_score rk a \<le> 1 \<and>
    (offer_dominates a b \<longrightarrow> offer_score rk b \<le> offer_score rk a)"
proof -
  have rk: "ranker_ok rk"
    using assms(1-3) by (simp add: ranker_ok_def offer_ranker_from_defaults_def)
  show ?thesis
    using offer_score_bounds [OF rk assms(4)] offer_score_mono [OF rk assms(4,5)]
    by (simp add: unit_f64_def)
qed

definition offer_example :: "nat \<Rightarrow> capability_offer_msg" where
  "offer_example lat = create_offer 0 (AgentId 1)
     (create_probe 7 0 (AgentId 9) Analysis default_qos None)
     \<lparr>cap_task_type = Analysis, cap_estimated_quality = 1, cap_estimated_latency = lat,
      cap_cost_per_task = 0\<rparr> 1 DEFAULT_OFFER_TTL"

lemma offer_score_correct_example:
  "0 \<le> offer_score (offer_ranker_from_defaults 10 1) (offer_example 1) \<and>
   offer_score (offer_ranker_from_defaults 10 1) (offer_example 2)
     \<le> offer_score (offer_ranker_from_defaults 10 1) (offer_example 1)"
proof -
  have ok: "offer_ok (offer_example 1)" "offer_ok (offer_example 2)"
    by (simp_all add: offer_ok_def offer_example_def create_offer_def is_finite_def
        f64_zero_one_Fin NANOS_PER_SEC_def)
  have d: "offer_dominates (offer_example 1) (offer_example 2)"
    by (simp add: offer_dominates_def offer_example_def create_offer_def f64_zero_one_Fin)
  show ?thesis
    using offer_score_correct [OF refl _ _ ok, of 1 10] d
    by (simp add: is_finite_def f64_zero_one_Fin NANOS_PER_SEC_def)
qed

text \<open>
  C25. Ranking offers whose numbers are comparable (quality and trust are not NaN, the cost is
  finite, the latency is at most \<open>2^53\<close> seconds), against a finite cost and a latency bound of at most
  \<open>2^53\<close> seconds, returns every offer with its score, the best first: no offer scores more than one
  ranked before it, so the first one has the highest score of all.
\<close>

theorem rank_offers_correct:
  assumes "\<forall>ofr \<in> set os. offer_ok ofr" and "is_finite max_c" and "max_lat div NANOS_PER_SEC \<le> 2 ^ 53"
  shows "mset (map ro_offer (rank_offers os max_lat max_c)) = mset os
    \<and> (\<forall>r \<in> set (rank_offers os max_lat max_c).
         ro_score r = offer_score (offer_ranker_from_defaults max_lat max_c) (ro_offer r))
    \<and> sorted_wrt (\<lambda>r s. ro_score s \<le> ro_score r) (rank_offers os max_lat max_c)"
proof -
  let ?rk = "offer_ranker_from_defaults max_lat max_c"
  let ?rs = "map (\<lambda>ofr. \<lparr>ro_offer = ofr, ro_score = offer_score ?rk ofr\<rparr>) os"
  have rk: "ranker_ok ?rk"
    using assms(2,3) by (simp add: ranker_ok_def offer_ranker_from_defaults_def)
  have nn: "\<forall>r \<in> set ?rs. ro_score r \<noteq> NaN"
    using offer_score_bounds [OF rk] assms(1) by (auto dest: unit_f64_not_NaN)
  have "sorted_wrt (\<lambda>r s. ro_score s \<le> ro_score r) (sort_by (\<lambda>a b. ro_score b < ro_score a) ?rs)"
    by (rule sorted_wrt_mono_rel [OF _ offer_order.sort_by_sorted [OF nn]])
      (use nn in \<open>auto simp: f64_not_less\<close>)
  then show ?thesis
    using rank_offers_mset [of os max_lat max_c] by (auto simp: rank_offers_def offer_rank_def)
qed

theorem rank_offers_correct_witness:
  "mset (map ro_offer (rank_offers [offer_example 2, offer_example 1] 10 1))
     = {#offer_example 1, offer_example 2#}"
  using rank_offers_correct [of "[offer_example 2, offer_example 1]" 1 10]
  by (simp add: offer_ok_def offer_example_def create_offer_def is_finite_def
      f64_zero_one_Fin NANOS_PER_SEC_def add_mset_commute)

end
