(* ===== verification/Handshake.thy ===== *)
theory Handshake
  imports Offer
begin

text \<open>
  The handshake of \<open>atp-handshake\<close>: the state machine and the contract (\<open>contract.rs\<close>) and the
  negotiation loop with its relaxation of the constraints (\<open>negotiation.rs\<close>).

  What the negotiation reads from outside is a \<open>handshake_env\<close>: for each attempt, counted from
  one, the nonce of the probe, the successive clock readings and the identifier drawn for a
  contract; and the text of an agent identifier, which the \<open>uuid\<close> crate prints.
\<close>

datatype handshake_state = Idle | ProbeSent | OffersReceived | Contracted | Failed

fun show_handshake_state :: "handshake_state \<Rightarrow> string" where
  "show_handshake_state Idle = ''Idle''"
| "show_handshake_state ProbeSent = ''ProbeSent''"
| "show_handshake_state OffersReceived = ''OffersReceived''"
| "show_handshake_state Contracted = ''Contracted''"
| "show_handshake_state Failed = ''Failed''"

record handshake_machine =
  hsm_state :: handshake_state
  hsm_contract_id :: "uuid option"
  hsm_selected_agent :: "agent_id option"

definition handshake_machine_new :: handshake_machine where
  "handshake_machine_new = \<lparr>hsm_state = Idle, hsm_contract_id = None, hsm_selected_agent = None\<rparr>"

definition invalid_transition :: "handshake_machine \<Rightarrow> string \<Rightarrow> (handshake_error + unit)" where
  "invalid_transition sm to = Inl (InvalidTransition (show_handshake_state (hsm_state sm)) to)"

definition on_probe_sent :: "handshake_machine \<Rightarrow> (handshake_error + unit) \<times> handshake_machine" where
  "on_probe_sent sm =
     (case hsm_state sm of
        Idle \<Rightarrow> (Inr (), sm\<lparr>hsm_state := ProbeSent\<rparr>)
      | _ \<Rightarrow> (invalid_transition sm ''ProbeSent'', sm))"

definition on_offers_received ::
  "handshake_machine \<Rightarrow> (handshake_error + unit) \<times> handshake_machine" where
  "on_offers_received sm =
     (case hsm_state sm of
        ProbeSent \<Rightarrow> (Inr (), sm\<lparr>hsm_state := OffersReceived\<rparr>)
      | _ \<Rightarrow> (invalid_transition sm ''OffersReceived'', sm))"

definition on_contract_accepted ::
  "handshake_machine \<Rightarrow> uuid \<Rightarrow> agent_id \<Rightarrow> (handshake_error + unit) \<times> handshake_machine" where
  "on_contract_accepted sm cid agent =
     (case hsm_state sm of
        OffersReceived \<Rightarrow> (Inr (), sm\<lparr>hsm_state := Contracted, hsm_contract_id := Some cid,
                                  hsm_selected_agent := Some agent\<rparr>)
      | _ \<Rightarrow> (invalid_transition sm ''Contracted'', sm))"

definition on_failure :: "handshake_machine \<Rightarrow> (handshake_error + unit) \<times> handshake_machine" where
  "on_failure sm =
     (if hsm_state sm = Contracted \<or> hsm_state sm = Failed
      then (invalid_transition sm ''Failed'', sm)
      else (Inr (), sm\<lparr>hsm_state := Failed\<rparr>))"

definition reset_for_retry :: "handshake_machine \<Rightarrow> (handshake_error + unit) \<times> handshake_machine" where
  "reset_for_retry sm =
     (if hsm_state sm = ProbeSent \<or> hsm_state sm = OffersReceived
      then (Inr (), sm\<lparr>hsm_state := Idle, hsm_contract_id := None, hsm_selected_agent := None\<rparr>)
      else (invalid_transition sm ''Idle'', sm))"

definition handshake_is_terminal :: "handshake_machine \<Rightarrow> bool" where
  "handshake_is_terminal sm \<longleftrightarrow> hsm_state sm = Contracted \<or> hsm_state sm = Failed"

record handshake_env =
  he_nonce :: "nat \<Rightarrow> u64"
  he_clock :: "nat \<Rightarrow> nat \<Rightarrow> datetime"
  he_uuid :: "nat \<Rightarrow> uuid"
  he_show :: "agent_id \<Rightarrow> string"

definition create_contract ::
  "chrono \<Rightarrow> uuid \<Rightarrow> datetime \<Rightarrow> (agent_id \<Rightarrow> string) \<Rightarrow> agent_id \<Rightarrow> ranked_offer \<Rightarrow>
   qos_constraints \<Rightarrow> duration \<Rightarrow> contract_accept_msg option" where
  "create_contract c new_uuid now show_agent from best q dur =
     (let cap = offer_capability (ro_offer best);
          agreed = \<lparr>min_quality = f64_min (cap_estimated_quality cap) (min_quality q),
                    max_latency = max (cap_estimated_latency cap) (max_latency q),
                    max_cost = f64_max (cap_cost_per_task cap) (max_cost q),
                    min_trust = f64_min (offer_trust_score (ro_offer best)) (min_trust q)\<rparr>
      in do {
        expires_at \<leftarrow> dt_add c now (from_std_or_secs c 30 dur);
        Some \<lparr>contract_from = from, contract_to = offer_from (ro_offer best),
              contract_agreed_qos = agreed,
              contract_context_plan = ''direct-'' @ show_agent (offer_from (ro_offer best)),
              contract_id = new_uuid, contract_expires_at = expires_at,
              contract_timestamp = now, contract_signature = []\<rparr>
      })"

record handshake_outcome =
  ho_contract :: contract_accept_msg
  ho_selected_offer :: ranked_offer
  ho_attempts :: u32
  ho_effective_qos :: qos_constraints

record handshake_coordinator =
  hc_requester :: agent_id
  hc_config :: handshake_config
  hc_machine :: handshake_machine
  hc_contract_duration :: duration

definition coordinator_new :: "agent_id \<Rightarrow> handshake_config \<Rightarrow> handshake_coordinator" where
  "coordinator_new requester cfg =
     \<lparr>hc_requester = requester, hc_config = cfg, hc_machine = handshake_machine_new,
      hc_contract_duration = from_secs 60\<rparr>"

definition coordinator_with_defaults :: "agent_id \<Rightarrow> handshake_coordinator" where
  "coordinator_with_defaults requester = coordinator_new requester default_handshake_config"

definition set_contract_duration :: "handshake_coordinator \<Rightarrow> duration \<Rightarrow> handshake_coordinator" where
  "set_contract_duration hc d = hc\<lparr>hc_contract_duration := d\<rparr>"

section \<open>One attempt\<close>

datatype attempt_result =
    Finished "handshake_error + handshake_outcome"
  | Retry qos_constraints

text \<open>The branch taken when an attempt found nothing: relax and go on, or give up with \<open>err\<close>.\<close>

definition retry_or_fail ::
  "handshake_config \<Rightarrow> nat \<Rightarrow> nat \<Rightarrow> handshake_error \<Rightarrow> qos_constraints \<Rightarrow> handshake_machine \<Rightarrow>
   (attempt_result \<times> handshake_machine) option" where
  "retry_or_fail cfg attempt max_attempts err q sm =
     (if attempt < max_attempts
      then (case reset_for_retry sm of
              (Inl e, sm') \<Rightarrow> Some (Finished (Inl e), sm')
            | (Inr _, sm') \<Rightarrow> do {
                q' \<leftarrow> relax q (relaxation_factor cfg);
                Some (Retry q', sm')
              })
      else (case on_failure sm of
              (Inl e, sm') \<Rightarrow> Some (Finished (Inl e), sm')
            | (Inr _, sm') \<Rightarrow> Some (Finished (Inl err), sm')))"

definition probe_offers ::
  "(nat \<Rightarrow> datetime) \<Rightarrow> capability_probe_msg \<Rightarrow> registry_entry list \<Rightarrow> capability_offer_msg list"
  where
  "probe_offers clk probe es =
     map (\<lambda>(i, e). create_offer (clk (1 + i)) (re_agent_id e) probe (re_capability e)
            (re_trust_score e) DEFAULT_OFFER_TTL) (enumerate 0 es)"

fun valid_offers ::
  "chrono \<Rightarrow> (nat \<Rightarrow> datetime) \<Rightarrow> nat \<Rightarrow> capability_offer_msg list \<Rightarrow> capability_offer_msg list option"
  where
  "valid_offers c clk i [] = Some []"
| "valid_offers c clk i (ofr # ofrs) = do {
     expired \<leftarrow> is_offer_expired c (clk i) ofr;
     rest \<leftarrow> valid_offers c clk (Suc i) ofrs;
     Some (if expired then rest else ofr # rest)
   }"

definition negotiate_attempt ::
  "chrono \<Rightarrow> handshake_env \<Rightarrow> handshake_coordinator \<Rightarrow> task_type \<Rightarrow> capability_registry \<Rightarrow>
   nat \<Rightarrow> nat \<Rightarrow> qos_constraints \<Rightarrow> handshake_machine \<Rightarrow>
   (attempt_result \<times> handshake_machine) option" where
  "negotiate_attempt c env hc t reg attempt max_attempts q sm =
     (case (if hsm_state sm \<noteq> Idle then reset_for_retry sm else (Inr (), sm)) of
        (Inl _, sm0) \<Rightarrow>
          Some (Finished (Inl (InvalidTransition (show_handshake_state (hsm_state sm0)) ''Idle'')), sm0)
      | (Inr _, sm0) \<Rightarrow>
          (let clk = he_clock env attempt;
               probe = create_probe (he_nonce env attempt) (clk 0) (hc_requester hc) t q None
           in case on_probe_sent sm0 of
                (Inl e, sm1) \<Rightarrow> Some (Finished (Inl e), sm1)
              | (Inr _, sm1) \<Rightarrow>
                  (let es = pr_matching_entries (process_probe probe reg)
                   in if es = [] then
                        retry_or_fail (hc_config hc) attempt max_attempts
                          (NoCapableAgents (show_task_type t)) q sm1
                      else do {
                        valid \<leftarrow> valid_offers c clk (1 + length es) (probe_offers clk probe es);
                        if valid = [] then
                          retry_or_fail (hc_config hc) attempt max_attempts
                            (NegotiationFailed ''all offers expired'') q sm1
                        else (case on_offers_received sm1 of
                            (Inl e, sm2) \<Rightarrow> Some (Finished (Inl e), sm2)
                          | (Inr _, sm2) \<Rightarrow>
                              (case rank_offers valid (max_latency q) (max_cost q) of
                                 [] \<Rightarrow> Some (Finished (Inl (NegotiationFailed ''no ranked offers'')), sm2)
                               | best # _ \<Rightarrow> do {
                                   contract \<leftarrow> create_contract c (he_uuid env attempt)
                                     (clk (1 + 2 * length es)) (he_show env) (hc_requester hc) best q
                                     (hc_contract_duration hc);
                                   (case on_contract_accepted sm2 (contract_id contract)
                                        (offer_from (ro_offer best)) of
                                      (Inl e, sm3) \<Rightarrow> Some (Finished (Inl e), sm3)
                                    | (Inr _, sm3) \<Rightarrow> Some (Finished (Inr
                                        \<lparr>ho_contract = contract, ho_selected_offer = best,
                                         ho_attempts = of_nat attempt, ho_effective_qos = q\<rparr>), sm3))
                                 }))
                      })))"

section \<open>The loop\<close>

text \<open>
  \<open>for attempt in 1..=max_attempts\<close>: the recursion is on the attempts that are left. With none
  left the code falls out of the loop.
\<close>

fun negotiate_loop ::
  "chrono \<Rightarrow> handshake_env \<Rightarrow> handshake_coordinator \<Rightarrow> task_type \<Rightarrow> capability_registry \<Rightarrow> nat \<Rightarrow>
   nat \<Rightarrow> nat \<Rightarrow> qos_constraints \<Rightarrow> handshake_machine \<Rightarrow>
   ((handshake_error + handshake_outcome) \<times> handshake_machine) option" where
  "negotiate_loop c env hc t reg max_attempts 0 attempt q sm =
     Some (Inl (NegotiationFailed ''exhausted all attempts''), snd (on_failure sm))"
| "negotiate_loop c env hc t reg max_attempts (Suc left) attempt q sm = do {
     (r, sm') \<leftarrow> negotiate_attempt c env hc t reg attempt max_attempts q sm;
     (case r of
        Finished res \<Rightarrow> Some (res, sm')
      | Retry q' \<Rightarrow> negotiate_loop c env hc t reg max_attempts left (Suc attempt) q' sm')
   }"

text \<open>\<open>self.config.max_retries + 1\<close>, in \<open>u32\<close>.\<close>

definition max_attempts :: "handshake_config \<Rightarrow> u32" where
  "max_attempts cfg = max_retries cfg + 1"

definition negotiate ::
  "chrono \<Rightarrow> handshake_env \<Rightarrow> handshake_coordinator \<Rightarrow> task_type \<Rightarrow> qos_constraints \<Rightarrow>
   capability_registry \<Rightarrow>
   ((handshake_error + handshake_outcome) \<times> handshake_coordinator) option" where
  "negotiate c env hc t q reg = do {
     let n = unat (max_attempts (hc_config hc));
     (res, sm) \<leftarrow> negotiate_loop c env hc t reg n n 1 q (hc_machine hc);
     Some (res, hc\<lparr>hc_machine := sm\<rparr>)
   }"

text \<open>
  \<open>negotiate_async\<close> wraps the call in \<open>tokio::time::timeout\<close>. Whether the deadline passed before
  the future was polled is the parameter \<open>elapsed\<close>; the future itself never suspends.
\<close>

definition negotiate_async ::
  "chrono \<Rightarrow> handshake_env \<Rightarrow> bool \<Rightarrow> handshake_coordinator \<Rightarrow> task_type \<Rightarrow> qos_constraints \<Rightarrow>
   capability_registry \<Rightarrow>
   ((handshake_error + handshake_outcome) \<times> handshake_coordinator) option" where
  "negotiate_async c env elapsed hc t q reg = do {
     timeout_dur \<leftarrow> dur_mul (probe_timeout (hc_config hc)) (max_attempts (hc_config hc));
     if elapsed
     then Some (Inl (HandshakeTimeout timeout_dur),
                hc\<lparr>hc_machine := snd (on_failure (hc_machine hc))\<rparr>)
     else negotiate c env hc t q reg
   }"

section \<open>The state machine\<close>

text \<open>The calls on the machine, and the machine's invariant under them.\<close>

inductive handshake_step :: "handshake_machine \<Rightarrow> handshake_machine \<Rightarrow> bool" where
  step_probe: "handshake_step sm (snd (on_probe_sent sm))"
| step_offers: "handshake_step sm (snd (on_offers_received sm))"
| step_accept: "handshake_step sm (snd (on_contract_accepted sm cid agent))"
| step_failure: "handshake_step sm (snd (on_failure sm))"
| step_reset: "handshake_step sm (snd (reset_for_retry sm))"

lemmas machine_ops = on_probe_sent_def on_offers_received_def on_contract_accepted_def
  on_failure_def reset_for_retry_def

definition machine_inv :: "handshake_machine \<Rightarrow> bool" where
  "machine_inv sm \<longleftrightarrow>
     (hsm_contract_id sm \<noteq> None \<longleftrightarrow> hsm_state sm = Contracted) \<and>
     (hsm_selected_agent sm \<noteq> None \<longleftrightarrow> hsm_state sm = Contracted)"

text \<open>
  The edges of the diagram at the head of \<open>contract.rs\<close>, and the moves that are not drawn there but
  documented at \<open>on_failure\<close> (from any state that is not terminal) and \<open>reset_for_retry\<close>.
\<close>

fun diagram_edge :: "handshake_state \<Rightarrow> handshake_state \<Rightarrow> bool" where
  "diagram_edge Idle s \<longleftrightarrow> s = ProbeSent"
| "diagram_edge ProbeSent s \<longleftrightarrow> s = OffersReceived \<or> s = Failed"
| "diagram_edge OffersReceived s \<longleftrightarrow> s = Contracted \<or> s = Failed"
| "diagram_edge _ _ \<longleftrightarrow> False"

fun undrawn_edge :: "handshake_state \<Rightarrow> handshake_state \<Rightarrow> bool" where
  "undrawn_edge Idle s \<longleftrightarrow> s = Failed"
| "undrawn_edge ProbeSent s \<longleftrightarrow> s = Idle"
| "undrawn_edge OffersReceived s \<longleftrightarrow> s = Idle"
| "undrawn_edge _ _ \<longleftrightarrow> False"

lemma machine_new_inv [wf_intros]: "machine_inv handshake_machine_new"
  by (simp add: machine_inv_def handshake_machine_new_def)

lemma machine_step_inv [wf_intros]: "handshake_step sm sm' \<Longrightarrow> machine_inv sm \<Longrightarrow> machine_inv sm'"
  by (induction rule: handshake_step.induct)
    (auto simp: machine_inv_def machine_ops split: handshake_state.splits)

lemma machine_step_edge:
  "handshake_step sm sm' \<Longrightarrow> hsm_state sm' = hsm_state sm
     \<or> diagram_edge (hsm_state sm) (hsm_state sm') \<or> undrawn_edge (hsm_state sm) (hsm_state sm')"
  by (cases "hsm_state sm"; cases rule: handshake_step.cases)
    (auto simp: machine_ops)

lemma machine_edge_taken:
  assumes "diagram_edge (hsm_state sm) s \<or> undrawn_edge (hsm_state sm) s"
  shows "\<exists>sm'. handshake_step sm sm' \<and> hsm_state sm' = s"
proof -
  have "s = hsm_state (snd (on_probe_sent sm)) \<or> s = hsm_state (snd (on_offers_received sm))
      \<or> s = hsm_state (snd (on_contract_accepted sm cid agent))
      \<or> s = hsm_state (snd (on_failure sm)) \<or> s = hsm_state (snd (reset_for_retry sm))" for cid agent
    using assms by (cases "hsm_state sm") (auto simp: machine_ops)
  then show ?thesis by (metis handshake_step.intros)
qed

lemma terminal_step: "handshake_step sm sm' \<Longrightarrow> handshake_is_terminal sm \<Longrightarrow> sm' = sm"
  by (induction rule: handshake_step.induct) (auto simp: machine_ops handshake_is_terminal_def)

section \<open>One attempt, evaluated\<close>

text \<open>
  The surroundings of a run that does not panic: the offers a negotiation makes are checked within
  their five seconds, and no instant leaves the range of the clock.
\<close>

definition env_fresh :: "chrono \<Rightarrow> handshake_env \<Rightarrow> duration \<Rightarrow> bool" where
  "env_fresh c env dur \<longleftrightarrow>
     chrono_sound c \<and> td_from_std c DEFAULT_OFFER_TTL \<noteq> None \<and>
     (\<forall>a i. dt_add c (he_clock env a i) (int DEFAULT_OFFER_TTL) \<noteq> None) \<and>
     (\<forall>a i j. he_clock env a j \<le> he_clock env a i + int DEFAULT_OFFER_TTL) \<and>
     (\<forall>a i. dt_add c (he_clock env a i) (from_std_or_secs c 30 dur) \<noteq> None)"

lemma env_freshD:
  assumes "env_fresh c env dur"
  shows "chrono_sound c" "\<exists>t. td_from_std c DEFAULT_OFFER_TTL = Some t"
    and "\<exists>e. dt_add c (he_clock env a i) (int DEFAULT_OFFER_TTL) = Some e"
    and "he_clock env a j \<le> he_clock env a i + int DEFAULT_OFFER_TTL"
    and "\<exists>e. dt_add c (he_clock env a i) (from_std_or_secs c 30 dur) = Some e"
  using assms by (auto simp: env_fresh_def)

lemma offer_not_expired:
  assumes "env_fresh c env dur"
  shows "is_offer_expired c (he_clock env a j)
    (create_offer (he_clock env a i) from probe cap trust DEFAULT_OFFER_TTL) = Some False"
proof -
  note s = env_freshD(1) [OF assms]
  obtain t where t: "td_from_std c DEFAULT_OFFER_TTL = Some t"
    using env_freshD(2) [OF assms] by blast
  have tt: "t = int DEFAULT_OFFER_TTL" by (rule chrono_soundD(1) [OF s t])
  obtain e where e: "dt_add c (he_clock env a i) (int DEFAULT_OFFER_TTL) = Some e"
    using env_freshD(3) [OF assms] by blast
  have "e = he_clock env a i + int DEFAULT_OFFER_TTL" by (rule chrono_soundD(3) [OF s e])
  moreover have "he_clock env a j \<le> he_clock env a i + int DEFAULT_OFFER_TTL"
    by (rule env_freshD(4) [OF assms])
  ultimately show ?thesis
    using t e tt by (simp add: is_offer_expired_def create_offer_def)
qed

lemma valid_offers_all:
  assumes "\<forall>ofr \<in> set ofrs. \<forall>i. is_offer_expired c (clk i) ofr = Some False"
  shows "valid_offers c clk i ofrs = Some ofrs"
  using assms by (induction ofrs arbitrary: i) auto

lemma probe_offers_valid:
  assumes "env_fresh c env dur"
  shows "valid_offers c (he_clock env a) i (probe_offers (he_clock env a) probe es)
    = Some (probe_offers (he_clock env a) probe es)"
  by (rule valid_offers_all) (auto simp: probe_offers_def offer_not_expired [OF assms])

lemma probe_offers_length [simp]: "length (probe_offers clk probe es) = length es"
  by (simp add: probe_offers_def)

lemma probe_offers_member:
  "ofr \<in> set (probe_offers clk probe es) \<Longrightarrow>
   \<exists>e \<in> set es. offer_from ofr = re_agent_id e \<and> offer_capability ofr = re_capability e
     \<and> offer_trust_score ofr = re_trust_score e"
  by (auto simp: probe_offers_def create_offer_def in_set_enumerate_eq)

text \<open>The agreed terms of an offer that meets the constraints are the constraints.\<close>

lemma create_contract_matching:
  assumes "create_contract c u now sh from best q dur = Some k"
    and "capability_matches_probe (offer_capability (ro_offer best))
      (offer_trust_score (ro_offer best)) q"
  shows "contract_agreed_qos k = q"
proof -
  have mn: "f64_min a b = b" and mx: "f64_max b a = a" if "b \<le> a" for a b
    using that by (cases a; cases b; auto simp: f64_min_def f64_max_def)+
  show ?thesis
    using assms
    by (auto simp: create_contract_def capability_matches_probe_def Let_def bind_eq_Some_conv mn mx
        max_absorb2)
qed

lemma create_contract_total:
  assumes "env_fresh c env dur"
  shows "\<exists>k. create_contract c u (he_clock env a i) sh from best q dur = Some k
    \<and> contract_id k = u \<and> contract_to k = offer_from (ro_offer best)"
proof -
  obtain e where "dt_add c (he_clock env a i) (from_std_or_secs c 30 dur) = Some e"
    using env_freshD(5) [OF assms] by blast
  then show ?thesis by (simp add: create_contract_def Let_def)
qed

definition some_match :: "capability_registry \<Rightarrow> task_type \<Rightarrow> qos_constraints \<Rightarrow> bool" where
  "some_match reg t q \<longleftrightarrow>
     (\<exists>a cap trust. registered reg (a, t) = Some (cap, trust) \<and> capability_matches_probe cap trust q)"

lemma find_capable_empty:
  "registry_inv reg \<Longrightarrow> find_capable reg t q = [] \<longleftrightarrow> \<not> some_match reg t q"
  by (auto simp: some_match_def registry_directory.offers_empty)

lemma attempt_retry:
  assumes "registry_inv reg" "\<not> some_match reg t q" "hsm_state sm = Idle" "attempt < n"
    and "relax q (relaxation_factor (hc_config hc)) = Some q'"
  shows "\<exists>sm'. negotiate_attempt c env hc t reg attempt n q sm = Some (Retry q', sm')
    \<and> hsm_state sm' = Idle"
  using assms find_capable_empty [OF assms(1), of t q]
  by (simp add: negotiate_attempt_def on_probe_sent_def process_probe_def create_probe_def
      retry_or_fail_def reset_for_retry_def Let_def)

lemma attempt_give_up:
  assumes "registry_inv reg" "\<not> some_match reg t q" "hsm_state sm = Idle" "\<not> attempt < n"
  shows "\<exists>sm'. negotiate_attempt c env hc t reg attempt n q sm =
      Some (Finished (Inl (NoCapableAgents (show_task_type t))), sm') \<and> hsm_state sm' = Failed"
  using assms find_capable_empty [OF assms(1), of t q]
  by (simp add: negotiate_attempt_def on_probe_sent_def process_probe_def create_probe_def
      retry_or_fail_def on_failure_def Let_def)

text \<open>What a successful attempt delivers.\<close>

definition outcome_ok ::
  "capability_registry \<Rightarrow> task_type \<Rightarrow> qos_constraints \<Rightarrow> nat \<Rightarrow> handshake_machine \<Rightarrow>
   handshake_outcome \<Rightarrow> bool" where
  "outcome_ok reg t q attempt sm out \<longleftrightarrow>
     (let ofr = ro_offer (ho_selected_offer out); a = offer_from ofr
      in registered reg (a, t) = Some (offer_capability ofr, offer_trust_score ofr)
         \<and> capability_matches_probe (offer_capability ofr) (offer_trust_score ofr) q
         \<and> contract_to (ho_contract out) = a \<and> contract_agreed_qos (ho_contract out) = q
         \<and> ho_effective_qos out = q \<and> ho_attempts out = of_nat attempt
         \<and> hsm_state sm = Contracted \<and> hsm_selected_agent sm = Some a
         \<and> hsm_contract_id sm = Some (contract_id (ho_contract out)))"

lemma attempt_success:
  assumes inv: "registry_inv reg" and m: "some_match reg t q" and idle: "hsm_state sm = Idle"
    and env: "env_fresh c env (hc_contract_duration hc)"
  shows "\<exists>out sm'. negotiate_attempt c env hc t reg attempt n q sm = Some (Finished (Inr out), sm')
    \<and> outcome_ok reg t q attempt sm' out"
proof -
  let ?clk = "he_clock env attempt"
  let ?es = "find_capable reg t q"
  let ?probe = "create_probe (he_nonce env attempt) (?clk 0) (hc_requester hc) t q None"
  let ?ofrs = "probe_offers ?clk ?probe ?es"
  have es: "?es \<noteq> []" using find_capable_empty [OF inv] m by simp
  then have ofrs: "?ofrs \<noteq> []" by (metis length_0_conv probe_offers_length)
  have ms: "image_mset ro_offer (mset (rank_offers ?ofrs (max_latency q) (max_cost q))) = mset ?ofrs"
    by (rule rank_offers_mset)
  then obtain best rest where ranked:
    "rank_offers ?ofrs (max_latency q) (max_cost q) = best # rest"
    using ofrs by (cases "rank_offers ?ofrs (max_latency q) (max_cost q)") auto
  have "ro_offer best \<in># mset ?ofrs" unfolding ms [symmetric] ranked by simp
  then obtain e where e: "e \<in> set ?es" "offer_from (ro_offer best) = re_agent_id e"
    "offer_capability (ro_offer best) = re_capability e"
    "offer_trust_score (ro_offer best) = re_trust_score e"
    using probe_offers_member by fastforce
  have reg: "registered reg (re_agent_id e, t) = Some (re_capability e, re_trust_score e)"
    and match: "capability_matches_probe (re_capability e) (re_trust_score e) q"
    using e(1) registry_directory.offers_iff [OF inv]
    by (auto simp: meets_constraints_matches)
  obtain k where k: "create_contract c (he_uuid env attempt) (?clk (1 + 2 * length ?es))
      (he_show env) (hc_requester hc) best q (hc_contract_duration hc) = Some k"
    "contract_id k = he_uuid env attempt" "contract_to k = offer_from (ro_offer best)"
    using create_contract_total [OF env] by blast
  have agreed: "contract_agreed_qos k = q"
    using create_contract_matching [OF k(1)] match e by simp
  have valid: "valid_offers c ?clk i ?ofrs = Some ?ofrs" for i
    by (rule probe_offers_valid [OF env])
  have "negotiate_attempt c env hc t reg attempt n q sm =
      Some (Finished (Inr \<lparr>ho_contract = k, ho_selected_offer = best, ho_attempts = of_nat attempt,
             ho_effective_qos = q\<rparr>),
        sm\<lparr>hsm_state := Contracted, hsm_contract_id := Some (contract_id k),
           hsm_selected_agent := Some (offer_from (ro_offer best))\<rparr>)"
    using es ofrs idle ranked k(1) valid
    by (simp add: negotiate_attempt_def on_probe_sent_def on_offers_received_def
        on_contract_accepted_def process_probe_def create_probe_def Let_def)
  then show ?thesis
    using reg match agreed k e by (simp add: outcome_ok_def Let_def)
qed

section \<open>The whole negotiation\<close>

text \<open>The constraints after \<open>i\<close> relaxations.\<close>

fun relaxed :: "f64 \<Rightarrow> nat \<Rightarrow> qos_constraints \<Rightarrow> qos_constraints option" where
  "relaxed f 0 q = Some q"
| "relaxed f (Suc i) q = Option.bind (relax q f) (relaxed f i)"

definition first_match ::
  "capability_registry \<Rightarrow> task_type \<Rightarrow> f64 \<Rightarrow> qos_constraints \<Rightarrow> nat \<Rightarrow> qos_constraints \<Rightarrow> bool" where
  "first_match reg t f q k qk \<longleftrightarrow> relaxed f k q = Some qk \<and> some_match reg t qk \<and>
     (\<forall>i < k. \<forall>qi. relaxed f i q = Some qi \<longrightarrow> \<not> some_match reg t qi)"

lemma loop_success:
  assumes inv: "registry_inv reg" and env: "env_fresh c env (hc_contract_duration hc)"
    and idle: "hsm_state sm = Idle" and k: "k < left"
    and qk: "relaxed (relaxation_factor (hc_config hc)) k q = Some qk" and m: "some_match reg t qk"
    and no: "\<And>i qi. i < k \<Longrightarrow> relaxed (relaxation_factor (hc_config hc)) i q = Some qi \<Longrightarrow>
      \<not> some_match reg t qi"
    and n: "attempt + left = Suc n"
  shows "\<exists>out sm'. negotiate_loop c env hc t reg n left attempt q sm = Some (Inr out, sm')
    \<and> outcome_ok reg t qk (attempt + k) sm' out"
  using idle k qk no n
proof (induction k arbitrary: left attempt q sm)
  case 0
  then obtain l where l: "left = Suc l" by (cases left) auto
  have "qk = q" using 0 by simp
  then obtain out sm' where "negotiate_attempt c env hc t reg attempt n q sm =
      Some (Finished (Inr out), sm')" "outcome_ok reg t qk attempt sm' out"
    using attempt_success [OF inv _ 0(1) env] m by blast
  then show ?case by (simp add: l)
next
  case (Suc k)
  then obtain l where l: "left = Suc l" by (cases left) auto
  from Suc.prems(3) obtain q1 where q1: "relax q (relaxation_factor (hc_config hc)) = Some q1"
    and qk: "relaxed (relaxation_factor (hc_config hc)) k q1 = Some qk"
    by (auto simp: bind_eq_Some_conv)
  have "\<not> some_match reg t q" using Suc.prems(4) [of 0 q] by simp
  then obtain sm1 where a: "negotiate_attempt c env hc t reg attempt n q sm = Some (Retry q1, sm1)"
    and idle1: "hsm_state sm1 = Idle"
    using attempt_retry [OF inv _ Suc.prems(1) _ q1, of t attempt n c env] Suc.prems(2,5) l by auto
  have "\<exists>out sm'. negotiate_loop c env hc t reg n l (Suc attempt) q1 sm1 = Some (Inr out, sm')
      \<and> outcome_ok reg t qk (Suc attempt + k) sm' out"
  proof (rule Suc.IH [OF idle1 _ qk])
    show "k < l" "Suc attempt + l = Suc n" using Suc.prems(2,5) l by simp_all
    show "\<not> some_match reg t qi"
      if "i < k" "relaxed (relaxation_factor (hc_config hc)) i q1 = Some qi" for i qi
      using Suc.prems(4) [of "Suc i" qi] that q1 by simp
  qed
  then show ?case by (simp add: l a)
qed

lemma loop_failure:
  assumes inv: "registry_inv reg" and idle: "hsm_state sm = Idle" and "0 < left"
    and all: "\<And>i. i < left \<Longrightarrow> \<exists>qi. relaxed (relaxation_factor (hc_config hc)) i q = Some qi \<and>
      \<not> some_match reg t qi"
    and n: "attempt + left = Suc n"
  shows "\<exists>sm'. negotiate_loop c env hc t reg n left attempt q sm =
      Some (Inl (NoCapableAgents (show_task_type t)), sm') \<and> hsm_state sm' = Failed"
  using assms(2-5)
proof (induction left arbitrary: attempt q sm)
  case 0
  then show ?case by simp
next
  case (Suc l)
  have no: "\<not> some_match reg t q" using Suc.prems(3) [of 0] by simp
  show ?case
  proof (cases "l = 0")
    case True
    then obtain sm' where "negotiate_attempt c env hc t reg attempt n q sm =
        Some (Finished (Inl (NoCapableAgents (show_task_type t))), sm')" "hsm_state sm' = Failed"
      using attempt_give_up [OF inv no Suc.prems(1), of attempt n c env hc] Suc.prems(4) by auto
    then show ?thesis by simp
  next
    case False
    then obtain q1 where q1: "relax q (relaxation_factor (hc_config hc)) = Some q1"
      using Suc.prems(3) [of 1] by (auto simp: bind_eq_Some_conv)
    obtain sm1 where a: "negotiate_attempt c env hc t reg attempt n q sm = Some (Retry q1, sm1)"
      and idle1: "hsm_state sm1 = Idle"
      using attempt_retry [OF inv no Suc.prems(1) _ q1, of attempt n c env] Suc.prems(4) False by auto
    have "\<exists>sm'. negotiate_loop c env hc t reg n l (Suc attempt) q1 sm1 =
        Some (Inl (NoCapableAgents (show_task_type t)), sm') \<and> hsm_state sm' = Failed"
    proof (rule Suc.IH [OF idle1])
      show "0 < l" "Suc attempt + l = Suc n" using False Suc.prems(4) by simp_all
      show "\<exists>qi. relaxed (relaxation_factor (hc_config hc)) i q1 = Some qi \<and> \<not> some_match reg t qi"
        if "i < l" for i
        using Suc.prems(3) [of "Suc i"] that q1 by simp
    qed
    then show ?thesis by (simp add: a)
  qed
qed

section \<open>Properties\<close>

lemma negotiation_succeeds:
  assumes "registry_inv reg" and "env_fresh c env (hc_contract_duration hc)"
    and "hsm_state (hc_machine hc) = Idle" and "k < unat (max_attempts (hc_config hc))"
    and "first_match reg t (relaxation_factor (hc_config hc)) q k qk"
  shows "\<exists>out hc'. negotiate c env hc t q reg = Some (Inr out, hc')
    \<and> outcome_ok reg t qk (Suc k) (hc_machine hc') out"
proof -
  let ?n = "unat (max_attempts (hc_config hc))"
  have f: "relaxed (relaxation_factor (hc_config hc)) k q = Some qk" "some_match reg t qk"
    "\<And>i qi. i < k \<Longrightarrow> relaxed (relaxation_factor (hc_config hc)) i q = Some qi \<Longrightarrow>
      \<not> some_match reg t qi"
    using assms(5) by (auto simp: first_match_def)
  obtain out sm' where "negotiate_loop c env hc t reg ?n ?n 1 q (hc_machine hc) = Some (Inr out, sm')"
    "outcome_ok reg t qk (Suc k) sm' out"
    using loop_success [OF assms(1-4) f(1,2), where attempt = 1 and n = ?n] f(3) by auto
  then show ?thesis by (simp add: negotiate_def)
qed

text \<open>
  C3. A negotiation started in the idle state succeeds at the first attempt whose (relaxed)
  constraints some registered agent meets: it returns after exactly that many attempts, having
  contracted an agent whose registration meets those constraints, under terms equal to them, and
  the machine is in the state \<open>Contracted\<close> with that agent and contract. It holds whenever the
  offers are checked within their lifetime and nothing overflows.
\<close>

theorem negotiate_succeeds:
  assumes "registry_inv reg" and "env_fresh c env (hc_contract_duration hc)"
    and "hsm_state (hc_machine hc) = Idle" and "k < unat (max_attempts (hc_config hc))"
    and "first_match reg t (relaxation_factor (hc_config hc)) q k qk"
  shows "\<exists>out hc'. negotiate c env hc t q reg = Some (Inr out, hc')
    \<and> outcome_ok reg t qk (Suc k) (hc_machine hc') out"
  by (rule negotiation_succeeds [OF assms])

text \<open>A run in which time stands still.\<close>

definition still_env :: handshake_env where
  "still_env = \<lparr>he_nonce = (\<lambda>_. 7), he_clock = (\<lambda>_ _. 0), he_uuid = (\<lambda>_. 42), he_show = (\<lambda>_. [])\<rparr>"

definition example_qos :: qos_constraints where
  "example_qos = \<lparr>min_quality = 1, max_latency = 5, max_cost = 0, min_trust = 0\<rparr>"

lemma still_env_fresh: "env_fresh chrono_limits still_env (from_secs 60)"
  by (simp add: env_fresh_def chrono_limits_sound)
    (simp add: chrono_limits_def still_env_def from_std_or_secs_def DEFAULT_OFFER_TTL_def
      from_secs_def NANOS_PER_SEC_def TD_MAX_def DT_MAX_def)

lemma registry_example_inv: "registry_inv registry_example"
  by (simp add: registry_example_def wf_intros)

lemma example_first_match: "first_match registry_example Analysis f example_qos 0 example_qos"
proof -
  have "registered registry_example (AgentId 2, Analysis) = Some (\<lparr>cap_task_type = Analysis,
      cap_estimated_quality = 1, cap_estimated_latency = 5, cap_cost_per_task = 0\<rparr>, 1)"
    by (simp add: registered_def registry_example_def)
  then have "some_match registry_example Analysis example_qos"
    unfolding some_match_def
    by (intro exI [of _ "AgentId 2"] exI conjI)
      (auto simp: capability_matches_probe_def example_qos_def f64_zero_one_Fin)
  then show ?thesis by (simp add: first_match_def)
qed

theorem negotiate_succeeds_witness:
  "\<exists>out hc'. negotiate chrono_limits still_env (coordinator_with_defaults (AgentId 9)) Analysis
     example_qos registry_example = Some (Inr out, hc')
   \<and> outcome_ok registry_example Analysis example_qos 1 (hc_machine hc') out"
  using negotiate_succeeds [OF registry_example_inv, of chrono_limits still_env
      "coordinator_with_defaults (AgentId 9)" 0 Analysis example_qos example_qos]
  by (simp add: coordinator_with_defaults_def coordinator_new_def still_env_fresh
      handshake_machine_new_def max_attempts_def default_handshake_config_def example_first_match)

text \<open>
  C26. A negotiation started in the idle state fails with \<open>NoCapableAgents\<close>, and leaves the machine in
  the state \<open>Failed\<close>, when at none of its attempts an agent meets the relaxed constraints.
\<close>

theorem negotiate_fails:
  assumes "registry_inv reg" and "hsm_state (hc_machine hc) = Idle"
    and "max_attempts (hc_config hc) \<noteq> 0"
    and "\<forall>i < unat (max_attempts (hc_config hc)).
      \<exists>qi. relaxed (relaxation_factor (hc_config hc)) i q = Some qi \<and> \<not> some_match reg t qi"
  shows "\<exists>hc'. negotiate c env hc t q reg =
      Some (Inl (NoCapableAgents (show_task_type t)), hc') \<and> hsm_state (hc_machine hc') = Failed"
proof -
  let ?n = "unat (max_attempts (hc_config hc))"
  have "0 < ?n" using assms(3) by (simp add: unat_gt_0)
  then obtain sm' where "negotiate_loop c env hc t reg ?n ?n 1 q (hc_machine hc) =
      Some (Inl (NoCapableAgents (show_task_type t)), sm')" "hsm_state sm' = Failed"
    using loop_failure [OF assms(1,2), where left = ?n and attempt = 1 and n = ?n and hc = hc
        and q = q and t = t and c = c and env = env] assms(4) by auto
  then show ?thesis by (simp add: negotiate_def)
qed

theorem negotiate_fails_witness:
  "\<exists>hc'. negotiate chrono_limits still_env
     (coordinator_new (AgentId 9) (default_handshake_config\<lparr>max_retries := 0\<rparr>)) Analysis
     example_qos registry_new = Some (Inl (NoCapableAgents ''analysis''), hc')"
proof -
  let ?hc = "coordinator_new (AgentId 9) (default_handshake_config\<lparr>max_retries := 0\<rparr>)"
  have "\<exists>qi. relaxed (relaxation_factor (hc_config ?hc)) i example_qos = Some qi \<and>
      \<not> some_match registry_new Analysis qi" if "i < unat (max_attempts (hc_config ?hc))" for i
    using that by (simp add: max_attempts_def coordinator_new_def some_match_def registered_def)
  then show ?thesis
    using negotiate_fails [OF registry_inv_new, of ?hc example_qos Analysis chrono_limits still_env]
    by (auto simp: coordinator_new_def max_attempts_def handshake_machine_new_def)
qed

text \<open>
  A coordinator is good for one negotiation: once its machine is in a terminal state every
  further negotiation is refused with \<open>InvalidTransition\<close> and changes nothing, whatever the
  registry offers. And with \<open>max_retries = u32::MAX\<close> the number of attempts wraps to zero: an idle
  coordinator then fails without one attempt.
\<close>

lemma negotiate_single_use:
  assumes "handshake_is_terminal (hc_machine hc)"
  shows "negotiate c env hc t q reg =
    (if max_retries (hc_config hc) = - 1
     then Some (Inl (NegotiationFailed ''exhausted all attempts''), hc)
     else Some (Inl (InvalidTransition (show_handshake_state (hsm_state (hc_machine hc))) ''Idle''), hc))
   \<and> (max_retries cfg = - 1 \<longrightarrow>
       map_option fst (negotiate c env (coordinator_new a cfg) t q reg) =
         Some (Inl (NegotiationFailed ''exhausted all attempts'')))"
proof -
  have z: "max_attempts cfg = 0 \<longleftrightarrow> max_retries cfg = - 1" for cfg
    by (simp add: max_attempts_def add_eq_0_iff2)
  have z0: "unat (max_attempts cfg) = 0" if "max_retries cfg = - 1" for cfg
    using z [of cfg] that by simp
  have stuck: "on_failure (hc_machine hc) = (invalid_transition (hc_machine hc) ''Failed'', hc_machine hc)"
    using assms by (simp add: handshake_is_terminal_def on_failure_def)
  have att: "negotiate_attempt c env hc t reg attempt n q (hc_machine hc) = Some (Finished (Inl
      (InvalidTransition (show_handshake_state (hsm_state (hc_machine hc))) ''Idle'')), hc_machine hc)"
    for attempt n
    using assms by (auto simp: handshake_is_terminal_def negotiate_attempt_def reset_for_retry_def
        invalid_transition_def)
  show ?thesis
  proof (cases "max_retries (hc_config hc) = - 1")
    case True
    then show ?thesis using z0 stuck by (simp add: negotiate_def coordinator_new_def Let_def)
  next
    case False
    then have "unat (max_attempts (hc_config hc)) \<noteq> 0" using z by (simp add: unat_eq_0)
    then obtain n where "unat (max_attempts (hc_config hc)) = Suc n" by (cases "unat (max_attempts (hc_config hc))") auto
    then show ?thesis using False z0 att by (simp add: negotiate_def coordinator_new_def Let_def)
  qed
qed

lemma negotiate_single_use_example:
  "negotiate chrono_limits still_env
     ((coordinator_with_defaults (AgentId 9))\<lparr>hc_machine := \<lparr>hsm_state = Failed,
        hsm_contract_id = None, hsm_selected_agent = None\<rparr>\<rparr>) Analysis example_qos registry_example
   = Some (Inl (InvalidTransition ''Failed'' ''Idle''),
     (coordinator_with_defaults (AgentId 9))\<lparr>hc_machine := \<lparr>hsm_state = Failed,
        hsm_contract_id = None, hsm_selected_agent = None\<rparr>\<rparr>)"
  by (subst negotiate_single_use [THEN conjunct1])
    (simp_all add: handshake_is_terminal_def coordinator_with_defaults_def coordinator_new_def
      default_handshake_config_def)

text \<open>
  C27. In every state the machine can reach, a contract identifier and a selected agent are present
  exactly when the state is \<open>Contracted\<close>. The states the next call can move to are exactly those at
  the end of an edge of the diagram in \<open>contract.rs\<close>, or of one of three edges that the diagram does
  not have: from \<open>Idle\<close> to \<open>Failed\<close> (\<open>on_failure\<close>), and from \<open>ProbeSent\<close> and \<open>OffersReceived\<close> back
  to \<open>Idle\<close> (\<open>reset_for_retry\<close>). A call made in \<open>Contracted\<close> or \<open>Failed\<close> changes nothing.
\<close>

theorem handshake_machine_correct:
  assumes "handshake_step\<^sup>*\<^sup>* handshake_machine_new sm"
  shows "machine_inv sm
    \<and> (\<forall>s. s \<noteq> hsm_state sm \<longrightarrow>
        ((\<exists>sm'. handshake_step sm sm' \<and> hsm_state sm' = s) \<longleftrightarrow>
          diagram_edge (hsm_state sm) s \<or> undrawn_edge (hsm_state sm) s))
    \<and> (\<forall>sm'. handshake_is_terminal sm \<and> handshake_step sm sm' \<longrightarrow> sm' = sm)"
proof -
  have inv: "machine_inv sm"
    using assms by (induction rule: rtranclp_induct) (auto intro: wf_intros)
  have edge: "(\<exists>sm'. handshake_step sm sm' \<and> hsm_state sm' = s) \<longleftrightarrow>
      diagram_edge (hsm_state sm) s \<or> undrawn_edge (hsm_state sm) s" if "s \<noteq> hsm_state sm" for s
    using machine_step_edge [of sm] machine_edge_taken [of sm s] that by blast
  show ?thesis using inv edge terminal_step [of sm] by simp
qed

theorem handshake_machine_correct_witness:
  "machine_inv (snd (on_probe_sent handshake_machine_new)) \<and>
   (\<exists>sm'. handshake_step (snd (on_probe_sent handshake_machine_new)) sm' \<and> hsm_state sm' = Idle)"
proof -
  let ?sm = "snd (on_probe_sent handshake_machine_new)"
  have r: "handshake_step\<^sup>*\<^sup>* handshake_machine_new ?sm"
    by (rule r_into_rtranclp [of handshake_step]) (rule step_probe)
  have "hsm_state ?sm = ProbeSent"
    by (simp add: on_probe_sent_def handshake_machine_new_def)
  then show ?thesis using handshake_machine_correct [OF r] by simp
qed

end
