(* ===== verification/Did_Key.thy ===== *)
theory Did_Key
  imports Atp_Types
begin

text \<open>
  Decentralised identifiers of \<open>atp-identity\<close> (\<open>did.rs\<close>): the \<open>did:key\<close> form of an Ed25519 key
  and the base58 codec under it. A Rust \<open>char\<close> is a Unicode scalar value, a natural number here;
  \<open>ch as u8\<close> keeps its low eight bits. The digits of the big integers are \<open>u32\<close>, as in the code.
\<close>

definition ED25519_MULTICODEC_PREFIX :: "u8 list" where
  "ED25519_MULTICODEC_PREFIX = [0xed, 0x01]"

definition BASE58_ALPHABET :: "u8 list" where
  "BASE58_ALPHABET = map of_char
     ''123456789ABCDEFGHJKLMNPQRSTUVWXYZabcdefghijkmnopqrstuvwxyz''"

section \<open>The big-integer loops\<close>

text \<open>\<open>for digit in num.iter_mut()\<close>: multiply every digit by \<open>m\<close> and carry in base \<open>b\<close>.\<close>

fun mul_carry :: "u32 \<Rightarrow> u32 \<Rightarrow> u32 \<Rightarrow> u32 list \<Rightarrow> u32 list \<times> u32" where
  "mul_carry m b carry [] = ([], carry)"
| "mul_carry m b carry (d # ds) =
     (let carry = carry + d * m;
          (ds', final) = mul_carry m b (carry div b) ds
      in (carry mod b # ds', final))"

text \<open>\<open>while carry > 0\<close>; the base is 58 or 256.\<close>

function push_carry :: "u32 \<Rightarrow> u32 \<Rightarrow> u32 list" where
  "push_carry b carry =
     (if 0 < carry \<and> 1 < b then carry mod b # push_carry b (carry div b) else [])"
  by auto
termination
proof (relation "measure (\<lambda>(b, carry). unat carry)")
  fix b carry :: u32
  assume "0 < carry \<and> 1 < b"
  then have "0 < unat carry" "1 < unat b"
    by (auto simp: unat_gt_0 word_less_nat_alt)
  then show "((b, carry div b), b, carry) \<in> measure (\<lambda>(b, carry). unat carry)"
    by (simp add: unat_div)
qed simp

declare push_carry.simps [simp del]

definition append_digit :: "u32 \<Rightarrow> u32 \<Rightarrow> u32 list \<Rightarrow> u32 \<Rightarrow> u32 list" where
  "append_digit m b num carry =
     (let (ds, final) = mul_carry m b carry num in ds @ push_carry b final)"

definition base58_encode :: "u8 list \<Rightarrow> unicode_text" where
  "base58_encode input =
     (if input = [] then []
      else (let leading_zeros = length (takeWhile (\<lambda>b. b = 0) input);
                num = foldl (\<lambda>num byte. append_digit 256 58 num (ucast byte)) [0] input
            in replicate leading_zeros (of_char (CHR ''1''))
               @ map (\<lambda>d. unat (BASE58_ALPHABET ! unat d)) (rev num)))"

text \<open>\<open>iter().position(..)\<close>.\<close>

fun position :: "('a \<Rightarrow> bool) \<Rightarrow> 'a list \<Rightarrow> nat option" where
  "position P [] = None"
| "position P (x # xs) = (if P x then Some 0 else map_option Suc (position P xs))"

fun decode_digits :: "unicode_text \<Rightarrow> u32 list \<Rightarrow> unicode_text + u32 list" where
  "decode_digits [] num = Inr num"
| "decode_digits (ch # chs) num =
     (case position (\<lambda>c. c = (of_nat ch :: u8)) BASE58_ALPHABET of
        None \<Rightarrow> Inl (text_of ''invalid base58 character: '' @ [ch])
      | Some val \<Rightarrow> decode_digits chs (append_digit 58 256 num (of_nat val)))"

text \<open>\<open>while num.len() > 1 && *num.last().unwrap() == 0\<close>, on the reversed list.\<close>

fun drop_zeros :: "u32 list \<Rightarrow> u32 list" where
  "drop_zeros (d # e # ds) = (if d = 0 then drop_zeros (e # ds) else d # e # ds)"
| "drop_zeros ds = ds"

definition base58_decode :: "unicode_text \<Rightarrow> unicode_text + u8 list" where
  "base58_decode input =
     (if input = [] then Inr []
      else (let leading_ones = length (takeWhile (\<lambda>c. c = of_char (CHR ''1'')) input)
            in res_bind (decode_digits input [0]) (\<lambda>num.
                 Inr (replicate leading_ones 0 @ map ucast (drop_zeros (rev num))))))"

section \<open>DIDs\<close>

definition generate_did :: "u8 list \<Rightarrow> identity_error + did" where
  "generate_did public_key =
     Inr \<lparr>did_method = text_of ''key'',
          did_identifier = of_char (CHR ''z'') #
            base58_encode (ED25519_MULTICODEC_PREFIX @ public_key)\<rparr>"

definition did_from_public_key :: "u8 list \<Rightarrow> did option" where
  "did_from_public_key pk = (case generate_did pk of Inr d \<Rightarrow> Some d | Inl _ \<Rightarrow> None)"

text \<open>The key pair's public bytes, the new identifier and the clock reading are arguments.\<close>

definition create_identity ::
  "agent_id \<Rightarrow> datetime \<Rightarrow> u8 list \<Rightarrow> identity_error + agent_identity" where
  "create_identity new_id now pub_bytes =
     res_bind (generate_did pub_bytes) (\<lambda>d.
       Inr \<lparr>ident_id = new_id, ident_did = d, ident_public_key = pub_bytes,
            ident_capabilities = [], ident_created_at = now\<rparr>)"

definition unsupported_method :: "did \<Rightarrow> identity_error" where
  "unsupported_method d = InvalidDid (text_of ''unsupported DID method: '' @ did_method d)"

definition verify_did :: "did \<Rightarrow> u8 list \<Rightarrow> identity_error + bool" where
  "verify_did d pk =
     (if did_method d \<noteq> text_of ''key'' then Inl (unsupported_method d)
      else res_bind (generate_did pk) (\<lambda>expected.
             Inr (did_identifier d = did_identifier expected)))"

fun decimal :: "nat \<Rightarrow> unicode_text" where
  "decimal n = (if n < 10 then [48 + n] else decimal (n div 10) @ [48 + n mod 10])"

declare decimal.simps [simp del]

definition extract_public_key :: "did \<Rightarrow> identity_error + u8 list" where
  "extract_public_key d =
     (if did_method d \<noteq> text_of ''key'' then Inl (unsupported_method d)
      else case did_identifier d of
        [] \<Rightarrow> Inl (InvalidDid (text_of
                ''identifier must start with 'z' (base58btc multibase)''))
      | z # rest \<Rightarrow>
          if z \<noteq> of_char (CHR ''z'')
          then Inl (InvalidDid (text_of ''identifier must start with 'z' (base58btc multibase)''))
          else case base58_decode rest of
              Inl e \<Rightarrow> Inl (InvalidDid (text_of ''base58 decode failed: '' @ e))
            | Inr decoded \<Rightarrow>
                if length decoded \<noteq> 34
                then Inl (InvalidDid (text_of ''decoded length '' @ decimal (length decoded)
                       @ text_of '' != 34''))
                else if decoded ! 0 \<noteq> ED25519_MULTICODEC_PREFIX ! 0
                     \<or> decoded ! 1 \<noteq> ED25519_MULTICODEC_PREFIX ! 1
                then Inl (InvalidDid (text_of ''multicodec prefix is not Ed25519 (0xed01)''))
                else Inr (take 32 (drop 2 decoded)))"

section \<open>Values of digit lists\<close>

fun dval :: "nat \<Rightarrow> u32 list \<Rightarrow> nat" where
  "dval b [] = 0"
| "dval b (d # ds) = unat d + b * dval b ds"

definition digits_ok :: "nat \<Rightarrow> u32 list \<Rightarrow> bool" where
  "digits_ok b ds \<longleftrightarrow> (\<forall>d \<in> set ds. unat d < b)"

text \<open>A representation without leading zeros; the value zero is the one digit 0.\<close>

definition minimal :: "u32 list \<Rightarrow> bool" where
  "minimal ds \<longleftrightarrow> ds = [0] \<or> ds \<noteq> [] \<and> last ds \<noteq> 0"

lemma digits_ok_simps [simp]:
  "digits_ok b []"
  "digits_ok b (d # ds) \<longleftrightarrow> unat d < b \<and> digits_ok b ds"
  "digits_ok b (xs @ ys) \<longleftrightarrow> digits_ok b xs \<and> digits_ok b ys"
  by (auto simp: digits_ok_def)

lemma dval_append: "dval b (xs @ ys) = dval b xs + b ^ length xs * dval b ys"
  by (induction xs) (simp_all add: algebra_simps)

lemma dval_less: "digits_ok b ds \<Longrightarrow> dval b ds < b ^ length ds"
proof (induction ds)
  case Nil
  then show ?case by simp
next
  case (Cons d ds)
  then have "unat d + 1 \<le> b" "dval b ds + 1 \<le> b ^ length ds" by simp_all
  then have "b * (dval b ds + 1) \<le> b * b ^ length ds" by (intro mult_le_mono2)
  then show ?case using \<open>unat d + 1 \<le> b\<close> by (simp add: algebra_simps)
qed

lemma unat_carry_step:
  fixes c d m b :: u32
  assumes "unat c < unat m" "unat d < unat b" "unat m * unat b < 2 ^ 32"
  shows "unat (c + d * m) = unat c + unat d * unat m" "unat ((c + d * m) div b) < unat m"
proof -
  have "unat c + unat d * unat m < unat m * unat b"
  proof -
    have "unat c + unat d * unat m < unat m + unat d * unat m" using assms(1) by simp
    also have "\<dots> = (unat d + 1) * unat m" by simp
    also have "\<dots> \<le> unat b * unat m" using assms(2) by (intro mult_le_mono1) simp
    finally show ?thesis by (simp add: mult.commute)
  qed
  moreover from this have "unat c + unat d * unat m < 2 ^ 32" using assms(3) by simp
  then show e: "unat (c + d * m) = unat c + unat d * unat m"
    by (simp add: unat_word_ariths)
  ultimately have "unat (c + d * m) < unat m * unat b" by simp
  then show "unat ((c + d * m) div b) < unat m"
    by (simp add: unat_div less_mult_imp_div_less)
qed

text \<open>One step of the outer loops: the value becomes \<open>m * value + digit\<close>.\<close>

lemma mul_carry_value:
  assumes "unat c < unat m" "digits_ok (unat b) ds" "unat m * unat b < 2 ^ 32" "1 < unat b"
  shows "digits_ok (unat b) (fst (mul_carry m b c ds)) \<and> unat (snd (mul_carry m b c ds)) < unat m
    \<and> length (fst (mul_carry m b c ds)) = length ds
    \<and> dval (unat b) (fst (mul_carry m b c ds)) + unat b ^ length ds * unat (snd (mul_carry m b c ds))
      = unat m * dval (unat b) ds + unat c"
  using assms(1,2)
proof (induction ds arbitrary: c)
  case Nil
  then show ?case by simp
next
  case (Cons d ds)
  then have d: "unat d < unat b" "digits_ok (unat b) ds" by simp_all
  note u = unat_carry_step [OF Cons.prems(1) d(1) assms(3)]
  let ?c = "c + d * m"
  obtain ds' f where r: "mul_carry m b (?c div b) ds = (ds', f)" by fastforce
  from Cons.IH [OF u(2) d(2)] r have IH: "digits_ok (unat b) ds'" "unat f < unat m"
    "length ds' = length ds"
    "dval (unat b) ds' + unat b ^ length ds * unat f = unat m * dval (unat b) ds + unat (?c div b)"
    by simp_all
  have "unat (?c mod b) + unat b * (dval (unat b) ds' + unat b ^ length ds * unat f) =
      unat (?c mod b) + unat b * (unat ?c div unat b) + unat b * (unat m * dval (unat b) ds)"
    unfolding IH(4) by (simp add: algebra_simps unat_div)
  also have "unat (?c mod b) + unat b * (unat ?c div unat b) = unat ?c"
    by (simp add: unat_mod)
  finally show ?case
    using r IH u(1) assms(4) by (simp add: Let_def algebra_simps unat_mod)
qed

lemma push_carry_value:
  assumes "1 < unat b"
  shows "digits_ok (unat b) (push_carry b c) \<and> dval (unat b) (push_carry b c) = unat c
    \<and> (c \<noteq> 0 \<longrightarrow> push_carry b c \<noteq> [] \<and> last (push_carry b c) \<noteq> 0)
    \<and> (c = 0 \<longrightarrow> push_carry b c = [])"
proof (induction "unat c" arbitrary: c rule: less_induct)
  case less
  have b: "1 < b" using assms by (simp add: word_less_nat_alt)
  show ?case
  proof (cases "c = 0")
    case True
    then show ?thesis by (simp add: push_carry.simps)
  next
    case False
    then have pos: "0 < c" by (simp add: word_neq_0_conv)
    have e: "push_carry b c = c mod b # push_carry b (c div b)"
      using b pos by (subst push_carry.simps) simp
    have "unat (c div b) < unat c"
      using pos assms by (simp add: unat_div word_less_nat_alt)
    note IH = less [OF this]
    have last: "last (c mod b # push_carry b (c div b)) \<noteq> 0"
    proof (cases "c div b = 0")
      case True
      then have "unat c div unat b = 0" by (simp add: unat_div flip: unat_eq_0)
      then have "unat (c mod b) = unat c"
        using assms by (simp add: unat_mod div_eq_0_iff)
      then have "c mod b \<noteq> 0" using False by (metis unat_eq_0)
      then show ?thesis using IH True by simp
    next
      case False
      then show ?thesis using IH by simp
    qed
    then show ?thesis using IH assms False by (simp add: e unat_mod unat_div)
  qed
qed

lemma append_digit_value:
  assumes "unat c < unat m" "digits_ok (unat b) ds" "unat m * unat b < 2 ^ 32" "1 < unat b"
  shows "digits_ok (unat b) (append_digit m b ds c)
    \<and> dval (unat b) (append_digit m b ds c) = unat m * dval (unat b) ds + unat c"
proof -
  obtain ds' f where r: "mul_carry m b c ds = (ds', f)" by fastforce
  show ?thesis
    using mul_carry_value [OF assms] push_carry_value [OF assms(4), of f] r
    by (simp add: append_digit_def dval_append)
qed

lemma dval_minimal:
  assumes "minimal ds" "0 < dval b ds" "0 < b"
  shows "b ^ (length ds - 1) \<le> dval b ds"
proof -
  have ne: "ds \<noteq> []" using assms(1) by (auto simp: minimal_def)
  have "last ds \<noteq> 0" using assms(1,2) by (auto simp: minimal_def)
  then have "1 \<le> unat (last ds)" by (simp add: Suc_le_eq unat_gt_0)
  have "dval b ds = dval b (butlast ds) + b ^ length (butlast ds) * unat (last ds)"
    using dval_append [of b "butlast ds" "[last ds]"] ne by simp
  then show ?thesis using \<open>1 \<le> unat (last ds)\<close> by (simp add: trans_le_add2)
qed

lemma append_digit_minimal:
  assumes "unat c < unat m" "digits_ok (unat b) ds" "unat m * unat b < 2 ^ 32" "1 < unat b"
    and "minimal ds"
  shows "minimal (append_digit m b ds c)"
proof -
  obtain ds' f where r: "mul_carry m b c ds = (ds', f)" by fastforce
  note V = mul_carry_value [OF assms(1-4)]
  have ne: "ds \<noteq> []" using assms(5) by (auto simp: minimal_def)
  then have ne': "ds' \<noteq> []" using V r by auto
  show ?thesis
  proof (cases "f = 0")
    case False
    then show ?thesis
      using push_carry_value [OF assms(4), of f] r by (simp add: append_digit_def minimal_def)
  next
    case True
    then have a: "append_digit m b ds c = ds'"
      using push_carry_value [OF assms(4), of f] r by (simp add: append_digit_def)
    have v: "dval (unat b) ds' = unat m * dval (unat b) ds + unat c"
      and ok: "digits_ok (unat b) ds'" and len: "length ds' = length ds"
      using V r True by simp_all
    show ?thesis
    proof (cases "length ds = 1")
      case True
      then obtain x where "ds' = [x]" using len by (cases ds') auto
      then show ?thesis by (simp add: a minimal_def)
    next
      case False
      then have "ds \<noteq> [0]" by auto
      then have "last ds \<noteq> 0" using assms(5) by (auto simp: minimal_def)
      have "0 < unat b" "0 < unat (last ds)"
        using \<open>last ds \<noteq> 0\<close> assms(4) unat_gt_0 [of "last ds"] by linarith+
      then have "0 < unat b ^ length (butlast ds) * unat (last ds)"
        by (intro mult_pos_pos zero_less_power)
      then have pos: "0 < dval (unat b) ds"
        using dval_append [of "unat b" "butlast ds" "[last ds]"] ne by simp
      have m: "0 < unat m" using assms(1) by simp
      have "unat b ^ (length ds' - 1) \<le> dval (unat b) ds'"
      proof -
        have "unat b ^ (length ds - 1) \<le> dval (unat b) ds"
          using dval_minimal [OF assms(5) pos] assms(4) by simp
        also have "\<dots> \<le> unat m * dval (unat b) ds" using m by simp
        finally show ?thesis using v len by simp
      qed
      have "last ds' \<noteq> 0"
      proof
        assume "last ds' = 0"
        then have "butlast ds' @ [0] = ds'" using ne' append_butlast_last_id by metis
        then have "dval (unat b) ds' = dval (unat b) (butlast ds')"
          using dval_append [of "unat b" "butlast ds'" "[0]"] by simp
        moreover have "digits_ok (unat b) (butlast ds')"
          using ok by (auto simp: digits_ok_def dest: in_set_butlastD)
        ultimately show False
          using dval_less [of "unat b" "butlast ds'"] \<open>unat b ^ (length ds' - 1) \<le> dval (unat b) ds'\<close>
          by simp
      qed
      then show ?thesis using ne' by (simp add: a minimal_def)
    qed
  qed
qed

lemma dval_unique:
  assumes "digits_ok b xs" "digits_ok b ys" "length xs = length ys" "dval b xs = dval b ys"
  shows "xs = ys"
  using assms(3,1,2,4)
proof (induction xs ys rule: list_induct2)
  case (Cons x xs y ys)
  have "(unat x + b * dval b xs) mod b = (unat y + b * dval b ys) mod b"
    using Cons.prems(3) by simp
  then have xy: "x = y" using Cons.prems by (simp add: word_unat_eq_iff)
  then have "b * dval b xs = b * dval b ys" using Cons.prems(3) by simp
  moreover have "0 < b" using Cons.prems(1) by simp
  ultimately show ?case using Cons.IH Cons.prems xy by simp
qed simp

lemma minimal_unique:
  assumes "minimal xs" "minimal ys" "digits_ok b xs" "digits_ok b ys" "dval b xs = dval b ys"
    and "0 < dval b xs" "1 < b"
  shows "xs = ys"
proof -
  have ne: "xs \<noteq> []" "ys \<noteq> []" using assms(1,2) by (auto simp: minimal_def)
  have "b ^ (length xs - 1) < b ^ length ys"
    by (rule le_less_trans [OF dval_minimal [OF assms(1)]])
      (use assms(5-7) dval_less [OF assms(4)] in simp_all)
  moreover have "b ^ (length ys - 1) < b ^ length xs"
    by (rule le_less_trans [OF dval_minimal [OF assms(2)]])
      (use assms(5-7) dval_less [OF assms(3)] in simp_all)
  ultimately have "length xs - 1 < length ys" "length ys - 1 < length xs"
    using assms(7) by (blast intro: power_less_imp_less_exp)+
  then have "length xs = length ys" using ne by linarith
  then show ?thesis by (rule dval_unique [OF assms(3,4) _ assms(5)])
qed

section \<open>Encoding and decoding as numbers\<close>

text \<open>The value of a byte string, the first byte the most significant.\<close>

definition bytes_value :: "u8 list \<Rightarrow> nat" where
  "bytes_value bs = foldl (\<lambda>v b. 256 * v + unat b) 0 bs"

definition encode_num :: "u8 list \<Rightarrow> u32 list" where
  "encode_num bs = foldl (\<lambda>num byte. append_digit 256 58 num (ucast byte)) [0] bs"

lemma u8_less: "unat (b :: u8) < 256"
  using unsigned_less [of b] by simp

lemma unat_u8_u32: "unat (ucast (b :: u8) :: u32) = unat b"
  using u8_less [of b] by (simp add: unsigned_ucast_eq take_bit_nat_eq_self)

lemma encode_num_props:
  "minimal (encode_num bs) \<and> digits_ok 58 (encode_num bs) \<and>
   dval 58 (encode_num bs) = bytes_value bs"
proof (induction bs rule: rev_induct)
  case Nil
  then show ?case by (simp add: encode_num_def minimal_def bytes_value_def)
next
  case (snoc b bs)
  have s: "encode_num (bs @ [b]) = append_digit 256 58 (encode_num bs) (ucast b)"
    by (simp add: encode_num_def)
  have c: "unat (ucast b :: u32) < unat (256 :: u32)"
    by (simp add: unat_u8_u32 u8_less)
  show ?case
    using append_digit_value [of "ucast b" 256 58 "encode_num bs"]
      append_digit_minimal [of "ucast b" 256 58 "encode_num bs"] snoc c
    by (simp add: s unat_u8_u32 bytes_value_def)
qed

definition digit_char :: "u32 \<Rightarrow> nat" where
  "digit_char d = unat (BASE58_ALPHABET ! unat d)"

lemma alphabet_length: "length BASE58_ALPHABET = 58"
  by (simp add: BASE58_ALPHABET_def)

lemma alphabet_distinct: "distinct BASE58_ALPHABET"
  unfolding BASE58_ALPHABET_def by code_simp

lemma position_nth:
  "distinct xs \<Longrightarrow> i < length xs \<Longrightarrow> position (\<lambda>c. c = xs ! i) xs = Some i"
proof (induction xs arbitrary: i)
  case Nil
  then show ?case by simp
next
  case (Cons x xs)
  then show ?case by (cases i) (auto simp: nth_eq_iff_index_eq in_set_conv_nth)
qed

lemma digit_char_position:
  assumes "unat d < 58" and "n mod 256 = digit_char d"
  shows "position (\<lambda>c. c = (of_nat n :: u8)) BASE58_ALPHABET = Some (unat d)"
proof -
  have "(of_nat n :: u8) = BASE58_ALPHABET ! unat d"
    using assms(2) by (simp add: digit_char_def word_unat_eq_iff unat_of_nat take_bit_eq_mod)
  then show ?thesis
    using position_nth [OF alphabet_distinct] assms(1) by (simp add: alphabet_length)
qed

lemma digit_char_one:
  assumes "unat d < 58" shows "digit_char d = 49 \<longleftrightarrow> d = 0"
proof -
  have "BASE58_ALPHABET ! 0 = 49" by (simp add: BASE58_ALPHABET_def)
  moreover have "BASE58_ALPHABET ! unat d = BASE58_ALPHABET ! 0 \<longleftrightarrow> unat d = 0"
    using assms by (subst nth_eq_iff_index_eq [OF alphabet_distinct]) (simp_all add: alphabet_length)
  moreover have "digit_char d = 49 \<longleftrightarrow> BASE58_ALPHABET ! unat d = 49"
    by (simp add: digit_char_def word_unat_eq_iff)
  ultimately show ?thesis by (simp add: unat_eq_0)
qed

text \<open>Decoding the characters of base-58 digits, most significant first.\<close>

definition decode_num :: "u32 list \<Rightarrow> u32 list" where
  "decode_num ds = foldl (\<lambda>num d. append_digit 58 256 num d) [0] ds"

lemma decode_digits_chars:
  assumes "digits_ok 58 ds" and "map (\<lambda>n. n mod 256) cs = map digit_char ds"
  shows "decode_digits cs num = Inr (foldl (\<lambda>num d. append_digit 58 256 num d) num ds)"
  using assms
proof (induction ds arbitrary: cs num)
  case Nil
  then show ?case by simp
next
  case (Cons d ds)
  then obtain n ns where cs: "cs = n # ns" "n mod 256 = digit_char d"
    "map (\<lambda>n. n mod 256) ns = map digit_char ds" by (cases cs) auto
  then show ?case
    using Cons digit_char_position [of d n] by simp
qed

lemma decode_num_props:
  assumes "digits_ok 58 ds"
  shows "minimal (decode_num ds) \<and> digits_ok 256 (decode_num ds)
    \<and> dval 256 (decode_num ds) = dval 58 (rev ds)"
  using assms
proof (induction ds rule: rev_induct)
  case Nil
  then show ?case by (simp add: decode_num_def minimal_def)
next
  case (snoc d ds)
  have s: "decode_num (ds @ [d]) = append_digit 58 256 (decode_num ds) d"
    by (simp add: decode_num_def)
  have c: "unat d < unat (58 :: u32)" using snoc.prems by simp
  show ?case
    using append_digit_value [of d 58 256 "decode_num ds"]
      append_digit_minimal [of d 58 256 "decode_num ds"] snoc c
    by (simp add: s)
qed

text \<open>A byte string that does not start with zero is the minimal representation of its value.\<close>

definition byte_digits :: "u8 list \<Rightarrow> u32 list" where
  "byte_digits bs = map ucast (rev bs)"

lemma byte_digits_value: "dval 256 (byte_digits bs) = bytes_value bs"
  by (induction bs rule: rev_induct)
    (simp_all add: byte_digits_def bytes_value_def unat_u8_u32)

lemma byte_digits_ok: "digits_ok 256 (byte_digits bs)"
  by (auto simp: byte_digits_def digits_ok_def unat_u8_u32 u8_less)

lemma byte_digits_minimal: "b \<noteq> 0 \<Longrightarrow> minimal (byte_digits (b # bs))"
proof -
  assume "b \<noteq> 0"
  then have "unat (ucast b :: u32) \<noteq> 0" by (simp add: unat_u8_u32 unat_eq_0)
  then have "(ucast b :: u32) \<noteq> 0" by (metis unat_0)
  then show ?thesis by (simp add: minimal_def byte_digits_def)
qed

lemma bytes_value_pos: "b \<noteq> 0 \<Longrightarrow> 0 < bytes_value (b # bs)"
proof (induction bs rule: rev_induct)
  case Nil
  then show ?case by (simp add: bytes_value_def unat_gt_0)
next
  case (snoc x xs)
  then show ?case by (simp add: bytes_value_def)
qed

lemma bytes_value_zeros: "bytes_value (replicate n 0 @ bs) = bytes_value bs"
  by (induction n) (simp_all add: bytes_value_def)

lemma drop_zeros_minimal: "minimal ds \<Longrightarrow> drop_zeros (rev ds) = rev ds"
  by (cases "rev ds" rule: drop_zeros.cases) (auto simp: minimal_def last_rev rev_swap dest: sym)

lemma ucast_byte_digits: "map ucast (rev (byte_digits bs)) = bs"
proof -
  have "(ucast (ucast b :: u32) :: u8) = b" for b :: u8
    by (rule ucast_up_ucast_id) (simp add: is_up)
  then show ?thesis by (simp add: byte_digits_def rev_map comp_def)
qed

lemma base58_encode_num:
  "bs \<noteq> [] \<Longrightarrow> base58_encode bs =
     replicate (length (takeWhile (\<lambda>b. b = 0) bs)) 49 @ map digit_char (rev (encode_num bs))"
  by (simp add: base58_encode_def encode_num_def digit_char_def fun_eq_iff)

lemma split_zeros: "bs = replicate (length (takeWhile (\<lambda>b. b = 0) bs)) (0 :: u8) @ dropWhile (\<lambda>b. b = 0) bs"
proof -
  have "takeWhile (\<lambda>b. b = 0) bs = replicate (length (takeWhile (\<lambda>b. b = 0) bs)) 0"
    by (induction bs) auto
  then show ?thesis by (metis takeWhile_dropWhile_id)
qed

text \<open>
  The core of both round trips: characters that agree modulo 256 with the encoding of a byte
  string starting with a non-zero byte decode to that byte string, when the first of them is not
  the character 1 itself; leading characters 1 decode to zero bytes.
\<close>

lemma decode_encoding:
  assumes b: "b \<noteq> 0" and cs: "map (\<lambda>n. n mod 256) cs = map digit_char (rev (encode_num (b # bs)))"
    and hd: "hd cs \<noteq> 49"
  shows "base58_decode (replicate n 49 @ cs) = Inr (replicate n 0 @ b # bs)"
proof -
  let ?num = "encode_num (b # bs)"
  have E: "minimal ?num" "digits_ok 58 ?num" "dval 58 ?num = bytes_value (b # bs)"
    using encode_num_props by blast+
  then have ne: "?num \<noteq> []" by (auto simp: minimal_def)
  have okr: "digits_ok 58 (replicate n 0 @ rev ?num)"
    using E(2) by (auto simp: digits_ok_def)
  have chars: "map (\<lambda>n. n mod 256) (replicate n 49 @ cs) = map digit_char (replicate n 0 @ rev ?num)"
  proof -
    have "digit_char 0 = 49" using digit_char_one [of 0] by simp
    then show ?thesis using cs by (simp add: map_replicate_const)
  qed
  let ?dec = "decode_num (replicate n 0 @ rev ?num)"
  have D: "minimal ?dec" "digits_ok 256 ?dec"
    "dval 256 ?dec = dval 58 (rev (replicate n 0 @ rev ?num))"
    using decode_num_props [OF okr] by blast+
  have "dval 58 (?num @ replicate n 0) = dval 58 ?num"
  proof -
    have "dval 58 (replicate n 0) = 0" by (induction n) simp_all
    then show ?thesis by (simp add: dval_append)
  qed
  then have "dval 256 ?dec = dval 256 (byte_digits (b # bs))"
    using D(3) E(3) by (simp add: byte_digits_value)
  then have dec: "?dec = byte_digits (b # bs)"
    using minimal_unique [OF D(1) byte_digits_minimal [OF b] D(2) byte_digits_ok]
      bytes_value_pos [OF b] by (simp add: byte_digits_value)
  have "cs \<noteq> []" using cs ne by (metis map_is_Nil_conv rev_is_Nil_conv)
  then have ones: "takeWhile (\<lambda>c. c = 49) (replicate n 49 @ cs) = replicate n 49"
    using hd by (induction n) (auto simp: takeWhile_eq_Nil_iff)
  have "decode_digits (replicate n 49 @ cs) [0] = Inr ?dec"
    using decode_digits_chars [OF okr chars] by (simp add: decode_num_def)
  then show ?thesis
    using \<open>cs \<noteq> []\<close> ones
    by (simp add: base58_decode_def dec drop_zeros_minimal [OF byte_digits_minimal [OF b]]
        ucast_byte_digits)
qed

lemma encode_num_zeros: "encode_num (replicate n 0 @ bs) = encode_num bs"
proof -
  have "append_digit 256 58 [0] 0 = [0]"
    by (simp add: append_digit_def push_carry.simps)
  then have "foldl (\<lambda>num byte. append_digit 256 58 num (ucast byte)) [0] (replicate n (0 :: u8)) = [0]"
    by (induction n) simp_all
  then show ?thesis by (simp add: encode_num_def)
qed

lemma digit_char_less: "digit_char d < 256"
  using u8_less by (simp add: digit_char_def)

lemma encode_first_not_one:
  assumes "b \<noteq> 0"
  shows "hd (map digit_char (rev (encode_num (b # bs)))) \<noteq> 49"
proof -
  have E: "minimal (encode_num (b # bs))" "digits_ok 58 (encode_num (b # bs))"
    "dval 58 (encode_num (b # bs)) = bytes_value (b # bs)"
    using encode_num_props by blast+
  then have ne: "encode_num (b # bs) \<noteq> []" by (auto simp: minimal_def)
  have "encode_num (b # bs) \<noteq> [0]"
    using E(3) bytes_value_pos [OF assms, of bs] by auto
  then have "last (encode_num (b # bs)) \<noteq> 0" using E(1) by (simp add: minimal_def)
  moreover have "unat (last (encode_num (b # bs))) < 58"
    using E(2) ne by (simp add: digits_ok_def)
  ultimately show ?thesis
    using ne digit_char_one by (simp add: hd_map hd_rev)
qed

lemma map_mod_id: "map (\<lambda>n. n mod 256) (map digit_char ds) = map digit_char ds"
  using digit_char_less by simp

lemma payload_alias:
  assumes "map (\<lambda>n. n mod 256) cs =
      map (\<lambda>n. n mod 256) (base58_encode (ED25519_MULTICODEC_PREFIX @ pk))" and "hd cs \<noteq> 49"
  shows "base58_decode cs = Inr (ED25519_MULTICODEC_PREFIX @ pk)"
proof -
  have enc: "base58_encode (ED25519_MULTICODEC_PREFIX @ pk) =
      map digit_char (rev (encode_num (0xed # 0x01 # pk)))"
    by (simp add: base58_encode_num ED25519_MULTICODEC_PREFIX_def)
  have "base58_decode (replicate 0 49 @ cs) = Inr (replicate 0 0 @ 0xed # 0x01 # pk)"
    by (rule decode_encoding) (use assms enc map_mod_id in simp_all)
  then show ?thesis by (simp add: ED25519_MULTICODEC_PREFIX_def)
qed

lemma payload_round_trip:
  "base58_decode (base58_encode (ED25519_MULTICODEC_PREFIX @ pk)) =
     Inr (ED25519_MULTICODEC_PREFIX @ pk)"
proof (rule payload_alias [OF refl])
  show "hd (base58_encode (ED25519_MULTICODEC_PREFIX @ pk)) \<noteq> 49"
    using encode_first_not_one [of "0xed" "0x01 # pk"]
    by (simp add: base58_encode_num ED25519_MULTICODEC_PREFIX_def)
qed

lemma prefix_simps [simp]:
  "length ED25519_MULTICODEC_PREFIX = 2"
  "(ED25519_MULTICODEC_PREFIX @ pk) ! 0 = ED25519_MULTICODEC_PREFIX ! 0"
  "(ED25519_MULTICODEC_PREFIX @ pk) ! Suc 0 = ED25519_MULTICODEC_PREFIX ! Suc 0"
  by (simp_all add: ED25519_MULTICODEC_PREFIX_def)

lemma extract_payload:
  assumes "base58_decode cs = Inr (ED25519_MULTICODEC_PREFIX @ pk)" and "length pk = 32"
  shows "extract_public_key
      \<lparr>did_method = text_of ''key'', did_identifier = of_char (CHR ''z'') # cs\<rparr> = Inr pk"
  using assms by (simp add: extract_public_key_def)

section \<open>Properties\<close>

lemma base58_all_zero:
  assumes "bs \<noteq> []" "\<forall>b \<in> set bs. b = 0"
  shows "base58_decode (base58_encode bs) = Inr (replicate (length bs + 2) 0)"
proof -
  have bs: "bs = replicate (length bs) 0" using assms(2) by (simp add: replicate_eqI)
  have "encode_num [] = [0]" by (simp add: encode_num_def)
  then have num: "encode_num bs = [0]"
    using encode_num_zeros [of "length bs" "[]"] bs by simp
  have one: "digit_char 0 = 49" using digit_char_one [of 0] by simp
  have "length (takeWhile (\<lambda>b. b = 0) bs) = length bs"
    using assms(2) by (simp add: takeWhile_eq_all_conv [THEN iffD2])
  then have enc: "base58_encode bs = replicate (length bs) 49 @ [49]"
    using assms(1) num one by (simp add: base58_encode_num)
  have rep: "replicate (length bs) 49 @ [49] = replicate (Suc (length bs)) (49 :: nat)"
    by (simp add: replicate_append_same)
  have ones: "takeWhile (\<lambda>c. c = 49) (replicate k (49 :: nat)) = replicate k 49" for k
    by (induction k) simp_all
  have ad: "append_digit 58 256 [0] 0 = [0]"
    by (simp add: append_digit_def push_carry.simps)
  have pos: "position (\<lambda>c. c = (of_nat 49 :: u8)) BASE58_ALPHABET = Some 0"
    using digit_char_position [of 0 49] one by simp
  have "decode_digits (replicate k 49) [0] = Inr [0]" for k
    by (induction k) (use pos ad in simp_all)
  then have "base58_decode (base58_encode bs) = Inr (replicate (Suc (length bs)) 0 @ [0])"
    unfolding enc rep base58_decode_def by (simp add: ones del: replicate.simps)
  also have "replicate (Suc (length bs)) (0 :: u8) @ [0] = replicate (length bs + 2) 0"
    by (simp add: replicate_append_same)
  finally show ?thesis .
qed

text \<open>
  Base58 decoding inverts encoding on every byte string that is empty or has a non-zero byte,
  leading zeros included. A string of \<open>n > 0\<close> zero bytes does not survive: it comes back as
  \<open>n + 2\<close> zero bytes (the value zero adds one character when encoding, and one byte when decoding).
\<close>

lemma base58_round_trip:
  "base58_decode (base58_encode bs) =
     Inr (if bs = [] \<or> (\<exists>b \<in> set bs. b \<noteq> 0) then bs else replicate (length bs + 2) 0)"
proof (cases "dropWhile (\<lambda>b. b = 0) bs")
  case Nil
  then have all: "\<forall>b \<in> set bs. b = 0" by (simp add: dropWhile_eq_Nil_conv)
  show ?thesis
  proof (cases "bs = []")
    case True
    then show ?thesis by (simp add: base58_encode_def base58_decode_def)
  next
    case False
    have n: "\<not> (bs = [] \<or> (\<exists>b \<in> set bs. b \<noteq> 0))" using all False by simp
    show ?thesis unfolding if_not_P [OF n] by (rule base58_all_zero [OF False all])
  qed
next
  case (Cons b rest)
  let ?n = "length (takeWhile (\<lambda>b. b = 0) bs)"
  have b: "b \<noteq> 0" using hd_dropWhile [of "\<lambda>b. b = 0" bs] Cons by simp
  have bs: "bs = replicate ?n 0 @ b # rest" using split_zeros [of bs] Cons by simp
  then have ne: "bs \<noteq> []" by auto
  have num: "encode_num bs = encode_num (b # rest)"
    by (subst bs) (rule encode_num_zeros)
  have "base58_decode (base58_encode bs) = Inr (replicate ?n 0 @ b # rest)"
    unfolding base58_encode_num [OF ne] num
    by (rule decode_encoding [OF b map_mod_id encode_first_not_one [OF b]])
  then have "base58_decode (base58_encode bs) = Inr bs" using bs by simp
  moreover have "b \<in> set bs" by (subst bs) simp
  ultimately show ?thesis using b by auto
qed

text \<open>
  The public key of a generated \<open>did:key\<close> identifier is extracted unchanged, and the
  identifier verifies against a key exactly when it is the one generated from that key.
\<close>

lemma did_round_trip:
  assumes "length pk = 32" and "generate_did pk = Inr d"
  shows "extract_public_key d = Inr pk \<and> verify_did d pk' = Inr (pk' = pk)"
proof
  have d: "d = \<lparr>did_method = text_of ''key'',
      did_identifier = of_char (CHR ''z'') # base58_encode (ED25519_MULTICODEC_PREFIX @ pk)\<rparr>"
    using assms(2) by (simp add: generate_did_def)
  show "extract_public_key d = Inr pk"
    unfolding d by (rule extract_payload [OF payload_round_trip assms(1)])
  have "base58_encode (ED25519_MULTICODEC_PREFIX @ pk) = base58_encode (ED25519_MULTICODEC_PREFIX @ pk')
      \<longleftrightarrow> pk' = pk"
    using payload_round_trip by (metis append_eq_append_conv sum.inject(2))
  then show "verify_did d pk' = Inr (pk' = pk)"
    by (simp add: verify_did_def d generate_did_def)
qed

lemma did_round_trip_example:
  "\<exists>d. generate_did (replicate 32 7) = Inr d \<and> extract_public_key d = Inr (replicate 32 7) \<and>
     verify_did d (replicate 32 8) = Inr False"
proof -
  obtain d where d: "generate_did (replicate 32 7) = Inr d" by (simp add: generate_did_def)
  have "replicate 32 (8 :: u8) \<noteq> replicate 32 7"
    unfolding replicate_eq_replicate by simp
  then show ?thesis
    using did_round_trip [OF _ d, of "replicate 32 8"] d by simp
qed

text \<open>
  A \<open>did:key\<close> identifier has other spellings that name the same key: adding 256 to every
  character after the leading \<open>z\<close> gives a different identifier from which the same public key is
  extracted, although it does not verify against that key. (The decoder truncates every character
  to eight bits before looking it up.)
\<close>

lemma did_alias_accepted:
  assumes "length pk = 32" and "generate_did pk = Inr d"
  defines "alias \<equiv> d\<lparr>did_identifier :=
     hd (did_identifier d) # map (\<lambda>c. c + 256) (tl (did_identifier d))\<rparr>"
  shows "alias \<noteq> d \<and> extract_public_key alias = Inr pk \<and> verify_did alias pk = Inr False"
proof -
  let ?cs = "base58_encode (ED25519_MULTICODEC_PREFIX @ pk)"
  have d: "d = \<lparr>did_method = text_of ''key'', did_identifier = of_char (CHR ''z'') # ?cs\<rparr>"
    using assms(2) by (simp add: generate_did_def)
  have al: "alias = \<lparr>did_method = text_of ''key'',
      did_identifier = of_char (CHR ''z'') # map (\<lambda>c. c + 256) ?cs\<rparr>"
    by (simp add: alias_def d)
  have ne: "?cs \<noteq> []"
    using encode_num_props [of "ED25519_MULTICODEC_PREFIX @ pk"]
    by (auto simp: base58_encode_num ED25519_MULTICODEC_PREFIX_def minimal_def)
  then have neq: "map (\<lambda>c. c + 256) ?cs \<noteq> ?cs"
    by (cases ?cs) simp_all
  have "map (\<lambda>n. n mod 256) (map (\<lambda>c. c + 256) ?cs) = map (\<lambda>n. n mod 256) ?cs"
    by (simp add: comp_def)
  then have "base58_decode (map (\<lambda>c. c + 256) ?cs) = Inr (ED25519_MULTICODEC_PREFIX @ pk)"
    using payload_alias [of "map (\<lambda>c. c + 256) ?cs" pk] ne by (simp add: hd_map)
  from extract_payload [OF this assms(1)] show ?thesis
    using neq by (simp add: al d verify_did_def generate_did_def)
qed

lemma did_alias_accepted_example:
  "\<exists>d alias. generate_did (replicate 32 7) = Inr d \<and> alias \<noteq> d
     \<and> extract_public_key alias = Inr (replicate 32 7)"
proof -
  obtain d where d: "generate_did (replicate 32 7) = Inr d" by (simp add: generate_did_def)
  show ?thesis using did_alias_accepted [OF _ d] d by auto
qed

end
