(* ===== verification/Trust.thy ===== *)
theory Trust
  imports Atp_Types
begin

text \<open>
  Trust scores of \<open>atp-identity\<close> (\<open>trust.rs\<close>): the time-decayed weighted average of the qualities
  in an agent's interaction records.

  The transcendental functions of the standard library have an unspecified precision: they are the
  parameter \<open>libm\<close>. Of the exponential the code relies on what \<open>exp_ok\<close> states: it is a binary64
  number, and for an argument that is not positive it lies between zero and one.
\<close>

record libm =
  lm_exp :: "f64 \<Rightarrow> f64"
  lm_powi :: "f64 \<Rightarrow> nat \<Rightarrow> f64"

definition exp_ok :: "libm \<Rightarrow> bool" where
  "exp_ok lm \<longleftrightarrow> (\<forall>x. x \<le> 0 \<longrightarrow> unit_f64 (lm_exp lm x) \<and> f64_wf (lm_exp lm x))"

text \<open>\<open>TimeDelta::num_seconds\<close>: whole seconds, rounded towards zero.\<close>

definition num_seconds :: "timedelta \<Rightarrow> int" where
  "num_seconds d = sgn d * (\<bar>d\<bar> div 1000000000)"

definition DEFAULT_LAMBDA :: f64 where "DEFAULT_LAMBDA = to_f64 (1 / 100)"

definition DEFAULT_PRIOR :: f64 where "DEFAULT_PRIOR = to_f64 (5 / 10)"

record trust_engine =
  te_lambda :: f64
  te_prior :: f64

definition default_trust_engine :: trust_engine where
  "default_trust_engine = \<lparr>te_lambda = DEFAULT_LAMBDA, te_prior = DEFAULT_PRIOR\<rparr>"

definition trust_engine_new :: "f64 \<Rightarrow> f64 \<Rightarrow> trust_engine" where
  "trust_engine_new l p = \<lparr>te_lambda = l, te_prior = p\<rparr>"

definition days_since :: "datetime \<Rightarrow> datetime \<Rightarrow> f64" where
  "days_since timestamp now =
     f64_max (f64_of_int (num_seconds (now - timestamp)) / to_f64 86400) 0"

definition decay_weight :: "libm \<Rightarrow> trust_engine \<Rightarrow> f64 \<Rightarrow> f64" where
  "decay_weight lm te days_ago = lm_exp lm (- te_lambda te * days_ago)"

text \<open>The weight of one record inside the loops.\<close>

definition record_weight :: "libm \<Rightarrow> trust_engine \<Rightarrow> datetime \<Rightarrow> interaction_record \<Rightarrow> f64" where
  "record_weight lm te now r =
     (let days_ago = days_since (ir_timestamp r) now;
          w = lm_exp lm (- te_lambda te * days_ago);
          gamma = complexity_weight (ir_task_type r)
      in w * gamma)"

fun weigh ::
  "libm \<Rightarrow> trust_engine \<Rightarrow> datetime \<Rightarrow> interaction_record list \<Rightarrow> f64 \<Rightarrow> f64 \<Rightarrow> f64 \<times> f64" where
  "weigh lm te now [] numerator denominator = (numerator, denominator)"
| "weigh lm te now (r # rs) numerator denominator =
     (let weight = record_weight lm te now r
      in weigh lm te now rs (numerator + ir_quality_score r * weight) (denominator + weight))"

definition weighted_average ::
  "libm \<Rightarrow> trust_engine \<Rightarrow> interaction_record list \<Rightarrow> datetime \<Rightarrow> f64 \<times> u32" where
  "weighted_average lm te rs now =
     (if rs = [] then (te_prior te, 0)
      else (let (numerator, denominator) = weigh lm te now rs 0 0
            in if denominator = 0 then (te_prior te, 0)
               else (clamp (numerator / denominator) 0 1, of_nat (length rs))))"

definition compute_trust_score ::
  "libm \<Rightarrow> trust_engine \<Rightarrow> agent_id \<Rightarrow> task_type \<Rightarrow> interaction_record list \<Rightarrow> datetime \<Rightarrow>
   trust_score" where
  "compute_trust_score lm te subject t rs now =
     (let (score, count) =
        weighted_average lm te (filter (\<lambda>r. ir_subject r = subject \<and> ir_task_type r = t) rs) now
      in \<lparr>ts_agent = subject, ts_task_type = t, ts_score = score, ts_sample_count = count,
          ts_last_updated = now\<rparr>)"

definition compute_trust_vector ::
  "libm \<Rightarrow> trust_engine \<Rightarrow> agent_id \<Rightarrow> interaction_record list \<Rightarrow> datetime \<Rightarrow> trust_vector" where
  "compute_trust_vector lm te subject rs now =
     foldl (\<lambda>tv t. tv_set tv t (ts_score (compute_trust_score lm te subject t rs now)))
       Map.empty all_task_types"

definition compute_aggregate_trust ::
  "libm \<Rightarrow> trust_engine \<Rightarrow> agent_id \<Rightarrow> interaction_record list \<Rightarrow> datetime \<Rightarrow> f64" where
  "compute_aggregate_trust lm te subject rs now =
     (let relevant = filter (\<lambda>r. ir_subject r = subject) rs
      in if relevant = [] then te_prior te
         else (let (numerator, denominator) = weigh lm te now relevant 0 0
               in if denominator = 0 then te_prior te
                  else clamp (numerator / denominator) 0 1))"

section \<open>Weights\<close>

lemma f64_max_zero_nonneg: "0 \<le> f64_max x 0"
  by (cases x) (auto simp: f64_max_def f64_zero_one_Fin)

lemma days_since_nonneg: "0 \<le> days_since t now"
  by (simp add: days_since_def f64_max_zero_nonneg)

text \<open>An engine that decays, with a prior in the unit interval.\<close>

definition engine_ok :: "trust_engine \<Rightarrow> bool" where
  "engine_ok te \<longleftrightarrow> 0 < te_lambda te \<and> is_finite (te_lambda te) \<and> unit_f64 (te_prior te)"

lemma default_engine_ok: "engine_ok default_trust_engine"
  by (simp add: engine_ok_def default_trust_engine_def DEFAULT_LAMBDA_def DEFAULT_PRIOR_def
      to_f64_lits f64_zero_one_Fin is_finite_def unit_f64_def)

lemma decay_exponent:
  assumes "engine_ok te" "0 \<le> d"
  shows "- te_lambda te * d \<le> 0"
proof (cases "te_lambda te")
  case (Fin l)
  then have l: "0 < l" using assms by (simp add: engine_ok_def f64_zero_one_Fin)
  show ?thesis
  proof (cases d)
    case (Fin x)
    then have "- (l * x) \<le> 0" using assms(2) l by (simp add: f64_zero_one_Fin)
    then have "to_f64 (- (l * x)) \<le> to_f64 0" by (rule to_f64_mono)
    then show ?thesis using Fin \<open>te_lambda te = Fin l\<close> by (simp add: f64_zero_one_Fin to_f64_exact)
  qed (use assms l Fin in \<open>auto simp: f64_zero_one_Fin\<close>)
qed (use assms in \<open>auto simp: engine_ok_def is_finite_def\<close>)

lemma record_weight_bounds:
  assumes "exp_ok lm" "engine_ok te"
  shows "\<exists>w. record_weight lm te now r = Fin w \<and> 0 \<le> w \<and> w \<le> 2 \<and> exact w"
proof -
  have "- te_lambda te * days_since (ir_timestamp r) now \<le> 0"
    by (rule decay_exponent [OF assms(2) days_since_nonneg])
  then have "unit_f64 (lm_exp lm (- te_lambda te * days_since (ir_timestamp r) now))"
    using assms(1) by (simp add: exp_ok_def)
  then obtain e where e: "lm_exp lm (- te_lambda te * days_since (ir_timestamp r) now) = Fin e"
    "0 \<le> e" "e \<le> 1" by (auto simp: unit_f64_Fin)
  obtain g where g: "complexity_weight (ir_task_type r) = Fin g" "1 / 2 \<le> g" "g \<le> 2"
    using complexity_weight_bounds [of "ir_task_type r"]
    by (cases "complexity_weight (ir_task_type r)") auto
  have "0 \<le> e * g" "e * g \<le> 2"
    using e g mult_mono [of e 1 g 2] by simp_all
  moreover have "exact 2" using exact_of_int [of 2] by simp
  ultimately obtain s where "to_f64 (e * g) = Fin s" "0 \<le> s" "s \<le> 2" "exact s"
    using to_f64_between [of 0 "e * g" 2] by auto
  then show ?thesis using e g by (simp add: record_weight_def Let_def)
qed

text \<open>A record whose quality is a number in the unit interval.\<close>

definition sane :: "interaction_record \<Rightarrow> bool" where
  "sane r \<longleftrightarrow> unit_f64 (ir_quality_score r)"

lemma sum_step:
  assumes "0 \<le> a" "a \<le> b" "b \<le> of_nat (2 * k)" "0 \<le> c" "c \<le> w" "w \<le> 2" "k < 2 ^ 52"
  shows "\<exists>a' b'. Fin a + Fin c = Fin a' \<and> Fin b + Fin w = Fin b' \<and> 0 \<le> a' \<and> a' \<le> b'
    \<and> b' \<le> of_nat (2 * Suc k)"
proof -
  have ex: "exact (of_nat (2 * Suc k))"
  proof -
    have "\<bar>int (2 * Suc k)\<bar> \<le> 2 ^ 53" using assms(7) by simp
    from exact_of_int [OF this] show ?thesis by simp
  qed
  have le: "0 \<le> a + c" "a + c \<le> b + w" "b + w \<le> of_nat (2 * Suc k)" using assms by simp_all
  obtain a' where a: "to_f64 (a + c) = Fin a'" "0 \<le> a'"
    using to_f64_between [OF le(1) order.trans [OF le(2,3)] exact_0 ex] by blast
  obtain b' where b: "to_f64 (b + w) = Fin b'" "b' \<le> of_nat (2 * Suc k)"
    using to_f64_between [OF order.trans [OF le(1,2)] le(3) exact_0 ex] by blast
  have "a' \<le> b'" using to_f64_mono [OF le(2)] a b by simp
  then show ?thesis using a b by simp
qed

lemma weigh_bounds:
  assumes "exp_ok lm" "engine_ok te" "\<forall>r \<in> set rs. sane r" "k + length rs \<le> 2 ^ 52"
    and "0 \<le> a" "a \<le> b" "b \<le> of_nat (2 * k)"
  shows "\<exists>a' b'. weigh lm te now rs (Fin a) (Fin b) = (Fin a', Fin b') \<and> 0 \<le> a' \<and> a' \<le> b'"
  using assms(3-7)
proof (induction rs arbitrary: k a b)
  case Nil
  then show ?case by simp
next
  case (Cons r rs)
  obtain w where w: "record_weight lm te now r = Fin w" "0 \<le> w" "w \<le> 2" "exact w"
    using record_weight_bounds [OF assms(1,2)] by blast
  have q: "unit_f64 (ir_quality_score r)" using Cons.prems(1) by (simp add: sane_def)
  have "ir_quality_score r * Fin w \<le> Fin w" "0 \<le> ir_quality_score r * Fin w"
    using times_unit_le(1) [OF q, of "Fin w"] w nonneg_times_fin [of "ir_quality_score r" "Fin w"] q
    by (auto simp: f64_zero_one_Fin is_finite_def f64_wf_Fin unit_f64_Fin)
  then obtain c where c: "ir_quality_score r * Fin w = Fin c" "0 \<le> c" "c \<le> w"
    by (cases "ir_quality_score r * Fin w") (auto simp: f64_zero_one_Fin)
  have "k < 2 ^ 52" using Cons.prems(2) by simp
  then obtain a' b' where s: "Fin a + Fin c = Fin a'" "Fin b + Fin w = Fin b'"
    "0 \<le> a'" "a' \<le> b'" "b' \<le> of_nat (2 * Suc k)"
    using sum_step [OF Cons.prems(3-5) c(2,3) w(3)] by blast
  have "\<exists>a'' b''. weigh lm te now rs (Fin a') (Fin b') = (Fin a'', Fin b'') \<and> 0 \<le> a'' \<and> a'' \<le> b''"
    using Cons.IH [OF _ _ s(3-5)] Cons.prems(1,2) by simp
  then show ?case by (simp add: w c s del: plus_f64.simps times_f64.simps)
qed

lemma weigh_unit:
  assumes "exp_ok lm" "engine_ok te" "\<forall>r \<in> set rs. sane r" "length rs \<le> 2 ^ 52"
    and "weigh lm te now rs 0 0 = (n, d)" "d \<noteq> 0"
  shows "unit_f64 (n / d)"
proof -
  obtain a b where "weigh lm te now rs (Fin 0) (Fin 0) = (Fin a, Fin b)" "0 \<le> a" "a \<le> b"
    using weigh_bounds [OF assms(1-3), of 0 0 0 now] assms(4) by auto
  then show ?thesis
    using assms(5,6) by (auto simp: f64_zero_one_Fin is_finite_def intro!: div_le_one)
qed

lemma weighted_average_unit:
  assumes "exp_ok lm" "engine_ok te" "\<forall>r \<in> set rs. sane r" "length rs \<le> 2 ^ 52"
  shows "unit_f64 (fst (weighted_average lm te rs now))"
proof (cases "weigh lm te now rs 0 0")
  case (Pair n d)
  then show ?thesis
    using assms(2) weigh_unit [OF assms Pair]
    by (auto simp: weighted_average_def engine_ok_def clamp_id)
qed

lemma aggregate_weighted_average:
  "compute_aggregate_trust lm te s rs now =
     fst (weighted_average lm te (filter (\<lambda>r. ir_subject r = s) rs) now)"
  by (auto simp: compute_aggregate_trust_def weighted_average_def Let_def split: prod.splits)

lemma aggregate_unit:
  assumes "exp_ok lm" "engine_ok te" "\<forall>r \<in> set rs. ir_subject r = s \<longrightarrow> sane r"
    "length rs \<le> 2 ^ 52"
  shows "unit_f64 (compute_aggregate_trust lm te s rs now)"
proof -
  have "length (filter (\<lambda>r. ir_subject r = s) rs) \<le> 2 ^ 52"
    using assms(4) length_filter_le order.trans by blast
  then show ?thesis
    unfolding aggregate_weighted_average
    using assms(3) by (intro weighted_average_unit [OF assms(1,2)]) auto
qed

lemma trust_score_weighted_average:
  "ts_score (compute_trust_score lm te s t rs now) =
     fst (weighted_average lm te (filter (\<lambda>r. ir_subject r = s \<and> ir_task_type r = t) rs) now)"
  by (simp add: compute_trust_score_def case_prod_beta)

lemma trust_vector_get:
  "tv_get (compute_trust_vector lm te s rs now) t =
     clamp (ts_score (compute_trust_score lm te s t rs now)) 0 1"
  by (cases t) (simp_all add: compute_trust_vector_def all_task_types_def tv_set_get)

lemma weigh_NaN:
  "n = NaN \<or> (\<exists>r \<in> set rs. ir_quality_score r = NaN) \<Longrightarrow> fst (weigh lm te now rs n d) = NaN"
proof (induction rs arbitrary: n d)
  case Nil
  then show ?case by simp
next
  case (Cons r rs)
  have "NaN + x = NaN" "x + NaN = NaN" "NaN * x = NaN" for x :: f64
    by (cases x; simp)+
  then show ?case using Cons by (auto simp: Let_def)
qed

lemma weigh_perfect:
  assumes "exp_ok lm" "engine_ok te" "\<forall>r \<in> set rs. ir_quality_score r = 1" "n = d"
  shows "fst (weigh lm te now rs n d) = snd (weigh lm te now rs n d)"
  using assms(3,4)
proof (induction rs arbitrary: n d)
  case Nil
  then show ?case by simp
next
  case (Cons r rs)
  obtain w where "record_weight lm te now r = Fin w" "exact w"
    using record_weight_bounds [OF assms(1,2)] by blast
  then have "1 * record_weight lm te now r = record_weight lm te now r"
    by (simp add: f64_zero_one_Fin to_f64_exact)
  then show ?case using Cons by (simp add: Let_def)
qed

section \<open>Properties\<close>

text \<open>An instance of the library functions for witnesses: no decay at all.\<close>

definition flat_libm :: libm where
  "flat_libm = \<lparr>lm_exp = (\<lambda>_. 1), lm_powi = (\<lambda>x n. foldl (*) 1 (replicate n x))\<rparr>"

lemma flat_libm_exp: "exp_ok flat_libm"
  by (simp add: exp_ok_def flat_libm_def)

definition record_example :: "f64 \<Rightarrow> interaction_record" where
  "record_example q = \<lparr>ir_evaluator = AgentId 2, ir_subject = AgentId 1,
     ir_task_type = CreativeWriting, ir_quality_score = q, ir_latency_ms = 10, ir_cost = 0,
     ir_timestamp = 0, ir_signature = []\<rparr>"

text \<open>
  C32. For records whose qualities lie in the unit interval, every trust value the engine computes
  (per task type, in the vector, in the aggregate) lies in the unit interval, whatever the ages of
  the records; without records it is the prior with sample count zero.
\<close>

theorem trust_in_unit_interval:
  assumes "exp_ok lm" and "engine_ok te" and "length rs \<le> 2 ^ 52"
    and "\<forall>r \<in> set rs. ir_subject r = s \<longrightarrow> sane r"
  shows "unit_f64 (ts_score (compute_trust_score lm te s t rs now))
    \<and> unit_f64 (compute_aggregate_trust lm te s rs now)
    \<and> unit_f64 (tv_get (compute_trust_vector lm te s rs now) t)
    \<and> compute_trust_score lm te s t [] now = \<lparr>ts_agent = s, ts_task_type = t, ts_score = te_prior te,
        ts_sample_count = 0, ts_last_updated = now\<rparr>"
proof -
  have "length (filter (\<lambda>r. ir_subject r = s \<and> ir_task_type r = t) rs) \<le> 2 ^ 52"
    using assms(3) length_filter_le order.trans by blast
  then have u: "unit_f64 (ts_score (compute_trust_score lm te s t rs now))"
    unfolding trust_score_weighted_average
    using assms(4) by (intro weighted_average_unit [OF assms(1,2)]) auto
  then show ?thesis
    using aggregate_unit [OF assms(1,2,4,3)]
    by (simp add: trust_vector_get clamp_id)
      (simp add: compute_trust_score_def weighted_average_def)
qed

theorem trust_in_unit_interval_witness:
  "unit_f64 (compute_aggregate_trust flat_libm default_trust_engine (AgentId 1)
     [record_example 1, record_example (Fin (1 / 2))] 0)"
proof -
  have "unit_f64 (Fin (1 / 2))" by (simp add: unit_f64_def f64_zero_one_Fin)
  then have "\<forall>r \<in> set [record_example 1, record_example (Fin (1 / 2))].
      ir_subject r = AgentId 1 \<longrightarrow> sane r"
    by (simp add: record_example_def sane_def)
  from trust_in_unit_interval [OF flat_libm_exp default_engine_ok _ this] show ?thesis by simp
qed

lemma aggregate_extremes:
  assumes "exp_ok lm" and "engine_ok te" and "relevant = filter (\<lambda>r. ir_subject r = s) rs"
    and "snd (weigh lm te now relevant 0 0) \<noteq> 0" and "length rs \<le> 2 ^ 52" and "relevant \<noteq> []"
  shows "((\<forall>r \<in> set relevant. ir_quality_score r = 1) \<longrightarrow> compute_aggregate_trust lm te s rs now = 1)
    \<and> ((\<exists>r \<in> set relevant. ir_quality_score r = NaN) \<longrightarrow> compute_aggregate_trust lm te s rs now = NaN)"
proof (intro conjI impI)
  obtain n d where nd: "weigh lm te now relevant 0 0 = (n, d)" by (cases "weigh lm te now relevant 0 0")
  have agg: "compute_aggregate_trust lm te s rs now = clamp (n / d) 0 1"
    using assms(3,4,6) nd by (simp add: compute_aggregate_trust_def)
  {
    assume one: "\<forall>r \<in> set relevant. ir_quality_score r = 1"
    have len: "length relevant \<le> 2 ^ 52"
      using assms(3,5) length_filter_le order.trans by blast
    have "\<forall>r \<in> set relevant. sane r" using one by (simp add: sane_def)
    then obtain a b where ab: "weigh lm te now relevant (Fin 0) (Fin 0) = (Fin a, Fin b)"
      using weigh_bounds [OF assms(1,2), of relevant 0 0 0 now] len by auto
    have "n = d" using weigh_perfect [OF assms(1,2) one, of 0 0 now] nd by simp
    moreover have "d = Fin b" "b \<noteq> 0" using ab nd assms(4) by (auto simp: f64_zero_one_Fin)
    ultimately have "n / d = 1"
      using to_f64_exact [OF exact_1] by (simp add: f64_zero_one_Fin)
    then show "compute_aggregate_trust lm te s rs now = 1"
      unfolding agg by (simp add: clamp_id)
  }
  assume "\<exists>r \<in> set relevant. ir_quality_score r = NaN"
  then have "n = NaN" using weigh_NaN [of 0 relevant lm te now 0] nd by simp
  then have "n / d = NaN" by (cases d) simp_all
  then show "compute_aggregate_trust lm te s rs now = NaN" unfolding agg by simp
qed

text \<open>
  The extremes of the average: an agent all of whose records have quality one scores exactly
  one (no rounding error), and one record of quality NaN makes the score NaN for good, provided
  the weights of the records do not all vanish.
\<close>

lemma trust_extremes:
  assumes "exp_ok lm" and "engine_ok te" and "relevant = filter (\<lambda>r. ir_subject r = s) rs"
    and "snd (weigh lm te now relevant 0 0) \<noteq> 0" and "length rs \<le> 2 ^ 52" and "relevant \<noteq> []"
  shows "((\<forall>r \<in> set relevant. ir_quality_score r = 1) \<longrightarrow> compute_aggregate_trust lm te s rs now = 1)
    \<and> ((\<exists>r \<in> set relevant. ir_quality_score r = NaN) \<longrightarrow> compute_aggregate_trust lm te s rs now = NaN)"
  by (rule aggregate_extremes [OF assms])

lemma trust_extremes_example:
  "compute_aggregate_trust flat_libm default_trust_engine (AgentId 1)
     [record_example 1, record_example NaN] 0 = NaN"
proof -
  have "record_weight flat_libm default_trust_engine 0 (record_example q) = Fin 1" for q
    by (simp add: record_weight_def flat_libm_def record_example_def f64_zero_one_Fin
        to_f64_exact [OF exact_1])
  then have "snd (weigh flat_libm default_trust_engine 0 [record_example 1, record_example NaN] 0 0) \<noteq> 0"
    using to_f64_exact [OF exact_of_int, of 2] to_f64_exact [OF exact_1]
    by (simp add: f64_zero_one_Fin Let_def)
  then show ?thesis
    using trust_extremes [OF flat_libm_exp default_engine_ok refl, where s = "AgentId 1"
        and rs = "[record_example 1, record_example NaN]" and now = 0]
    by (simp add: record_example_def)
qed

end
