(* ===== verification/Sybil.thy ===== *)
theory Sybil
  imports Trust
begin

text \<open>
  The Sybil guard of \<open>atp-identity\<close> (\<open>sybil.rs\<close>): trust through vouchers, dampened at every hop,
  and the suspicion score. \<open>f64::powi\<close> has an unspecified precision and is the field \<open>lm_powi\<close> of
  the library parameter; \<open>powi_ok\<close> is what the code relies on.
\<close>

definition powi_ok :: "libm \<Rightarrow> bool" where
  "powi_ok lm \<longleftrightarrow> (\<forall>x n. unit_f64 x \<longrightarrow> unit_f64 (lm_powi lm x n) \<and> f64_wf (lm_powi lm x n))"

definition DEFAULT_ALPHA :: f64 where "DEFAULT_ALPHA = to_f64 (5 / 10)"

definition MAX_CHAIN_DEPTH :: nat where "MAX_CHAIN_DEPTH = 5"

record sybil_guard =
  sg_alpha :: f64
  sg_max_depth :: nat
  sg_trust_engine :: trust_engine

definition default_sybil_guard :: sybil_guard where
  "default_sybil_guard = \<lparr>sg_alpha = DEFAULT_ALPHA, sg_max_depth = MAX_CHAIN_DEPTH,
     sg_trust_engine = default_trust_engine\<rparr>"

definition sybil_guard_new :: "f64 \<Rightarrow> nat \<Rightarrow> trust_engine \<Rightarrow> sybil_guard" where
  "sybil_guard_new alpha max_depth te =
     \<lparr>sg_alpha = clamp alpha 0 1, sg_max_depth = max_depth, sg_trust_engine = te\<rparr>"

definition direct_trust ::
  "libm \<Rightarrow> sybil_guard \<Rightarrow> agent_id \<Rightarrow> interaction_record list \<Rightarrow> datetime \<Rightarrow> f64" where
  "direct_trust lm sg s rs now = compute_aggregate_trust lm (sg_trust_engine sg) s rs now"

definition attestation ::
  "libm \<Rightarrow> sybil_guard \<Rightarrow> agent_id \<Rightarrow> agent_id \<Rightarrow> interaction_record list \<Rightarrow> datetime \<Rightarrow> f64" where
  "attestation lm sg s voucher rs now =
     compute_aggregate_trust lm (sg_trust_engine sg) s
       (filter (\<lambda>r. ir_evaluator r = voucher \<and> ir_subject r = s) rs) now"

definition transitive_trust ::
  "libm \<Rightarrow> sybil_guard \<Rightarrow> agent_id \<Rightarrow> agent_id \<Rightarrow> interaction_record list \<Rightarrow> datetime \<Rightarrow> f64" where
  "transitive_trust lm sg s voucher rs now =
     (let t_direct = direct_trust lm sg s rs now;
          t_voucher = direct_trust lm sg voucher rs now;
          t_attestation = attestation lm sg s voucher rs now;
          transitive_component = sg_alpha sg * t_voucher * t_attestation
      in clamp (t_direct + transitive_component) 0 1)"

fun chain_sum ::
  "libm \<Rightarrow> sybil_guard \<Rightarrow> agent_id \<Rightarrow> interaction_record list \<Rightarrow> datetime \<Rightarrow> nat \<Rightarrow>
   agent_id list \<Rightarrow> f64 \<Rightarrow> f64" where
  "chain_sum lm sg s rs now i [] transitive_sum = transitive_sum"
| "chain_sum lm sg s rs now i (voucher # chain) transitive_sum =
     (let alpha_k = lm_powi lm (sg_alpha sg) (i + 1);
          t_voucher = direct_trust lm sg voucher rs now;
          t_attestation = attestation lm sg s voucher rs now
      in chain_sum lm sg s rs now (Suc i) chain
           (transitive_sum + alpha_k * t_voucher * t_attestation))"

definition chain_trust ::
  "libm \<Rightarrow> sybil_guard \<Rightarrow> agent_id \<Rightarrow> agent_id list \<Rightarrow> interaction_record list \<Rightarrow> datetime \<Rightarrow> f64"
  where
  "chain_trust lm sg s chain rs now =
     (let t_direct = direct_trust lm sg s rs now
      in if chain = [] then t_direct
         else (let depth = min (length chain) (sg_max_depth sg);
                   transitive_sum = chain_sum lm sg s rs now 0 (take depth chain) 0
               in clamp (t_direct + transitive_sum) 0 1))"

definition meets_threshold ::
  "libm \<Rightarrow> sybil_guard \<Rightarrow> agent_id \<Rightarrow> agent_id list \<Rightarrow> interaction_record list \<Rightarrow> f64 \<Rightarrow>
   datetime \<Rightarrow> bool" where
  "meets_threshold lm sg s chain rs threshold now =
     (let trust = (if chain = [] then direct_trust lm sg s rs now
                   else chain_trust lm sg s chain rs now)
      in threshold \<le> trust)"

definition sybil_suspicion :: "agent_id \<Rightarrow> interaction_record list \<Rightarrow> f64" where
  "sybil_suspicion s rs =
     (let about = filter (\<lambda>r. ir_subject r = s) rs;
          direct_count = length about;
          voucher_count = card (set (map ir_evaluator about))
      in if voucher_count = 0 then 0
         else if direct_count = 0 then 1
         else (let ratio = f64_of_nat voucher_count / f64_of_nat direct_count
               in if direct_count < 3 \<and> to_f64 (8 / 10) < ratio then clamp ratio 0 1
                  else clamp (ratio / (1 + f64_of_nat direct_count * to_f64 (1 / 10))) 0 1))"

section \<open>Trust through vouchers\<close>

definition guard_ok :: "sybil_guard \<Rightarrow> bool" where
  "guard_ok sg \<longleftrightarrow> unit_f64 (sg_alpha sg) \<and> engine_ok (sg_trust_engine sg)"

lemma default_guard_ok: "guard_ok default_sybil_guard"
  by (simp add: guard_ok_def default_sybil_guard_def DEFAULT_ALPHA_def to_f64_lits
      unit_f64_def f64_zero_one_Fin default_engine_ok)

definition records_ok :: "interaction_record list \<Rightarrow> bool" where
  "records_ok rs \<longleftrightarrow> length rs \<le> 2 ^ 52 \<and> (\<forall>r \<in> set rs. sane r)"

lemma records_ok_filter: "records_ok rs \<Longrightarrow> records_ok (filter P rs)"
  unfolding records_ok_def by (intro conjI order.trans [OF length_filter_le]) auto

lemma direct_trust_unit:
  "exp_ok lm \<Longrightarrow> guard_ok sg \<Longrightarrow> records_ok rs \<Longrightarrow> unit_f64 (direct_trust lm sg s rs now)"
  unfolding direct_trust_def by (intro aggregate_unit) (auto simp: guard_ok_def records_ok_def)

lemma attestation_unit:
  "exp_ok lm \<Longrightarrow> guard_ok sg \<Longrightarrow> records_ok rs \<Longrightarrow> unit_f64 (attestation lm sg s v rs now)"
  unfolding attestation_def
  using records_ok_filter by (intro aggregate_unit) (auto simp: guard_ok_def records_ok_def)

lemma unit_nonneg: "unit_f64 x \<Longrightarrow> 0 \<le> x"
  by (simp add: unit_f64_def)

lemma chain_sum_nonneg:
  assumes "exp_ok lm" "powi_ok lm" "guard_ok sg" "records_ok rs" "0 \<le> a"
  shows "0 \<le> chain_sum lm sg s rs now i chain a"
  using assms(5)
proof (induction chain arbitrary: i a)
  case Nil
  then show ?case by simp
next
  case (Cons v chain)
  have "unit_f64 (lm_powi lm (sg_alpha sg) (i + 1) * direct_trust lm sg v rs now
      * attestation lm sg s v rs now)"
    using assms direct_trust_unit [OF assms(1,3,4)] attestation_unit [OF assms(1,3,4)]
    by (simp add: powi_ok_def guard_ok_def)
  then show ?case using Cons by (simp add: Let_def nonneg_plus unit_nonneg)
qed

text \<open>Clamping a sum with a non-negative term: in the unit interval and not below the first term.\<close>

lemma clamp_plus:
  assumes "unit_f64 t" "f64_wf t" "0 \<le> x"
  shows "unit_f64 (clamp (t + x) 0 1) \<and> t \<le> clamp (t + x) 0 1"
proof -
  have le: "t \<le> t + x" using assms by (intro le_plus_nonneg) (auto simp: unit_f64_def)
  then have "t + x \<noteq> NaN" using f64_le_not_NaN by blast
  then have u: "unit_f64 (clamp (t + x) 0 1)" by (rule clamp_unit)
  have "clamp t 0 1 \<le> clamp (t + x) 0 1" using le by (rule clamp_mono)
  then show ?thesis using u clamp_id [OF assms(1)] by simp
qed

lemma f64_wf_divide [simp]: "f64_wf (a / b)"
  by (cases a; cases b) (auto simp: f64_wf_def [of PInf] f64_wf_def [of NInf] f64_wf_def [of NaN]
      simp: f64_wf_Fin)

lemma f64_wf_clamp: "f64_wf x \<Longrightarrow> f64_wf (clamp x 0 1)"
  by (simp add: clamp_def Let_def)

lemma aggregate_wf: "f64_wf (te_prior te) \<Longrightarrow> f64_wf (compute_aggregate_trust lm te s rs now)"
  by (auto simp: compute_aggregate_trust_def Let_def f64_wf_clamp split: prod.splits)

lemma suspicion_unit:
  assumes "length rs \<le> 2 ^ 53"
  shows "unit_f64 (sybil_suspicion s rs)"
proof -
  let ?about = "filter (\<lambda>r. ir_subject r = s) rs"
  let ?n = "card (set (map ir_evaluator ?about))" and ?m = "length ?about"
  have m53: "?m \<le> 2 ^ 53" using assms length_filter_le order.trans by blast
  have "?n \<le> ?m" by (metis card_length length_map)
  then have fn: "f64_of_nat ?n = Fin (of_nat ?n)" and fm: "f64_of_nat ?m = Fin (of_nat ?m)"
    using m53 by (auto intro!: f64_of_nat_exact)
  show ?thesis
  proof (cases "?n = 0 \<or> ?m = 0")
    case True
    then show ?thesis by (auto simp: sybil_suspicion_def Let_def)
  next
    case False
    have ratio: "f64_of_nat ?n / f64_of_nat ?m = to_f64 (of_nat ?n / of_nat ?m)"
      unfolding fn fm using False by (simp only: divide_f64.simps of_nat_eq_0_iff) simp
    have "0 \<le> f64_of_nat ?m * to_f64 (1 / 10)"
      by (rule nonneg_times_fin) (simp_all add: fm to_f64_lits f64_zero_one_Fin is_finite_def)
    then have d: "1 \<le> 1 + f64_of_nat ?m * to_f64 (1 / 10)"
      by (intro le_plus_nonneg) (simp_all add: f64_zero_one_Fin f64_wf_Fin)
    have nn: "to_f64 q / x \<noteq> NaN" if "1 \<le> x" "to_f64 q \<noteq> PInf" "to_f64 q \<noteq> NInf" for q x
      using that by (cases x; cases "to_f64 q") (auto simp: f64_zero_one_Fin)
    have "(of_nat ?n :: rat) / of_nat ?m \<le> 1"
      using \<open>?n \<le> ?m\<close> False by (simp add: divide_le_eq_1 del: length_0_conv)
    then have "unit_f64 (to_f64 (of_nat ?n / of_nat ?m))" by (intro to_f64_unit) simp_all
    then have fin: "to_f64 (of_nat ?n / of_nat ?m) \<noteq> PInf" "to_f64 (of_nat ?n / of_nat ?m) \<noteq> NInf"
      by (auto simp: unit_f64_Fin)
    show ?thesis
      unfolding sybil_suspicion_def Let_def ratio
      using False nn [OF d fin] by (auto intro!: clamp_unit)
  qed
qed

section \<open>Properties\<close>

text \<open>
  C34. Vouching only adds: for records of sane quality, trust through one voucher or along a chain
  lies in the unit interval and is never below the direct trust of the subject, whoever the
  vouchers are; the suspicion score lies in the unit interval too.
\<close>

theorem vouched_trust_bounds:
  assumes "exp_ok lm" and "powi_ok lm" and "guard_ok sg" and "records_ok rs"
    and "f64_wf (te_prior (sg_trust_engine sg))"
  shows "unit_f64 (transitive_trust lm sg s v rs now)
    \<and> direct_trust lm sg s rs now \<le> transitive_trust lm sg s v rs now
    \<and> unit_f64 (chain_trust lm sg s chain rs now)
    \<and> direct_trust lm sg s rs now \<le> chain_trust lm sg s chain rs now
    \<and> unit_f64 (sybil_suspicion s rs)"
proof -
  note du = direct_trust_unit [OF assms(1,3,4)] and au = attestation_unit [OF assms(1,3,4)]
  have wf: "f64_wf (direct_trust lm sg s rs now)"
    unfolding direct_trust_def by (rule aggregate_wf [OF assms(5)])
  have "unit_f64 (sg_alpha sg * direct_trust lm sg v rs now * attestation lm sg s v rs now)"
    using assms(3) du au by (simp add: guard_ok_def)
  then have t: "unit_f64 (transitive_trust lm sg s v rs now)
      \<and> direct_trust lm sg s rs now \<le> transitive_trust lm sg s v rs now"
    unfolding transitive_trust_def Let_def using clamp_plus [OF du wf] unit_nonneg by blast
  have "0 \<le> chain_sum lm sg s rs now 0 c 0" for c
    using chain_sum_nonneg [OF assms(1-4), of 0] by (simp add: f64_zero_one_Fin)
  then have c: "unit_f64 (chain_trust lm sg s chain rs now)
      \<and> direct_trust lm sg s rs now \<le> chain_trust lm sg s chain rs now"
    unfolding chain_trust_def Let_def
    using clamp_plus [OF du wf] du f64_le_refl unit_f64_not_NaN by (cases "chain = []") auto
  have "unit_f64 (sybil_suspicion s rs)"
    by (rule suspicion_unit) (use assms(4) in \<open>simp add: records_ok_def\<close>)
  then show ?thesis using t c by blast
qed

lemma flat_libm_powi: "powi_ok flat_libm"
proof -
  have "unit_f64 (foldl (*) a (replicate n x)) \<and> f64_wf (foldl (*) a (replicate n x))"
    if "unit_f64 x" "unit_f64 a" "f64_wf a" for a n x
    using that by (induction n arbitrary: a) auto
  then show ?thesis by (simp add: powi_ok_def flat_libm_def)
qed

theorem vouched_trust_bounds_witness:
  "unit_f64 (chain_trust flat_libm default_sybil_guard (AgentId 1) [AgentId 2, AgentId 3]
     [record_example 1] 0)"
proof -
  have ok: "records_ok [record_example 1]"
    by (simp add: records_ok_def sane_def record_example_def)
  have wf: "f64_wf (te_prior (sg_trust_engine default_sybil_guard))"
    by (simp add: default_sybil_guard_def default_trust_engine_def DEFAULT_PRIOR_def)
  show ?thesis
    using vouched_trust_bounds [OF flat_libm_exp flat_libm_powi default_guard_ok ok wf] by blast
qed

text \<open>
  A chain is truncated at the maximal depth: vouchers beyond it change nothing, so with the
  default guard at most five of them count; with an empty chain trust is the direct trust.
\<close>

lemma chain_truncated:
  "chain_trust lm sg s chain rs now = chain_trust lm sg s (take (sg_max_depth sg) chain) rs now
     \<or> sg_max_depth sg = 0"
  by (auto simp: chain_trust_def Let_def min_def)

end
