(* ===== verification/Identity_Store.thy ===== *)
theory Identity_Store
  imports Sybil
begin

text \<open>
  The in-memory store of \<open>atp-identity\<close> (\<open>store.rs\<close>): identities and, per subject, the interaction
  records in the order they were added. Each method holds the one lock for its whole body, so it is
  one step. Queries over all records see them in the iteration order of a \<open>HashMap\<close>, the argument
  \<open>ks\<close>; the results are shown not to depend on it.
\<close>

record identity_store =
  is_identities :: "agent_id \<rightharpoonup> agent_identity"
  is_interactions :: "agent_id \<rightharpoonup> interaction_record list"
  is_trust_engine :: trust_engine
  is_sybil_guard :: sybil_guard

definition identity_store_with_engines :: "trust_engine \<Rightarrow> sybil_guard \<Rightarrow> identity_store" where
  "identity_store_with_engines te sg =
     \<lparr>is_identities = Map.empty, is_interactions = Map.empty, is_trust_engine = te,
      is_sybil_guard = sg\<rparr>"

definition identity_store_new :: identity_store where
  "identity_store_new =
     \<lparr>is_identities = Map.empty, is_interactions = Map.empty,
      is_trust_engine = default_trust_engine, is_sybil_guard = default_sybil_guard\<rparr>"

section \<open>Identities\<close>

definition register_identity ::
  "identity_store \<Rightarrow> agent_identity \<Rightarrow> identity_store \<times> (identity_error + agent_id)" where
  "register_identity st identity =
     (let a = ident_id identity;
          ids = (is_identities st)(a \<mapsto> identity);
          ints = (case is_interactions st a of
              Some rs \<Rightarrow> is_interactions st | None \<Rightarrow> (is_interactions st)(a \<mapsto> []))
      in (st\<lparr>is_identities := ids, is_interactions := ints\<rparr>, Inr a))"

definition get_identity :: "identity_store \<Rightarrow> agent_id \<Rightarrow> identity_error + agent_identity" where
  "get_identity st a = ok_or (UnknownAgent a) (is_identities st a)"

definition list_agents :: "identity_store \<Rightarrow> agent_id list \<Rightarrow> agent_id list" where
  "list_agents st ks = map fst (entries ks (is_identities st))"

definition remove_identity ::
  "identity_store \<Rightarrow> agent_id \<Rightarrow> identity_store \<times> (identity_error + agent_identity)" where
  "remove_identity st a =
     (case is_identities st a of
        None \<Rightarrow> (st, Inl (UnknownAgent a))
      | Some identity \<Rightarrow>
          (st\<lparr>is_identities := (is_identities st)(a := None),
              is_interactions := (is_interactions st)(a := None)\<rparr>, Inr identity))"

definition identity_count :: "identity_store \<Rightarrow> nat" where
  "identity_count st = card (dom (is_identities st))"

section \<open>Interaction records\<close>

definition add_interaction :: "identity_store \<Rightarrow> interaction_record \<Rightarrow> identity_store" where
  "add_interaction st r =
     (let subject = ir_subject r;
          rs = (case is_interactions st subject of Some rs \<Rightarrow> rs | None \<Rightarrow> [])
      in st\<lparr>is_interactions := (is_interactions st)(subject \<mapsto> rs @ [r])\<rparr>)"

definition get_interactions :: "identity_store \<Rightarrow> agent_id \<Rightarrow> interaction_record list" where
  "get_interactions st s = (case is_interactions st s of Some rs \<Rightarrow> rs | None \<Rightarrow> [])"

definition all_interactions :: "identity_store \<Rightarrow> agent_id list \<Rightarrow> interaction_record list" where
  "all_interactions st ks = concat (map snd (entries ks (is_interactions st)))"

definition interaction_count :: "identity_store \<Rightarrow> agent_id list \<Rightarrow> nat" where
  "interaction_count st ks = sum_list (map (length \<circ> snd) (entries ks (is_interactions st)))"

section \<open>Trust queries\<close>

definition store_trust_score ::
  "libm \<Rightarrow> identity_store \<Rightarrow> agent_id \<Rightarrow> task_type \<Rightarrow> datetime \<Rightarrow> trust_score" where
  "store_trust_score lm st s t now =
     (let records = (case is_interactions st s of Some rs \<Rightarrow> rs | None \<Rightarrow> [])
      in compute_trust_score lm (is_trust_engine st) s t records now)"

definition store_trust_vector ::
  "libm \<Rightarrow> identity_store \<Rightarrow> agent_id \<Rightarrow> datetime \<Rightarrow> trust_vector" where
  "store_trust_vector lm st s now =
     (let records = (case is_interactions st s of Some rs \<Rightarrow> rs | None \<Rightarrow> [])
      in compute_trust_vector lm (is_trust_engine st) s records now)"

definition store_aggregate_trust ::
  "libm \<Rightarrow> identity_store \<Rightarrow> agent_id \<Rightarrow> datetime \<Rightarrow> f64" where
  "store_aggregate_trust lm st s now =
     (let records = (case is_interactions st s of Some rs \<Rightarrow> rs | None \<Rightarrow> [])
      in compute_aggregate_trust lm (is_trust_engine st) s records now)"

definition store_transitive_trust ::
  "libm \<Rightarrow> identity_store \<Rightarrow> agent_id list \<Rightarrow> agent_id \<Rightarrow> agent_id \<Rightarrow> datetime \<Rightarrow> f64" where
  "store_transitive_trust lm st ks s voucher now =
     (let all_records = all_interactions st ks
      in transitive_trust lm (is_sybil_guard st) s voucher all_records now)"

definition store_meets_threshold ::
  "libm \<Rightarrow> identity_store \<Rightarrow> agent_id list \<Rightarrow> agent_id \<Rightarrow> agent_id list \<Rightarrow> f64 \<Rightarrow> datetime \<Rightarrow> bool"
  where
  "store_meets_threshold lm st ks s chain threshold now =
     (let all_records = all_interactions st ks
      in meets_threshold lm (is_sybil_guard st) s chain all_records threshold now)"

definition store_sybil_suspicion :: "identity_store \<Rightarrow> agent_id list \<Rightarrow> agent_id \<Rightarrow> f64" where
  "store_sybil_suspicion st ks s =
     (let all_records = all_interactions st ks in sybil_suspicion s all_records)"

section \<open>The store refines a log\<close>

datatype store_op =
    RegisterId agent_identity
  | RemoveId agent_id
  | AddRecord interaction_record

fun store_step :: "store_op \<Rightarrow> identity_store \<Rightarrow> identity_store" where
  "store_step (RegisterId i) st = fst (register_identity st i)"
| "store_step (RemoveId a) st = fst (remove_identity st a)"
| "store_step (AddRecord r) st = add_interaction st r"

text \<open>
  The specification: the set of registered agents and one log of all live records in the order
  they were added; removing a registered agent forgets the records about it.
\<close>

fun log_step ::
  "store_op \<Rightarrow> agent_id set \<times> interaction_record list \<Rightarrow> agent_id set \<times> interaction_record list"
  where
  "log_step (RegisterId i) (ids, recs) = (insert (ident_id i) ids, recs)"
| "log_step (RemoveId a) (ids, recs) =
     (if a \<in> ids then (ids - {a}, filter (\<lambda>r. ir_subject r \<noteq> a) recs) else (ids, recs))"
| "log_step (AddRecord r) (ids, recs) = (ids, recs @ [r])"

definition live_log :: "store_op list \<Rightarrow> interaction_record list" where
  "live_log ops = snd (fold log_step ops ({}, []))"

definition store_refines ::
  "identity_store \<Rightarrow> agent_id set \<times> interaction_record list \<Rightarrow> bool" where
  "store_refines st lg \<longleftrightarrow> dom (is_identities st) = fst lg \<and>
     (\<forall>s. get_interactions st s = filter (\<lambda>r. ir_subject r = s) (snd lg))"

lemma store_step_refines:
  assumes "store_refines st lg"
  shows "store_refines (store_step x st) (log_step x lg)"
proof -
  obtain ids recs where lg: "lg = (ids, recs)" by (cases lg)
  have d: "dom (is_identities st) = ids"
    and g: "\<And>s. get_interactions st s = filter (\<lambda>r. ir_subject r = s) recs"
    using assms by (simp_all add: store_refines_def lg)
  show ?thesis
  proof (cases x)
    case (RegisterId i)
    have "get_interactions (store_step x st) s = get_interactions st s" for s
      by (auto simp: RegisterId get_interactions_def register_identity_def Let_def
          split: option.splits)
    then show ?thesis
      by (auto simp: store_refines_def lg RegisterId g register_identity_def Let_def d [symmetric])
  next
    case (RemoveId a)
    show ?thesis
    proof (cases "is_identities st a")
      case None
      then have "a \<notin> ids" by (auto simp: d [symmetric])
      then show ?thesis using assms None by (simp add: RemoveId remove_identity_def lg)
    next
      case (Some i)
      then have a: "a \<in> ids" by (auto simp: d [symmetric])
      have "get_interactions (store_step x st) s = (if s = a then [] else get_interactions st s)"
        for s
        by (simp add: RemoveId get_interactions_def remove_identity_def Some)
      moreover have "filter (\<lambda>r. ir_subject r = s) (filter (\<lambda>r. ir_subject r \<noteq> a) recs) =
          (if s = a then [] else filter (\<lambda>r. ir_subject r = s) recs)" for s
        by (auto simp: filter_empty_conv intro!: filter_cong)
      ultimately show ?thesis
        by (simp add: store_refines_def lg RemoveId a g remove_identity_def Some d)
    qed
  next
    case (AddRecord r)
    have "get_interactions (store_step x st) s =
        (if s = ir_subject r then get_interactions st s @ [r] else get_interactions st s)" for s
      by (auto simp: AddRecord get_interactions_def add_interaction_def Let_def)
    then show ?thesis
      by (auto simp: store_refines_def lg AddRecord g add_interaction_def Let_def d)
  qed
qed

lemma store_run_refines:
  "store_refines st lg \<Longrightarrow> store_refines (fold store_step ops st) (fold log_step ops lg)"
  by (induction ops arbitrary: st lg) (simp_all add: store_step_refines)

lemma store_engines [frame_simps]:
  "is_trust_engine (fold store_step ops st) = is_trust_engine st"
  "is_sybil_guard (fold store_step ops st) = is_sybil_guard st"
proof -
  have s: "is_trust_engine (store_step x st) = is_trust_engine st \<and>
      is_sybil_guard (store_step x st) = is_sybil_guard st" for x st
    by (cases x) (simp_all add: register_identity_def remove_identity_def add_interaction_def
        Let_def split: option.split)
  have "is_trust_engine (fold store_step ops st) = is_trust_engine st \<and>
      is_sybil_guard (fold store_step ops st) = is_sybil_guard st"
    by (induction ops arbitrary: st) (simp_all add: s)
  then show "is_trust_engine (fold store_step ops st) = is_trust_engine st"
    "is_sybil_guard (fold store_step ops st) = is_sybil_guard st" by simp_all
qed

text \<open>The records about one subject, whatever the order of the iteration.\<close>

definition subjects_ok :: "identity_store \<Rightarrow> bool" where
  "subjects_ok st \<longleftrightarrow> (\<forall>s. \<forall>r \<in> set (get_interactions st s). ir_subject r = s)"

lemma refines_subjects_ok: "store_refines st lg \<Longrightarrow> subjects_ok st"
  by (simp add: store_refines_def subjects_ok_def)

lemma filter_subject_concat:
  assumes "distinct ks" "\<And>k r. k \<in> set ks \<Longrightarrow> r \<in> set (f k) \<Longrightarrow> ir_subject r = k"
  shows "filter (\<lambda>r. ir_subject r = s) (concat (map f ks)) = (if s \<in> set ks then f s else [])"
  using assms
proof (induction ks)
  case Nil
  then show ?case by simp
next
  case (Cons k ks)
  have "filter (\<lambda>r. ir_subject r = s) (f k) = (if s = k then f k else [])"
    using Cons.prems(2) [of k] by (auto simp: filter_id_conv filter_empty_conv)
  then show ?case using Cons by auto
qed

lemma all_interactions_map:
  assumes "iterates ks (is_interactions st)"
  shows "all_interactions st ks = concat (map (get_interactions st) ks)"
proof -
  have "filter (\<lambda>k. is_interactions st k \<noteq> None) ks = ks"
    using assms by (auto simp: iterates_def filter_id_conv dom_def)
  then have "map snd (entries ks (is_interactions st)) = map (\<lambda>k. the (is_interactions st k)) ks"
    by (simp add: entries_def comp_def)
  also have "\<dots> = map (get_interactions st) ks"
    using assms by (auto simp: get_interactions_def iterates_def dom_def split: option.splits)
  finally show ?thesis by (simp add: all_interactions_def)
qed

lemma all_interactions_about:
  assumes "subjects_ok st" "iterates ks (is_interactions st)"
  shows "filter (\<lambda>r. ir_subject r = s) (all_interactions st ks) = get_interactions st s"
proof -
  have "get_interactions st s = []" if "s \<notin> set ks"
    using that assms(2) by (auto simp: get_interactions_def iterates_def dom_def split: option.split)
  then show ?thesis
    unfolding all_interactions_map [OF assms(2)]
    using filter_subject_concat [of ks "get_interactions st" s] assms
    by (auto simp: iterates_def subjects_ok_def)
qed

text \<open>The guard looks only at the records about one subject at a time.\<close>

lemma direct_trust_cong:
  assumes "\<And>s. filter (\<lambda>r. ir_subject r = s) rs = filter (\<lambda>r. ir_subject r = s) rs'"
  shows "direct_trust lm sg s rs now = direct_trust lm sg s rs' now"
  unfolding direct_trust_def compute_aggregate_trust_def assms [of s] by (rule refl)

lemma attestation_cong:
  assumes "\<And>s. filter (\<lambda>r. ir_subject r = s) rs = filter (\<lambda>r. ir_subject r = s) rs'"
  shows "attestation lm sg s v rs now = attestation lm sg s v rs' now"
proof -
  have "filter (\<lambda>r. ir_evaluator r = v \<and> ir_subject r = s) xs =
      filter (\<lambda>r. ir_evaluator r = v) (filter (\<lambda>r. ir_subject r = s) xs)" for xs
    by (simp add: conj_commute)
  note split_filter = this
  show ?thesis unfolding attestation_def split_filter [of rs] split_filter [of rs'] assms [of s]
    by (rule refl)
qed

lemma chain_sum_cong:
  assumes "\<And>s. filter (\<lambda>r. ir_subject r = s) rs = filter (\<lambda>r. ir_subject r = s) rs'"
  shows "chain_sum lm sg s rs now i chain a = chain_sum lm sg s rs' now i chain a"
  using direct_trust_cong [OF assms] attestation_cong [OF assms]
  by (induction chain arbitrary: i a) (simp_all only: chain_sum.simps)

lemma guard_cong:
  assumes "\<And>s. filter (\<lambda>r. ir_subject r = s) rs = filter (\<lambda>r. ir_subject r = s) rs'"
  shows "transitive_trust lm sg s v rs now = transitive_trust lm sg s v rs' now"
    and "meets_threshold lm sg s chain rs th now = meets_threshold lm sg s chain rs' th now"
    and "sybil_suspicion s rs = sybil_suspicion s rs'"
  unfolding transitive_trust_def meets_threshold_def chain_trust_def sybil_suspicion_def
    direct_trust_cong [OF assms] attestation_cong [OF assms] chain_sum_cong [OF assms]
    assms [of s] by (rule refl)+

lemma aggregate_about:
  "compute_aggregate_trust lm te s (filter (\<lambda>r. ir_subject r = s) rs) now
     = compute_aggregate_trust lm te s rs now"
  by (simp add: compute_aggregate_trust_def)

lemma score_about:
  "compute_trust_score lm te s t (filter (\<lambda>r. ir_subject r = s) rs) now
     = compute_trust_score lm te s t rs now"
  by (simp add: compute_trust_score_def)

lemma vector_about:
  "compute_trust_vector lm te s (filter (\<lambda>r. ir_subject r = s) rs) now
     = compute_trust_vector lm te s rs now"
  by (simp add: compute_trust_vector_def score_about)

lemma empty_refines: "store_refines (identity_store_with_engines te sg) ({}, [])"
  by (simp add: store_refines_def identity_store_with_engines_def get_interactions_def)

section \<open>Properties\<close>

text \<open>
  C16. Whatever sequence of registrations, removals and recorded interactions the store has seen,
  every trust query (the score for a task type, the trust vector, the aggregate, the transitive
  trust, the threshold test and the Sybil suspicion) answers as the trust engine and the Sybil guard
  would on one chronological log of the live records. In particular the answers do not depend on the iteration order of the
  hash table, and records about an agent that was never registered count like any others.
\<close>

theorem store_answers_from_log:
  assumes "st = fold store_step ops (identity_store_with_engines te sg)"
    and "iterates ks (is_interactions st)"
  shows "store_aggregate_trust lm st s now = compute_aggregate_trust lm te s (live_log ops) now
    \<and> store_trust_score lm st s t now = compute_trust_score lm te s t (live_log ops) now
    \<and> store_trust_vector lm st s now = compute_trust_vector lm te s (live_log ops) now
    \<and> store_transitive_trust lm st ks s v now = transitive_trust lm sg s v (live_log ops) now
    \<and> store_meets_threshold lm st ks s chain th now
        = meets_threshold lm sg s chain (live_log ops) th now
    \<and> store_sybil_suspicion st ks s = sybil_suspicion s (live_log ops)"
proof -
  have r: "store_refines st (fold log_step ops ({}, []))"
    unfolding assms(1) by (rule store_run_refines [OF empty_refines])
  then have g: "get_interactions st s = filter (\<lambda>r. ir_subject r = s) (live_log ops)" for s
    by (simp add: store_refines_def live_log_def)
  have f: "\<And>s. filter (\<lambda>r. ir_subject r = s) (all_interactions st ks)
      = filter (\<lambda>r. ir_subject r = s) (live_log ops)"
    using all_interactions_about [OF refines_subjects_ok [OF r] assms(2)] g by simp
  have e: "is_trust_engine st = te" "is_sybil_guard st = sg"
    by (simp_all add: assms(1) frame_simps identity_store_with_engines_def)
  have "store_aggregate_trust lm st s now
      = compute_aggregate_trust lm te s (get_interactions st s) now"
    "store_trust_score lm st s t now = compute_trust_score lm te s t (get_interactions st s) now"
    "store_trust_vector lm st s now = compute_trust_vector lm te s (get_interactions st s) now"
    by (simp_all add: store_aggregate_trust_def store_trust_score_def store_trust_vector_def
        get_interactions_def e)
  then have "store_aggregate_trust lm st s now
      = compute_aggregate_trust lm te s (live_log ops) now"
    "store_trust_score lm st s t now = compute_trust_score lm te s t (live_log ops) now"
    "store_trust_vector lm st s now = compute_trust_vector lm te s (live_log ops) now"
    by (simp_all add: g aggregate_about score_about vector_about)
  then show ?thesis
    unfolding store_transitive_trust_def store_meets_threshold_def store_sybil_suspicion_def Let_def
      e guard_cong [OF f] by simp
qed

theorem store_answers_from_log_witness:
  "\<exists>st ks. iterates ks (is_interactions st) \<and>
     store_sybil_suspicion st ks (AgentId 1) = sybil_suspicion (AgentId 1) [record_example 1]"
proof -
  let ?ops = "[AddRecord (record_example 1)]"
  let ?st = "fold store_step ?ops (identity_store_with_engines default_trust_engine
    default_sybil_guard)"
  let ?s = "ir_subject (record_example 1)"
  have it: "iterates [?s] (is_interactions ?st)"
    by (simp add: iterates_def add_interaction_def identity_store_with_engines_def)
  have "live_log ?ops = [record_example 1]" by (simp add: live_log_def)
  then have "store_sybil_suspicion ?st [?s] (AgentId 1) = sybil_suspicion (AgentId 1) [record_example 1]"
    using store_answers_from_log [OF refl it] by simp
  then show ?thesis using it by blast
qed

text \<open>
  Removing an agent wipes its history: re-registered under the same identifier, it has the
  prior as its trust again, whatever was recorded about it. A removal of an unknown agent is
  refused and changes nothing.
\<close>

lemma reregistering_wipes_history:
  "(case remove_identity st a of
      (st', Inl e) \<Rightarrow> e = UnknownAgent a \<and> st' = st \<and> is_identities st a = None
    | (st', Inr i) \<Rightarrow> is_identities st a = Some i \<and> get_identity st' a = Inl (UnknownAgent a)
        \<and> get_interactions st' a = []
        \<and> store_aggregate_trust lm (fst (register_identity st' (i2\<lparr>ident_id := a\<rparr>))) a now
            = te_prior (is_trust_engine st))"
  by (simp add: remove_identity_def get_identity_def get_interactions_def register_identity_def
      store_aggregate_trust_def compute_aggregate_trust_def Let_def split: option.split)

end
