(* ===== verification/Graph.thy ===== *)
theory Graph
  imports Atp_Types
begin

text \<open>
  The agent graph of \<open>atp-routing\<close> (\<open>graph.rs\<close>): agents under dense indices, adjacency lists and
  the table from identifiers to indices. Indexing out of range panics, so the operations return an
  \<open>option\<close>; from the empty graph on none of them ever does (\<open>graph_refines_network\<close>).
\<close>

record agent_node =
  an_id :: agent_id
  an_capabilities :: "capability list"
  an_available :: bool
  an_trust_score :: f64

record edge =
  e_from :: nat
  e_to :: nat
  e_transfer_latency :: duration

record agent_graph =
  g_nodes :: "agent_node list"
  g_adjacency :: "edge list list"
  g_id_to_index :: "agent_id \<rightharpoonup> nat"

definition capability_for :: "agent_node \<Rightarrow> task_type \<Rightarrow> capability option" where
  "capability_for n t = find (\<lambda>c. cap_task_type c = t) (an_capabilities n)"

definition graph_new :: agent_graph where
  "graph_new = \<lparr>g_nodes = [], g_adjacency = [], g_id_to_index = Map.empty\<rparr>"

text \<open>\<open>v[i]\<close> of a vector, read and written; out of range is a panic.\<close>

definition vec_at :: "'a list \<Rightarrow> nat \<Rightarrow> 'a option" where
  "vec_at xs i = (if i < length xs then Some (xs ! i) else None)"

definition vec_modify :: "'a list \<Rightarrow> nat \<Rightarrow> ('a \<Rightarrow> 'a) \<Rightarrow> 'a list option" where
  "vec_modify xs i f = (if i < length xs then Some (xs[i := f (xs ! i)]) else None)"

definition add_agent ::
  "agent_graph \<Rightarrow> agent_id \<Rightarrow> capability list \<Rightarrow> f64 \<Rightarrow> (agent_graph \<times> nat) option" where
  "add_agent g a caps trust =
     (case g_id_to_index g a of
        Some idx \<Rightarrow> do {
          nodes \<leftarrow> vec_modify (g_nodes g) idx
            (\<lambda>n. n\<lparr>an_capabilities := caps, an_trust_score := trust, an_available := True\<rparr>);
          Some (g\<lparr>g_nodes := nodes\<rparr>, idx)
        }
      | None \<Rightarrow>
          (let idx = length (g_nodes g);
               n = \<lparr>an_id = a, an_capabilities = caps, an_available = True, an_trust_score = trust\<rparr>
           in Some (\<lparr>g_nodes = g_nodes g @ [n], g_adjacency = g_adjacency g @ [[]],
                     g_id_to_index = (g_id_to_index g)(a \<mapsto> idx)\<rparr>, idx)))"

definition push_new_edge :: "nat \<Rightarrow> nat \<Rightarrow> duration \<Rightarrow> edge list \<Rightarrow> edge list" where
  "push_new_edge i j lat es =
     (if \<exists>e \<in> set es. e_to e = j then es
      else es @ [\<lparr>e_from = i, e_to = j, e_transfer_latency = lat\<rparr>])"

definition add_edge ::
  "agent_graph \<Rightarrow> agent_id \<Rightarrow> agent_id \<Rightarrow> duration \<Rightarrow> agent_graph option" where
  "add_edge g a b lat =
     (case (g_id_to_index g a, g_id_to_index g b) of
        (Some from_idx, Some to_idx) \<Rightarrow> do {
          adj \<leftarrow> vec_modify (g_adjacency g) from_idx (push_new_edge from_idx to_idx lat);
          Some (g\<lparr>g_adjacency := adj\<rparr>)
        }
      | _ \<Rightarrow> Some g)"

definition add_bidi_edge ::
  "agent_graph \<Rightarrow> agent_id \<Rightarrow> agent_id \<Rightarrow> duration \<Rightarrow> agent_graph option" where
  "add_bidi_edge g a b lat = do { g \<leftarrow> add_edge g a b lat; add_edge g b a lat }"

definition set_availability :: "bool \<Rightarrow> agent_graph \<Rightarrow> agent_id \<Rightarrow> agent_graph option" where
  "set_availability v g a =
     (case g_id_to_index g a of
        Some idx \<Rightarrow> do {
          nodes \<leftarrow> vec_modify (g_nodes g) idx (\<lambda>n. n\<lparr>an_available := v\<rparr>);
          Some (g\<lparr>g_nodes := nodes\<rparr>)
        }
      | None \<Rightarrow> Some g)"

definition set_unavailable :: "agent_graph \<Rightarrow> agent_id \<Rightarrow> agent_graph option" where
  "set_unavailable g a = set_availability False g a"

definition set_available :: "agent_graph \<Rightarrow> agent_id \<Rightarrow> agent_graph option" where
  "set_available g a = set_availability True g a"

definition node_count :: "agent_graph \<Rightarrow> nat" where
  "node_count g = length (g_nodes g)"

definition edge_count :: "agent_graph \<Rightarrow> nat" where
  "edge_count g = sum_list (map length (g_adjacency g))"

definition graph_node :: "agent_graph \<Rightarrow> nat \<Rightarrow> agent_node option" where
  "graph_node g idx = vec_at (g_nodes g) idx"

definition node_by_id :: "agent_graph \<Rightarrow> agent_id \<Rightarrow> agent_node option" where
  "node_by_id g a = Option.bind (g_id_to_index g a) (\<lambda>idx. vec_at (g_nodes g) idx)"

definition index_of :: "agent_graph \<Rightarrow> agent_id \<Rightarrow> nat option" where
  "index_of g a = g_id_to_index g a"

definition graph_agent_id :: "agent_graph \<Rightarrow> nat \<Rightarrow> agent_id option" where
  "graph_agent_id g idx = map_option an_id (vec_at (g_nodes g) idx)"

definition edges_from :: "agent_graph \<Rightarrow> nat \<Rightarrow> edge list" where
  "edges_from g idx = (case vec_at (g_adjacency g) idx of Some es \<Rightarrow> es | None \<Rightarrow> [])"

definition transfer_latency :: "agent_graph \<Rightarrow> nat \<Rightarrow> nat \<Rightarrow> duration option" where
  "transfer_latency g i j = do {
     es \<leftarrow> vec_at (g_adjacency g) i;
     e \<leftarrow> find (\<lambda>e. e_to e = j) es;
     Some (e_transfer_latency e)
   }"

definition is_capable :: "task_type \<Rightarrow> f64 \<Rightarrow> agent_node \<Rightarrow> bool" where
  "is_capable t mt n \<longleftrightarrow>
     an_available n \<and> mt \<le> an_trust_score n \<and> capability_for n t \<noteq> None"

definition capable_agents :: "agent_graph \<Rightarrow> task_type \<Rightarrow> f64 \<Rightarrow> nat list" where
  "capable_agents g t mt =
     map fst (filter (\<lambda>(_, n). is_capable t mt n) (enumerate 0 (g_nodes g)))"

definition capability_subgraph ::
  "agent_graph \<Rightarrow> task_type \<Rightarrow> f64 \<Rightarrow> (nat list \<times> edge list) option" where
  "capability_subgraph g t mt =
     (let agents = capable_agents g t mt
      in do {
        ess \<leftarrow> collect_options (\<lambda>idx. vec_at (g_adjacency g) idx) agents;
        Some (agents, concat (map (filter (\<lambda>e. e_to e \<in> set agents)) ess))
      })"

text \<open>The body of the two nested loops of \<open>fully_connect\<close>.\<close>

definition connect_pair :: "duration \<Rightarrow> agent_graph option \<Rightarrow> nat \<times> nat \<Rightarrow> agent_graph option" where
  "connect_pair lat r p = (case p of (i, j) \<Rightarrow>
     Option.bind r (\<lambda>g. if i \<noteq> j
       then do {
         adj \<leftarrow> vec_modify (g_adjacency g) i (push_new_edge i j lat);
         Some (g\<lparr>g_adjacency := adj\<rparr>)
       }
       else Some g))"

definition fully_connect :: "agent_graph \<Rightarrow> duration \<Rightarrow> agent_graph option" where
  "fully_connect g lat =
     (let n = length (g_nodes g)
      in foldl (connect_pair lat) (Some g) (List.product [0..<n] [0..<n]))"

definition all_indices :: "agent_graph \<Rightarrow> nat list" where
  "all_indices g = [0..<length (g_nodes g)]"

definition graph_validate :: "agent_graph \<Rightarrow> routing_error + unit" where
  "graph_validate g = (if g_nodes g = [] then Inl EmptyGraph else Inr ())"

section \<open>The invariant\<close>

definition graph_wf :: "agent_graph \<Rightarrow> bool" where
  "graph_wf g \<longleftrightarrow> length (g_adjacency g) = length (g_nodes g) \<and>
     (\<forall>a i. g_id_to_index g a = Some i \<longleftrightarrow> i < length (g_nodes g) \<and> an_id (g_nodes g ! i) = a) \<and>
     (\<forall>i < length (g_adjacency g). \<forall>e \<in> set (g_adjacency g ! i).
        e_from e = i \<and> e_to e < length (g_nodes g)) \<and>
     (\<forall>i < length (g_adjacency g). distinct (map e_to (g_adjacency g ! i)))"

lemma graph_wfD:
  assumes "graph_wf g"
  shows "length (g_adjacency g) = length (g_nodes g)"
    and "g_id_to_index g a = Some i \<longleftrightarrow> i < length (g_nodes g) \<and> an_id (g_nodes g ! i) = a"
    and "i < length (g_adjacency g) \<Longrightarrow> e \<in> set (g_adjacency g ! i) \<Longrightarrow>
         e_from e = i \<and> e_to e < length (g_nodes g)"
    and "i < length (g_adjacency g) \<Longrightarrow> distinct (map e_to (g_adjacency g ! i))"
  using assms unfolding graph_wf_def by blast+

lemma graph_new_wf: "graph_wf graph_new"
  by (simp add: graph_wf_def graph_new_def)

lemma capable_agents_iff:
  "i \<in> set (capable_agents g t mt) \<longleftrightarrow> i < length (g_nodes g) \<and> is_capable t mt (g_nodes g ! i)"
  by (force simp: capable_agents_def in_set_enumerate_eq image_iff)

lemma capable_agents_sorted: "sorted_wrt (<) (capable_agents g t mt)"
proof -
  have "sorted_wrt (<) (map fst (filter P (enumerate k ns)))" for P k and ns :: "agent_node list"
    by (induction ns arbitrary: k) (auto simp: in_set_enumerate_eq)
  then show ?thesis by (simp add: capable_agents_def)
qed

lemma capable_agents_distinct: "distinct (capable_agents g t mt)"
  using capable_agents_sorted strict_sorted_iff by blast

lemma find_capability: "capability_for n t = Some c \<Longrightarrow>
    c \<in> set (an_capabilities n) \<and> cap_task_type c = t"
  unfolding capability_for_def by (auto simp: find_Some_iff)

section \<open>The network a graph stands for\<close>

text \<open>
  The abstract view: what is known of each agent, and the latency of each link. Every operation
  is an update of these two maps.
\<close>

type_synonym network =
  "(agent_id \<rightharpoonup> capability list \<times> f64 \<times> bool) \<times> (agent_id \<times> agent_id \<rightharpoonup> duration)"

definition node_info :: "agent_node \<Rightarrow> capability list \<times> f64 \<times> bool" where
  "node_info n = (an_capabilities n, an_trust_score n, an_available n)"

definition node_view :: "agent_graph \<Rightarrow> agent_id \<rightharpoonup> capability list \<times> f64 \<times> bool" where
  "node_view g a = map_option node_info (node_by_id g a)"

definition link_view :: "agent_graph \<Rightarrow> agent_id \<times> agent_id \<rightharpoonup> duration" where
  "link_view g = (\<lambda>(a, b). do {
     i \<leftarrow> index_of g a; j \<leftarrow> index_of g b; transfer_latency g i j })"

definition network_of :: "agent_graph \<Rightarrow> network" where
  "network_of g = (node_view g, link_view g)"

datatype graph_op =
    AddAgent agent_id "capability list" f64
  | AddEdge agent_id agent_id duration
  | AddBidiEdge agent_id agent_id duration
  | SetUnavailable agent_id
  | SetAvailable agent_id
  | FullyConnect duration

fun graph_step :: "graph_op \<Rightarrow> agent_graph \<Rightarrow> agent_graph option" where
  "graph_step (AddAgent a caps trust) g = map_option fst (add_agent g a caps trust)"
| "graph_step (AddEdge a b lat) g = add_edge g a b lat"
| "graph_step (AddBidiEdge a b lat) g = add_bidi_edge g a b lat"
| "graph_step (SetUnavailable a) g = set_unavailable g a"
| "graph_step (SetAvailable a) g = set_available g a"
| "graph_step (FullyConnect lat) g = fully_connect g lat"

fun graph_run :: "graph_op list \<Rightarrow> agent_graph \<Rightarrow> agent_graph option" where
  "graph_run [] g = Some g"
| "graph_run (x # xs) g = Option.bind (graph_step x g) (graph_run xs)"

definition net_link :: "agent_id \<Rightarrow> agent_id \<Rightarrow> duration \<Rightarrow> network \<Rightarrow> network" where
  "net_link a b lat = (\<lambda>(N, L).
     (N, if a \<in> dom N \<and> b \<in> dom N \<and> L (a, b) = None then L((a, b) \<mapsto> lat) else L))"

definition net_available :: "bool \<Rightarrow> agent_id \<Rightarrow> network \<Rightarrow> network" where
  "net_available v a = (\<lambda>(N, L).
     (case N a of Some (caps, trust, _) \<Rightarrow> N(a \<mapsto> (caps, trust, v)) | None \<Rightarrow> N, L))"

fun net_step :: "graph_op \<Rightarrow> network \<Rightarrow> network" where
  "net_step (AddAgent a caps trust) nw = ((fst nw)(a \<mapsto> (caps, trust, True)), snd nw)"
| "net_step (AddEdge a b lat) nw = net_link a b lat nw"
| "net_step (AddBidiEdge a b lat) nw = net_link b a lat (net_link a b lat nw)"
| "net_step (SetUnavailable a) nw = net_available False a nw"
| "net_step (SetAvailable a) nw = net_available True a nw"
| "net_step (FullyConnect lat) nw = (fst nw, \<lambda>(a, b).
     if a \<in> dom (fst nw) \<and> b \<in> dom (fst nw) \<and> a \<noteq> b \<and> snd nw (a, b) = None
     then Some lat else snd nw (a, b))"

lemma index_dom: "graph_wf g \<Longrightarrow> dom (node_view g) = dom (g_id_to_index g)"
  using graph_wfD(2) [of g]
  by (auto simp: node_view_def node_by_id_def vec_at_def dom_def split: bind_splits)

lemma index_lt: "graph_wf g \<Longrightarrow> g_id_to_index g a = Some i \<Longrightarrow> i < length (g_nodes g)"
  using graph_wfD(2) by simp

lemma index_eq:
  "graph_wf g \<Longrightarrow> g_id_to_index g a = Some i \<Longrightarrow> g_id_to_index g b = Some i \<longleftrightarrow> b = a"
  using graph_wfD(2) [of g a i] graph_wfD(2) [of g b i] by auto

text \<open>The one way edges are added.\<close>

definition connect :: "agent_graph \<Rightarrow> nat \<Rightarrow> nat \<Rightarrow> duration \<Rightarrow> agent_graph" where
  "connect g i j lat = g\<lparr>g_adjacency := (g_adjacency g)[i := push_new_edge i j lat (g_adjacency g ! i)]\<rparr>"

lemma connect_simps [simp]:
  "g_nodes (connect g i j lat) = g_nodes g"
  "g_id_to_index (connect g i j lat) = g_id_to_index g"
  "length (g_adjacency (connect g i j lat)) = length (g_adjacency g)"
  by (simp_all add: connect_def)

lemma push_new_edge_find:
  "find (\<lambda>e. e_to e = j') (push_new_edge i j lat es) =
     (if j' = j \<and> find (\<lambda>e. e_to e = j) es = None
      then Some \<lparr>e_from = i, e_to = j, e_transfer_latency = lat\<rparr> else find (\<lambda>e. e_to e = j') es)"
proof -
  have "find P (es @ [x]) = (case find P es of None \<Rightarrow> if P x then Some x else None | Some y \<Rightarrow> Some y)"
    for P and x :: edge
    by (induction es) auto
  note snoc = this
  show ?thesis
  proof (cases "find (\<lambda>e. e_to e = j) es")
    case None
    then have "\<not> (\<exists>e \<in> set es. e_to e = j)" by (auto simp: find_None_iff)
    then have "push_new_edge i j lat es = es @ [\<lparr>e_from = i, e_to = j, e_transfer_latency = lat\<rparr>]"
      by (simp add: push_new_edge_def)
    then show ?thesis using None by (cases "j' = j") (simp_all add: snoc split: option.split)
  next
    case (Some e)
    then have "\<exists>e \<in> set es. e_to e = j" by (auto simp: find_Some_iff)
    then show ?thesis using Some by (simp add: push_new_edge_def)
  qed
qed

lemma connect_latency:
  assumes "i < length (g_adjacency g)"
  shows "transfer_latency (connect g i j lat) i' j' =
    (if i' = i \<and> j' = j \<and> transfer_latency g i j = None then Some lat else transfer_latency g i' j')"
  using assms
  by (cases "i' = i")
     (auto simp: transfer_latency_def connect_def vec_at_def push_new_edge_find bind_eq_None_conv
       split: if_splits)

lemma connect_wf:
  assumes "graph_wf g" "i < length (g_nodes g)" "j < length (g_nodes g)"
  shows "graph_wf (connect g i j lat)"
proof -
  let ?g = "connect g i j lat"
  note wf = graph_wfD [OF assms(1)]
  have adj: "g_adjacency ?g ! k =
      (if k = i then push_new_edge i j lat (g_adjacency g ! i) else g_adjacency g ! k)"
    if "k < length (g_adjacency g)" for k
    using that by (simp add: connect_def nth_list_update)
  have edges: "e_from e = k \<and> e_to e < length (g_nodes g)"
    if k: "k < length (g_adjacency g)" and e: "e \<in> set (g_adjacency ?g ! k)" for k e
  proof (cases "e \<in> set (g_adjacency g ! k)")
    case True
    then show ?thesis using wf(3) [OF k] by simp
  next
    case False
    then show ?thesis
      using e assms(3) by (auto simp: adj [OF k] push_new_edge_def split: if_splits)
  qed
  have dist: "distinct (map e_to (g_adjacency ?g ! k))" if k: "k < length (g_adjacency g)" for k
  proof -
    have "distinct (map e_to (push_new_edge i j lat es))" if "distinct (map e_to es)" for es
      using that by (auto simp: push_new_edge_def)
    from this [OF wf(4) [OF k]] show ?thesis
      using wf(4) [OF k] adj [OF k] by (cases "k = i") simp_all
  qed
  show ?thesis unfolding graph_wf_def using wf(1,2) edges dist by simp
qed

lemma connect_network:
  assumes "graph_wf g" "g_id_to_index g a = Some i" "g_id_to_index g b = Some j"
  shows "network_of (connect g i j lat) = net_link a b lat (network_of g)"
proof -
  have i: "i < length (g_adjacency g)"
    using index_lt [OF assms(1,2)] graph_wfD(1) [OF assms(1)] by simp
  have "node_view (connect g i j lat) = node_view g"
    by (rule ext) (simp add: node_view_def node_by_id_def)
  moreover have "link_view (connect g i j lat) =
      (if link_view g (a, b) = None then (link_view g)((a, b) \<mapsto> lat) else link_view g)"
  proof (rule ext)
    fix p :: "agent_id \<times> agent_id"
    obtain a' b' where p: "p = (a', b')" by (cases p)
    show "link_view (connect g i j lat) p =
      (if link_view g (a, b) = None then (link_view g)((a, b) \<mapsto> lat) else link_view g) p"
      using i assms(2,3) index_eq [OF assms(1,2), of a'] index_eq [OF assms(1,3), of b']
      by (cases "g_id_to_index g a'"; cases "g_id_to_index g b'"; cases "a' = a"; cases "b' = b")
        (simp_all add: p link_view_def index_of_def connect_latency)
  qed
  moreover have "a \<in> dom (node_view g)" "b \<in> dom (node_view g)"
    using assms by (auto simp: index_dom)
  ultimately show ?thesis by (simp add: network_of_def net_link_def)
qed

lemma modify_connect:
  assumes "graph_wf g" "i < length (g_nodes g)"
  shows "do { adj \<leftarrow> vec_modify (g_adjacency g) i (push_new_edge i j lat);
              Some (g\<lparr>g_adjacency := adj\<rparr>) } = Some (connect g i j lat)"
  using assms graph_wfD(1) by (simp add: vec_modify_def connect_def)

text \<open>Each operation succeeds, keeps the invariant and updates the network as specified.\<close>

definition op_correct :: "graph_op \<Rightarrow> agent_graph \<Rightarrow> bool" where
  "op_correct x g \<longleftrightarrow> (\<exists>g'. graph_step x g = Some g' \<and> graph_wf g' \<and>
     network_of g' = net_step x (network_of g))"

lemma add_edge_correct:
  assumes "graph_wf g"
  shows "\<exists>g'. add_edge g a b lat = Some g' \<and> graph_wf g' \<and>
    network_of g' = net_link a b lat (network_of g) \<and> g_id_to_index g' = g_id_to_index g"
proof (cases "g_id_to_index g a")
  case None
  then have "a \<notin> dom (fst (network_of g))" using assms by (auto simp: network_of_def index_dom)
  then show ?thesis using assms None by (auto simp: add_edge_def net_link_def split: prod.split)
next
  case (Some i)
  show ?thesis
  proof (cases "g_id_to_index g b")
    case None
    then have "b \<notin> dom (fst (network_of g))" using assms by (auto simp: network_of_def index_dom)
    then show ?thesis
      using assms Some None by (auto simp: add_edge_def net_link_def split: prod.split)
  next
    case (Some j)
    note ij = \<open>g_id_to_index g a = Some i\<close> Some
    have "add_edge g a b lat = Some (connect g i j lat)"
      using ij modify_connect [OF assms index_lt [OF assms ij(1)]] by (simp add: add_edge_def)
    then show ?thesis
      using connect_wf [OF assms index_lt [OF assms ij(1)] index_lt [OF assms ij(2)]]
        connect_network [OF assms ij] by simp
  qed
qed

text \<open>Operations on one node.\<close>

lemma modify_node:
  assumes "graph_wf g" "g_id_to_index g a = Some i" "\<And>n. an_id (f n) = an_id n"
  shows "\<exists>ns. vec_modify (g_nodes g) i f = Some ns \<and> graph_wf (g\<lparr>g_nodes := ns\<rparr>)
    \<and> link_view (g\<lparr>g_nodes := ns\<rparr>) = link_view g
    \<and> node_view g a = Some (node_info (g_nodes g ! i))
    \<and> node_view (g\<lparr>g_nodes := ns\<rparr>) = (node_view g)(a \<mapsto> node_info (f (g_nodes g ! i)))"
proof -
  let ?ns = "(g_nodes g)[i := f (g_nodes g ! i)]"
  let ?g = "g\<lparr>g_nodes := ?ns\<rparr>"
  note wf = graph_wfD [OF assms(1)]
  have i: "i < length (g_nodes g)" "an_id (g_nodes g ! i) = a" using wf(2) assms(2) by simp_all
  have ids: "an_id (?ns ! k) = an_id (g_nodes g ! k)" if "k < length (g_nodes g)" for k
    using that by (cases "k = i") (simp_all add: assms(3))
  have w: "graph_wf ?g"
    unfolding graph_wf_def using wf(1,3,4) wf(2) ids by (simp add: conj_commute cong: conj_cong)
  have l: "link_view ?g = link_view g"
    by (rule ext) (simp add: link_view_def index_of_def transfer_latency_def)
  have n: "node_view ?g b = ((node_view g)(a \<mapsto> node_info (f (g_nodes g ! i)))) b" for b
  proof (cases "g_id_to_index g b")
    case None
    then show ?thesis using assms(2) by (auto simp: node_view_def node_by_id_def)
  next
    case (Some k)
    then have "k < length (g_nodes g)" "an_id (g_nodes g ! k) = b" using wf(2) by simp_all
    then show ?thesis
      using Some assms(2) i
      by (cases "k = i") (auto simp: node_view_def node_by_id_def vec_at_def)
  qed
  show ?thesis
    using i w l n assms(2)
    by (auto simp: vec_modify_def node_view_def node_by_id_def vec_at_def intro!: ext)
qed

lemma set_availability_correct:
  assumes "graph_wf g"
  shows "\<exists>g'. set_availability v g a = Some g' \<and> graph_wf g' \<and>
    network_of g' = net_available v a (network_of g)"
proof (cases "g_id_to_index g a")
  case None
  then have "node_view g a = None" by (simp add: node_view_def node_by_id_def)
  then show ?thesis
    using assms None by (simp add: set_availability_def net_available_def network_of_def)
next
  case (Some i)
  from modify_node [OF assms Some, of "\<lambda>n. n\<lparr>an_available := v\<rparr>"] show ?thesis
    using Some
    by (auto simp: set_availability_def net_available_def network_of_def node_info_def)
qed

lemma add_agent_new_wf:
  assumes "graph_wf g" "g_id_to_index g a = None" "an_id n = a"
    and "g' = \<lparr>g_nodes = g_nodes g @ [n], g_adjacency = g_adjacency g @ [[]],
               g_id_to_index = (g_id_to_index g)(a \<mapsto> length (g_nodes g))\<rparr>"
  shows "graph_wf g' \<and> network_of g' = ((node_view g)(a \<mapsto> node_info n), link_view g)"
proof -
  note wf = graph_wfD [OF assms(1)]
  have na: "an_id (g_nodes g ! k) \<noteq> a" if "k < length (g_nodes g)" for k
    using wf(2) [of a k] assms(2) that by simp
  have idx: "g_id_to_index g' b = Some k \<longleftrightarrow> k < length (g_nodes g') \<and> an_id (g_nodes g' ! k) = b"
    for b k
    using wf(2) [of b k] na [of k] assms(2,3)
    by (cases "b = a") (auto simp: assms(4) nth_append less_Suc_eq)
  have w: "graph_wf g'"
    unfolding graph_wf_def using idx wf(1,3,4)
    by (auto simp: assms(4) nth_append less_Suc_eq)
  have lt: "k < length (g_nodes g)" if "g_id_to_index g b = Some k" for b k
    using index_lt [OF assms(1) that] .
  have "node_view g' b = ((node_view g)(a \<mapsto> node_info n)) b" for b
    using lt [of b] by (cases "g_id_to_index g b")
      (auto simp: assms(4) node_view_def node_by_id_def vec_at_def nth_append)
  moreover have "link_view g' (b, c) = link_view g (b, c)" for b c
  proof -
    have out: "transfer_latency g' i j = (if i = length (g_nodes g) then None
        else transfer_latency g i j)" for i j
      using wf(1) by (auto simp: assms(4) transfer_latency_def vec_at_def nth_append)
    have none: "transfer_latency g i (length (g_nodes g)) = None" for i
    proof (cases "i < length (g_adjacency g)")
      case True
      then have "find (\<lambda>e. e_to e = length (g_nodes g)) (g_adjacency g ! i) = None"
        using wf(3) [OF True] by (fastforce simp: find_None_iff)
      then show ?thesis using True by (simp add: transfer_latency_def vec_at_def)
    qed (simp add: transfer_latency_def vec_at_def)
    have "transfer_latency g (length (g_nodes g)) j = None" for j
      using wf(1) by (simp add: transfer_latency_def vec_at_def)
    then show ?thesis
      using lt assms(2) none out
      by (cases "g_id_to_index g b"; cases "g_id_to_index g c"; cases "b = a"; cases "c = a")
        (auto simp: link_view_def index_of_def assms(4))
  qed
  ultimately show ?thesis using w by (auto simp: network_of_def intro!: ext)
qed

lemma add_agent_correct:
  assumes "graph_wf g"
  shows "op_correct (AddAgent a caps trust) g"
proof (cases "g_id_to_index g a")
  case None
  then show ?thesis
    using add_agent_new_wf [OF assms None _ refl, of
        "\<lparr>an_id = a, an_capabilities = caps, an_available = True, an_trust_score = trust\<rparr>"]
    by (simp add: op_correct_def add_agent_def Let_def network_of_def node_info_def)
next
  case (Some i)
  from modify_node [OF assms Some, of
      "\<lambda>n. n\<lparr>an_capabilities := caps, an_trust_score := trust, an_available := True\<rparr>"]
  show ?thesis
    using Some by (auto simp: op_correct_def add_agent_def network_of_def node_info_def)
qed

lemma connect_pairs:
  assumes "graph_wf g" "\<forall>(i, j) \<in> set ps. i < length (g_nodes g) \<and> j < length (g_nodes g)"
  shows "\<exists>g'. foldl (connect_pair lat) (Some g) ps = Some g' \<and> graph_wf g'
    \<and> g_nodes g' = g_nodes g \<and> g_id_to_index g' = g_id_to_index g
    \<and> (\<forall>i j. transfer_latency g' i j =
         (if (i, j) \<in> set ps \<and> i \<noteq> j \<and> transfer_latency g i j = None then Some lat
          else transfer_latency g i j))"
  using assms
proof (induction ps arbitrary: g)
  case Nil
  then show ?case by simp
next
  case (Cons p ps)
  obtain i j where p: "p = (i, j)" by (cases p)
  then have ij: "i < length (g_nodes g)" "j < length (g_nodes g)" using Cons.prems(2) by auto
  show ?case
  proof (cases "i = j")
    case True
    then have "connect_pair lat (Some g) p = Some g" by (simp add: connect_pair_def p)
    then show ?thesis using Cons.IH [OF Cons.prems(1)] Cons.prems(2) True p by auto
  next
    case False
    let ?g = "connect g i j lat"
    have "i < length (g_adjacency g)" using ij graph_wfD(1) [OF Cons.prems(1)] by simp
    note lat = connect_latency [OF this, of j lat]
    have "connect_pair lat (Some g) p = Some ?g"
      using False modify_connect [OF Cons.prems(1) ij(1)] by (simp add: connect_pair_def p)
    moreover have "\<forall>(i, j) \<in> set ps. i < length (g_nodes ?g) \<and> j < length (g_nodes ?g)"
      using Cons.prems(2) by simp
    ultimately show ?thesis
      using Cons.IH [OF connect_wf [OF Cons.prems(1) ij], of lat] False p by (auto simp: lat)
  qed
qed

lemma fully_connect_correct:
  assumes "graph_wf g"
  shows "op_correct (FullyConnect lat) g"
proof -
  let ?ps = "List.product [0..<length (g_nodes g)] [0..<length (g_nodes g)]"
  have "\<forall>(i, j) \<in> set ?ps. i < length (g_nodes g) \<and> j < length (g_nodes g)" by auto
  from connect_pairs [OF assms this, of lat] obtain g' where
    g': "fully_connect g lat = Some g'" "graph_wf g'" "g_nodes g' = g_nodes g"
      "g_id_to_index g' = g_id_to_index g"
    and lat: "\<And>i j. transfer_latency g' i j =
         (if (i, j) \<in> set ?ps \<and> i \<noteq> j \<and> transfer_latency g i j = None then Some lat
          else transfer_latency g i j)"
    by (auto simp: fully_connect_def Let_def)
  have "node_view g' = node_view g"
    by (rule ext) (simp add: node_view_def node_by_id_def g')
  moreover have "link_view g' (a, b) = snd (net_step (FullyConnect lat) (network_of g)) (a, b)"
    for a b
  proof (cases "a \<in> dom (node_view g) \<and> b \<in> dom (node_view g)")
    case True
    then obtain i j where ij: "g_id_to_index g a = Some i" "g_id_to_index g b = Some j"
      by (auto simp: index_dom [OF assms])
    then have "i = j \<longleftrightarrow> a = b" using index_eq [OF assms ij(1), of b] by auto
    then show ?thesis
      using ij index_lt [OF assms ij(1)] index_lt [OF assms ij(2)] True
      by (simp add: network_of_def link_view_def index_of_def g'(4) lat)
  next
    case False
    then have "g_id_to_index g a = None \<or> g_id_to_index g b = None"
      by (auto simp: index_dom [OF assms])
    then show ?thesis
      using False by (auto simp: network_of_def link_view_def index_of_def g'(4) split: bind_splits)
  qed
  ultimately show ?thesis
    using g' by (auto simp: op_correct_def network_of_def intro!: ext)
qed

lemma graph_step_correct:
  assumes "graph_wf g"
  shows "op_correct x g"
proof (cases x)
  case (AddAgent a caps trust)
  then show ?thesis using add_agent_correct [OF assms] by simp
next
  case (AddEdge a b lat)
  then show ?thesis using add_edge_correct [OF assms, of a b lat] by (auto simp: op_correct_def)
next
  case (AddBidiEdge a b lat)
  obtain g' where g': "add_edge g a b lat = Some g'" "graph_wf g'"
    "network_of g' = net_link a b lat (network_of g)"
    using add_edge_correct [OF assms, of a b lat] by blast
  then show ?thesis
    using add_edge_correct [OF g'(2), of b a lat] AddBidiEdge
    by (auto simp: op_correct_def add_bidi_edge_def)
next
  case (SetUnavailable a)
  then show ?thesis
    using set_availability_correct [OF assms, of False a]
    by (simp add: op_correct_def set_unavailable_def)
next
  case (SetAvailable a)
  then show ?thesis
    using set_availability_correct [OF assms, of True a]
    by (simp add: op_correct_def set_available_def)
next
  case (FullyConnect lat)
  then show ?thesis using fully_connect_correct [OF assms] by simp
qed

lemma graph_run_correct:
  "graph_wf g \<Longrightarrow> \<exists>g'. graph_run xs g = Some g' \<and> graph_wf g' \<and>
     network_of g' = fold net_step xs (network_of g)"
proof (induction xs arbitrary: g)
  case Nil
  then show ?case by simp
next
  case (Cons x xs)
  then obtain g' where "graph_step x g = Some g'" "graph_wf g'"
    "network_of g' = net_step x (network_of g)"
    using graph_step_correct [OF Cons.prems, of x] unfolding op_correct_def by blast
  then show ?case using Cons.IH [of g'] by simp
qed

lemma network_of_new [simp]: "network_of graph_new = (Map.empty, Map.empty)"
  by (auto simp: network_of_def graph_new_def node_view_def node_by_id_def link_view_def
      index_of_def intro!: ext)

section \<open>Properties\<close>

text \<open>
  C14. From the empty graph no sequence of graph operations ever panics: the dense indices, the
  adjacency lists and the identifier table stay consistent, and the graph stands for the network
  that the operations describe. An agent added again keeps its links and becomes available; a link
  keeps the latency it was first given; only \<open>fully_connect\<close> refuses self-links.
\<close>

theorem graph_refines_network:
  "\<exists>g. graph_run ops graph_new = Some g \<and> graph_wf g
     \<and> network_of g = fold net_step ops (Map.empty, Map.empty)"
  using graph_run_correct [OF graph_new_wf, of ops] by simp

text \<open>
  The capability match: the indices returned are strictly increasing and are exactly those of
  the available agents with the task's capability whose trust is not below the threshold (never
  one whose trust is NaN); on a well-formed graph the subgraph exists and has exactly the edges
  between two of them.
\<close>

lemma capability_match_correct:
  assumes "graph_wf g"
  shows "\<exists>agents es. capability_subgraph g t mt = Some (agents, es)
    \<and> agents = capable_agents g t mt \<and> sorted_wrt (<) agents
    \<and> set agents = {i. i < node_count g \<and> an_available (g_nodes g ! i)
         \<and> mt \<le> an_trust_score (g_nodes g ! i)
         \<and> (\<exists>c \<in> set (an_capabilities (g_nodes g ! i)). cap_task_type c = t)}
    \<and> set es = {e. \<exists>i j. i \<in> set agents \<and> j \<in> set agents
         \<and> e \<in> set (edges_from g i) \<and> e_to e = j}"
proof -
  let ?as = "capable_agents g t mt"
  note wf = graph_wfD [OF assms]
  have cap: "capability_for n t \<noteq> None \<longleftrightarrow> (\<exists>c \<in> set (an_capabilities n). cap_task_type c = t)" for n
    by (auto simp: capability_for_def find_None_iff)
  have at: "vec_at (g_adjacency g) i = Some (edges_from g i)" if "i \<in> set ?as" for i
    using that wf(1) by (simp add: capable_agents_iff edges_from_def vec_at_def)
  then have "collect_options (\<lambda>idx. vec_at (g_adjacency g) idx) ?as = Some (map (edges_from g) ?as)"
    by (intro collect_options_total) simp
  then have "capability_subgraph g t mt =
      Some (?as, concat (map (filter (\<lambda>e. e_to e \<in> set ?as)) (map (edges_from g) ?as)))"
    by (simp add: capability_subgraph_def Let_def)
  moreover have "set ?as = {i. i < node_count g \<and> an_available (g_nodes g ! i)
         \<and> mt \<le> an_trust_score (g_nodes g ! i)
         \<and> (\<exists>c \<in> set (an_capabilities (g_nodes g ! i)). cap_task_type c = t)}"
    by (auto simp: capable_agents_iff is_capable_def cap [symmetric] node_count_def
        simp del: not_None_eq)
  moreover have "set (concat (map (filter (\<lambda>e. e_to e \<in> set ?as)) (map (edges_from g) ?as)))
      = {e. \<exists>i j. i \<in> set ?as \<and> j \<in> set ?as \<and> e \<in> set (edges_from g i) \<and> e_to e = j}"
    by auto
  ultimately show ?thesis
    using capable_agents_sorted by (intro exI conjI) (assumption | rule refl)+
qed

lemma capability_match_correct_example:
  "\<exists>agents es. capability_subgraph graph_new Analysis 0 = Some (agents, es)"
  using capability_match_correct [OF graph_new_wf] by blast

end
