(* ===== verification/Cost.thy ===== *)
theory Cost
  imports Atp_Types
begin

text \<open>
  The cost model of \<open>atp-routing\<close> (\<open>cost.rs\<close>): weights, scalar costs and route metrics. Sums of
  durations panic on overflow (\<open>None\<close>).
\<close>

record cost_weights =
  w_quality :: f64
  w_latency :: f64
  w_cost :: f64

definition cost_weights_new :: "f64 \<Rightarrow> f64 \<Rightarrow> f64 \<Rightarrow> cost_weights" where
  "cost_weights_new q l c = \<lparr>w_quality = q, w_latency = l, w_cost = c\<rparr>"

definition pareto_sample_vectors :: "cost_weights list" where
  "pareto_sample_vectors =
    [cost_weights_new 1 0 0,
     cost_weights_new 0 1 0,
     cost_weights_new 0 0 1,
     cost_weights_new (to_f64 (5 / 10)) (to_f64 (5 / 10)) 0,
     cost_weights_new (to_f64 (5 / 10)) 0 (to_f64 (5 / 10)),
     cost_weights_new 0 (to_f64 (5 / 10)) (to_f64 (5 / 10)),
     cost_weights_new (to_f64 (34 / 100)) (to_f64 (33 / 100)) (to_f64 (33 / 100)),
     cost_weights_new (to_f64 (6 / 10)) (to_f64 (2 / 10)) (to_f64 (2 / 10)),
     cost_weights_new (to_f64 (2 / 10)) (to_f64 (6 / 10)) (to_f64 (2 / 10)),
     cost_weights_new (to_f64 (2 / 10)) (to_f64 (2 / 10)) (to_f64 (6 / 10))]"

definition default_cost_weights :: cost_weights where
  "default_cost_weights =
     \<lparr>w_quality = to_f64 (34 / 100), w_latency = to_f64 (33 / 100), w_cost = to_f64 (33 / 100)\<rparr>"

record cost_model =
  latency_ref :: duration
  cost_ref :: f64

definition default_cost_model :: cost_model where
  "default_cost_model = \<lparr>latency_ref = from_secs 10, cost_ref = 1\<rparr>"

definition cost_model_new :: "duration \<Rightarrow> f64 \<Rightarrow> cost_model" where
  "cost_model_new l c = \<lparr>latency_ref = l, cost_ref = c\<rparr>"

definition scalar_edge_cost ::
  "cost_model \<Rightarrow> capability \<Rightarrow> duration \<Rightarrow> cost_weights \<Rightarrow> f64 option" where
  "scalar_edge_cost cm cap transfer w = do {
     total_latency \<leftarrow> dur_add (cap_estimated_latency cap) transfer;
     Some (let q_norm = 1 - clamp (cap_estimated_quality cap) 0 1;
               l_norm = f64_min (as_secs_f64 total_latency / as_secs_f64 (latency_ref cm)) (to_f64 2);
               c_norm = f64_min (cap_cost_per_task cap / cost_ref cm) (to_f64 2)
           in w_quality w * q_norm + w_latency w * l_norm + w_cost w * c_norm)
   }"

definition compute_route_metrics ::
  "cost_model \<Rightarrow> capability list \<Rightarrow> duration list \<Rightarrow> route_metrics option" where
  "compute_route_metrics cm caps transfers =
     (if caps = [] then Some \<lparr>rm_quality = 0, rm_latency = 0, rm_cost = 0\<rparr>
      else do {
        let quality = f64_product (map (\<lambda>c. clamp (cap_estimated_quality c) 0 1) caps);
        agent_latency \<leftarrow> dur_sum (map cap_estimated_latency caps);
        edge_latency \<leftarrow> dur_sum transfers;
        latency \<leftarrow> dur_add agent_latency edge_latency;
        let cost = f64_sum (map cap_cost_per_task caps);
        Some \<lparr>rm_quality = quality, rm_latency = latency, rm_cost = cost\<rparr>
      })"

definition scalar_route_cost :: "cost_model \<Rightarrow> route_metrics \<Rightarrow> cost_weights \<Rightarrow> f64" where
  "scalar_route_cost cm m w =
     (let q_norm = 1 - clamp (rm_quality m) 0 1;
          l_norm = f64_min (as_secs_f64 (rm_latency m) / as_secs_f64 (latency_ref cm)) (to_f64 2);
          c_norm = f64_min (rm_cost m / cost_ref cm) (to_f64 2)
      in w_quality w * q_norm + w_latency w * l_norm + w_cost w * c_norm)"

definition satisfies_constraints :: "cost_model \<Rightarrow> route_metrics \<Rightarrow> qos_constraints \<Rightarrow> bool" where
  "satisfies_constraints cm m q \<longleftrightarrow>
     min_quality q \<le> rm_quality m \<and> rm_latency m \<le> max_latency q \<and> rm_cost m \<le> max_cost q"

definition weights_from_constraints :: "qos_constraints \<Rightarrow> cost_weights" where
  "weights_from_constraints q =
     (let q_tightness = min_quality q;
          l_tightness = 1 / (1 + as_secs_f64 (max_latency q));
          c_tightness = 1 / (1 + max_cost q);
          total = q_tightness + l_tightness + c_tightness
      in if total < EPSILON then default_cost_weights
         else \<lparr>w_quality = q_tightness / total, w_latency = l_tightness / total,
               w_cost = c_tightness / total\<rparr>)"

definition default_transfer_latency :: duration where
  "default_transfer_latency = from_millis 5"

definition sort_by_cost :: "(nat \<times> capability) list \<Rightarrow> (nat \<times> capability) list" where
  "sort_by_cost caps = sort_by (\<lambda>a b. cap_cost_per_task (snd a) < cap_cost_per_task (snd b)) caps"

definition sort_by_quality :: "(nat \<times> capability) list \<Rightarrow> (nat \<times> capability) list" where
  "sort_by_quality caps =
     sort_by (\<lambda>a b. cap_estimated_quality (snd b) < cap_estimated_quality (snd a)) caps"

fun estimated_savings :: "routing_pattern \<Rightarrow> f64 \<times> f64" where
  "estimated_savings DraftRefine = (to_f64 (40 / 100), to_f64 (70 / 100))"
| "estimated_savings Cascade = (to_f64 (30 / 100), to_f64 (50 / 100))"
| "estimated_savings ParallelMerge = (0, to_f64 (10 / 100))"
| "estimated_savings Ensemble = (0, 0)"
| "estimated_savings Pipeline = (0, to_f64 (20 / 100))"

section \<open>Sane capabilities\<close>

text \<open>What an honest agent advertises: a quality that is a number and a cost that is not negative.\<close>

definition cap_ok :: "capability \<Rightarrow> bool" where
  "cap_ok c \<longleftrightarrow> f64_wf (cap_estimated_quality c) \<and> cap_estimated_quality c \<noteq> NaN
     \<and> f64_wf (cap_cost_per_task c) \<and> 0 \<le> cap_cost_per_task c"

definition cap_quality :: "capability \<Rightarrow> f64" where
  "cap_quality c = clamp (cap_estimated_quality c) 0 1"

lemma cap_quality_unit: "cap_ok c \<Longrightarrow> unit_f64 (cap_quality c)"
  by (simp add: cap_ok_def cap_quality_def clamp_unit)

lemma cap_quality_wf: "cap_ok c \<Longrightarrow> f64_wf (cap_quality c)"
  by (simp add: cap_ok_def cap_quality_def clamp_def Let_def)

lemma nonneg_ratio_min:
  assumes "(0::f64) \<le> a" "0 \<le> b"
  shows "0 \<le> f64_min (a / b) (to_f64 2)" "is_finite (f64_min (a / b) (to_f64 2))"
proof -
  have two: "to_f64 2 = Fin 2" using exact_of_int [of 2] by (simp add: to_f64_exact)
  have "a / b = NaN \<or> 0 \<le> a / b"
    using assms to_f64_mono [of 0] by (cases a; cases b) (auto simp: f64_zero_one_Fin to_f64_exact)
  then show "0 \<le> f64_min (a / b) (to_f64 2)" "is_finite (f64_min (a / b) (to_f64 2))"
    by (cases "a / b"; auto simp: f64_min_def two f64_zero_one_Fin is_finite_def)+
qed

text \<open>Weights that are non-negative numbers; all the predefined ones are.\<close>

definition weights_ok :: "cost_weights \<Rightarrow> bool" where
  "weights_ok w \<longleftrightarrow> 0 \<le> w_quality w \<and> is_finite (w_quality w) \<and> 0 \<le> w_latency w
     \<and> is_finite (w_latency w) \<and> 0 \<le> w_cost w \<and> is_finite (w_cost w)"

lemma to_f64_unit_ok: "0 \<le> q \<Longrightarrow> q \<le> 1 \<Longrightarrow> 0 \<le> to_f64 q \<and> is_finite (to_f64 q)"
  using to_f64_unit [of q] by (auto simp: unit_f64_Fin f64_zero_one_Fin is_finite_def)

lemma sample_weights_ok: "\<forall>w \<in> set pareto_sample_vectors. weights_ok w"
  by (simp add: pareto_sample_vectors_def weights_ok_def cost_weights_new_def to_f64_unit_ok)
    (simp add: f64_zero_one_Fin is_finite_def)

lemma scalar_nonneg:
  assumes "weights_ok w" "unit_f64 q" "0 \<le> l" "is_finite l" "0 \<le> c" "is_finite c"
  shows "0 \<le> w_quality w * (1 - q) + w_latency w * l + w_cost w * c"
proof -
  have "unit_f64 (1 - q)" using assms(2) by simp
  then have "0 \<le> 1 - q" "is_finite (1 - q)"
    by (auto simp: unit_f64_Fin f64_zero_one_Fin is_finite_def)
  then show ?thesis
    using assms unfolding weights_ok_def by (intro nonneg_plus nonneg_times_fin) simp_all
qed

lemma scalar_edge_cost_nonneg:
  assumes "weights_ok w" "cap_ok cap" "0 \<le> cost_ref cm"
    and "scalar_edge_cost cm cap transfer w = Some x"
  shows "0 \<le> x"
  using assms scalar_nonneg [OF assms(1) cap_quality_unit [OF assms(2)]]
    nonneg_ratio_min [OF as_secs_f64_nonneg as_secs_f64_nonneg]
    nonneg_ratio_min [of "cap_cost_per_task cap" "cost_ref cm"]
  by (auto simp: scalar_edge_cost_def bind_eq_Some_conv cap_quality_def cap_ok_def Let_def)

section \<open>Route metrics\<close>

lemma metrics_defined:
  "compute_route_metrics cm (c # cs) ts \<noteq> None \<longleftrightarrow>
     sum_list (map cap_estimated_latency (c # cs)) + sum_list ts \<le> DURATION_MAX"
  by (auto simp: compute_route_metrics_def dur_add_def split: bind_splits)

lemma metrics_fields:
  assumes "compute_route_metrics cm caps ts = Some m" "caps \<noteq> []"
  shows "rm_quality m = f64_product (map cap_quality caps)"
    and "rm_latency m = sum_list (map cap_estimated_latency caps) + sum_list ts"
    and "rm_cost m = f64_sum (map cap_cost_per_task caps)"
    and "sum_list (map cap_estimated_latency caps) + sum_list ts \<le> DURATION_MAX"
  using assms
  by (auto simp: compute_route_metrics_def cap_quality_def [abs_def] bind_eq_Some_conv Let_def)

lemma product_decreasing:
  assumes "\<forall>x \<in> set xs. unit_f64 x" "unit_f64 a" "f64_wf a"
  shows "foldl (*) a xs \<le> a"
  using assms
proof (induction xs arbitrary: a)
  case Nil
  then show ?case by (simp add: f64_le_refl unit_f64_not_NaN)
next
  case (Cons x xs)
  have "0 \<le> a" "is_finite a"
    using Cons.prems(2) by (auto simp: unit_f64_Fin f64_zero_one_Fin is_finite_def)
  then have "a * x \<le> a" using times_unit_le(2) [of x a] Cons.prems by simp
  moreover have "foldl (*) (a * x) xs \<le> a * x" using Cons by simp
  ultimately show ?case using f64_le_trans by simp
qed

lemma product_wf: "f64_wf a \<Longrightarrow> f64_wf (foldl (*) a xs)"
  by (induction xs arbitrary: a) auto

lemma sum_increasing:
  assumes "\<forall>x \<in> set xs. (0::f64) \<le> x \<and> f64_wf x" "0 \<le> a" "f64_wf a"
  shows "a \<le> foldl (+) a xs"
  using assms
proof (induction xs arbitrary: a)
  case Nil
  then show ?case using f64_le_not_NaN by (auto intro: f64_le_refl)
next
  case (Cons x xs)
  have "a \<le> a + x" using Cons.prems by (intro le_plus_nonneg) auto
  moreover have "a + x \<le> foldl (+) (a + x) xs"
    using Cons.prems by (intro Cons.IH) (auto intro: nonneg_plus)
  ultimately show ?case using f64_le_trans by simp
qed

lemma sum_wf: "f64_wf a \<Longrightarrow> \<forall>x \<in> set xs. f64_wf x \<Longrightarrow> f64_wf (foldl (+) a xs)"
  by (induction xs arbitrary: a) auto

text \<open>\<open>m\<close> is at least as good as \<open>m'\<close> in all three objectives.\<close>

definition metrics_le :: "route_metrics \<Rightarrow> route_metrics \<Rightarrow> bool" where
  "metrics_le m m' \<longleftrightarrow>
     rm_quality m' \<le> rm_quality m \<and> rm_latency m \<le> rm_latency m' \<and> rm_cost m \<le> rm_cost m'"

lemma metrics_le_satisfies:
  "metrics_le m m' \<Longrightarrow> satisfies_constraints cm m' q \<Longrightarrow> satisfies_constraints cm m q"
  unfolding metrics_le_def satisfies_constraints_def using f64_le_trans order.trans by blast

lemma append_metrics:
  assumes "\<forall>c \<in> set (xs @ ys). cap_ok c" "xs \<noteq> []"
    and "compute_route_metrics cm (xs @ ys) (ts @ us) = Some m'"
  shows "\<exists>m. compute_route_metrics cm xs ts = Some m \<and> metrics_le m m'"
proof -
  note F' = metrics_fields [OF assms(3)]
  have le: "sum_list (map cap_estimated_latency xs) + sum_list ts \<le> rm_latency m'"
    and max: "rm_latency m' \<le> DURATION_MAX" using F'(2,4) assms(2) by simp_all
  then obtain m where m: "compute_route_metrics cm xs ts = Some m"
    using metrics_defined [of cm "hd xs" "tl xs" ts] assms(2) by auto
  note F = metrics_fields [OF m assms(2)]
  have qs: "\<forall>x \<in> set (map cap_quality zs). unit_f64 x \<and> f64_wf x" if "set zs \<subseteq> set (xs @ ys)" for zs
    using that assms(1) cap_quality_unit cap_quality_wf by fastforce
  have cs: "\<forall>x \<in> set (map cap_cost_per_task zs). 0 \<le> x \<and> f64_wf x" if "set zs \<subseteq> set (xs @ ys)" for zs
    using that assms(1) by (auto simp: cap_ok_def)
  have "rm_quality m' \<le> rm_quality m"
    unfolding F(1) F'(1) [simplified assms(2) append_is_Nil_conv, simplified] f64_product_def
    using qs [of ys] qs [of xs] unit_product [of "map cap_quality xs" 1] product_wf [of 1]
    by (simp add: product_decreasing)
  moreover have "rm_cost m \<le> rm_cost m'"
    unfolding F(3) F'(3) [simplified assms(2) append_is_Nil_conv, simplified] f64_sum_def
    using cs [of ys] cs [of xs] nonneg_sum [of "map cap_cost_per_task xs" 0]
      sum_wf [of 0 "map cap_cost_per_task xs"]
    by (simp add: sum_increasing f64_le_refl)
  ultimately show ?thesis using m F(2) le by (auto simp: metrics_le_def)
qed

section \<open>Properties\<close>

lemma route_metrics_spec:
  "compute_route_metrics cm (c # cs) ts =
     (let latency = sum_list (map cap_estimated_latency (c # cs)) + sum_list ts
      in if latency \<le> DURATION_MAX
         then Some \<lparr>rm_quality = f64_product (map cap_quality (c # cs)), rm_latency = latency,
                    rm_cost = f64_sum (map cap_cost_per_task (c # cs))\<rparr>
         else None)"
proof (cases "compute_route_metrics cm (c # cs) ts")
  case None
  then show ?thesis using metrics_defined [of cm c cs ts] by (simp add: Let_def)
next
  case (Some m)
  from metrics_fields [OF this] show ?thesis using Some by simp
qed

text \<open>
  Route metrics: for a non-empty route they are the product of the clamped qualities, the exact
  sum of all agent and transfer latencies and the sum of the costs; computing them panics exactly
  when that latency does not fit in a \<open>Duration\<close>.
\<close>

lemma route_metrics_correct:
  "compute_route_metrics cm (c # cs) ts =
     (let latency = sum_list (map cap_estimated_latency (c # cs)) + sum_list ts
      in if latency \<le> DURATION_MAX
         then Some \<lparr>rm_quality = f64_product (map cap_quality (c # cs)), rm_latency = latency,
                    rm_cost = f64_sum (map cap_cost_per_task (c # cs))\<rparr>
         else None)"
  by (rule route_metrics_spec)

text \<open>
  A longer route is never better: whatever agents are appended, quality does not rise and
  latency and cost do not fall, so a route that satisfies the QoS constraints satisfies them with
  its tail cut off; rounding cannot turn this around.
\<close>

lemma longer_routes_never_better:
  assumes "\<forall>c \<in> set (xs @ ys). cap_ok c" and "xs \<noteq> []"
    and "compute_route_metrics cm (xs @ ys) (ts @ us) = Some m'"
  shows "\<exists>m. compute_route_metrics cm xs ts = Some m \<and> metrics_le m m'
    \<and> (satisfies_constraints cm m' q \<longrightarrow> satisfies_constraints cm m q)"
  using append_metrics [OF assms] metrics_le_satisfies by blast

definition cap_example :: capability where
  "cap_example = \<lparr>cap_task_type = Analysis, cap_estimated_quality = Fin (1 / 2),
     cap_estimated_latency = from_millis 100, cap_cost_per_task = 1\<rparr>"

lemma cap_example_ok: "cap_ok cap_example"
  using exact_frac [of 1 1] by (simp add: cap_ok_def cap_example_def f64_wf_Fin f64_zero_one_Fin)

lemma longer_routes_never_better_example:
  "\<exists>m m'. compute_route_metrics default_cost_model [cap_example] [] = Some m
     \<and> compute_route_metrics default_cost_model [cap_example, cap_example] [5000000] = Some m'
     \<and> metrics_le m m'"
proof -
  have "sum_list (map cap_estimated_latency [cap_example, cap_example]) + sum_list [5000000]
      \<le> DURATION_MAX"
    by (simp add: cap_example_def from_millis_def DURATION_MAX_def NANOS_PER_SEC_def)
  then obtain m' where
    "compute_route_metrics default_cost_model ([cap_example] @ [cap_example]) ([] @ [5000000]) = Some m'"
    using metrics_defined [of default_cost_model cap_example "[cap_example]" "[5000000]"] by auto
  then show ?thesis
    using longer_routes_never_better [of "[cap_example]" "[cap_example]" default_cost_model "[]"
        "[5000000]" m'] cap_example_ok by auto
qed

end
