(* ===== verification/Patterns.thy ===== *)
theory Patterns
  imports Graph Cost
begin

text \<open>
  The routing patterns of \<open>atp-routing\<close> (\<open>patterns.rs\<close>): draft-refine, parallel-merge, cascade,
  ensemble, pipeline and the automatic choice among them. A route's fresh identifier and its time
  are the argument \<open>stamp\<close>; at most one route is made per call. The outer \<open>option\<close> is a panic of
  the duration arithmetic.
\<close>

record agent_info =
  ai_index :: nat
  ai_id :: agent_id
  ai_capability :: capability
  ai_trust :: f64

type_synonym stamp = "uuid \<times> datetime"

abbreviation info_quality :: "agent_info \<Rightarrow> f64" where
  "info_quality a \<equiv> cap_estimated_quality (ai_capability a)"

abbreviation info_cost :: "agent_info \<Rightarrow> f64" where
  "info_cost a \<equiv> cap_cost_per_task (ai_capability a)"

abbreviation info_latency :: "agent_info \<Rightarrow> duration" where
  "info_latency a \<equiv> cap_estimated_latency (ai_capability a)"

definition agent_info_of :: "agent_graph \<Rightarrow> task_type \<Rightarrow> nat \<Rightarrow> agent_info option" where
  "agent_info_of g t idx = do {
     node \<leftarrow> graph_node g idx;
     cap \<leftarrow> capability_for node t;
     Some \<lparr>ai_index = idx, ai_id = an_id node, ai_capability = cap, ai_trust = an_trust_score node\<rparr>
   }"

definition extract_agents :: "agent_graph \<Rightarrow> task_type \<Rightarrow> f64 \<Rightarrow> agent_info list" where
  "extract_agents g t mt = List.map_filter (agent_info_of g t) (capable_agents g t mt)"

definition sorted_by_cost :: "agent_info list \<Rightarrow> agent_info list" where
  "sorted_by_cost agents = sort_by (\<lambda>a b. info_cost a < info_cost b) agents"

definition sorted_by_quality :: "agent_info list \<Rightarrow> agent_info list" where
  "sorted_by_quality agents = sort_by (\<lambda>a b. info_quality b < info_quality a) agents"

definition make_route ::
  "stamp \<Rightarrow> routing_pattern \<Rightarrow> agent_id list \<Rightarrow> route_metrics \<Rightarrow> duration \<Rightarrow> route" where
  "make_route stamp p agents m ttl =
     \<lparr>route_id = fst stamp, route_pattern = p, route_agents = agents, route_metrics = m,
      route_computed_at = snd stamp, route_ttl = ttl\<rparr>"

text \<open>The constraint check and the construction that end every pattern.\<close>

definition finish_route ::
  "cost_model \<Rightarrow> qos_constraints \<Rightarrow> stamp \<Rightarrow> routing_pattern \<Rightarrow> agent_id list \<Rightarrow> route_metrics \<Rightarrow>
   duration \<Rightarrow> routing_error + route" where
  "finish_route cm q stamp p ids m ttl =
     (if \<not> satisfies_constraints cm m q then Inl NoFeasibleRoute
      else Inr (make_route stamp p ids m ttl))"

definition hop_latency :: "agent_graph \<Rightarrow> nat \<Rightarrow> nat \<Rightarrow> duration" where
  "hop_latency g i j =
     (case transfer_latency g i j of Some l \<Rightarrow> l | None \<Rightarrow> default_transfer_latency)"

definition draft_refine ::
  "agent_graph \<Rightarrow> task_type \<Rightarrow> qos_constraints \<Rightarrow> cost_model \<Rightarrow> duration \<Rightarrow> stamp \<Rightarrow>
   (routing_error + route) option" where
  "draft_refine g t q cm ttl stamp =
     (let agents = extract_agents g t (min_trust q)
      in if length agents < 2 then Some (Inl NoFeasibleRoute)
         else (let by_cost = sorted_by_cost agents;
                   by_quality = sorted_by_quality agents;
                   drafter = by_cost ! 0
               in case find (\<lambda>a. ai_index a \<noteq> ai_index drafter) by_quality of
                    None \<Rightarrow> Some (Inl NoFeasibleRoute)
                  | Some refiner \<Rightarrow> do {
                      let transfer = hop_latency g (ai_index drafter) (ai_index refiner);
                      m \<leftarrow> compute_route_metrics cm [ai_capability drafter, ai_capability refiner]
                        [transfer];
                      Some (finish_route cm q stamp DraftRefine [ai_id drafter, ai_id refiner] m ttl)
                    }))"

text \<open>The metrics of agents working in parallel, with the overhead of combining their results.\<close>

definition redundant_quality :: "agent_info list \<Rightarrow> f64" where
  "redundant_quality sel = 1 - f64_product (map (\<lambda>a. 1 - clamp (info_quality a) 0 1) sel)"

definition redundant_metrics :: "agent_info list \<Rightarrow> duration \<Rightarrow> route_metrics option" where
  "redundant_metrics sel overhead = do {
     let max_lat = fold max (map info_latency sel) 0;
     latency \<leftarrow> dur_add max_lat overhead;
     Some \<lparr>rm_quality = redundant_quality sel, rm_latency = latency,
           rm_cost = f64_sum (map info_cost sel)\<rparr>
   }"

definition parallel_merge ::
  "agent_graph \<Rightarrow> task_type \<Rightarrow> qos_constraints \<Rightarrow> cost_model \<Rightarrow> duration \<Rightarrow> nat \<Rightarrow> stamp \<Rightarrow>
   (routing_error + route) option" where
  "parallel_merge g t q cm ttl parallelism stamp =
     (let agents = extract_agents g t (min_trust q);
          n = min parallelism (length agents)
      in if n < 2 then Some (Inl NoFeasibleRoute)
         else do {
           let selected = take n (sorted_by_quality agents);
           m \<leftarrow> redundant_metrics selected (from_millis 10);
           Some (finish_route cm q stamp ParallelMerge (map ai_id selected) m ttl)
         })"

section \<open>Cascade\<close>

record cascade_acc =
  ca_quality :: f64
  ca_latency :: duration
  ca_cost :: f64
  ca_reach :: f64

fun cascade_loop ::
  "agent_graph \<Rightarrow> f64 \<Rightarrow> agent_info list \<Rightarrow> cascade_acc \<Rightarrow> cascade_acc option" where
  "cascade_loop g threshold [] acc = Some acc"
| "cascade_loop g threshold (agent # rest) acc = do {
     let q = clamp (info_quality agent) 0 1;
     let p_confident = (if threshold \<le> q then q else q * to_f64 (5 / 10));
     let p_handle = ca_reach acc * p_confident;
     own \<leftarrow> from_secs_f64 (ca_reach acc * as_secs_f64 (info_latency agent));
     latency \<leftarrow> dur_add (ca_latency acc) own;
     latency \<leftarrow> (case rest of
         [] \<Rightarrow> Some latency
       | b # _ \<Rightarrow> do {
           hop \<leftarrow> from_secs_f64 (ca_reach acc * (1 - p_confident)
             * as_secs_f64 (hop_latency g (ai_index agent) (ai_index b)));
           dur_add latency hop
         });
     cascade_loop g threshold rest
       \<lparr>ca_quality = ca_quality acc + p_handle * q, ca_latency = latency,
        ca_cost = ca_cost acc + ca_reach acc * info_cost agent,
        ca_reach = ca_reach acc * (1 - p_confident)\<rparr>
   }"

definition cascade ::
  "agent_graph \<Rightarrow> task_type \<Rightarrow> qos_constraints \<Rightarrow> cost_model \<Rightarrow> duration \<Rightarrow> f64 \<Rightarrow> stamp \<Rightarrow>
   (routing_error + route) option" where
  "cascade g t q cm ttl threshold stamp =
     (let agents = extract_agents g t (min_trust q)
      in if agents = [] then Some (Inl NoFeasibleRoute)
         else (let chain = take 4 (sorted_by_cost agents)
               in if chain = [] then Some (Inl NoFeasibleRoute)
                  else do {
                    acc \<leftarrow> cascade_loop g threshold chain
                      \<lparr>ca_quality = 0, ca_latency = 0, ca_cost = 0, ca_reach = 1\<rparr>;
                    let quality = (if 0 < ca_reach acc
                      then ca_quality acc + ca_reach acc * info_quality (last chain)
                      else ca_quality acc);
                    Some (finish_route cm q stamp Cascade (map ai_id chain)
                      \<lparr>rm_quality = clamp quality 0 1, rm_latency = ca_latency acc,
                       rm_cost = ca_cost acc\<rparr> ttl)
                  }))"

section \<open>Ensemble, pipeline and the automatic choice\<close>

definition ensemble_less :: "agent_info \<Rightarrow> agent_info \<Rightarrow> bool" where
  "ensemble_less a b =
     (if info_quality b < info_quality a then True
      else if info_quality a < info_quality b then False
      else ai_trust b < ai_trust a)"

definition ensemble ::
  "agent_graph \<Rightarrow> task_type \<Rightarrow> qos_constraints \<Rightarrow> cost_model \<Rightarrow> duration \<Rightarrow> nat \<Rightarrow> stamp \<Rightarrow>
   (routing_error + route) option" where
  "ensemble g t q cm ttl ensemble_size stamp =
     (let agents = extract_agents g t (min_trust q);
          n = min ensemble_size (length agents)
      in if n < 2 then Some (Inl NoFeasibleRoute)
         else do {
           let by_quality = sort_by ensemble_less (sorted_by_quality agents);
           let selected = take n by_quality;
           m \<leftarrow> redundant_metrics selected (from_millis 5);
           Some (finish_route cm q stamp Ensemble (map ai_id selected) m ttl)
         })"

fun pipeline_parts ::
  "agent_graph \<Rightarrow> task_type \<Rightarrow> nat option \<Rightarrow> nat list \<Rightarrow>
   routing_error + agent_id list \<times> capability list \<times> duration list" where
  "pipeline_parts g t prev [] = Inr ([], [], [])"
| "pipeline_parts g t prev (idx # path) =
     res_bind (ok_or EmptyGraph (graph_node g idx)) (\<lambda>node.
     res_bind (ok_or NoFeasibleRoute (capability_for node t)) (\<lambda>cap.
     res_bind (pipeline_parts g t (Some idx) path) (\<lambda>(ids, caps, transfers).
       Inr (an_id node # ids, cap # caps,
         (case prev of None \<Rightarrow> transfers | Some p \<Rightarrow> hop_latency g p idx # transfers)))))"

definition pipeline ::
  "agent_graph \<Rightarrow> task_type \<Rightarrow> qos_constraints \<Rightarrow> cost_model \<Rightarrow> duration \<Rightarrow> nat list \<Rightarrow> stamp \<Rightarrow>
   (routing_error + route) option" where
  "pipeline g t q cm ttl path stamp =
     (if path = [] then Some (Inl NoFeasibleRoute)
      else case pipeline_parts g t None path of
          Inl e \<Rightarrow> Some (Inl e)
        | Inr (ids, caps, transfers) \<Rightarrow> do {
            m \<leftarrow> compute_route_metrics cm caps transfers;
            Some (finish_route cm q stamp Pipeline ids m ttl)
          })"

definition pipeline_from_ids ::
  "agent_graph \<Rightarrow> task_type \<Rightarrow> qos_constraints \<Rightarrow> cost_model \<Rightarrow> duration \<Rightarrow> agent_id list \<Rightarrow>
   stamp \<Rightarrow> (routing_error + route) option" where
  "pipeline_from_ids g t q cm ttl ids stamp =
     (case collect_results (\<lambda>a. ok_or NoFeasibleRoute (index_of g a)) ids of
        Inl e \<Rightarrow> Some (Inl e)
      | Inr path \<Rightarrow> pipeline g t q cm ttl path stamp)"

text \<open>\<open>if let Ok(route) = r { return Ok(route); }\<close>, then the rest.\<close>

definition or_else ::
  "(routing_error + route) option \<Rightarrow> (routing_error + route) option \<Rightarrow>
   (routing_error + route) option" where
  "or_else r rest = (case r of
     None \<Rightarrow> None | Some (Inr x) \<Rightarrow> Some (Inr x) | Some (Inl _) \<Rightarrow> rest)"

fun first_alone ::
  "qos_constraints \<Rightarrow> cost_model \<Rightarrow> duration \<Rightarrow> stamp \<Rightarrow> agent_info list \<Rightarrow>
   (routing_error + route) option" where
  "first_alone q cm ttl stamp [] = Some (Inl NoFeasibleRoute)"
| "first_alone q cm ttl stamp (a # rest) = do {
     m \<leftarrow> compute_route_metrics cm [ai_capability a] [];
     if satisfies_constraints cm m q
     then Some (Inr (make_route stamp Pipeline [ai_id a] m ttl))
     else first_alone q cm ttl stamp rest
   }"

definition median_cost :: "agent_info list \<Rightarrow> f64" where
  "median_cost agents =
     (let costs = sort_by (\<lambda>a b. a < b) (map info_cost agents) in costs ! (length costs div 2))"

definition auto_select_pattern ::
  "agent_graph \<Rightarrow> task_type \<Rightarrow> qos_constraints \<Rightarrow> cost_model \<Rightarrow> duration \<Rightarrow> stamp \<Rightarrow>
   (routing_error + route) option" where
  "auto_select_pattern g t q cm ttl stamp =
     (let agents = extract_agents g t (min_trust q)
      in if agents = [] then Some (Inl NoFeasibleRoute)
         else (let alone = first_alone q cm ttl stamp (sorted_by_cost agents);
                   latency = (if max_latency q \<le> from_millis 500 \<and> 2 \<le> length agents
                     then or_else (parallel_merge g t q cm ttl 3 stamp) alone else alone);
                   quality = (if to_f64 (9 / 10) \<le> min_quality q \<and> 2 \<le> length agents
                     then or_else (ensemble g t q cm ttl 3 stamp) latency else latency)
               in if max_cost q < median_cost agents * to_f64 (15 / 10) \<and> 2 \<le> length agents
                  then or_else (cascade g t q cm ttl (to_f64 (7 / 10)) stamp)
                         (or_else (draft_refine g t q cm ttl stamp) quality)
                  else quality))"

section \<open>Who is selected\<close>

lemma info_of_fields:
  "agent_info_of g t i = Some a \<Longrightarrow> ai_index a = i \<and> i < length (g_nodes g)
     \<and> ai_id a = an_id (g_nodes g ! i) \<and> ai_trust a = an_trust_score (g_nodes g ! i)
     \<and> capability_for (g_nodes g ! i) t = Some (ai_capability a)"
  by (auto simp: agent_info_of_def graph_node_def vec_at_def bind_eq_Some_conv split: if_splits)

lemma extract_agents_mem:
  "a \<in> set (extract_agents g t mt) \<longleftrightarrow>
     ai_index a \<in> set (capable_agents g t mt) \<and> agent_info_of g t (ai_index a) = Some a"
proof -
  have "a \<in> set (List.map_filter f is) \<longleftrightarrow> (\<exists>i \<in> set is. f i = Some a)" for f :: "nat \<Rightarrow> agent_info option" and "is"
    by (induction "is") (auto simp: map_filter_simps split: option.split)
  then show ?thesis
    unfolding extract_agents_def using info_of_fields [of g t _ a] by (metis (no_types, lifting))
qed

lemma capable_info:
  assumes "i \<in> set (capable_agents g t mt)"
  shows "\<exists>a. agent_info_of g t i = Some a \<and> ai_index a = i"
  using assms
  by (auto simp: capable_agents_iff is_capable_def agent_info_of_def graph_node_def vec_at_def)

lemma extract_agents_indices: "map ai_index (extract_agents g t mt) = capable_agents g t mt"
proof -
  have "map ai_index (List.map_filter (agent_info_of g t) is) = is"
    if "\<forall>i \<in> set is. \<exists>a. agent_info_of g t i = Some a \<and> ai_index a = i" for "is"
    using that by (induction "is") (auto simp: map_filter_simps)
  then show ?thesis unfolding extract_agents_def using capable_info by blast
qed

lemma extract_agents_distinct: "distinct (map ai_index (extract_agents g t mt))"
  by (simp add: extract_agents_indices capable_agents_distinct)

text \<open>The identifiers of the agents a route may use.\<close>

definition eligible :: "agent_graph \<Rightarrow> task_type \<Rightarrow> f64 \<Rightarrow> agent_id \<Rightarrow> bool" where
  "eligible g t mt a \<longleftrightarrow> (\<exists>n. node_by_id g a = Some n \<and> is_capable t mt n)"

lemma info_eligible:
  assumes "graph_wf g" "a \<in> set (extract_agents g t mt)"
  shows "eligible g t mt (ai_id a)"
proof -
  have a: "ai_index a \<in> set (capable_agents g t mt)" "agent_info_of g t (ai_index a) = Some a"
    using assms(2) extract_agents_mem by blast+
  then have i: "ai_index a < length (g_nodes g)" "is_capable t mt (g_nodes g ! ai_index a)"
    by (simp_all add: capable_agents_iff)
  have "ai_id a = an_id (g_nodes g ! ai_index a)" using info_of_fields [OF a(2)] by simp
  then have "g_id_to_index g (ai_id a) = Some (ai_index a)"
    using graph_wfD(2) [OF assms(1), of "ai_id a" "ai_index a"] i(1) by simp
  then show ?thesis using i by (simp add: eligible_def node_by_id_def vec_at_def)
qed

lemma info_ids_distinct:
  assumes "graph_wf g" "set as \<subseteq> set (extract_agents g t mt)" "distinct (map ai_index as)"
  shows "distinct (map ai_id as)"
proof -
  have idx: "g_id_to_index g (ai_id a) = Some (ai_index a)" if "a \<in> set as" for a
  proof -
    have a: "ai_index a \<in> set (capable_agents g t mt)" "agent_info_of g t (ai_index a) = Some a"
      using that assms(2) extract_agents_mem by blast+
    then show ?thesis
      using graph_wfD(2) [OF assms(1), of "ai_id a" "ai_index a"] info_of_fields [OF a(2)] by simp
  qed
  have "a = b" if "a \<in> set as" "b \<in> set as" "ai_id a = ai_id b" for a b
  proof -
    have "ai_index a = ai_index b" using idx [OF that(1)] idx [OF that(2)] that(3) by simp
    then show ?thesis using assms(3) that by (simp add: distinct_map inj_on_def)
  qed
  then show ?thesis using assms(3) by (simp add: distinct_map inj_on_def)
qed

section \<open>Sound routes\<close>

text \<open>What every route promises its caller.\<close>

definition route_sound ::
  "agent_graph \<Rightarrow> task_type \<Rightarrow> qos_constraints \<Rightarrow> cost_model \<Rightarrow> route \<Rightarrow> bool" where
  "route_sound g t q cm r \<longleftrightarrow> satisfies_constraints cm (route_metrics r) q
     \<and> route_agents r \<noteq> [] \<and> distinct (route_agents r)
     \<and> (\<forall>a \<in> set (route_agents r). eligible g t (min_trust q) a)"

lemma finish_route_Inr:
  "finish_route cm q stamp p ids m ttl = Inr r \<longleftrightarrow>
     satisfies_constraints cm m q \<and> r = make_route stamp p ids m ttl"
  by (auto simp: finish_route_def)

lemma finish_route_Inl: "finish_route cm q stamp p ids m ttl = Inl e \<Longrightarrow> e = NoFeasibleRoute"
  by (auto simp: finish_route_def split: if_splits)

lemma make_route_fields [simp]:
  "route_pattern (make_route stamp p ids m ttl) = p"
  "route_agents (make_route stamp p ids m ttl) = ids"
  "route_metrics (make_route stamp p ids m ttl) = m"
  "route_ttl (make_route stamp p ids m ttl) = ttl"
  by (simp_all add: make_route_def)

lemma infos_sound:
  assumes "graph_wf g" "set as \<subseteq> set (extract_agents g t (min_trust q))" "as \<noteq> []"
    and "distinct (map ai_index as)" "satisfies_constraints cm m q"
  shows "route_sound g t q cm (make_route stamp p (map ai_id as) m ttl)"
proof -
  have "eligible g t (min_trust q) a" if "a \<in> set (map ai_id as)" for a
    using that info_eligible [OF assms(1) subsetD [OF assms(2)]] by auto
  then show ?thesis
    using info_ids_distinct [OF assms(1,2,4)] assms(3,5) by (simp add: route_sound_def)
qed

lemma sorted_sets [simp]:
  "set (sorted_by_cost as) = set as" "length (sorted_by_cost as) = length as"
  "set (sorted_by_quality as) = set as" "length (sorted_by_quality as) = length as"
  "mset (sorted_by_cost as) = mset as" "mset (sorted_by_quality as) = mset as"
  by (simp_all add: sorted_by_cost_def sorted_by_quality_def)

lemma distinct_indices_mset:
  "mset as = mset bs \<Longrightarrow> distinct (map ai_index as) \<longleftrightarrow> distinct (map ai_index bs)"
  by (metis mset_eq_imp_distinct_iff mset_map)

lemma take_infos:
  assumes "mset as = mset (extract_agents g t mt)"
  shows "set (take n as) \<subseteq> set (extract_agents g t mt)"
    and "distinct (map ai_index (take n as))"
proof -
  have "set as = set (extract_agents g t mt)" using assms by (metis set_mset_mset)
  then show "set (take n as) \<subseteq> set (extract_agents g t mt)" using set_take_subset [of n as] by simp
  have "distinct (map ai_index as)"
    unfolding distinct_indices_mset [OF assms] by (rule extract_agents_distinct)
  then show "distinct (map ai_index (take n as))" unfolding take_map [symmetric] by (rule distinct_take)
qed

lemma prefix_sound:
  assumes "graph_wf g" "mset as = mset (extract_agents g t (min_trust q))" "take n as \<noteq> []"
    and "satisfies_constraints cm m q"
  shows "route_sound g t q cm (make_route stamp p (map ai_id (take n as)) m ttl)"
  by (rule infos_sound [OF assms(1) take_infos(1) [OF assms(2)] assms(3) take_infos(2) [OF assms(2)]
        assms(4)])

lemma draft_refine_sound:
  assumes "graph_wf g" "draft_refine g t q cm ttl stamp = Some (Inr r)"
  shows "route_sound g t q cm r \<and> route_pattern r = DraftRefine \<and> length (route_agents r) = 2"
proof -
  let ?as = "extract_agents g t (min_trust q)"
  let ?d = "sorted_by_cost ?as ! 0"
  have l: "2 \<le> length ?as"
    using assms(2) by (simp add: draft_refine_def Let_def split: if_splits)
  obtain b m where b: "find (\<lambda>a. ai_index a \<noteq> ai_index ?d) (sorted_by_quality ?as) = Some b"
    and r: "satisfies_constraints cm m q" "r = make_route stamp DraftRefine [ai_id ?d, ai_id b] m ttl"
    using assms(2)
    by (auto simp: draft_refine_def Let_def bind_eq_Some_conv finish_route_Inr
        split: if_splits option.splits)
  have "b \<in> set ?as" "ai_index b \<noteq> ai_index ?d" using b by (auto simp: find_Some_iff)
      (metis nth_mem sorted_sets(3,4))
  moreover have "?d \<in> set ?as" using l by (metis nth_mem sorted_sets(1,2) less_le_trans zero_less_numeral)
  ultimately show ?thesis
    using infos_sound [OF assms(1), of "[?d, b]"] r by simp
qed

lemma parallel_merge_sound:
  assumes "graph_wf g" "parallel_merge g t q cm ttl n stamp = Some (Inr r)"
  shows "route_sound g t q cm r \<and> route_pattern r = ParallelMerge
    \<and> 2 \<le> length (route_agents r) \<and> length (route_agents r) \<le> n"
proof -
  let ?as = "extract_agents g t (min_trust q)"
  let ?sel = "take (min n (length ?as)) (sorted_by_quality ?as)"
  obtain m where l: "\<not> min n (length ?as) < 2"
    and r: "satisfies_constraints cm m q" "r = make_route stamp ParallelMerge (map ai_id ?sel) m ttl"
    using assms(2)
    by (auto simp: parallel_merge_def Let_def bind_eq_Some_conv finish_route_Inr split: if_splits)
  have n2: "2 \<le> min n (length ?as)" using l by linarith
  then have "length ?sel \<noteq> 0" by (simp only: length_take sorted_sets)
  then have "?sel \<noteq> []" by blast
  from prefix_sound [OF assms(1) sorted_sets(6) this r(1)] show ?thesis
    unfolding r(2) using n2 by simp
qed

lemma ensemble_sound:
  assumes "graph_wf g" "ensemble g t q cm ttl n stamp = Some (Inr r)"
  shows "route_sound g t q cm r \<and> route_pattern r = Ensemble
    \<and> 2 \<le> length (route_agents r) \<and> length (route_agents r) \<le> n"
proof -
  let ?as = "extract_agents g t (min_trust q)"
  let ?by = "sort_by ensemble_less (sorted_by_quality ?as)"
  let ?sel = "take (min n (length ?as)) ?by"
  obtain m where l: "\<not> min n (length ?as) < 2"
    and r: "satisfies_constraints cm m q" "r = make_route stamp Ensemble (map ai_id ?sel) m ttl"
    using assms(2)
    by (auto simp: ensemble_def Let_def bind_eq_Some_conv finish_route_Inr split: if_splits)
  have n2: "2 \<le> min n (length ?as)" using l by linarith
  then have "length ?sel \<noteq> 0" by (simp only: length_take length_sort_by sorted_sets)
  then have ne: "?sel \<noteq> []" by blast
  have "mset ?by = mset ?as" by simp
  from prefix_sound [OF assms(1) this ne r(1)] show ?thesis
    unfolding r(2) using n2 by simp
qed

lemma cascade_sound:
  assumes "graph_wf g" "cascade g t q cm ttl th stamp = Some (Inr r)"
  shows "route_sound g t q cm r \<and> route_pattern r = Cascade
    \<and> 1 \<le> length (route_agents r) \<and> length (route_agents r) \<le> 4"
proof -
  let ?as = "extract_agents g t (min_trust q)"
  let ?chain = "take 4 (sorted_by_cost ?as)"
  obtain m where ne: "?chain \<noteq> []"
    and r: "satisfies_constraints cm m q" "r = make_route stamp Cascade (map ai_id ?chain) m ttl"
    using assms(2)
    by (auto simp: cascade_def Let_def bind_eq_Some_conv finish_route_Inr split: if_splits)
  have "1 \<le> length ?chain" using ne by (cases ?chain) simp_all
  then show ?thesis
    using prefix_sound [OF assms(1) sorted_sets(5) ne r(1)] r(2) by simp
qed

lemma first_alone_Inr:
  "first_alone q cm ttl stamp as = Some (Inr r) \<Longrightarrow> \<exists>a m. a \<in> set as
     \<and> compute_route_metrics cm [ai_capability a] [] = Some m \<and> satisfies_constraints cm m q
     \<and> r = make_route stamp Pipeline [ai_id a] m ttl"
  by (induction as) (auto simp: bind_eq_Some_conv split: if_splits)

lemma first_alone_Inl:
  "first_alone q cm ttl stamp as = Some (Inl e) \<Longrightarrow> e = NoFeasibleRoute \<and>
     (\<forall>a \<in> set as. \<forall>m. compute_route_metrics cm [ai_capability a] [] = Some m \<longrightarrow>
        \<not> satisfies_constraints cm m q)"
  by (induction as) (auto simp: bind_eq_Some_conv split: if_splits)

lemma or_else_Inr: "or_else r s = Some (Inr x) \<Longrightarrow> r = Some (Inr x) \<or> s = Some (Inr x)"
  by (auto simp: or_else_def split: option.splits sum.splits)

lemma or_else_Inl: "or_else r s = Some (Inl e) \<Longrightarrow> s = Some (Inl e)"
  by (auto simp: or_else_def split: option.splits sum.splits)

lemma auto_select_sound:
  assumes "graph_wf g" "auto_select_pattern g t q cm ttl stamp = Some (Inr r)"
  shows "route_sound g t q cm r"
proof -
  let ?as = "extract_agents g t (min_trust q)"
  have "cascade g t q cm ttl (to_f64 (7 / 10)) stamp = Some (Inr r)
      \<or> draft_refine g t q cm ttl stamp = Some (Inr r)
      \<or> ensemble g t q cm ttl 3 stamp = Some (Inr r)
      \<or> parallel_merge g t q cm ttl 3 stamp = Some (Inr r)
      \<or> first_alone q cm ttl stamp (sorted_by_cost ?as) = Some (Inr r)"
    using assms(2) unfolding auto_select_pattern_def Let_def
    by (auto split: if_splits dest!: or_else_Inr)
  moreover have "route_sound g t q cm r"
    if f: "first_alone q cm ttl stamp (sorted_by_cost ?as) = Some (Inr r)"
  proof -
    obtain a m where a: "a \<in> set ?as" "satisfies_constraints cm m q"
      "r = make_route stamp Pipeline [ai_id a] m ttl"
      using first_alone_Inr [OF f] by auto
    then show ?thesis using infos_sound [OF assms(1), of "[a]"] by simp
  qed
  ultimately show ?thesis
    using cascade_sound [OF assms(1), of t q cm ttl "to_f64 (7 / 10)" stamp r]
      draft_refine_sound [OF assms(1), of t q cm ttl stamp r]
      ensemble_sound [OF assms(1), of t q cm ttl 3 stamp r]
      parallel_merge_sound [OF assms(1), of t q cm ttl 3 stamp r] by blast
qed

lemma auto_select_Inl:
  assumes "auto_select_pattern g t q cm ttl stamp = Some (Inl e)"
  shows "e = NoFeasibleRoute \<and> (\<forall>a \<in> set (extract_agents g t (min_trust q)). \<forall>m.
    compute_route_metrics cm [ai_capability a] [] = Some m \<longrightarrow> \<not> satisfies_constraints cm m q)"
proof (cases "extract_agents g t (min_trust q) = []")
  case True
  then show ?thesis using assms by (simp add: auto_select_pattern_def)
next
  case False
  then have "first_alone q cm ttl stamp (sorted_by_cost (extract_agents g t (min_trust q))) = Some (Inl e)"
    using assms unfolding auto_select_pattern_def Let_def
    by (auto split: if_splits dest!: or_else_Inl)
  from first_alone_Inl [OF this] show ?thesis by simp
qed

section \<open>Properties\<close>

text \<open>
  Every route a pattern returns keeps its promise: its metrics satisfy the QoS constraints and
  its agents are distinct, available, trusted enough and capable of the task. Draft-refine uses
  exactly two agents, parallel-merge and ensemble between two and the requested number, cascade at
  most four; the automatic choice returns only such routes.
\<close>

lemma pattern_routes_sound:
  assumes "graph_wf g"
  shows "(draft_refine g t q cm ttl stamp = Some (Inr r) \<longrightarrow>
        route_sound g t q cm r \<and> route_pattern r = DraftRefine \<and> length (route_agents r) = 2)
    \<and> (parallel_merge g t q cm ttl n stamp = Some (Inr r) \<longrightarrow>
        route_sound g t q cm r \<and> route_pattern r = ParallelMerge
        \<and> 2 \<le> length (route_agents r) \<and> length (route_agents r) \<le> n)
    \<and> (cascade g t q cm ttl th stamp = Some (Inr r) \<longrightarrow>
        route_sound g t q cm r \<and> route_pattern r = Cascade
        \<and> 1 \<le> length (route_agents r) \<and> length (route_agents r) \<le> 4)
    \<and> (ensemble g t q cm ttl n stamp = Some (Inr r) \<longrightarrow>
        route_sound g t q cm r \<and> route_pattern r = Ensemble
        \<and> 2 \<le> length (route_agents r) \<and> length (route_agents r) \<le> n)
    \<and> (auto_select_pattern g t q cm ttl stamp = Some (Inr r) \<longrightarrow> route_sound g t q cm r)"
  using draft_refine_sound [OF assms] parallel_merge_sound [OF assms] cascade_sound [OF assms]
    ensemble_sound [OF assms] auto_select_sound [OF assms] by (intro conjI impI) simp_all

text \<open>One agent that serves the task alone.\<close>

definition solo_graph :: agent_graph where
  "solo_graph = \<lparr>g_nodes = [\<lparr>an_id = AgentId 1, an_capabilities = [cap_example],
       an_available = True, an_trust_score = 1\<rparr>],
     g_adjacency = [[]], g_id_to_index = [AgentId 1 \<mapsto> 0]\<rparr>"

definition easy_qos :: qos_constraints where
  "easy_qos = \<lparr>min_quality = 0, max_latency = from_secs 10, max_cost = Fin 2, min_trust = 0\<rparr>"

lemma solo_graph_wf: "graph_wf solo_graph"
proof -
  have "graph_run [AddAgent (AgentId 1) [cap_example] 1] graph_new = Some solo_graph"
    by (simp add: graph_new_def add_agent_def solo_graph_def)
  then show ?thesis using graph_run_correct [OF graph_new_wf] by (metis option.inject)
qed

lemma solo_agents:
  "extract_agents solo_graph Analysis 0 =
     [\<lparr>ai_index = 0, ai_id = AgentId 1, ai_capability = cap_example, ai_trust = 1\<rparr>]"
  by (simp add: extract_agents_def capable_agents_def solo_graph_def is_capable_def
      capability_for_def cap_example_def agent_info_of_def graph_node_def vec_at_def
      map_filter_simps f64_zero_one_Fin)

lemma solo_metrics:
  "compute_route_metrics cm [cap_example] [] =
     Some \<lparr>rm_quality = Fin (1 / 2), rm_latency = from_millis 100, rm_cost = 1\<rparr>"
  using exact_frac [of 1 1]
  by (simp add: route_metrics_spec cap_example_def from_millis_def DURATION_MAX_def
      NANOS_PER_SEC_def f64_product_def f64_sum_def cap_quality_def clamp_def f64_zero_one_Fin
      to_f64_exact)

lemma solo_route:
  "auto_select_pattern solo_graph Analysis easy_qos default_cost_model 0 (0, 0) =
     Some (Inr (make_route (0, 0) Pipeline [AgentId 1]
       \<lparr>rm_quality = Fin (1 / 2), rm_latency = from_millis 100, rm_cost = 1\<rparr> 0))"
proof -
  have "satisfies_constraints default_cost_model
      \<lparr>rm_quality = Fin (1 / 2), rm_latency = from_millis 100, rm_cost = 1\<rparr> easy_qos"
    by (simp add: satisfies_constraints_def easy_qos_def f64_zero_one_Fin from_millis_def
        from_secs_def NANOS_PER_SEC_def)
  then show ?thesis
    by (simp add: auto_select_pattern_def Let_def easy_qos_def solo_agents sorted_by_cost_def
        solo_metrics)
qed

lemma pattern_routes_sound_example:
  "\<exists>r. auto_select_pattern solo_graph Analysis easy_qos default_cost_model 0 (0, 0) = Some (Inr r)
     \<and> route_sound solo_graph Analysis easy_qos default_cost_model r"
  using pattern_routes_sound [OF solo_graph_wf] solo_route by blast

text \<open>
  The automatic choice fails only when it must: if it returns an error, that is
  \<open>NoFeasibleRoute\<close> and no capable agent satisfies the QoS constraints alone. So a request that a
  single agent can serve is never refused.
\<close>

lemma auto_select_complete:
  "case auto_select_pattern g t q cm ttl stamp of
     Some (Inl e) \<Rightarrow> e = NoFeasibleRoute \<and>
       \<not> (\<exists>a \<in> set (extract_agents g t (min_trust q)). \<exists>m.
            compute_route_metrics cm [ai_capability a] [] = Some m \<and> satisfies_constraints cm m q)
   | _ \<Rightarrow> True"
  using auto_select_Inl [of g t q cm ttl stamp] by (auto split: option.split sum.split)

text \<open>
  A single advert can make the cascade panic: the cheapest capable agent advertises the quality NaN
  and there is a second capable agent.
\<close>

lemma cascade_loop_NaN:
  assumes "info_quality a = NaN"
  shows "cascade_loop g th (a # b # rest) acc = None"
proof -
  have nan: "x * NaN = NaN" "NaN * x = NaN" "1 - NaN = (NaN :: f64)" for x
    by (cases x; simp)+ (simp add: minus_f64_def f64_zero_one_Fin)
  have "from_secs_f64 NaN = None" by (simp add: from_secs_f64_def)
  then show ?thesis
    unfolding cascade_loop.simps(2) [of g th a "b # rest" acc] Let_def list.case assms
    by (simp add: nan del: cascade_loop.simps split: bind_splits)
qed

lemma cascade_NaN:
  assumes "2 \<le> length (extract_agents g t (min_trust q))"
    and "info_quality (hd (sorted_by_cost (extract_agents g t (min_trust q)))) = NaN"
  shows "cascade g t q cm ttl th stamp = None"
proof -
  let ?as = "extract_agents g t (min_trust q)"
  have "2 \<le> length (sorted_by_cost ?as)" using assms(1) by simp
  then obtain a b rest where s: "sorted_by_cost ?as = a # b # rest"
    by (cases "sorted_by_cost ?as"; cases "tl (sorted_by_cost ?as)") auto
  then have "info_quality a = NaN" using assms(2) by simp
  note nan = cascade_loop_NaN [OF this]
  have t: "take 4 (sorted_by_cost ?as) = a # b # take 2 rest" by (simp add: s eval_nat_numeral)
  have "?as \<noteq> []" using assms(1) by auto
  then show ?thesis unfolding cascade_def Let_def t by (simp add: nan del: cascade_loop.simps)
qed

definition nan_graph :: agent_graph where
  "nan_graph = \<lparr>g_nodes =
       [\<lparr>an_id = AgentId 1, an_capabilities = [cap_example\<lparr>cap_estimated_quality := NaN,
           cap_cost_per_task := 0\<rparr>], an_available = True, an_trust_score = 1\<rparr>,
        \<lparr>an_id = AgentId 2, an_capabilities = [cap_example], an_available = True, an_trust_score = 1\<rparr>],
     g_adjacency = [[], []], g_id_to_index = [AgentId 1 \<mapsto> 0, AgentId 2 \<mapsto> 1]\<rparr>"

lemma nan_agents:
  "extract_agents nan_graph Analysis (min_trust easy_qos) =
      [\<lparr>ai_index = 0, ai_id = AgentId 1, ai_capability = cap_example\<lparr>cap_estimated_quality := NaN,
         cap_cost_per_task := 0\<rparr>, ai_trust = 1\<rparr>,
       \<lparr>ai_index = 1, ai_id = AgentId 2, ai_capability = cap_example, ai_trust = 1\<rparr>]"
  by (simp add: extract_agents_def capable_agents_def nan_graph_def is_capable_def
      capability_for_def cap_example_def agent_info_of_def graph_node_def vec_at_def easy_qos_def
      map_filter_simps f64_zero_one_Fin)

text \<open>
  Parallel-merge picks the best: it uses exactly as many agents as asked for and available, no
  capable agent left out advertises a higher quality than one chosen, its latency is the slowest
  one's plus the merge overhead, and its quality lies in the unit interval.
\<close>

lemma parallel_merge_picks_best:
  assumes "parallel_merge g t q cm ttl n stamp = Some (Inr r)"
    and "\<forall>a \<in> set (extract_agents g t (min_trust q)). info_quality a \<noteq> NaN"
  shows "\<exists>sel. route_agents r = map ai_id sel
    \<and> length sel = min n (length (extract_agents g t (min_trust q)))
    \<and> (\<exists>rest. mset (sel @ rest) = mset (extract_agents g t (min_trust q))
         \<and> (\<forall>a \<in> set sel. \<forall>b \<in> set rest. info_quality b \<le> info_quality a))
    \<and> unit_f64 (rm_quality (route_metrics r))
    \<and> rm_latency (route_metrics r) = fold max (map info_latency sel) 0 + from_millis 10"
proof -
  let ?as = "extract_agents g t (min_trust q)"
  let ?k = "min n (length ?as)" and ?s = "sorted_by_quality (extract_agents g t (min_trust q))"
  obtain m where m: "redundant_metrics (take ?k ?s) (from_millis 10) = Some m"
    and r: "r = make_route stamp ParallelMerge (map ai_id (take ?k ?s)) m ttl"
    using assms(1)
    by (auto simp: parallel_merge_def Let_def bind_eq_Some_conv finish_route_Inr split: if_splits)
  have "sorted_wrt (\<lambda>a b. \<not> info_quality a < info_quality b) ?s"
    unfolding sorted_by_quality_def
    by (rule strict_weak_order.sort_by_sorted [OF key_descending assms(2)])
  then have "sorted_wrt (\<lambda>a b. \<not> info_quality a < info_quality b) (take ?k ?s @ drop ?k ?s)" by simp
  then have "\<forall>a \<in> set (take ?k ?s). \<forall>b \<in> set (drop ?k ?s). \<not> info_quality a < info_quality b"
    unfolding sorted_wrt_append by simp
  moreover have nn: "info_quality a \<noteq> NaN" if "a \<in> set ?s" for a using that assms(2) by simp
  ultimately have best: "\<forall>a \<in> set (take ?k ?s). \<forall>b \<in> set (drop ?k ?s). info_quality b \<le> info_quality a"
    using f64_not_less in_set_takeD in_set_dropD by metis
  have "\<forall>x \<in> set (map (\<lambda>a. 1 - clamp (info_quality a) 0 1) (take ?k ?s)). unit_f64 x"
    using nn by (auto intro!: unit_one_minus clamp_unit dest: in_set_takeD)
  then have "unit_f64 (redundant_quality (take ?k ?s))"
    unfolding redundant_quality_def by (intro unit_one_minus unit_f64_product)
  then have "unit_f64 (rm_quality m) \<and> rm_latency m = fold max (map info_latency (take ?k ?s)) 0
      + from_millis 10"
    using m by (auto simp: redundant_metrics_def bind_eq_Some_conv)
  moreover have "mset (take ?k ?s @ drop ?k ?s) = mset ?as" by simp
  moreover have "length (take ?k ?s) = ?k" by simp
  ultimately show ?thesis
    using best unfolding r make_route_fields by blast
qed

end
