(* ===== verification/Bellman_Ford.thy ===== *)
theory Bellman_Ford
  imports Graph Cost
begin

text \<open>
  The modified Bellman-Ford search of \<open>atp-routing\<close> (\<open>bellman_ford.rs\<close>). The distance and
  predecessor vectors are lists over local indices below \<open>k\<close>, the number of capable agents; every
  index the code uses is one of these (lemma \<open>local_index\<close>). The outer \<open>option\<close> is a panic, which
  only the addition of two durations can raise.
\<close>

record bf_result =
  bf_weights :: cost_weights
  bf_path :: "nat list"
  bf_scalar_cost :: f64
  bf_metrics :: route_metrics

section \<open>One search\<close>

record bf_state =
  bf_dist :: "f64 list"
  bf_pred :: "nat option list"
  bf_updated :: bool

definition global_to_local :: "nat list \<Rightarrow> nat \<rightharpoonup> nat" where
  "global_to_local agents =
     fold (\<lambda>(local, global) m. m(global \<mapsto> local)) (enumerate 0 agents) Map.empty"

definition bf_init :: "nat \<Rightarrow> nat \<Rightarrow> bf_state" where
  "bf_init k s = \<lparr>bf_dist = (replicate k PInf)[s := 0], bf_pred = replicate k None,
     bf_updated = False\<rparr>"

text \<open>The test and the update for one edge, given its cost.\<close>

definition relax_cost :: "nat \<Rightarrow> nat \<Rightarrow> f64 \<Rightarrow> bf_state \<Rightarrow> bf_state" where
  "relax_cost u v c st =
     (let new_dist = bf_dist st ! u + c
      in if new_dist < bf_dist st ! v
         then \<lparr>bf_dist = (bf_dist st)[v := new_dist], bf_pred = (bf_pred st)[v := Some u],
               bf_updated = True\<rparr>
         else st)"

definition relax_edge ::
  "agent_graph \<Rightarrow> (nat \<rightharpoonup> nat) \<Rightarrow> task_type \<Rightarrow> cost_model \<Rightarrow> cost_weights \<Rightarrow> nat \<Rightarrow>
   bf_state \<Rightarrow> edge \<Rightarrow> bf_state option" where
  "relax_edge g g2l t cm w u st e =
     (case g2l (e_to e) of
        None \<Rightarrow> Some st
      | Some v \<Rightarrow>
          (case graph_node g (e_to e) of
             None \<Rightarrow> Some st
           | Some v_node \<Rightarrow>
               (case capability_for v_node t of
                  None \<Rightarrow> Some st
                | Some cap \<Rightarrow> do {
                    edge_cost \<leftarrow> scalar_edge_cost cm cap (e_transfer_latency e) w;
                    Some (relax_cost u v edge_cost st)
                  })))"

fun relax_edges ::
  "agent_graph \<Rightarrow> (nat \<rightharpoonup> nat) \<Rightarrow> task_type \<Rightarrow> cost_model \<Rightarrow> cost_weights \<Rightarrow> nat \<Rightarrow>
   edge list \<Rightarrow> bf_state \<Rightarrow> bf_state option" where
  "relax_edges g g2l t cm w u [] st = Some st"
| "relax_edges g g2l t cm w u (e # es) st =
     Option.bind (relax_edge g g2l t cm w u st e) (relax_edges g g2l t cm w u es)"

fun relax_agents ::
  "agent_graph \<Rightarrow> (nat \<rightharpoonup> nat) \<Rightarrow> task_type \<Rightarrow> cost_model \<Rightarrow> cost_weights \<Rightarrow> nat list \<Rightarrow>
   bf_state \<Rightarrow> bf_state option" where
  "relax_agents g g2l t cm w [] st = Some st"
| "relax_agents g g2l t cm w (u_global # us) st =
     (case g2l u_global of
        None \<Rightarrow> None
      | Some u \<Rightarrow>
          if bf_dist st ! u = PInf then relax_agents g g2l t cm w us st
          else Option.bind (relax_edges g g2l t cm w u (edges_from g u_global) st)
                 (relax_agents g g2l t cm w us))"

text \<open>\<open>for _ in 0..k-1\<close>, left early by a round without an update.\<close>

fun bf_rounds ::
  "agent_graph \<Rightarrow> (nat \<rightharpoonup> nat) \<Rightarrow> task_type \<Rightarrow> cost_model \<Rightarrow> cost_weights \<Rightarrow> nat list \<Rightarrow> nat \<Rightarrow>
   bf_state \<Rightarrow> bf_state option" where
  "bf_rounds g g2l t cm w agents 0 st = Some st"
| "bf_rounds g g2l t cm w agents (Suc n) st =
     Option.bind (relax_agents g g2l t cm w agents (st\<lparr>bf_updated := False\<rparr>))
       (\<lambda>st'. if bf_updated st' then bf_rounds g g2l t cm w agents n st' else Some st')"

definition best_dest_step :: "nat \<Rightarrow> nat option \<times> f64 \<Rightarrow> nat \<times> f64 \<Rightarrow> nat option \<times> f64" where
  "best_dest_step s best ld =
     (case ld of (local, d) \<Rightarrow> if local \<noteq> s \<and> d < snd best then (Some local, d) else best)"

definition best_dest :: "nat \<Rightarrow> f64 list \<Rightarrow> nat option \<times> f64" where
  "best_dest s dists = foldl (best_dest_step s) (None, PInf) (enumerate 0 dists)"

text \<open>\<open>while let Some(p) = pred[current]\<close>; \<open>None\<close> is the early return on a cycle.\<close>

function trace_path ::
  "nat option list \<Rightarrow> nat \<Rightarrow> nat \<Rightarrow> nat \<Rightarrow> nat list \<Rightarrow> nat list option" where
  "trace_path pred s k current path =
     (case pred ! current of
        None \<Rightarrow> Some path
      | Some p \<Rightarrow>
          if p = s then Some (path @ [p])
          else if k < length (path @ [p]) then None
          else trace_path pred s k p (path @ [p]))"
  by auto
termination by (relation "measure (\<lambda>(pred, s, k, current, path). Suc k - length path)") auto

declare trace_path.simps [simp del]

definition close_path :: "f64 list \<Rightarrow> nat \<Rightarrow> nat \<Rightarrow> nat list \<Rightarrow> nat list option" where
  "close_path dists s dest path =
     (if last path \<noteq> s
      then (if dists ! dest < PInf then Some (path @ [s]) else None)
      else Some path)"

definition bellman_ford_single ::
  "agent_graph \<Rightarrow> nat list \<Rightarrow> task_type \<Rightarrow> nat \<Rightarrow> cost_weights \<Rightarrow> cost_model \<Rightarrow>
   (nat list \<times> f64) option option" where
  "bellman_ford_single g agents t source w cm =
     (let k = length agents; g2l = global_to_local agents
      in if k = 0 then Some None
         else case g2l source of
           None \<Rightarrow> Some None
         | Some s \<Rightarrow> do {
             st \<leftarrow> bf_rounds g g2l t cm w agents (k - 1) (bf_init k s);
             Some (case best_dest s (bf_dist st) of
                 (None, _) \<Rightarrow> None
               | (Some dest, best_cost) \<Rightarrow> do {
                   path \<leftarrow> trace_path (bf_pred st) s k dest [dest];
                   path \<leftarrow> close_path (bf_dist st) s dest path;
                   Some (map (\<lambda>l. agents ! l) (rev path), best_cost)
                 })
           })"

section \<open>All searches\<close>

text \<open>The capabilities and transfer latencies along a path; \<open>None\<close> for the \<open>?\<close> of the code.\<close>

fun path_parts ::
  "agent_graph \<Rightarrow> task_type \<Rightarrow> nat option \<Rightarrow> nat list \<Rightarrow> (capability list \<times> duration list) option"
  where
  "path_parts g t prev [] = Some ([], [])"
| "path_parts g t prev (idx # path) = do {
     node \<leftarrow> graph_node g idx;
     cap \<leftarrow> capability_for node t;
     (caps, transfers) \<leftarrow> path_parts g t (Some idx) path;
     Some (cap # caps,
       (case prev of
          None \<Rightarrow> transfers
        | Some p \<Rightarrow>
            (case transfer_latency g p idx of Some l \<Rightarrow> l | None \<Rightarrow> default_transfer_latency)
            # transfers))
   }"

definition compute_path_metrics ::
  "agent_graph \<Rightarrow> nat list \<Rightarrow> task_type \<Rightarrow> cost_model \<Rightarrow> route_metrics option option" where
  "compute_path_metrics g path t cm =
     (if path = [] then Some None
      else case path_parts g t None path of
          None \<Rightarrow> Some None
        | Some (caps, transfers) \<Rightarrow> map_option Some (compute_route_metrics cm caps transfers))"

definition bf_candidate ::
  "agent_graph \<Rightarrow> nat list \<Rightarrow> task_type \<Rightarrow> cost_model \<Rightarrow> cost_weights \<times> nat \<Rightarrow>
   bf_result list option" where
  "bf_candidate g agents t cm = (\<lambda>(w, source). do {
     r \<leftarrow> bellman_ford_single g agents t source w cm;
     case r of
       None \<Rightarrow> Some []
     | Some (path, scalar_cost) \<Rightarrow>
         if 2 \<le> length path
         then do {
           m \<leftarrow> compute_path_metrics g path t cm;
           Some (case m of None \<Rightarrow> [] | Some metrics \<Rightarrow>
             [\<lparr>bf_weights = w, bf_path = path, bf_scalar_cost = scalar_cost, bf_metrics = metrics\<rparr>])
         }
         else Some []
   })"

definition single_results ::
  "cost_model \<Rightarrow> nat \<Rightarrow> route_metrics \<Rightarrow> bf_result list" where
  "single_results cm idx m =
     map (\<lambda>w. \<lparr>bf_weights = w, bf_path = [idx], bf_scalar_cost = scalar_route_cost cm m w,
                bf_metrics = m\<rparr>) pareto_sample_vectors"

definition single_candidates ::
  "agent_graph \<Rightarrow> task_type \<Rightarrow> cost_model \<Rightarrow> nat \<Rightarrow> bf_result list option" where
  "single_candidates g t cm idx =
     (case graph_node g idx of
        None \<Rightarrow> Some []
      | Some node \<Rightarrow>
          (case capability_for node t of
             None \<Rightarrow> Some []
           | Some cap \<Rightarrow> do {
               m \<leftarrow> compute_route_metrics cm [cap] [];
               Some (single_results cm idx m)
             }))"

definition multi_objective_bellman_ford ::
  "agent_graph \<Rightarrow> task_type \<Rightarrow> f64 \<Rightarrow> cost_model \<Rightarrow> (routing_error + bf_result list) option" where
  "multi_objective_bellman_ford g t mt cm =
     (let agents = capable_agents g t mt
      in if agents = [] then Some (Inl NoFeasibleRoute)
         else if length agents = 1
         then (let idx = agents ! 0
               in case graph_node g idx of
                    None \<Rightarrow> Some (Inl EmptyGraph)
                  | Some node \<Rightarrow>
                      (case capability_for node t of
                         None \<Rightarrow> Some (Inl NoFeasibleRoute)
                       | Some cap \<Rightarrow> do {
                           m \<leftarrow> compute_route_metrics cm [cap] [];
                           Some (Inr (single_results cm idx m))
                         }))
         else do {
           paths \<leftarrow> collect_options (bf_candidate g agents t cm)
             (List.product pareto_sample_vectors agents);
           singles \<leftarrow> collect_options (single_candidates g t cm) agents;
           let results = concat paths @ concat singles;
           Some (if results = [] then Inl NoFeasibleRoute else Inr results)
         })"

definition path_to_agent_ids :: "agent_graph \<Rightarrow> nat list \<Rightarrow> agent_id list" where
  "path_to_agent_ids g path = List.map_filter (graph_agent_id g) path"

end
