(* ===== verification/Optimizer.thy ===== *)
theory Optimizer
  imports Bellman_Ford
begin

text \<open>
  Route selection of \<open>atp-routing\<close> (\<open>optimizer.rs\<close>): the Pareto front of the candidates, the QoS
  filter and the ranking. The candidates are collected in a \<open>HashMap\<close> keyed by path; the order in
  which its values come out is the argument \<open>ks\<close>.
\<close>

record pareto_route =
  pr_path :: "nat list"
  pr_metrics :: route_metrics
  pr_scalar_cost :: f64

definition dominates :: "route_metrics \<Rightarrow> route_metrics \<Rightarrow> bool" where
  "dominates a b =
     (let a_q = rm_quality a; b_q = rm_quality b;
          a_l = as_secs_f64 (rm_latency a); b_l = as_secs_f64 (rm_latency b);
          a_c = rm_cost a; b_c = rm_cost b;
          at_least_as_good = b_q \<le> a_q \<and> a_l \<le> b_l \<and> a_c \<le> b_c;
          strictly_better = b_q < a_q \<or> a_l < b_l \<or> a_c < b_c
      in at_least_as_good \<and> strictly_better)"

text \<open>\<open>entry(path).and_modify(..).or_insert(r)\<close>: per path the first result of least scalar cost.\<close>

definition keep_best :: "bf_result \<Rightarrow> (nat list \<rightharpoonup> bf_result) \<Rightarrow> nat list \<rightharpoonup> bf_result" where
  "keep_best r unique =
     (case unique (bf_path r) of
        Some existing \<Rightarrow>
          if bf_scalar_cost r < bf_scalar_cost existing then unique(bf_path r \<mapsto> r) else unique
      | None \<Rightarrow> unique(bf_path r \<mapsto> r))"

definition unique_results :: "bf_result list \<Rightarrow> nat list \<rightharpoonup> bf_result" where
  "unique_results results = fold keep_best results Map.empty"

definition pareto_of :: "bf_result \<Rightarrow> pareto_route" where
  "pareto_of r = \<lparr>pr_path = bf_path r, pr_metrics = bf_metrics r, pr_scalar_cost = bf_scalar_cost r\<rparr>"

definition is_dominated :: "bf_result list \<Rightarrow> nat \<times> bf_result \<Rightarrow> bool" where
  "is_dominated candidates = (\<lambda>(i, candidate).
     \<exists>(j, other) \<in> set (enumerate 0 candidates).
       i \<noteq> j \<and> dominates (bf_metrics other) (bf_metrics candidate))"

definition pareto_front :: "nat list list \<Rightarrow> bf_result list \<Rightarrow> pareto_route list" where
  "pareto_front ks results =
     (if results = [] then []
      else (let candidates = map snd (entries ks (unique_results results))
            in map (\<lambda>(i, c). pareto_of c)
                 (filter (\<lambda>ic. \<not> is_dominated candidates ic) (enumerate 0 candidates))))"

definition filter_by_constraints ::
  "pareto_route list \<Rightarrow> qos_constraints \<Rightarrow> cost_model \<Rightarrow> pareto_route list" where
  "filter_by_constraints routes q cm =
     filter (\<lambda>r. satisfies_constraints cm (pr_metrics r) q) routes"

definition rank_routes ::
  "pareto_route list \<Rightarrow> cost_weights \<Rightarrow> cost_model \<Rightarrow> pareto_route list" where
  "rank_routes routes w cm =
     sort_by (\<lambda>a b. pr_scalar_cost a < pr_scalar_cost b)
       (map (\<lambda>r. r\<lparr>pr_scalar_cost := scalar_route_cost cm (pr_metrics r) w\<rparr>) routes)"

text \<open>\<open>retain(|r| seen.insert(key(r)))\<close>: the first of each key.\<close>

fun retain_first :: "('a \<Rightarrow> 'k) \<Rightarrow> 'k set \<Rightarrow> 'a list \<Rightarrow> 'a list" where
  "retain_first key seen [] = []"
| "retain_first key seen (r # rs) =
     (if key r \<in> seen then retain_first key seen rs
      else r # retain_first key (insert (key r) seen) rs)"

definition select_top_routes ::
  "nat list list \<Rightarrow> bf_result list \<Rightarrow> qos_constraints \<Rightarrow> cost_weights \<Rightarrow> cost_model \<Rightarrow> nat \<Rightarrow>
   routing_error + pareto_route list" where
  "select_top_routes ks results q w cm max_routes =
     (let front = pareto_front ks results
      in if front = [] then Inl NoFeasibleRoute
         else (let feasible = filter_by_constraints front q cm;
                   feasible = (if feasible = []
                     then filter_by_constraints (map pareto_of results) q cm else feasible)
               in if feasible = [] then Inl NoFeasibleRoute
                  else (let ranked = rank_routes feasible w cm;
                            deduped = retain_first pr_path {} ranked
                        in Inr (take max_routes deduped))))"

section \<open>Dominance\<close>

lemma dominates_irrefl: "\<not> dominates a a"
  by (simp add: dominates_def Let_def)

lemma dominates_trans: "dominates a b \<Longrightarrow> dominates b c \<Longrightarrow> dominates a c"
  unfolding dominates_def Let_def
  by (elim conjE, intro conjI; (elim disjE)?)
    (blast intro: f64_le_trans f64_less_le_trans f64_le_less_trans)+

text \<open>Below every element of a finite set there is one that nothing in the set dominates.\<close>

lemma non_dominated_above:
  assumes "finite S" "x \<in> S"
  shows "\<exists>y \<in> S. (y = x \<or> dominates (f y) (f x)) \<and> \<not> (\<exists>z \<in> S. dominates (f z) (f y))"
  using assms
proof (induction "card {z \<in> S. dominates (f z) (f x)}" arbitrary: x rule: less_induct)
  case less
  show ?case
  proof (cases "\<exists>z \<in> S. dominates (f z) (f x)")
    case False
    then show ?thesis using less.prems(2) by blast
  next
    case True
    then obtain z where z: "z \<in> S" "dominates (f z) (f x)" by blast
    let ?D = "\<lambda>x. {z \<in> S. dominates (f z) (f x)}"
    have "?D z \<subseteq> ?D x" using dominates_trans z(2) by blast
    moreover have "z \<in> ?D x" "z \<notin> ?D z" using z dominates_irrefl by simp_all
    ultimately have "?D z \<subset> ?D x" by blast
    then have "card (?D z) < card (?D x)" using less.prems(1) by (intro psubset_card_mono) simp_all
    from less.hyps [OF this less.prems(1) z(1)] show ?thesis using dominates_trans z(2) by blast
  qed
qed

section \<open>The table of unique paths\<close>

lemma keep_best_fold:
  "fold keep_best rs m p =
     fold (\<lambda>r best. case best of None \<Rightarrow> Some r
        | Some b \<Rightarrow> if bf_scalar_cost r < bf_scalar_cost b then Some r else Some b)
       (filter (\<lambda>r. bf_path r = p) rs) (m p)"
  by (induction rs arbitrary: m) (auto simp: keep_best_def split: option.splits)

lemma fold_best_in:
  "fold (\<lambda>r best. case best of None \<Rightarrow> Some r
      | Some b \<Rightarrow> if bf_scalar_cost r < bf_scalar_cost b then Some r else Some b) rs b0 = Some b
   \<Longrightarrow> b \<in> set rs \<or> b0 = Some b"
  by (induction rs arbitrary: b0) (fastforce split: option.splits if_splits)+

lemma fold_best_some:
  "(\<exists>r. b0 = Some r) \<or> rs \<noteq> [] \<Longrightarrow> \<exists>b. fold (\<lambda>r best. case best of None \<Rightarrow> Some r
      | Some b \<Rightarrow> if bf_scalar_cost r < bf_scalar_cost b then Some r else Some b) rs b0 = Some b"
  by (induction rs arbitrary: b0) (auto split: option.splits)

lemma unique_results_in:
  "unique_results rs p = Some r \<Longrightarrow> r \<in> set rs \<and> bf_path r = p"
  using fold_best_in [of "filter (\<lambda>r. bf_path r = p) rs" None r]
  by (auto simp: unique_results_def keep_best_fold)

lemma unique_results_dom: "dom (unique_results rs) = bf_path ` set rs"
proof -
  have "\<exists>b. unique_results rs p = Some b" if "p \<in> bf_path ` set rs" for p
  proof -
    have "filter (\<lambda>r. bf_path r = p) rs \<noteq> []" using that by (auto simp: filter_empty_conv)
    then show ?thesis
      using fold_best_some [of None] by (simp add: unique_results_def keep_best_fold)
  qed
  then show ?thesis using unique_results_in by fastforce
qed

section \<open>The front\<close>

lemma candidates_set:
  "iterates ks U \<Longrightarrow> set (map snd (entries ks U)) = ran U"
  using set_entries [of ks U] by (force simp: ran_def)

lemma is_dominated_iff:
  assumes "i < length cs"
  shows "is_dominated cs (i, cs ! i) \<longleftrightarrow>
    (\<exists>other \<in> set cs. dominates (bf_metrics other) (bf_metrics (cs ! i)))"
proof
  assume "is_dominated cs (i, cs ! i)"
  then show "\<exists>other \<in> set cs. dominates (bf_metrics other) (bf_metrics (cs ! i))"
    by (auto simp: is_dominated_def in_set_enumerate_eq intro: nth_mem)
next
  assume "\<exists>other \<in> set cs. dominates (bf_metrics other) (bf_metrics (cs ! i))"
  then obtain j where j: "j < length cs" "dominates (bf_metrics (cs ! j)) (bf_metrics (cs ! i))"
    by (auto simp: in_set_conv_nth)
  then have "i \<noteq> j" using dominates_irrefl by auto
  moreover have "(j, cs ! j) \<in> set (enumerate 0 cs)" using j(1) by (simp add: in_set_enumerate_eq)
  ultimately show "is_dominated cs (i, cs ! i)" using j(2) by (auto simp: is_dominated_def)
qed

lemma front_filter:
  "map (\<lambda>(i, c). f c) (filter (\<lambda>ic. \<not> is_dominated cs ic) (enumerate 0 cs)) =
     map f (filter (\<lambda>c. \<not> (\<exists>other \<in> set cs. dominates (bf_metrics other) (bf_metrics c))) cs)"
proof -
  have e: "filter (\<lambda>ic. \<not> is_dominated cs ic) (enumerate 0 cs) =
      filter (\<lambda>(i, c). \<not> (\<exists>other \<in> set cs. dominates (bf_metrics other) (bf_metrics c)))
        (enumerate 0 cs)"
    by (rule filter_cong) (auto simp: in_set_enumerate_eq is_dominated_iff)
  have "map (\<lambda>(i, c). f c) (filter (\<lambda>(i, c). P c) (enumerate n xs)) = map f (filter P xs)" for n P xs
    by (induction xs arbitrary: n) auto
  then show ?thesis unfolding e by blast
qed

text \<open>Results whose metrics are determined by their path, as those of the search are.\<close>

definition metrics_by_path :: "bf_result list \<Rightarrow> bool" where
  "metrics_by_path rs \<longleftrightarrow>
     (\<forall>r \<in> set rs. \<forall>r' \<in> set rs. bf_path r = bf_path r' \<longrightarrow> bf_metrics r = bf_metrics r')"

lemma front_members:
  assumes "iterates ks (unique_results rs)"
  shows "set (pareto_front ks rs) = pareto_of ` {c \<in> ran (unique_results rs).
      \<not> (\<exists>other \<in> ran (unique_results rs). dominates (bf_metrics other) (bf_metrics c))}"
proof (cases "rs = []")
  case True
  then show ?thesis by (auto simp: pareto_front_def unique_results_def)
next
  case False
  then have "set (pareto_front ks rs) = pareto_of `
      {c \<in> set (map snd (entries ks (unique_results rs))).
        \<not> (\<exists>other \<in> set (map snd (entries ks (unique_results rs))).
             dominates (bf_metrics other) (bf_metrics c))}"
    unfolding pareto_front_def Let_def front_filter by (simp only: if_False set_map set_filter)
  then show ?thesis unfolding candidates_set [OF assms] .
qed

lemma ran_unique: "r \<in> ran (unique_results rs) \<Longrightarrow> r \<in> set rs"
  using unique_results_in [of rs _ r] by (auto simp: ran_def)

lemma unique_represents:
  assumes "metrics_by_path rs" "r \<in> set rs"
  shows "\<exists>c \<in> ran (unique_results rs). bf_path c = bf_path r \<and> bf_metrics c = bf_metrics r"
proof -
  obtain c where c: "unique_results rs (bf_path r) = Some c"
    using assms(2) unique_results_dom [of rs] by blast
  moreover have "c \<in> set rs \<and> bf_path c = bf_path r" using unique_results_in [OF c] .
  moreover from this have "bf_metrics c = bf_metrics r"
    using assms unfolding metrics_by_path_def by blast
  moreover have "c \<in> ran (unique_results rs)" using c by (rule ranI)
  ultimately show ?thesis by blast
qed

lemma finite_ran_unique: "finite (ran (unique_results rs))"
  by (rule finite_subset [of _ "set rs", OF subsetI [OF ran_unique]]) simp_all

lemma front_empty_iff:
  assumes "iterates ks (unique_results rs)"
  shows "pareto_front ks rs = [] \<longleftrightarrow> rs = []"
proof
  assume e: "pareto_front ks rs = []"
  show "rs = []"
  proof (rule ccontr)
    assume "rs \<noteq> []"
    then obtain p where "p \<in> dom (unique_results rs)" using unique_results_dom [of rs] by fastforce
    then obtain x where "x \<in> ran (unique_results rs)" by (auto simp: ran_def)
    from non_dominated_above [OF finite_ran_unique this, of bf_metrics] obtain y where
      "y \<in> ran (unique_results rs)"
      "\<not> (\<exists>z \<in> ran (unique_results rs). dominates (bf_metrics z) (bf_metrics y))" by blast
    then have "pareto_of y \<in> set (pareto_front ks rs)" unfolding front_members [OF assms] by blast
    then show False using e by simp
  qed
qed (simp add: pareto_front_def)

section \<open>Filter, rank and deduplicate\<close>

lemma retain_first_set: "set (retain_first key seen rs) \<subseteq> set rs"
  by (induction key seen rs rule: retain_first.induct) auto

lemma retain_first_keys: "key ` set (retain_first key seen rs) = key ` set rs - seen"
  by (induction key seen rs rule: retain_first.induct) auto

lemma retain_first_distinct: "distinct (map key (retain_first key seen rs))"
proof (induction key seen rs rule: retain_first.induct)
  case (2 key seen r rs)
  then show ?case using retain_first_keys [of key "insert (key r) seen" rs] by auto
qed simp

lemma retain_first_sorted: "sorted_wrt P rs \<Longrightarrow> sorted_wrt P (retain_first key seen rs)"
proof (induction key seen rs rule: retain_first.induct)
  case (2 key seen r rs)
  then show ?case using retain_first_set [of key "insert (key r) seen" rs] by auto
qed simp

lemma rank_routes_set:
  "set (rank_routes rs w cm) =
     (\<lambda>r. r\<lparr>pr_scalar_cost := scalar_route_cost cm (pr_metrics r) w\<rparr>) ` set rs"
  by (simp add: rank_routes_def)

lemma rank_routes_sorted:
  assumes "\<forall>r \<in> set rs. scalar_route_cost cm (pr_metrics r) w \<noteq> NaN"
  shows "sorted_wrt (\<lambda>a b. pr_scalar_cost a \<le> pr_scalar_cost b) (rank_routes rs w cm)"
proof -
  let ?rs = "map (\<lambda>r. r\<lparr>pr_scalar_cost := scalar_route_cost cm (pr_metrics r) w\<rparr>) rs"
  have n: "\<forall>r \<in> set ?rs. pr_scalar_cost r \<noteq> NaN" using assms by simp
  have "sorted_wrt (\<lambda>a b. \<not> pr_scalar_cost b < pr_scalar_cost a) (rank_routes rs w cm)"
    unfolding rank_routes_def by (rule strict_weak_order.sort_by_sorted [OF key_ascending n])
  moreover have "\<forall>r \<in> set (rank_routes rs w cm). pr_scalar_cost r \<noteq> NaN"
    using n by (simp add: rank_routes_def)
  ultimately show ?thesis
    using sorted_wrt_mono_rel [of "rank_routes rs w cm"
        "\<lambda>a b. \<not> pr_scalar_cost b < pr_scalar_cost a" "\<lambda>a b. pr_scalar_cost a \<le> pr_scalar_cost b"]
      f64_not_less by blast
qed

lemma select_top_routes_spec:
  assumes "iterates ks (unique_results rs)"
  shows "(case select_top_routes ks rs q w cm n of
      Inl e \<Rightarrow> e = NoFeasibleRoute \<and> \<not> (\<exists>r \<in> set rs. satisfies_constraints cm (bf_metrics r) q)
    | Inr sel \<Rightarrow> (\<exists>r \<in> set rs. satisfies_constraints cm (bf_metrics r) q)
        \<and> (sel = [] \<longleftrightarrow> n = 0) \<and> length sel \<le> n \<and> distinct (map pr_path sel)
        \<and> (\<forall>m \<in> set sel. satisfies_constraints cm (pr_metrics m) q
             \<and> pr_scalar_cost m = scalar_route_cost cm (pr_metrics m) w
             \<and> (\<exists>r \<in> set rs. bf_path r = pr_path m \<and> bf_metrics r = pr_metrics m))
        \<and> ((\<forall>r \<in> set rs. scalar_route_cost cm (bf_metrics r) w \<noteq> NaN) \<longrightarrow>
             sorted_wrt (\<lambda>a b. pr_scalar_cost a \<le> pr_scalar_cost b) sel))"
proof -
  let ?front = "pareto_front ks rs"
  let ?all = "filter_by_constraints (map pareto_of rs) q cm"
  let ?f1 = "filter_by_constraints ?front q cm"
  define f where "f = (if ?f1 = [] then ?all else ?f1)"
  have sub: "set ?front \<subseteq> pareto_of ` set rs"
    unfolding front_members [OF assms] using ran_unique by blast
  have fsub: "set f \<subseteq> set ?all"
    using sub by (auto simp: f_def filter_by_constraints_def)
  have fmem: "satisfies_constraints cm (pr_metrics x) q
      \<and> (\<exists>r \<in> set rs. bf_path r = pr_path x \<and> bf_metrics r = pr_metrics x)" if "x \<in> set f" for x
    using subsetD [OF fsub that] by (auto simp: filter_by_constraints_def pareto_of_def)
  have fe: "f = [] \<longleftrightarrow> \<not> (\<exists>r \<in> set rs. satisfies_constraints cm (bf_metrics r) q)"
  proof -
    have "f = [] \<longleftrightarrow> ?all = []" using fsub by (auto simp: f_def)
    then show ?thesis
      by (auto simp: filter_by_constraints_def filter_empty_conv pareto_of_def)
  qed
  show ?thesis
  proof (cases "?front = [] \<or> f = []")
    case True
    then have "select_top_routes ks rs q w cm n = Inl NoFeasibleRoute"
      by (auto simp: select_top_routes_def Let_def f_def)
    moreover have "f = []" if "?front = []"
      using that front_empty_iff [OF assms] by (simp add: f_def filter_by_constraints_def)
    ultimately show ?thesis using True fe by auto
  next
    case False
    let ?d = "retain_first pr_path {} (rank_routes f w cm)"
    have sel: "select_top_routes ks rs q w cm n = Inr (take n ?d)"
      using False unfolding select_top_routes_def Let_def f_def [symmetric] by simp
    have ne: "?d \<noteq> []"
    proof -
      have "pr_path ` set ?d = pr_path ` set (rank_routes f w cm)"
        using retain_first_keys [of pr_path "{}" "rank_routes f w cm"] by simp
      moreover have "set (rank_routes f w cm) \<noteq> {}" using False by (simp add: rank_routes_set)
      ultimately show ?thesis by auto
    qed
    have mem: "satisfies_constraints cm (pr_metrics m) q
        \<and> pr_scalar_cost m = scalar_route_cost cm (pr_metrics m) w
        \<and> (\<exists>r \<in> set rs. bf_path r = pr_path m \<and> bf_metrics r = pr_metrics m)"
      if "m \<in> set (take n ?d)" for m
    proof -
      have "m \<in> set (rank_routes f w cm)"
        using subsetD [OF retain_first_set in_set_takeD [OF that]] .
      then obtain x where "x \<in> set f"
        "m = x\<lparr>pr_scalar_cost := scalar_route_cost cm (pr_metrics x) w\<rparr>"
        by (auto simp: rank_routes_set)
      then show ?thesis using fmem [of x] by simp
    qed
    have sorted: "sorted_wrt (\<lambda>a b. pr_scalar_cost a \<le> pr_scalar_cost b) (take n ?d)"
      if "\<forall>r \<in> set rs. scalar_route_cost cm (bf_metrics r) w \<noteq> NaN"
    proof -
      have "\<forall>m \<in> set f. scalar_route_cost cm (pr_metrics m) w \<noteq> NaN"
        using that fmem by (metis (no_types, lifting))
      then show ?thesis by (intro sorted_wrt_take retain_first_sorted rank_routes_sorted)
    qed
    have "distinct (map pr_path (take n ?d))"
      using retain_first_distinct distinct_take by (metis take_map)
    then show ?thesis
      unfolding sel using ne mem sorted False fe by auto
  qed
qed

section \<open>Properties\<close>

lemma front_paths_distinct:
  assumes "iterates ks (unique_results rs)"
  shows "distinct (map pr_path (pareto_front ks rs))"
proof (cases "rs = []")
  case False
  let ?U = "unique_results rs"
  have "bf_path (snd kv) = fst kv" if "kv \<in> set (entries ks ?U)" for kv
  proof -
    obtain k v where kv: "kv = (k, v)" by (cases kv)
    then have "?U k = Some v" using that entries_subset by metis
    from unique_results_in [OF this] show ?thesis by (simp add: kv)
  qed
  then have p: "map bf_path (map snd (entries ks ?U)) = map fst (entries ks ?U)"
    unfolding map_map comp_def by (rule map_cong [OF refl])
  have "distinct (map bf_path (map snd (entries ks ?U)))"
    unfolding p by (rule distinct_entries [OF assms])
  then have "distinct (map bf_path (filter P (map snd (entries ks ?U))))" for P
    by (rule distinct_map_filter)
  moreover have "map pr_path (map pareto_of xs) = map bf_path xs" for xs
    by (simp add: pareto_of_def)
  ultimately show ?thesis
    using False unfolding pareto_front_def Let_def front_filter by (simp only: if_False)
qed (simp add: pareto_front_def)

lemma front_mem:
  assumes "iterates ks (unique_results rs)"
  shows "m \<in> set (pareto_front ks rs) \<longleftrightarrow> (\<exists>c \<in> ran (unique_results rs). m = pareto_of c
    \<and> \<not> (\<exists>other \<in> ran (unique_results rs). dominates (bf_metrics other) (bf_metrics c)))"
  unfolding front_members [OF assms] by blast

lemma front_covers:
  assumes "iterates ks (unique_results rs)" "metrics_by_path rs" "r \<in> set rs"
  shows "\<exists>m \<in> set (pareto_front ks rs). (pr_path m = bf_path r \<and> pr_metrics m = bf_metrics r)
    \<or> dominates (pr_metrics m) (bf_metrics r)"
proof -
  let ?U = "unique_results rs"
  obtain r' where r': "r' \<in> ran ?U" "bf_path r' = bf_path r" "bf_metrics r' = bf_metrics r"
    using unique_represents [OF assms(2,3)] by blast
  from non_dominated_above [OF finite_ran_unique r'(1), of bf_metrics] obtain y where
    y: "y \<in> ran ?U" "y = r' \<or> dominates (bf_metrics y) (bf_metrics r')"
      "\<not> (\<exists>z \<in> ran ?U. dominates (bf_metrics z) (bf_metrics y))" by blast
  then have "pareto_of y \<in> set (pareto_front ks rs)" using front_mem [OF assms(1)] by blast
  moreover have "(pr_path (pareto_of y) = bf_path r \<and> pr_metrics (pareto_of y) = bf_metrics r)
      \<or> dominates (pr_metrics (pareto_of y)) (bf_metrics r)"
    using y(2) r'(2,3) by (auto simp: pareto_of_def)
  ultimately show ?thesis by blast
qed

text \<open>
  C29. The Pareto front: its paths are distinct and its members come from the results, no result of
  the search dominates a member, and every result is either on the front with its metrics or
  dominated by a member. This holds for every iteration order of the table of paths, and NaN or
  infinite metrics do not disturb it.
\<close>

theorem pareto_front_correct:
  assumes "iterates ks (unique_results rs)" and "metrics_by_path rs"
  shows "distinct (map pr_path (pareto_front ks rs))
    \<and> set (pareto_front ks rs) \<subseteq> pareto_of ` set rs
    \<and> \<not> (\<exists>m \<in> set (pareto_front ks rs). \<exists>r \<in> set rs. dominates (bf_metrics r) (pr_metrics m))
    \<and> (\<forall>r \<in> set rs. \<exists>m \<in> set (pareto_front ks rs).
         (pr_path m = bf_path r \<and> pr_metrics m = bf_metrics r)
         \<or> dominates (pr_metrics m) (bf_metrics r))"
proof -
  have "\<not> dominates (bf_metrics r) (pr_metrics m)"
    if mr: "m \<in> set (pareto_front ks rs)" "r \<in> set rs" for m r
  proof -
    obtain c where c: "m = pareto_of c"
      "\<not> (\<exists>other \<in> ran (unique_results rs). dominates (bf_metrics other) (bf_metrics c))"
      using mr(1) front_mem [OF assms(1)] by blast
    obtain r' where "r' \<in> ran (unique_results rs)" "bf_metrics r' = bf_metrics r"
      using unique_represents [OF assms(2) mr(2)] by blast
    then show ?thesis using c by (auto simp: pareto_of_def)
  qed
  moreover have "set (pareto_front ks rs) \<subseteq> pareto_of ` set rs"
    unfolding front_members [OF assms(1)] using ran_unique by (intro image_mono subsetI) simp
  ultimately show ?thesis
    using front_paths_distinct [OF assms(1)] front_covers [OF assms] by blast
qed

definition metrics_example :: "nat \<Rightarrow> route_metrics" where
  "metrics_example ms = \<lparr>rm_quality = 1, rm_latency = from_millis ms, rm_cost = 1\<rparr>"

definition result_example :: "nat \<Rightarrow> nat \<Rightarrow> bf_result" where
  "result_example i ms = \<lparr>bf_weights = default_cost_weights, bf_path = [i], bf_scalar_cost = 0,
     bf_metrics = metrics_example ms\<rparr>"

lemma results_example_table:
  "iterates [[0], [1]] (unique_results [result_example 0 100, result_example 1 50])"
  by (auto simp: iterates_def unique_results_dom result_example_def)

theorem pareto_front_correct_witness:
  "set (pareto_front [[0], [1]] [result_example 0 100, result_example 1 50])
     \<subseteq> pareto_of ` {result_example 0 100, result_example 1 50}"
proof -
  have "metrics_by_path [result_example 0 100, result_example 1 50]"
    by (simp add: metrics_by_path_def result_example_def)
  from pareto_front_correct [OF results_example_table this] show ?thesis by simp
qed

text \<open>
  Route selection fails exactly when no result of the search satisfies the QoS constraints;
  otherwise it returns at most the requested number of routes (at least one if that is positive),
  with distinct paths, all from the results and within the constraints, each priced under the
  given weights, cheapest first when the prices are numbers.
\<close>

lemma select_top_routes_correct:
  assumes "iterates ks (unique_results rs)"
  shows "(case select_top_routes ks rs q w cm n of
      Inl e \<Rightarrow> e = NoFeasibleRoute \<and> \<not> (\<exists>r \<in> set rs. satisfies_constraints cm (bf_metrics r) q)
    | Inr sel \<Rightarrow> (\<exists>r \<in> set rs. satisfies_constraints cm (bf_metrics r) q)
        \<and> (sel = [] \<longleftrightarrow> n = 0) \<and> length sel \<le> n \<and> distinct (map pr_path sel)
        \<and> (\<forall>m \<in> set sel. satisfies_constraints cm (pr_metrics m) q
             \<and> pr_scalar_cost m = scalar_route_cost cm (pr_metrics m) w
             \<and> (\<exists>r \<in> set rs. bf_path r = pr_path m \<and> bf_metrics r = pr_metrics m))
        \<and> ((\<forall>r \<in> set rs. scalar_route_cost cm (bf_metrics r) w \<noteq> NaN) \<longrightarrow>
             sorted_wrt (\<lambda>a b. pr_scalar_cost a \<le> pr_scalar_cost b) sel))"
  by (rule select_top_routes_spec [OF assms])

lemma select_top_routes_correct_example:
  "\<exists>sel. select_top_routes [[0], [1]] [result_example 0 100, result_example 1 50]
     \<lparr>min_quality = 0, max_latency = from_millis 80, max_cost = 1, min_trust = 0\<rparr>
     default_cost_weights default_cost_model 1 = Inr sel \<and> length sel \<le> 1"
proof -
  let ?q = "\<lparr>min_quality = 0, max_latency = from_millis 80, max_cost = 1, min_trust = 0\<rparr>"
  have ok: "satisfies_constraints default_cost_model (bf_metrics (result_example 1 50)) ?q"
    by (simp add: satisfies_constraints_def result_example_def metrics_example_def from_millis_def
        f64_zero_one_Fin)
  show ?thesis
    using select_top_routes_correct [OF results_example_table, of default_cost_model ?q
        1 default_cost_weights] ok
    by (auto split: sum.splits)
qed

end
