(* ===== verification/Shortest_Path.thy ===== *)
theory Shortest_Path
  imports Bellman_Ford
begin

text \<open>
  Why the search of \<open>bellman_ford.rs\<close> is right: for edge costs that are not negative its result is
  a shortest walk in the rounded arithmetic itself. The proof needs of \<open>f64\<close> addition only that it
  is monotone and does not decrease, not that it is exact or associative.
\<close>

type_synonym edge_costs = "nat \<Rightarrow> nat \<Rightarrow> f64 option"

definition costs_ok :: "nat \<Rightarrow> edge_costs \<Rightarrow> bool" where
  "costs_ok k cost \<longleftrightarrow> (\<forall>u v c. cost u v = Some c \<longrightarrow> u < k \<and> v < k \<and> 0 \<le> c \<and> f64_wf c)"

lemma costs_okD: "costs_ok k cost \<Longrightarrow> cost u v = Some c \<Longrightarrow> u < k \<and> v < k \<and> 0 \<le> c \<and> f64_wf c"
  by (simp add: costs_ok_def)

section \<open>Walks\<close>

text \<open>The cost of walking from \<open>u\<close> through \<open>vs\<close> when \<open>a\<close> has been spent, added up as the code does.\<close>

fun walk_cost :: "edge_costs \<Rightarrow> f64 \<Rightarrow> nat \<Rightarrow> nat list \<Rightarrow> f64 option" where
  "walk_cost cost a u [] = Some a"
| "walk_cost cost a u (v # vs) =
     Option.bind (cost u v) (\<lambda>c. walk_cost cost (a + c) v vs)"

lemma walk_cost_append:
  "walk_cost cost a u (xs @ ys) =
     Option.bind (walk_cost cost a u xs) (\<lambda>x. walk_cost cost x (last (u # xs)) ys)"
  by (induction xs arbitrary: a u) (simp_all split: bind_split)

lemma plus_mono_left: "(0::f64) \<le> a \<Longrightarrow> a \<le> b \<Longrightarrow> 0 \<le> c \<Longrightarrow> a + c \<le> b + c"
  using plus_mono_nonneg [of a b c c] f64_le_refl [of c] f64_le_not_NaN [of 0 c] by simp

lemma walk_cost_mono:
  assumes "costs_ok k cost" "0 \<le> a" "a \<le> b" "walk_cost cost b u vs = Some y"
  shows "\<exists>x. walk_cost cost a u vs = Some x \<and> x \<le> y"
  using assms(2-4)
proof (induction vs arbitrary: a b u)
  case Nil
  then show ?case by simp
next
  case (Cons v vs)
  then obtain c where c: "cost u v = Some c" "walk_cost cost (b + c) v vs = Some y"
    by (auto simp: bind_eq_Some_conv)
  have "0 \<le> c" using costs_okD [OF assms(1) c(1)] by simp
  then have "0 \<le> a + c" "a + c \<le> b + c"
    using Cons.prems nonneg_plus [of a c] plus_mono_left [of a b c] by simp_all
  from Cons.IH [OF this c(2)] c(1) show ?case by simp
qed

lemma walk_cost_wf:
  assumes "costs_ok k cost" "0 \<le> a" "f64_wf a" "walk_cost cost a u vs = Some x"
  shows "a \<le> x \<and> 0 \<le> x \<and> f64_wf x"
  using assms(2-4)
proof (induction vs arbitrary: a u)
  case Nil
  then show ?case using f64_le_refl [of a] f64_le_not_NaN [of 0 a] by simp
next
  case (Cons v vs)
  then obtain c where c: "cost u v = Some c" "walk_cost cost (a + c) v vs = Some x"
    by (auto simp: bind_eq_Some_conv)
  have "0 \<le> c" "f64_wf c" using costs_okD [OF assms(1) c(1)] by simp_all
  then have s: "a \<le> a + c" "0 \<le> a + c" "f64_wf (a + c)"
    using Cons.prems le_plus_nonneg [of a c] nonneg_plus [of a c] by simp_all
  show ?case using Cons.IH [OF s(2,3) c(2)] f64_le_trans [OF s(1), of x] by simp
qed

lemma walk_bounded: "costs_ok k cost \<Longrightarrow> walk_cost cost a u vs = Some x \<Longrightarrow> \<forall>v \<in> set vs. v < k"
  by (induction vs arbitrary: a u) (auto simp: bind_eq_Some_conv dest: costs_okD)

text \<open>Cutting out a cycle does not make a walk longer.\<close>

lemma walk_cut:
  assumes "costs_ok k cost" and "walk_cost cost 0 s vs = Some x" "\<not> distinct (s # vs)"
  shows "\<exists>vs' x'. length vs' < length vs \<and> last (s # vs') = last (s # vs)
    \<and> walk_cost cost 0 s vs' = Some x' \<and> x' \<le> x"
proof -
  obtain as y bs cs where d: "s # vs = as @ [y] @ bs @ [y] @ cs"
    using not_distinct_decomp [OF assms(3)] by blast
  have z: "0 \<le> (0::f64)" "f64_wf (0::f64)" by (simp_all add: f64_zero_one_Fin f64_wf_Fin)
  show ?thesis
  proof (cases as)
    case Nil
    then have v: "vs = (bs @ [s]) @ cs" and y: "y = s" using d by auto
    obtain x1 where x1: "walk_cost cost 0 s (bs @ [s]) = Some x1" "walk_cost cost x1 s cs = Some x"
      using assms(2) unfolding v walk_cost_append [of _ _ _ "bs @ [s]"] by (auto simp: bind_eq_Some_conv)
    have "0 \<le> x1" using walk_cost_wf [OF assms(1) z x1(1)] by blast
    from walk_cost_mono [OF assms(1) z(1) this x1(2)] show ?thesis
      using v by (intro exI [of _ cs]) auto
  next
    case (Cons s' as')
    then have v: "vs = (as' @ [y]) @ (bs @ [y]) @ cs" using d by auto
    obtain x1 x2 where x: "walk_cost cost 0 s (as' @ [y]) = Some x1"
      "walk_cost cost x1 y (bs @ [y]) = Some x2" "walk_cost cost x2 y cs = Some x"
      using assms(2) unfolding v walk_cost_append [of _ _ _ "as' @ [y]"]
        walk_cost_append [of _ _ _ "bs @ [y]"] by (auto simp: bind_eq_Some_conv)
    have x1: "0 \<le> x1" "f64_wf x1" using walk_cost_wf [OF assms(1) z x(1)] by blast+
    have "x1 \<le> x2" using walk_cost_wf [OF assms(1) x1 x(2)] by blast
    from walk_cost_mono [OF assms(1) x1(1) this x(3)] obtain x' where
      "walk_cost cost x1 y cs = Some x'" "x' \<le> x" by blast
    then have "walk_cost cost 0 s ((as' @ [y]) @ cs) = Some x'"
      unfolding walk_cost_append [of _ _ _ "as' @ [y]"] using x(1) by simp
    then show ?thesis
      using v \<open>x' \<le> x\<close> by (intro exI [of _ "(as' @ [y]) @ cs"] exI [of _ x']) auto
  qed
qed

lemma simple_walk:
  assumes "costs_ok k cost" and "walk_cost cost 0 s vs = Some x"
  shows "\<exists>vs' x'. distinct (s # vs') \<and> last (s # vs') = last (s # vs)
    \<and> walk_cost cost 0 s vs' = Some x' \<and> x' \<le> x"
  using assms(2)
proof (induction "length vs" arbitrary: vs x rule: less_induct)
  case less
  show ?case
  proof (cases "distinct (s # vs)")
    case True
    have "0 \<le> (0::f64)" "f64_wf (0::f64)" by (simp_all add: f64_zero_one_Fin f64_wf_Fin)
    then have "0 \<le> x" using walk_cost_wf [OF assms(1) _ _ less.prems] by simp
    then have "x \<le> x" using f64_le_refl [of x] f64_le_not_NaN [of 0 x] by simp
    then show ?thesis using True less.prems by blast
  next
    case False
    from walk_cut [OF assms(1) less.prems False] obtain vs' x' where
      c: "length vs' < length vs" "last (s # vs') = last (s # vs)"
        "walk_cost cost 0 s vs' = Some x'" "x' \<le> x" by blast
    from less.hyps [OF c(1,3)] c(2,4) show ?thesis using f64_le_trans by metis
  qed
qed

lemma distinct_walk_length:
  "costs_ok k cost \<Longrightarrow> s < k \<Longrightarrow> walk_cost cost 0 s vs = Some x \<Longrightarrow> distinct (s # vs) \<Longrightarrow>
   length vs \<le> k - 1"
proof -
  assume a: "costs_ok k cost" "s < k" "walk_cost cost 0 s vs = Some x" "distinct (s # vs)"
  have "set (s # vs) \<subseteq> {..<k}" using walk_bounded [OF a(1,3)] a(2) by auto
  then have "card (set (s # vs)) \<le> k" using card_mono [of "{..<k}"] by fastforce
  then show ?thesis using distinct_card [OF a(4)] by simp
qed

section \<open>The invariant of relaxation\<close>

text \<open>The source can be reached from \<open>v\<close> along predecessors.\<close>

inductive traces :: "nat option list \<Rightarrow> nat \<Rightarrow> nat \<Rightarrow> bool" for pred s where
  at_source: "traces pred s s"
| via_pred: "pred ! v = Some u \<Longrightarrow> traces pred s u \<Longrightarrow> traces pred s v"

definition relax_inv :: "nat \<Rightarrow> edge_costs \<Rightarrow> nat \<Rightarrow> bf_state \<Rightarrow> bool" where
  "relax_inv k cost s st \<longleftrightarrow>
     length (bf_dist st) = k \<and> length (bf_pred st) = k \<and> s < k \<and> bf_dist st ! s = 0 \<and>
     bf_pred st ! s = None \<and>
     (\<forall>v < k. 0 \<le> bf_dist st ! v \<and> f64_wf (bf_dist st ! v)) \<and>
     (\<forall>v < k. bf_dist st ! v < PInf \<longrightarrow> traces (bf_pred st) s v) \<and>
     (\<forall>v < k. \<forall>u. bf_pred st ! v = Some u \<longrightarrow> u < k \<and> bf_dist st ! v < PInf
        \<and> (\<exists>c. cost u v = Some c \<and> bf_dist st ! u + c \<le> bf_dist st ! v))"

lemma relax_invD:
  assumes "relax_inv k cost s st"
  shows "length (bf_dist st) = k" "length (bf_pred st) = k" "s < k" "bf_dist st ! s = 0"
    "bf_pred st ! s = None"
    and "v < k \<Longrightarrow> 0 \<le> bf_dist st ! v"
    and "v < k \<Longrightarrow> f64_wf (bf_dist st ! v)"
    and "v < k \<Longrightarrow> bf_dist st ! v < PInf \<Longrightarrow> traces (bf_pred st) s v"
    and "v < k \<Longrightarrow> bf_pred st ! v = Some u \<Longrightarrow> u < k \<and> bf_dist st ! v < PInf
        \<and> (\<exists>c. cost u v = Some c \<and> bf_dist st ! u + c \<le> bf_dist st ! v)"
  using assms unfolding relax_inv_def by simp_all

lemma nonneg_refl: "(0::f64) \<le> a \<Longrightarrow> a \<le> a"
  using f64_le_refl [of a] f64_le_not_NaN [of 0 a] by simp

text \<open>Distances along the predecessors do not grow, so an update never closes a cycle.\<close>

lemma pred_closer:
  assumes "costs_ok k cost" "relax_inv k cost s st" "v < k" "bf_pred st ! v = Some u"
  shows "bf_dist st ! u \<le> bf_dist st ! v"
proof -
  obtain c where c: "u < k" "cost u v = Some c" "bf_dist st ! u + c \<le> bf_dist st ! v"
    using relax_invD(9) [OF assms(2-4)] by blast
  have "bf_dist st ! u \<le> bf_dist st ! u + c"
    using relax_invD(6,7) [OF assms(2) c(1)] costs_okD [OF assms(1) c(2)] le_plus_nonneg by simp
  then show ?thesis using c(3) f64_le_trans by simp
qed

lemma traces_bounded_update:
  assumes "costs_ok k cost" "relax_inv k cost s st" "traces (bf_pred st) s x" "x < k"
    and "bf_dist st ! x < bf_dist st ! v"
  shows "traces ((bf_pred st)[v := p]) s x"
  using assms(3-5)
proof (induction rule: traces.induct)
  case at_source
  show ?case by (rule traces.at_source)
next
  case (via_pred x y)
  have "y < k" using relax_invD(9) [OF assms(2) \<open>x < k\<close> via_pred.hyps(1)] by simp
  moreover have "bf_dist st ! y < bf_dist st ! v"
    using pred_closer [OF assms(1,2) \<open>x < k\<close> via_pred.hyps(1)] via_pred.prems(2) f64_le_less_trans by simp
  ultimately have "traces ((bf_pred st)[v := p]) s y" using via_pred.IH by simp
  moreover have "x \<noteq> v" using via_pred.prems(2) by auto
  ultimately show ?case using via_pred.hyps(1) by (intro traces.via_pred [of _ x y]) simp_all
qed

lemma traces_update:
  assumes "traces pred s x" "traces (pred[v := p]) s v"
  shows "traces (pred[v := p]) s x"
  using assms(1)
proof (induction rule: traces.induct)
  case at_source
  then show ?case by (rule traces.at_source)
next
  case (via_pred x y)
  then show ?case using assms(2) by (cases "x = v") (auto intro: traces.via_pred [of _ x y])
qed

definition dist_le :: "nat \<Rightarrow> bf_state \<Rightarrow> bf_state \<Rightarrow> bool" where
  "dist_le k st' st \<longleftrightarrow> (\<forall>v < k. bf_dist st' ! v \<le> bf_dist st ! v)"

lemma dist_le_trans: "dist_le k a b \<Longrightarrow> dist_le k b c \<Longrightarrow> dist_le k a c"
  unfolding dist_le_def using f64_le_trans by blast

lemma dist_le_refl: "relax_inv k cost s st \<Longrightarrow> dist_le k st st"
  unfolding dist_le_def using relax_invD(6) [of k cost s st] nonneg_refl by simp

lemma relax_cost_update:
  assumes "costs_ok k cost" "relax_inv k cost s st" "cost u v = Some c"
    and "bf_dist st ! u + c < bf_dist st ! v"
  shows "relax_inv k cost s (relax_cost u v c st)"
proof -
  note I = relax_invD [OF assms(2)]
  let ?d = "bf_dist st ! u + c"
  have uv: "u < k" "v < k" "0 \<le> c" "f64_wf c" using costs_okD [OF assms(1,3)] by simp_all
  have d0: "0 \<le> ?d" "f64_wf ?d" "bf_dist st ! u \<le> ?d"
    using I(6,7) [OF uv(1)] uv(3,4) nonneg_plus le_plus_nonneg by simp_all
  have vs: "v \<noteq> s" using d0(1) assms(4) I(4) f64_less_le by auto
  have vu: "v \<noteq> u" using d0(3) assms(4) f64_less_le by auto
  have fin: "?d < PInf" using assms(4) f64_less_le_trans f64_le_PInf f64_less_not_NaN by blast
  have r: "relax_cost u v c st = \<lparr>bf_dist = (bf_dist st)[v := ?d],
      bf_pred = (bf_pred st)[v := Some u], bf_updated = True\<rparr>"
    using assms(4) by (simp add: relax_cost_def Let_def)
  have du: "bf_dist st ! u < bf_dist st ! v" using d0(3) assms(4) f64_le_less_trans by simp
  have "traces (bf_pred st) s u"
    using I(8) [OF uv(1)] d0(3) fin f64_le_less_trans by blast
  then have "traces ((bf_pred st)[v := Some u]) s u"
    using traces_bounded_update [OF assms(1,2) _ uv(1) du] by simp
  then have tv: "traces ((bf_pred st)[v := Some u]) s v"
    using uv(2) I(2) by (intro traces.via_pred [of _ v u]) simp_all
  have t: "traces ((bf_pred st)[v := Some u]) s x" if "x < k" "(bf_dist st)[v := ?d] ! x < PInf" for x
    using that tv traces_update [OF I(8) tv, of x] by (cases "x = v") simp_all
  have p: "y < k \<and> (bf_dist st)[v := ?d] ! x < PInf
      \<and> (\<exists>c. cost y x = Some c \<and> (bf_dist st)[v := ?d] ! y + c \<le> (bf_dist st)[v := ?d] ! x)"
    if x: "x < k" "(bf_pred st)[v := Some u] ! x = Some y" for x y
  proof (cases "x = v")
    case True
    then have "y = u" using x I(2) by simp
    then show ?thesis
      using True uv fin vu I(1) assms(3) d0(1) f64_le_refl f64_le_not_NaN by simp
  next
    case False
    then have "bf_pred st ! x = Some y" using x by simp
    then obtain c' where c': "y < k" "bf_dist st ! x < PInf" "cost y x = Some c'"
      "bf_dist st ! y + c' \<le> bf_dist st ! x" using I(9) [OF x(1)] by blast
    have "?d + c' \<le> bf_dist st ! x" if "y = v"
    proof -
      have "0 \<le> c'" using costs_okD [OF assms(1) c'(3)] by simp
      then have "?d + c' \<le> bf_dist st ! v + c'"
        using plus_mono_left [OF d0(1)] assms(4) f64_less_imp_le by simp
      then show ?thesis using c'(4) that f64_le_trans by simp
    qed
    then show ?thesis using False c' I(1) by (cases "y = v") simp_all
  qed
  have nn: "0 \<le> (bf_dist st)[v := ?d] ! x \<and> f64_wf ((bf_dist st)[v := ?d] ! x)" if "x < k" for x
    using that d0 I(1,6,7) by (cases "x = v") simp_all
  show ?thesis unfolding relax_inv_def r using I(1-5) vs nn t p by simp
qed

lemma relax_cost_step:
  assumes "costs_ok k cost" "relax_inv k cost s st" "cost u v = Some c"
  shows "relax_inv k cost s (relax_cost u v c st)"
    and "dist_le k (relax_cost u v c st) st"
    and "bf_dist (relax_cost u v c st) ! v \<le> bf_dist st ! u + c"
    and "\<not> bf_updated (relax_cost u v c st) \<Longrightarrow> relax_cost u v c st = st"
proof -
  note I = relax_invD [OF assms(2)]
  have uv: "u < k" "v < k" "0 \<le> c" using costs_okD [OF assms(1,3)] by simp_all
  show "relax_inv k cost s (relax_cost u v c st)"
    using relax_cost_update [OF assms] assms(2)
    by (cases "bf_dist st ! u + c < bf_dist st ! v") (simp_all add: relax_cost_def Let_def)
  show "dist_le k (relax_cost u v c st) st"
    unfolding dist_le_def
  proof (intro allI impI)
    fix x assume "x < k"
    then show "bf_dist (relax_cost u v c st) ! x \<le> bf_dist st ! x"
      using I(1) nonneg_refl [OF I(6) [of x]] f64_less_imp_le [of "bf_dist st ! u + c"]
      by (cases "x = v") (simp_all add: relax_cost_def Let_def)
  qed
  have s: "0 \<le> bf_dist st ! u + c" using I(6) [OF uv(1)] uv(3) nonneg_plus by simp
  then show "bf_dist (relax_cost u v c st) ! v \<le> bf_dist st ! u + c"
    using I(1) uv(2) I(6) [OF uv(2)] f64_le_not_NaN nonneg_refl [OF s]
      f64_not_less [of "bf_dist st ! u + c" "bf_dist st ! v"]
    by (auto simp: relax_cost_def Let_def)
  show "\<not> bf_updated (relax_cost u v c st) \<Longrightarrow> relax_cost u v c st = st"
    by (auto simp: relax_cost_def Let_def split: if_splits)
qed

section \<open>The rounds\<close>

text \<open>The cost of the edge between two local indices, as the code computes it.\<close>

definition local_cost ::
  "agent_graph \<Rightarrow> nat list \<Rightarrow> task_type \<Rightarrow> cost_model \<Rightarrow> cost_weights \<Rightarrow> edge_costs" where
  "local_cost g agents t cm w u v =
     (if u < length agents \<and> v < length agents then do {
        lat \<leftarrow> transfer_latency g (agents ! u) (agents ! v);
        node \<leftarrow> graph_node g (agents ! v);
        cap \<leftarrow> capability_for node t;
        scalar_edge_cost cm cap lat w
      } else None)"

lemma local_index:
  assumes "distinct agents"
  shows "global_to_local agents x = Some l \<longleftrightarrow> l < length agents \<and> agents ! l = x"
proof -
  have f: "fold (\<lambda>(local, global) m. m(global \<mapsto> local)) (enumerate n xs) m x = Some l \<longleftrightarrow>
      (\<exists>i < length xs. xs ! i = x \<and> l = n + i) \<or> (x \<notin> set xs \<and> m x = Some l)"
    if "distinct xs" for n xs m
    using that
  proof (induction xs arbitrary: n m)
    case Nil
    then show ?case by simp
  next
    case (Cons y ys)
    have "(\<exists>i < length (y # ys). (y # ys) ! i = x \<and> l = n + i) \<longleftrightarrow>
        y = x \<and> l = n \<or> (\<exists>i < length ys. ys ! i = x \<and> l = Suc n + i)"
      by (simp add: Ex_less_Suc2)
    moreover have "\<not> (\<exists>i < length ys. ys ! i = x \<and> l = Suc n + i)" if "y = x"
      using that Cons.prems by auto
    ultimately show ?case
      using Cons.IH [of "Suc n" "m(y \<mapsto> n)"] Cons.prems by auto
  qed
  show ?thesis unfolding global_to_local_def f [OF assms] by auto
qed

lemma edge_latency:
  assumes "graph_wf g" "e \<in> set (edges_from g i)"
  shows "transfer_latency g i (e_to e) = Some (e_transfer_latency e)"
proof -
  have i: "i < length (g_adjacency g)" and e: "e \<in> set (g_adjacency g ! i)"
    using assms(2) by (auto simp: edges_from_def vec_at_def split: if_splits)
  have d: "distinct (map e_to (g_adjacency g ! i))" using graph_wfD(4) [OF assms(1) i] .
  have "find (\<lambda>x. e_to x = e_to e) (g_adjacency g ! i) = Some e"
  proof -
    have "e \<in> set es \<Longrightarrow> distinct (map e_to es) \<Longrightarrow> find (\<lambda>x. e_to x = e_to e) es = Some e" for es
      by (induction es) force+
    then show ?thesis using e d by simp
  qed
  then show ?thesis using i by (simp add: transfer_latency_def vec_at_def)
qed

lemma latency_edge:
  assumes "transfer_latency g i j = Some l"
  shows "\<exists>e \<in> set (edges_from g i). e_to e = j \<and> e_transfer_latency e = l"
proof -
  obtain e where i: "i < length (g_adjacency g)"
    and e: "find (\<lambda>e. e_to e = j) (g_adjacency g ! i) = Some e" "e_transfer_latency e = l"
    using assms by (auto simp: transfer_latency_def vec_at_def bind_eq_Some_conv split: if_splits)
  then have "e \<in> set (g_adjacency g ! i) \<and> e_to e = j"
    by (auto simp: find_Some_iff)
  then show ?thesis using e i by (auto simp: edges_from_def vec_at_def)
qed

text \<open>What one search runs on.\<close>

definition search_ok ::
  "agent_graph \<Rightarrow> nat list \<Rightarrow> task_type \<Rightarrow> cost_model \<Rightarrow> cost_weights \<Rightarrow> bool" where
  "search_ok g agents t cm w \<longleftrightarrow> graph_wf g \<and> distinct agents \<and>
     costs_ok (length agents) (local_cost g agents t cm w)"

lemma relax_edge_cases:
  assumes "search_ok g agents t cm w" "u < length agents" "e \<in> set (edges_from g (agents ! u))"
    and "relax_edge g (global_to_local agents) t cm w u st e = Some st'"
  shows "(\<exists>v c. agents ! v = e_to e \<and> local_cost g agents t cm w u v = Some c
        \<and> st' = relax_cost u v c st)
    \<or> (st' = st \<and> (\<forall>v. agents ! v = e_to e \<longrightarrow> local_cost g agents t cm w u v = None))"
proof -
  have d: "distinct agents" and wf: "graph_wf g" using assms(1) by (simp_all add: search_ok_def)
  have lat: "transfer_latency g (agents ! u) (e_to e) = Some (e_transfer_latency e)"
    by (rule edge_latency [OF wf assms(3)])
  show ?thesis
  proof (cases "global_to_local agents (e_to e)")
    case None
    have "\<not> (v < length agents \<and> agents ! v = e_to e)" for v
      using None local_index [OF d, of "e_to e" v] by simp
    then show ?thesis using None assms(4) by (auto simp: relax_edge_def local_cost_def)
  next
    case (Some v)
    then have v: "v < length agents" "agents ! v = e_to e" using local_index [OF d] by simp_all
    have uniq: "v' = v" if "agents ! v' = e_to e" "v' < length agents" for v'
      using that v d nth_eq_iff_index_eq by metis
    show ?thesis
    proof (cases "local_cost g agents t cm w u v")
      case None
      then have "st' = st"
        using Some assms(2,4) v lat
        by (auto simp: relax_edge_def local_cost_def bind_eq_Some_conv split: option.splits)
      moreover have "local_cost g agents t cm w u v' = None" if "agents ! v' = e_to e" for v'
      proof (cases "v' < length agents")
        case True
        then show ?thesis using uniq [OF that] None by simp
      qed (simp add: local_cost_def)
      ultimately show ?thesis by blast
    next
      case c: (Some c)
      then have "st' = relax_cost u v c st"
        using Some assms(2,4) v lat
        by (auto simp: relax_edge_def local_cost_def bind_eq_Some_conv split: option.splits)
      then show ?thesis using c v by blast
    qed
  qed
qed

text \<open>What a sequence of relaxations from \<open>st\<close> to \<open>st'\<close> has achieved for the edges in \<open>R\<close>.\<close>

definition relaxed_to ::
  "nat \<Rightarrow> edge_costs \<Rightarrow> nat \<Rightarrow> bf_state \<Rightarrow> bf_state \<Rightarrow> (nat \<Rightarrow> nat \<Rightarrow> bool) \<Rightarrow> bool" where
  "relaxed_to k cost s st st' R \<longleftrightarrow> relax_inv k cost s st' \<and> dist_le k st' st \<and>
     (\<not> bf_updated st' \<longrightarrow> st' = st) \<and>
     (\<forall>u v c. R u v \<longrightarrow> cost u v = Some c \<longrightarrow> bf_dist st' ! v \<le> bf_dist st ! u + c)"

lemma relaxed_to_trans:
  assumes "costs_ok k cost" "relaxed_to k cost s st st1 R" "relaxed_to k cost s st1 st' S"
  shows "relaxed_to k cost s st st' (\<lambda>u v. R u v \<or> S u v)"
proof -
  have "bf_dist st' ! v \<le> bf_dist st ! u + c" if "R u v \<or> S u v" and c: "cost u v = Some c" for u v c
  proof (cases "R u v")
    case True
    then have "bf_dist st1 ! v \<le> bf_dist st ! u + c" using assms(2) c by (simp add: relaxed_to_def)
    moreover have "bf_dist st' ! v \<le> bf_dist st1 ! v"
      using assms(3) costs_okD [OF assms(1) c] by (simp add: relaxed_to_def dist_le_def)
    ultimately show ?thesis using f64_le_trans by simp
  next
    case False
    then have "bf_dist st' ! v \<le> bf_dist st1 ! u + c"
      using assms(3) c that by (simp add: relaxed_to_def)
    moreover have "bf_dist st1 ! u + c \<le> bf_dist st ! u + c"
    proof (rule plus_mono_left)
      have "u < k" "0 \<le> c" using costs_okD [OF assms(1) c] by simp_all
      then show "0 \<le> bf_dist st1 ! u" "bf_dist st1 ! u \<le> bf_dist st ! u" "0 \<le> c"
        using assms(2) by (simp_all add: relaxed_to_def dist_le_def relax_inv_def)
    qed
    ultimately show ?thesis using f64_le_trans by simp
  qed
  then show ?thesis
    using assms(2,3) dist_le_trans [of k st' st1 st] unfolding relaxed_to_def by blast
qed

lemma relaxed_to_refl: "relax_inv k cost s st \<Longrightarrow> relaxed_to k cost s st st (\<lambda>u v. False)"
  using dist_le_refl by (simp add: relaxed_to_def)

lemma relaxed_to_mono:
  "relaxed_to k cost s st st' R \<Longrightarrow> (\<And>u v. S u v \<Longrightarrow> cost u v \<noteq> None \<Longrightarrow> R u v) \<Longrightarrow>
   relaxed_to k cost s st st' S"
  unfolding relaxed_to_def by (metis option.distinct(1))

lemma relax_edges_relaxed:
  assumes "search_ok g agents t cm w" "u < length agents"
    and "set es \<subseteq> set (edges_from g (agents ! u))"
    and "relax_inv (length agents) (local_cost g agents t cm w) s st"
    and "relax_edges g (global_to_local agents) t cm w u es st = Some st'"
  shows "relaxed_to (length agents) (local_cost g agents t cm w) s st st'
    (\<lambda>x v. x = u \<and> (\<exists>e \<in> set es. e_to e = agents ! v))"
  using assms(3-5)
proof (induction es arbitrary: st)
  case Nil
  then show ?case using relaxed_to_refl by simp
next
  case (Cons e es)
  let ?cost = "local_cost g agents t cm w" and ?k = "length agents"
  have ok: "costs_ok ?k ?cost" using assms(1) by (simp add: search_ok_def)
  obtain st1 where st1: "relax_edge g (global_to_local agents) t cm w u st e = Some st1"
    "relax_edges g (global_to_local agents) t cm w u es st1 = Some st'"
    using Cons.prems(3) by (auto simp: bind_eq_Some_conv)
  have e: "e \<in> set (edges_from g (agents ! u))" using Cons.prems(1) by simp
  have "relaxed_to ?k ?cost s st st1 (\<lambda>x v. x = u \<and> e_to e = agents ! v)"
    using relax_edge_cases [OF assms(1,2) e st1(1)]
  proof (elim disjE exE conjE)
    fix v c assume v: "agents ! v = e_to e" "?cost u v = Some c" "st1 = relax_cost u v c st"
    note step = relax_cost_step [OF ok Cons.prems(2) v(2)]
    have "relaxed_to ?k ?cost s st st1 (\<lambda>x y. x = u \<and> y = v)"
      using step v by (auto simp: relaxed_to_def)
    then show ?thesis
    proof (rule relaxed_to_mono)
      fix x y assume a: "x = u \<and> e_to e = agents ! y" "?cost x y \<noteq> None"
      then have "y < ?k" "v < ?k" using costs_okD [OF ok] v(2) by fastforce+
      then show "x = u \<and> y = v"
        using a(1) v(1) assms(1) by (simp add: search_ok_def nth_eq_iff_index_eq)
    qed
  next
    assume n: "st1 = st" "\<forall>v. agents ! v = e_to e \<longrightarrow> ?cost u v = None"
    have "relaxed_to ?k ?cost s st st (\<lambda>u v. False)" by (rule relaxed_to_refl [OF Cons.prems(2)])
    then show ?thesis unfolding n(1)
    proof (rule relaxed_to_mono)
      fix x v assume "x = u \<and> e_to e = agents ! v" "?cost x v \<noteq> None"
      then show False using n(2) by simp
    qed
  qed
  moreover from this have "relax_inv ?k ?cost s st1" by (simp add: relaxed_to_def)
  then have "relaxed_to ?k ?cost s st1 st' (\<lambda>x v. x = u \<and> (\<exists>e \<in> set es. e_to e = agents ! v))"
    using Cons.IH st1(2) Cons.prems(1) by simp
  ultimately have "relaxed_to ?k ?cost s st st' (\<lambda>x v. (x = u \<and> e_to e = agents ! v)
      \<or> (x = u \<and> (\<exists>e \<in> set es. e_to e = agents ! v)))"
    by (rule relaxed_to_trans [OF ok])
  then show ?case by (rule relaxed_to_mono) auto
qed

lemma relax_agents_relaxed:
  assumes "search_ok g agents t cm w" "set us \<subseteq> set agents"
    and "relax_inv (length agents) (local_cost g agents t cm w) s st"
    and "relax_agents g (global_to_local agents) t cm w us st = Some st'"
  shows "relaxed_to (length agents) (local_cost g agents t cm w) s st st'
    (\<lambda>u v. agents ! u \<in> set us)"
  using assms(2-4)
proof (induction us arbitrary: st)
  case Nil
  then show ?case using relaxed_to_refl by simp
next
  case (Cons a us)
  let ?cost = "local_cost g agents t cm w" and ?k = "length agents"
  have ok: "costs_ok ?k ?cost" and d: "distinct agents" using assms(1) by (simp_all add: search_ok_def)
  obtain u where u: "global_to_local agents a = Some u" using Cons.prems(3) by (auto split: option.splits)
  then have u': "u < ?k" "agents ! u = a" using local_index [OF d] by simp_all
  note I = relax_invD [OF Cons.prems(2)]
  obtain st1 where st1: "relax_agents g (global_to_local agents) t cm w us st1 = Some st'"
    and r1: "relaxed_to ?k ?cost s st st1 (\<lambda>x v. x = u)"
  proof (cases "bf_dist st ! u = PInf")
    case True
    have "bf_dist st ! v \<le> bf_dist st ! u + c" if "?cost u v = Some c" for v c
    proof -
      have "v < ?k" "0 \<le> c" using costs_okD [OF ok that] by simp_all
      then have "bf_dist st ! v \<noteq> NaN" "PInf + c = PInf"
        using I(6) [of v] f64_le_not_NaN by (auto, cases c, auto simp: f64_zero_one_Fin)
      then show ?thesis using True f64_le_PInf by simp
    qed
    then have "relaxed_to ?k ?cost s st st (\<lambda>x v. x = u)"
      using Cons.prems(2) dist_le_refl by (simp add: relaxed_to_def)
    then show ?thesis using that [of st] Cons.prems(3) u True by simp
  next
    case False
    then obtain st1 where s1: "relax_edges g (global_to_local agents) t cm w u (edges_from g a) st = Some st1"
      "relax_agents g (global_to_local agents) t cm w us st1 = Some st'"
      using Cons.prems(3) u by (auto simp: bind_eq_Some_conv)
    have "set (edges_from g a) \<subseteq> set (edges_from g (agents ! u))" using u' by simp
    from relax_edges_relaxed [OF assms(1) u'(1) this Cons.prems(2) s1(1)]
    have "relaxed_to ?k ?cost s st st1 (\<lambda>x v. x = u)"
    proof (rule relaxed_to_mono)
      fix x v assume "x = u" "?cost x v \<noteq> None"
      then obtain l where "transfer_latency g a (agents ! v) = Some l"
        using u' by (auto simp: local_cost_def bind_eq_Some_conv split: if_splits)
      from latency_edge [OF this] show "x = u \<and> (\<exists>e \<in> set (edges_from g a). e_to e = agents ! v)"
        using \<open>x = u\<close> by blast
    qed
    then show ?thesis using that s1(2) by blast
  qed
  have "relax_inv ?k ?cost s st1" using r1 by (simp add: relaxed_to_def)
  then have "relaxed_to ?k ?cost s st1 st' (\<lambda>u v. agents ! u \<in> set us)"
    using Cons.IH st1 Cons.prems(1) by simp
  from relaxed_to_trans [OF ok r1 this] show ?case
  proof (rule relaxed_to_mono)
    fix x v assume "agents ! x \<in> set (a # us)" "?cost x v \<noteq> None"
    then have "x < ?k" using costs_okD [OF ok] by fastforce
    then show "x = u \<or> agents ! x \<in> set us"
      using \<open>agents ! x \<in> set (a # us)\<close> u' d by (auto simp: nth_eq_iff_index_eq)
  qed
qed

text \<open>The distances are at most the cost of every walk of at most \<open>m\<close> edges.\<close>

definition walks_bounded :: "edge_costs \<Rightarrow> nat \<Rightarrow> nat \<Rightarrow> bf_state \<Rightarrow> bool" where
  "walks_bounded cost s m st \<longleftrightarrow> (\<forall>vs x. length vs \<le> m \<longrightarrow> walk_cost cost 0 s vs = Some x \<longrightarrow>
     bf_dist st ! last (s # vs) \<le> x)"

lemma walks_bounded_step:
  assumes "costs_ok k cost" "relax_inv k cost s st" "relaxed_to k cost s st st' (\<lambda>u v. True)"
    and "walks_bounded cost s m st"
  shows "walks_bounded cost s (Suc m) st'"
  unfolding walks_bounded_def
proof (intro allI impI)
  fix vs x assume a: "length vs \<le> Suc m" "walk_cost cost 0 s vs = Some x"
  have le: "bf_dist st' ! v \<le> bf_dist st ! v" if "v < k" for v
    using assms(3) that by (simp add: relaxed_to_def dist_le_def)
  have s: "s < k" using relax_invD(3) [OF assms(2)] .
  show "bf_dist st' ! last (s # vs) \<le> x"
  proof (cases vs rule: rev_cases)
    case Nil
    then have "bf_dist st ! s \<le> x"
      using a(2) assms(4) unfolding walks_bounded_def by (metis last.simps le0 list.size(3))
    then show ?thesis using le [OF s] Nil f64_le_trans by simp
  next
    case (snoc us v)
    obtain y c where y: "walk_cost cost 0 s us = Some y" "cost (last (s # us)) v = Some c" "x = y + c"
      using a(2) unfolding snoc walk_cost_append by (auto simp: bind_eq_Some_conv)
    let ?u = "last (s # us)"
    have c: "?u < k" "0 \<le> c" using costs_okD [OF assms(1) y(2)] by simp_all
    have "bf_dist st ! ?u \<le> y"
      using assms(4) y(1) a(1) snoc by (simp add: walks_bounded_def)
    then have "bf_dist st ! ?u + c \<le> x"
      using plus_mono_left relax_invD(6) [OF assms(2) c(1)] c(2) y(3) by simp
    moreover have "bf_dist st' ! v \<le> bf_dist st ! ?u + c"
      using assms(3) y(2) by (simp add: relaxed_to_def)
    ultimately show ?thesis using snoc f64_le_trans by simp
  qed
qed

lemma walks_bounded_fixpoint:
  assumes "costs_ok k cost" "relax_inv k cost s st" "relaxed_to k cost s st st (\<lambda>u v. True)"
    and "walks_bounded cost s m st"
  shows "walks_bounded cost s (m + n) st"
  by (induction n) (simp_all add: assms(4) walks_bounded_step [OF assms(1-3)])

lemma relax_inv_flag [simp]:
  "relax_inv k cost s (st\<lparr>bf_updated := b\<rparr>) = relax_inv k cost s st"
  "walks_bounded cost s m (st\<lparr>bf_updated := b\<rparr>) = walks_bounded cost s m st"
  by (simp_all add: relax_inv_def walks_bounded_def)

lemma bf_rounds_correct:
  assumes "search_ok g agents t cm w"
    and "relax_inv (length agents) (local_cost g agents t cm w) s st"
    and "walks_bounded (local_cost g agents t cm w) s m st"
    and "bf_rounds g (global_to_local agents) t cm w agents n st = Some st'"
  shows "relax_inv (length agents) (local_cost g agents t cm w) s st'
    \<and> walks_bounded (local_cost g agents t cm w) s (m + n) st'"
  using assms(2-4)
proof (induction n arbitrary: m st)
  case 0
  then show ?case by simp
next
  case (Suc n)
  let ?cost = "local_cost g agents t cm w" and ?k = "length agents"
  let ?st = "st\<lparr>bf_updated := False\<rparr>"
  have ok: "costs_ok ?k ?cost" using assms(1) by (simp add: search_ok_def)
  obtain st1 where r: "relax_agents g (global_to_local agents) t cm w agents ?st = Some st1"
    and n: "(if bf_updated st1 then bf_rounds g (global_to_local agents) t cm w agents n st1
             else Some st1) = Some st'"
    using Suc.prems(3) by (auto simp: bind_eq_Some_conv)
  have inv: "relax_inv ?k ?cost s ?st" and wb: "walks_bounded ?cost s m ?st"
    using Suc.prems(1,2) by simp_all
  have "relaxed_to ?k ?cost s ?st st1 (\<lambda>u v. agents ! u \<in> set agents)"
    by (rule relax_agents_relaxed [OF assms(1) subset_refl inv r])
  then have rel: "relaxed_to ?k ?cost s ?st st1 (\<lambda>u v. True)"
  proof (rule relaxed_to_mono)
    fix u v assume "?cost u v \<noteq> None"
    then show "agents ! u \<in> set agents" using costs_okD [OF ok] by fastforce
  qed
  have inv1: "relax_inv ?k ?cost s st1" using rel by (simp add: relaxed_to_def)
  have wb1: "walks_bounded ?cost s (Suc m) st1" by (rule walks_bounded_step [OF ok inv rel wb])
  show ?case
  proof (cases "bf_updated st1")
    case True
    then show ?thesis using Suc.IH [OF inv1 wb1] n by simp
  next
    case False
    then have "st1 = ?st" using rel by (simp add: relaxed_to_def)
    then have "relaxed_to ?k ?cost s st1 st1 (\<lambda>u v. True)" using rel by simp
    from walks_bounded_fixpoint [OF ok inv1 this wb1, of n] show ?thesis
      using False n inv1 by simp
  qed
qed

lemma bf_init_inv:
  assumes "s < k"
  shows "relax_inv k cost s (bf_init k s)" "walks_bounded cost s 0 (bf_init k s)"
proof -
  have d: "bf_dist (bf_init k s) ! v = (if v = s then 0 else PInf)" if "v < k" for v
    using that by (simp add: bf_init_def nth_list_update)
  have p: "bf_pred (bf_init k s) ! v = None" if "v < k" for v using that by (simp add: bf_init_def)
  have "0 \<le> PInf" "f64_wf PInf" "0 \<le> (0::f64)"
    by (simp_all add: f64_zero_one_Fin f64_wf_def)
  then show "relax_inv k cost s (bf_init k s)"
    using assms d p traces.at_source
    by (auto simp: relax_inv_def bf_init_def [of k s] f64_wf_01)
  show "walks_bounded cost s 0 (bf_init k s)"
    using d [OF assms] by (simp add: walks_bounded_def f64_zero_one_Fin)
qed

section \<open>Reading the path off the predecessors\<close>

text \<open>The predecessors from \<open>v\<close> back to the source, as a list.\<close>

inductive chain :: "nat option list \<Rightarrow> nat \<Rightarrow> nat \<Rightarrow> nat list \<Rightarrow> bool" for pred s where
  chain_source: "chain pred s s []"
| chain_step: "v \<noteq> s \<Longrightarrow> pred ! v = Some u \<Longrightarrow> chain pred s u ps \<Longrightarrow> chain pred s v (u # ps)"

inductive_cases chain_NilE: "chain pred s v []"
inductive_cases chain_ConsE: "chain pred s v (u # ps)"

lemma traces_chain: "traces pred s v \<Longrightarrow> \<exists>ps. chain pred s v ps"
proof (induction rule: traces.induct)
  case at_source
  then show ?case using chain_source by blast
next
  case (via_pred v u)
  then show ?case using chain_source chain_step by (cases "v = s") blast+
qed

lemma chain_unique: "chain pred s v ps \<Longrightarrow> chain pred s v qs \<Longrightarrow> ps = qs"
proof (induction arbitrary: qs rule: chain.induct)
  case chain_source
  then show ?case by (cases rule: chain.cases) simp_all
next
  case (chain_step v u ps)
  from chain_step.prems show ?case
  proof (cases rule: chain.cases)
    case chain_source
    then show ?thesis using chain_step.hyps(1) by simp
  next
    case (chain_step u' ps')
    then have "u' = u" using \<open>pred ! v = Some u\<close> by simp
    then show ?thesis using chain_step \<open>\<And>qs. chain pred s u qs \<Longrightarrow> ps = qs\<close> by simp
  qed
qed

lemma chain_suffix: "chain pred s v ps \<Longrightarrow> x \<in> set ps \<Longrightarrow> \<exists>qs. chain pred s x qs \<and> length qs < length ps"
proof (induction rule: chain.induct)
  case chain_source
  then show ?case by simp
next
  case (chain_step v u ps)
  then show ?case by (cases "x = u") (auto intro: less_SucI)
qed

lemma chain_distinct: "chain pred s v ps \<Longrightarrow> distinct (v # ps)"
proof (induction rule: chain.induct)
  case chain_source
  then show ?case by simp
next
  case (chain_step v u ps)
  have c: "chain pred s v (u # ps)" using chain_step.hyps by (rule chain.chain_step)
  have "v \<notin> set (u # ps)"
  proof
    assume "v \<in> set (u # ps)"
    from chain_suffix [OF c this] obtain qs where "chain pred s v qs" "length qs < length (u # ps)"
      by blast
    then show False using chain_unique [OF c] by blast
  qed
  then show ?case using chain_step.IH by simp
qed

lemma chain_last: "chain pred s v ps \<Longrightarrow> last (v # ps) = s"
  by (induction rule: chain.induct) simp_all

lemma chain_bounded:
  assumes "relax_inv k cost s st" "chain (bf_pred st) s v ps" "v < k"
  shows "\<forall>x \<in> set (v # ps). x < k"
  using assms(2,3)
proof (induction rule: chain.induct)
  case chain_source
  then show ?case by simp
next
  case (chain_step v u ps)
  then show ?case using relax_invD(9) [OF assms(1) chain_step.prems chain_step.hyps(2)] by simp
qed

text \<open>The walk that the chain stands for costs at most the distance of its end.\<close>

lemma chain_walk:
  assumes "costs_ok k cost" "relax_inv k cost s st" "chain (bf_pred st) s v ps" "v < k"
  shows "\<exists>x. walk_cost cost 0 s (tl (rev (v # ps))) = Some x \<and> x \<le> bf_dist st ! v"
  using assms(3,4)
proof (induction rule: chain.induct)
  case chain_source
  then show ?case using relax_invD(4) [OF assms(2)] by (simp add: f64_zero_one_Fin)
next
  case (chain_step v u ps)
  obtain c where c: "u < k" "cost u v = Some c" "bf_dist st ! u + c \<le> bf_dist st ! v"
    using relax_invD(9) [OF assms(2) chain_step.prems chain_step.hyps(2)] by blast
  obtain x where x: "walk_cost cost 0 s (tl (rev (u # ps))) = Some x" "x \<le> bf_dist st ! u"
    using chain_step.IH c(1) by blast
  have c0: "0 \<le> c" using costs_okD [OF assms(1) c(2)] by simp
  have x0: "0 \<le> x"
    using walk_cost_wf [OF assms(1) _ _ x(1)] by (simp add: f64_zero_one_Fin f64_wf_Fin)
  have hd: "hd (rev (u # ps)) = s" "rev (u # ps) \<noteq> []"
    using chain_last [OF chain_step.hyps(3)] by (simp_all only: hd_rev) simp
  have "s # tl (rev (u # ps)) = rev (u # ps)" using hd by (metis list.collapse)
  then have "last (s # tl (rev (u # ps))) = u" by simp
  moreover have "tl (rev (v # u # ps)) = tl (rev (u # ps)) @ [v]"
    using tl_append2 [OF hd(2), of "[v]"] by simp
  ultimately have "walk_cost cost 0 s (tl (rev (v # u # ps))) = Some (x + c)"
    using x(1) c(2) by (simp add: walk_cost_append del: rev.simps)
  moreover have "x + c \<le> bf_dist st ! v"
    using plus_mono_left [OF x0 x(2) c0] c(3) f64_le_trans by simp
  ultimately show ?case by blast
qed

lemma trace_chain:
  assumes "chain pred s v ps" "v \<noteq> s" "length acc + length ps \<le> Suc k"
  shows "trace_path pred s k v acc = Some (acc @ ps)"
  using assms
proof (induction arbitrary: acc rule: chain.induct)
  case chain_source
  then show ?case by simp
next
  case (chain_step v u ps)
  show ?case
  proof (cases "u = s")
    case True
    then have "ps = []" using chain_unique [OF chain_step.hyps(3)] chain_source by blast
    then show ?thesis using True chain_step.hyps(2) by (subst trace_path.simps) simp
  next
    case False
    then have "ps \<noteq> []" using chain_step.hyps(3) by (auto elim: chain_NilE)
    then have "length (acc @ [u]) \<le> k"
      using chain_step.prems(2) by (cases ps) simp_all
    moreover have "trace_path pred s k u (acc @ [u]) = Some ((acc @ [u]) @ ps)"
      using chain_step.IH False chain_step.prems(2) by simp
    ultimately show ?thesis
      using False chain_step.hyps(2) by (subst trace_path.simps) simp
  qed
qed

lemma best_dest_correct:
  "(case best_dest s ds of
      (None, c) \<Rightarrow> c = PInf \<and> (\<forall>v < length ds. v \<noteq> s \<longrightarrow> \<not> ds ! v < PInf)
    | (Some d, c) \<Rightarrow> d < length ds \<and> d \<noteq> s \<and> c = ds ! d \<and> c < PInf
        \<and> (\<forall>v < length ds. v \<noteq> s \<longrightarrow> \<not> ds ! v < c))"
proof (induction ds rule: rev_induct)
  case Nil
  then show ?case by (simp add: best_dest_def)
next
  case (snoc x xs)
  have e: "best_dest s (xs @ [x]) = best_dest_step s (best_dest s xs) (length xs, x)"
    by (simp add: best_dest_def enumerate_append_eq)
  obtain b c where b: "best_dest s xs = (b, c)" by fastforce
  have tr: "\<not> (y::f64) < x" if "\<not> y < c" "x < c" for y using that f64_less_trans by blast
  show ?case
    using snoc b tr f64_less_irrefl [of x]
    by (cases b; cases "length xs \<noteq> s \<and> x < c")
      (auto simp: e best_dest_step_def nth_append less_Suc_eq dest: f64_less_trans)
qed

text \<open>The chain of predecessors, read backwards, is a simple path of no more cost than the distance.\<close>

lemma chain_path:
  assumes "costs_ok k cost" "relax_inv k cost s st" "chain (bf_pred st) s d ps" "d < k" "d \<noteq> s"
  obtains vs x where "d # ps = rev (s # vs)" "vs \<noteq> []" "distinct (s # vs)" "\<forall>v \<in> set vs. v < k"
    "last (s # vs) = d" "walk_cost cost 0 s vs = Some x" "x \<le> bf_dist st ! d"
    "trace_path (bf_pred st) s k d [d] = Some (rev (s # vs))"
proof -
  have dps: "distinct (d # ps)" and lps: "last (d # ps) = s"
    using chain_distinct [OF assms(3)] chain_last [OF assms(3)] by simp_all
  define vs where "vs = tl (rev (d # ps))"
  have "hd (rev (d # ps)) = s" using lps by (simp only: hd_rev)
  then have r: "rev (d # ps) = s # vs"
    unfolding vs_def by (metis list.collapse rev_is_Nil_conv list.distinct(1))
  then have rv: "d # ps = rev (s # vs)" by (metis rev_rev_ident)
  have bd: "\<forall>v \<in> set vs. v < k"
    using chain_bounded [OF assms(2-4)] r by (metis set_rev list.set_intros(2))
  obtain x where x: "walk_cost cost 0 s vs = Some x" "x \<le> bf_dist st ! d"
    using chain_walk [OF assms(1-4)] vs_def by blast
  have "set (d # ps) \<subseteq> {..<k}" using chain_bounded [OF assms(2-4)] by auto
  then have "length (d # ps) \<le> k"
    using card_mono [of "{..<k}" "set (d # ps)"] distinct_card [OF dps] by simp
  then have "trace_path (bf_pred st) s k d [d] = Some ([d] @ ps)"
    by (intro trace_chain [OF assms(3,5)]) simp
  then have "trace_path (bf_pred st) s k d [d] = Some (rev (s # vs))"
    unfolding rv [symmetric] by simp
  moreover have "last (s # vs) = d" using r by (metis last_rev list.sel(1) rev_is_Nil_conv list.distinct(1))
  moreover have "distinct (s # vs)" using dps r by (metis distinct_rev)
  moreover have "vs \<noteq> []" using rv assms(5) by auto
  ultimately show ?thesis using that rv bd x by blast
qed

text \<open>The distance of its last node bounds the cost of every walk.\<close>

lemma walk_at_least:
  assumes "costs_ok k cost" "walks_bounded cost s (k - 1) st" "s < k" "walk_cost cost 0 s vs = Some x"
  shows "bf_dist st ! last (s # vs) \<le> x" "last (s # vs) < k"
proof -
  obtain vs' x' where v: "distinct (s # vs')" "last (s # vs') = last (s # vs)"
    "walk_cost cost 0 s vs' = Some x'" "x' \<le> x"
    using simple_walk [OF assms(1,4)] by blast
  have "length vs' \<le> k - 1" by (rule distinct_walk_length [OF assms(1,3) v(3,1)])
  then have "bf_dist st ! last (s # vs') \<le> x'" using assms(2) v(3) unfolding walks_bounded_def by blast
  then show "bf_dist st ! last (s # vs) \<le> x" using v(2,4) f64_le_trans by simp
  show "last (s # vs) < k" using walk_bounded [OF assms(1,4)] assms(3) by (cases vs) auto
qed

text \<open>
  The result of a search over local indices: the path is a simple walk from the source whose cost
  is the reported one, and no walk to another agent costs less.
\<close>

lemma local_search_correct:
  assumes "search_ok g agents t cm w" "s < length agents"
    and "bf_rounds g (global_to_local agents) t cm w agents (length agents - 1)
           (bf_init (length agents) s) = Some st"
  shows "(case best_dest s (bf_dist st) of
      (None, _) \<Rightarrow> (\<forall>vs x. walk_cost (local_cost g agents t cm w) 0 s vs = Some x
         \<longrightarrow> last (s # vs) \<noteq> s \<longrightarrow> x = PInf)
    | (Some d, c) \<Rightarrow> (\<exists>vs. vs \<noteq> [] \<and> distinct (s # vs) \<and> (\<forall>v \<in> set vs. v < length agents)
         \<and> walk_cost (local_cost g agents t cm w) 0 s vs = Some c
         \<and> trace_path (bf_pred st) s (length agents) d [d] = Some (rev (s # vs))
         \<and> close_path (bf_dist st) s d (rev (s # vs)) = Some (rev (s # vs)))
         \<and> (\<forall>vs x. walk_cost (local_cost g agents t cm w) 0 s vs = Some x
         \<longrightarrow> last (s # vs) \<noteq> s \<longrightarrow> c \<le> x))"
proof -
  let ?cost = "local_cost g agents t cm w" and ?k = "length agents"
  have ok: "costs_ok ?k ?cost" using assms(1) by (simp add: search_ok_def)
  have inv: "relax_inv ?k ?cost s st" and wb: "walks_bounded ?cost s (?k - 1) st"
    using bf_rounds_correct [OF assms(1) bf_init_inv [OF assms(2)] assms(3)] by simp_all
  note I = relax_invD [OF inv]
  note best = walk_at_least [OF ok wb assms(2)]
  obtain b c where b: "best_dest s (bf_dist st) = (b, c)" by fastforce
  show ?thesis
  proof (cases b)
    case None
    have "x = PInf" if "walk_cost ?cost 0 s vs = Some x" "last (s # vs) \<noteq> s" for vs x
    proof -
      have "\<not> bf_dist st ! last (s # vs) < PInf"
        using best_dest_correct [of "bf_dist st" s] b None best(2) [OF that(1)] that(2) I(1) by simp
      then have "PInf \<le> x"
        using best(1) [OF that(1)] by (cases x; cases "bf_dist st ! last (s # vs)") simp_all
      then show ?thesis by (cases x) simp_all
    qed
    then show ?thesis using b None by simp
  next
    case (Some d)
    have d: "d < ?k" "d \<noteq> s" "c = bf_dist st ! d" "c < PInf"
      and least: "\<And>v. v < ?k \<Longrightarrow> v \<noteq> s \<Longrightarrow> \<not> bf_dist st ! v < c"
      using best_dest_correct [of "bf_dist st" s] unfolding b Some I(1) prod.case option.case
      by blast+
    obtain ps where ps: "chain (bf_pred st) s d ps" using traces_chain I(8) [OF d(1)] d(3,4) by blast
    obtain vs x where vs: "d # ps = rev (s # vs)" "vs \<noteq> []" "distinct (s # vs)" "\<forall>v \<in> set vs. v < ?k"
      "last (s # vs) = d" "walk_cost ?cost 0 s vs = Some x" "x \<le> bf_dist st ! d"
      "trace_path (bf_pred st) s ?k d [d] = Some (rev (s # vs))"
      by (rule chain_path [OF ok inv ps d(1,2)])
    have "x = c" using best(1) [OF vs(6)] vs(5,7) d(3) f64_le_antisym by simp
    moreover have "close_path (bf_dist st) s d (rev (s # vs)) = Some (rev (s # vs))"
      by (simp add: close_path_def)
    moreover have "c \<le> x'" if "walk_cost ?cost 0 s us = Some x'" "last (s # us) \<noteq> s" for us x'
    proof -
      have "\<not> bf_dist st ! last (s # us) < c" using least best(2) [OF that(1)] that(2) by simp
      moreover have "bf_dist st ! last (s # us) \<noteq> NaN" "c \<noteq> NaN"
        using best(1) [OF that(1)] d(4) f64_le_not_NaN f64_less_not_NaN by blast+
      ultimately have "c \<le> bf_dist st ! last (s # us)" using f64_not_less by simp
      then show ?thesis using best(1) [OF that(1)] f64_le_trans by simp
    qed
    ultimately show ?thesis using b Some vs(2-4,6,8) by auto
  qed
qed

section \<open>The search over agents\<close>

text \<open>A network in which every agent advertises sane capabilities, and a usable cost model.\<close>

definition network_ok :: "agent_graph \<Rightarrow> bool" where
  "network_ok g \<longleftrightarrow> graph_wf g \<and> (\<forall>n \<in> set (g_nodes g). \<forall>c \<in> set (an_capabilities n). cap_ok c)"

definition model_ok :: "cost_model \<Rightarrow> bool" where
  "model_ok cm \<longleftrightarrow> 0 \<le> cost_ref cm"

lemma node_cap_ok:
  "network_ok g \<Longrightarrow> graph_node g i = Some n \<Longrightarrow> capability_for n t = Some c \<Longrightarrow> cap_ok c"
  using find_capability [of n t c] nth_mem [of i "g_nodes g"]
  by (auto simp: network_ok_def graph_node_def vec_at_def split: if_splits)

text \<open>The cost of the hop from agent \<open>i\<close> to agent \<open>j\<close>, among the given agents.\<close>

definition hop_cost ::
  "agent_graph \<Rightarrow> nat list \<Rightarrow> task_type \<Rightarrow> cost_model \<Rightarrow> cost_weights \<Rightarrow> edge_costs" where
  "hop_cost g agents t cm w i j =
     (if i \<in> set agents \<and> j \<in> set agents then do {
        lat \<leftarrow> transfer_latency g i j;
        node \<leftarrow> graph_node g j;
        cap \<leftarrow> capability_for node t;
        scalar_edge_cost cm cap lat w
      } else None)"

lemma local_cost_hop:
  "u < length agents \<Longrightarrow> v < length agents \<Longrightarrow>
   local_cost g agents t cm w u v = hop_cost g agents t cm w (agents ! u) (agents ! v)"
  by (simp add: local_cost_def hop_cost_def)

lemma walk_local_hop:
  "u < length agents \<Longrightarrow> \<forall>v \<in> set vs. v < length agents \<Longrightarrow>
   walk_cost (local_cost g agents t cm w) a u vs =
   walk_cost (hop_cost g agents t cm w) a (agents ! u) (map (\<lambda>l. agents ! l) vs)"
  by (induction vs arbitrary: u a) (simp_all add: local_cost_hop cong: Option.bind_cong)

lemma walk_hop_agents:
  "walk_cost (hop_cost g agents t cm w) a i path = Some x \<Longrightarrow>
   \<exists>vs. path = map (\<lambda>l. agents ! l) vs \<and> (\<forall>v \<in> set vs. v < length agents)"
proof (induction path arbitrary: i a)
  case Nil
  then show ?case by simp
next
  case (Cons j path)
  then obtain c where c: "hop_cost g agents t cm w i j = Some c"
    "walk_cost (hop_cost g agents t cm w) (a + c) j path = Some x"
    by (auto simp: bind_eq_Some_conv)
  obtain v where "v < length agents" "agents ! v = j"
    using c(1) by (auto simp: hop_cost_def in_set_conv_nth split: if_splits)
  moreover obtain vs where "path = map (\<lambda>l. agents ! l) vs" "\<forall>v \<in> set vs. v < length agents"
    using Cons.IH [OF c(2)] by blast
  ultimately show ?case by (intro exI [of _ "v # vs"]) simp
qed

lemma scalar_edge_cost_wf: "scalar_edge_cost cm cap l w = Some x \<Longrightarrow> f64_wf x"
  by (auto simp: scalar_edge_cost_def bind_eq_Some_conv Let_def)

lemma sane_search_ok:
  assumes "network_ok g" "model_ok cm" "weights_ok w" "distinct agents"
  shows "search_ok g agents t cm w"
proof -
  have "u < length agents \<and> v < length agents \<and> 0 \<le> c \<and> f64_wf c"
    if "local_cost g agents t cm w u v = Some c" for u v c
  proof -
    from that obtain lat node cap where h: "u < length agents" "v < length agents"
      "graph_node g (agents ! v) = Some node" "capability_for node t = Some cap"
      "scalar_edge_cost cm cap lat w = Some c"
      by (fastforce simp: local_cost_def bind_eq_Some_conv split: if_splits)
    have "0 \<le> cost_ref cm" using assms(2) by (simp add: model_ok_def)
    then have "0 \<le> c"
      using scalar_edge_cost_nonneg [OF assms(3) node_cap_ok [OF assms(1) h(3,4)] _ h(5)] by simp
    then show ?thesis using h scalar_edge_cost_wf by blast
  qed
  then show ?thesis using assms(1,4) by (simp add: search_ok_def costs_ok_def network_ok_def)
qed

lemma walk_to_local:
  assumes "distinct agents" "s < length agents" "agents ! s = source"
    and "walk_cost (hop_cost g agents t cm w) 0 source hops = Some x"
  shows "\<exists>vs. walk_cost (local_cost g agents t cm w) 0 s vs = Some x
    \<and> (last (s # vs) = s \<longleftrightarrow> last (source # hops) = source)"
proof -
  obtain vs where vs: "hops = map (\<lambda>l. agents ! l) vs" "\<forall>v \<in> set vs. v < length agents"
    using walk_hop_agents [OF assms(4)] by blast
  have l: "last (source # hops) = agents ! last (s # vs)" "last (s # vs) < length agents"
    using vs assms(2,3) by (cases vs rule: rev_cases; simp)+
  have "last (s # vs) = s \<longleftrightarrow> last (source # hops) = source"
    using nth_eq_iff_index_eq [OF assms(1) l(2) assms(2)] unfolding l(1) assms(3) by simp
  moreover have "walk_cost (local_cost g agents t cm w) 0 s vs = Some x"
    unfolding walk_local_hop [OF assms(2) vs(2)] assms(3) vs(1) [symmetric] by (rule assms(4))
  ultimately show ?thesis by blast
qed

lemma unknown_source:
  assumes "distinct agents" "source \<notin> set agents"
  shows "global_to_local agents source = None"
proof -
  have "global_to_local agents source \<noteq> Some l" for l
    using assms(2) local_index [OF assms(1), of source l] by auto
  then show ?thesis by (cases "global_to_local agents source") blast+
qed

text \<open>
  C2. Bellman-Ford is right in floating point: on a network of sane capabilities, when the search
  from an agent returns a path, the path is simple, starts at that agent, runs over edges between
  capable agents to another agent, its cost added up in \<open>f64\<close> along the path is the reported
  one, and no walk to any other agent has a smaller cost; when it returns nothing, the agent is
  not capable or no other agent is reachable at finite cost. (Costs that are not negative are
  enough; the result is neither weakened by rounding nor by the early exit.)
\<close>

theorem bellman_ford_shortest:
  assumes "network_ok g" and "model_ok cm" and "weights_ok w" and "distinct agents"
    and "bellman_ford_single g agents t source w cm = Some r"
  shows "(case r of
      Some (path, c) \<Rightarrow> (\<exists>hops. path = source # hops \<and> hops \<noteq> [] \<and> distinct path
          \<and> set path \<subseteq> set agents
          \<and> walk_cost (hop_cost g agents t cm w) 0 source hops = Some c)
        \<and> (\<forall>hops x. walk_cost (hop_cost g agents t cm w) 0 source hops = Some x
            \<longrightarrow> last (source # hops) \<noteq> source \<longrightarrow> c \<le> x)
    | None \<Rightarrow> source \<notin> set agents
        \<or> (\<forall>hops x. walk_cost (hop_cost g agents t cm w) 0 source hops = Some x
            \<longrightarrow> last (source # hops) \<noteq> source \<longrightarrow> x = PInf))"
proof (cases "source \<in> set agents")
  case False
  then have "global_to_local agents source = None" by (rule unknown_source [OF assms(4)])
  then show ?thesis using False assms(5) by (auto simp: bellman_ford_single_def Let_def split: if_splits)
next
  case True
  let ?k = "length agents" and ?hop = "hop_cost g agents t cm w"
  note ok = sane_search_ok [OF assms(1-4), of t]
  obtain s where s: "s < ?k" "agents ! s = source" using True by (auto simp: in_set_conv_nth)
  then have g2l: "global_to_local agents source = Some s" using local_index [OF assms(4)] by simp
  have "?k \<noteq> 0" using True by auto
  then obtain st where st: "bf_rounds g (global_to_local agents) t cm w agents (?k - 1) (bf_init ?k s) = Some st"
    using assms(5) g2l by (auto simp: bellman_ford_single_def Let_def bind_eq_Some_conv)
  note main = local_search_correct [OF ok s(1) st]
  note walks = walk_to_local [OF assms(4) s]
  obtain b c where b: "best_dest s (bf_dist st) = (b, c)" by fastforce
  show ?thesis
  proof (cases b)
    case None
    then have r: "r = None"
      using assms(5) g2l st b \<open>?k \<noteq> 0\<close> by (simp add: bellman_ford_single_def Let_def)
    have "x = PInf" if w: "walk_cost ?hop 0 source hops = Some x" "last (source # hops) \<noteq> source"
      for hops x
      using walks [OF w(1)] w(2) main unfolding b None prod.case option.case by blast
    then show ?thesis using r by simp
  next
    case (Some d)
    obtain vs where vs: "vs \<noteq> []" "distinct (s # vs)" "\<forall>v \<in> set vs. v < ?k"
      "walk_cost (local_cost g agents t cm w) 0 s vs = Some c"
      "trace_path (bf_pred st) s ?k d [d] = Some (rev (s # vs))"
      "close_path (bf_dist st) s d (rev (s # vs)) = Some (rev (s # vs))"
      and least: "\<And>vs x. walk_cost (local_cost g agents t cm w) 0 s vs = Some x \<Longrightarrow>
         last (s # vs) \<noteq> s \<Longrightarrow> c \<le> x"
      using main unfolding b Some prod.case option.case by blast
    let ?hops = "map (\<lambda>l. agents ! l) vs"
    have r: "r = Some (source # ?hops, c)"
      using assms(5) g2l st b Some vs(5,6) s(2) \<open>?k \<noteq> 0\<close>
      by (simp add: bellman_ford_single_def Let_def)
    have "inj_on (\<lambda>l. agents ! l) (set (s # vs))"
      using vs(3) s(1) assms(4) by (intro inj_onI) (auto simp: nth_eq_iff_index_eq)
    then have "distinct (map (\<lambda>l. agents ! l) (s # vs))" using vs(2) distinct_map by blast
    moreover have "set (map (\<lambda>l. agents ! l) (s # vs)) \<subseteq> set agents" using vs(3) s(1) by auto
    moreover have "walk_cost ?hop 0 source ?hops = Some c"
      using walk_local_hop [OF s(1) vs(3)] vs(4) s(2) by simp
    moreover have "c \<le> x" if w: "walk_cost ?hop 0 source hops = Some x" "last (source # hops) \<noteq> source"
      for hops x
      using walks [OF w(1)] w(2) least by blast
    ultimately show ?thesis using r vs(1) s(2) by auto
  qed
qed

text \<open>Two agents that know each other.\<close>

definition pair_graph :: agent_graph where
  "pair_graph = \<lparr>g_nodes =
       [\<lparr>an_id = AgentId 1, an_capabilities = [cap_example], an_available = True, an_trust_score = 1\<rparr>,
        \<lparr>an_id = AgentId 2, an_capabilities = [cap_example], an_available = True, an_trust_score = 1\<rparr>],
     g_adjacency = [[\<lparr>e_from = 0, e_to = 1, e_transfer_latency = 5000000\<rparr>],
        [\<lparr>e_from = 1, e_to = 0, e_transfer_latency = 5000000\<rparr>]],
     g_id_to_index = [AgentId 1 \<mapsto> 0, AgentId 2 \<mapsto> 1]\<rparr>"

lemma pair_graph_run:
  "graph_run [AddAgent (AgentId 1) [cap_example] 1, AddAgent (AgentId 2) [cap_example] 1,
     AddBidiEdge (AgentId 1) (AgentId 2) 5000000] graph_new = Some pair_graph"
  by (simp add: graph_new_def add_agent_def add_bidi_edge_def add_edge_def vec_modify_def
      push_new_edge_def pair_graph_def)

lemma pair_graph_ok: "network_ok pair_graph"
proof -
  have "graph_wf pair_graph"
    using graph_run_correct [OF graph_new_wf] pair_graph_run by (metis option.inject)
  then show ?thesis by (simp add: network_ok_def cap_example_ok) (simp add: pair_graph_def cap_example_ok)
qed

lemma default_model_ok: "model_ok default_cost_model"
  by (simp add: model_ok_def default_cost_model_def f64_zero_one_Fin)

text \<open>Weights under which only quality counts: each hop costs one half.\<close>

lemma pair_search:
  "bellman_ford_single pair_graph [0, 1] Analysis 0 (cost_weights_new 1 0 0) default_cost_model
     = Some (Some ([0, 1], Fin (1 / 2)))"
proof -
  have lat: "105000000 \<le> DURATION_MAX" by (simp add: DURATION_MAX_def NANOS_PER_SEC_def)
  have l: "0 * f64_min x (to_f64 2) = 0" if "0 \<le> f64_min x (to_f64 2) \<and> is_finite (f64_min x (to_f64 2))"
    for x
    using that by (cases "f64_min x (to_f64 2)")
      (auto simp: f64_zero_one_Fin is_finite_def to_f64_exact)
  have half: "exact (1 / 2)" using exact_frac [of 1 1] by simp
  have cost: "scalar_edge_cost default_cost_model cap_example 5000000 (cost_weights_new 1 0 0)
      = Some (Fin (1 / 2))"
    using lat l [of "as_secs_f64 105000000 / as_secs_f64 (from_secs 10)"] l [of "1 / 1"]
      nonneg_ratio_min [OF as_secs_f64_nonneg as_secs_f64_nonneg, of 105000000 "from_secs 10"]
      nonneg_ratio_min [of 1 1] half
    by (simp add: scalar_edge_cost_def cap_example_def from_millis_def dur_add_def
        default_cost_model_def cost_weights_new_def Let_def clamp_def f64_zero_one_Fin
        minus_f64_def to_f64_exact)
  have node: "capability_for \<lparr>an_id = a, an_capabilities = [cap_example], an_available = True,
      an_trust_score = x\<rparr> Analysis = Some cap_example" for a x
    by (simp add: capability_for_def cap_example_def)
  have one: "to_f64 1 = Fin 1" by (simp add: to_f64_exact)
  show ?thesis
    using half
    by (simp add: bellman_ford_single_def Let_def global_to_local_def bf_init_def relax_edge_def
        pair_graph_def edges_from_def vec_at_def graph_node_def node
        cost [unfolded f64_zero_one_Fin] relax_cost_def
        best_dest_def best_dest_step_def trace_path.simps close_path_def f64_zero_one_Fin
        to_f64_exact one)
qed

theorem bellman_ford_shortest_witness:
  "walk_cost (hop_cost pair_graph [0, 1] Analysis default_cost_model (cost_weights_new 1 0 0)) 0 0 [1]
     = Some (Fin (1 / 2))"
proof -
  have w: "weights_ok (cost_weights_new 1 0 0)"
    using sample_weights_ok by (simp add: pareto_sample_vectors_def)
  show ?thesis
    using bellman_ford_shortest [OF pair_graph_ok default_model_ok w _ pair_search] by auto
qed

end
