(* ===== verification/Router.thy ===== *)
theory Router
  imports Patterns Optimizer Shortest_Path
begin

text \<open>
  The economic router of \<open>atp-routing\<close> (\<open>lib.rs\<close>): the graph operations it forwards, the search for
  one route and for several. The order in which the optimizer's \<open>HashMap\<close> yields its values is
  \<open>ord\<close>, a function of the results and of the call; \<open>orders_ok\<close> says that it lists the keys.
\<close>

record economic_router =
  er_graph :: agent_graph
  er_cost_model :: cost_model
  er_config :: routing_config

type_synonym table_order = "nat \<Rightarrow> bf_result list \<Rightarrow> nat list list"

definition orders_ok :: "table_order \<Rightarrow> bool" where
  "orders_ok ord \<longleftrightarrow> (\<forall>i rs. iterates (ord i rs) (unique_results rs))"

definition router_new :: "agent_graph \<Rightarrow> economic_router" where
  "router_new g = \<lparr>er_graph = g, er_cost_model = default_cost_model,
     er_config = default_routing_config\<rparr>"

definition router_with_config ::
  "agent_graph \<Rightarrow> cost_model \<Rightarrow> routing_config \<Rightarrow> economic_router" where
  "router_with_config g cm cfg = \<lparr>er_graph = g, er_cost_model = cm, er_config = cfg\<rparr>"

definition router_add_agent ::
  "economic_router \<Rightarrow> agent_id \<Rightarrow> capability list \<Rightarrow> f64 \<Rightarrow> (economic_router \<times> nat) option" where
  "router_add_agent er a caps trust = do {
     (g, idx) \<leftarrow> add_agent (er_graph er) a caps trust;
     Some (er\<lparr>er_graph := g\<rparr>, idx)
   }"

definition router_connect ::
  "economic_router \<Rightarrow> agent_id \<Rightarrow> agent_id \<Rightarrow> duration \<Rightarrow> economic_router option" where
  "router_connect er a b lat = do {
     g \<leftarrow> add_bidi_edge (er_graph er) a b lat; Some (er\<lparr>er_graph := g\<rparr>) }"

definition router_fully_connect :: "economic_router \<Rightarrow> duration \<Rightarrow> economic_router option" where
  "router_fully_connect er lat = do {
     g \<leftarrow> fully_connect (er_graph er) lat; Some (er\<lparr>er_graph := g\<rparr>) }"

definition router_remove_agent :: "economic_router \<Rightarrow> agent_id \<Rightarrow> economic_router option" where
  "router_remove_agent er a = do {
     g \<leftarrow> set_unavailable (er_graph er) a; Some (er\<lparr>er_graph := g\<rparr>) }"

definition router_restore_agent :: "economic_router \<Rightarrow> agent_id \<Rightarrow> economic_router option" where
  "router_restore_agent er a = do {
     g \<leftarrow> set_available (er_graph er) a; Some (er\<lparr>er_graph := g\<rparr>) }"

text \<open>The Bellman-Ford route, as in the fallback and in the explicit pipeline pattern.\<close>

definition bf_route ::
  "economic_router \<Rightarrow> (bf_result list \<Rightarrow> nat list list) \<Rightarrow> task_type \<Rightarrow> qos_constraints \<Rightarrow>
   stamp \<Rightarrow> (routing_error + route) option" where
  "bf_route er ord t q stamp = do {
     r \<leftarrow> multi_objective_bellman_ford (er_graph er) t (min_trust q) (er_cost_model er);
     Some (res_bind r (\<lambda>results.
       let weights = weights_from_constraints q
       in res_bind (select_top_routes (ord results) results q weights (er_cost_model er) 1) (\<lambda>best_routes.
            case best_routes of
              [] \<Rightarrow> Inl NoFeasibleRoute
            | best # _ \<Rightarrow>
                Inr (make_route stamp Pipeline (path_to_agent_ids (er_graph er) (pr_path best))
                  (pr_metrics best) (cfg_route_ttl (er_config er))))))
   }"

definition try_pattern ::
  "economic_router \<Rightarrow> (bf_result list \<Rightarrow> nat list list) \<Rightarrow> routing_pattern \<Rightarrow> task_type \<Rightarrow>
   qos_constraints \<Rightarrow> stamp \<Rightarrow> (routing_error + route) option" where
  "try_pattern er ord p t q stamp =
     (let g = er_graph er; cm = er_cost_model er; ttl = cfg_route_ttl (er_config er)
      in case p of
           DraftRefine \<Rightarrow> draft_refine g t q cm ttl stamp
         | ParallelMerge \<Rightarrow> parallel_merge g t q cm ttl 3 stamp
         | Cascade \<Rightarrow> cascade g t q cm ttl (to_f64 (7 / 10)) stamp
         | Ensemble \<Rightarrow> ensemble g t q cm ttl 3 stamp
         | Pipeline \<Rightarrow> bf_route er ord t q stamp)"

definition find_route ::
  "economic_router \<Rightarrow> table_order \<Rightarrow> task_type \<Rightarrow> qos_constraints \<Rightarrow> routing_pattern option \<Rightarrow>
   stamp \<Rightarrow> (routing_error + route) option" where
  "find_route er ord t q preferred stamp =
     (case graph_validate (er_graph er) of
        Inl e \<Rightarrow> Some (Inl e)
      | Inr _ \<Rightarrow>
          (let auto = or_else
                 (auto_select_pattern (er_graph er) t q (er_cost_model er)
                   (cfg_route_ttl (er_config er)) stamp)
                 (bf_route er (ord 1) t q stamp)
           in case preferred of
                None \<Rightarrow> auto
              | Some p \<Rightarrow> or_else (try_pattern er (ord 0) p t q stamp) auto))"

definition ok_routes :: "routing_error + route \<Rightarrow> route list" where
  "ok_routes r = (case r of Inl _ \<Rightarrow> [] | Inr x \<Rightarrow> [x])"

definition collect_pattern_routes ::
  "economic_router \<Rightarrow> task_type \<Rightarrow> qos_constraints \<Rightarrow> (nat \<Rightarrow> stamp) \<Rightarrow> route list option" where
  "collect_pattern_routes er t q stamps = do {
     let g = er_graph er; let cm = er_cost_model er; let ttl = cfg_route_ttl (er_config er);
     r1 \<leftarrow> draft_refine g t q cm ttl (stamps 0);
     r2 \<leftarrow> parallel_merge g t q cm ttl 3 (stamps 1);
     r3 \<leftarrow> cascade g t q cm ttl (to_f64 (7 / 10)) (stamps 2);
     r4 \<leftarrow> ensemble g t q cm ttl 3 (stamps 3);
     Some (ok_routes r1 @ ok_routes r2 @ ok_routes r3 @ ok_routes r4)
   }"

text \<open>The Bellman-Ford candidates of \<open>find_routes\<close>; an error of the search is ignored.\<close>

definition bf_routes ::
  "economic_router \<Rightarrow> (bf_result list \<Rightarrow> nat list list) \<Rightarrow> task_type \<Rightarrow> qos_constraints \<Rightarrow>
   (nat \<Rightarrow> stamp) \<Rightarrow> route list option" where
  "bf_routes er ord t q stamps = do {
     r \<leftarrow> multi_objective_bellman_ford (er_graph er) t (min_trust q) (er_cost_model er);
     Some (case r of
         Inl _ \<Rightarrow> []
       | Inr results \<Rightarrow>
           (let weights = weights_from_constraints q
            in case select_top_routes (ord results) results q weights (er_cost_model er)
                      (cfg_max_routes (er_config er)) of
                 Inl _ \<Rightarrow> []
               | Inr best_routes \<Rightarrow> map (\<lambda>(j, pr). make_route (stamps j) Pipeline
                   (path_to_agent_ids (er_graph er) (pr_path pr)) (pr_metrics pr)
                   (cfg_route_ttl (er_config er))) (enumerate 4 best_routes)))
   }"

definition find_routes ::
  "economic_router \<Rightarrow> (bf_result list \<Rightarrow> nat list list) \<Rightarrow> task_type \<Rightarrow> qos_constraints \<Rightarrow>
   (nat \<Rightarrow> stamp) \<Rightarrow> (routing_error + route list) option" where
  "find_routes er ord t q stamps =
     (case graph_validate (er_graph er) of
        Inl e \<Rightarrow> Some (Inl e)
      | Inr _ \<Rightarrow> do {
          pattern_routes \<leftarrow> collect_pattern_routes er t q stamps;
          pipeline_routes \<leftarrow> bf_routes er ord t q stamps;
          let all_routes = pattern_routes @ pipeline_routes;
          Some (if all_routes = [] then Inl NoFeasibleRoute
            else (let weights = weights_from_constraints q;
                      price = (\<lambda>r. scalar_route_cost (er_cost_model er) (route_metrics r) weights);
                      sorted = sort_by (\<lambda>a b. price a < price b) all_routes;
                      deduped = retain_first route_agents {} sorted
                  in Inr (take (cfg_max_routes (er_config er)) deduped)))
        })"

section \<open>The search without trust in the adverts\<close>

text \<open>
  What holds of a search whatever costs the adverts imply, NaN, negative or infinite: the
  predecessors of a reached agent are reached agents.
\<close>

definition reached_inv :: "nat \<Rightarrow> nat \<Rightarrow> bf_state \<Rightarrow> bool" where
  "reached_inv k s st \<longleftrightarrow> length (bf_dist st) = k \<and> length (bf_pred st) = k
     \<and> (\<forall>v < k. bf_dist st ! v < PInf \<longrightarrow> v \<noteq> s \<longrightarrow> bf_pred st ! v \<noteq> None)
     \<and> (\<forall>v < k. \<forall>u. bf_pred st ! v = Some u \<longrightarrow> u < k \<and> bf_dist st ! u < PInf)"

lemma reached_init: "s < k \<Longrightarrow> reached_inv k s (bf_init k s)"
  by (auto simp: reached_inv_def bf_init_def nth_list_update)

lemma sum_less_reached: "(a::f64) + c < b \<Longrightarrow> a < PInf"
  by (cases a; cases c; cases b) auto

lemma reached_relax:
  assumes "reached_inv k s st" "u < k"
  shows "reached_inv k s (relax_cost u v c st)"
proof (cases "bf_dist st ! u + c < bf_dist st ! v")
  case False
  then show ?thesis using assms(1) by (simp add: relax_cost_def Let_def)
next
  case True
  let ?d = "bf_dist st ! u + c"
  have fin: "?d < PInf" "bf_dist st ! u < PInf"
    using True f64_less_not_NaN [OF True] f64_less_le_trans [OF True] f64_le_PInf sum_less_reached
    by blast+
  have le: "(bf_dist st)[v := ?d] ! x < PInf" if "bf_dist st ! x < PInf" for x
    using that fin(1) by (cases "x = v"; cases "v < length (bf_dist st)") (simp_all add: list_update_beyond)
  let ?D = "(bf_dist st)[v := ?d]" and ?P = "(bf_pred st)[v := Some u]"
  have len: "length (bf_dist st) = k" "length (bf_pred st) = k"
    using assms(1) by (simp_all add: reached_inv_def)
  have a: "?P ! x \<noteq> None" if x: "x < k" "?D ! x < PInf" "x \<noteq> s" for x
  proof (cases "x = v")
    case False
    then have "bf_dist st ! x < PInf" "?P ! x = bf_pred st ! x" using x(2) by simp_all
    then show ?thesis using assms(1) x(1,3) by (simp add: reached_inv_def)
  qed (use x len in simp)
  have b: "y < k \<and> ?D ! y < PInf" if y: "x < k" "?P ! x = Some y" for x y
  proof (cases "x = v")
    case True
    then have "y = u" using y len by simp
    then show ?thesis using assms(2) le [OF fin(2)] by simp
  next
    case False
    then have "bf_pred st ! x = Some y" using y(2) by simp
    then have "y < k" "bf_dist st ! y < PInf" using assms(1) y(1) unfolding reached_inv_def by blast+
    then show ?thesis using le by simp
  qed
  have "relax_cost u v c st = \<lparr>bf_dist = ?D, bf_pred = ?P, bf_updated = True\<rparr>"
    using True by (simp add: relax_cost_def Let_def)
  then show ?thesis unfolding reached_inv_def using len a b by simp
qed

lemma reached_flag [simp]: "reached_inv k s (st\<lparr>bf_updated := b\<rparr>) = reached_inv k s st"
  by (simp add: reached_inv_def)

lemma reached_edges:
  "reached_inv k s st \<Longrightarrow> u < k \<Longrightarrow> relax_edges g g2l t cm w u es st = Some st' \<Longrightarrow>
   reached_inv k s st'"
proof (induction es arbitrary: st)
  case (Cons e es)
  then obtain st1 where st1: "relax_edge g g2l t cm w u st e = Some st1"
    "relax_edges g g2l t cm w u es st1 = Some st'" by (auto simp: bind_eq_Some_conv)
  have "st1 = st \<or> (\<exists>v c. st1 = relax_cost u v c st)"
    using st1(1) by (auto simp: relax_edge_def bind_eq_Some_conv split: option.splits)
  then have "reached_inv k s st1" using Cons.prems(1,2) reached_relax by blast
  then show ?case using Cons.IH Cons.prems(2) st1(2) by blast
qed simp

lemma reached_agents:
  assumes "\<And>x l. g2l x = Some l \<Longrightarrow> l < k"
  shows "reached_inv k s st \<Longrightarrow> relax_agents g g2l t cm w us st = Some st' \<Longrightarrow> reached_inv k s st'"
proof (induction us arbitrary: st)
  case (Cons a us)
  obtain u where u: "g2l a = Some u" using Cons.prems(2) by (auto split: option.splits)
  show ?case
  proof (cases "bf_dist st ! u = PInf")
    case True
    then show ?thesis using Cons u by simp
  next
    case False
    then obtain st1 where st1: "relax_edges g g2l t cm w u (edges_from g a) st = Some st1"
      "relax_agents g g2l t cm w us st1 = Some st'"
      using Cons.prems(2) u by (auto simp: bind_eq_Some_conv)
    have "reached_inv k s st1" by (rule reached_edges [OF Cons.prems(1) assms [OF u] st1(1)])
    then show ?thesis using Cons.IH st1(2) by blast
  qed
qed simp

lemma reached_rounds:
  assumes "\<And>x l. g2l x = Some l \<Longrightarrow> l < k"
  shows "reached_inv k s st \<Longrightarrow> bf_rounds g g2l t cm w agents n st = Some st' \<Longrightarrow> reached_inv k s st'"
proof (induction n arbitrary: st)
  case (Suc n)
  then obtain st1 where st1: "relax_agents g g2l t cm w agents (st\<lparr>bf_updated := False\<rparr>) = Some st1"
    "(if bf_updated st1 then bf_rounds g g2l t cm w agents n st1 else Some st1) = Some st'"
    by (auto simp: bind_eq_Some_conv)
  have "reached_inv k s (st\<lparr>bf_updated := False\<rparr>)" using Suc.prems(1) by simp
  from reached_agents [OF assms this st1(1)] have r: "reached_inv k s st1" .
  then show ?case using Suc.IH st1(2) by (auto split: if_splits)
qed simp

lemma trace_reached:
  assumes "reached_inv k s st" "trace_path (bf_pred st) s k v acc = Some path"
    and "v < k" "v \<noteq> s" "bf_dist st ! v < PInf"
  shows "\<exists>ps. path = acc @ ps \<and> chain (bf_pred st) s v ps \<and> (\<forall>x \<in> set ps. x < k \<or> x = s)"
  using assms(2-5)
proof (induction "Suc k - length acc" arbitrary: v acc rule: less_induct)
  case less
  obtain u where u: "bf_pred st ! v = Some u" "u < k" "bf_dist st ! u < PInf"
    using less.prems(2-4) assms(1) unfolding reached_inv_def by blast
  show ?case
  proof (cases "u = s")
    case True
    have "chain (bf_pred st) s v [s]"
      using chain_step [OF less.prems(3), of "bf_pred st" s] u(1) True chain_source by blast
    moreover have "path = acc @ [s]"
      using less.prems(1) u(1) True by (subst (asm) trace_path.simps) simp
    ultimately show ?thesis by (intro exI [of _ "[s]"]) simp
  next
    case False
    then have t: "trace_path (bf_pred st) s k u (acc @ [u]) = Some path" "\<not> k < length (acc @ [u])"
      using less.prems(1) u(1) by (subst (asm) trace_path.simps, simp split: if_splits)+
    have "Suc k - length (acc @ [u]) < Suc k - length acc" using t(2) by simp
    from less.hyps [OF this t(1) u(2) False u(3)] obtain ps where
      ps: "path = (acc @ [u]) @ ps" "chain (bf_pred st) s u ps" "\<forall>x \<in> set ps. x < k \<or> x = s"
      by blast
    then have "chain (bf_pred st) s v (u # ps)"
      using chain_step [OF less.prems(3) u(1)] by blast
    then show ?thesis using ps u(2) by (intro exI [of _ "u # ps"]) simp
  qed
qed

text \<open>Any path a search returns is simple and runs over the given agents, from the source.\<close>

lemma search_path:
  assumes "distinct agents" "bellman_ford_single g agents t source w cm = Some (Some (path, c))"
  shows "distinct path \<and> set path \<subseteq> set agents \<and> hd path = source \<and> 2 \<le> length path"
proof -
  let ?k = "length agents"
  have k0: "?k \<noteq> 0"
  proof
    assume "?k = 0"
    then show False using assms(2) by (simp add: bellman_ford_single_def)
  qed
  obtain s where s: "global_to_local agents source = Some s"
    using assms(2) by (auto simp: bellman_ford_single_def Let_def split: if_splits option.splits)
  obtain st where st: "bf_rounds g (global_to_local agents) t cm w agents (?k - 1) (bf_init ?k s) = Some st"
    using assms(2) s k0 by (auto simp: bellman_ford_single_def Let_def bind_eq_Some_conv)
  obtain b c' where b: "best_dest s (bf_dist st) = (b, c')" by fastforce
  have r: "(case b of None \<Rightarrow> None | Some d \<Rightarrow>
       Option.bind (trace_path (bf_pred st) s ?k d [d]) (\<lambda>path.
         Option.bind (close_path (bf_dist st) s d path) (\<lambda>path.
           Some (map (\<lambda>l. agents ! l) (rev path), c')))) = Some (path, c)"
    using assms(2) s st b k0 by (simp add: bellman_ford_single_def Let_def)
  then obtain d where bd: "b = Some d" by (cases b) simp_all
  note d = b [unfolded bd] and path = r [unfolded bd option.case]
  have sk: "s < ?k" "agents ! s = source" using local_index [OF assms(1)] s by simp_all
  have inv: "reached_inv ?k s st"
    using reached_rounds [OF _ reached_init [OF sk(1)] st] local_index [OF assms(1)] by blast
  then have len: "length (bf_dist st) = ?k" by (simp add: reached_inv_def)
  have dk: "d < ?k" "d \<noteq> s" "bf_dist st ! d < PInf"
    using best_dest_correct [of "bf_dist st" s] unfolding d len prod.case option.case by auto
  obtain path0 where p0: "trace_path (bf_pred st) s ?k d [d] = Some path0"
    using path by (auto simp: bind_eq_Some_conv)
  obtain ps where ps: "path0 = d # ps" "chain (bf_pred st) s d ps" "\<forall>x \<in> set ps. x < ?k \<or> x = s"
    using trace_reached [OF inv p0 dk] by auto
  have last: "last (d # ps) = s" and dist: "distinct (d # ps)"
    using chain_last [OF ps(2)] chain_distinct [OF ps(2)] by simp_all
  then have path': "path = map (\<lambda>l. agents ! l) (rev (d # ps))"
    using path p0 ps(1) by (simp add: close_path_def)
  have bd: "\<forall>x \<in> set (d # ps). x < ?k" using ps(3) dk(1) sk(1) by auto
  then have "inj_on (\<lambda>l. agents ! l) (set (d # ps))"
    using assms(1) by (intro inj_onI) (auto simp: nth_eq_iff_index_eq)
  then have "distinct path" unfolding path' using dist by (simp add: distinct_map)
  moreover have "set path \<subseteq> set agents" unfolding path' using bd by auto
  moreover have "hd path = source"
    unfolding path' rev_map [symmetric] hd_rev
    by (subst last_map) (simp_all only: last sk(2) list.distinct not_False_eq_True)
  moreover have "ps \<noteq> []" using last dk(2) by auto
  then have "2 \<le> length path" unfolding path' by (cases ps) simp_all
  ultimately show ?thesis by blast
qed

section \<open>What the search yields\<close>

text \<open>A result of the whole search: a simple path over capable agents with its own metrics.\<close>

definition result_ok ::
  "agent_graph \<Rightarrow> task_type \<Rightarrow> f64 \<Rightarrow> cost_model \<Rightarrow> bf_result \<Rightarrow> bool" where
  "result_ok g t mt cm r \<longleftrightarrow> bf_path r \<noteq> [] \<and> distinct (bf_path r)
     \<and> set (bf_path r) \<subseteq> set (capable_agents g t mt)
     \<and> compute_path_metrics g (bf_path r) t cm = Some (Some (bf_metrics r))"

lemma candidate_ok:
  assumes "bf_candidate g (capable_agents g t mt) t cm ws = Some rs" "r \<in> set rs"
  shows "result_ok g t mt cm r"
proof -
  obtain w source where ws: "ws = (w, source)" by (cases ws)
  obtain o1 where o1: "bellman_ford_single g (capable_agents g t mt) t source w cm = Some o1"
    using assms(1) unfolding ws by (auto simp: bf_candidate_def bind_eq_Some_conv)
  then obtain path c where s: "bellman_ford_single g (capable_agents g t mt) t source w cm
      = Some (Some (path, c))"
    using assms unfolding ws by (cases o1) (auto simp: bf_candidate_def)
  then obtain m where m: "compute_path_metrics g path t cm = Some (Some m)"
    and r: "bf_path r = path" "bf_metrics r = m"
    using assms unfolding ws
    by (auto simp: bf_candidate_def bind_eq_Some_conv split: option.splits if_splits)
  show ?thesis
    using search_path [OF capable_agents_distinct s] m r by (auto simp: result_ok_def)
qed

lemma single_metrics:
  assumes "graph_node g i = Some n" "capability_for n t = Some cap"
    and "compute_route_metrics cm [cap] [] = Some m"
  shows "compute_path_metrics g [i] t cm = Some (Some m)"
  using assms by (simp add: compute_path_metrics_def)

lemma single_ok:
  assumes "i \<in> set (capable_agents g t mt)" "graph_node g i = Some n" "capability_for n t = Some cap"
    and "compute_route_metrics cm [cap] [] = Some m" "r \<in> set (single_results cm i m)"
  shows "result_ok g t mt cm r"
  using assms(1,5) single_metrics [OF assms(2-4)] by (auto simp: result_ok_def single_results_def)

lemma collect_options_mem:
  "collect_options f xs = Some ys \<Longrightarrow> y \<in> set ys \<Longrightarrow> \<exists>x \<in> set xs. f x = Some y"
  by (induction xs arbitrary: ys) (auto simp: bind_eq_Some_conv)

lemma search_results_ok:
  assumes "multi_objective_bellman_ford g t mt cm = Some (Inr rs)" "r \<in> set rs"
  shows "result_ok g t mt cm r"
proof (cases "length (capable_agents g t mt) = 1")
  case True
  let ?i = "capable_agents g t mt ! 0"
  have i: "?i \<in> set (capable_agents g t mt)" using True by (intro nth_mem) simp
  have ne: "capable_agents g t mt \<noteq> []" using True by auto
  obtain n cap m where "graph_node g ?i = Some n" "capability_for n t = Some cap"
    "compute_route_metrics cm [cap] [] = Some m" "rs = single_results cm ?i m"
    using assms(1) True ne
    by (auto simp: multi_objective_bellman_ford_def Let_def bind_eq_Some_conv
        split: option.splits if_splits)
  then show ?thesis using single_ok [OF i] assms(2) by blast
next
  case False
  obtain ps ss where ps: "collect_options (bf_candidate g (capable_agents g t mt) t cm)
      (List.product pareto_sample_vectors (capable_agents g t mt)) = Some ps"
    and ss: "collect_options (single_candidates g t cm) (capable_agents g t mt) = Some ss"
    and rs: "rs = concat ps @ concat ss"
    using assms(1) False
    by (auto simp: multi_objective_bellman_ford_def Let_def bind_eq_Some_conv split: if_splits)
  show ?thesis
  proof (cases "r \<in> set (concat ps)")
    case True
    then obtain xs where "xs \<in> set ps" "r \<in> set xs" by auto
    then show ?thesis using collect_options_mem [OF ps] candidate_ok by blast
  next
    case False
    then obtain xs where xs: "xs \<in> set ss" "r \<in> set xs" using rs assms(2) by auto
    then obtain i where i: "i \<in> set (capable_agents g t mt)" "single_candidates g t cm i = Some xs"
      using collect_options_mem [OF ss] by blast
    then obtain n cap m where "graph_node g i = Some n" "capability_for n t = Some cap"
      "compute_route_metrics cm [cap] [] = Some m" "r \<in> set (single_results cm i m)"
      using xs(2) by (auto simp: single_candidates_def bind_eq_Some_conv split: option.splits)
    then show ?thesis using single_ok [OF i(1)] by blast
  qed
qed

lemma search_error:
  assumes "multi_objective_bellman_ford g t mt cm = Some (Inl e)"
  shows "e = NoFeasibleRoute"
proof -
  have "graph_node g (capable_agents g t mt ! 0) \<noteq> None" if "length (capable_agents g t mt) = 1"
  proof -
    have "capable_agents g t mt ! 0 \<in> set (capable_agents g t mt)" using that by (intro nth_mem) simp
    then show ?thesis by (simp add: capable_agents_iff graph_node_def vec_at_def)
  qed
  then show ?thesis
    using assms
    by (auto simp: multi_objective_bellman_ford_def Let_def bind_eq_Some_conv
        split: option.splits if_splits)
qed

lemma path_ids:
  assumes "graph_wf g" "distinct path" "set path \<subseteq> set (capable_agents g t mt)"
  shows "distinct (path_to_agent_ids g path) \<and> length (path_to_agent_ids g path) = length path
    \<and> (\<forall>a \<in> set (path_to_agent_ids g path). eligible g t mt a)"
proof -
  have n: "i < length (g_nodes g)" if "i \<in> set path" for i
    using that assms(3) capable_agents_iff by blast
  then have e: "path_to_agent_ids g path = map (\<lambda>i. an_id (g_nodes g ! i)) path"
    unfolding path_to_agent_ids_def
    by (induction path) (simp_all add: map_filter_simps graph_agent_id_def vec_at_def)
  have idx: "g_id_to_index g (an_id (g_nodes g ! i)) = Some i" if "i \<in> set path" for i
    using graph_wfD(2) [OF assms(1)] n [OF that] by simp
  have "inj_on (\<lambda>i. an_id (g_nodes g ! i)) (set path)"
    by (rule inj_onI) (metis idx option.inject)
  moreover have "eligible g t mt (an_id (g_nodes g ! i))" if i: "i \<in> set path" for i
  proof -
    have "is_capable t mt (g_nodes g ! i)" using i assms(3) capable_agents_iff by blast
    then show ?thesis using idx [OF i] n [OF i] by (simp add: eligible_def node_by_id_def vec_at_def)
  qed
  ultimately show ?thesis unfolding e using assms(2) by (auto simp: distinct_map)
qed

lemma selected_route_sound:
  assumes "graph_wf g" "orders_ok ord"
    and "multi_objective_bellman_ford g t (min_trust q) cm = Some (Inr rs)"
    and "select_top_routes (ord i rs) rs q w cm n = Inr sel" "pr \<in> set sel"
  shows "route_sound g t q cm (make_route stamp Pipeline (path_to_agent_ids g (pr_path pr))
    (pr_metrics pr) ttl)"
proof -
  have it: "iterates (ord i rs) (unique_results rs)" using assms(2) by (simp add: orders_ok_def)
  have "satisfies_constraints cm (pr_metrics pr) q
      \<and> (\<exists>r \<in> set rs. bf_path r = pr_path pr \<and> bf_metrics r = pr_metrics pr)"
    using select_top_routes_spec [OF it, of cm q n w] assms(4,5) by simp
  then obtain r where r: "satisfies_constraints cm (pr_metrics pr) q" "r \<in> set rs"
    "bf_path r = pr_path pr" by blast
  have ok: "result_ok g t (min_trust q) cm r" by (rule search_results_ok [OF assms(3) r(2)])
  then have "pr_path pr \<noteq> []" "distinct (pr_path pr)"
    "set (pr_path pr) \<subseteq> set (capable_agents g t (min_trust q))"
    using r(3) by (simp_all add: result_ok_def)
  then show ?thesis
    using path_ids [OF assms(1), of "pr_path pr" t "min_trust q"] r(1)
    by (auto simp: route_sound_def)
qed

lemma bf_route_Inr:
  assumes "bf_route er ord t q stamp = Some (Inr r)"
  shows "\<exists>rs sel pr. multi_objective_bellman_ford (er_graph er) t (min_trust q) (er_cost_model er)
        = Some (Inr rs)
    \<and> select_top_routes (ord rs) rs q (weights_from_constraints q) (er_cost_model er) 1 = Inr sel
    \<and> pr \<in> set sel
    \<and> r = make_route stamp Pipeline (path_to_agent_ids (er_graph er) (pr_path pr))
        (pr_metrics pr) (cfg_route_ttl (er_config er))"
proof -
  obtain x where x: "multi_objective_bellman_ford (er_graph er) t (min_trust q) (er_cost_model er)
      = Some x" using assms by (auto simp: bf_route_def bind_eq_Some_conv)
  then obtain rs where rs: "x = Inr rs" using assms by (cases x) (simp_all add: bf_route_def)
  obtain sel where sel:
    "select_top_routes (ord rs) rs q (weights_from_constraints q) (er_cost_model er) 1 = Inr sel"
    using assms x rs
    by (cases "select_top_routes (ord rs) rs q (weights_from_constraints q) (er_cost_model er) 1")
      (simp_all add: bf_route_def)
  show ?thesis using assms x rs sel by (cases sel) (auto simp: bf_route_def)
qed

lemma bf_route_sound:
  assumes "graph_wf (er_graph er)" "orders_ok ord" "bf_route er (ord i) t q stamp = Some (Inr r)"
  shows "route_sound (er_graph er) t q (er_cost_model er) r \<and> route_pattern r = Pipeline
    \<and> route_ttl r = cfg_route_ttl (er_config er)"
proof -
  obtain rs sel pr where "multi_objective_bellman_ford (er_graph er) t (min_trust q)
      (er_cost_model er) = Some (Inr rs)"
    "select_top_routes (ord i rs) rs q (weights_from_constraints q) (er_cost_model er) 1 = Inr sel"
    "pr \<in> set sel"
    and r: "r = make_route stamp Pipeline (path_to_agent_ids (er_graph er) (pr_path pr))
      (pr_metrics pr) (cfg_route_ttl (er_config er))"
    using bf_route_Inr [OF assms(3)] by blast
  from selected_route_sound [OF assms(1,2) this(1-3)] show ?thesis unfolding r by simp
qed

lemma try_pattern_sound:
  assumes "graph_wf (er_graph er)" "orders_ok ord"
    and "try_pattern er (ord i) p t q stamp = Some (Inr r)"
  shows "route_sound (er_graph er) t q (er_cost_model er) r \<and> route_pattern r = p"
proof (cases p)
  case DraftRefine
  then show ?thesis using assms(3) draft_refine_sound [OF assms(1)] by (simp add: try_pattern_def Let_def; blast)
next
  case ParallelMerge
  then show ?thesis using assms(3) parallel_merge_sound [OF assms(1)] by (simp add: try_pattern_def Let_def; blast)
next
  case Cascade
  then show ?thesis using assms(3) cascade_sound [OF assms(1)] by (simp add: try_pattern_def Let_def; blast)
next
  case Ensemble
  then show ?thesis using assms(3) ensemble_sound [OF assms(1)] by (simp add: try_pattern_def Let_def; blast)
next
  case Pipeline
  then show ?thesis using assms(3) bf_route_sound [OF assms(1,2)] by (simp add: try_pattern_def Let_def; blast)
qed

lemma find_route_soundness:
  assumes "graph_wf (er_graph er)" "orders_ok ord"
    and "find_route er ord t q p stamp = Some (Inr r)"
  shows "route_sound (er_graph er) t q (er_cost_model er) r"
proof -
  have "auto_select_pattern (er_graph er) t q (er_cost_model er) (cfg_route_ttl (er_config er)) stamp
        = Some (Inr r)
      \<or> bf_route er (ord 1) t q stamp = Some (Inr r)
      \<or> (\<exists>p'. try_pattern er (ord 0) p' t q stamp = Some (Inr r))"
    using assms(3) unfolding find_route_def Let_def
    by (auto split: sum.splits option.splits dest!: or_else_Inr)
  then show ?thesis
    using auto_select_sound [OF assms(1)] bf_route_sound [OF assms(1,2)]
      try_pattern_sound [OF assms(1,2)] by blast
qed

section \<open>Several routes\<close>

lemma ok_routes_mem: "r \<in> set (ok_routes x) \<longleftrightarrow> x = Inr r"
  by (cases x) (auto simp: ok_routes_def)

lemma pattern_routes_collected:
  assumes "graph_wf (er_graph er)" "collect_pattern_routes er t q stamps = Some rs" "r \<in> set rs"
  shows "route_sound (er_graph er) t q (er_cost_model er) r"
proof -
  let ?g = "er_graph er" and ?cm = "er_cost_model er" and ?ttl = "cfg_route_ttl (er_config er)"
  have "draft_refine ?g t q ?cm ?ttl (stamps 0) = Some (Inr r)
      \<or> parallel_merge ?g t q ?cm ?ttl 3 (stamps 1) = Some (Inr r)
      \<or> cascade ?g t q ?cm ?ttl (to_f64 (7 / 10)) (stamps 2) = Some (Inr r)
      \<or> ensemble ?g t q ?cm ?ttl 3 (stamps 3) = Some (Inr r)"
    using assms(2,3)
    by (auto simp: collect_pattern_routes_def Let_def bind_eq_Some_conv ok_routes_mem)
  then show ?thesis
    by (elim disjE) (drule draft_refine_sound [OF assms(1)] parallel_merge_sound [OF assms(1)]
      cascade_sound [OF assms(1)] ensemble_sound [OF assms(1)], simp)+
qed

lemma in_set_enumerate_snd: "(j, x) \<in> set (enumerate n xs) \<Longrightarrow> x \<in> set xs"
  by (auto simp: in_set_enumerate_eq)

lemma bf_routes_sound:
  assumes "graph_wf (er_graph er)" "orders_ok ord" "bf_routes er (ord i) t q stamps = Some rs"
    and "r \<in> set rs"
  shows "route_sound (er_graph er) t q (er_cost_model er) r"
proof -
  obtain x where x: "multi_objective_bellman_ford (er_graph er) t (min_trust q) (er_cost_model er)
      = Some x" using assms(3) by (auto simp: bf_routes_def bind_eq_Some_conv)
  then obtain res where res: "x = Inr res" using assms(3,4) by (cases x) (auto simp: bf_routes_def)
  let ?s = "select_top_routes (ord i res) res q (weights_from_constraints q) (er_cost_model er)
      (cfg_max_routes (er_config er))"
  obtain sel where sel: "?s = Inr sel"
    using assms(3,4) x res by (cases ?s) (auto simp: bf_routes_def Let_def)
  have "rs = map (\<lambda>(j, pr). make_route (stamps j) Pipeline
      (path_to_agent_ids (er_graph er) (pr_path pr)) (pr_metrics pr)
      (cfg_route_ttl (er_config er))) (enumerate 4 sel)"
    using assms(3) x res sel by (simp add: bf_routes_def Let_def)
  then obtain j pr where r: "pr \<in> set sel"
    "r = make_route (stamps j) Pipeline (path_to_agent_ids (er_graph er) (pr_path pr))
      (pr_metrics pr) (cfg_route_ttl (er_config er))"
    using assms(4)
    by (force dest: in_set_enumerate_snd)
  show ?thesis
    unfolding r(2) by (rule selected_route_sound [OF assms(1,2) x [unfolded res] sel r(1)])
qed

text \<open>The routes collected and then priced.\<close>

definition all_candidates ::
  "economic_router \<Rightarrow> (bf_result list \<Rightarrow> nat list list) \<Rightarrow> task_type \<Rightarrow> qos_constraints \<Rightarrow>
   (nat \<Rightarrow> stamp) \<Rightarrow> route list option" where
  "all_candidates er ord t q stamps = do {
     ps \<leftarrow> collect_pattern_routes er t q stamps;
     bs \<leftarrow> bf_routes er ord t q stamps;
     Some (ps @ bs)
   }"

definition route_price :: "economic_router \<Rightarrow> qos_constraints \<Rightarrow> route \<Rightarrow> f64" where
  "route_price er q r =
     scalar_route_cost (er_cost_model er) (route_metrics r) (weights_from_constraints q)"

lemma retained_nonempty: "retain_first key {} (sort_by lt rs) = [] \<longleftrightarrow> rs = []"
proof
  assume "retain_first key {} (sort_by lt rs) = []"
  then show "rs = []" by (cases "sort_by lt rs") simp_all
qed simp

lemma find_routes_spec:
  assumes "graph_wf (er_graph er)" "orders_ok ord"
    and "all_candidates er (ord i) t q stamps = Some all"
    and "graph_validate (er_graph er) = Inr ()"
  shows "(case find_routes er (ord i) t q stamps of
      None \<Rightarrow> False
    | Some (Inl e) \<Rightarrow> e = NoFeasibleRoute \<and> all = []
    | Some (Inr rs) \<Rightarrow> all \<noteq> [] \<and> length rs \<le> cfg_max_routes (er_config er)
        \<and> (rs = [] \<longleftrightarrow> cfg_max_routes (er_config er) = 0)
        \<and> distinct (map route_agents rs)
        \<and> (\<forall>r \<in> set rs. r \<in> set all \<and> route_sound (er_graph er) t q (er_cost_model er) r)
        \<and> ((\<forall>r \<in> set all. route_price er q r \<noteq> NaN) \<longrightarrow>
             sorted_wrt (\<lambda>a b. route_price er q a \<le> route_price er q b) rs
             \<and> (rs \<noteq> [] \<longrightarrow> (\<forall>r \<in> set all. route_price er q (hd rs) \<le> route_price er q r))))"
proof -
  let ?lt = "\<lambda>a b. route_price er q a < route_price er q b"
  let ?n = "cfg_max_routes (er_config er)"
  let ?d = "retain_first route_agents {} (sort_by ?lt all)"
  have run: "find_routes er (ord i) t q stamps
      = Some (if all = [] then Inl NoFeasibleRoute else Inr (take ?n ?d))"
    using assms(3,4)
    by (auto simp: find_routes_def all_candidates_def bind_eq_Some_conv Let_def route_price_def)
  have sound: "route_sound (er_graph er) t q (er_cost_model er) r" if "r \<in> set all" for r
    using assms(3) that pattern_routes_collected [OF assms(1)] bf_routes_sound [OF assms(1,2)]
    by (auto simp: all_candidates_def bind_eq_Some_conv)
  have sub: "set (take ?n ?d) \<subseteq> set all"
    using retain_first_set [of route_agents "{}" "sort_by ?lt all"] set_take_subset by fastforce
  have dist: "distinct (map route_agents (take ?n ?d))"
    using retain_first_distinct distinct_take by (metis take_map)
  have sorted: "sorted_wrt (\<lambda>a b. route_price er q a \<le> route_price er q b) (take ?n ?d)
      \<and> (take ?n ?d \<noteq> [] \<longrightarrow> (\<forall>r \<in> set all. route_price er q (hd (take ?n ?d)) \<le> route_price er q r))"
    if nn: "\<forall>r \<in> set all. route_price er q r \<noteq> NaN"
  proof
    have s: "sorted_wrt (\<lambda>a b. \<not> ?lt b a) (sort_by ?lt all)"
      by (rule strict_weak_order.sort_by_sorted [OF key_ascending nn])
    have "sorted_wrt (\<lambda>a b. route_price er q a \<le> route_price er q b) (sort_by ?lt all)"
      by (rule sorted_wrt_mono_rel [OF _ s]) (use nn f64_not_less in auto)
    then show "sorted_wrt (\<lambda>a b. route_price er q a \<le> route_price er q b) (take ?n ?d)"
      by (intro sorted_wrt_take retain_first_sorted)
    show "take ?n ?d \<noteq> [] \<longrightarrow> (\<forall>r \<in> set all. route_price er q (hd (take ?n ?d)) \<le> route_price er q r)"
    proof (intro impI ballI)
      fix r assume ne: "take ?n ?d \<noteq> []" and r: "r \<in> set all"
      then obtain y ys where y: "sort_by ?lt all = y # ys" by (cases "sort_by ?lt all") auto
      then have "hd (take ?n ?d) = y" using ne by (cases ?n) auto
      moreover have "\<not> ?lt r y"
        by (rule strict_weak_order.sort_by_head [OF key_ascending nn y r])
      moreover have "y \<in> set all" using y by (metis list.set_intros(1) set_sort_by)
      ultimately show "route_price er q (hd (take ?n ?d)) \<le> route_price er q r"
        using nn r f64_not_less by auto
    qed
  qed
  have ne: "take ?n ?d = [] \<longleftrightarrow> ?n = 0" if "all \<noteq> []"
    using that by (simp add: retained_nonempty)
  show ?thesis unfolding run using sub sound dist sorted ne
    by (cases "all = []") (auto simp del: take_eq_Nil)
qed

section \<open>The fallback\<close>

lemma path_parts_head:
  assumes "path_parts g t None (i # is) = Some (caps, ts)"
  shows "\<exists>a cs. agent_info_of g t i = Some a \<and> caps = ai_capability a # cs"
  using assms by (auto simp: agent_info_of_def bind_eq_Some_conv)

lemma path_parts_caps:
  assumes "network_ok g"
  shows "path_parts g t prev path = Some (caps, ts) \<Longrightarrow> \<forall>c \<in> set caps. cap_ok c"
proof (induction path arbitrary: prev caps ts)
  case (Cons i path)
  then obtain n c cs us where "graph_node g i = Some n" "capability_for n t = Some c"
    "path_parts g t (Some i) path = Some (cs, us)" "caps = c # cs"
    by (auto simp: bind_eq_Some_conv)
  then show ?case using Cons.IH node_cap_ok [OF assms] by auto
qed simp

text \<open>A feasible path has a head that is feasible alone.\<close>

lemma head_alone:
  assumes "network_ok g" "result_ok g t mt cm r" "satisfies_constraints cm (bf_metrics r) q"
  shows "\<exists>a \<in> set (extract_agents g t mt). \<exists>m.
    compute_route_metrics cm [ai_capability a] [] = Some m \<and> satisfies_constraints cm m q"
proof -
  obtain i js where p: "bf_path r = i # js" "i \<in> set (capable_agents g t mt)"
    using assms(2) by (cases "bf_path r") (auto simp: result_ok_def)
  have "compute_path_metrics g (i # js) t cm = Some (Some (bf_metrics r))"
    using assms(2) by (simp add: result_ok_def p(1))
  then obtain caps ts where parts: "path_parts g t None (i # js) = Some (caps, ts)"
    "compute_route_metrics cm caps ts = Some (bf_metrics r)"
    by (auto simp: compute_path_metrics_def simp del: path_parts.simps split: option.splits)
  obtain a cs where a: "agent_info_of g t i = Some a" "caps = ai_capability a # cs"
    using path_parts_head [OF parts(1)] by blast
  have ok: "\<forall>c \<in> set ([ai_capability a] @ cs). cap_ok c"
    using path_parts_caps [OF assms(1) parts(1)] a(2) by simp
  have "compute_route_metrics cm ([ai_capability a] @ cs) ([] @ ts) = Some (bf_metrics r)"
    using parts(2) a(2) by simp
  from append_metrics [OF ok _ this] obtain m where
    "compute_route_metrics cm [ai_capability a] [] = Some m" "metrics_le m (bf_metrics r)" by blast
  moreover have "a \<in> set (extract_agents g t mt)"
    using info_of_fields [OF a(1)] a(1) p(2) by (simp add: extract_agents_mem)
  ultimately show ?thesis using metrics_le_satisfies assms(3) by blast
qed

lemma fallback_fails:
  assumes "network_ok (er_graph er)" "orders_ok ord"
    and "auto_select_pattern (er_graph er) t q (er_cost_model er) ttl stamp' = Some (Inl e)"
    and "bf_route er (ord i) t q stamp = Some r"
  shows "r = Inl NoFeasibleRoute"
proof -
  let ?g = "er_graph er" and ?cm = "er_cost_model er" and ?w = "weights_from_constraints q"
  obtain x where x: "multi_objective_bellman_ford ?g t (min_trust q) ?cm = Some x"
    using assms(4) by (auto simp: bf_route_def bind_eq_Some_conv)
  show ?thesis
  proof (cases x)
    case (Inl e')
    then show ?thesis using assms(4) x search_error [OF x [unfolded Inl]] by (simp add: bf_route_def)
  next
    case (Inr rs)
    have none: "\<not> (\<exists>r \<in> set rs. satisfies_constraints ?cm (bf_metrics r) q)"
      using head_alone [OF assms(1) search_results_ok [OF x [unfolded Inr]]]
        auto_select_Inl [OF assms(3)] by blast
    have "iterates (ord i rs) (unique_results rs)" using assms(2) by (simp add: orders_ok_def)
    from select_top_routes_spec [OF this, of ?cm q 1 ?w] have
      "select_top_routes (ord i rs) rs q ?w ?cm 1 = Inl NoFeasibleRoute"
      using none by (auto split: sum.splits)
    then show ?thesis using assms(4) x Inr by (simp add: bf_route_def Let_def)
  qed
qed

lemma keys_order_ok: "orders_ok (\<lambda>_ rs. remdups (map bf_path rs))"
  by (simp add: orders_ok_def iterates_def unique_results_dom)

lemma validate_ok: "graph_validate g = Inr () \<longleftrightarrow> g_nodes g \<noteq> []"
  by (simp add: graph_validate_def)

lemma extract_needs_nodes: "extract_agents g t mt \<noteq> [] \<Longrightarrow> g_nodes g \<noteq> []"
  by (auto simp: extract_agents_def capable_agents_def map_filter_simps)

definition solo_router :: economic_router where
  "solo_router = router_with_config solo_graph default_cost_model
     (default_routing_config\<lparr>cfg_route_ttl := 0\<rparr>)"

lemma solo_router_route:
  "\<exists>r. auto_select_pattern solo_graph Analysis easy_qos default_cost_model
       (cfg_route_ttl (er_config solo_router)) (0, 0) = Some (Inr r)
     \<and> find_route solo_router ord Analysis easy_qos None (0, 0) = Some (Inr r)"
  using solo_route
  by (simp add: solo_router_def router_with_config_def find_route_def graph_validate_def
      solo_graph_def or_else_def)

section \<open>Properties\<close>

text \<open>
  C1. A route found keeps its promise and the caller's preference: its metrics satisfy the QoS
  constraints, its agents are distinct, available, trusted enough and capable of the task, whichever
  way it was found (pattern, automatic choice or Bellman-Ford), and when the preferred pattern yields
  a route, the result has that pattern.
\<close>

theorem find_route_sound:
  assumes "graph_wf (er_graph er)" and "orders_ok ord"
    and "find_route er ord t q preferred stamp = Some (Inr r)"
  shows "route_sound (er_graph er) t q (er_cost_model er) r
    \<and> (\<forall>p r'. preferred = Some p \<longrightarrow> try_pattern er (ord 0) p t q stamp = Some (Inr r') \<longrightarrow>
         r = r' \<and> route_pattern r = p)"
proof (intro conjI allI impI)
  show "route_sound (er_graph er) t q (er_cost_model er) r"
    by (rule find_route_soundness [OF assms])
next
  fix p r' assume p: "preferred = Some p" "try_pattern er (ord 0) p t q stamp = Some (Inr r')"
  then have "r = r'"
    using assms(3) by (auto simp: find_route_def or_else_def split: sum.splits)
  then show "r = r'" "route_pattern r = p" using try_pattern_sound [OF assms(1,2) p(2)] by simp_all
qed

theorem find_route_sound_witness:
  "\<exists>r. find_route solo_router (\<lambda>_ rs. remdups (map bf_path rs)) Analysis easy_qos None (0, 0)
       = Some (Inr r)
     \<and> route_sound (er_graph solo_router) Analysis easy_qos (er_cost_model solo_router) r"
proof -
  have "graph_wf (er_graph solo_router)"
    by (simp add: solo_router_def router_with_config_def solo_graph_wf)
  then show ?thesis using solo_router_route find_route_sound [OF _ keys_order_ok] by blast
qed

text \<open>
  C28. Several routes: on a non-empty graph, and when pricing the candidates does not panic,
  \<open>find_routes\<close> fails with \<open>NoFeasibleRoute\<close> exactly when neither a pattern nor Bellman-Ford has a
  candidate; otherwise it returns at least one (unless \<open>max_routes\<close> is zero) and at most
  \<open>max_routes\<close> candidates, no two with the same agents, each
  of them sound. When no price is NaN they come cheapest first, by the scalar price of the
  constraints, and the first one is the cheapest of all candidates. (The comment of \<open>find_routes\<close>
  promises routes of the Pareto front ranked by quality. The candidates include the pattern routes,
  on which no front is computed, and quality enters the order only through the price.)
\<close>

theorem find_routes_correct:
  assumes "graph_wf (er_graph er)" and "orders_ok ord"
    and "all_candidates er (ord i) t q stamps = Some all"
    and "graph_validate (er_graph er) = Inr ()"
  shows "(case find_routes er (ord i) t q stamps of
      None \<Rightarrow> False
    | Some (Inl e) \<Rightarrow> e = NoFeasibleRoute \<and> all = []
    | Some (Inr rs) \<Rightarrow> all \<noteq> [] \<and> length rs \<le> cfg_max_routes (er_config er)
        \<and> (rs = [] \<longleftrightarrow> cfg_max_routes (er_config er) = 0)
        \<and> distinct (map route_agents rs)
        \<and> (\<forall>r \<in> set rs. r \<in> set all \<and> route_sound (er_graph er) t q (er_cost_model er) r)
        \<and> ((\<forall>r \<in> set all. route_price er q r \<noteq> NaN) \<longrightarrow>
             sorted_wrt (\<lambda>a b. route_price er q a \<le> route_price er q b) rs
             \<and> (rs \<noteq> [] \<longrightarrow> (\<forall>r \<in> set all. route_price er q (hd rs) \<le> route_price er q r))))"
  by (rule find_routes_spec [OF assms])

text \<open>A request that one agent can serve, and one that no agent can serve.\<close>

lemma from_secs_unit:
  assumes "unit_f64 x"
  shows "\<exists>n. from_secs_f64 x = Some n \<and> n \<le> NANOS_PER_SEC"
proof -
  obtain v where v: "x = Fin v" "0 \<le> v" "v \<le> 1" using assms by (auto simp: unit_f64_Fin)
  have "round_half_even (v * of_nat NANOS_PER_SEC) \<le> int NANOS_PER_SEC"
    by (rule round_half_even_le_int) (use v in \<open>simp add: NANOS_PER_SEC_def\<close>)
  then have n: "nat (round_half_even (v * of_nat NANOS_PER_SEC)) \<le> NANOS_PER_SEC" by simp
  moreover have "NANOS_PER_SEC \<le> DURATION_MAX" by (simp add: NANOS_PER_SEC_def DURATION_MAX_def)
  ultimately show ?thesis using v by (simp add: from_secs_f64_def Let_def)
qed

lemma solo_cascade:
  "\<exists>x. cascade solo_graph Analysis easy_qos cm ttl th stamp = Some x"
proof -
  have d: "from_millis 100 div NANOS_PER_SEC = 0" by (simp add: from_millis_def NANOS_PER_SEC_def)
  then obtain v where "0 \<le> v" "v \<le> 1" "as_secs_f64 (from_millis 100) = to_f64 v"
    using as_secs_f64_small [of "from_millis 100"] by auto
  then have "unit_f64 (1 * as_secs_f64 (from_millis 100))"
    by (intro unit_times) (simp_all add: to_f64_unit)
  then obtain n where n: "from_secs_f64 (1 * as_secs_f64 (from_millis 100)) = Some n" "n \<le> NANOS_PER_SEC"
    using from_secs_unit by blast
  have "info_latency \<lparr>ai_index = 0, ai_id = AgentId 1, ai_capability = cap_example, ai_trust = 1\<rparr> =
      from_millis 100"
    by (simp add: cap_example_def)
  moreover have "n \<le> DURATION_MAX" using n(2) by (simp add: NANOS_PER_SEC_def DURATION_MAX_def)
  ultimately show ?thesis
    using n(1) by (simp add: cascade_def easy_qos_def solo_agents sorted_by_cost_def dur_add_def Let_def)
qed

lemma cap_example_task: "cap_task_type cap_example = Analysis"
  by (simp add: cap_example_def)

lemma solo_search:
  "multi_objective_bellman_ford solo_graph Analysis 0 cm = Some (Inr (single_results cm 0
     \<lparr>rm_quality = Fin (1 / 2), rm_latency = from_millis 100, rm_cost = 1\<rparr>))"
  by (simp add: multi_objective_bellman_ford_def capable_agents_def solo_graph_def is_capable_def
      capability_for_def cap_example_task graph_node_def vec_at_def f64_zero_one_Fin
      solo_metrics [simplified f64_zero_one_Fin])

lemma solo_candidates:
  "\<exists>all. all_candidates solo_router (\<lambda>rs. remdups (map bf_path rs)) Analysis easy_qos stamps = Some all
     \<and> all \<noteq> []"
proof -
  let ?ord = "\<lambda>rs. remdups (map bf_path rs)"
  let ?cm = default_cost_model and ?w = "weights_from_constraints easy_qos"
  let ?m = "\<lparr>rm_quality = Fin (1 / 2), rm_latency = from_millis 100, rm_cost = 1\<rparr>"
  let ?rs = "single_results ?cm 0 ?m"
  have few: "draft_refine solo_graph Analysis easy_qos cm ttl st = Some (Inl NoFeasibleRoute)"
    "parallel_merge solo_graph Analysis easy_qos cm ttl n st = Some (Inl NoFeasibleRoute)"
    "ensemble solo_graph Analysis easy_qos cm ttl n st = Some (Inl NoFeasibleRoute)" for cm ttl n st
    by (simp_all add: draft_refine_def parallel_merge_def ensemble_def easy_qos_def solo_agents Let_def
        min_less_iff_disj)
  obtain x where "cascade solo_graph Analysis easy_qos ?cm 0 (to_f64 (7 / 10)) (stamps 2) = Some x"
    using solo_cascade by blast
  then obtain ps where ps: "collect_pattern_routes solo_router Analysis easy_qos stamps = Some ps"
    by (simp add: collect_pattern_routes_def few solo_router_def router_with_config_def Let_def)
  have "satisfies_constraints ?cm ?m easy_qos"
    by (simp add: satisfies_constraints_def easy_qos_def f64_zero_one_Fin from_millis_def
        from_secs_def NANOS_PER_SEC_def)
  then have "\<exists>r \<in> set ?rs. satisfies_constraints ?cm (bf_metrics r) easy_qos"
    by (simp add: single_results_def pareto_sample_vectors_def)
  moreover have "iterates (?ord ?rs) (unique_results ?rs)"
    using keys_order_ok by (simp add: orders_ok_def)
  ultimately obtain sel where sel: "select_top_routes (?ord ?rs) ?rs easy_qos ?w ?cm
      (cfg_max_routes (er_config solo_router)) = Inr sel" "sel \<noteq> []"
    using select_top_routes_spec [of "?ord ?rs" ?rs ?cm easy_qos
        "cfg_max_routes (er_config solo_router)" ?w]
    by (force simp: solo_router_def router_with_config_def default_routing_config_def split: sum.splits)
  have "min_trust easy_qos = 0" by (simp add: easy_qos_def)
  moreover have "er_graph solo_router = solo_graph" "er_cost_model solo_router = ?cm"
    by (simp_all add: solo_router_def router_with_config_def)
  ultimately obtain bs where "bf_routes solo_router ?ord Analysis easy_qos stamps = Some bs" "bs \<noteq> []"
    using sel by (simp add: bf_routes_def solo_search Let_def enumerate_eq_zip)
  then show ?thesis using ps by (simp add: all_candidates_def)
qed

definition hopeless_qos :: qos_constraints where
  "hopeless_qos = \<lparr>min_quality = 0, max_latency = 0, max_cost = 0, min_trust = Fin 2\<rparr>"

lemma hopeless_agents: "capable_agents solo_graph Analysis (Fin 2) = []"
  by (simp add: capable_agents_def solo_graph_def is_capable_def f64_zero_one_Fin)

lemma hopeless_candidates: "all_candidates solo_router ord Analysis hopeless_qos stamps = Some []"
  by (simp add: all_candidates_def collect_pattern_routes_def bf_routes_def draft_refine_def
      parallel_merge_def cascade_def ensemble_def extract_agents_def hopeless_agents solo_router_def
      router_with_config_def hopeless_qos_def multi_objective_bellman_ford_def map_filter_simps
      ok_routes_def)

theorem find_routes_correct_witness:
  "(\<exists>r rs. find_routes solo_router (\<lambda>rs. remdups (map bf_path rs)) Analysis easy_qos (\<lambda>_. (0, 0))
       = Some (Inr (r # rs))
     \<and> route_sound (er_graph solo_router) Analysis easy_qos (er_cost_model solo_router) r)
   \<and> find_routes solo_router (\<lambda>rs. remdups (map bf_path rs)) Analysis hopeless_qos (\<lambda>_. (0, 0))
     = Some (Inl NoFeasibleRoute)"
proof
  let ?ord = "\<lambda>rs. remdups (map bf_path rs)" and ?stamps = "\<lambda>_. (0, 0)"
  have wf: "graph_wf (er_graph solo_router)" "graph_validate (er_graph solo_router) = Inr ()"
    using solo_graph_wf
    by (simp_all add: solo_router_def router_with_config_def graph_validate_def solo_graph_def)
  note c = find_routes_correct [OF wf(1) keys_order_ok _ wf(2)]
  show "find_routes solo_router ?ord Analysis hopeless_qos ?stamps = Some (Inl NoFeasibleRoute)"
    using c [OF hopeless_candidates, of ?stamps] by (auto split: option.splits sum.splits)
  obtain all where all: "all_candidates solo_router ?ord Analysis easy_qos ?stamps = Some all" "all \<noteq> []"
    using solo_candidates by blast
  have "cfg_max_routes (er_config solo_router) \<noteq> 0"
    by (simp add: solo_router_def router_with_config_def default_routing_config_def)
  then obtain rs where rs: "find_routes solo_router ?ord Analysis easy_qos ?stamps = Some (Inr rs)"
    "rs \<noteq> []" "\<forall>r \<in> set rs. route_sound (er_graph solo_router) Analysis easy_qos
      (er_cost_model solo_router) r"
    using c [OF all(1)] all(2) by (auto split: option.splits sum.splits)
  then show "\<exists>r rs. find_routes solo_router ?ord Analysis easy_qos ?stamps = Some (Inr (r # rs))
     \<and> route_sound (er_graph solo_router) Analysis easy_qos (er_cost_model solo_router) r"
    using rs by (cases rs) auto
qed

text \<open>
  C30. The Bellman-Ford fallback of \<open>find_route\<close> never changes the outcome: on a network of sane
  capabilities and without a preferred pattern, whatever the router returns is what the automatic
  choice returned. A path that satisfies the constraints has a first agent that satisfies them
  alone, and the automatic choice would have found it.
\<close>

theorem fallback_never_helps:
  assumes "network_ok (er_graph er)" and "orders_ok ord" and "g_nodes (er_graph er) \<noteq> []"
    and "find_route er ord t q None stamp = Some r"
  shows "auto_select_pattern (er_graph er) t q (er_cost_model er) (cfg_route_ttl (er_config er)) stamp
    = Some r"
proof -
  let ?a = "auto_select_pattern (er_graph er) t q (er_cost_model er) (cfg_route_ttl (er_config er)) stamp"
  have run: "or_else ?a (bf_route er (ord 1) t q stamp) = Some r"
    using assms(3,4) by (simp add: find_route_def graph_validate_def)
  show ?thesis
  proof (cases "\<exists>e. ?a = Some (Inl e)")
    case True
    then obtain e where e: "?a = Some (Inl e)" by blast
    then have "bf_route er (ord 1) t q stamp = Some r" using run by (simp add: or_else_def)
    then have "r = Inl NoFeasibleRoute" by (rule fallback_fails [OF assms(1,2) e])
    then show ?thesis using e auto_select_Inl [OF e] by simp
  next
    case False
    then show ?thesis using run by (auto simp: or_else_def split: option.splits sum.splits)
  qed
qed

theorem fallback_never_helps_witness:
  "\<exists>r. auto_select_pattern solo_graph Analysis easy_qos default_cost_model 0 (0, 0) = Some r"
proof -
  have "network_ok solo_graph"
    using solo_graph_wf cap_example_ok by (simp add: network_ok_def solo_graph_def)
  moreover obtain r where "find_route solo_router (\<lambda>_ rs. remdups (map bf_path rs)) Analysis
      easy_qos None (0, 0) = Some (Inr r)" using solo_router_route by blast
  ultimately show ?thesis
    using fallback_never_helps [of solo_router, OF _ keys_order_ok]
    by (simp add: solo_router_def router_with_config_def solo_graph_def)
qed

text \<open>
  A single advert brings the router down: if the cheapest capable agent advertises the quality
  NaN and there is a second capable agent, \<open>find_routes\<close> panics for that task, whatever the
  constraints and the other adverts are.
\<close>

lemma find_routes_panics_on_NaN:
  assumes "2 \<le> length (extract_agents (er_graph er) t (min_trust q))"
    and "info_quality (hd (sorted_by_cost (extract_agents (er_graph er) t (min_trust q)))) = NaN"
  shows "find_routes er ord t q stamps = None"
proof -
  have "extract_agents (er_graph er) t (min_trust q) \<noteq> []" using assms(1) by auto
  then have "g_nodes (er_graph er) \<noteq> []" by (rule extract_needs_nodes)
  moreover have "collect_pattern_routes er t q stamps = None"
    by (simp add: collect_pattern_routes_def Let_def cascade_NaN [OF assms] split: bind_splits)
  ultimately show ?thesis by (simp add: find_routes_def graph_validate_def)
qed

lemma find_routes_panics_on_NaN_example:
  "find_routes (router_new nan_graph) (\<lambda>rs. remdups (map bf_path rs)) Analysis easy_qos
     (\<lambda>_. (0, 0)) = None"
proof -
  have g: "er_graph (router_new nan_graph) = nan_graph" by (simp add: router_new_def)
  show ?thesis
    by (rule find_routes_panics_on_NaN; unfold g nan_agents)
      (simp_all add: sorted_by_cost_def sort_by_def cap_example_def f64_zero_one_Fin)
qed

end
