(* ===== verification/Wire.thy ===== *)
theory Wire
  imports Atp_Types
begin

text \<open>
  The wire format: the messages of the \<open>proto/atp/v1/*.proto\<close> files as the Rust code sees them.
  Every sub-message is optional, every enumeration is an \<open>int32\<close>, an \<open>int64\<close> is a word read with
  \<open>sint\<close>. Field prefixes start with \<open>p\<close>.
\<close>

type_synonym i32 = "32 word"

type_synonym i64 = "64 word"

record pb_agent_id =
  pa_uuid :: string

record pb_timestamp =
  pt_seconds :: i64
  pt_nanos :: i32

datatype pb_task_type =
    PbTaskUnspecified | PbCodeGeneration | PbAnalysis | PbCreativeWriting | PbDataProcessing

datatype pb_routing_pattern =
    PbPatternUnspecified | PbDraftRefine | PbParallelMerge | PbCascade | PbEnsemble | PbPipeline

datatype pb_circuit_state = PbCircuitUnspecified | PbClosed | PbOpen | PbHalfOpen

record pb_qos =
  pq_min_quality :: f64
  pq_max_latency_ms :: u64
  pq_max_cost :: f64
  pq_min_trust :: f64

record pb_embedding =
  pe_dimensions :: u32
  pe_values :: "f64 list"

record pb_capability =
  pc_task_type :: i32
  pc_estimated_quality :: f64
  pc_estimated_latency_ms :: u64
  pc_cost_per_task :: f64

record pb_context_chunk =
  pk_index :: u32
  pk_data :: "u8 list"
  pk_relevance_score :: f64

record pb_context_diff =
  pd_base_hash :: "u8 list"
  pd_chunks :: "pb_context_chunk list"
  pd_confidence :: f64
  pd_original_size :: u64
  pd_compressed_size :: u64

record pb_route_metrics =
  pm_quality :: f64
  pm_latency_ms :: u64
  pm_cost :: f64

record pb_route =
  pr_route_id :: string
  pr_pattern :: i32
  pr_agents :: "pb_agent_id list"
  pr_route_metrics :: "pb_route_metrics option"
  pr_computed_at :: "pb_timestamp option"
  pr_ttl_ms :: u64

record pb_probe =
  pp_from :: "pb_agent_id option"
  pp_task_type :: i32
  pp_qos :: "pb_qos option"
  pp_context_embedding :: "pb_embedding option"
  pp_nonce :: u64
  pp_timestamp :: "pb_timestamp option"
  pp_signature :: "u8 list"

record pb_offer =
  po_from :: "pb_agent_id option"
  po_in_reply_to :: u64
  po_capability :: "pb_capability option"
  po_trust_score :: f64
  po_trust_proof :: "u8 list"
  po_ttl_ms :: u64
  po_timestamp :: "pb_timestamp option"
  po_signature :: "u8 list"

record pb_contract_accept =
  pca_from :: "pb_agent_id option"
  pca_to :: "pb_agent_id option"
  pca_agreed_qos :: "pb_qos option"
  pca_context_plan :: string
  pca_contract_id :: string
  pca_expires_ms :: u64
  pca_timestamp :: "pb_timestamp option"
  pca_signature :: "u8 list"

record pb_context_request =
  pcr_from :: "pb_agent_id option"
  pcr_to :: "pb_agent_id option"
  pcr_task_id :: string
  pcr_current_confidence :: f64
  pcr_requested_chunk_indices :: "u32 list"
  pcr_timestamp :: "pb_timestamp option"

record pb_task_submit =
  ps_from :: "pb_agent_id option"
  ps_to :: "pb_agent_id option"
  ps_task_id :: string
  ps_task_type :: i32
  ps_payload :: "u8 list"
  ps_context :: "pb_context_diff option"
  ps_contract_id :: string
  ps_timestamp :: "pb_timestamp option"

record pb_task_result =
  ptr_from :: "pb_agent_id option"
  ptr_task_id :: string
  ptr_quality_self_report :: f64
  ptr_payload :: "u8 list"
  ptr_elapsed_ms :: u64
  ptr_actual_cost :: f64
  ptr_timestamp :: "pb_timestamp option"

record pb_interaction_proof =
  pip_evaluator :: "pb_agent_id option"
  pip_subject :: "pb_agent_id option"
  pip_task_id :: string
  pip_task_type :: i32
  pip_quality_score :: f64
  pip_latency_ms :: u64
  pip_cost :: f64
  pip_timestamp :: "pb_timestamp option"
  pip_signature :: "u8 list"

record pb_heartbeat =
  ph_from :: "pb_agent_id option"
  ph_sequence :: u64
  ph_queue_depth :: u32
  ph_load_factor :: f64
  ph_timestamp :: "pb_timestamp option"

record pb_backpressure =
  pb_from :: "pb_agent_id option"
  pb_queue_depth :: u32
  pb_recommended_rate :: f64
  pb_estimated_drain_ms :: u64
  pb_timestamp :: "pb_timestamp option"

record pb_circuit_break =
  pcb_from :: "pb_agent_id option"
  pcb_target :: "pb_agent_id option"
  pcb_state :: i32
  pcb_failure_count :: u32
  pcb_timestamp :: "pb_timestamp option"

text \<open>The remaining requests and the replies of the service.\<close>

record pb_route_query =
  prq_task_type :: i32
  prq_qos :: "pb_qos option"
  prq_preferred_pattern :: i32
  prq_max_routes :: u32

record pb_task_query =
  ptq_task_id :: string

record pb_contract_ack =
  pck_contract_id :: string
  pck_accepted :: bool

record pb_task_ack =
  ptk_task_id :: string
  ptk_accepted :: bool
  ptk_reason :: string

record pb_context_response =
  pcx_task_id :: string
  pcx_chunks :: "pb_context_chunk list"

record pb_route_response =
  prr_routes :: "pb_route list"

record pb_heartbeat_ack =
  phk_sequence :: u64

record pb_ack =
  pak_acknowledged :: bool  \<comment> \<open>\<open>BackpressureAck\<close> and \<open>CircuitBreakAck\<close>\<close>

record pb_proof_ack =
  pfk_accepted :: bool

section \<open>The numbers of the enumerations\<close>

fun pb_task_type_number :: "pb_task_type \<Rightarrow> i32" where
  "pb_task_type_number PbTaskUnspecified = 0"
| "pb_task_type_number PbCodeGeneration = 1"
| "pb_task_type_number PbAnalysis = 2"
| "pb_task_type_number PbCreativeWriting = 3"
| "pb_task_type_number PbDataProcessing = 4"

fun pb_routing_pattern_number :: "pb_routing_pattern \<Rightarrow> i32" where
  "pb_routing_pattern_number PbPatternUnspecified = 0"
| "pb_routing_pattern_number PbDraftRefine = 1"
| "pb_routing_pattern_number PbParallelMerge = 2"
| "pb_routing_pattern_number PbCascade = 3"
| "pb_routing_pattern_number PbEnsemble = 4"
| "pb_routing_pattern_number PbPipeline = 5"

fun pb_circuit_state_number :: "pb_circuit_state \<Rightarrow> i32" where
  "pb_circuit_state_number PbCircuitUnspecified = 0"
| "pb_circuit_state_number PbClosed = 1"
| "pb_circuit_state_number PbOpen = 2"
| "pb_circuit_state_number PbHalfOpen = 3"

text \<open>\<open>try_from(i32)\<close>: the enumerator with that number.\<close>

definition pb_task_type_of :: "i32 \<Rightarrow> pb_task_type option" where
  "pb_task_type_of v = find (\<lambda>e. pb_task_type_number e = v)
     [PbTaskUnspecified, PbCodeGeneration, PbAnalysis, PbCreativeWriting, PbDataProcessing]"

definition pb_routing_pattern_of :: "i32 \<Rightarrow> pb_routing_pattern option" where
  "pb_routing_pattern_of v = find (\<lambda>e. pb_routing_pattern_number e = v)
     [PbPatternUnspecified, PbDraftRefine, PbParallelMerge, PbCascade, PbEnsemble, PbPipeline]"

definition pb_circuit_state_of :: "i32 \<Rightarrow> pb_circuit_state option" where
  "pb_circuit_state_of v = find (\<lambda>e. pb_circuit_state_number e = v)
     [PbCircuitUnspecified, PbClosed, PbOpen, PbHalfOpen]"

lemma pb_task_type_of_number [simp]: "pb_task_type_of (pb_task_type_number e) = Some e"
  by (cases e) (simp_all add: pb_task_type_of_def)

lemma pb_routing_pattern_of_number [simp]:
  "pb_routing_pattern_of (pb_routing_pattern_number e) = Some e"
  by (cases e) (simp_all add: pb_routing_pattern_of_def)

lemma pb_circuit_state_of_number [simp]:
  "pb_circuit_state_of (pb_circuit_state_number e) = Some e"
  by (cases e) (simp_all add: pb_circuit_state_of_def)

lemma pb_task_type_of_Some: "pb_task_type_of v = Some e \<Longrightarrow> pb_task_type_number e = v"
  unfolding pb_task_type_of_def find_Some_iff by blast

lemma pb_routing_pattern_of_Some:
  "pb_routing_pattern_of v = Some e \<Longrightarrow> pb_routing_pattern_number e = v"
  unfolding pb_routing_pattern_of_def find_Some_iff by blast

lemma pb_circuit_state_of_Some: "pb_circuit_state_of v = Some e \<Longrightarrow> pb_circuit_state_number e = v"
  unfolding pb_circuit_state_of_def find_Some_iff by blast

section \<open>What the codec takes from \<open>uuid\<close> and \<open>chrono\<close>\<close>

text \<open>
  \<open>Uuid::to_string\<close> and \<open>Uuid::parse_str\<close>, \<open>DateTime::from_timestamp\<close> and
  \<open>from_timestamp_millis\<close>, and which instants a \<open>DateTime<Utc>\<close> can hold.
\<close>

record wire_env =
  uuid_text :: "uuid \<Rightarrow> string"
  uuid_parse :: "string \<Rightarrow> uuid option"
  from_timestamp :: "int \<Rightarrow> nat \<Rightarrow> datetime option"
  from_timestamp_millis :: "int \<Rightarrow> datetime option"
  datetime_ok :: "datetime \<Rightarrow> bool"

text \<open>
  Their documentation: parsing undoes printing; an instant is recovered from its seconds and
  nanoseconds, and from its milliseconds up to the rest; both counts fit in an \<open>i64\<close>; what a
  conversion returns is an instant.
\<close>

definition wire_sound :: "wire_env \<Rightarrow> bool" where
  "wire_sound w \<longleftrightarrow>
     (\<forall>u. uuid_parse w (uuid_text w u) = Some u)
     \<and> (\<forall>t. datetime_ok w t \<longrightarrow>
          from_timestamp w (t div 1000000000) (nat (t mod 1000000000)) = Some t
          \<and> - (2 ^ 63) \<le> t div 1000000000 \<and> t div 1000000000 < 2 ^ 63
          \<and> from_timestamp_millis w (t div 1000000) = Some (t - t mod 1000000)
          \<and> - (2 ^ 63) \<le> t div 1000000 \<and> t div 1000000 < 2 ^ 63)
     \<and> (\<forall>s n t. from_timestamp w s n = Some t \<longrightarrow> datetime_ok w t)
     \<and> (\<forall>m t. from_timestamp_millis w m = Some t \<longrightarrow> datetime_ok w t)"

lemma wire_soundD:
  assumes "wire_sound w"
  shows "uuid_parse w (uuid_text w u) = Some u"
    and "datetime_ok w t \<Longrightarrow> from_timestamp w (t div 1000000000) (nat (t mod 1000000000)) = Some t"
    and "datetime_ok w t \<Longrightarrow> - (2 ^ 63) \<le> t div 1000000000 \<and> t div 1000000000 < 2 ^ 63"
    and "datetime_ok w t \<Longrightarrow> from_timestamp_millis w (t div 1000000) = Some (t - t mod 1000000)"
    and "datetime_ok w t \<Longrightarrow> - (2 ^ 63) \<le> t div 1000000 \<and> t div 1000000 < 2 ^ 63"
    and "from_timestamp w s n = Some t \<Longrightarrow> datetime_ok w t"
    and "from_timestamp_millis w m = Some t \<Longrightarrow> datetime_ok w t"
  using assms unfolding wire_sound_def by blast+

text \<open>An instance: identifiers in binary digits, instants within the limits of \<open>chrono\<close>.\<close>

definition bits_text :: "uuid \<Rightarrow> string" where
  "bits_text u = map (\<lambda>i. if bit u i then CHR ''1'' else CHR ''0'') [0..<128]"

definition bits_parse :: "string \<Rightarrow> uuid option" where
  "bits_parse s = (if length s = 128 \<and> set s \<subseteq> {CHR ''0'', CHR ''1''}
     then Some (horner_sum of_bool 2 (map (\<lambda>c. c = CHR ''1'') s)) else None)"

definition binary_env :: wire_env where
  "binary_env =
     \<lparr>uuid_text = bits_text, uuid_parse = bits_parse,
      from_timestamp = (\<lambda>s n. let t = s * 1000000000 + int n
        in if n < 1000000000 \<and> - DT_MAX - 1 \<le> t \<and> t \<le> DT_MAX then Some t else None),
      from_timestamp_millis = (\<lambda>m. let t = m * 1000000
        in if - DT_MAX - 1 \<le> t \<and> t \<le> DT_MAX then Some t else None),
      datetime_ok = (\<lambda>t. - DT_MAX - 1 \<le> t \<and> t \<le> DT_MAX)\<rparr>"

lemma bits_text_parse: "bits_parse (bits_text u) = Some u"
proof -
  have "map (\<lambda>c. c = CHR ''1'') (bits_text u) = map (bit u) [0..<128]"
    unfolding bits_text_def map_map by (rule map_cong) simp_all
  moreover have "horner_sum of_bool 2 (map (bit u) [0..<128]) = u"
    by (simp add: horner_sum_bit_eq_take_bit take_bit_word_eq_self)
  moreover have "length (bits_text u) = 128" "set (bits_text u) \<subseteq> {CHR ''0'', CHR ''1''}"
    by (auto simp: bits_text_def)
  ultimately show ?thesis by (simp add: bits_parse_def)
qed

lemma binary_env_sound: "wire_sound binary_env"
proof -
  have ts: "from_timestamp binary_env (t div 1000000000) (nat (t mod 1000000000)) = Some t"
    "from_timestamp_millis binary_env (t div 1000000) = Some (t - t mod 1000000)"
    "- (2 ^ 63) \<le> t div 1000000000 \<and> t div 1000000000 < 2 ^ 63"
    "- (2 ^ 63) \<le> t div 1000000 \<and> t div 1000000 < 2 ^ 63" if h: "datetime_ok binary_env t" for t
  proof -
    have b: "- 8210266876800000000000 \<le> t" "t \<le> 8210266876799999999999"
      using h by (simp_all add: binary_env_def DT_MAX_def)
    show "from_timestamp binary_env (t div 1000000000) (nat (t mod 1000000000)) = Some t"
    proof -
      have m: "0 \<le> t mod 1000000000" "t mod 1000000000 < 1000000000" by (rule pos_mod_sign pos_mod_bound, simp)+
      have e: "t div 1000000000 * 1000000000 + t mod 1000000000 = t" by (rule div_mult_mod_eq)
      have n: "int (nat (t mod 1000000000)) = t mod 1000000000" using m(1) by simp
      have l: "nat (t mod 1000000000) < 1000000000" using m(2) by linarith
      show ?thesis
        unfolding binary_env_def wire_env.select_convs Let_def n e DT_MAX_def using b l by simp
    qed
    have m: "0 \<le> t mod 1000000" "t mod 1000000 < 1000000" by (rule pos_mod_sign pos_mod_bound, simp)+
    have k: "t div 1000000 * 1000000 + t mod 1000000 = t" by (rule div_mult_mod_eq)
    have k': "- 8210266876800000 \<le> t div 1000000" "t div 1000000 \<le> 8210266876800000"
      using k m b by linarith+
    have e: "t div 1000000 * 1000000 = t - t mod 1000000" using k by linarith
    have "- 8210266876799999999999 - 1 \<le> t - t mod 1000000" "t - t mod 1000000 \<le> 8210266876799999999999"
      using k' e b m by linarith+
    then show "from_timestamp_millis binary_env (t div 1000000) = Some (t - t mod 1000000)"
      unfolding binary_env_def wire_env.select_convs Let_def e DT_MAX_def by simp
    show "- (2 ^ 63) \<le> t div 1000000 \<and> t div 1000000 < 2 ^ 63" using k' by simp
    have "0 \<le> t mod 1000000000" "t mod 1000000000 < 1000000000" by (rule pos_mod_sign pos_mod_bound, simp)+
    moreover have "t div 1000000000 * 1000000000 + t mod 1000000000 = t" by (rule div_mult_mod_eq)
    ultimately have "- 8210266876801 \<le> t div 1000000000" "t div 1000000000 \<le> 8210266876801"
      using b by linarith+
    then show "- (2 ^ 63) \<le> t div 1000000000 \<and> t div 1000000000 < 2 ^ 63" by simp
  qed
  have a: "datetime_ok binary_env t" if "from_timestamp binary_env s n = Some t" for s n t
    using that by (auto simp: binary_env_def Let_def split: if_splits)
  have b: "datetime_ok binary_env t" if "from_timestamp_millis binary_env m = Some t" for m t
    using that by (auto simp: binary_env_def Let_def split: if_splits)
  have c: "uuid_parse binary_env (uuid_text binary_env u) = Some u" for u
    by (simp add: binary_env_def bits_text_parse)
  have d: "from_timestamp binary_env (t div 1000000000) (nat (t mod 1000000000)) = Some t
      \<and> - (2 ^ 63) \<le> t div 1000000000 \<and> t div 1000000000 < 2 ^ 63
      \<and> from_timestamp_millis binary_env (t div 1000000) = Some (t - t mod 1000000)
      \<and> - (2 ^ 63) \<le> t div 1000000 \<and> t div 1000000 < 2 ^ 63" if h: "datetime_ok binary_env t" for t
    by (rule conjI [OF ts(1) [OF h] conjI [OF ts(3) [OF h, THEN conjunct1]
          conjI [OF ts(3) [OF h, THEN conjunct2] conjI [OF ts(2) [OF h] ts(4) [OF h]]]]])
  show ?thesis
    unfolding wire_sound_def
    by (rule conjI [OF allI [OF c] conjI [OF allI [OF impI [OF d]]
          conjI [OF allI [OF allI [OF allI [OF impI [OF a]]]] allI [OF allI [OF impI [OF b]]]]]])
qed

end
