(* ===== verification/Codec.thy ===== *)
theory Codec
  imports Wire
begin

text \<open>
  The codec of \<open>atp-transport\<close> (\<open>codec.rs\<close>): the conversions between the domain types and the wire
  messages. The clock reading of \<open>now_proto\<close> and of \<open>unwrap_or_else(Utc::now)\<close> is the argument
  \<open>now\<close>; where one call may read the clock twice it is a function of the reading.
\<close>

datatype codec_error =
    MissingField string
  | InvalidUuid string
  | InvalidEnum string i32

text \<open>\<open>atp_types::TaskResult\<close> (\<open>task.rs\<close>), not the message \<open>TaskResultMsg\<close>.\<close>

record task_result =
  tr_task_id :: uuid
  tr_from :: agent_id
  tr_quality_self_report :: f64
  tr_payload :: "u8 list"
  tr_elapsed :: duration
  tr_actual_cost :: f64

section \<open>Identifiers and enumerations\<close>

definition parse_uuid :: "wire_env \<Rightarrow> string \<Rightarrow> codec_error + uuid" where
  "parse_uuid w s = ok_or (InvalidUuid s) (uuid_parse w s)"

definition agent_id_to_proto :: "wire_env \<Rightarrow> agent_id \<Rightarrow> pb_agent_id" where
  "agent_id_to_proto w a = \<lparr>pa_uuid = uuid_text w (agent_uuid a)\<rparr>"

definition proto_to_agent_id :: "wire_env \<Rightarrow> pb_agent_id \<Rightarrow> codec_error + agent_id" where
  "proto_to_agent_id w pb = res_bind (parse_uuid w (pa_uuid pb)) (\<lambda>u. Inr (AgentId u))"

definition require_agent_id ::
  "wire_env \<Rightarrow> pb_agent_id option \<Rightarrow> string \<Rightarrow> codec_error + agent_id" where
  "require_agent_id w a field = res_bind (ok_or (MissingField field) a) (proto_to_agent_id w)"

fun task_type_to_proto :: "task_type \<Rightarrow> pb_task_type" where
  "task_type_to_proto CodeGeneration = PbCodeGeneration"
| "task_type_to_proto Analysis = PbAnalysis"
| "task_type_to_proto CreativeWriting = PbCreativeWriting"
| "task_type_to_proto DataProcessing = PbDataProcessing"

definition proto_to_task_type :: "i32 \<Rightarrow> codec_error + task_type" where
  "proto_to_task_type v =
     (case pb_task_type_of v of
        Some PbCodeGeneration \<Rightarrow> Inr CodeGeneration
      | Some PbAnalysis \<Rightarrow> Inr Analysis
      | Some PbCreativeWriting \<Rightarrow> Inr CreativeWriting
      | Some PbDataProcessing \<Rightarrow> Inr DataProcessing
      | Some PbTaskUnspecified \<Rightarrow> Inl (InvalidEnum ''task_type'' v)
      | None \<Rightarrow> Inl (InvalidEnum ''task_type'' v))"

definition task_type_to_i32 :: "task_type \<Rightarrow> i32" where
  "task_type_to_i32 t = pb_task_type_number (task_type_to_proto t)"

definition task_type_from_i32 :: "i32 \<Rightarrow> codec_error + task_type" where
  "task_type_from_i32 v = proto_to_task_type v"

fun routing_pattern_to_proto :: "routing_pattern \<Rightarrow> pb_routing_pattern" where
  "routing_pattern_to_proto DraftRefine = PbDraftRefine"
| "routing_pattern_to_proto ParallelMerge = PbParallelMerge"
| "routing_pattern_to_proto Cascade = PbCascade"
| "routing_pattern_to_proto Ensemble = PbEnsemble"
| "routing_pattern_to_proto Pipeline = PbPipeline"

definition proto_to_routing_pattern :: "i32 \<Rightarrow> codec_error + routing_pattern" where
  "proto_to_routing_pattern v =
     (case pb_routing_pattern_of v of
        Some PbDraftRefine \<Rightarrow> Inr DraftRefine
      | Some PbParallelMerge \<Rightarrow> Inr ParallelMerge
      | Some PbCascade \<Rightarrow> Inr Cascade
      | Some PbEnsemble \<Rightarrow> Inr Ensemble
      | Some PbPipeline \<Rightarrow> Inr Pipeline
      | Some PbPatternUnspecified \<Rightarrow> Inl (InvalidEnum ''routing_pattern'' v)
      | None \<Rightarrow> Inl (InvalidEnum ''routing_pattern'' v))"

definition routing_pattern_to_i32 :: "routing_pattern \<Rightarrow> i32" where
  "routing_pattern_to_i32 p = pb_routing_pattern_number (routing_pattern_to_proto p)"

fun circuit_state_to_proto :: "circuit_state \<Rightarrow> pb_circuit_state" where
  "circuit_state_to_proto Closed = PbClosed"
| "circuit_state_to_proto Open = PbOpen"
| "circuit_state_to_proto HalfOpen = PbHalfOpen"

definition proto_to_circuit_state :: "i32 \<Rightarrow> codec_error + circuit_state" where
  "proto_to_circuit_state v =
     (case pb_circuit_state_of v of
        Some PbClosed \<Rightarrow> Inr Closed
      | Some PbOpen \<Rightarrow> Inr Open
      | Some PbHalfOpen \<Rightarrow> Inr HalfOpen
      | Some PbCircuitUnspecified \<Rightarrow> Inl (InvalidEnum ''circuit_state'' v)
      | None \<Rightarrow> Inl (InvalidEnum ''circuit_state'' v))"

section \<open>Times and data\<close>

text \<open>\<open>timestamp()\<close> and \<open>timestamp_subsec_nanos() as i32\<close> of an instant.\<close>

definition datetime_to_proto :: "datetime \<Rightarrow> pb_timestamp" where
  "datetime_to_proto t =
     \<lparr>pt_seconds = of_int (t div 1000000000), pt_nanos = of_int (t mod 1000000000)\<rparr>"

definition proto_to_datetime :: "wire_env \<Rightarrow> datetime \<Rightarrow> pb_timestamp \<Rightarrow> datetime" where
  "proto_to_datetime w now ts =
     (case from_timestamp w (sint (pt_seconds ts)) (nat (max (sint (pt_nanos ts)) 0)) of
        Some t \<Rightarrow> t
      | None \<Rightarrow> now)"

definition now_proto :: "datetime \<Rightarrow> pb_timestamp" where
  "now_proto now = datetime_to_proto now"

text \<open>\<open>ts.map(proto_to_datetime).unwrap_or_else(Utc::now)\<close>.\<close>

definition datetime_or_now :: "wire_env \<Rightarrow> datetime \<Rightarrow> pb_timestamp option \<Rightarrow> datetime" where
  "datetime_or_now w now ts = (case ts of Some t \<Rightarrow> proto_to_datetime w now t | None \<Rightarrow> now)"

definition qos_to_proto :: "qos_constraints \<Rightarrow> pb_qos" where
  "qos_to_proto q =
     \<lparr>pq_min_quality = min_quality q, pq_max_latency_ms = as_millis_u64 (max_latency q),
      pq_max_cost = max_cost q, pq_min_trust = min_trust q\<rparr>"

definition proto_to_qos :: "pb_qos \<Rightarrow> qos_constraints" where
  "proto_to_qos pb =
     \<lparr>min_quality = pq_min_quality pb, max_latency = from_millis (unat (pq_max_latency_ms pb)),
      max_cost = pq_max_cost pb, min_trust = pq_min_trust pb\<rparr>"

definition capability_to_proto :: "capability \<Rightarrow> pb_capability" where
  "capability_to_proto c =
     \<lparr>pc_task_type = task_type_to_i32 (cap_task_type c),
      pc_estimated_quality = cap_estimated_quality c,
      pc_estimated_latency_ms = as_millis_u64 (cap_estimated_latency c),
      pc_cost_per_task = cap_cost_per_task c\<rparr>"

definition proto_to_capability :: "pb_capability \<Rightarrow> codec_error + capability" where
  "proto_to_capability pb =
     res_bind (proto_to_task_type (pc_task_type pb)) (\<lambda>t. Inr
       \<lparr>cap_task_type = t, cap_estimated_quality = pc_estimated_quality pb,
        cap_estimated_latency = from_millis (unat (pc_estimated_latency_ms pb)),
        cap_cost_per_task = pc_cost_per_task pb\<rparr>)"

definition embedding_to_proto :: "context_embedding \<Rightarrow> pb_embedding" where
  "embedding_to_proto e = \<lparr>pe_dimensions = of_nat (emb_dimensions e), pe_values = emb_values e\<rparr>"

definition proto_to_embedding :: "pb_embedding \<Rightarrow> context_embedding" where
  "proto_to_embedding pb = \<lparr>emb_dimensions = unat (pe_dimensions pb), emb_values = pe_values pb\<rparr>"

definition context_chunk_to_proto :: "context_chunk \<Rightarrow> pb_context_chunk" where
  "context_chunk_to_proto c =
     \<lparr>pk_index = chunk_index c, pk_data = chunk_data c,
      pk_relevance_score = chunk_relevance_score c\<rparr>"

definition proto_to_context_chunk :: "pb_context_chunk \<Rightarrow> context_chunk" where
  "proto_to_context_chunk pb =
     \<lparr>chunk_index = pk_index pb, chunk_data = pk_data pb,
      chunk_relevance_score = pk_relevance_score pb\<rparr>"

definition context_diff_to_proto :: "context_diff \<Rightarrow> pb_context_diff" where
  "context_diff_to_proto d =
     \<lparr>pd_base_hash = diff_base_hash d, pd_chunks = map context_chunk_to_proto (diff_chunks d),
      pd_confidence = diff_confidence d, pd_original_size = diff_original_size d,
      pd_compressed_size = diff_compressed_size d\<rparr>"

definition proto_to_context_diff :: "pb_context_diff \<Rightarrow> context_diff" where
  "proto_to_context_diff pb =
     (let len = min (length (pd_base_hash pb)) 32
      in \<lparr>diff_base_hash = take len (pd_base_hash pb) @ replicate (32 - len) 0,
          diff_chunks = map proto_to_context_chunk (pd_chunks pb),
          diff_confidence = pd_confidence pb, diff_original_size = pd_original_size pb,
          diff_compressed_size = pd_compressed_size pb\<rparr>)"

definition route_metrics_to_proto :: "route_metrics \<Rightarrow> pb_route_metrics" where
  "route_metrics_to_proto m =
     \<lparr>pm_quality = rm_quality m, pm_latency_ms = as_millis_u64 (rm_latency m),
      pm_cost = rm_cost m\<rparr>"

definition proto_to_route_metrics :: "pb_route_metrics \<Rightarrow> route_metrics" where
  "proto_to_route_metrics pb =
     \<lparr>rm_quality = pm_quality pb, rm_latency = from_millis (unat (pm_latency_ms pb)),
      rm_cost = pm_cost pb\<rparr>"

definition route_to_proto :: "wire_env \<Rightarrow> route \<Rightarrow> pb_route" where
  "route_to_proto w r =
     \<lparr>pr_route_id = uuid_text w (route_id r),
      pr_pattern = routing_pattern_to_i32 (route_pattern r),
      pr_agents = map (agent_id_to_proto w) (route_agents r),
      pr_route_metrics = Some (route_metrics_to_proto (route_metrics r)),
      pr_computed_at = Some (datetime_to_proto (route_computed_at r)),
      pr_ttl_ms = as_millis_u64 (route_ttl r)\<rparr>"

definition proto_to_route :: "wire_env \<Rightarrow> datetime \<Rightarrow> pb_route \<Rightarrow> codec_error + route" where
  "proto_to_route w now pb =
     res_bind (parse_uuid w (pr_route_id pb)) (\<lambda>rid.
     res_bind (proto_to_routing_pattern (pr_pattern pb)) (\<lambda>pattern.
     let agents = collect_results (proto_to_agent_id w) (pr_agents pb)
     in res_bind (ok_or (MissingField ''metrics'') (pr_route_metrics pb)) (\<lambda>m.
     let computed_at = datetime_or_now w now (pr_computed_at pb)
     in res_bind agents (\<lambda>as. Inr
       \<lparr>route_id = rid, route_pattern = pattern, route_agents = as,
        route_metrics = proto_to_route_metrics m, route_computed_at = computed_at,
        route_ttl = from_millis (unat (pr_ttl_ms pb))\<rparr>))))"

section \<open>Messages\<close>

definition probe_to_proto :: "wire_env \<Rightarrow> capability_probe_msg \<Rightarrow> pb_probe" where
  "probe_to_proto w m =
     \<lparr>pp_from = Some (agent_id_to_proto w (probe_from m)),
      pp_task_type = task_type_to_i32 (probe_task_type m),
      pp_qos = Some (qos_to_proto (probe_qos m)),
      pp_context_embedding = map_option embedding_to_proto (probe_context_embedding m),
      pp_nonce = probe_nonce m, pp_timestamp = Some (datetime_to_proto (probe_timestamp m)),
      pp_signature = probe_signature m\<rparr>"

definition proto_to_probe ::
  "wire_env \<Rightarrow> datetime \<Rightarrow> pb_probe \<Rightarrow> codec_error + capability_probe_msg" where
  "proto_to_probe w now pb =
     res_bind (require_agent_id w (pp_from pb) ''from'') (\<lambda>from.
     res_bind (proto_to_task_type (pp_task_type pb)) (\<lambda>t.
     res_bind (ok_or (MissingField ''qos'') (pp_qos pb)) (\<lambda>q. Inr
       \<lparr>probe_from = from, probe_task_type = t, probe_qos = proto_to_qos q,
        probe_context_embedding = map_option proto_to_embedding (pp_context_embedding pb),
        probe_nonce = pp_nonce pb, probe_timestamp = datetime_or_now w now (pp_timestamp pb),
        probe_signature = pp_signature pb\<rparr>)))"

definition offer_to_proto :: "wire_env \<Rightarrow> capability_offer_msg \<Rightarrow> pb_offer" where
  "offer_to_proto w m =
     \<lparr>po_from = Some (agent_id_to_proto w (offer_from m)), po_in_reply_to = offer_in_reply_to m,
      po_capability = Some (capability_to_proto (offer_capability m)),
      po_trust_score = offer_trust_score m, po_trust_proof = offer_trust_proof m,
      po_ttl_ms = as_millis_u64 (offer_ttl m),
      po_timestamp = Some (datetime_to_proto (offer_timestamp m)),
      po_signature = offer_signature m\<rparr>"

definition proto_to_offer ::
  "wire_env \<Rightarrow> datetime \<Rightarrow> pb_offer \<Rightarrow> codec_error + capability_offer_msg" where
  "proto_to_offer w now pb =
     res_bind (require_agent_id w (po_from pb) ''from'') (\<lambda>from.
     res_bind (ok_or (MissingField ''capability'') (po_capability pb)) (\<lambda>c.
     res_bind (proto_to_capability c) (\<lambda>cap. Inr
       \<lparr>offer_from = from, offer_in_reply_to = po_in_reply_to pb, offer_capability = cap,
        offer_trust_score = po_trust_score pb, offer_trust_proof = po_trust_proof pb,
        offer_ttl = from_millis (unat (po_ttl_ms pb)),
        offer_timestamp = datetime_or_now w now (po_timestamp pb),
        offer_signature = po_signature pb\<rparr>)))"

definition contract_accept_to_proto :: "wire_env \<Rightarrow> contract_accept_msg \<Rightarrow> pb_contract_accept" where
  "contract_accept_to_proto w m =
     \<lparr>pca_from = Some (agent_id_to_proto w (contract_from m)),
      pca_to = Some (agent_id_to_proto w (contract_to m)),
      pca_agreed_qos = Some (qos_to_proto (contract_agreed_qos m)),
      pca_context_plan = contract_context_plan m, pca_contract_id = uuid_text w (contract_id m),
      pca_expires_ms = of_int (contract_expires_at m div 1000000),
      pca_timestamp = Some (datetime_to_proto (contract_timestamp m)),
      pca_signature = contract_signature m\<rparr>"

definition proto_to_contract_accept ::
  "wire_env \<Rightarrow> (nat \<Rightarrow> datetime) \<Rightarrow> pb_contract_accept \<Rightarrow> codec_error + contract_accept_msg" where
  "proto_to_contract_accept w now pb =
     res_bind (parse_uuid w (pca_contract_id pb)) (\<lambda>cid.
     let expires_at = (case from_timestamp_millis w (sint (pca_expires_ms pb)) of
           Some t \<Rightarrow> t | None \<Rightarrow> now 0)
     in res_bind (require_agent_id w (pca_from pb) ''from'') (\<lambda>from.
     res_bind (require_agent_id w (pca_to pb) ''to'') (\<lambda>to.
     res_bind (ok_or (MissingField ''agreed_qos'') (pca_agreed_qos pb)) (\<lambda>q. Inr
       \<lparr>contract_from = from, contract_to = to, contract_agreed_qos = proto_to_qos q,
        contract_context_plan = pca_context_plan pb, contract_id = cid,
        contract_expires_at = expires_at,
        contract_timestamp = datetime_or_now w (now 1) (pca_timestamp pb),
        contract_signature = pca_signature pb\<rparr>))))"

definition context_request_to_proto ::
  "wire_env \<Rightarrow> datetime \<Rightarrow> context_request_msg \<Rightarrow> pb_context_request" where
  "context_request_to_proto w now m =
     \<lparr>pcr_from = Some (agent_id_to_proto w (creq_from m)),
      pcr_to = Some (agent_id_to_proto w (creq_to m)),
      pcr_task_id = uuid_text w (creq_task_id m),
      pcr_current_confidence = creq_current_confidence m,
      pcr_requested_chunk_indices = creq_requested_chunk_indices m,
      pcr_timestamp = Some (now_proto now)\<rparr>"

definition proto_to_context_request ::
  "wire_env \<Rightarrow> pb_context_request \<Rightarrow> codec_error + context_request_msg" where
  "proto_to_context_request w pb =
     res_bind (parse_uuid w (pcr_task_id pb)) (\<lambda>tid.
     res_bind (require_agent_id w (pcr_from pb) ''from'') (\<lambda>from.
     res_bind (require_agent_id w (pcr_to pb) ''to'') (\<lambda>to. Inr
       \<lparr>creq_from = from, creq_to = to, creq_task_id = tid,
        creq_current_confidence = pcr_current_confidence pb,
        creq_requested_chunk_indices = pcr_requested_chunk_indices pb\<rparr>)))"

definition task_submit_to_proto :: "wire_env \<Rightarrow> datetime \<Rightarrow> task_submit_msg \<Rightarrow> pb_task_submit" where
  "task_submit_to_proto w now m =
     \<lparr>ps_from = Some (agent_id_to_proto w (submit_from m)),
      ps_to = Some (agent_id_to_proto w (submit_to m)),
      ps_task_id = uuid_text w (submit_task_id m),
      ps_task_type = task_type_to_i32 (submit_task_type m), ps_payload = submit_payload m,
      ps_context = Some (context_diff_to_proto (submit_context m)),
      ps_contract_id = uuid_text w (submit_contract_id m),
      ps_timestamp = Some (now_proto now)\<rparr>"

definition proto_to_task_submit :: "wire_env \<Rightarrow> pb_task_submit \<Rightarrow> codec_error + task_submit_msg" where
  "proto_to_task_submit w pb =
     res_bind (parse_uuid w (ps_task_id pb)) (\<lambda>tid.
     res_bind (parse_uuid w (ps_contract_id pb)) (\<lambda>cid.
     res_bind (ok_or (MissingField ''context'') (ps_context pb)) (\<lambda>ctx.
     res_bind (require_agent_id w (ps_from pb) ''from'') (\<lambda>from.
     res_bind (require_agent_id w (ps_to pb) ''to'') (\<lambda>to.
     res_bind (proto_to_task_type (ps_task_type pb)) (\<lambda>t. Inr
       \<lparr>submit_from = from, submit_to = to, submit_task_id = tid, submit_task_type = t,
        submit_payload = ps_payload pb, submit_context = proto_to_context_diff ctx,
        submit_contract_id = cid\<rparr>))))))"

definition task_result_to_proto :: "wire_env \<Rightarrow> datetime \<Rightarrow> task_result \<Rightarrow> pb_task_result" where
  "task_result_to_proto w now r =
     \<lparr>ptr_from = Some (agent_id_to_proto w (tr_from r)), ptr_task_id = uuid_text w (tr_task_id r),
      ptr_quality_self_report = tr_quality_self_report r, ptr_payload = tr_payload r,
      ptr_elapsed_ms = as_millis_u64 (tr_elapsed r), ptr_actual_cost = tr_actual_cost r,
      ptr_timestamp = Some (now_proto now)\<rparr>"

definition proto_to_task_result :: "wire_env \<Rightarrow> pb_task_result \<Rightarrow> codec_error + task_result" where
  "proto_to_task_result w pb =
     res_bind (parse_uuid w (ptr_task_id pb)) (\<lambda>tid.
     res_bind (require_agent_id w (ptr_from pb) ''from'') (\<lambda>from. Inr
       \<lparr>tr_task_id = tid, tr_from = from, tr_quality_self_report = ptr_quality_self_report pb,
        tr_payload = ptr_payload pb, tr_elapsed = from_millis (unat (ptr_elapsed_ms pb)),
        tr_actual_cost = ptr_actual_cost pb\<rparr>))"

definition interaction_proof_to_proto ::
  "wire_env \<Rightarrow> interaction_proof_msg \<Rightarrow> pb_interaction_proof" where
  "interaction_proof_to_proto w m =
     \<lparr>pip_evaluator = Some (agent_id_to_proto w (proof_evaluator m)),
      pip_subject = Some (agent_id_to_proto w (proof_subject m)),
      pip_task_id = uuid_text w (proof_task_id m),
      pip_task_type = task_type_to_i32 (proof_task_type m),
      pip_quality_score = proof_quality_score m, pip_latency_ms = proof_latency_ms m,
      pip_cost = proof_cost m, pip_timestamp = Some (datetime_to_proto (proof_timestamp m)),
      pip_signature = proof_signature m\<rparr>"

definition proto_to_interaction_proof ::
  "wire_env \<Rightarrow> datetime \<Rightarrow> pb_interaction_proof \<Rightarrow> codec_error + interaction_proof_msg" where
  "proto_to_interaction_proof w now pb =
     res_bind (parse_uuid w (pip_task_id pb)) (\<lambda>tid.
     res_bind (require_agent_id w (pip_evaluator pb) ''evaluator'') (\<lambda>evaluator.
     res_bind (require_agent_id w (pip_subject pb) ''subject'') (\<lambda>subject.
     res_bind (proto_to_task_type (pip_task_type pb)) (\<lambda>t. Inr
       \<lparr>proof_evaluator = evaluator, proof_subject = subject, proof_task_id = tid,
        proof_task_type = t, proof_quality_score = pip_quality_score pb,
        proof_latency_ms = pip_latency_ms pb, proof_cost = pip_cost pb,
        proof_timestamp = datetime_or_now w now (pip_timestamp pb),
        proof_signature = pip_signature pb\<rparr>))))"

definition heartbeat_to_proto :: "wire_env \<Rightarrow> datetime \<Rightarrow> heartbeat_msg \<Rightarrow> pb_heartbeat" where
  "heartbeat_to_proto w now m =
     \<lparr>ph_from = Some (agent_id_to_proto w (hb_from m)), ph_sequence = hb_sequence m,
      ph_queue_depth = hb_queue_depth m, ph_load_factor = hb_load_factor m,
      ph_timestamp = Some (now_proto now)\<rparr>"

definition proto_to_heartbeat :: "wire_env \<Rightarrow> pb_heartbeat \<Rightarrow> codec_error + heartbeat_msg" where
  "proto_to_heartbeat w pb =
     res_bind (require_agent_id w (ph_from pb) ''from'') (\<lambda>from. Inr
       \<lparr>hb_from = from, hb_sequence = ph_sequence pb, hb_queue_depth = ph_queue_depth pb,
        hb_load_factor = ph_load_factor pb\<rparr>)"

definition backpressure_to_proto :: "wire_env \<Rightarrow> datetime \<Rightarrow> backpressure_msg \<Rightarrow> pb_backpressure" where
  "backpressure_to_proto w now m =
     \<lparr>pb_from = Some (agent_id_to_proto w (bp_from m)), pb_queue_depth = bp_queue_depth m,
      pb_recommended_rate = bp_recommended_rate m,
      pb_estimated_drain_ms = bp_estimated_drain_ms m, pb_timestamp = Some (now_proto now)\<rparr>"

definition proto_to_backpressure :: "wire_env \<Rightarrow> pb_backpressure \<Rightarrow> codec_error + backpressure_msg" where
  "proto_to_backpressure w pb =
     res_bind (require_agent_id w (pb_from pb) ''from'') (\<lambda>from. Inr
       \<lparr>bp_from = from, bp_queue_depth = pb_queue_depth pb,
        bp_recommended_rate = pb_recommended_rate pb,
        bp_estimated_drain_ms = pb_estimated_drain_ms pb\<rparr>)"

definition circuit_break_to_proto :: "wire_env \<Rightarrow> datetime \<Rightarrow> circuit_break_msg \<Rightarrow> pb_circuit_break" where
  "circuit_break_to_proto w now m =
     \<lparr>pcb_from = Some (agent_id_to_proto w (cb_from m)),
      pcb_target = Some (agent_id_to_proto w (cb_target m)),
      pcb_state = pb_circuit_state_number (circuit_state_to_proto (cb_state m)),
      pcb_failure_count = cb_failure_count m, pcb_timestamp = Some (now_proto now)\<rparr>"

definition proto_to_circuit_break :: "wire_env \<Rightarrow> pb_circuit_break \<Rightarrow> codec_error + circuit_break_msg" where
  "proto_to_circuit_break w pb =
     res_bind (require_agent_id w (pcb_from pb) ''from'') (\<lambda>from.
     res_bind (require_agent_id w (pcb_target pb) ''target'') (\<lambda>target.
     res_bind (proto_to_circuit_state (pcb_state pb)) (\<lambda>st. Inr
       \<lparr>cb_from = from, cb_target = target, cb_state = st,
        cb_failure_count = pcb_failure_count pb\<rparr>)))"

section \<open>What a codec owes its callers\<close>

text \<open>
  The contract of an encoder and a decoder: what is decoded from an encoded message is a fixed part
  of it, its \<open>view\<close> (durations are cut to milliseconds), and seeing a view again changes nothing.
\<close>

primrec relay :: "('p \<Rightarrow> 'e + 'm) \<Rightarrow> ('m \<Rightarrow> 'p) \<Rightarrow> nat \<Rightarrow> 'm \<Rightarrow> 'e + 'm" where
  "relay dec enc 0 m = Inr m"
| "relay dec enc (Suc n) m = res_bind (dec (enc m)) (relay dec enc n)"

locale wire_codec =
  fixes enc :: "'m \<Rightarrow> 'p"
    and dec :: "'p \<Rightarrow> 'e + 'm"
    and view :: "'m \<Rightarrow> 'm"
    and ok :: "'m \<Rightarrow> bool"
  assumes dec_enc: "ok m \<Longrightarrow> dec (enc m) = Inr (view m)"
    and view_ok: "ok m \<Longrightarrow> ok (view m)"
    and view_idem: "view (view m) = view m"
begin

lemma lossless: "ok m \<Longrightarrow> view m = m \<Longrightarrow> dec (enc m) = Inr m"
  by (simp add: dec_enc)

lemma relayed: "ok m \<Longrightarrow> relay dec enc (Suc n) m = Inr (view m)"
  by (induction n arbitrary: m) (simp_all add: dec_enc view_ok view_idem)

lemma same_wire_same_view: "ok m \<Longrightarrow> ok m' \<Longrightarrow> enc m = enc m' \<Longrightarrow> view m = view m'"
  by (metis dec_enc sum.inject(2))

lemma batch: "\<forall>m \<in> set ms. ok m \<Longrightarrow> collect_results dec (map enc ms) = Inr (map view ms)"
  by (intro collect_results_map) (simp add: dec_enc)

end

section \<open>Durations and instants on the wire\<close>

definition dur_view :: "duration \<Rightarrow> duration" where
  "dur_view d = from_millis (unat (as_millis_u64 d))"

lemma dur_view_mod: "dur_view d = d div 1000000 mod 2 ^ 64 * 1000000"
  by (simp add: dur_view_def from_millis_def as_millis_u64_def as_millis_def unat_of_nat)

lemma dur_view_le: "dur_view d \<le> d"
proof -
  have "d div 1000000 mod 2 ^ 64 \<le> d div 1000000" by (rule mod_less_eq_dividend)
  then have "d div 1000000 mod 2 ^ 64 * 1000000 \<le> d div 1000000 * 1000000" by (rule mult_right_mono) simp
  also have "\<dots> \<le> d" by (rule div_times_less_eq_dividend)
  finally show ?thesis by (simp only: dur_view_mod)
qed

lemma dur_view_exact: "dur_view d = d \<longleftrightarrow> d mod 1000000 = 0 \<and> d div 1000000 < 2 ^ 64"
proof
  assume h: "dur_view d = d"
  then have d: "d = d div 1000000 mod 2 ^ 64 * 1000000" by (simp only: dur_view_mod)
  have "d mod 1000000 = 0" by (subst d) (rule mod_mult_self2_is_0)
  moreover have "d div 1000000 = d div 1000000 mod 2 ^ 64" by (subst d) (rule nonzero_mult_div_cancel_right, simp)
  moreover have "d div 1000000 mod 2 ^ 64 < 2 ^ 64" by (rule mod_less_divisor) simp
  ultimately show "d mod 1000000 = 0 \<and> d div 1000000 < 2 ^ 64" by simp
next
  assume "d mod 1000000 = 0 \<and> d div 1000000 < 2 ^ 64"
  then have "d div 1000000 mod 2 ^ 64 * 1000000 = d"
    by (metis mod_less mult_div_mod_eq add.right_neutral mult.commute)
  then show "dur_view d = d" by (simp only: dur_view_mod)
qed

lemma dur_view_idem [simp]: "dur_view (dur_view d) = dur_view d"
proof -
  have "as_millis_u64 (from_millis (unat x)) = x" for x :: u64
    by (simp add: as_millis_u64_def as_millis_def from_millis_def)
  then show ?thesis by (simp add: dur_view_def)
qed

lemma millis_ok: "dur_ok (from_millis (unat (x :: u64)))"
proof -
  have "unat x < 2 ^ 64" using unsigned_less [of x] by simp
  then have "unat x * 1000000 \<le> 2 ^ 64 * 1000000" by simp
  also have "\<dots> \<le> DURATION_MAX" by (simp add: DURATION_MAX_def NANOS_PER_SEC_def)
  finally show ?thesis by (simp add: dur_ok_def from_millis_def)
qed

lemma of_int_i64:
  assumes "- (2 ^ 63) \<le> k" "k < 2 ^ 63"
  shows "sint (of_int k :: i64) = k"
  using assms by (simp add: signed_of_int signed_take_bit_int_eq_self)

lemma nanos_i32:
  assumes "0 \<le> k" "k < 1000000000"
  shows "nat (max (sint (of_int k :: i32)) 0) = nat k"
proof -
  have "signed_take_bit (LENGTH(32) - Suc 0) k = k"
    using assms by (intro signed_take_bit_int_eq_self) simp_all
  then show ?thesis using assms(1) by (simp add: signed_of_int)
qed

lemma datetime_round_trip:
  assumes "wire_sound w" "datetime_ok w t"
  shows "proto_to_datetime w now (datetime_to_proto t) = t"
proof -
  have "0 \<le> t mod 1000000000" "t mod 1000000000 < 1000000000"
    by (rule pos_mod_sign pos_mod_bound, simp)+
  then have n: "nat (max (sint (of_int (t mod 1000000000) :: i32)) 0) = nat (t mod 1000000000)"
    by (rule nanos_i32)
  have s: "sint (of_int (t div 1000000000) :: i64) = t div 1000000000"
    using wire_soundD(3) [OF assms] by (intro of_int_i64) simp_all
  show ?thesis
    unfolding proto_to_datetime_def datetime_to_proto_def pb_timestamp.select_convs n s
    by (simp only: wire_soundD(2) [OF assms] option.case)
qed

lemma datetime_decoded:
  assumes "wire_sound w" "datetime_ok w now"
  shows "datetime_ok w (proto_to_datetime w now ts)" "datetime_ok w (datetime_or_now w now ots)"
proof -
  have *: "datetime_ok w (proto_to_datetime w now ts)" for ts
    using assms(2) wire_soundD(6) [OF assms(1)]
    by (auto simp: proto_to_datetime_def split: option.split)
  show "datetime_ok w (proto_to_datetime w now ts)" by (rule *)
  show "datetime_ok w (datetime_or_now w now ots)"
    using assms(2) * by (simp add: datetime_or_now_def split: option.split)
qed

definition instant_view :: "datetime \<Rightarrow> datetime" where
  "instant_view t = t - t mod 1000000"

lemma instant_round_trip:
  assumes "wire_sound w" "datetime_ok w t"
  shows "from_timestamp_millis w (sint (of_int (t div 1000000) :: u64)) = Some (instant_view t)"
    and "datetime_ok w (instant_view t)"
proof -
  have s: "sint (of_int (t div 1000000) :: u64) = t div 1000000"
    using wire_soundD(5) [OF assms] by (intro of_int_i64) simp_all
  show e: "from_timestamp_millis w (sint (of_int (t div 1000000) :: u64)) = Some (instant_view t)"
    unfolding s instant_view_def by (rule wire_soundD(4) [OF assms])
  show "datetime_ok w (instant_view t)" by (rule wire_soundD(7) [OF assms(1) e])
qed

lemma instant_view_idem [simp]: "instant_view (instant_view t) = instant_view t"
proof -
  have "(t - t mod 1000000) mod 1000000 = 0" by (simp add: minus_mod_eq_mult_div)
  then show ?thesis by (simp add: instant_view_def)
qed

end
