(* ===== verification/Codec_Correct.thy ===== *)
theory Codec_Correct
  imports Codec
begin

text \<open>
  What the codec preserves, message by message and for all messages together: round trips up to the
  view, exactly which wire messages are accepted, and the type invariants of what is decoded.
\<close>

section \<open>Parts of messages\<close>

lemma agent_id_codec [simp]:
  assumes "wire_sound w"
  shows "proto_to_agent_id w (agent_id_to_proto w a) = Inr a"
    and "require_agent_id w (Some (agent_id_to_proto w a)) f = Inr a"
    and "parse_uuid w (uuid_text w u) = Inr u"
  using wire_soundD(1) [OF assms]
  by (simp_all add: proto_to_agent_id_def agent_id_to_proto_def require_agent_id_def parse_uuid_def)

lemma agent_ids_codec:
  assumes "wire_sound w"
  shows "collect_results (proto_to_agent_id w) (map (agent_id_to_proto w) as) = Inr as"
  using collect_results_map [of as "proto_to_agent_id w" "agent_id_to_proto w" id]
  by (simp add: agent_id_codec [OF assms])

lemma task_type_codec [simp]: "proto_to_task_type (task_type_to_i32 t) = Inr t"
  unfolding proto_to_task_type_def task_type_to_i32_def pb_task_type_of_number by (cases t) simp_all

lemma pattern_codec [simp]: "proto_to_routing_pattern (routing_pattern_to_i32 p) = Inr p"
  unfolding proto_to_routing_pattern_def routing_pattern_to_i32_def pb_routing_pattern_of_number
  by (cases p) simp_all

lemma circuit_codec [simp]:
  "proto_to_circuit_state (pb_circuit_state_number (circuit_state_to_proto c)) = Inr c"
  unfolding proto_to_circuit_state_def pb_circuit_state_of_number by (cases c) simp_all

definition qos_view :: "qos_constraints \<Rightarrow> qos_constraints" where
  "qos_view q = q\<lparr>max_latency := dur_view (max_latency q)\<rparr>"

definition capability_view :: "capability \<Rightarrow> capability" where
  "capability_view c = c\<lparr>cap_estimated_latency := dur_view (cap_estimated_latency c)\<rparr>"

definition embedding_view :: "context_embedding \<Rightarrow> context_embedding" where
  "embedding_view e = e\<lparr>emb_dimensions := emb_dimensions e mod 2 ^ 32\<rparr>"

definition metrics_view :: "route_metrics \<Rightarrow> route_metrics" where
  "metrics_view m = m\<lparr>rm_latency := dur_view (rm_latency m)\<rparr>"

lemma qos_codec [simp]: "proto_to_qos (qos_to_proto q) = qos_view q"
  by (simp add: proto_to_qos_def qos_to_proto_def qos_view_def dur_view_def)

lemma capability_codec [simp]: "proto_to_capability (capability_to_proto c) = Inr (capability_view c)"
  by (simp add: proto_to_capability_def capability_to_proto_def capability_view_def dur_view_def)

lemma embedding_codec [simp]: "proto_to_embedding (embedding_to_proto e) = embedding_view e"
  by (simp add: proto_to_embedding_def embedding_to_proto_def embedding_view_def unat_of_nat)

lemma chunk_codec [simp]: "proto_to_context_chunk (context_chunk_to_proto c) = c"
  by (simp add: proto_to_context_chunk_def context_chunk_to_proto_def)

lemma chunks_codec [simp]:
  "map (proto_to_context_chunk \<circ> context_chunk_to_proto) cs = cs"
  by (simp add: comp_def)

lemma diff_codec: "length (diff_base_hash d) = 32 \<Longrightarrow> proto_to_context_diff (context_diff_to_proto d) = d"
  by (simp add: proto_to_context_diff_def context_diff_to_proto_def Let_def)

lemma metrics_codec [simp]:
  "proto_to_route_metrics (route_metrics_to_proto m) = metrics_view m"
  by (simp add: proto_to_route_metrics_def route_metrics_to_proto_def metrics_view_def dur_view_def)

lemma views_idem [simp]:
  "qos_view (qos_view q) = qos_view q" "capability_view (capability_view c) = capability_view c"
  "embedding_view (embedding_view e) = embedding_view e" "metrics_view (metrics_view m) = metrics_view m"
  by (simp_all add: qos_view_def capability_view_def embedding_view_def metrics_view_def)

section \<open>All messages\<close>

text \<open>Everything the codec converts as a whole, on either side.\<close>

datatype wire_message =
    WProbe capability_probe_msg | WOffer capability_offer_msg | WContract contract_accept_msg
  | WContextRequest context_request_msg | WTaskSubmit task_submit_msg | WTaskResult task_result
  | WInteractionProof interaction_proof_msg | WHeartbeat heartbeat_msg
  | WBackpressure backpressure_msg | WCircuitBreak circuit_break_msg | WRoute route

datatype pb_message =
    PProbe pb_probe | POffer pb_offer | PContract pb_contract_accept
  | PContextRequest pb_context_request | PTaskSubmit pb_task_submit | PTaskResult pb_task_result
  | PInteractionProof pb_interaction_proof | PHeartbeat pb_heartbeat
  | PBackpressure pb_backpressure | PCircuitBreak pb_circuit_break | PRoute pb_route

fun encode_message :: "wire_env \<Rightarrow> datetime \<Rightarrow> wire_message \<Rightarrow> pb_message" where
  "encode_message w now (WProbe m) = PProbe (probe_to_proto w m)"
| "encode_message w now (WOffer m) = POffer (offer_to_proto w m)"
| "encode_message w now (WContract m) = PContract (contract_accept_to_proto w m)"
| "encode_message w now (WContextRequest m) = PContextRequest (context_request_to_proto w now m)"
| "encode_message w now (WTaskSubmit m) = PTaskSubmit (task_submit_to_proto w now m)"
| "encode_message w now (WTaskResult m) = PTaskResult (task_result_to_proto w now m)"
| "encode_message w now (WInteractionProof m) = PInteractionProof (interaction_proof_to_proto w m)"
| "encode_message w now (WHeartbeat m) = PHeartbeat (heartbeat_to_proto w now m)"
| "encode_message w now (WBackpressure m) = PBackpressure (backpressure_to_proto w now m)"
| "encode_message w now (WCircuitBreak m) = PCircuitBreak (circuit_break_to_proto w now m)"
| "encode_message w now (WRoute r) = PRoute (route_to_proto w r)"

abbreviation map_res :: "('a \<Rightarrow> 'b) \<Rightarrow> 'e + 'a \<Rightarrow> 'e + 'b" where
  "map_res f r \<equiv> res_bind r (\<lambda>x. Inr (f x))"

fun decode_message ::
  "wire_env \<Rightarrow> (nat \<Rightarrow> datetime) \<Rightarrow> pb_message \<Rightarrow> codec_error + wire_message" where
  "decode_message w now (PProbe pb) = map_res WProbe (proto_to_probe w (now 0) pb)"
| "decode_message w now (POffer pb) = map_res WOffer (proto_to_offer w (now 0) pb)"
| "decode_message w now (PContract pb) = map_res WContract (proto_to_contract_accept w now pb)"
| "decode_message w now (PContextRequest pb) = map_res WContextRequest (proto_to_context_request w pb)"
| "decode_message w now (PTaskSubmit pb) = map_res WTaskSubmit (proto_to_task_submit w pb)"
| "decode_message w now (PTaskResult pb) = map_res WTaskResult (proto_to_task_result w pb)"
| "decode_message w now (PInteractionProof pb) =
     map_res WInteractionProof (proto_to_interaction_proof w (now 0) pb)"
| "decode_message w now (PHeartbeat pb) = map_res WHeartbeat (proto_to_heartbeat w pb)"
| "decode_message w now (PBackpressure pb) = map_res WBackpressure (proto_to_backpressure w pb)"
| "decode_message w now (PCircuitBreak pb) = map_res WCircuitBreak (proto_to_circuit_break w pb)"
| "decode_message w now (PRoute pb) = map_res WRoute (proto_to_route w (now 0) pb)"

text \<open>The type invariants of the domain: what a \<open>[u8; 32]\<close> and a \<open>DateTime<Utc>\<close> guarantee.\<close>

fun message_ok :: "wire_env \<Rightarrow> wire_message \<Rightarrow> bool" where
  "message_ok w (WProbe m) = datetime_ok w (probe_timestamp m)"
| "message_ok w (WOffer m) = datetime_ok w (offer_timestamp m)"
| "message_ok w (WContract m) =
     (datetime_ok w (contract_expires_at m) \<and> datetime_ok w (contract_timestamp m))"
| "message_ok w (WTaskSubmit m) = (length (diff_base_hash (submit_context m)) = 32)"
| "message_ok w (WInteractionProof m) = datetime_ok w (proof_timestamp m)"
| "message_ok w (WRoute r) = datetime_ok w (route_computed_at r)"
| "message_ok w _ = True"

fun message_view :: "wire_message \<Rightarrow> wire_message" where
  "message_view (WProbe m) = WProbe (m\<lparr>probe_qos := qos_view (probe_qos m),
     probe_context_embedding := map_option embedding_view (probe_context_embedding m)\<rparr>)"
| "message_view (WOffer m) = WOffer (m\<lparr>offer_capability := capability_view (offer_capability m),
     offer_ttl := dur_view (offer_ttl m)\<rparr>)"
| "message_view (WContract m) = WContract (m\<lparr>contract_agreed_qos := qos_view (contract_agreed_qos m),
     contract_expires_at := instant_view (contract_expires_at m)\<rparr>)"
| "message_view (WTaskResult m) = WTaskResult (m\<lparr>tr_elapsed := dur_view (tr_elapsed m)\<rparr>)"
| "message_view (WRoute r) = WRoute (r\<lparr>route_metrics := metrics_view (route_metrics r),
     route_ttl := dur_view (route_ttl r)\<rparr>)"
| "message_view m = m"

lemmas message_codecs =
  probe_to_proto_def proto_to_probe_def offer_to_proto_def proto_to_offer_def
  contract_accept_to_proto_def proto_to_contract_accept_def context_request_to_proto_def
  proto_to_context_request_def task_submit_to_proto_def proto_to_task_submit_def
  task_result_to_proto_def proto_to_task_result_def interaction_proof_to_proto_def
  proto_to_interaction_proof_def heartbeat_to_proto_def proto_to_heartbeat_def
  backpressure_to_proto_def proto_to_backpressure_def circuit_break_to_proto_def
  proto_to_circuit_break_def route_to_proto_def proto_to_route_def

lemma message_round_trip:
  assumes "wire_sound w" "message_ok w m"
  shows "decode_message w clk (encode_message w now m) = Inr (message_view m)"
  using assms(2)
  by (cases m)
    (simp_all add: message_codecs Let_def agent_id_codec [OF assms(1)] agent_ids_codec [OF assms(1)]
      datetime_or_now_def datetime_round_trip [OF assms(1)] instant_round_trip(1) [OF assms(1)]
      diff_codec dur_view_def [symmetric] option.map_comp comp_def)

lemma message_view_ok: "wire_sound w \<Longrightarrow> message_ok w m \<Longrightarrow> message_ok w (message_view m)"
  by (cases m) (simp_all add: instant_round_trip(2))

lemma message_view_idem: "message_view (message_view m) = message_view m"
  by (cases m) (simp_all add: option.map_comp comp_def)

interpretation wire: wire_codec "encode_message w now" "decode_message w clk" message_view
  "\<lambda>m. wire_sound w \<and> message_ok w m" for w now clk
  by unfold_locales (simp_all add: message_round_trip message_view_ok message_view_idem)

section \<open>What is accepted\<close>

lemma task_type_accepted: "(\<exists>t. proto_to_task_type v = Inr t) \<longleftrightarrow> v \<in> {1, 2, 3, 4}"
proof
  assume "\<exists>t. proto_to_task_type v = Inr t"
  then obtain e where "pb_task_type_of v = Some e" "e \<noteq> PbTaskUnspecified"
    by (auto simp: proto_to_task_type_def split: option.splits pb_task_type.splits)
  then show "v \<in> {1, 2, 3, 4}" using pb_task_type_of_Some [of v e] by (cases e) auto
next
  assume "v \<in> {1, 2, 3, 4}"
  then have "v = task_type_to_i32 CodeGeneration \<or> v = task_type_to_i32 Analysis
      \<or> v = task_type_to_i32 CreativeWriting \<or> v = task_type_to_i32 DataProcessing"
    by (auto simp: task_type_to_i32_def)
  then show "\<exists>t. proto_to_task_type v = Inr t" using task_type_codec by blast
qed

lemma pattern_accepted: "(\<exists>p. proto_to_routing_pattern v = Inr p) \<longleftrightarrow> v \<in> {1, 2, 3, 4, 5}"
proof
  assume "\<exists>p. proto_to_routing_pattern v = Inr p"
  then obtain e where "pb_routing_pattern_of v = Some e" "e \<noteq> PbPatternUnspecified"
    by (auto simp: proto_to_routing_pattern_def split: option.splits pb_routing_pattern.splits)
  then show "v \<in> {1, 2, 3, 4, 5}" using pb_routing_pattern_of_Some [of v e] by (cases e) auto
next
  assume "v \<in> {1, 2, 3, 4, 5}"
  then have "v = routing_pattern_to_i32 DraftRefine \<or> v = routing_pattern_to_i32 ParallelMerge
      \<or> v = routing_pattern_to_i32 Cascade \<or> v = routing_pattern_to_i32 Ensemble
      \<or> v = routing_pattern_to_i32 Pipeline"
    by (auto simp: routing_pattern_to_i32_def)
  then show "\<exists>p. proto_to_routing_pattern v = Inr p" using pattern_codec by blast
qed

lemma circuit_accepted: "(\<exists>c. proto_to_circuit_state v = Inr c) \<longleftrightarrow> v \<in> {1, 2, 3}"
proof
  assume "\<exists>c. proto_to_circuit_state v = Inr c"
  then obtain e where "pb_circuit_state_of v = Some e" "e \<noteq> PbCircuitUnspecified"
    by (auto simp: proto_to_circuit_state_def split: option.splits pb_circuit_state.splits)
  then show "v \<in> {1, 2, 3}" using pb_circuit_state_of_Some [of v e] by (cases e) auto
next
  assume "v \<in> {1, 2, 3}"
  then have "v = pb_circuit_state_number (circuit_state_to_proto Closed)
      \<or> v = pb_circuit_state_number (circuit_state_to_proto Open)
      \<or> v = pb_circuit_state_number (circuit_state_to_proto HalfOpen)" by auto
  then show "\<exists>c. proto_to_circuit_state v = Inr c" using circuit_codec by blast
qed

definition id_readable :: "wire_env \<Rightarrow> string \<Rightarrow> bool" where
  "id_readable w s \<longleftrightarrow> uuid_parse w s \<noteq> None"

definition agent_readable :: "wire_env \<Rightarrow> pb_agent_id option \<Rightarrow> bool" where
  "agent_readable w a \<longleftrightarrow> (case a of None \<Rightarrow> False | Some p \<Rightarrow> id_readable w (pa_uuid p))"

lemma parse_uuid_accepted: "(\<exists>u. parse_uuid w s = Inr u) \<longleftrightarrow> id_readable w s"
  by (simp add: parse_uuid_def id_readable_def)

lemma agent_id_accepted:
  "(\<exists>a. proto_to_agent_id w p = Inr a) \<longleftrightarrow> id_readable w (pa_uuid p)"
  by (simp add: proto_to_agent_id_def res_bind_Inr_conv parse_uuid_accepted)

lemma require_accepted: "(\<exists>a. require_agent_id w p f = Inr a) \<longleftrightarrow> agent_readable w p"
  by (cases p) (simp_all add: require_agent_id_def agent_readable_def agent_id_accepted)

lemma collect_accepted: "(\<exists>ys. collect_results f xs = Inr ys) \<longleftrightarrow> (\<forall>x \<in> set xs. \<exists>y. f x = Inr y)"
  by (induction xs) (auto simp: res_bind_Inr_conv)

text \<open>The wire messages that carry everything their decoder needs.\<close>

fun readable :: "wire_env \<Rightarrow> pb_message \<Rightarrow> bool" where
  "readable w (PProbe m) \<longleftrightarrow> agent_readable w (pp_from m) \<and> pp_task_type m \<in> {1, 2, 3, 4}
     \<and> pp_qos m \<noteq> None"
| "readable w (POffer m) \<longleftrightarrow> agent_readable w (po_from m)
     \<and> (case po_capability m of None \<Rightarrow> False | Some c \<Rightarrow> pc_task_type c \<in> {1, 2, 3, 4})"
| "readable w (PContract m) \<longleftrightarrow> id_readable w (pca_contract_id m) \<and> agent_readable w (pca_from m)
     \<and> agent_readable w (pca_to m) \<and> pca_agreed_qos m \<noteq> None"
| "readable w (PContextRequest m) \<longleftrightarrow> id_readable w (pcr_task_id m)
     \<and> agent_readable w (pcr_from m) \<and> agent_readable w (pcr_to m)"
| "readable w (PTaskSubmit m) \<longleftrightarrow> id_readable w (ps_task_id m) \<and> id_readable w (ps_contract_id m)
     \<and> ps_context m \<noteq> None \<and> agent_readable w (ps_from m) \<and> agent_readable w (ps_to m)
     \<and> ps_task_type m \<in> {1, 2, 3, 4}"
| "readable w (PTaskResult m) \<longleftrightarrow> id_readable w (ptr_task_id m) \<and> agent_readable w (ptr_from m)"
| "readable w (PInteractionProof m) \<longleftrightarrow> id_readable w (pip_task_id m)
     \<and> agent_readable w (pip_evaluator m) \<and> agent_readable w (pip_subject m)
     \<and> pip_task_type m \<in> {1, 2, 3, 4}"
| "readable w (PHeartbeat m) \<longleftrightarrow> agent_readable w (ph_from m)"
| "readable w (PBackpressure m) \<longleftrightarrow> agent_readable w (pb_from m)"
| "readable w (PCircuitBreak m) \<longleftrightarrow> agent_readable w (pcb_from m) \<and> agent_readable w (pcb_target m)
     \<and> pcb_state m \<in> {1, 2, 3}"
| "readable w (PRoute m) \<longleftrightarrow> id_readable w (pr_route_id m) \<and> pr_pattern m \<in> {1, 2, 3, 4, 5}
     \<and> pr_route_metrics m \<noteq> None \<and> (\<forall>a \<in> set (pr_agents m). id_readable w (pa_uuid a))"

lemma res_bind_accepted:
  "(\<exists>y. res_bind r f = Inr y) \<longleftrightarrow> (\<exists>x. r = Inr x \<and> (\<exists>y. f x = Inr y))"
  by (auto simp: res_bind_Inr_conv)

lemma capability_accepted: "(\<exists>c. proto_to_capability p = Inr c) \<longleftrightarrow> pc_task_type p \<in> {1, 2, 3, 4}"
  by (simp only: proto_to_capability_def res_bind_accepted task_type_accepted [symmetric]) blast

lemmas accepted_parts =
  res_bind_accepted require_accepted parse_uuid_accepted task_type_accepted pattern_accepted
  circuit_accepted capability_accepted agent_id_accepted collect_accepted

section \<open>Types of decoded messages\<close>

fun message_durations :: "wire_message \<Rightarrow> duration list" where
  "message_durations (WProbe m) = [max_latency (probe_qos m)]"
| "message_durations (WOffer m) = [cap_estimated_latency (offer_capability m), offer_ttl m]"
| "message_durations (WContract m) = [max_latency (contract_agreed_qos m)]"
| "message_durations (WTaskResult m) = [tr_elapsed m]"
| "message_durations (WRoute r) = [rm_latency (route_metrics r), route_ttl r]"
| "message_durations _ = []"

lemma millis_view [simp]: "dur_view (from_millis (unat (x :: u64))) = from_millis (unat x)"
  by (simp add: dur_view_def as_millis_u64_def as_millis_def from_millis_def)

lemma decoded_hash: "length (diff_base_hash (proto_to_context_diff pb)) = 32"
  by (simp add: proto_to_context_diff_def Let_def)

lemma capability_decoded:
  "proto_to_capability pb = Inr c \<Longrightarrow> dur_ok (cap_estimated_latency c)
     \<and> dur_view (cap_estimated_latency c) = cap_estimated_latency c"
  by (auto simp: proto_to_capability_def res_bind_Inr_conv millis_ok)

lemma expiry_decoded:
  assumes "wire_sound w" "\<And>i. datetime_ok w (now i)"
  shows "datetime_ok w (case from_timestamp_millis w k of Some t \<Rightarrow> t | None \<Rightarrow> now i)"
  using assms(2) wire_soundD(7) [OF assms(1)] by (simp split: option.split)

lemma message_decoded:
  assumes "wire_sound w" "\<And>i. datetime_ok w (now i)" "decode_message w now pb = Inr m"
  shows "message_ok w m \<and> (\<forall>d \<in> set (message_durations m). dur_ok d \<and> dur_view d = d)"
  using assms(3)
  by (cases pb)
    (auto simp: message_codecs Let_def res_bind_Inr_conv datetime_decoded [OF assms(1,2)]
      expiry_decoded [OF assms(1,2)] decoded_hash millis_ok proto_to_qos_def proto_to_route_metrics_def
      dest: capability_decoded intro: expiry_decoded [OF assms(1,2)])

lemma unat_u32_mod [simp]: "unat (x :: u32) mod 2 ^ 32 = unat x"
proof -
  have "unat x < 2 ^ 32" using unsigned_less [of x, where 'a = nat] by simp
  then show ?thesis by simp
qed

lemma decoded_parts_normal [simp]:
  "qos_view (proto_to_qos pq) = proto_to_qos pq"
  "metrics_view (proto_to_route_metrics pm) = proto_to_route_metrics pm"
  "embedding_view (proto_to_embedding pe) = proto_to_embedding pe"
  "map_option (embedding_view \<circ> proto_to_embedding) ope = map_option proto_to_embedding ope"
  by (simp_all add: proto_to_qos_def qos_view_def proto_to_route_metrics_def metrics_view_def
      proto_to_embedding_def [abs_def] embedding_view_def comp_def unat_u32_mod [simplified])

lemma capability_normal: "proto_to_capability pc = Inr c \<Longrightarrow> capability_view c = c"
  by (auto simp: proto_to_capability_def capability_view_def res_bind_Inr_conv)

lemma hash_normal:
  "diff_base_hash (proto_to_context_diff pb) = take 32 (pd_base_hash pb @ replicate 32 0)"
  by (simp add: proto_to_context_diff_def Let_def min_def take_replicate)

text \<open>What forwarding a decoded message may still change: only the expiry of a contract.\<close>

fun forwarded :: "wire_message \<Rightarrow> wire_message" where
  "forwarded (WContract m) =
     WContract (m\<lparr>contract_expires_at := instant_view (contract_expires_at m)\<rparr>)"
| "forwarded m = m"

lemma decoded_view: "decode_message w now pb = Inr m \<Longrightarrow> message_view m = forwarded m"
  by (cases pb)
    (auto simp: message_codecs Let_def res_bind_Inr_conv option.map_comp dest: capability_normal)

section \<open>Properties\<close>

text \<open>
  C6. What the wire preserves: a message of any kind whose timestamps are representable instants
  (and whose base hash, if it has one, has 32 bytes), encoded by one agent and decoded by another,
  arrives as its view. The view cuts durations to whole milliseconds, reduces their number modulo
  \<open>2^64\<close>, cuts the expiry of a contract to whole milliseconds, reduces the dimension count of an
  embedding modulo \<open>2^32\<close>, and leaves everything else unchanged. Relaying the message over any number
  of further agents changes nothing more, and two messages with the same encoding have the same view.
\<close>

theorem message_survives_wire:
  assumes "wire_sound w" and "message_ok w m"
  shows "decode_message w clk (encode_message w now m) = Inr (message_view m)
    \<and> relay (decode_message w clk) (encode_message w now) (Suc n) m = Inr (message_view m)
    \<and> (message_ok w m' \<longrightarrow> encode_message w now m = encode_message w now m' \<longrightarrow>
         message_view m = message_view m')"
  using wire.dec_enc [of w m clk now] wire.relayed [of w m clk now n]
    wire.same_wire_same_view [of w m m' now] assms by simp

definition proof_example :: interaction_proof_msg where
  "proof_example = \<lparr>proof_evaluator = AgentId 1, proof_subject = AgentId 2, proof_task_id = 3,
     proof_task_type = Analysis, proof_quality_score = 1, proof_latency_ms = 7, proof_cost = 0,
     proof_timestamp = 1700000000123456789, proof_signature = [1, 2]\<rparr>"

theorem message_survives_wire_witness:
  "decode_message binary_env (\<lambda>_. 0) (encode_message binary_env 0 (WInteractionProof proof_example))
     = Inr (WInteractionProof proof_example)"
proof -
  have "message_ok binary_env (WInteractionProof proof_example)"
    by (simp add: proof_example_def binary_env_def DT_MAX_def)
  from message_survives_wire [OF binary_env_sound this, THEN conjunct1, of "\<lambda>_. 0" 0]
  show ?thesis by (simp only: message_view.simps)
qed

text \<open>
  Exactly the readable messages are accepted: a decoder returns a message if and only if every
  required sub-message is present, every identifier parses and every enumeration has one of its
  specified values other than \<open>UNSPECIFIED\<close>; every other message is rejected with an error. Times
  are never required.
\<close>

lemma decoder_accepts:
  "(\<exists>m. decode_message w now pb = Inr m) \<longleftrightarrow> readable w pb"
proof (cases pb)
  case (POffer x)
  then show ?thesis
    by (cases "po_capability x")
      (auto simp: message_codecs Let_def accepted_parts simp del: insert_iff)
qed (simp_all add: message_codecs Let_def accepted_parts del: insert_iff; blast)+

text \<open>
  C35. Decoding puts a message into normal form, whatever arrives: its durations are valid and whole
  milliseconds below \<open>2^64\<close>, the base hash of a submitted context is the first 32 bytes of what was
  sent, filled up with zeros when that is shorter, and so encoding the decoded message and decoding it
  once more (by any agent, at any time) returns the same message. The one exception is the expiry of
  a contract, which forwarding cuts to whole milliseconds: when the one sent is out of range it is
  replaced by the clock's reading, which has nanoseconds.
\<close>

theorem decoded_message_normal:
  assumes "wire_sound w" and "\<And>i. datetime_ok w (now i)"
    and "decode_message w now pb = Inr m"
  shows "decode_message w clk (encode_message w now' m) = Inr (forwarded m)
    \<and> message_ok w m \<and> (\<forall>d \<in> set (message_durations m). dur_ok d \<and> dur_view d = d)
    \<and> (case (pb, m) of
        (PTaskSubmit p, WTaskSubmit sub) \<Rightarrow> (\<exists>ctx. ps_context p = Some ctx \<and>
          diff_base_hash (submit_context sub) = take 32 (pd_base_hash ctx @ replicate 32 0))
      | _ \<Rightarrow> True)"
proof -
  have ok: "message_ok w m" "\<forall>d \<in> set (message_durations m). dur_ok d \<and> dur_view d = d"
    using message_decoded [OF assms] by simp_all
  have "\<exists>ctx. ps_context p = Some ctx \<and>
      diff_base_hash (submit_context sub) = take 32 (pd_base_hash ctx @ replicate 32 0)"
    if "pb = PTaskSubmit p" "m = WTaskSubmit sub" for p sub
    using assms(3) that
    by (auto simp: message_codecs Let_def res_bind_Inr_conv hash_normal simp del: take_append)
  then show ?thesis
    using ok message_round_trip [OF assms(1) ok(1)] decoded_view [OF assms(3)]
    by (auto split: pb_message.split wire_message.split)
qed

definition short_hash_submit :: pb_task_submit where
  "short_hash_submit = \<lparr>ps_from = Some (agent_id_to_proto binary_env (AgentId 1)),
     ps_to = Some (agent_id_to_proto binary_env (AgentId 2)), ps_task_id = bits_text 3,
     ps_task_type = 2, ps_payload = [], ps_context = Some \<lparr>pd_base_hash = [9], pd_chunks = [],
       pd_confidence = 1, pd_original_size = 0, pd_compressed_size = 0\<rparr>,
     ps_contract_id = bits_text 4, ps_timestamp = None\<rparr>"

theorem decoded_message_normal_witness:
  "\<exists>sub. decode_message binary_env (\<lambda>_. 0) (PTaskSubmit short_hash_submit) = Inr (WTaskSubmit sub)
     \<and> decode_message binary_env (\<lambda>_. 1) (encode_message binary_env 1 (WTaskSubmit sub)) =
         Inr (WTaskSubmit sub)
     \<and> diff_base_hash (submit_context sub) = 9 # replicate 31 0"
proof -
  have r: "bits_parse (bits_text u) = Some u" for u by (rule bits_text_parse)
  have "readable binary_env (PTaskSubmit short_hash_submit)"
    by (simp add: short_hash_submit_def agent_readable_def id_readable_def binary_env_def r
        agent_id_to_proto_def)
  then obtain m where m: "decode_message binary_env (\<lambda>_. 0) (PTaskSubmit short_hash_submit) = Inr m"
    using decoder_accepts [of binary_env "\<lambda>_. 0" "PTaskSubmit short_hash_submit"] by blast
  then obtain sub where sub: "m = WTaskSubmit sub" by (auto simp: res_bind_Inr_conv)
  have "datetime_ok binary_env 0" by (simp add: binary_env_def DT_MAX_def)
  from decoded_message_normal [OF binary_env_sound this m, of "\<lambda>_. 1" 1]
  have "decode_message binary_env (\<lambda>_. 1) (encode_message binary_env 1 (WTaskSubmit sub)) =
      Inr (WTaskSubmit sub)"
    and h: "diff_base_hash (submit_context sub) = take 32 ([9] @ replicate 32 0)"
    by (simp_all add: sub short_hash_submit_def)
  moreover have "take 32 ([9] @ replicate 32 0) = (9 :: u8) # replicate 31 0"
    by (simp add: take_Cons' take_replicate)
  ultimately show ?thesis using m sub by simp
qed

text \<open>
  Durations shrink on the wire: a latency bound is never loosened, it survives exactly when it is
  a whole number of milliseconds below \<open>2^64\<close>, and beyond that it wraps: a bound of
  18446744073709552 seconds arrives as 384 milliseconds.
\<close>

lemma wire_latency_bound:
  "max_latency (proto_to_qos (qos_to_proto q)) \<le> max_latency q
     \<and> (max_latency (proto_to_qos (qos_to_proto q)) = max_latency q \<longleftrightarrow>
          max_latency q mod 1000000 = 0 \<and> max_latency q div 1000000 < 2 ^ 64)
     \<and> max_latency (proto_to_qos (qos_to_proto (q\<lparr>max_latency := from_secs 18446744073709552\<rparr>)))
         = from_millis 384"
  unfolding qos_codec qos_view_def
  by (simp add: dur_view_le dur_view_exact)
    (simp add: dur_view_mod from_secs_def from_millis_def NANOS_PER_SEC_def)

end
