(* ===== verification/Rpc.thy ===== *)
theory Rpc
  imports Codec_Correct
begin

text \<open>
  The service of \<open>atp-transport\<close>: the handler traits, the default handlers, the server with its
  builder (\<open>server.rs\<close>) and the typed client (\<open>client.rs\<close>). All handlers act on one state \<open>'s\<close>, the
  world they share; a call yields its reply and the new world. tonic moves a request and its reply
  unchanged between the two: the client's stub \<open>rpc\<close> is an argument of its operations. A \<open>Status\<close>
  built from an error carries the error, not its text.
\<close>

datatype bad_argument =
    BadMessage codec_error
  | BadTaskId string
  | MissingQosField

datatype status =
    InvalidArgument bad_argument
  | OtherStatus nat string

type_synonym ('s, 'm, 'r) handler = "'m \<Rightarrow> 's \<Rightarrow> (status + 'r) \<times> 's"

section \<open>The handler traits\<close>

record 's handshake_handler =
  handle_probe :: "('s, capability_probe_msg, capability_offer_msg) handler"
  handle_accept_contract :: "('s, contract_accept_msg, string \<times> bool) handler"

record 's task_handler =
  handle_submit_task :: "('s, task_submit_msg, string \<times> bool \<times> string) handler"
  handle_stream_results :: "('s, uuid, task_result list) handler"

record 's context_handler =
  handle_context_request :: "('s, context_request_msg, string \<times> context_chunk list) handler"

type_synonym route_query = "task_type \<times> qos_constraints \<times> routing_pattern option \<times> u32"

record 's routing_handler =
  handle_route_query :: "('s, route_query, route list) handler"

record 's fault_handler =
  handle_heartbeat :: "('s, heartbeat_msg, u64) handler"
  handle_backpressure :: "('s, backpressure_msg, bool) handler"
  handle_circuit_break :: "('s, circuit_break_msg, bool) handler"

record 's trust_handler =
  handle_interaction_proof :: "('s, interaction_proof_msg, bool) handler"

section \<open>The default handlers\<close>

text \<open>The fresh agent identifier and the clock reading of the default offer are \<open>a\<close> and \<open>now\<close>.\<close>

definition default_handshake_handler ::
  "wire_env \<Rightarrow> agent_id \<Rightarrow> datetime \<Rightarrow> 's handshake_handler" where
  "default_handshake_handler w a now =
     \<lparr>handle_probe = (\<lambda>probe s. (Inr
        \<lparr>offer_from = a, offer_in_reply_to = probe_nonce probe,
         offer_capability = \<lparr>cap_task_type = probe_task_type probe,
           cap_estimated_quality = to_f64 (8 / 10), cap_estimated_latency = from_millis 100,
           cap_cost_per_task = to_f64 (1 / 10)\<rparr>,
         offer_trust_score = to_f64 (75 / 100), offer_trust_proof = [], offer_ttl = from_secs 60,
         offer_timestamp = now, offer_signature = []\<rparr>, s)),
      handle_accept_contract = (\<lambda>accept s. (Inr (uuid_text w (contract_id accept), True), s))\<rparr>"

definition default_task_handler :: "wire_env \<Rightarrow> 's task_handler" where
  "default_task_handler w =
     \<lparr>handle_submit_task = (\<lambda>submit s. (Inr (uuid_text w (submit_task_id submit), True, ''''), s)),
      handle_stream_results = (\<lambda>task_id s. (Inr [], s))\<rparr>"

definition default_context_handler :: "wire_env \<Rightarrow> 's context_handler" where
  "default_context_handler w =
     \<lparr>handle_context_request = (\<lambda>req s. (Inr (uuid_text w (creq_task_id req), []), s))\<rparr>"

definition default_routing_handler :: "'s routing_handler" where
  "default_routing_handler = \<lparr>handle_route_query = (\<lambda>query s. (Inr [], s))\<rparr>"

definition default_fault_handler :: "'s fault_handler" where
  "default_fault_handler =
     \<lparr>handle_heartbeat = (\<lambda>msg s. (Inr (hb_sequence msg), s)),
      handle_backpressure = (\<lambda>msg s. (Inr True, s)),
      handle_circuit_break = (\<lambda>msg s. (Inr True, s))\<rparr>"

definition default_trust_handler :: "'s trust_handler" where
  "default_trust_handler = \<lparr>handle_interaction_proof = (\<lambda>proof s. (Inr True, s))\<rparr>"

section \<open>The server and its builder\<close>

record 's atp_server =
  srv_handshake :: "'s handshake_handler"
  srv_task :: "'s task_handler"
  srv_context :: "'s context_handler"
  srv_routing :: "'s routing_handler"
  srv_fault :: "'s fault_handler"
  srv_trust :: "'s trust_handler"

definition atp_server_new :: "wire_env \<Rightarrow> agent_id \<Rightarrow> datetime \<Rightarrow> 's atp_server" where
  "atp_server_new w a now =
     \<lparr>srv_handshake = default_handshake_handler w a now, srv_task = default_task_handler w,
      srv_context = default_context_handler w, srv_routing = default_routing_handler,
      srv_fault = default_fault_handler, srv_trust = default_trust_handler\<rparr>"

record 's atp_server_builder =
  bld_handshake :: "'s handshake_handler option"
  bld_task :: "'s task_handler option"
  bld_context :: "'s context_handler option"
  bld_routing :: "'s routing_handler option"
  bld_fault :: "'s fault_handler option"
  bld_trust :: "'s trust_handler option"

definition builder_new :: "'s atp_server_builder" where
  "builder_new = \<lparr>bld_handshake = None, bld_task = None, bld_context = None, bld_routing = None,
     bld_fault = None, bld_trust = None\<rparr>"

definition builder_handshake where
  "builder_handshake b h = b\<lparr>bld_handshake := Some (h :: 's handshake_handler)\<rparr>"

definition builder_task where
  "builder_task b h = b\<lparr>bld_task := Some (h :: 's task_handler)\<rparr>"

definition builder_context where
  "builder_context b h = b\<lparr>bld_context := Some (h :: 's context_handler)\<rparr>"

definition builder_routing where
  "builder_routing b h = b\<lparr>bld_routing := Some (h :: 's routing_handler)\<rparr>"

definition builder_fault where
  "builder_fault b h = b\<lparr>bld_fault := Some (h :: 's fault_handler)\<rparr>"

definition builder_trust where
  "builder_trust b h = b\<lparr>bld_trust := Some (h :: 's trust_handler)\<rparr>"

definition unwrap_or :: "'a option \<Rightarrow> 'a \<Rightarrow> 'a" where
  "unwrap_or x d = (case x of None \<Rightarrow> d | Some y \<Rightarrow> y)"

definition builder_build ::
  "wire_env \<Rightarrow> agent_id \<Rightarrow> datetime \<Rightarrow> 's atp_server_builder \<Rightarrow> 's atp_server" where
  "builder_build w a now b =
     \<lparr>srv_handshake = unwrap_or (bld_handshake b) (default_handshake_handler w a now),
      srv_task = unwrap_or (bld_task b) (default_task_handler w),
      srv_context = unwrap_or (bld_context b) (default_context_handler w),
      srv_routing = unwrap_or (bld_routing b) default_routing_handler,
      srv_fault = unwrap_or (bld_fault b) default_fault_handler,
      srv_trust = unwrap_or (bld_trust b) default_trust_handler\<rparr>"

section \<open>The remote procedures\<close>

text \<open>
  The shape they share: decode the request (an error becomes \<open>invalid_argument\<close>), await the
  handler, encode its reply.
\<close>

definition serve ::
  "('p \<Rightarrow> bad_argument + 'm) \<Rightarrow> ('s, 'm, 'r) handler \<Rightarrow> ('r \<Rightarrow> 'q) \<Rightarrow> ('s, 'p, 'q) handler" where
  "serve dec h enc pb s =
     (case dec pb of
        Inl e \<Rightarrow> (Inl (InvalidArgument e), s)
      | Inr m \<Rightarrow>
          (case h m s of
             (Inl st, s') \<Rightarrow> (Inl st, s')
           | (Inr r, s') \<Rightarrow> (Inr (enc r), s')))"

definition codec_arg :: "codec_error + 'm \<Rightarrow> bad_argument + 'm" where
  "codec_arg r = (case r of Inl e \<Rightarrow> Inl (BadMessage e) | Inr m \<Rightarrow> Inr m)"

definition server_probe ::
  "wire_env \<Rightarrow> datetime \<Rightarrow> 's atp_server \<Rightarrow> ('s, pb_probe, pb_offer) handler" where
  "server_probe w now srv =
     serve (\<lambda>pb. codec_arg (proto_to_probe w now pb)) (handle_probe (srv_handshake srv))
       (offer_to_proto w)"

definition server_accept_contract ::
  "wire_env \<Rightarrow> (nat \<Rightarrow> datetime) \<Rightarrow> 's atp_server \<Rightarrow> ('s, pb_contract_accept, pb_contract_ack) handler" where
  "server_accept_contract w now srv =
     serve (\<lambda>pb. codec_arg (proto_to_contract_accept w now pb))
       (handle_accept_contract (srv_handshake srv))
       (\<lambda>(cid, accepted). \<lparr>pck_contract_id = cid, pck_accepted = accepted\<rparr>)"

definition server_submit_task ::
  "wire_env \<Rightarrow> 's atp_server \<Rightarrow> ('s, pb_task_submit, pb_task_ack) handler" where
  "server_submit_task w srv =
     serve (\<lambda>pb. codec_arg (proto_to_task_submit w pb)) (handle_submit_task (srv_task srv))
       (\<lambda>(tid, accepted, reason).
          \<lparr>ptk_task_id = tid, ptk_accepted = accepted, ptk_reason = reason\<rparr>)"

text \<open>The spawned sender passes the results on in order; the reply is what the receiver reads.\<close>

definition server_stream_results ::
  "wire_env \<Rightarrow> (nat \<Rightarrow> datetime) \<Rightarrow> 's atp_server \<Rightarrow> ('s, pb_task_query, (status + pb_task_result) list) handler"
  where
  "server_stream_results w now srv =
     serve (\<lambda>pb. ok_or (BadTaskId (ptq_task_id pb)) (uuid_parse w (ptq_task_id pb)))
       (handle_stream_results (srv_task srv))
       (\<lambda>results. map (\<lambda>(i, r). Inr (task_result_to_proto w (now i) r)) (enumerate 0 results))"

definition server_request_context ::
  "wire_env \<Rightarrow> 's atp_server \<Rightarrow> ('s, pb_context_request, pb_context_response) handler" where
  "server_request_context w srv =
     serve (\<lambda>pb. codec_arg (proto_to_context_request w pb))
       (handle_context_request (srv_context srv))
       (\<lambda>(tid, chunks). \<lparr>pcx_task_id = tid, pcx_chunks = map context_chunk_to_proto chunks\<rparr>)"

definition proto_to_route_query :: "pb_route_query \<Rightarrow> bad_argument + route_query" where
  "proto_to_route_query pb =
     res_bind (codec_arg (proto_to_task_type (prq_task_type pb))) (\<lambda>t.
     res_bind (ok_or MissingQosField (prq_qos pb)) (\<lambda>q.
     let preferred = (case proto_to_routing_pattern (prq_preferred_pattern pb) of
           Inl _ \<Rightarrow> None | Inr p \<Rightarrow> Some p)
     in Inr (t, proto_to_qos q, preferred, prq_max_routes pb)))"

definition server_query_route ::
  "wire_env \<Rightarrow> 's atp_server \<Rightarrow> ('s, pb_route_query, pb_route_response) handler" where
  "server_query_route w srv =
     serve proto_to_route_query (handle_route_query (srv_routing srv))
       (\<lambda>routes. \<lparr>prr_routes = map (route_to_proto w) routes\<rparr>)"

definition server_send_heartbeat ::
  "wire_env \<Rightarrow> 's atp_server \<Rightarrow> ('s, pb_heartbeat, pb_heartbeat_ack) handler" where
  "server_send_heartbeat w srv =
     serve (\<lambda>pb. codec_arg (proto_to_heartbeat w pb)) (handle_heartbeat (srv_fault srv))
       (\<lambda>sequence. \<lparr>phk_sequence = sequence\<rparr>)"

definition server_report_backpressure ::
  "wire_env \<Rightarrow> 's atp_server \<Rightarrow> ('s, pb_backpressure, pb_ack) handler" where
  "server_report_backpressure w srv =
     serve (\<lambda>pb. codec_arg (proto_to_backpressure w pb)) (handle_backpressure (srv_fault srv))
       (\<lambda>acknowledged. \<lparr>pak_acknowledged = acknowledged\<rparr>)"

definition server_report_circuit_break ::
  "wire_env \<Rightarrow> 's atp_server \<Rightarrow> ('s, pb_circuit_break, pb_ack) handler" where
  "server_report_circuit_break w srv =
     serve (\<lambda>pb. codec_arg (proto_to_circuit_break w pb)) (handle_circuit_break (srv_fault srv))
       (\<lambda>acknowledged. \<lparr>pak_acknowledged = acknowledged\<rparr>)"

definition server_submit_interaction_proof ::
  "wire_env \<Rightarrow> datetime \<Rightarrow> 's atp_server \<Rightarrow> ('s, pb_interaction_proof, pb_proof_ack) handler" where
  "server_submit_interaction_proof w now srv =
     serve (\<lambda>pb. codec_arg (proto_to_interaction_proof w now pb))
       (handle_interaction_proof (srv_trust srv)) (\<lambda>accepted. \<lparr>pfk_accepted = accepted\<rparr>)"

section \<open>The client\<close>

datatype client_error =
    TransportError string
  | StatusError status
  | CodecFailed codec_error

text \<open>The shape its calls share: encode, call the stub, decode the reply (both errors by \<open>?\<close>).\<close>

definition remote_call ::
  "('m \<Rightarrow> 'p) \<Rightarrow> ('s, 'p, 'q) handler \<Rightarrow> ('q \<Rightarrow> codec_error + 'r) \<Rightarrow> 'm \<Rightarrow> 's \<Rightarrow> (client_error + 'r) \<times> 's"
  where
  "remote_call enc rpc dec m s =
     (case rpc (enc m) s of
        (Inl st, s') \<Rightarrow> (Inl (StatusError st), s')
      | (Inr q, s') \<Rightarrow>
          ((case dec q of Inl e \<Rightarrow> Inl (CodecFailed e) | Inr r \<Rightarrow> Inr r), s'))"

definition client_probe where
  "client_probe w now rpc = remote_call (probe_to_proto w) rpc (proto_to_offer w now)"

definition client_accept_contract where
  "client_accept_contract w rpc =
     remote_call (contract_accept_to_proto w) rpc
       (\<lambda>ack. Inr (pck_contract_id ack, pck_accepted ack))"

definition client_submit_task where
  "client_submit_task w now rpc =
     remote_call (task_submit_to_proto w now) rpc
       (\<lambda>ack. Inr (ptk_task_id ack, ptk_accepted ack, ptk_reason ack))"

text \<open>\<open>while let Some(pb_result) = stream.message().await?\<close>.\<close>

fun collect_stream ::
  "wire_env \<Rightarrow> (status + pb_task_result) list \<Rightarrow> client_error + task_result list" where
  "collect_stream w [] = Inr []"
| "collect_stream w (Inl st # rest) = Inl (StatusError st)"
| "collect_stream w (Inr pb # rest) =
     (case proto_to_task_result w pb of
        Inl e \<Rightarrow> Inl (CodecFailed e)
      | Inr r \<Rightarrow> res_bind (collect_stream w rest) (\<lambda>rs. Inr (r # rs)))"

definition client_stream_results_raw ::
  "wire_env \<Rightarrow> ('s, pb_task_query, (status + pb_task_result) list) handler \<Rightarrow> uuid \<Rightarrow> 's \<Rightarrow>
   (client_error + (status + pb_task_result) list) \<times> 's" where
  "client_stream_results_raw w rpc =
     remote_call (\<lambda>tid. \<lparr>ptq_task_id = uuid_text w tid\<rparr>) rpc Inr"

definition client_stream_results ::
  "wire_env \<Rightarrow> ('s, pb_task_query, (status + pb_task_result) list) handler \<Rightarrow> uuid \<Rightarrow> 's \<Rightarrow>
   (client_error + task_result list) \<times> 's" where
  "client_stream_results w rpc tid s =
     (case rpc \<lparr>ptq_task_id = uuid_text w tid\<rparr> s of
        (Inl st, s') \<Rightarrow> (Inl (StatusError st), s')
      | (Inr stream, s') \<Rightarrow> (collect_stream w stream, s'))"

definition client_request_context where
  "client_request_context w now rpc =
     remote_call (context_request_to_proto w now) rpc
       (\<lambda>pb. res_bind (parse_uuid w (pcx_task_id pb)) (\<lambda>tid.
          Inr (tid, map proto_to_context_chunk (pcx_chunks pb))))"

definition route_query_to_proto :: "route_query \<Rightarrow> pb_route_query" where
  "route_query_to_proto = (\<lambda>(t, q, preferred, max_routes).
     \<lparr>prq_task_type = task_type_to_i32 t, prq_qos = Some (qos_to_proto q),
      prq_preferred_pattern = (case preferred of None \<Rightarrow> 0 | Some p \<Rightarrow> routing_pattern_to_i32 p),
      prq_max_routes = max_routes\<rparr>)"

definition client_query_route where
  "client_query_route w now rpc =
     remote_call route_query_to_proto rpc
       (\<lambda>pb. collect_results (proto_to_route w now) (prr_routes pb))"

definition client_send_heartbeat where
  "client_send_heartbeat w now rpc =
     remote_call (heartbeat_to_proto w now) rpc (\<lambda>ack. Inr (phk_sequence ack))"

definition client_report_backpressure where
  "client_report_backpressure w now rpc =
     remote_call (backpressure_to_proto w now) rpc (\<lambda>ack. Inr (pak_acknowledged ack))"

definition client_report_circuit_break where
  "client_report_circuit_break w now rpc =
     remote_call (circuit_break_to_proto w now) rpc (\<lambda>ack. Inr (pak_acknowledged ack))"

definition client_submit_interaction_proof where
  "client_submit_interaction_proof w rpc =
     remote_call (interaction_proof_to_proto w) rpc (\<lambda>ack. Inr (pfk_accepted ack))"

section \<open>A remote call is a local call\<close>

text \<open>What the client sees of a handler's reply.\<close>

definition seen_by_client :: "('r \<Rightarrow> 'r') \<Rightarrow> (status + 'r) \<times> 's \<Rightarrow> (client_error + 'r') \<times> 's" where
  "seen_by_client f = (\<lambda>(r, s). (case r of Inl st \<Rightarrow> Inl (StatusError st) | Inr x \<Rightarrow> Inr (f x), s))"

text \<open>
  The contract of a remote procedure: requests cross by one codec, replies by another. The client of
  the server then is the handler, up to the views.
\<close>

locale remote_procedure =
  req: wire_codec enc dec view ok + rep: wire_codec enc_reply dec_reply view_reply ok_reply
  for enc :: "'m \<Rightarrow> 'p" and dec :: "'p \<Rightarrow> bad_argument + 'm" and view :: "'m \<Rightarrow> 'm"
    and ok :: "'m \<Rightarrow> bool"
    and enc_reply :: "'r \<Rightarrow> 'q" and dec_reply :: "'q \<Rightarrow> codec_error + 'r"
    and view_reply :: "'r \<Rightarrow> 'r" and ok_reply :: "'r \<Rightarrow> bool"
begin

lemma remote_is_local:
  assumes "ok m" and "\<And>x s'. h (view m) s = (Inr x, s') \<Longrightarrow> ok_reply x"
  shows "remote_call enc (serve dec h enc_reply) dec_reply m s = seen_by_client view_reply (h (view m) s)"
proof (cases "h (view m) s")
  case (Pair r s')
  then show ?thesis
    using assms(2)
    by (cases r) (simp_all add: remote_call_def serve_def req.dec_enc [OF assms(1)] rep.dec_enc
        seen_by_client_def)
qed

lemma malformed_rejected: "dec pb = Inl e \<Longrightarrow> serve dec h enc_reply pb s = (Inl (InvalidArgument e), s)"
  by (simp add: serve_def)

end

lemma codec_arg_simps [simp]:
  "codec_arg (Inl e) = Inl (BadMessage e)" "codec_arg (Inr m) = Inr m"
  by (simp_all add: codec_arg_def)

text \<open>Replies without a lossy field.\<close>

lemma plain_reply:
  assumes "\<And>x. f (g x) = x"
  shows "wire_codec g (\<lambda>q. Inr (f q)) id (\<lambda>_. True)"
  by unfold_locales (simp_all add: assms)

lemma request_codec:
  assumes "\<And>m. ok m \<Longrightarrow> dec (enc m) = Inr (view m)" "\<And>m. ok m \<Longrightarrow> ok (view m)"
    and "\<And>m. view (view m) = view m"
  shows "wire_codec enc (\<lambda>pb. codec_arg (dec pb)) view ok"
  by unfold_locales (simp_all add: assms)

lemma map_res_inj: "inj f \<Longrightarrow> map_res f r = Inr (f y) \<longleftrightarrow> r = Inr y"
  by (cases r) (auto dest: injD)

definition probe_view :: "capability_probe_msg \<Rightarrow> capability_probe_msg" where
  "probe_view m = m\<lparr>probe_qos := qos_view (probe_qos m),
     probe_context_embedding := map_option embedding_view (probe_context_embedding m)\<rparr>"

definition offer_view :: "capability_offer_msg \<Rightarrow> capability_offer_msg" where
  "offer_view m = m\<lparr>offer_capability := capability_view (offer_capability m),
     offer_ttl := dur_view (offer_ttl m)\<rparr>"

definition contract_view :: "contract_accept_msg \<Rightarrow> contract_accept_msg" where
  "contract_view m = m\<lparr>contract_agreed_qos := qos_view (contract_agreed_qos m),
     contract_expires_at := instant_view (contract_expires_at m)\<rparr>"

definition result_view :: "task_result \<Rightarrow> task_result" where
  "result_view r = r\<lparr>tr_elapsed := dur_view (tr_elapsed r)\<rparr>"

definition route_view :: "route \<Rightarrow> route" where
  "route_view r = r\<lparr>route_metrics := metrics_view (route_metrics r), route_ttl := dur_view (route_ttl r)\<rparr>"

definition query_view :: "route_query \<Rightarrow> route_query" where
  "query_view = (\<lambda>(t, q, preferred, max_routes). (t, qos_view q, preferred, max_routes))"

lemmas message_views = probe_view_def offer_view_def contract_view_def result_view_def route_view_def

lemma message_round_trips:
  assumes "wire_sound w"
  shows "datetime_ok w (probe_timestamp p) \<Longrightarrow>
      proto_to_probe w now (probe_to_proto w p) = Inr (probe_view p)"
    and "datetime_ok w (offer_timestamp f) \<Longrightarrow>
      proto_to_offer w now (offer_to_proto w f) = Inr (offer_view f)"
    and "datetime_ok w (contract_expires_at c) \<and> datetime_ok w (contract_timestamp c) \<Longrightarrow>
      proto_to_contract_accept w clk (contract_accept_to_proto w c) = Inr (contract_view c)"
    and "proto_to_context_request w (context_request_to_proto w now x) = Inr x"
    and "length (diff_base_hash (submit_context u)) = 32 \<Longrightarrow>
      proto_to_task_submit w (task_submit_to_proto w now u) = Inr u"
    and "proto_to_task_result w (task_result_to_proto w now r) = Inr (result_view r)"
    and "datetime_ok w (proof_timestamp i) \<Longrightarrow>
      proto_to_interaction_proof w now (interaction_proof_to_proto w i) = Inr i"
    and "proto_to_heartbeat w (heartbeat_to_proto w now h) = Inr h"
    and "proto_to_backpressure w (backpressure_to_proto w now b) = Inr b"
    and "proto_to_circuit_break w (circuit_break_to_proto w now k) = Inr k"
    and "datetime_ok w (route_computed_at t) \<Longrightarrow>
      proto_to_route w now (route_to_proto w t) = Inr (route_view t)"
  using message_round_trip [OF assms, of "WProbe p" "\<lambda>_. now" now]
    message_round_trip [OF assms, of "WOffer f" "\<lambda>_. now" now]
    message_round_trip [OF assms, of "WContract c" clk now]
    message_round_trip [OF assms, of "WContextRequest x" clk now]
    message_round_trip [OF assms, of "WTaskSubmit u" clk now]
    message_round_trip [OF assms, of "WTaskResult r" clk now]
    message_round_trip [OF assms, of "WInteractionProof i" "\<lambda>_. now" now]
    message_round_trip [OF assms, of "WHeartbeat h" clk now]
    message_round_trip [OF assms, of "WBackpressure b" clk now]
    message_round_trip [OF assms, of "WCircuitBreak k" clk now]
    message_round_trip [OF assms, of "WRoute t" "\<lambda>_. now" now]
  by (simp_all add: map_res_inj inj_def message_views)

lemma message_views_stable [simp]:
  "probe_view (probe_view p) = probe_view p" "offer_view (offer_view f) = offer_view f"
  "contract_view (contract_view c) = contract_view c" "route_view (route_view t) = route_view t"
  "result_view (result_view r) = result_view r" "query_view (query_view y) = query_view y"
  by (simp_all add: message_views query_view_def option.map_comp comp_def split: prod.split)

lemma message_views_ok [simp]:
  "probe_timestamp (probe_view p) = probe_timestamp p" "offer_timestamp (offer_view f) = offer_timestamp f"
  "contract_timestamp (contract_view c) = contract_timestamp c"
  "contract_expires_at (contract_view c) = instant_view (contract_expires_at c)"
  "route_computed_at (route_view t) = route_computed_at t"
  by (simp_all add: message_views)

lemma route_query_round_trip: "proto_to_route_query (route_query_to_proto y) = Inr (query_view y)"
proof -
  obtain t q p n where y: "y = (t, q, p, n)" by (cases y)
  have "(case proto_to_routing_pattern (case p of None \<Rightarrow> 0 | Some p \<Rightarrow> routing_pattern_to_i32 p) of
      Inl _ \<Rightarrow> None | Inr p \<Rightarrow> Some p) = p"
  proof (cases p)
    case None
    then show ?thesis by (simp add: proto_to_routing_pattern_def pb_routing_pattern_of_def)
  qed simp
  then show ?thesis
    by (simp add: y proto_to_route_query_def route_query_to_proto_def query_view_def)
qed

section \<open>The procedures of the service\<close>

interpretation probe_call: remote_procedure "probe_to_proto w"
  "\<lambda>pb. codec_arg (proto_to_probe w now pb)" probe_view
  "\<lambda>m. wire_sound w \<and> datetime_ok w (probe_timestamp m)"
  "offer_to_proto w" "proto_to_offer w now'" offer_view
  "\<lambda>m. wire_sound w \<and> datetime_ok w (offer_timestamp m)" for w now now'
  by unfold_locales (simp_all add: message_round_trips)

interpretation accept_call: remote_procedure "contract_accept_to_proto w"
  "\<lambda>pb. codec_arg (proto_to_contract_accept w clk pb)" contract_view
  "\<lambda>m. wire_sound w \<and> datetime_ok w (contract_expires_at m) \<and> datetime_ok w (contract_timestamp m)"
  "\<lambda>(cid, accepted). \<lparr>pck_contract_id = cid, pck_accepted = accepted\<rparr>"
  "\<lambda>ack. Inr (pck_contract_id ack, pck_accepted ack)" id "\<lambda>_. True" for w clk
  by unfold_locales (auto simp: message_round_trips instant_round_trip(2))

interpretation submit_call: remote_procedure "task_submit_to_proto w now"
  "\<lambda>pb. codec_arg (proto_to_task_submit w pb)" id
  "\<lambda>m. wire_sound w \<and> length (diff_base_hash (submit_context m)) = 32"
  "\<lambda>(tid, accepted, reason). \<lparr>ptk_task_id = tid, ptk_accepted = accepted, ptk_reason = reason\<rparr>"
  "\<lambda>ack. Inr (ptk_task_id ack, ptk_accepted ack, ptk_reason ack)" id "\<lambda>_. True" for w now
  by unfold_locales (auto simp: message_round_trips)

interpretation route_call: remote_procedure route_query_to_proto proto_to_route_query query_view
  "\<lambda>_. True" "\<lambda>routes. \<lparr>prr_routes = map (route_to_proto w) routes\<rparr>"
  "\<lambda>pb. collect_results (proto_to_route w now) (prr_routes pb)" "map route_view"
  "\<lambda>routes. wire_sound w \<and> (\<forall>r \<in> set routes. datetime_ok w (route_computed_at r))" for w now
  by unfold_locales
    (auto simp: route_query_round_trip message_round_trips intro!: collect_results_map)

interpretation heartbeat_call: remote_procedure "heartbeat_to_proto w now"
  "\<lambda>pb. codec_arg (proto_to_heartbeat w pb)" id "\<lambda>_. wire_sound w"
  "\<lambda>sequence. \<lparr>phk_sequence = sequence\<rparr>" "\<lambda>ack. Inr (phk_sequence ack)" id "\<lambda>_. True" for w now
  by unfold_locales (simp_all add: message_round_trips)

interpretation backpressure_call: remote_procedure "backpressure_to_proto w now"
  "\<lambda>pb. codec_arg (proto_to_backpressure w pb)" id "\<lambda>_. wire_sound w"
  "\<lambda>acknowledged. \<lparr>pak_acknowledged = acknowledged\<rparr>" "\<lambda>ack. Inr (pak_acknowledged ack)" id
  "\<lambda>_. True" for w now
  by unfold_locales (simp_all add: message_round_trips)

interpretation circuit_call: remote_procedure "circuit_break_to_proto w now"
  "\<lambda>pb. codec_arg (proto_to_circuit_break w pb)" id "\<lambda>_. wire_sound w"
  "\<lambda>acknowledged. \<lparr>pak_acknowledged = acknowledged\<rparr>" "\<lambda>ack. Inr (pak_acknowledged ack)" id
  "\<lambda>_. True" for w now
  by unfold_locales (simp_all add: message_round_trips)

interpretation proof_call: remote_procedure "interaction_proof_to_proto w"
  "\<lambda>pb. codec_arg (proto_to_interaction_proof w now pb)" id
  "\<lambda>m. wire_sound w \<and> datetime_ok w (proof_timestamp m)"
  "\<lambda>accepted. \<lparr>pfk_accepted = accepted\<rparr>" "\<lambda>ack. Inr (pfk_accepted ack)" id "\<lambda>_. True" for w now
  by unfold_locales (simp_all add: message_round_trips)

lemma stream_collected:
  assumes "wire_sound w"
  shows "collect_stream w (map (\<lambda>(i, r). Inr (task_result_to_proto w (now i) r)) (enumerate n rs))
    = Inr (map result_view rs)"
  by (induction rs arbitrary: n) (simp_all add: message_round_trips [OF assms])

lemma stream_call:
  assumes "wire_sound w"
  shows "client_stream_results w (server_stream_results w clk srv) tid s
    = seen_by_client (map result_view) (handle_stream_results (srv_task srv) tid s)"
proof -
  have p: "uuid_parse w (uuid_text w tid) = Some tid" by (rule wire_soundD(1) [OF assms])
  obtain r s' where h: "handle_stream_results (srv_task srv) tid s = (r, s')" by fastforce
  show ?thesis
    by (cases r)
      (simp_all add: client_stream_results_def server_stream_results_def serve_def p h
        seen_by_client_def stream_collected [OF assms])
qed

lemma context_call:
  assumes "wire_sound w"
  shows "client_request_context w now (server_request_context w srv) m s
    = (case handle_context_request (srv_context srv) m s of
         (Inl st, s') \<Rightarrow> (Inl (StatusError st), s')
       | (Inr (tid, chunks), s') \<Rightarrow>
           ((case uuid_parse w tid of None \<Rightarrow> Inl (CodecFailed (InvalidUuid tid))
             | Some u \<Rightarrow> Inr (u, chunks)), s'))"
proof -
  obtain r s' where h: "handle_context_request (srv_context srv) m s = (r, s')" by fastforce
  show ?thesis
  proof (cases r)
    case (Inl st)
    then show ?thesis
      by (simp add: client_request_context_def server_request_context_def remote_call_def serve_def
          message_round_trips [OF assms] h)
  next
    case (Inr x)
    obtain tid chunks where x: "x = (tid, chunks)" by fastforce
    show ?thesis
      by (cases "uuid_parse w tid")
        (simp_all add: client_request_context_def server_request_context_def remote_call_def
          serve_def message_round_trips [OF assms] h Inr x parse_uuid_def)
  qed
qed

text \<open>
  The answer \<open>out\<close> to a request whose decoding is \<open>req\<close>: for a \<open>good\<close> request, the reply of the handler
  to what was decoded, encoded, or its failure, and the world as the handler leaves it; for any other
  one \<open>invalid_argument\<close>, and the world as it was.
\<close>

definition answered ::
  "bool \<Rightarrow> 'e + 'm \<Rightarrow> ('s, 'm, 'r) handler \<Rightarrow> ('r \<Rightarrow> 'q) \<Rightarrow> (status + 'q) \<times> 's \<Rightarrow> 's \<Rightarrow> bool" where
  "answered good req h enc out s \<longleftrightarrow>
     (if good then \<exists>m. req = Inr m \<and> out = map_prod (map_sum id enc) id (h m s)
      else \<exists>e. out = (Inl (InvalidArgument e), s))"

lemma serve_ok: "dec pb = Inr m \<Longrightarrow> serve dec h enc pb s = map_prod (map_sum id enc) id (h m s)"
  by (cases "h m s") (auto simp: serve_def split: sum.split)

lemma serve_answered:
  assumes "(\<exists>m. dec pb = Inr m) \<longleftrightarrow> good"
  shows "answered good (dec pb) h enc (serve (\<lambda>pb. codec_arg (dec pb)) h enc pb s) s"
proof (cases "dec pb")
  case (Inl e)
  then show ?thesis using assms by (simp add: answered_def serve_def)
next
  case (Inr m)
  then show ?thesis using assms by (auto simp: answered_def serve_ok)
qed

lemma map_res_accepted: "(\<exists>y. map_res f r = Inr y) \<longleftrightarrow> (\<exists>m. r = Inr m)"
  by (cases r) simp_all

lemma requests_accepted:
  "(\<exists>m. proto_to_probe w now p = Inr m) \<longleftrightarrow> readable w (PProbe p)"
  "(\<exists>m. proto_to_contract_accept w clk c = Inr m) \<longleftrightarrow> readable w (PContract c)"
  "(\<exists>m. proto_to_task_submit w u = Inr m) \<longleftrightarrow> readable w (PTaskSubmit u)"
  "(\<exists>m. proto_to_context_request w x = Inr m) \<longleftrightarrow> readable w (PContextRequest x)"
  "(\<exists>m. proto_to_heartbeat w h = Inr m) \<longleftrightarrow> readable w (PHeartbeat h)"
  "(\<exists>m. proto_to_backpressure w b = Inr m) \<longleftrightarrow> readable w (PBackpressure b)"
  "(\<exists>m. proto_to_circuit_break w k = Inr m) \<longleftrightarrow> readable w (PCircuitBreak k)"
  "(\<exists>m. proto_to_interaction_proof w now i = Inr m) \<longleftrightarrow> readable w (PInteractionProof i)"
  using decoder_accepts [of w "\<lambda>_. now" "PProbe p"] decoder_accepts [of w clk "PContract c"]
    decoder_accepts [of w clk "PTaskSubmit u"] decoder_accepts [of w clk "PContextRequest x"]
    decoder_accepts [of w clk "PHeartbeat h"] decoder_accepts [of w clk "PBackpressure b"]
    decoder_accepts [of w clk "PCircuitBreak k"]
    decoder_accepts [of w "\<lambda>_. now" "PInteractionProof i"]
  by (simp_all only: decode_message.simps map_res_accepted)

lemma route_query_accepted:
  "(\<exists>q. proto_to_route_query y = Inr q) \<longleftrightarrow> prq_task_type y \<in> {1, 2, 3, 4} \<and> prq_qos y \<noteq> None"
proof (cases "proto_to_task_type (prq_task_type y)")
  case (Inl e)
  then have "prq_task_type y \<notin> {1, 2, 3, 4}" using task_type_accepted [of "prq_task_type y"] by auto
  then show ?thesis using Inl by (simp add: proto_to_route_query_def)
next
  case (Inr t)
  then have "prq_task_type y \<in> {1, 2, 3, 4}" using task_type_accepted by blast
  then show ?thesis
    using Inr by (cases "prq_qos y") (simp_all add: proto_to_route_query_def Let_def)
qed

lemma route_query_pattern:
  assumes "proto_to_route_query y = Inr (t, q, preferred, n)"
  shows "n = prq_max_routes y \<and> (preferred = None \<longleftrightarrow> prq_preferred_pattern y \<notin> {1, 2, 3, 4, 5})"
proof -
  have "preferred = (case proto_to_routing_pattern (prq_preferred_pattern y) of
      Inl _ \<Rightarrow> None | Inr p \<Rightarrow> Some p)" "n = prq_max_routes y"
    using assms by (auto simp: proto_to_route_query_def res_bind_Inr_conv Let_def)
  then show ?thesis
    unfolding pattern_accepted [symmetric] by (cases "proto_to_routing_pattern (prq_preferred_pattern y)") auto
qed

section \<open>Properties\<close>

text \<open>
  C5. A remote call is a local call: whatever handlers are plugged in, a client's call through the
  server has the effect and the result of calling the handler directly on the view of the request
  (durations cut to milliseconds), the reply being seen through its view; a handler's failure
  arrives as that status. This holds for all ten procedures; the reply of a context request in
  addition has to carry a parsable task id.
\<close>

theorem remote_calls_reach_handlers:
  assumes "wire_sound w"
    and "datetime_ok w (probe_timestamp p)" and "datetime_ok w (contract_timestamp c)"
    and "datetime_ok w (contract_expires_at c)" and "datetime_ok w (proof_timestamp i)"
    and "length (diff_base_hash (submit_context u)) = 32"
    and "\<And>x s'. handle_probe (srv_handshake srv) (probe_view p) s = (Inr x, s') \<Longrightarrow>
           datetime_ok w (offer_timestamp x)"
    and "\<And>x s'. handle_route_query (srv_routing srv) (query_view y) s = (Inr x, s') \<Longrightarrow>
           (\<forall>r \<in> set x. datetime_ok w (route_computed_at r))"
  shows "client_probe w now (server_probe w now srv) p s
        = seen_by_client offer_view (handle_probe (srv_handshake srv) (probe_view p) s)
    \<and> client_accept_contract w (server_accept_contract w clk srv) c s
        = seen_by_client id (handle_accept_contract (srv_handshake srv) (contract_view c) s)
    \<and> client_submit_task w now (server_submit_task w srv) u s
        = seen_by_client id (handle_submit_task (srv_task srv) u s)
    \<and> client_stream_results w (server_stream_results w clk srv) tid s
        = seen_by_client (map result_view) (handle_stream_results (srv_task srv) tid s)
    \<and> client_request_context w now (server_request_context w srv) x s
        = (case handle_context_request (srv_context srv) x s of
             (Inl st, s') \<Rightarrow> (Inl (StatusError st), s')
           | (Inr (tid, chunks), s') \<Rightarrow>
               ((case uuid_parse w tid of None \<Rightarrow> Inl (CodecFailed (InvalidUuid tid))
                 | Some u \<Rightarrow> Inr (u, chunks)), s'))
    \<and> client_query_route w now (server_query_route w srv) y s
        = seen_by_client (map route_view) (handle_route_query (srv_routing srv) (query_view y) s)
    \<and> client_send_heartbeat w now (server_send_heartbeat w srv) h s
        = seen_by_client id (handle_heartbeat (srv_fault srv) h s)
    \<and> client_report_backpressure w now (server_report_backpressure w srv) b s
        = seen_by_client id (handle_backpressure (srv_fault srv) b s)
    \<and> client_report_circuit_break w now (server_report_circuit_break w srv) k s
        = seen_by_client id (handle_circuit_break (srv_fault srv) k s)
    \<and> client_submit_interaction_proof w (server_submit_interaction_proof w now srv) i s
        = seen_by_client id (handle_interaction_proof (srv_trust srv) i s)"
proof (intro conjI, goal_cases)
  case 1
  show ?case
    unfolding client_probe_def server_probe_def
    by (rule probe_call.remote_is_local) (simp_all add: assms(1,2,7))
next
  case 2
  show ?case
    using accept_call.remote_is_local [of w c "handle_accept_contract (srv_handshake srv)" s clk]
      assms(1,3,4) by (simp add: client_accept_contract_def server_accept_contract_def)
next
  case 3
  show ?case
    using submit_call.remote_is_local [of w u "handle_submit_task (srv_task srv)" s now] assms(1,6)
    by (simp add: client_submit_task_def server_submit_task_def)
next
  case 4
  show ?case by (rule stream_call [OF assms(1)])
next
  case 5
  show ?case by (rule context_call [OF assms(1)])
next
  case 6
  show ?case
    unfolding client_query_route_def server_query_route_def
    by (rule route_call.remote_is_local [OF TrueI]) (erule conjI [OF assms(1) assms(8)])
next
  case 7
  show ?case
    using heartbeat_call.remote_is_local [of w "handle_heartbeat (srv_fault srv)" h s now] assms(1)
    by (simp add: client_send_heartbeat_def server_send_heartbeat_def)
next
  case 8
  show ?case
    using backpressure_call.remote_is_local [of w "handle_backpressure (srv_fault srv)" b s now]
      assms(1) by (simp add: client_report_backpressure_def server_report_backpressure_def)
next
  case 9
  show ?case
    using circuit_call.remote_is_local [of w "handle_circuit_break (srv_fault srv)" k s now] assms(1)
    by (simp add: client_report_circuit_break_def server_report_circuit_break_def)
next
  case 10
  show ?case
    using proof_call.remote_is_local [of w i "handle_interaction_proof (srv_trust srv)" s now]
      assms(1,5)
    by (simp add: client_submit_interaction_proof_def server_submit_interaction_proof_def)
qed

definition probe_sample :: capability_probe_msg where
  "probe_sample = \<lparr>probe_from = AgentId 1, probe_task_type = Analysis, probe_qos = default_qos,
     probe_context_embedding = None, probe_nonce = 42, probe_timestamp = 0, probe_signature = []\<rparr>"

definition contract_sample :: contract_accept_msg where
  "contract_sample = \<lparr>contract_from = AgentId 1, contract_to = AgentId 2,
     contract_agreed_qos = default_qos, contract_context_plan = [], contract_id = 5,
     contract_expires_at = 0, contract_timestamp = 0, contract_signature = []\<rparr>"

definition submit_sample :: task_submit_msg where
  "submit_sample = \<lparr>submit_from = AgentId 1, submit_to = AgentId 2, submit_task_id = 6,
     submit_task_type = Analysis, submit_payload = [], submit_context =
       \<lparr>diff_base_hash = replicate 32 0, diff_chunks = [], diff_confidence = 1,
        diff_original_size = 0, diff_compressed_size = 0\<rparr>, submit_contract_id = 5\<rparr>"

theorem remote_calls_reach_handlers_witness:
  "client_send_heartbeat binary_env 0
      (server_send_heartbeat binary_env (atp_server_new binary_env (AgentId 9) 0))
      \<lparr>hb_from = AgentId 1, hb_sequence = 7, hb_queue_depth = 3, hb_load_factor = 0\<rparr> ()
    = (Inr 7, ())"
proof -
  let ?srv = "atp_server_new binary_env (AgentId 9) 0 :: unit atp_server"
  have t: "datetime_ok binary_env 0" "datetime_ok binary_env (probe_timestamp probe_sample)"
    "datetime_ok binary_env (contract_timestamp contract_sample)"
    "datetime_ok binary_env (contract_expires_at contract_sample)"
    "datetime_ok binary_env (proof_timestamp proof_example)"
    by (simp_all add: binary_env_def DT_MAX_def probe_sample_def contract_sample_def proof_example_def)
  have l: "length (diff_base_hash (submit_context submit_sample)) = 32"
    by (simp add: submit_sample_def)
  have p: "datetime_ok binary_env (offer_timestamp x)"
    if "handle_probe (srv_handshake ?srv) (probe_view probe_sample) () = (Inr x, s')" for x s'
    using that t(1) by (auto simp: atp_server_new_def default_handshake_handler_def)
  have r: "\<forall>y \<in> set x. datetime_ok binary_env (route_computed_at y)"
    if "handle_route_query (srv_routing ?srv) (query_view (Analysis, default_qos, None, 0)) ()
      = (Inr x, s')" for x s'
    using that by (simp add: atp_server_new_def default_routing_handler_def)
  have "client_send_heartbeat binary_env 0 (server_send_heartbeat binary_env ?srv)
      \<lparr>hb_from = AgentId 1, hb_sequence = 7, hb_queue_depth = 3, hb_load_factor = 0\<rparr> ()
    = seen_by_client id (handle_heartbeat (srv_fault ?srv)
      \<lparr>hb_from = AgentId 1, hb_sequence = 7, hb_queue_depth = 3, hb_load_factor = 0\<rparr> ())"
    using remote_calls_reach_handlers [where srv = "?srv" and s = "()" and now = 0
        and y = "(Analysis, default_qos, None, 0)", OF binary_env_sound t(2-5) l,
        THEN conjunct2, THEN conjunct2, THEN conjunct2, THEN conjunct2, THEN conjunct2,
        THEN conjunct2, THEN conjunct1] p r by blast
  then show ?thesis
    by (simp add: seen_by_client_def atp_server_new_def default_fault_handler_def)
qed

text \<open>
  C36. Each of the ten procedures decides its request: a readable one reaches the handler, as the
  message it decodes to, and is answered with the handler's reply or failure; any other one is
  answered with \<open>invalid_argument\<close>, without the handler, and leaves the world as it was. A route
  query needs a known task type and its constraints only: a preferred pattern that is unspecified or
  that has an unknown number is passed on as no preference.
\<close>

theorem malformed_requests_rejected:
  "answered (readable w (PProbe p)) (proto_to_probe w now p) (handle_probe (srv_handshake srv))
       (offer_to_proto w) (server_probe w now srv p s) s
    \<and> answered (readable w (PContract c)) (proto_to_contract_accept w clk c)
       (handle_accept_contract (srv_handshake srv))
       (\<lambda>(cid, accepted). \<lparr>pck_contract_id = cid, pck_accepted = accepted\<rparr>)
       (server_accept_contract w clk srv c s) s
    \<and> answered (readable w (PTaskSubmit u)) (proto_to_task_submit w u)
       (handle_submit_task (srv_task srv))
       (\<lambda>(tid, accepted, reason). \<lparr>ptk_task_id = tid, ptk_accepted = accepted, ptk_reason = reason\<rparr>)
       (server_submit_task w srv u s) s
    \<and> answered (id_readable w (ptq_task_id d)) (ok_or () (uuid_parse w (ptq_task_id d)))
       (handle_stream_results (srv_task srv))
       (\<lambda>rs. map (\<lambda>(i, r). Inr (task_result_to_proto w (clk i) r)) (enumerate 0 rs))
       (server_stream_results w clk srv d s) s
    \<and> answered (readable w (PContextRequest x)) (proto_to_context_request w x)
       (handle_context_request (srv_context srv))
       (\<lambda>(tid, chunks). \<lparr>pcx_task_id = tid, pcx_chunks = map context_chunk_to_proto chunks\<rparr>)
       (server_request_context w srv x s) s
    \<and> answered (prq_task_type y \<in> {1, 2, 3, 4} \<and> prq_qos y \<noteq> None) (proto_to_route_query y)
       (handle_route_query (srv_routing srv)) (\<lambda>rs. \<lparr>prr_routes = map (route_to_proto w) rs\<rparr>)
       (server_query_route w srv y s) s
    \<and> (case proto_to_route_query y of Inl _ \<Rightarrow> True | Inr (t, q, preferred, n) \<Rightarrow>
         n = prq_max_routes y \<and> (preferred = None \<longleftrightarrow> prq_preferred_pattern y \<notin> {1, 2, 3, 4, 5}))
    \<and> answered (readable w (PHeartbeat h)) (proto_to_heartbeat w h)
       (handle_heartbeat (srv_fault srv)) (\<lambda>n. \<lparr>phk_sequence = n\<rparr>)
       (server_send_heartbeat w srv h s) s
    \<and> answered (readable w (PBackpressure b)) (proto_to_backpressure w b)
       (handle_backpressure (srv_fault srv)) (\<lambda>ack. \<lparr>pak_acknowledged = ack\<rparr>)
       (server_report_backpressure w srv b s) s
    \<and> answered (readable w (PCircuitBreak k)) (proto_to_circuit_break w k)
       (handle_circuit_break (srv_fault srv)) (\<lambda>ack. \<lparr>pak_acknowledged = ack\<rparr>)
       (server_report_circuit_break w srv k s) s
    \<and> answered (readable w (PInteractionProof i)) (proto_to_interaction_proof w now i)
       (handle_interaction_proof (srv_trust srv)) (\<lambda>ack. \<lparr>pfk_accepted = ack\<rparr>)
       (server_submit_interaction_proof w now srv i s) s"
proof (intro conjI, goal_cases)
  case 4
  show ?case
    by (cases "uuid_parse w (ptq_task_id d)"; cases "handle_stream_results (srv_task srv)
        (the (uuid_parse w (ptq_task_id d))) s")
      (auto simp: answered_def server_stream_results_def id_readable_def serve_def split: sum.split)
next
  case 6
  show ?case
  proof (cases "proto_to_route_query y")
    case (Inl e)
    then show ?thesis
      using route_query_accepted [of y] by (auto simp: answered_def server_query_route_def serve_def)
  next
    case (Inr q)
    then have "prq_task_type y \<in> {1, 2, 3, 4} \<and> prq_qos y \<noteq> None" using route_query_accepted by blast
    then show ?thesis
      unfolding answered_def server_query_route_def serve_ok [where dec = proto_to_route_query, OF Inr]
      using Inr by (simp del: insert_iff)
  qed
next
  case 7
  show ?case using route_query_pattern [of y] by (auto split: sum.split)
qed (unfold server_probe_def server_accept_contract_def server_submit_task_def
      server_request_context_def server_send_heartbeat_def server_report_backpressure_def
      server_report_circuit_break_def server_submit_interaction_proof_def,
    (rule serve_answered requests_accepted)+)

text \<open>The default server: a probe without a sender, and a query with an unknown pattern.\<close>

definition anonymous_probe :: pb_probe where
  "anonymous_probe = (probe_to_proto binary_env probe_sample)\<lparr>pp_from := None\<rparr>"

definition odd_query :: pb_route_query where
  "odd_query = (route_query_to_proto (Analysis, default_qos, None, 3))\<lparr>prq_preferred_pattern := 9\<rparr>"

theorem malformed_requests_rejected_witness:
  "(\<exists>e. server_probe binary_env 0 (atp_server_new binary_env (AgentId 9) 0) anonymous_probe ()
       = (Inl (InvalidArgument e), ()))
   \<and> server_query_route binary_env (atp_server_new binary_env (AgentId 9) 0) odd_query ()
       = (Inr \<lparr>prr_routes = []\<rparr>, ())"
proof -
  let ?srv = "atp_server_new binary_env (AgentId 9) 0 :: unit atp_server"
  note a = malformed_requests_rejected [where w = binary_env and srv = ?srv and s = "()" and now = 0
      and p = anonymous_probe and y = odd_query]
  have "answered (readable binary_env (PProbe anonymous_probe))
      (proto_to_probe binary_env 0 anonymous_probe) (handle_probe (srv_handshake ?srv))
      (offer_to_proto binary_env) (server_probe binary_env 0 ?srv anonymous_probe ()) ()"
    by (rule a [THEN conjunct1])
  moreover have "\<not> readable binary_env (PProbe anonymous_probe)"
    by (simp add: anonymous_probe_def agent_readable_def)
  moreover have "answered (prq_task_type odd_query \<in> {1, 2, 3, 4} \<and> prq_qos odd_query \<noteq> None)
      (proto_to_route_query odd_query) (handle_route_query (srv_routing ?srv))
      (\<lambda>rs. \<lparr>prr_routes = map (route_to_proto binary_env) rs\<rparr>)
      (server_query_route binary_env ?srv odd_query ()) ()"
    by (rule a [THEN conjunct2, THEN conjunct2, THEN conjunct2, THEN conjunct2, THEN conjunct2,
          THEN conjunct1])
  moreover have "prq_task_type odd_query \<in> {1, 2, 3, 4} \<and> prq_qos odd_query \<noteq> None"
    by (simp add: odd_query_def route_query_to_proto_def task_type_to_i32_def)
  ultimately show ?thesis
    by (auto simp: answered_def atp_server_new_def default_routing_handler_def simp del: insert_iff)
qed

end
