(* ===== verification/Dispatcher.thy ===== *)
theory Dispatcher
  imports Circuit_Breaker Heartbeat Checkpoint Poison Backpressure Offer Identity_Store
begin

text \<open>
  The message dispatcher of \<open>atp-node\<close> (\<open>dispatcher.rs\<close>). The layers it is handed are one record;
  each lock-protected component is updated through its interior, so a dispatch yields the reply and
  the new layers. \<open>clk\<close> gives the clock readings of a call in order.
\<close>

record layers =
  ly_identity :: identity_store
  ly_registry :: capability_registry
  ly_heartbeat :: heartbeat_monitor
  ly_breaker :: circuit_breaker
  ly_checkpoints :: checkpoint_store
  ly_poison :: poison_detector
  ly_load :: load_tracker

record dispatcher =
  md_node_id :: agent_id

definition dispatcher_new :: "agent_id \<Rightarrow> dispatcher" where
  "dispatcher_new a = \<lparr>md_node_id = a\<rparr>"

type_synonym reply = "atp_error + atp_message option"

definition dispatch_probe ::
  "clock \<Rightarrow> dispatcher \<Rightarrow> capability_probe_msg \<Rightarrow> layers \<Rightarrow> reply \<times> layers" where
  "dispatch_probe clk d probe ls =
     (let result = process_probe probe (ly_registry ls)
      in case find (\<lambda>e. re_agent_id e = md_node_id d) (pr_matching_entries result) of
           Some entry \<Rightarrow>
             (Inr (Some (CapabilityOffer (create_offer (clk 0) (md_node_id d) probe
                (re_capability entry) (re_trust_score entry) (from_secs 5)))), ls)
         | None \<Rightarrow> (Inr None, ls))"

definition dispatch_offer :: "dispatcher \<Rightarrow> capability_offer_msg \<Rightarrow> layers \<Rightarrow> reply \<times> layers" where
  "dispatch_offer d ofr ls = (Inr None, ls)"

definition dispatch_contract :: "dispatcher \<Rightarrow> contract_accept_msg \<Rightarrow> layers \<Rightarrow> reply \<times> layers" where
  "dispatch_contract d contract ls = (Inr None, ls)"

definition dispatch_context_request ::
  "dispatcher \<Rightarrow> context_request_msg \<Rightarrow> layers \<Rightarrow> reply \<times> layers" where
  "dispatch_context_request d request ls = (Inr None, ls)"

definition dispatch_task_submit ::
  "chrono \<Rightarrow> clock \<Rightarrow> dispatcher \<Rightarrow> task_submit_msg \<Rightarrow> layers \<Rightarrow> reply \<times> layers" where
  "dispatch_task_submit c clk d submit ls =
     (let (allowed, breaker) = allow_request c clk (ly_breaker ls) (submit_from submit);
          ls = ls\<lparr>ly_breaker := breaker\<rparr>
      in case allowed of
           Inl e \<Rightarrow> (Inl (FaultErr e), ls)
         | Inr _ \<Rightarrow>
             if is_poisoned (ly_poison ls) (submit_task_id submit)
             then (Inl (FaultErr (PoisonTask (submit_task_id submit))), ls)
             else (Inr None, ls))"

definition record_of_proof :: "interaction_proof_msg \<Rightarrow> interaction_record" where
  "record_of_proof p =
     \<lparr>ir_evaluator = proof_evaluator p, ir_subject = proof_subject p,
      ir_task_type = proof_task_type p, ir_quality_score = proof_quality_score p,
      ir_latency_ms = proof_latency_ms p, ir_cost = proof_cost p,
      ir_timestamp = proof_timestamp p, ir_signature = proof_signature p\<rparr>"

definition dispatch_task_result ::
  "clock \<Rightarrow> dispatcher \<Rightarrow> task_result_msg \<Rightarrow> layers \<Rightarrow> reply \<times> layers" where
  "dispatch_task_result clk d result ls =
     (let breaker = breaker_record_success clk (ly_breaker ls) (result_from result);
          proof = \<lparr>proof_evaluator = md_node_id d, proof_subject = result_from result,
            proof_task_id = result_task_id result, proof_task_type = CodeGeneration,
            proof_quality_score = result_quality_self_report result,
            proof_latency_ms = as_millis_u64 (result_elapsed result),
            proof_cost = result_actual_cost result, proof_timestamp = clk 1, proof_signature = []\<rparr>
      in (Inr (Some (InteractionProof proof)),
          ls\<lparr>ly_breaker := breaker,
             ly_identity := add_interaction (ly_identity ls) (record_of_proof proof)\<rparr>))"

definition dispatch_interaction_proof ::
  "dispatcher \<Rightarrow> interaction_proof_msg \<Rightarrow> layers \<Rightarrow> reply \<times> layers" where
  "dispatch_interaction_proof d proof ls =
     (Inr None, ls\<lparr>ly_identity := add_interaction (ly_identity ls) (record_of_proof proof)\<rparr>)"

definition dispatch_heartbeat ::
  "clock \<Rightarrow> dispatcher \<Rightarrow> heartbeat_msg \<Rightarrow> layers \<Rightarrow> reply \<times> layers" where
  "dispatch_heartbeat clk d hb ls =
     (let ls = ls\<lparr>ly_heartbeat := record_heartbeat (clk 0) (ly_heartbeat ls) hb\<rparr>;
          ls = ls\<lparr>ly_load := update_from_heartbeat (clk 1) (ly_load ls) hb\<rparr>
      in if is_overloaded (ly_load ls) (hb_from hb)
         then (Inr (Some (Backpressure (load_build_message (ly_load ls) (hb_from hb)))), ls)
         else (Inr None, ls))"

definition dispatch_backpressure ::
  "clock \<Rightarrow> dispatcher \<Rightarrow> backpressure_msg \<Rightarrow> layers \<Rightarrow> reply \<times> layers" where
  "dispatch_backpressure clk d bp ls =
     (Inr None, ls\<lparr>ly_load := update_from_backpressure (clk 0) (ly_load ls) bp\<rparr>)"

definition dispatch_circuit_break ::
  "clock \<Rightarrow> dispatcher \<Rightarrow> circuit_break_msg \<Rightarrow> layers \<Rightarrow> reply \<times> layers" where
  "dispatch_circuit_break clk d cb ls =
     (Inr None,
      (case cb_state cb of
         Open \<Rightarrow> ls\<lparr>ly_breaker := breaker_record_failure clk (ly_breaker ls) (cb_target cb)\<rparr>
       | Closed \<Rightarrow> ls\<lparr>ly_breaker := breaker_record_success clk (ly_breaker ls) (cb_target cb)\<rparr>
       | HalfOpen \<Rightarrow> ls))"

fun dispatch ::
  "chrono \<Rightarrow> clock \<Rightarrow> dispatcher \<Rightarrow> atp_message \<Rightarrow> layers \<Rightarrow> reply \<times> layers" where
  "dispatch c clk d (CapabilityProbe probe) ls = dispatch_probe clk d probe ls"
| "dispatch c clk d (CapabilityOffer ofr) ls = dispatch_offer d ofr ls"
| "dispatch c clk d (ContractAccept contract) ls = dispatch_contract d contract ls"
| "dispatch c clk d (ContextRequest request) ls = dispatch_context_request d request ls"
| "dispatch c clk d (TaskSubmit submit) ls = dispatch_task_submit c clk d submit ls"
| "dispatch c clk d (TaskResult result) ls = dispatch_task_result clk d result ls"
| "dispatch c clk d (InteractionProof p) ls = dispatch_interaction_proof d p ls"
| "dispatch c clk d (Heartbeat hb) ls = dispatch_heartbeat clk d hb ls"
| "dispatch c clk d (Backpressure bp) ls = dispatch_backpressure clk d bp ls"
| "dispatch c clk d (CircuitBreak cb) ls = dispatch_circuit_break clk d cb ls"

lemmas dispatch_defs = dispatch_probe_def dispatch_offer_def dispatch_contract_def
  dispatch_context_request_def dispatch_task_submit_def dispatch_task_result_def
  dispatch_interaction_proof_def dispatch_heartbeat_def dispatch_backpressure_def
  dispatch_circuit_break_def

section \<open>Sequences of messages\<close>

text \<open>The messages a node receives, each with the clock readings of its handling.\<close>

definition dispatch_all ::
  "chrono \<Rightarrow> dispatcher \<Rightarrow> (clock \<times> atp_message) list \<Rightarrow> layers \<Rightarrow> layers" where
  "dispatch_all c d ms ls = fold (\<lambda>(clk, m) ls. snd (dispatch c clk d m ls)) ms ls"

text \<open>What a message reports about a circuit, as the gate sees it.\<close>

fun circuit_reports :: "clock \<Rightarrow> atp_message \<Rightarrow> (clock \<times> agent_id \<times> bool) list" where
  "circuit_reports clk (TaskResult r) = [(clk, result_from r, True)]"
| "circuit_reports clk (CircuitBreak cb) = (case cb_state cb of
     Open \<Rightarrow> [(clk, cb_target cb, False)] | Closed \<Rightarrow> [(clk, cb_target cb, True)] | HalfOpen \<Rightarrow> [])"
| "circuit_reports clk _ = []"

fun submitter :: "atp_message \<Rightarrow> agent_id option" where
  "submitter (TaskSubmit s) = Some (submit_from s)"
| "submitter _ = None"

text \<open>The records a message adds to the identity store.\<close>

fun message_records :: "clock \<Rightarrow> dispatcher \<Rightarrow> atp_message \<Rightarrow> interaction_record list" where
  "message_records clk d (TaskResult r) =
     [\<lparr>ir_evaluator = md_node_id d, ir_subject = result_from r, ir_task_type = CodeGeneration,
       ir_quality_score = result_quality_self_report r,
       ir_latency_ms = as_millis_u64 (result_elapsed r), ir_cost = result_actual_cost r,
       ir_timestamp = clk 1, ir_signature = []\<rparr>]"
| "message_records clk d (InteractionProof p) = [record_of_proof p]"
| "message_records clk d _ = []"

lemma dispatch_frame:
  "ly_registry (snd (dispatch c clk d m ls)) = ly_registry ls"
  "ly_checkpoints (snd (dispatch c clk d m ls)) = ly_checkpoints ls"
  "ly_poison (snd (dispatch c clk d m ls)) = ly_poison ls"
  by (cases m; auto simp: dispatch_defs Let_def split: option.splits sum.splits prod.splits
      circuit_state.splits)+

lemma dispatch_identity:
  "ly_identity (snd (dispatch c clk d m ls)) = fold (\<lambda>r st. add_interaction st r)
     (message_records clk d m) (ly_identity ls)"
  by (cases m)
    (auto simp: dispatch_defs Let_def record_of_proof_def split: option.splits sum.splits prod.splits
      circuit_state.splits)

lemma dispatch_breaker:
  "ly_breaker (snd (dispatch c clk d m ls)) =
     (case submitter m of
        Some a \<Rightarrow> snd (allow_request c clk (ly_breaker ls) a)
      | None \<Rightarrow> foldl breaker_gate.report (ly_breaker ls) (circuit_reports clk m))"
  by (cases m)
    (auto simp: dispatch_defs Let_def breaker_gate.report_def split: option.splits sum.splits prod.splits
      circuit_state.splits)

lemma dispatch_all_Cons:
  "dispatch_all c d ((clk, m) # ms) ls = dispatch_all c d ms (snd (dispatch c clk d m ls))"
  by (simp add: dispatch_all_def)

lemma dispatch_all_frame:
  "ly_registry (dispatch_all c d ms ls) = ly_registry ls
   \<and> ly_checkpoints (dispatch_all c d ms ls) = ly_checkpoints ls
   \<and> ly_poison (dispatch_all c d ms ls) = ly_poison ls"
proof (induction ms arbitrary: ls)
  case (Cons x ms)
  then show ?case by (cases x) (simp add: dispatch_all_Cons dispatch_frame)
qed (simp add: dispatch_all_def)

lemma add_interaction_facts:
  "is_identities (add_interaction st r) = is_identities st"
  "is_trust_engine (add_interaction st r) = is_trust_engine st"
  "is_sybil_guard (add_interaction st r) = is_sybil_guard st"
  "get_interactions (add_interaction st r) s
     = get_interactions st s @ (if ir_subject r = s then [r] else [])"
  by (simp_all add: add_interaction_def get_interactions_def Let_def split: option.split)

lemma add_interactions:
  "is_identities (fold (\<lambda>r st. add_interaction st r) rs st) = is_identities st
   \<and> get_interactions (fold (\<lambda>r st. add_interaction st r) rs st) s
       = get_interactions st s @ filter (\<lambda>r. ir_subject r = s) rs"
  by (induction rs arbitrary: st) (auto simp: add_interaction_facts)

lemma dispatch_all_identity:
  "is_identities (ly_identity (dispatch_all c d ms ls)) = is_identities (ly_identity ls)
   \<and> get_interactions (ly_identity (dispatch_all c d ms ls)) s
       = get_interactions (ly_identity ls) s
         @ filter (\<lambda>r. ir_subject r = s) (concat (map (\<lambda>(clk, m). message_records clk d m) ms))"
proof (induction ms arbitrary: ls)
  case (Cons x ms)
  obtain clk m where x: "x = (clk, m)" by (cases x)
  show ?case
    using Cons [of "snd (dispatch c clk d m ls)"] add_interactions
    by (simp add: x dispatch_all_Cons dispatch_identity)
qed (simp add: dispatch_all_def)

lemma add_interactions_engine:
  "is_trust_engine (fold (\<lambda>r st. add_interaction st r) rs st) = is_trust_engine st"
  by (induction rs arbitrary: st) (simp_all add: add_interaction_facts)

lemma dispatch_all_engine:
  "is_trust_engine (ly_identity (dispatch_all c d ms ls)) = is_trust_engine (ly_identity ls)"
proof (induction ms arbitrary: ls)
  case (Cons x ms)
  then show ?case
    by (cases x) (simp add: dispatch_all_Cons dispatch_identity add_interactions_engine)
qed (simp add: dispatch_all_def)

section \<open>Circuits under messages\<close>

lemma messages_keep_open:
  "\<forall>(clk, m) \<in> set ms. submitter m \<noteq> Some a \<Longrightarrow> circuit_state_of (ly_breaker ls) a = Open \<Longrightarrow>
   circuit_state_of (ly_breaker (dispatch_all c d ms ls)) a = Open"
proof (induction ms arbitrary: ls)
  case (Cons x ms)
  obtain clk m where x: "x = (clk, m)" by (cases x)
  have sub: "submitter m \<noteq> Some a" using Cons.prems(1) x by simp
  have "circuit_state_of (ly_breaker (snd (dispatch c clk d m ls))) a = Open"
  proof (cases "submitter m")
    case None
    then show ?thesis
      using breaker_gate.reports_open [OF Cons.prems(2)] by (simp add: dispatch_breaker)
  next
    case (Some b)
    then have "b \<noteq> a" using sub by simp
    then show ?thesis using Some Cons.prems(2) by (simp add: dispatch_breaker allow_state)
  qed
  then show ?case using Cons.IH Cons.prems(1) by (simp add: x dispatch_all_Cons)
qed (simp add: dispatch_all_def)

text \<open>Notifications that a circuit to the victim is open, from whatever senders.\<close>

definition open_notices :: "(nat \<Rightarrow> clock) \<Rightarrow> (nat \<Rightarrow> agent_id) \<Rightarrow> agent_id \<Rightarrow> nat \<Rightarrow>
   (clock \<times> atp_message) list" where
  "open_notices clks froms victim n = map (\<lambda>i. (clks i, CircuitBreak
     \<lparr>cb_from = froms i, cb_target = victim, cb_state = Open, cb_failure_count = 0\<rparr>)) [0..<n]"

lemma notices_breaker:
  "ly_breaker (dispatch_all c d (map (\<lambda>i. (clks i, CircuitBreak
     \<lparr>cb_from = froms i, cb_target = victim, cb_state = Open, cb_failure_count = 0\<rparr>)) is) ls)
   = foldl (\<lambda>g clk. breaker_record_failure clk g victim) (ly_breaker ls) (map clks is)"
proof (induction "is" arbitrary: ls)
  case (Cons i js)
  show ?case using Cons by (simp add: dispatch_all_Cons dispatch_circuit_break_def)
qed (simp add: dispatch_all_def)

lemma notices_open:
  assumes "circuit_state_of (ly_breaker ls) v = Closed" "failure_count (ly_breaker ls) v = 0"
    and "circuit_breaker_threshold (brk_config (ly_breaker ls)) \<noteq> 0" "n < 2 ^ 32"
    and "unat (circuit_breaker_threshold (brk_config (ly_breaker ls))) \<le> n"
  shows "circuit_state_of (ly_breaker (dispatch_all c d (open_notices clks froms v n) ls)) v = Open"
proof -
  have "0 < unat (circuit_breaker_threshold (brk_config (ly_breaker ls)))"
    using assms(3) by (simp add: unat_gt_0)
  from failures_in_a_row [OF assms(1,2,4) this, of clks] show ?thesis
    using assms(5) by (simp add: open_notices_def notices_breaker Let_def)
qed

lemma dispatch_all_append: "dispatch_all c d (ms @ ns) ls = dispatch_all c d ns (dispatch_all c d ms ls)"
  by (simp add: dispatch_all_def)

section \<open>Properties\<close>

text \<open>
  What remote messages cannot touch: whatever messages arrive in whatever order, the capability
  registry, the checkpoints, the poison marks and the registered identities stay as they were, and
  the interaction records about an agent only grow, by exactly one record for every task result
  from it and every interaction proof about it, in the order of arrival.
\<close>

lemma messages_leave_directories:
  "ly_registry (dispatch_all c d ms ls) = ly_registry ls
   \<and> ly_checkpoints (dispatch_all c d ms ls) = ly_checkpoints ls
   \<and> ly_poison (dispatch_all c d ms ls) = ly_poison ls
   \<and> is_identities (ly_identity (dispatch_all c d ms ls)) = is_identities (ly_identity ls)
   \<and> get_interactions (ly_identity (dispatch_all c d ms ls)) s
       = get_interactions (ly_identity ls) s
         @ filter (\<lambda>r. ir_subject r = s) (concat (map (\<lambda>(clk, m). message_records clk d m) ms))"
  using dispatch_all_frame [of c d ms ls] dispatch_all_identity [of c d ms ls s] by simp

text \<open>
  C39. Gossip opens any circuit: as many \<open>Open\<close> notifications about an agent as the threshold, from
  any senders, open its circuit although not one request to it has failed, and no further messages
  close it again, not even notifications that it is closed, as long as the agent itself submits
  nothing.
\<close>

theorem gossip_opens_any_circuit:
  assumes "circuit_state_of (ly_breaker ls) v = Closed" and "failure_count (ly_breaker ls) v = 0"
    and "circuit_breaker_threshold (brk_config (ly_breaker ls)) \<noteq> 0" and "n < 2 ^ 32"
    and "unat (circuit_breaker_threshold (brk_config (ly_breaker ls))) \<le> n"
    and "\<forall>(clk, m) \<in> set ms. submitter m \<noteq> Some v"
  shows "circuit_state_of (ly_breaker (dispatch_all c d (open_notices clks froms v n @ ms) ls)) v = Open"
  unfolding dispatch_all_append
  by (rule messages_keep_open [OF assms(6) notices_open [OF assms(1-5)]])

definition fresh_layers :: layers where
  "fresh_layers = \<lparr>ly_identity = identity_store_new, ly_registry = registry_new,
     ly_heartbeat = heartbeat_monitor_with_defaults, ly_breaker = circuit_breaker_with_defaults,
     ly_checkpoints = checkpoint_store_new, ly_poison = poison_detector_with_defaults,
     ly_load = load_tracker_with_defaults\<rparr>"

theorem gossip_opens_any_circuit_witness:
  "circuit_state_of (ly_breaker (dispatch_all chrono_limits (dispatcher_new (AgentId 1))
     (open_notices (\<lambda>_ _. 0) (\<lambda>_. AgentId 66) (AgentId 2) 3) fresh_layers)) (AgentId 2) = Open"
  using gossip_opens_any_circuit [of fresh_layers "AgentId 2" 3 "[]"]
  by (simp add: fresh_layers_def circuit_breaker_with_defaults_def default_fault_config_def)

text \<open>
  Task admission: a submitted task is accepted exactly when its sender's circuit admits it and
  the task is not poisoned; otherwise the answer is the circuit error or the poison error, the first
  taking precedence. Only the sender's circuit may change, and a refusal by the circuit changes
  nothing at all.
\<close>

lemma task_submit_decision:
  "(case dispatch c clk d (TaskSubmit m) ls of (r, ls') \<Rightarrow>
      (r = Inr None \<longleftrightarrow> fst (admit_request c clk (ly_breaker ls) (submit_from m))
         \<and> \<not> is_poisoned (ly_poison ls) (submit_task_id m))
      \<and> (r = Inl (FaultErr (CircuitOpen (submit_from m))) \<longleftrightarrow>
           \<not> fst (admit_request c clk (ly_breaker ls) (submit_from m)))
      \<and> r \<in> {Inr None, Inl (FaultErr (CircuitOpen (submit_from m))),
               Inl (FaultErr (PoisonTask (submit_task_id m)))}
      \<and> ls' = ls\<lparr>ly_breaker := ly_breaker ls'\<rparr>
      \<and> (a = submit_from m \<or> circuit_state_of (ly_breaker ls') a = circuit_state_of (ly_breaker ls) a)
      \<and> (fst (admit_request c clk (ly_breaker ls) (submit_from m)) \<or> ls' = ls))"
proof -
  obtain r cb where r: "allow_request c clk (ly_breaker ls) (submit_from m) = (r, cb)" by fastforce
  have st: "circuit_state_of cb a = circuit_state_of (ly_breaker ls) a" if "a \<noteq> submit_from m"
    using allow_state [of c clk "ly_breaker ls" "submit_from m" a] that r by simp
  show ?thesis
  proof (cases r)
    case (Inl e)
    have "e = CircuitOpen (submit_from m)"
      using r Inl by (auto simp: allow_request_def Let_def split: circuit_state.splits if_splits)
    moreover have "cb = ly_breaker ls"
      using allow_denied [of c clk "ly_breaker ls" "submit_from m"] r Inl by simp
    ultimately show ?thesis
      using r Inl by (simp add: dispatch_task_submit_def admit_request_def)
  next
    case (Inr u)
    then show ?thesis
      using r st by (cases "is_poisoned (ly_poison ls) (submit_task_id m)")
        (auto simp: dispatch_task_submit_def admit_request_def Let_def)
  qed
qed

text \<open>
  A probe is answered truthfully: a node whose own registration for the task matches the probe
  answers with an offer of exactly that registration under the probe's nonce, every other node stays
  silent, and nothing changes.
\<close>

lemma probe_answered_truthfully:
  assumes "registry_inv (ly_registry ls)"
  shows "dispatch c clk d (CapabilityProbe p) ls =
     ((case registered (ly_registry ls) (md_node_id d, probe_task_type p) of
         None \<Rightarrow> Inr None
       | Some (cap, trust) \<Rightarrow>
           if capability_matches_probe cap trust (probe_qos p)
           then Inr (Some (CapabilityOffer (create_offer (clk 0) (md_node_id d) p cap trust (from_secs 5))))
           else Inr None), ls)"
proof -
  let ?es = "find_capable (ly_registry ls) (probe_task_type p) (probe_qos p)"
  have mem: "e \<in> set ?es \<longleftrightarrow> registered (ly_registry ls) (re_agent_id e, probe_task_type p)
      = Some (re_capability e, re_trust_score e) \<and> meets_constraints e (probe_qos p)" for e
    by (rule registry_directory.offers_iff [OF assms])
  show ?thesis
  proof (cases "find (\<lambda>e. re_agent_id e = md_node_id d) ?es")
    case None
    then have "\<not> (registered (ly_registry ls) (md_node_id d, probe_task_type p) = Some (cap, trust)
        \<and> capability_matches_probe cap trust (probe_qos p))" for cap trust
      using mem [of "\<lparr>re_agent_id = md_node_id d, re_capability = cap, re_trust_score = trust\<rparr>"]
      by (auto simp: find_None_iff meets_constraints_matches)
    then show ?thesis
      using None by (auto simp: dispatch_probe_def process_probe_def split: option.splits)
  next
    case (Some e)
    then have "e \<in> set ?es" "re_agent_id e = md_node_id d"
      by (auto simp: find_Some_iff)
    then show ?thesis
      using Some mem [of e]
      by (auto simp: dispatch_probe_def process_probe_def meets_constraints_matches)
  qed
qed

lemma probe_answered_truthfully_example:
  "fst (dispatch chrono_limits (\<lambda>_. 0) (dispatcher_new (AgentId 1)) (CapabilityProbe
     (create_probe 7 0 (AgentId 9) Analysis default_qos None)) fresh_layers) = Inr None"
  using probe_answered_truthfully [of fresh_layers chrono_limits "\<lambda>_. 0" "dispatcher_new (AgentId 1)"
      "create_probe 7 0 (AgentId 9) Analysis default_qos None"] registry_inv_new
  by (simp add: fresh_layers_def registered_def task_entries_def registry_new_def)

text \<open>
  A stale heartbeat: when its sequence number is not newer than the last one seen, the heartbeat
  monitor ignores it, but the load tracker takes over its queue depth all the same, and the answer
  is a back-pressure message exactly when that depth exceeds the threshold. So a delayed or replayed
  heartbeat overwrites the current load.
\<close>

lemma stale_heartbeat_overwrites_load:
  assumes "hm_agents (ly_heartbeat ls) (hb_from hb) = Some s" and "hb_sequence hb \<le> hs_last_sequence s"
  shows "(case dispatch c clk d (Heartbeat hb) ls of (r, ls') \<Rightarrow>
      ly_heartbeat ls' = ly_heartbeat ls
      \<and> load_queue_depth (ly_load ls') (hb_from hb) = Some (hb_queue_depth hb)
      \<and> (r = Inr (Some (Backpressure (load_build_message (ly_load ls') (hb_from hb)))) \<longleftrightarrow>
           backpressure_threshold (lt_config (ly_load ls)) < hb_queue_depth hb)
      \<and> (r = Inr None \<longleftrightarrow> hb_queue_depth hb \<le> backpressure_threshold (lt_config (ly_load ls))))"
proof -
  let ?lt = "update_from_heartbeat (clk 1) (ly_load ls) hb"
  have q: "load_queue_depth ?lt (hb_from hb) = Some (hb_queue_depth hb)"
    "lt_config ?lt = lt_config (ly_load ls)"
    by (simp_all add: update_from_heartbeat_def load_update_def load_queue_depth_def Let_def)
  then have "is_overloaded ?lt (hb_from hb) \<longleftrightarrow>
      backpressure_threshold (lt_config (ly_load ls)) < hb_queue_depth hb"
    by (simp add: is_overloaded_def)
  then show ?thesis
    using q record_heartbeat_stale [OF assms, of "clk 0"] by (auto simp: dispatch_heartbeat_def Let_def)
qed

definition heartbeat_sample :: "u64 \<Rightarrow> u32 \<Rightarrow> heartbeat_msg" where
  "heartbeat_sample sq depth =
     \<lparr>hb_from = AgentId 2, hb_sequence = sq, hb_queue_depth = depth, hb_load_factor = 0\<rparr>"

lemma stale_heartbeat_overwrites_load_example:
  "load_queue_depth (ly_load (dispatch_all chrono_limits (dispatcher_new (AgentId 1))
     [(\<lambda>_. 0, Heartbeat (heartbeat_sample 9 0)), (\<lambda>_. 5, Heartbeat (heartbeat_sample 8 200))]
     fresh_layers)) (AgentId 2) = Some 200"
proof -
  let ?ls = "snd (dispatch chrono_limits (\<lambda>_. 0) (dispatcher_new (AgentId 1))
     (Heartbeat (heartbeat_sample 9 0)) fresh_layers)"
  have "hm_agents (ly_heartbeat ?ls) (hb_from (heartbeat_sample 8 200)) =
      Some \<lparr>hs_last_sequence = 9, hs_last_seen = 0, hs_queue_depth = 0, hs_load_factor = 0,
        hs_status = Alive\<rparr>"
    by (simp add: dispatch_heartbeat_def Let_def heartbeat_sample_def fresh_layers_def
        record_heartbeat_def heartbeat_monitor_with_defaults_def heartbeat_monitor_new_def)
  from stale_heartbeat_overwrites_load [OF this, of chrono_limits "\<lambda>_. 5" "dispatcher_new (AgentId 1)"]
  show ?thesis
    by (simp add: dispatch_all_def heartbeat_sample_def split: prod.splits)
qed

text \<open>
  Trust is self-awarded: any sequence of task results that an unknown agent sends, each
  reporting quality one, makes its aggregate trust exactly one, although the node never gave it a
  task; nothing relates a result to a submission. (The weights of the records must not all vanish.)
\<close>

lemma self_reported_results_earn_trust:
  assumes "exp_ok lm" and "engine_ok (is_trust_engine (ly_identity ls))"
    and "get_interactions (ly_identity ls) a = []"
    and "ms \<noteq> []" and "length ms \<le> 2 ^ 52"
    and "\<forall>(clk, m) \<in> set ms. \<exists>r. m = TaskResult r \<and> result_from r = a \<and> result_quality_self_report r = 1"
    and "snd (weigh lm (is_trust_engine (ly_identity ls)) now
           (concat (map (\<lambda>(clk, m). message_records clk d m) ms)) 0 0) \<noteq> 0"
  shows "store_aggregate_trust lm (ly_identity (dispatch_all c d ms ls)) a now = 1"
proof -
  let ?rs = "concat (map (\<lambda>(clk, m). message_records clk d m) ms)"
  have one: "\<exists>r. message_records clk d m = [r] \<and> ir_subject r = a \<and> ir_quality_score r = 1"
    if "(clk, m) \<in> set ms" for clk m
    using assms(6) that by fastforce
  have subj: "ir_subject r = a \<and> ir_quality_score r = 1" if "r \<in> set ?rs" for r
    using one that by fastforce
  have len: "length ?rs = length ms"
  proof -
    have "length (message_records clk d m) = 1" if "(clk, m) \<in> set ms" for clk m
      using one [OF that] by auto
    then have "map length (map (\<lambda>(clk, m). message_records clk d m) ms) = map (\<lambda>_. 1) ms"
      by (simp add: split_beta)
    then show ?thesis by (simp add: length_concat map_replicate_const sum_list_replicate)
  qed
  have f: "filter (\<lambda>r. ir_subject r = a) ?rs = ?rs" using subj by (simp add: filter_id_conv)
  have store: "get_interactions (ly_identity (dispatch_all c d ms ls)) a = ?rs"
    using dispatch_all_identity [of c d ms ls a] assms(3) f by simp
  have eng: "is_trust_engine (ly_identity (dispatch_all c d ms ls)) = is_trust_engine (ly_identity ls)"
    by (rule dispatch_all_engine)
  have ne: "?rs \<noteq> []" by (metis len assms(4) length_0_conv)
  have "compute_aggregate_trust lm (is_trust_engine (ly_identity ls)) a ?rs now = 1"
    using aggregate_extremes [OF assms(1,2) f [symmetric] _ _ ne] assms(5,7) len subj by simp
  then show ?thesis
    using store by (simp add: store_aggregate_trust_def get_interactions_def eng)
qed

definition boast :: "atp_message" where
  "boast = TaskResult \<lparr>result_from = AgentId 2, result_task_id = 5,
     result_quality_self_report = 1, result_payload = [], result_elapsed = from_secs 1,
     result_actual_cost = 0\<rparr>"

lemma self_reported_results_earn_trust_example:
  "store_aggregate_trust flat_libm (ly_identity (dispatch_all chrono_limits
     (dispatcher_new (AgentId 1)) [(\<lambda>_. 0, boast)] fresh_layers)) (AgentId 2) 0 = 1"
proof -
  have e: "to_f64 (15 / 10) = Fin (3 / 2)"
    using to_f64_exact [OF exact_frac [of 3 1]] by simp
  have 1: "exact (3 / 2)" using exact_frac [of 3 1] by simp
  have w: "record_weight flat_libm default_trust_engine 0 r = Fin (3 / 2)"
    if "ir_task_type r = CodeGeneration" for r
    using that e to_f64_exact [OF 1] by (simp add: record_weight_def flat_libm_def f64_zero_one_Fin)
  show ?thesis
    by (rule self_reported_results_earn_trust [OF flat_libm_exp])
      (auto simp: fresh_layers_def identity_store_new_def get_interactions_def boast_def
        default_engine_ok w f64_zero_one_Fin to_f64_exact [OF 1] Let_def)
qed

end
