(* ===== verification/Embedding.thy ===== *)
theory Embedding
  imports Atp_Types
begin

text \<open>
  Embeddings and cosine similarity of \<open>atp-context\<close> (\<open>embedding.rs\<close>, \<open>similarity.rs\<close>).

  The two libraries the code calls are the parameter \<open>vector_env\<close>: the hash of the \<open>sha2\<close> crate,
  whose digests have 32 bytes (\<open>env_sound\<close>), and the dot product of \<open>ndarray\<close>, which panics on
  arrays of different lengths (\<open>dot\<close> below) and whose order of summation is not documented.
  An \<open>Array1<f64>\<close> is a list. The growth of a vector beyond the memory is not modelled.
\<close>

section \<open>Square root\<close>

text \<open>
  \<open>f64::sqrt\<close> is correctly rounded. The root is computed with 56 or more bits, a last odd digit
  marks a root that is not exact, and the result is rounded once.
\<close>

function isqrt :: "int \<Rightarrow> int" where
  "isqrt n = (if n \<le> 0 then 0
     else let r = 2 * isqrt (n div 4) in if (r + 1) * (r + 1) \<le> n then r + 1 else r)"
  by pat_completeness auto
termination
  by (relation "measure nat") auto

declare isqrt.simps [simp del]

definition f64_sqrt :: "f64 \<Rightarrow> f64" where
  "f64_sqrt x = (case x of NaN \<Rightarrow> NaN | PInf \<Rightarrow> PInf | NInf \<Rightarrow> NaN
     | Fin a \<Rightarrow>
         if a = 0 then Fin 0 else if a < 0 then NaN
         else (let s = 56 - ilog2 a div 2;
                   y = a * 4 powi s;
                   r = isqrt \<lfloor>y\<rfloor>;
                   sticky = (if of_int (r * r) = y then 0 else 1)
               in to_f64 (of_int (2 * r + sticky) / 2 / 2 powi s)))"

lemma isqrt_bounds:
  "0 \<le> n \<Longrightarrow> 0 \<le> isqrt n \<and> isqrt n * isqrt n \<le> n \<and> n < (isqrt n + 1) * (isqrt n + 1)"
proof (induction n rule: isqrt.induct)
  case (1 n)
  show ?case
  proof (cases "n = 0")
    case True
    then show ?thesis by (simp add: isqrt.simps)
  next
    case False
    let ?q = "isqrt (n div 4)"
    have pos: "\<not> n \<le> 0" using False 1 by simp
    have q: "0 \<le> ?q" "?q * ?q \<le> n div 4" "n div 4 < (?q + 1) * (?q + 1)"
      using "1.IH" [OF pos] pos by (simp_all add: pos_imp_zdiv_nonneg_iff)
    have n: "n = 4 * (n div 4) + n mod 4" "0 \<le> n mod 4" "n mod 4 < 4" by simp_all
    have lo: "4 * (?q * ?q) \<le> n" using q(2) n by linarith
    have "n div 4 + 1 \<le> (?q + 1) * (?q + 1)" using q(3) by simp
    then have hi: "n < 4 * ((?q + 1) * (?q + 1))" using n by linarith
    show ?thesis
      using pos q(1) lo hi by (simp add: isqrt.simps [of n] Let_def algebra_simps)
  qed
qed

lemma isqrt_square: "0 \<le> k \<Longrightarrow> isqrt (k * k) = k"
proof -
  assume k: "0 \<le> k"
  let ?r = "isqrt (k * k)"
  have r: "0 \<le> ?r" "?r * ?r \<le> k * k" "k * k < (?r + 1) * (?r + 1)"
    using isqrt_bounds [of "k * k"] by simp_all
  have "?r \<le> k" by (rule ccontr) (use k r(2) mult_strict_mono [of k ?r k ?r] in simp)
  moreover have "k \<le> ?r"
    by (rule ccontr) (use r mult_mono [of "?r + 1" k "?r + 1" k] k in simp)
  ultimately show ?thesis by simp
qed

lemma f64_sqrt_0 [simp]: "f64_sqrt 0 = 0"
  by (simp add: f64_sqrt_def f64_zero_one_Fin)

lemma f64_sqrt_1 [simp]: "f64_sqrt 1 = 1"
proof -
  have l: "ilog2 1 = 0" by (rule ilog2_eq) simp_all
  have r: "isqrt (2 ^ 112) = 2 ^ 56" using isqrt_square [of "2 ^ 56"] by simp
  have p: "(4::rat) powi 56 = of_int (2 ^ 112)" by simp
  show ?thesis
    using r by (simp add: f64_sqrt_def f64_zero_one_Fin l p Let_def to_f64_exact)
qed

section \<open>Vectors\<close>

record vector_env =
  ve_sha256 :: "u8 list \<Rightarrow> u8 list"
  ve_dot :: "f64 list \<Rightarrow> f64 list \<Rightarrow> f64"

definition env_sound :: "vector_env \<Rightarrow> bool" where
  "env_sound env \<longleftrightarrow> (\<forall>data. length (ve_sha256 env data) = 32)"

definition vdot :: "vector_env \<Rightarrow> f64 list \<Rightarrow> f64 list \<Rightarrow> f64 option" where
  "vdot env a b = (if length a = length b then Some (ve_dot env a b) else None)"

definition DEFAULT_DIMENSIONS :: nat where
  "DEFAULT_DIMENSIONS = 768"

definition to_array :: "context_embedding \<Rightarrow> f64 list" where
  "to_array e = emb_values e"

definition from_array :: "f64 list \<Rightarrow> context_embedding" where
  "from_array a = embedding_new a"

definition normalize :: "vector_env \<Rightarrow> f64 list \<Rightarrow> f64 list option" where
  "normalize env v = do {
     d \<leftarrow> vdot env v v;
     let norm = f64_sqrt d;
     Some (if norm < EPSILON then replicate (length v) 0 else map (\<lambda>x. x / norm) v)
   }"

definition l2_norm :: "vector_env \<Rightarrow> f64 list \<Rightarrow> f64 option" where
  "l2_norm env v = do { d \<leftarrow> vdot env v v; Some (f64_sqrt d) }"

section \<open>Hash embeddings\<close>

definition u64_from_le_bytes :: "u8 list \<Rightarrow> u64" where
  "u64_from_le_bytes bs = foldr (\<lambda>b acc. ucast b + 256 * acc) bs 0"

text \<open>The eight bytes at \<open>start\<close>; a shorter slice panics.\<close>

definition hash_block :: "u8 list \<Rightarrow> nat \<Rightarrow> u8 list option" where
  "hash_block h start = (if start + 8 \<le> length h then Some (take 8 (drop start h)) else None)"

definition block_value :: "u8 list \<Rightarrow> f64" where
  "block_value bytes =
     (let raw = u64_from_le_bytes bytes
      in f64_of_nat (unat raw) / f64_of_nat (2 ^ 64 - 1) * Fin 2 - 1)"

text \<open>The inner \<open>for\<close> over the four blocks of a hash, with its \<open>break\<close>.\<close>

fun embed_blocks ::
  "nat \<Rightarrow> u8 list \<Rightarrow> nat list \<Rightarrow> nat \<times> f64 list \<Rightarrow> (nat \<times> f64 list) option" where
  "embed_blocks dimensions h [] st = Some st"
| "embed_blocks dimensions h (start # starts) (i, vals) =
     (if dimensions \<le> i then Some (i, vals)
      else do {
        bytes \<leftarrow> hash_block h start;
        embed_blocks dimensions h starts (i + 1, vals @ [block_value bytes])
      })"

partial_function (option) embed_loop ::
  "vector_env \<Rightarrow> nat \<Rightarrow> u8 list \<Rightarrow> nat \<Rightarrow> f64 list \<Rightarrow> f64 list option" where
  "embed_loop env dimensions h i vals =
     (if i < dimensions
      then Option.bind (embed_blocks dimensions h [0, 8, 16, 24] (i, vals))
        (\<lambda>st. embed_loop env dimensions (ve_sha256 env h) (fst st) (snd st))
      else Some vals)"

definition embed :: "vector_env \<Rightarrow> u8 list \<Rightarrow> nat \<Rightarrow> context_embedding option" where
  "embed env data dimensions = do {
     vals \<leftarrow> embed_loop env dimensions (ve_sha256 env data) 0 [];
     normed \<leftarrow> normalize env vals;
     Some (embedding_new normed)
   }"

fun type_tag :: "task_type \<Rightarrow> string" where
  "type_tag CodeGeneration = ''atp:task:code_generation:''"
| "type_tag Analysis = ''atp:task:analysis:''"
| "type_tag CreativeWriting = ''atp:task:creative_writing:''"
| "type_tag DataProcessing = ''atp:task:data_processing:''"

definition embed_task ::
  "vector_env \<Rightarrow> task_type \<Rightarrow> u8 list \<Rightarrow> nat \<Rightarrow> context_embedding option" where
  "embed_task env t description dimensions =
     embed env (map (\<lambda>c. of_nat (of_char c)) (type_tag t) @ description) dimensions"

definition validate_dimensions ::
  "context_embedding \<Rightarrow> context_embedding \<Rightarrow> context_error + unit" where
  "validate_dimensions a b =
     (if emb_dimensions a \<noteq> emb_dimensions b
      then Inl (DimensionMismatch (emb_dimensions a) (emb_dimensions b)) else Inr ())"

section \<open>Cosine similarity\<close>

text \<open>The \<open>debug_assert\<close> of the code panics where the first dot product does.\<close>

definition cosine_similarity_arrays ::
  "vector_env \<Rightarrow> f64 list \<Rightarrow> f64 list \<Rightarrow> f64 option" where
  "cosine_similarity_arrays env a b = do {
     d \<leftarrow> vdot env a b;
     norm_a \<leftarrow> l2_norm env a;
     norm_b \<leftarrow> l2_norm env b;
     let denom = norm_a * norm_b;
     Some (if denom < EPSILON then 0 else clamp (d / denom) (- 1) 1)
   }"

definition cosine_similarity ::
  "vector_env \<Rightarrow> context_embedding \<Rightarrow> context_embedding \<Rightarrow> (context_error + f64) option" where
  "cosine_similarity env a b =
     (case validate_dimensions a b of
        Inl e \<Rightarrow> Some (Inl e)
      | Inr _ \<Rightarrow> map_option Inr (cosine_similarity_arrays env (to_array a) (to_array b)))"

definition candidate_similarity ::
  "vector_env \<Rightarrow> f64 list \<Rightarrow> context_embedding \<Rightarrow> f64 option" where
  "candidate_similarity env query_normed c = do {
     let ca = to_array c;
     cn \<leftarrow> l2_norm env ca;
     if cn < EPSILON then Some 0
     else do { s \<leftarrow> vdot env query_normed (map (\<lambda>x. x / cn) ca); Some (clamp s (- 1) 1) }
   }"

text \<open>The candidates in order; the first mismatch ends the collection.\<close>

fun score_candidates ::
  "vector_env \<Rightarrow> nat \<Rightarrow> f64 list \<Rightarrow> (nat \<times> context_embedding) list \<Rightarrow>
     (context_error + (nat \<times> f64) list) option" where
  "score_candidates env dims query_normed [] = Some (Inr [])"
| "score_candidates env dims query_normed ((i, c) # cs) =
     (if emb_dimensions c \<noteq> dims then Some (Inl (DimensionMismatch dims (emb_dimensions c)))
      else do {
        s \<leftarrow> candidate_similarity env query_normed c;
        rest \<leftarrow> score_candidates env dims query_normed cs;
        Some (map_sum id (Cons (i, s)) rest)
      })"

definition rank_by_similarity ::
  "vector_env \<Rightarrow> context_embedding \<Rightarrow> context_embedding list \<Rightarrow>
     (context_error + (nat \<times> f64) list) option" where
  "rank_by_similarity env query candidates = do {
     let query_arr = to_array query;
     query_norm \<leftarrow> l2_norm env query_arr;
     if query_norm < EPSILON then Some (Inr (map (\<lambda>(i, _). (i, 0)) (enumerate 0 candidates)))
     else do {
       scored \<leftarrow> score_candidates env (emb_dimensions query)
         (map (\<lambda>x. x / query_norm) query_arr) (enumerate 0 candidates);
       Some (map_sum id (sort_by (\<lambda>a b. snd b < snd a)) scored)
     }
   }"

section \<open>Lengths and ranges\<close>

lemma vdot_self [simp]: "vdot env v v = Some (ve_dot env v v)"
  by (simp add: vdot_def)

lemma l2_norm_total [simp]: "l2_norm env v = Some (f64_sqrt (ve_dot env v v))"
  by (simp add: l2_norm_def)

lemma normalize_total: "\<exists>w. normalize env v = Some w \<and> length w = length v"
  by (simp add: normalize_def Let_def)

text \<open>A coordinate before normalisation lies between minus one and one.\<close>

definition coordinate :: "f64 \<Rightarrow> bool" where
  "coordinate x \<longleftrightarrow> - 1 \<le> x \<and> x \<le> 1"

lemma u64_max_f64: "\<exists>c \<ge> 1. f64_of_nat (2 ^ 64 - 1) = Fin c"
proof -
  have "exact (2 ^ 64)" using exact_grid [of 1 64] by simp
  then have "Fin 1 \<le> to_f64 (2 ^ 64 - 1)" "to_f64 (2 ^ 64 - 1) \<le> Fin (2 ^ 64)"
    using to_f64_mono [of 1 "2 ^ 64 - 1"] to_f64_mono [of "2 ^ 64 - 1" "2 ^ 64"]
    by (simp_all add: to_f64_exact)
  moreover have "f64_of_nat (2 ^ 64 - 1) = to_f64 (2 ^ 64 - 1)" by (simp add: f64_of_nat_def)
  ultimately show ?thesis by (cases "to_f64 (2 ^ 64 - 1)") simp_all
qed

lemma block_value_coordinate: "coordinate (block_value bs)"
proof -
  let ?n = "unat (u64_from_le_bytes bs)"
  have n: "?n \<le> 2 ^ 64 - 1" using unsigned_less [of "u64_from_le_bytes bs", where 'a = nat] by simp
  have "f64_of_nat ?n \<le> f64_of_nat (2 ^ 64 - 1)"
    unfolding f64_of_nat_def using n by (intro to_f64_mono) (metis of_nat_le_iff)
  moreover have "0 \<le> f64_of_nat ?n"
    unfolding f64_of_nat_def using to_f64_mono [OF of_nat_0_le_iff, of ?n]
    by (simp only: f64_zero_one_Fin to_f64_exact [OF exact_0])
  moreover obtain c where "f64_of_nat (2 ^ 64 - 1) = Fin c" "1 \<le> c"
    using u64_max_f64 by blast
  ultimately have "unit_f64 (f64_of_nat ?n / f64_of_nat (2 ^ 64 - 1))"
    by (cases "f64_of_nat ?n") (auto simp: f64_zero_one_Fin intro!: to_f64_unit)
  then obtain q where q: "f64_of_nat ?n / f64_of_nat (2 ^ 64 - 1) = Fin q" "0 \<le> q" "q \<le> 1"
    by (auto simp: unit_f64_Fin)
  have two: "exact 2" using exact_of_int [of 2] by simp
  have "to_f64 0 \<le> to_f64 (q * 2)" "to_f64 (q * 2) \<le> to_f64 2"
    using q by (auto intro!: to_f64_mono)
  then obtain p where p: "to_f64 (q * 2) = Fin p" "0 \<le> p" "p \<le> 2"
    by (cases "to_f64 (q * 2)") (auto simp: to_f64_exact two)
  have "exact (- 1)" using exact_of_int [of "- 1"] by simp
  then have "Fin (- 1) \<le> to_f64 (p - 1)" "to_f64 (p - 1) \<le> Fin 1"
    using to_f64_mono [of "- 1" "p - 1"] to_f64_mono [of "p - 1" 1] p
    by (simp_all add: to_f64_exact)
  then show ?thesis
    using q p by (simp add: block_value_def coordinate_def Let_def minus_f64_def f64_zero_one_Fin)
qed

section \<open>Embeddings are total\<close>

lemma hash_block_total: "length h = 32 \<Longrightarrow> start \<le> 24 \<Longrightarrow> \<exists>bytes. hash_block h start = Some bytes"
  by (simp add: hash_block_def)

lemma embed_blocks_total:
  assumes "length h = 32" "\<forall>start \<in> set starts. start \<le> 24" "length vals \<le> d"
  shows "\<exists>vs. embed_blocks d h starts (length vals, vals) =
      Some (length (vals @ vs), vals @ vs)
    \<and> length vs = min (length starts) (d - length vals) \<and> (\<forall>x \<in> set vs. coordinate x)"
  using assms(2,3)
proof (induction starts arbitrary: vals)
  case Nil
  then show ?case by simp
next
  case (Cons start starts)
  show ?case
  proof (cases "d \<le> length vals")
    case True
    then show ?thesis using Cons.prems by simp
  next
    case False
    obtain bytes where b: "hash_block h start = Some bytes"
      using hash_block_total [OF assms(1)] Cons.prems by auto
    obtain vs where vs: "embed_blocks d h starts
        (length (vals @ [block_value bytes]), vals @ [block_value bytes]) =
        Some (length ((vals @ [block_value bytes]) @ vs), (vals @ [block_value bytes]) @ vs)"
      "length vs = min (length starts) (d - length (vals @ [block_value bytes]))"
      "\<forall>x \<in> set vs. coordinate x"
      using Cons.IH [of "vals @ [block_value bytes]"] Cons.prems False by auto
    show ?thesis
      using vs False b block_value_coordinate
      by (intro exI [of _ "block_value bytes # vs"]) auto
  qed
qed

lemma embed_loop_total:
  assumes "env_sound env" "length h = 32" "length vals \<le> d"
  shows "\<exists>vs. embed_loop env d h (length vals) vals = Some (vals @ vs)
    \<and> length (vals @ vs) = d \<and> (\<forall>x \<in> set vs. coordinate x)"
  using assms(2,3)
proof (induction "d - length vals" arbitrary: h vals rule: less_induct)
  case less
  show ?case
  proof (cases "length vals < d")
    case False
    then show ?thesis using less.prems by (simp add: embed_loop.simps)
  next
    case True
    obtain vs where vs: "embed_blocks d h [0, 8, 16, 24] (length vals, vals) =
        Some (length (vals @ vs), vals @ vs)" "length vs = min 4 (d - length vals)"
      "\<forall>x \<in> set vs. coordinate x"
      using embed_blocks_total [OF less.prems(1) _ less.prems(2), of "[0, 8, 16, 24]"] by auto
    have "length (vals @ vs) \<le> d" "d - length (vals @ vs) < d - length vals"
      using vs(2) True by auto
    then obtain ws where "embed_loop env d (ve_sha256 env h) (length (vals @ vs)) (vals @ vs)
        = Some ((vals @ vs) @ ws)" "length ((vals @ vs) @ ws) = d" "\<forall>x \<in> set ws. coordinate x"
      using less.hyps [of "vals @ vs" "ve_sha256 env h"] assms(1) unfolding env_sound_def by blast
    then show ?thesis
      using True vs(1,3) by (intro exI [of _ "vs @ ws"]) (auto simp: embed_loop.simps)
  qed
qed

lemma embed_total:
  assumes "env_sound env"
  shows "\<exists>e. embed env data d = Some e \<and> emb_dimensions e = d \<and> length (emb_values e) = d"
proof -
  obtain vs where "embed_loop env d (ve_sha256 env data) 0 [] = Some vs" "length vs = d"
    using embed_loop_total [OF assms, of "ve_sha256 env data" "[]" d] assms
    by (auto simp: env_sound_def)
  then show ?thesis
    using normalize_total [of env vs] by (auto simp: embed_def embedding_new_def)
qed

text \<open>
  C38. The embedding of any data in any dimension is computed: the hash loop ends, with exactly as
  many coordinates as asked for, each of them between minus one and one, and the embedding has the
  declared dimension.
\<close>

theorem embedding_terminates:
  assumes "env_sound env"
  shows "\<exists>vals e. embed_loop env d (ve_sha256 env data) 0 [] = Some vals
    \<and> length vals = d \<and> (\<forall>x \<in> set vals. - 1 \<le> x \<and> x \<le> 1)
    \<and> embed env data d = Some e \<and> emb_dimensions e = d \<and> length (emb_values e) = d"
  using embed_loop_total [OF assms, of "ve_sha256 env data" "[]" d] embed_total [OF assms, of data d]
    assms by (auto simp: env_sound_def coordinate_def)

text \<open>
  An instance of the two libraries, for witnesses: the parity of the bytes in place of the hash,
  and the dot product summed from the left.
\<close>

definition toy_env :: vector_env where
  "toy_env = \<lparr>ve_sha256 = (\<lambda>data. replicate 32 (if odd (sum_list (map unat data)) then 255 else 0)),
     ve_dot = (\<lambda>a b. f64_sum (map2 (*) a b))\<rparr>"

lemma toy_env_sound: "env_sound toy_env"
  by (simp add: env_sound_def toy_env_def)

theorem embedding_terminates_witness:
  "\<exists>e. embed toy_env [1, 2, 3] 6 = Some e \<and> length (emb_values e) = 6"
  using embedding_terminates [OF toy_env_sound, of 6 "[1, 2, 3]"] by blast

section \<open>Similarities\<close>

lemma cosine_total:
  "length a = length b \<Longrightarrow> \<exists>s. cosine_similarity_arrays env a b = Some s"
  by (simp add: cosine_similarity_arrays_def vdot_def Let_def)

lemma cosine_panics: "length a \<noteq> length b \<Longrightarrow> cosine_similarity_arrays env a b = None"
  by (simp add: cosine_similarity_arrays_def vdot_def)

lemma cosine_range:
  assumes "cosine_similarity_arrays env a b = Some s" "s \<noteq> NaN"
  shows "- 1 \<le> s \<and> s \<le> 1"
proof -
  have c: "- 1 \<le> clamp x (- 1) 1 \<and> clamp x (- 1) 1 \<le> 1" if "clamp x (- 1) 1 \<noteq> NaN" for x
    using that by (cases x) (auto simp: clamp_def f64_zero_one_Fin)
  show ?thesis
    using assms c
    by (auto simp: cosine_similarity_arrays_def bind_eq_Some_conv f64_zero_one_Fin Let_def
      split: if_splits)
qed

text \<open>
  A query of norm zero is ranked without looking at the dimensions of the candidates.
\<close>

lemma zero_query_ranks_anything:
  assumes "f64_sqrt (ve_dot env (emb_values q) (emb_values q)) < EPSILON"
  shows "rank_by_similarity env q cs = Some (Inr (map (\<lambda>(i, _). (i, 0)) (enumerate 0 cs)))"
  using assms by (simp add: rank_by_similarity_def to_array_def Let_def)

text \<open>One-dimensional embeddings under \<open>toy_env\<close> are plus or minus one.\<close>

lemma f64_two_minus_one: "Fin 1 * Fin 2 - 1 = Fin 1" "Fin 0 * Fin 2 - 1 = Fin (- 1)"
  using exact_of_int [of 2] exact_of_int [of "- 1"]
  by (simp_all add: minus_f64_def f64_zero_one_Fin to_f64_exact)

lemma block_value_ends:
  "block_value (replicate 8 0) = Fin (- 1)" "block_value (replicate 8 255) = Fin 1"
proof -
  obtain c where c: "f64_of_nat (2 ^ 64 - 1) = Fin c" "1 \<le> c" using u64_max_f64 by blast
  have "replicate 8 x = [x, x, x, x, x, x, x, x]" for x :: u8
    by (simp add: numeral_eq_Suc)
  then have "u64_from_le_bytes (replicate 8 0) = 0" "u64_from_le_bytes (replicate 8 255) = - 1"
    by (simp_all add: u64_from_le_bytes_def)
  moreover have "unat (- 1 :: u64) = 2 ^ 64 - 1"
    by (simp add: unsigned_minus_1_eq_mask mask_eq_exp_minus_1)
  moreover have "f64_of_nat 0 = Fin 0" by (simp add: f64_of_nat_def to_f64_exact)
  ultimately show "block_value (replicate 8 0) = Fin (- 1)" "block_value (replicate 8 255) = Fin 1"
    using c f64_two_minus_one by (simp_all add: block_value_def Let_def to_f64_exact)
qed

lemma toy_embed:
  "embed toy_env data 1 =
     Some (embedding_new [if odd (sum_list (map unat data)) then Fin 1 else Fin (- 1)])"
proof -
  have e: "exact (- 1)" using exact_of_int [of "- 1"] by simp
  have n: "normalize toy_env [Fin q] = Some [Fin q]" if "q = 1 \<or> q = - 1" for q
  proof -
    have "ve_dot toy_env [Fin q] [Fin q] = 1"
      using that by (auto simp: toy_env_def f64_sum_def f64_zero_one_Fin to_f64_exact)
    moreover have "\<not> 1 < EPSILON" by (simp add: EPSILON_def f64_zero_one_Fin)
    moreover have "Fin q / 1 = Fin q"
      using that e by (auto simp: f64_zero_one_Fin to_f64_exact)
    ultimately show ?thesis by (simp add: normalize_def)
  qed
  have l: "embed_loop toy_env 1 (replicate 32 x) 0 [] = Some [block_value (replicate 8 x)]" for x
  proof -
    have "hash_block (replicate 32 x) 0 = Some (replicate 8 x)" by (simp add: hash_block_def)
    then have b: "embed_blocks 1 (replicate 32 x) [0, 8, 16, 24] (0, []) =
        Some (1, [block_value (replicate 8 x)])" by simp
    show ?thesis
      by (subst embed_loop.simps, simp only: b, subst embed_loop.simps) simp
  qed
  show ?thesis
  proof (cases "odd (sum_list (map unat data))")
    case True
    then have "ve_sha256 toy_env data = replicate 32 255" by (simp add: toy_env_def)
    then show ?thesis using True by (simp only: embed_def l block_value_ends) (simp add: n)
  next
    case False
    then have "ve_sha256 toy_env data = replicate 32 0" by (simp add: toy_env_def)
    then show ?thesis using False by (simp only: embed_def l block_value_ends) (simp add: n)
  qed
qed

end
