(* ===== verification/Context_Diff.thy ===== *)
theory Context_Diff
  imports Embedding
begin

text \<open>
  Minimal sufficient context of \<open>atp-context\<close>: extraction (\<open>extraction.rs\<close>) and context diffs
  (\<open>differential.rs\<close>). A \<open>usize\<close> is a natural number; casts to \<open>u32\<close> and \<open>u64\<close> are written out.
\<close>

section \<open>Extraction\<close>

definition DEFAULT_CHUNK_SIZE :: nat where
  "DEFAULT_CHUNK_SIZE = 512"

record msc_config =
  msc_relevance_threshold :: f64
  msc_max_chunks :: nat
  msc_chunk_size :: nat
  msc_dimensions :: nat

definition default_msc_config :: msc_config where
  "default_msc_config =
     \<lparr>msc_relevance_threshold = to_f64 (3 / 10), msc_max_chunks = 0,
      msc_chunk_size = DEFAULT_CHUNK_SIZE, msc_dimensions = DEFAULT_DIMENSIONS\<rparr>"

record msc_result =
  res_chunks :: "context_chunk list"
  res_total_chunks :: nat
  res_base_hash :: "u8 list"
  res_original_size :: nat
  res_compressed_size :: nat
  res_confidence :: f64

definition msc_compression_ratio :: "msc_result \<Rightarrow> f64" where
  "msc_compression_ratio r =
     (if res_compressed_size r = 0 then PInf
      else f64_of_nat (res_original_size r) / f64_of_nat (res_compressed_size r))"

definition retention_ratio :: "msc_result \<Rightarrow> f64" where
  "retention_ratio r =
     (if res_total_chunks r = 0 then 0
      else f64_of_nat (length (res_chunks r)) / f64_of_nat (res_total_chunks r))"

text \<open>\<open>slice::chunks\<close>; a chunk size of zero does not reach it.\<close>

function chunks_of :: "nat \<Rightarrow> 'a list \<Rightarrow> 'a list list" where
  "chunks_of n xs = (if n = 0 \<or> xs = [] then [] else take n xs # chunks_of n (drop n xs))"
  by pat_completeness auto
termination
  by (relation "measure (length \<circ> snd)") auto

declare chunks_of.simps [simp del]

definition split_into_chunks :: "u8 list \<Rightarrow> nat \<Rightarrow> u8 list list" where
  "split_into_chunks data chunk_size =
     (if data = [] \<or> chunk_size = 0 then [] else chunks_of chunk_size data)"

definition hash_context :: "vector_env \<Rightarrow> u8 list \<Rightarrow> u8 list" where
  "hash_context env data = ve_sha256 env data"

definition chunk_similarity ::
  "vector_env \<Rightarrow> f64 list \<Rightarrow> nat \<Rightarrow> u8 list \<Rightarrow> f64 option" where
  "chunk_similarity env task_arr dimensions bytes = do {
     chunk_emb \<leftarrow> embed env bytes dimensions;
     cosine_similarity_arrays env task_arr (to_array chunk_emb)
   }"

fun score_chunks ::
  "vector_env \<Rightarrow> f64 list \<Rightarrow> msc_config \<Rightarrow> (nat \<times> u8 list) list \<Rightarrow> (context_chunk \<times> f64) list option"
where
  "score_chunks env task_arr cfg [] = Some []"
| "score_chunks env task_arr cfg ((idx, bytes) # cs) = do {
     sim \<leftarrow> chunk_similarity env task_arr (msc_dimensions cfg) bytes;
     rest \<leftarrow> score_chunks env task_arr cfg cs;
     Some (if msc_relevance_threshold cfg < sim
           then (\<lparr>chunk_index = of_nat idx, chunk_data = bytes, chunk_relevance_score = sim\<rparr>,
                 sim) # rest
           else rest)
   }"

definition truncate_budget :: "nat \<Rightarrow> 'a list \<Rightarrow> 'a list" where
  "truncate_budget max_chunks xs =
     (if 0 < max_chunks \<and> max_chunks < length xs then take max_chunks xs else xs)"

definition mean_score :: "context_chunk list \<Rightarrow> f64" where
  "mean_score cs = f64_sum (map chunk_relevance_score cs) / f64_of_nat (length cs)"

definition extract_msc ::
  "vector_env \<Rightarrow> u8 list \<Rightarrow> context_embedding \<Rightarrow> msc_config \<Rightarrow> (context_error + msc_result) option"
where
  "extract_msc env data task_embedding cfg =
     (if emb_dimensions task_embedding \<noteq> msc_dimensions cfg
      then Some (Inl (DimensionMismatch (msc_dimensions cfg) (emb_dimensions task_embedding)))
      else
        let base_hash = hash_context env data;
            raw_chunks = split_into_chunks data (msc_chunk_size cfg);
            total_chunks = length raw_chunks
        in if total_chunks = 0 then Some (Inl (ExtractionFailed ''empty context data''))
           else do {
             scored \<leftarrow> score_chunks env (to_array task_embedding) cfg (enumerate 0 raw_chunks);
             let scored = sort_by (\<lambda>a b. snd b < snd a) scored;
             let chunks = map fst (truncate_budget (msc_max_chunks cfg) scored);
             Some (Inr \<lparr>res_chunks = chunks, res_total_chunks = total_chunks,
               res_base_hash = base_hash, res_original_size = length data,
               res_compressed_size = sum_list (map (length \<circ> chunk_data) chunks),
               res_confidence = (if chunks = [] then 0 else mean_score chunks)\<rparr>)
           })"

fun extract_chunks_by_index ::
  "vector_env \<Rightarrow> u8 list \<Rightarrow> nat \<Rightarrow> u32 list \<Rightarrow> nat \<Rightarrow> context_embedding \<Rightarrow> context_chunk list option"
where
  "extract_chunks_by_index env data chunk_size [] dimensions task_embedding = Some []"
| "extract_chunks_by_index env data chunk_size (idx # indices) dimensions task_embedding =
     (let raw_chunks = split_into_chunks data chunk_size; i = unat idx
      in if i < length raw_chunks
         then do {
           sim \<leftarrow> chunk_similarity env (to_array task_embedding) dimensions (raw_chunks ! i);
           rest \<leftarrow> extract_chunks_by_index env data chunk_size indices dimensions task_embedding;
           Some (\<lparr>chunk_index = idx, chunk_data = raw_chunks ! i, chunk_relevance_score = sim\<rparr> # rest)
         }
         else extract_chunks_by_index env data chunk_size indices dimensions task_embedding)"

section \<open>Context diffs\<close>

record compressor =
  comp_config :: msc_config

definition compressor_new :: compressor where
  "compressor_new = \<lparr>comp_config = default_msc_config\<rparr>"

definition compressor_with_config :: "msc_config \<Rightarrow> compressor" where
  "compressor_with_config cfg = \<lparr>comp_config = cfg\<rparr>"

definition set_threshold :: "f64 \<Rightarrow> compressor \<Rightarrow> compressor" where
  "set_threshold th c = c\<lparr>comp_config := (comp_config c)\<lparr>msc_relevance_threshold := th\<rparr>\<rparr>"

definition set_budget :: "nat \<Rightarrow> compressor \<Rightarrow> compressor" where
  "set_budget n c = c\<lparr>comp_config := (comp_config c)\<lparr>msc_max_chunks := n\<rparr>\<rparr>"

definition set_dimensions :: "nat \<Rightarrow> compressor \<Rightarrow> compressor" where
  "set_dimensions d c = c\<lparr>comp_config := (comp_config c)\<lparr>msc_dimensions := d\<rparr>\<rparr>"

definition msc_to_diff :: "msc_result \<Rightarrow> context_diff" where
  "msc_to_diff r =
     \<lparr>diff_base_hash = res_base_hash r, diff_chunks = res_chunks r,
      diff_confidence = res_confidence r, diff_original_size = of_nat (res_original_size r),
      diff_compressed_size = of_nat (res_compressed_size r)\<rparr>"

definition compress ::
  "vector_env \<Rightarrow> compressor \<Rightarrow> u8 list \<Rightarrow> context_embedding \<Rightarrow> (context_error + context_diff) option"
where
  "compress env c data task_embedding =
     map_option (map_sum id msc_to_diff) (extract_msc env data task_embedding (comp_config c))"

definition compress_for_task ::
  "vector_env \<Rightarrow> compressor \<Rightarrow> u8 list \<Rightarrow> task_type \<Rightarrow> u8 list \<Rightarrow>
     (context_error + context_diff) option"
where
  "compress_for_task env c data t task_description = do {
     task_emb \<leftarrow> embed_task env t task_description (msc_dimensions (comp_config c));
     compress env c data task_emb
   }"

definition extract_additional ::
  "vector_env \<Rightarrow> compressor \<Rightarrow> u8 list \<Rightarrow> context_embedding \<Rightarrow> u32 list \<Rightarrow> context_chunk list option"
where
  "extract_additional env c data task_embedding indices =
     extract_chunks_by_index env data (msc_chunk_size (comp_config c)) indices
       (msc_dimensions (comp_config c)) task_embedding"

definition apply_diff :: "context_diff \<Rightarrow> u8 list" where
  "apply_diff d =
     (let sorted_chunks = sort_by (\<lambda>a b. chunk_index a < chunk_index b) (diff_chunks d)
      in concat (map chunk_data sorted_chunks))"

definition merge_chunks :: "context_diff \<Rightarrow> context_chunk list \<Rightarrow> context_diff" where
  "merge_chunks d additional =
     (let existing = chunk_index ` set (diff_chunks d);
          pushed = diff_chunks d @ filter (\<lambda>c. chunk_index c \<notin> existing) additional;
          chunks = sort_by (\<lambda>a b. chunk_relevance_score b < chunk_relevance_score a) pushed;
          d = d\<lparr>diff_chunks := chunks,
            diff_compressed_size := sum_list (map (\<lambda>c. of_nat (length (chunk_data c))) chunks)\<rparr>
      in if chunks = [] then d else d\<lparr>diff_confidence := mean_score chunks\<rparr>)"

record diff_stats_rec =
  ds_num_chunks :: nat
  ds_original_size :: u64
  ds_compressed_size :: u64
  ds_compression_ratio :: f64
  ds_avg_relevance :: f64
  ds_min_relevance :: f64
  ds_max_relevance :: f64
  ds_confidence :: f64

definition diff_stats :: "context_diff \<Rightarrow> diff_stats_rec" where
  "diff_stats d =
     (let num_chunks = length (diff_chunks d);
          (min_rel, max_rel, sum_rel) =
            (if num_chunks = 0 then (0, 0, 0)
             else foldl (\<lambda>(mn, mx, s) c. (f64_min mn (chunk_relevance_score c),
                 f64_max mx (chunk_relevance_score c), s + chunk_relevance_score c))
               (F64_MAX, - F64_MAX, 0) (diff_chunks d));
          avg_rel = (if 0 < num_chunks then sum_rel / f64_of_nat num_chunks else 0)
      in \<lparr>ds_num_chunks = num_chunks, ds_original_size = diff_original_size d,
          ds_compressed_size = diff_compressed_size d, ds_compression_ratio = compression_ratio d,
          ds_avg_relevance = avg_rel,
          ds_min_relevance = (if 0 < num_chunks then min_rel else 0),
          ds_max_relevance = (if 0 < num_chunks then max_rel else 0),
          ds_confidence = diff_confidence d\<rparr>)"

section \<open>Chunks\<close>

lemma concat_chunks_of: "0 < n \<Longrightarrow> concat (chunks_of n xs) = xs"
  by (induction n xs rule: chunks_of.induct) (simp add: chunks_of.simps)

lemma concat_split: "0 < n \<Longrightarrow> concat (split_into_chunks data n) = data"
  by (simp add: split_into_chunks_def concat_chunks_of)

lemma split_empty: "split_into_chunks data n = [] \<longleftrightarrow> data = [] \<or> n = 0"
  by (auto simp: split_into_chunks_def chunks_of.simps)

lemma sort_by_map:
  assumes "\<And>a b. lt a b \<longleftrightarrow> lt' (f a) (f b)"
  shows "map f (sort_by lt xs) = sort_by lt' (map f xs)"
proof -
  have s: "map f (shift_in lt x ys) = shift_in lt' (f x) (map f ys)" for x ys
    by (induction ys) (auto simp: assms)
  have "map f (fold (shift_in lt) xs acc) = fold (shift_in lt') (map f xs) (map f acc)" for acc
    by (induction xs arbitrary: acc) (simp_all add: s)
  from this [of "[]"] show ?thesis by (simp add: sort_by_def flip: rev_map)
qed

lemma truncate_budget_map: "map f (truncate_budget n xs) = truncate_budget n (map f xs)"
  by (simp add: truncate_budget_def take_map)

lemma truncate_budget_length:
  "length (truncate_budget n xs) = (if n = 0 then length xs else min n (length xs))"
  by (simp add: truncate_budget_def)

lemma truncate_budget_split: "\<exists>ys. xs = truncate_budget n xs @ ys"
  by (cases "0 < n \<and> n < length xs")
    (auto simp: truncate_budget_def intro: exI [of _ "drop n xs"])

section \<open>What extraction selects\<close>

definition consistent :: "context_embedding \<Rightarrow> bool" where
  "consistent e \<longleftrightarrow> length (emb_values e) = emb_dimensions e"

text \<open>The similarity of a chunk, and the chunk as the code packages it.\<close>

definition score_of :: "vector_env \<Rightarrow> context_embedding \<Rightarrow> u8 list \<Rightarrow> f64" where
  "score_of env e bytes = the (chunk_similarity env (emb_values e) (emb_dimensions e) bytes)"

definition scored_chunk ::
  "vector_env \<Rightarrow> context_embedding \<Rightarrow> u8 list list \<Rightarrow> nat \<Rightarrow> context_chunk" where
  "scored_chunk env e raw i =
     \<lparr>chunk_index = of_nat i, chunk_data = raw ! i, chunk_relevance_score = score_of env e (raw ! i)\<rparr>"

definition relevant :: "vector_env \<Rightarrow> context_embedding \<Rightarrow> f64 \<Rightarrow> u8 list list \<Rightarrow> nat list" where
  "relevant env e th raw = filter (\<lambda>i. th < score_of env e (raw ! i)) [0..<length raw]"

lemma chunk_similarity_total:
  assumes "env_sound env" "consistent e"
  shows "chunk_similarity env (emb_values e) (emb_dimensions e) bytes = Some (score_of env e bytes)"
proof -
  obtain c where "embed env bytes (emb_dimensions e) = Some c"
    "length (emb_values c) = emb_dimensions e"
    using embed_total [OF assms(1), of bytes "emb_dimensions e"] by blast
  then obtain s where "chunk_similarity env (emb_values e) (emb_dimensions e) bytes = Some s"
    using cosine_total [of "emb_values e" "emb_values c" env] assms(2)
    by (auto simp: chunk_similarity_def consistent_def to_array_def)
  then show ?thesis by (simp add: score_of_def)
qed

lemma score_chunks_total:
  assumes "env_sound env" "consistent e" "emb_dimensions e = msc_dimensions cfg"
  shows "score_chunks env (emb_values e) cfg cs =
    Some (map (\<lambda>(i, b). (\<lparr>chunk_index = of_nat i, chunk_data = b,
        chunk_relevance_score = score_of env e b\<rparr>, score_of env e b))
      (filter (\<lambda>(i, b). msc_relevance_threshold cfg < score_of env e b) cs))"
  using chunk_similarity_total [OF assms(1,2)] assms(3)
  by (induction cs) auto

lemma enumerate_nth: "enumerate 0 xs = map (\<lambda>i. (i, xs ! i)) [0..<length xs]"
  by (rule nth_equalityI) (simp_all add: nth_enumerate_eq)

lemma extract_msc_total:
  fixes data cfg
  defines "raw \<equiv> split_into_chunks data (msc_chunk_size cfg)"
  assumes "env_sound env" "consistent e" "emb_dimensions e = msc_dimensions cfg" "raw \<noteq> []"
  shows "\<exists>r. extract_msc env data e cfg = Some (Inr r)
    \<and> res_chunks r = truncate_budget (msc_max_chunks cfg)
        (sort_by (\<lambda>a b. chunk_relevance_score b < chunk_relevance_score a)
          (map (scored_chunk env e raw) (relevant env e (msc_relevance_threshold cfg) raw)))
    \<and> res_total_chunks r = length raw \<and> res_base_hash r = ve_sha256 env data
    \<and> res_original_size r = length data
    \<and> res_compressed_size r = sum_list (map (length \<circ> chunk_data) (res_chunks r))
    \<and> res_confidence r = (if res_chunks r = [] then 0 else mean_score (res_chunks r))"
proof -
  let ?f = "\<lambda>(i, b). (\<lparr>chunk_index = of_nat i :: u32, chunk_data = b,
    chunk_relevance_score = score_of env e b\<rparr>, score_of env e b)"
  let ?scored = "map ?f (filter (\<lambda>(i, b). msc_relevance_threshold cfg < score_of env e b)
    (enumerate 0 raw))"
  have scored: "?scored = map (\<lambda>c. (c, chunk_relevance_score c))
      (map (scored_chunk env e raw) (relevant env e (msc_relevance_threshold cfg) raw))"
    by (simp add: enumerate_nth relevant_def filter_map o_def scored_chunk_def)
  have "map (\<lambda>c. (c, chunk_relevance_score c))
      (sort_by (\<lambda>a b. chunk_relevance_score b < chunk_relevance_score a) xs) =
    sort_by (\<lambda>a b. snd b < snd a) (map (\<lambda>c. (c, chunk_relevance_score c)) xs)" for xs
    by (rule sort_by_map) simp
  note pairs = this [symmetric]
  have "map fst (sort_by (\<lambda>a b. snd b < snd a) ?scored) =
      sort_by (\<lambda>a b. chunk_relevance_score b < chunk_relevance_score a)
        (map (scored_chunk env e raw) (relevant env e (msc_relevance_threshold cfg) raw))"
    unfolding scored pairs by (simp add: o_def)
  then have "map fst (truncate_budget n (sort_by (\<lambda>a b. snd b < snd a) ?scored)) =
      truncate_budget n (sort_by (\<lambda>a b. chunk_relevance_score b < chunk_relevance_score a)
        (map (scored_chunk env e raw) (relevant env e (msc_relevance_threshold cfg) raw)))" for n
    by (simp only: truncate_budget_map)
  moreover have "score_chunks env (to_array e) cfg (enumerate 0 raw) = Some ?scored"
    using score_chunks_total [OF assms(2-4)] by (simp add: to_array_def)
  ultimately show ?thesis
    using assms(4,5) unfolding raw_def
    by (simp add: extract_msc_def Let_def hash_context_def del: map_map map_is_Nil_conv list.map_disc_iff)
qed

interpretation by_relevance: strict_weak_order
  "\<lambda>a b. chunk_relevance_score b < chunk_relevance_score a" "\<lambda>c. chunk_relevance_score c \<noteq> NaN"
  by (rule key_descending)

definition by_score :: "context_chunk list \<Rightarrow> context_chunk list" where
  "by_score cs = sort_by (\<lambda>a b. chunk_relevance_score b < chunk_relevance_score a) cs"

lemma by_score_sorted:
  assumes "\<forall>c \<in> set cs. chunk_relevance_score c \<noteq> NaN"
  shows "sorted_wrt (\<lambda>a b. chunk_relevance_score b \<le> chunk_relevance_score a) (by_score cs)"
proof (rule sorted_wrt_mono_rel)
  show "sorted_wrt (\<lambda>a b. \<not> chunk_relevance_score a < chunk_relevance_score b) (by_score cs)"
    unfolding by_score_def by (rule by_relevance.sort_by_sorted [OF assms])
  show "chunk_relevance_score b \<le> chunk_relevance_score a"
    if "a \<in> set (by_score cs)" "b \<in> set (by_score cs)"
      "\<not> chunk_relevance_score a < chunk_relevance_score b" for a b
    using that assms by (simp add: by_score_def f64_not_less)
qed

text \<open>The budget keeps the best: what it drops scores no higher than anything it keeps.\<close>

lemma budget_keeps_best:
  assumes "\<forall>c \<in> set cs. chunk_relevance_score c \<noteq> NaN"
  shows "\<exists>rest. mset (truncate_budget n (by_score cs)) + mset rest = mset cs
    \<and> (\<forall>c \<in> set (truncate_budget n (by_score cs)). \<forall>d \<in> set rest.
         chunk_relevance_score d \<le> chunk_relevance_score c)
    \<and> sorted_wrt (\<lambda>a b. chunk_relevance_score b \<le> chunk_relevance_score a)
        (truncate_budget n (by_score cs))"
proof -
  obtain rest where r: "by_score cs = truncate_budget n (by_score cs) @ rest"
    using truncate_budget_split by blast
  have s: "sorted_wrt (\<lambda>a b. chunk_relevance_score b \<le> chunk_relevance_score a)
      (truncate_budget n (by_score cs) @ rest)"
    using by_score_sorted [OF assms] r by simp
  have "mset (truncate_budget n (by_score cs) @ rest) = mset cs"
    using r by (metis by_score_def mset_sort_by)
  then show ?thesis using s by (auto simp: sorted_wrt_append)
qed

lemma scored_chunk_simps [simp]:
  "chunk_index (scored_chunk env e raw i) = of_nat i"
  "chunk_data (scored_chunk env e raw i) = raw ! i"
  "chunk_relevance_score (scored_chunk env e raw i) = score_of env e (raw ! i)"
  by (simp_all add: scored_chunk_def)

lemma index_inj: "inj_on (of_nat :: nat \<Rightarrow> u32) {..<2 ^ 32}"
  by (rule inj_onI) (simp add: word_of_nat_eq_iff take_bit_nat_eq_self)

lemma relevant_props:
  "distinct (relevant env e th raw)" "sorted (relevant env e th raw)"
  "i \<in> set (relevant env e th raw) \<longleftrightarrow> i < length raw \<and> th < score_of env e (raw ! i)"
  by (auto simp: relevant_def sorted_wrt_filter)

lemma relevant_not_NaN: "i \<in> set (relevant env e th raw) \<Longrightarrow> score_of env e (raw ! i) \<noteq> NaN"
  using f64_less_not_NaN by (auto simp: relevant_props)

text \<open>
  The contract of an extraction: the best-scoring chunks above the threshold, as many as the budget
  admits, best first, each once.
\<close>

definition best_chunks ::
  "vector_env \<Rightarrow> context_embedding \<Rightarrow> f64 \<Rightarrow> nat \<Rightarrow> u8 list list \<Rightarrow> context_chunk list \<Rightarrow> bool" where
  "best_chunks env e th budget raw cs \<longleftrightarrow>
     (let candidates = set (relevant env e th raw)
      in \<exists>I \<subseteq> candidates. set cs = scored_chunk env e raw ` I \<and> distinct (map chunk_index cs)
        \<and> length cs = card I
        \<and> card I = (if budget = 0 then card candidates else min budget (card candidates))
        \<and> (\<forall>i \<in> I. \<forall>j \<in> candidates - I. score_of env e (raw ! j) \<le> score_of env e (raw ! i)))
     \<and> sorted_wrt (\<lambda>a b. chunk_relevance_score b \<le> chunk_relevance_score a) cs"

lemma relevant_small:
  assumes "length raw \<le> 2 ^ 32"
  shows "set (relevant env e th raw) \<subseteq> {..<2 ^ 32}"
  using assms by (auto simp: relevant_props)

lemma scored_chunk_inj:
  assumes "length raw \<le> 2 ^ 32"
  shows "inj_on (scored_chunk env e raw) {..<length raw}"
proof (rule inj_onI)
  fix i j
  assume "i \<in> {..<length raw}" "j \<in> {..<length raw}"
    "scored_chunk env e raw i = scored_chunk env e raw j"
  then have "(of_nat i :: u32) = of_nat j" "i < 2 ^ 32" "j < 2 ^ 32"
    using assms by (auto simp: scored_chunk_def)
  then show "i = j" using index_inj by (simp add: inj_on_def)
qed

lemma extraction_best:
  assumes "length raw \<le> 2 ^ 32"
  shows "best_chunks env e th budget raw
    (truncate_budget budget (by_score (map (scored_chunk env e raw) (relevant env e th raw))))"
proof -
  let ?rel = "relevant env e th raw" and ?sc = "scored_chunk env e raw"
  let ?cs = "truncate_budget budget (by_score (map ?sc ?rel))"
  have "\<forall>c \<in> set (map ?sc ?rel). chunk_relevance_score c \<noteq> NaN"
    using relevant_not_NaN by auto
  from budget_keeps_best [OF this, of budget] obtain rest
    where m: "mset ?cs + mset rest = mset (map ?sc ?rel)"
      and best: "\<forall>c \<in> set ?cs. \<forall>d \<in> set rest. chunk_relevance_score d \<le> chunk_relevance_score c"
      and sorted: "sorted_wrt (\<lambda>a b. chunk_relevance_score b \<le> chunk_relevance_score a) ?cs"
    by blast
  have "inj_on ?sc (set ?rel)"
    by (rule inj_on_subset [OF scored_chunk_inj [OF assms]]) (auto simp: relevant_props)
  have m': "mset (?cs @ rest) = mset (map ?sc ?rel)" using m by simp
  have idx: "distinct (map chunk_index (map ?sc ?rel))"
    using inj_on_subset [OF index_inj relevant_small [OF assms]]
    by (simp add: distinct_map o_def relevant_props(1))
  have "mset (map chunk_index (?cs @ rest)) = mset (map chunk_index (map ?sc ?rel))"
    using m' by (metis mset_map)
  then have d: "distinct (map chunk_index (?cs @ rest))"
    using idx by (metis mset_eq_imp_distinct_iff)
  then have dcs: "distinct ?cs" and disj: "set ?cs \<inter> set rest = {}"
    by (auto simp: distinct_map)
  have sets: "set ?cs \<union> set rest = ?sc ` set ?rel"
    using m' by (metis set_append set_mset_mset set_map)
  let ?I = "{i \<in> set ?rel. ?sc i \<in> set ?cs}"
  have im: "set ?cs = ?sc ` ?I" using sets by auto
  have inj: "inj_on ?sc ?I" by (rule inj_on_subset [OF \<open>inj_on ?sc (set ?rel)\<close>]) auto
  have "length ?cs = card (set ?cs)" using distinct_card [OF dcs] by simp
  also have "\<dots> = card (?sc ` ?I)" by (rule arg_cong [OF im])
  also have "\<dots> = card ?I" by (rule card_image [OF inj])
  finally have len: "length ?cs = card ?I" .
  have card: "card ?I = (if budget = 0 then card (set ?rel) else min budget (card (set ?rel)))"
    using len [symmetric]
    by (simp add: truncate_budget_length by_score_def distinct_card relevant_props(1))
  have worse: "score_of env e (raw ! j) \<le> score_of env e (raw ! i)"
    if "i \<in> ?I" "j \<in> set ?rel - ?I" for i j
  proof -
    have "?sc j \<in> set rest" "?sc i \<in> set ?cs" using that sets by auto
    then have "chunk_relevance_score (?sc j) \<le> chunk_relevance_score (?sc i)"
      using best by blast
    then show ?thesis by simp
  qed
  show ?thesis
    unfolding best_chunks_def Let_def
  proof (intro conjI exI [of _ ?I])
    show "\<forall>i \<in> ?I. \<forall>j \<in> set ?rel - ?I. score_of env e (raw ! j) \<le> score_of env e (raw ! i)"
      using worse by blast
    show "distinct (map chunk_index ?cs)" using d by simp
    show "set ?cs = ?sc ` ?I" by (rule im)
    show "?I \<subseteq> set ?rel" by blast
  qed (rule len card sorted)+
qed

lemma selected_size:
  assumes "best_chunks env e th budget raw cs" "length raw \<le> 2 ^ 32"
  shows "sum_list (map (length \<circ> chunk_data) cs) \<le> length (concat raw)"
proof -
  obtain I where I: "I \<subseteq> set (relevant env e th raw)" "set cs = scored_chunk env e raw ` I"
    "distinct (map chunk_index cs)" "length cs = card I"
    using assms(1) by (auto simp: best_chunks_def Let_def)
  have fin: "I \<subseteq> {..<length raw}" using I(1) by (auto simp: relevant_props)
  have "distinct cs" using I(3) by (simp add: distinct_map)
  then have "sum_list (map (length \<circ> chunk_data) cs) = sum (length \<circ> chunk_data) (set cs)"
    by (simp add: sum_list_distinct_conv_sum_set)
  also have "\<dots> = (\<Sum>i\<in>I. length (raw ! i))"
    unfolding I(2)
    by (subst sum.reindex [OF inj_on_subset [OF scored_chunk_inj [OF assms(2)] fin]]) simp
  also have "\<dots> \<le> (\<Sum>i<length raw. length (raw ! i))"
    by (rule sum_mono2) (use fin in auto)
  also have "\<dots> = length (concat raw)"
    by (simp add: length_concat sum_list_sum_nth atLeast0LessThan)
  finally show ?thesis .
qed

lemma extraction_spec:
  assumes "env_sound env" and "consistent e"
    and "length (split_into_chunks data (msc_chunk_size cfg)) \<le> 2 ^ 32"
  shows "case extract_msc env data e cfg of
      None \<Rightarrow> False
    | Some (Inl err) \<Rightarrow>
        if emb_dimensions e \<noteq> msc_dimensions cfg
        then err = DimensionMismatch (msc_dimensions cfg) (emb_dimensions e)
        else (data = [] \<or> msc_chunk_size cfg = 0) \<and> err = ExtractionFailed ''empty context data''
    | Some (Inr r) \<Rightarrow>
        emb_dimensions e = msc_dimensions cfg \<and> data \<noteq> [] \<and> msc_chunk_size cfg \<noteq> 0
        \<and> best_chunks env e (msc_relevance_threshold cfg) (msc_max_chunks cfg)
          (split_into_chunks data (msc_chunk_size cfg)) (res_chunks r)
        \<and> res_confidence r = (if res_chunks r = [] then 0 else mean_score (res_chunks r))
        \<and> res_compressed_size r \<le> res_original_size r \<and> res_original_size r = length data"
proof (cases "emb_dimensions e = msc_dimensions cfg \<and> split_into_chunks data (msc_chunk_size cfg) \<noteq> []")
  case False
  then show ?thesis by (auto simp: extract_msc_def Let_def split_empty)
next
  case True
  let ?raw = "split_into_chunks data (msc_chunk_size cfg)"
  obtain r where r: "extract_msc env data e cfg = Some (Inr r)"
    "res_chunks r = truncate_budget (msc_max_chunks cfg)
      (by_score (map (scored_chunk env e ?raw) (relevant env e (msc_relevance_threshold cfg) ?raw)))"
    "res_original_size r = length data"
    "res_compressed_size r = sum_list (map (length \<circ> chunk_data) (res_chunks r))"
    "res_confidence r = (if res_chunks r = [] then 0 else mean_score (res_chunks r))"
    using extract_msc_total [OF assms(1,2)] True unfolding by_score_def by blast
  have best: "best_chunks env e (msc_relevance_threshold cfg) (msc_max_chunks cfg) ?raw (res_chunks r)"
    unfolding r(2) by (rule extraction_best [OF assms(3)])
  have "concat ?raw = data" using True by (intro concat_split) (auto simp: split_empty)
  then show ?thesis
    using r best selected_size [OF best assms(3)] True by (simp add: split_empty)
qed

text \<open>
  C8. Extraction of a consistent task embedding from data of at most \<open>2 ^ 32\<close> chunks (with a digest of 32
  bytes) never panics. It fails exactly when the embedding has another dimension than the
  configuration, or the data or the chunk size is empty, each with its own error; otherwise it
  returns the best chunks above the threshold within the budget (none when none is above it) with
  their mean score as the confidence (zero for none), and the selected bytes are never more than
  the data.
\<close>

theorem extraction_selects_best:
  assumes "env_sound env" and "consistent e"
    and "length (split_into_chunks data (msc_chunk_size cfg)) \<le> 2 ^ 32"
  shows "case extract_msc env data e cfg of
      None \<Rightarrow> False
    | Some (Inl err) \<Rightarrow>
        if emb_dimensions e \<noteq> msc_dimensions cfg
        then err = DimensionMismatch (msc_dimensions cfg) (emb_dimensions e)
        else (data = [] \<or> msc_chunk_size cfg = 0) \<and> err = ExtractionFailed ''empty context data''
    | Some (Inr r) \<Rightarrow>
        emb_dimensions e = msc_dimensions cfg \<and> data \<noteq> [] \<and> msc_chunk_size cfg \<noteq> 0
        \<and> best_chunks env e (msc_relevance_threshold cfg) (msc_max_chunks cfg)
          (split_into_chunks data (msc_chunk_size cfg)) (res_chunks r)
        \<and> res_confidence r = (if res_chunks r = [] then 0 else mean_score (res_chunks r))
        \<and> res_compressed_size r \<le> res_original_size r \<and> res_original_size r = length data"
  by (rule extraction_spec [OF assms])

definition sample_config :: msc_config where
  "sample_config = \<lparr>msc_relevance_threshold = 0, msc_max_chunks = 1, msc_chunk_size = 2,
     msc_dimensions = 1\<rparr>"

theorem extraction_selects_best_witness:
  "\<exists>r. extract_msc toy_env [200, 1, 2] (embedding_new [1]) sample_config = Some (Inr r)
     \<and> length (res_chunks r) \<le> 1 \<and> res_compressed_size r \<le> 3"
proof -
  have "split_into_chunks [200, 1, 2] 2 = [[200, 1], [2 :: u8]]"
    by (simp add: split_into_chunks_def chunks_of.simps)
  moreover have "consistent (embedding_new [1])" by (simp add: consistent_def embedding_new_def)
  ultimately show ?thesis
    using extraction_selects_best [OF toy_env_sound, of "embedding_new [1]" "[200, 1, 2]" sample_config]
    by (auto simp: sample_config_def embedding_new_def best_chunks_def Let_def
        split: option.splits sum.splits if_splits)
qed

section \<open>Reconstruction\<close>

lemma compress_Inr:
  assumes "compress env c data e = Some (Inr d)"
  shows "\<exists>r. extract_msc env data e (comp_config c) = Some (Inr r) \<and> d = msc_to_diff r"
proof -
  obtain x where "extract_msc env data e (comp_config c) = Some x" "map_sum id msc_to_diff x = Inr d"
    using assms by (auto simp: compress_def)
  then show ?thesis by (cases x) auto
qed

interpretation by_index: strict_weak_order
  "\<lambda>a b. chunk_index a < chunk_index b" "\<lambda>_. True"
  by unfold_locales auto

lemma sort_by_index:
  assumes "set cs = scored_chunk env e raw ` I" "I \<subseteq> {..<length raw}" "length raw \<le> 2 ^ 32"
    and "distinct (map chunk_index cs)"
  shows "sort_by (\<lambda>a b. chunk_index a < chunk_index b) cs =
    map (scored_chunk env e raw) (filter (\<lambda>i. i \<in> I) [0..<length raw])"
proof -
  let ?s = "sort_by (\<lambda>a b. chunk_index a < chunk_index b) cs"
    and ?t = "map (scored_chunk env e raw) (filter (\<lambda>i. i \<in> I) [0..<length raw])"
  have small: "i < 2 ^ 32" if "i \<in> I" for i using that assms(2,3) by auto
  have sets: "set ?s = set ?t" using assms(1,2) by auto
  have "sorted_wrt (\<lambda>a b. \<not> chunk_index b < chunk_index a) ?s"
    by (rule by_index.sort_by_sorted) simp
  then have s: "sorted (map chunk_index ?s)" by (simp add: sorted_map linorder_not_less)
  have "sorted_wrt (\<lambda>i j. i < j \<and> i \<in> I \<and> j \<in> I) (filter (\<lambda>i. i \<in> I) [0..<length raw])"
    by (rule sorted_wrt_mono_rel [where P = "(<)"]) (auto simp: sorted_wrt_filter)
  then have t: "sorted_wrt (<) (map chunk_index ?t)"
    unfolding sorted_wrt_map
    by (rule sorted_wrt_mono_rel [rotated])
      (use small in \<open>auto simp: word_of_nat_less_iff take_bit_nat_eq_self\<close>)
  have "mset (map chunk_index ?s) = mset (map chunk_index cs)" by simp
  then have "distinct (map chunk_index ?s)" using assms(4) by (metis mset_eq_imp_distinct_iff)
  then have "map chunk_index ?s = map chunk_index ?t"
    using s t sets by (intro sorted_distinct_set_unique)
      (auto simp: strict_sorted_iff simp del: map_map)
  moreover have "inj_on chunk_index (set ?s \<union> set ?t)"
    using \<open>distinct (map chunk_index ?s)\<close> sets by (simp add: distinct_map)
  ultimately show ?thesis by (rule map_inj_on)
qed

text \<open>
  C9. Applying the diff of a compression gives back exactly the bytes of the selected chunks, in
  the order of the original data whatever their ranking was; when every chunk is relevant and there
  is no budget, it gives back the original data.
\<close>

theorem compress_then_apply:
  assumes "env_sound env" and "consistent e"
    and "length (split_into_chunks data (msc_chunk_size (comp_config c))) \<le> 2 ^ 32"
    and "compress env c data e = Some (Inr d)"
  shows "apply_diff d =
      concat (map (\<lambda>i. split_into_chunks data (msc_chunk_size (comp_config c)) ! i)
        (filter (\<lambda>i. of_nat i \<in> chunk_index ` set (diff_chunks d))
          [0..<length (split_into_chunks data (msc_chunk_size (comp_config c)))]))
    \<and> (msc_max_chunks (comp_config c) = 0
       \<and> (\<forall>b \<in> set (split_into_chunks data (msc_chunk_size (comp_config c))).
            msc_relevance_threshold (comp_config c) < score_of env e b)
       \<longrightarrow> apply_diff d = data)"
proof -
  let ?cfg = "comp_config c"
  let ?raw = "split_into_chunks data (msc_chunk_size ?cfg)"
  obtain r where r: "extract_msc env data e ?cfg = Some (Inr r)" "d = msc_to_diff r"
    using compress_Inr [OF assms(4)] by blast
  have guards: "emb_dimensions e = msc_dimensions ?cfg" "?raw \<noteq> []"
    using r(1) by (auto simp: extract_msc_def Let_def split: if_splits)
  have size: "0 < msc_chunk_size ?cfg" using guards(2) by (auto simp: split_empty)
  have "res_chunks r = truncate_budget (msc_max_chunks ?cfg)
      (by_score (map (scored_chunk env e ?raw) (relevant env e (msc_relevance_threshold ?cfg) ?raw)))"
    using extract_msc_total [OF assms(1,2) guards] r(1) unfolding by_score_def by auto
  then have best: "best_chunks env e (msc_relevance_threshold ?cfg) (msc_max_chunks ?cfg) ?raw
      (diff_chunks d)"
    using extraction_best [OF assms(3)] by (simp add: r(2) msc_to_diff_def)
  then obtain I where I: "I \<subseteq> set (relevant env e (msc_relevance_threshold ?cfg) ?raw)"
    "set (diff_chunks d) = scored_chunk env e ?raw ` I" "distinct (map chunk_index (diff_chunks d))"
    "card I = (let n = card (set (relevant env e (msc_relevance_threshold ?cfg) ?raw))
       in if msc_max_chunks ?cfg = 0 then n else min (msc_max_chunks ?cfg) n)"
    by (auto simp: best_chunks_def Let_def)
  have sub: "I \<subseteq> {..<length ?raw}" using I(1) by (auto simp: relevant_props)
  have mem: "of_nat i \<in> chunk_index ` set (diff_chunks d) \<longleftrightarrow> i \<in> I" if "i < length ?raw" for i
  proof -
    have "i \<in> {..<2 ^ 32}" "I \<subseteq> {..<2 ^ 32}" using that sub assms(3) by auto
    then show ?thesis
      using inj_on_image_mem_iff [OF index_inj] by (simp add: I(2) image_image)
  qed
  have flt: "filter (\<lambda>i. of_nat i \<in> chunk_index ` set (diff_chunks d)) [0..<length ?raw] =
      filter (\<lambda>i. i \<in> I) [0..<length ?raw]"
    by (rule filter_cong) (use mem in auto)
  have ap: "apply_diff d = concat (map (\<lambda>i. ?raw ! i) (filter (\<lambda>i. i \<in> I) [0..<length ?raw]))"
    using sort_by_index [OF I(2) sub assms(3) I(3)] by (simp add: apply_diff_def o_def)
  have "apply_diff d = data"
    if "msc_max_chunks ?cfg = 0" "\<forall>b \<in> set ?raw. msc_relevance_threshold ?cfg < score_of env e b"
  proof -
    have rel: "relevant env e (msc_relevance_threshold ?cfg) ?raw = [0..<length ?raw]"
      using that(2) by (auto simp: relevant_def intro!: filter_True)
    have "I \<subseteq> {0..<length ?raw}" "card I = card {0..<length ?raw}"
      using I(1,4) that(1) by (auto simp: rel)
    then have "I = {0..<length ?raw}" by (intro card_subset_eq) auto
    then have "apply_diff d = concat (map (\<lambda>i. ?raw ! i) [0..<length ?raw])"
      using ap by (simp add: filter_id_conv)
    then show ?thesis by (simp add: map_nth concat_split [OF size])
  qed
  then show ?thesis using ap flt by auto
qed

text \<open>Scores under the instance of the libraries, for the witnesses.\<close>

definition unit_task :: context_embedding where
  "unit_task = embedding_new [1]"

lemma unit_task_simps [simp]: "consistent unit_task" "emb_dimensions unit_task = 1"
  by (simp_all add: unit_task_def consistent_def embedding_new_def)

lemma toy_score:
  "score_of toy_env unit_task bytes =
     (if odd (sum_list (map unat bytes)) then Fin 1 else Fin (- 1))"
proof -
  have e: "exact (- 1)" using exact_of_int [of "- 1"] by simp
  have s: "cosine_similarity_arrays toy_env [Fin 1] [Fin q] = Some (Fin q)" if "q = 1 \<or> q = - 1" for q
  proof -
    have d: "ve_dot toy_env [Fin 1] [Fin q] = Fin q" "ve_dot toy_env [Fin 1] [Fin 1] = 1"
      "ve_dot toy_env [Fin q] [Fin q] = 1"
      using that e by (auto simp: toy_env_def f64_sum_def f64_zero_one_Fin to_f64_exact)
    have "(1 :: f64) * 1 = 1" "\<not> (1 :: f64) < EPSILON" "Fin q / 1 = Fin q"
      "clamp (Fin q) (- 1) 1 = Fin q"
      using that e by (auto simp: EPSILON_def f64_zero_one_Fin to_f64_exact clamp_def)
    then show ?thesis
      by (simp add: cosine_similarity_arrays_def vdot_def d)
  qed
  show ?thesis
    using s by (simp add: score_of_def chunk_similarity_def unit_task_def embedding_new_def
        toy_embed [unfolded embedding_new_def One_nat_def] to_array_def f64_zero_one_Fin)
qed

theorem compress_then_apply_witness:
  "\<exists>d. compress toy_env (compressor_with_config
       (sample_config\<lparr>msc_relevance_threshold := Fin (- 2), msc_max_chunks := 0\<rparr>))
       [3, 4, 5] unit_task = Some (Inr d)
     \<and> apply_diff d = [3, 4, 5]"
proof -
  let ?c = "compressor_with_config
       (sample_config\<lparr>msc_relevance_threshold := Fin (- 2), msc_max_chunks := 0\<rparr>)"
  have raw: "split_into_chunks [3, 4, 5] 2 = [[3, 4], [5 :: u8]]"
    by (simp add: split_into_chunks_def chunks_of.simps)
  obtain d where d: "compress toy_env ?c [3, 4, 5] unit_task = Some (Inr d)"
    using extract_msc_total [OF toy_env_sound, of unit_task "comp_config ?c" "[3, 4, 5]"] raw
    by (auto simp: compress_def compressor_with_config_def sample_config_def)
  have "apply_diff d = [3, 4, 5]"
    using compress_then_apply [OF toy_env_sound _ _ d, THEN conjunct2, rule_format] raw
    by (simp add: compressor_with_config_def sample_config_def toy_score)
  then show ?thesis using d by blast
qed

end
