(* ===== verification/Adaptive.thy ===== *)
theory Adaptive
  imports Context_Diff
begin

text \<open>
  Adaptive context of \<open>atp-context\<close> (\<open>adaptive.rs\<close>): the receiver's manager, which asks for more
  chunks while its confidence is low, and the sender's provider, which answers. \<open>exchange\<close> composes
  the two the way the module describes: evaluate, request, extract, merge, and evaluate again.
\<close>

section \<open>The manager\<close>

definition DEFAULT_CONFIDENCE_THRESHOLD :: f64 where
  "DEFAULT_CONFIDENCE_THRESHOLD = to_f64 (7 / 10)"

definition MAX_REFINEMENT_ROUNDS :: u32 where
  "MAX_REFINEMENT_ROUNDS = 5"

record context_manager =
  cm_agent_id :: agent_id
  cm_confidence_threshold :: f64
  cm_refinement_rounds :: u32
  cm_max_rounds :: u32
  cm_received_indices :: "u32 set"

definition context_manager_new :: "agent_id \<Rightarrow> context_manager" where
  "context_manager_new a =
     \<lparr>cm_agent_id = a, cm_confidence_threshold = DEFAULT_CONFIDENCE_THRESHOLD,
      cm_refinement_rounds = 0, cm_max_rounds = MAX_REFINEMENT_ROUNDS, cm_received_indices = {}\<rparr>"

definition with_threshold :: "f64 \<Rightarrow> context_manager \<Rightarrow> context_manager" where
  "with_threshold th m = m\<lparr>cm_confidence_threshold := th\<rparr>"

definition with_max_rounds :: "u32 \<Rightarrow> context_manager \<Rightarrow> context_manager" where
  "with_max_rounds n m = m\<lparr>cm_max_rounds := n\<rparr>"

definition is_sufficient :: "context_manager \<Rightarrow> context_diff \<Rightarrow> bool" where
  "is_sufficient m d \<longleftrightarrow> cm_confidence_threshold m \<le> diff_confidence d"

text \<open>The indices below \<open>n\<close> that are not in \<open>received\<close>, ascending.\<close>

definition missing_indices :: "u32 set \<Rightarrow> u32 \<Rightarrow> u32 list" where
  "missing_indices received n =
     filter (\<lambda>i. i \<notin> received) (map of_nat [0..<unat n])"

definition evaluate ::
  "context_manager \<Rightarrow> context_diff \<Rightarrow> agent_id \<Rightarrow> uuid \<Rightarrow> u32 \<Rightarrow>
     context_manager \<times> (context_error + context_request_msg option)"
where
  "evaluate m d sender task_id total_chunks =
     (let m = m\<lparr>cm_received_indices := cm_received_indices m \<union> chunk_index ` set (diff_chunks d)\<rparr>
      in if cm_confidence_threshold m \<le> diff_confidence d then (m, Inr None)
         else if cm_max_rounds m \<le> cm_refinement_rounds m
         then (m, Inl (LowConfidence (diff_confidence d)))
         else
           let m = m\<lparr>cm_refinement_rounds := cm_refinement_rounds m + 1\<rparr>;
               needed = missing_indices (cm_received_indices m) total_chunks
           in if needed = [] then (m, Inl (LowConfidence (diff_confidence d)))
              else
                let batch_size = max ((length needed + 1) div 2) 1;
                    requested = take batch_size needed
                in (m, Inr (Some \<lparr>creq_from = cm_agent_id m, creq_to = sender,
                     creq_task_id = task_id, creq_current_confidence = diff_confidence d,
                     creq_requested_chunk_indices = requested\<rparr>)))"

definition manager_reset :: "context_manager \<Rightarrow> context_manager" where
  "manager_reset m = m\<lparr>cm_refinement_rounds := 0, cm_received_indices := {}\<rparr>"

section \<open>The provider\<close>

record context_provider =
  cp_compressor :: compressor
  cp_full_context :: "u8 list"
  cp_task_embedding :: context_embedding

definition provider_new :: "compressor \<Rightarrow> u8 list \<Rightarrow> context_embedding \<Rightarrow> context_provider" where
  "provider_new c data e =
     \<lparr>cp_compressor = c, cp_full_context = data, cp_task_embedding = e\<rparr>"

definition handle_request ::
  "vector_env \<Rightarrow> context_provider \<Rightarrow> context_request_msg \<Rightarrow> context_chunk list option" where
  "handle_request env p request =
     extract_additional env (cp_compressor p) (cp_full_context p) (cp_task_embedding p)
       (creq_requested_chunk_indices request)"

definition provider_total_chunks :: "context_provider \<Rightarrow> u32" where
  "provider_total_chunks p =
     (let chunk_size = msc_chunk_size (comp_config (cp_compressor p))
      in if chunk_size = 0 then 0
         else of_nat (length (split_into_chunks (cp_full_context p) chunk_size)))"

definition initial_diff ::
  "vector_env \<Rightarrow> context_provider \<Rightarrow> (context_error + context_diff) option" where
  "initial_diff env p =
     compress env (cp_compressor p) (cp_full_context p) (cp_task_embedding p)"

section \<open>The standalone functions\<close>

definition should_request_more :: "context_diff \<Rightarrow> f64 \<Rightarrow> bool" where
  "should_request_more d th \<longleftrightarrow> diff_confidence d < th"

definition generate_context_request ::
  "context_diff \<Rightarrow> agent_id \<Rightarrow> agent_id \<Rightarrow> uuid \<Rightarrow> u32 \<Rightarrow> nat \<Rightarrow> context_request_msg option"
where
  "generate_context_request d sender recipient task_id total_chunks max_additional =
     (if DEFAULT_CONFIDENCE_THRESHOLD \<le> diff_confidence d then None
      else
        let received = chunk_index ` set (diff_chunks d);
            needed = take max_additional (missing_indices received total_chunks)
        in if needed = [] then None
           else Some \<lparr>creq_from = sender, creq_to = recipient, creq_task_id = task_id,
             creq_current_confidence = diff_confidence d, creq_requested_chunk_indices = needed\<rparr>)"

section \<open>The exchange\<close>

text \<open>
  The requests that were sent, and the diff that was found sufficient or the error of the manager.
  \<open>None\<close> is a panic of the provider, or an exchange without end.
\<close>

partial_function (option) exchange ::
  "vector_env \<Rightarrow> context_provider \<Rightarrow> agent_id \<Rightarrow> uuid \<Rightarrow> context_manager \<Rightarrow> context_diff \<Rightarrow>
     (context_request_msg list \<times> (context_error + context_diff)) option"
where
  "exchange env p sender task_id m d =
     (case evaluate m d sender task_id (provider_total_chunks p) of
        (m', Inl e) \<Rightarrow> Some ([], Inl e)
      | (m', Inr None) \<Rightarrow> Some ([], Inr d)
      | (m', Inr (Some request)) \<Rightarrow>
          Option.bind (handle_request env p request)
            (\<lambda>additional. Option.bind (exchange env p sender task_id m' (merge_chunks d additional))
              (\<lambda>r. Some (request # fst r, snd r))))"

section \<open>What a request asks for\<close>

lemma set_missing: "set (missing_indices R n) = {i. i < n \<and> i \<notin> R}"
proof -
  have "i \<in> of_nat ` {..<unat n} \<longleftrightarrow> i < n" for i :: u32
  proof
    assume "i < n"
    then have "unat i < unat n" by (simp add: word_less_nat_alt)
    then have "of_nat (unat i) \<in> (of_nat ` {..<unat n} :: u32 set)" by blast
    then show "i \<in> of_nat ` {..<unat n}" by simp
  next
    assume "i \<in> of_nat ` {..<unat n}"
    then show "i < n" by (auto simp: word_less_nat_alt unat_of_nat intro: le_less_trans [OF mod_less_eq_dividend])
  qed
  then show ?thesis by (auto simp: missing_indices_def atLeast0LessThan)
qed

lemma distinct_missing: "distinct (missing_indices R n)"
proof -
  have "inj_on (of_nat :: nat \<Rightarrow> u32) {0..<unat n}"
    by (rule inj_on_subset [OF index_inj]) (use unsigned_less [of n, where 'a = nat] in auto)
  then show ?thesis by (simp add: missing_indices_def distinct_map)
qed

lemma batch_size:
  "xs \<noteq> [] \<Longrightarrow> max (Suc (length xs) div 2) (Suc 0) = Suc (length xs) div 2"
  "xs \<noteq> [] \<Longrightarrow> Suc (length xs) div 2 \<noteq> 0"
  by (cases xs; auto)+

lemma evaluate_request:
  assumes "evaluate m d sender t n = (m', Inr (Some req))"
  defines "R \<equiv> cm_received_indices m \<union> chunk_index ` set (diff_chunks d)"
  shows "cm_refinement_rounds m < cm_max_rounds m"
    and "m' = m\<lparr>cm_received_indices := R, cm_refinement_rounds := cm_refinement_rounds m + 1\<rparr>"
    and "\<not> cm_confidence_threshold m \<le> diff_confidence d"
    and "creq_requested_chunk_indices req =
      take ((length (missing_indices R n) + 1) div 2) (missing_indices R n)"
    and "creq_requested_chunk_indices req \<noteq> []"
    and "creq_from req = cm_agent_id m" "creq_to req = sender" "creq_task_id req = t"
  using assms by (auto simp: evaluate_def Let_def batch_size split: if_splits)

lemma requested_subset:
  assumes "evaluate m d sender t n = (m', Inr (Some req))"
  shows "set (creq_requested_chunk_indices req) \<subseteq>
      {i. i < n \<and> i \<notin> cm_received_indices m \<union> chunk_index ` set (diff_chunks d)}"
    and "distinct (creq_requested_chunk_indices req)"
  using evaluate_request(4) [OF assms] set_take_subset [of _ "missing_indices _ n"] distinct_missing
  by (auto simp: set_missing)

section \<open>What the provider answers\<close>

definition provider_raw :: "context_provider \<Rightarrow> u8 list list" where
  "provider_raw p = split_into_chunks (cp_full_context p) (msc_chunk_size (comp_config (cp_compressor p)))"

definition provider_ok :: "context_provider \<Rightarrow> bool" where
  "provider_ok p \<longleftrightarrow> consistent (cp_task_embedding p)
     \<and> emb_dimensions (cp_task_embedding p) = msc_dimensions (comp_config (cp_compressor p))"

definition provider_chunk :: "vector_env \<Rightarrow> context_provider \<Rightarrow> u32 \<Rightarrow> context_chunk" where
  "provider_chunk env p i = scored_chunk env (cp_task_embedding p) (provider_raw p) (unat i)"

lemma provider_chunk_index [simp]: "chunk_index (provider_chunk env p i) = i"
  by (simp add: provider_chunk_def)

lemma extract_by_index_total:
  assumes "env_sound env" "consistent e" "emb_dimensions e = dims"
  shows "extract_chunks_by_index env data n idxs dims e =
    Some (map (\<lambda>i. scored_chunk env e (split_into_chunks data n) (unat i))
      (filter (\<lambda>i. unat i < length (split_into_chunks data n)) idxs))"
  using chunk_similarity_total [OF assms(1,2)] assms(3)
  by (induction idxs) (auto simp: Let_def to_array_def scored_chunk_def)

lemma handle_request_total:
  assumes "env_sound env" "provider_ok p"
  shows "handle_request env p req = Some (map (provider_chunk env p)
      (filter (\<lambda>i. unat i < length (provider_raw p)) (creq_requested_chunk_indices req)))"
  using extract_by_index_total [OF assms(1)] assms(2)
  by (simp add: handle_request_def extract_additional_def provider_ok_def provider_chunk_def
      provider_raw_def)

lemma below_total: "i < provider_total_chunks p \<Longrightarrow> unat i < length (provider_raw p)"
proof -
  assume "i < provider_total_chunks p"
  then have "unat i < unat (of_nat (length (provider_raw p)) :: u32)"
    by (auto simp: provider_total_chunks_def provider_raw_def Let_def word_less_nat_alt
      split: if_splits)
  also have "\<dots> \<le> length (provider_raw p)" by (simp add: unat_of_nat)
  finally show ?thesis .
qed

lemma answer_to_request:
  assumes "env_sound env" "provider_ok p"
    and "evaluate m d sender t (provider_total_chunks p) = (m', Inr (Some req))"
  shows "handle_request env p req =
    Some (map (provider_chunk env p) (creq_requested_chunk_indices req))"
proof -
  have "filter (\<lambda>i. unat i < length (provider_raw p)) (creq_requested_chunk_indices req) =
      creq_requested_chunk_indices req"
    using requested_subset(1) [OF assms(3)] below_total by (fastforce simp: filter_id_conv)
  then show ?thesis using handle_request_total [OF assms(1,2)] by simp
qed

lemma merge_indices:
  "chunk_index ` set (diff_chunks (merge_chunks d additional)) =
     chunk_index ` set (diff_chunks d) \<union> chunk_index ` set additional"
  by (auto simp: merge_chunks_def Let_def)

section \<open>The exchange ends\<close>

lemma round_room:
  assumes "(r :: u32) < mx"
  shows "unat mx - unat (r + 1) < unat mx - unat r" "unat (r + 1) = unat r + 1"
proof -
  have l: "unat r < unat mx" using assms by (simp add: word_less_nat_alt)
  have "unat mx < 2 ^ 32" using unsigned_less [of mx, where 'a = nat] by simp
  with l have "unat r + 1 < 2 ^ 32" by linarith
  then show e: "unat (r + 1) = unat r + 1" by (simp add: unat_word_ariths)
  show "unat mx - unat (r + 1) < unat mx - unat r" using l e by linarith
qed

definition asked :: "context_request_msg list \<Rightarrow> u32 list" where
  "asked reqs = concat (map creq_requested_chunk_indices reqs)"

lemma exchange_total:
  assumes "env_sound env" "provider_ok p"
  shows "\<exists>reqs out. exchange env p sender t m d = Some (reqs, out)
    \<and> length reqs \<le> unat (cm_max_rounds m) - unat (cm_refinement_rounds m)
    \<and> distinct (asked reqs)
    \<and> set (asked reqs) \<inter> (cm_received_indices m \<union> chunk_index ` set (diff_chunks d)) = {}
    \<and> (\<forall>req \<in> set reqs. creq_requested_chunk_indices req \<noteq> [])"
proof (induction "unat (cm_max_rounds m) - unat (cm_refinement_rounds m)" arbitrary: m d
    rule: less_induct)
  case less
  obtain m' res where ev: "evaluate m d sender t (provider_total_chunks p) = (m', res)"
    by (cases "evaluate m d sender t (provider_total_chunks p)")
  have stop: ?case if "exchange env p sender t m d = Some ([], out)" for out
    using that by (auto simp: asked_def)
  consider e where "res = Inl e" | "res = Inr None" | req where "res = Inr (Some req)"
    by (cases res; cases "projr res") auto
  then show ?case
  proof cases
    case (1 e)
    show ?thesis by (rule stop) (simp add: exchange.simps ev 1)
  next
    case 2
    show ?thesis by (rule stop) (simp add: exchange.simps ev 2)
  next
    case (3 req)
    have ev': "evaluate m d sender t (provider_total_chunks p) = (m', Inr (Some req))"
      using ev 3 by simp
    let ?add = "map (provider_chunk env p) (creq_requested_chunk_indices req)"
    let ?d = "merge_chunks d ?add"
    note m' = evaluate_request(2) [OF ev']
    note room = round_room [OF evaluate_request(1) [OF ev']]
    have dec: "unat (cm_max_rounds m') - unat (cm_refinement_rounds m') <
        unat (cm_max_rounds m) - unat (cm_refinement_rounds m)"
      using room(1) by (simp add: m')
    obtain reqs out where IH: "exchange env p sender t m' ?d = Some (reqs, out)"
      "length reqs \<le> unat (cm_max_rounds m') - unat (cm_refinement_rounds m')"
      "distinct (asked reqs)"
      "set (asked reqs) \<inter> (cm_received_indices m' \<union> chunk_index ` set (diff_chunks ?d)) = {}"
      "\<forall>req \<in> set reqs. creq_requested_chunk_indices req \<noteq> []"
      using less [OF dec, of ?d] by blast
    have "exchange env p sender t m d = Some (req # reqs, out)"
      by (subst exchange.simps) (simp add: ev' answer_to_request [OF assms ev'] IH(1))
    moreover have "length (req # reqs) \<le> unat (cm_max_rounds m) - unat (cm_refinement_rounds m)"
      using IH(2) dec by simp
    moreover have "chunk_index ` set ?add = set (creq_requested_chunk_indices req)"
      by (simp add: image_image)
    then have "distinct (asked (req # reqs))
      \<and> set (asked (req # reqs)) \<inter> (cm_received_indices m \<union> chunk_index ` set (diff_chunks d)) = {}"
      using IH(3,4) requested_subset [OF ev'] unfolding merge_indices asked_def m' by auto
    ultimately show ?thesis
      using IH(5) evaluate_request(5) [OF ev'] by auto
  qed
qed

text \<open>
  C10. The exchange between a manager and a provider whose embedding fits always ends without a
  panic, after at most the manager's remaining rounds; every request asks for something, and no
  chunk is asked for twice, nor when the receiver already has it.
\<close>

theorem exchange_terminates:
  assumes "env_sound env" and "provider_ok p"
  shows "\<exists>reqs out. exchange env p sender t m d = Some (reqs, out)
    \<and> length reqs \<le> unat (cm_max_rounds m) - unat (cm_refinement_rounds m)
    \<and> distinct (concat (map creq_requested_chunk_indices reqs))
    \<and> set (concat (map creq_requested_chunk_indices reqs))
        \<inter> (cm_received_indices m \<union> chunk_index ` set (diff_chunks d)) = {}
    \<and> (\<forall>req \<in> set reqs. creq_requested_chunk_indices req \<noteq> [])"
  using exchange_total [OF assms] unfolding asked_def .

definition sample_provider :: context_provider where
  "sample_provider = provider_new (compressor_with_config
     (sample_config\<lparr>msc_chunk_size := 1, msc_relevance_threshold := Fin (- 2), msc_max_chunks := 2\<rparr>))
     [3, 4, 6] unit_task"

lemma sample_provider_ok: "provider_ok sample_provider"
  by (simp add: provider_ok_def sample_provider_def provider_new_def compressor_with_config_def
      sample_config_def)

definition empty_diff :: context_diff where
  "empty_diff = \<lparr>diff_base_hash = [], diff_chunks = [], diff_confidence = 0,
     diff_original_size = 0, diff_compressed_size = 0\<rparr>"

theorem exchange_terminates_witness:
  "\<exists>reqs out. exchange toy_env sample_provider (AgentId 2) 7
      (context_manager_new (AgentId 1)) empty_diff = Some (reqs, out) \<and> length reqs \<le> 5"
proof -
  have "unat MAX_REFINEMENT_ROUNDS = 5" by (simp add: MAX_REFINEMENT_ROUNDS_def)
  then show ?thesis
    using exchange_terminates [OF toy_env_sound sample_provider_ok, of "AgentId 2" 7
        "context_manager_new (AgentId 1)" empty_diff]
    by (auto simp: context_manager_new_def)
qed

section \<open>Means of scores\<close>

text \<open>
  The mean is taken over the rationals, so that what follows does not depend on rounding: the
  confidence of a diff is this mean, up to the rounding of the sum and of the quotient.
\<close>

fun rat_value :: "f64 \<Rightarrow> rat" where
  "rat_value (Fin q) = q"
| "rat_value _ = 0"

definition rat_sum :: "context_chunk list \<Rightarrow> rat" where
  "rat_sum cs = sum_list (map (rat_value \<circ> chunk_relevance_score) cs)"

definition exact_mean :: "context_chunk list \<Rightarrow> rat" where
  "exact_mean cs = rat_sum cs / of_nat (length cs)"

text \<open>What is asked of the vectors: no comparison of a chunk with the task yields a NaN.\<close>

definition scores_are_numbers :: "vector_env \<Rightarrow> context_provider \<Rightarrow> bool" where
  "scores_are_numbers env p \<longleftrightarrow>
     (\<forall>bytes \<in> set (provider_raw p). score_of env (cp_task_embedding p) bytes \<noteq> NaN)"

lemma clamped_Fin: "clamp x (- 1) 1 \<noteq> NaN \<Longrightarrow> clamp x (- 1) 1 = Fin (rat_value (clamp x (- 1) 1))"
  by (cases x) (auto simp: clamp_def Let_def f64_zero_one_Fin split: if_splits)

lemma score_Fin:
  assumes "env_sound env" "provider_ok p" "scores_are_numbers env p" "i < length (provider_raw p)"
  shows "score_of env (cp_task_embedding p) (provider_raw p ! i) =
    Fin (rat_value (score_of env (cp_task_embedding p) (provider_raw p ! i)))"
proof -
  let ?e = "cp_task_embedding p" and ?b = "provider_raw p ! i"
  have "chunk_similarity env (emb_values ?e) (emb_dimensions ?e) ?b = Some (score_of env ?e ?b)"
    using assms(2) by (intro chunk_similarity_total [OF assms(1)]) (simp add: provider_ok_def)
  then have "score_of env ?e ?b = 0 \<or> (\<exists>x. clamp x (- 1) 1 = score_of env ?e ?b)"
    by (auto simp: chunk_similarity_def cosine_similarity_arrays_def bind_eq_Some_conv Let_def
        split: if_splits)
  moreover have "score_of env ?e ?b \<noteq> NaN" using assms(3,4) by (simp add: scores_are_numbers_def)
  ultimately show ?thesis using clamped_Fin f64_zero_one_Fin(1) rat_value.simps(1) by metis
qed

lemma rat_sum_append: "rat_sum (xs @ ys) = rat_sum xs + rat_sum ys"
  by (simp add: rat_sum_def)

lemma rat_sum_mset: "rat_sum cs = sum_mset (image_mset (rat_value \<circ> chunk_relevance_score) (mset cs))"
  unfolding rat_sum_def by (subst sum_mset_sum_list [symmetric]) simp

lemma rat_sum_by_score: "rat_sum (by_score cs) = rat_sum cs"
  by (simp add: rat_sum_mset by_score_def)

lemma rat_sum_bound:
  "\<forall>c \<in> set cs. rat_value (chunk_relevance_score c) \<le> b \<Longrightarrow> rat_sum cs \<le> b * of_nat (length cs)"
  by (induction cs) (auto simp: rat_sum_def algebra_simps)

lemma rat_sum_lower:
  "\<forall>c \<in> set cs. x \<le> rat_value (chunk_relevance_score c) \<Longrightarrow> x * of_nat (length cs) \<le> rat_sum cs"
  by (induction cs) (auto simp: rat_sum_def algebra_simps)

section \<open>More chunks never help\<close>

definition in_range :: "context_provider \<Rightarrow> u32 set" where
  "in_range p = {i. unat i < length (provider_raw p)}"

text \<open>A diff whose mean, and whose missing chunks, score at most \<open>b\<close>.\<close>

definition bounded_by :: "vector_env \<Rightarrow> context_provider \<Rightarrow> rat \<Rightarrow> context_diff \<Rightarrow> bool" where
  "bounded_by env p b d \<longleftrightarrow> diff_chunks d \<noteq> []
     \<and> (\<forall>i \<in> in_range p - chunk_index ` set (diff_chunks d).
          rat_value (chunk_relevance_score (provider_chunk env p i)) \<le> b)
     \<and> rat_sum (diff_chunks d) \<le> b * of_nat (length (diff_chunks d))"

lemma bounded_merge:
  assumes "bounded_by env p b d"
    and "set idxs \<subseteq> in_range p - chunk_index ` set (diff_chunks d)"
  shows "bounded_by env p b (merge_chunks d (map (provider_chunk env p) idxs))"
proof -
  let ?new = "map (provider_chunk env p) idxs"
  let ?cs = "by_score (diff_chunks d @ ?new)"
  have "filter (\<lambda>c. chunk_index c \<notin> chunk_index ` set (diff_chunks d)) ?new = ?new"
    using assms(2) by (auto simp: filter_id_conv)
  then have cs: "diff_chunks (merge_chunks d ?new) = ?cs"
    by (simp only: merge_chunks_def Let_def by_score_def) simp
  have "rat_sum ?new \<le> b * of_nat (length ?new)"
    using assms by (intro rat_sum_bound) (auto simp: bounded_by_def)
  then have "rat_sum ?cs \<le> b * of_nat (length ?cs)"
    using assms(1) unfolding rat_sum_by_score rat_sum_append
    by (simp add: by_score_def bounded_by_def algebra_simps)
  moreover have sub: "set (diff_chunks d) \<subseteq> set ?cs" by (simp add: by_score_def)
  moreover have "?cs \<noteq> []" using sub assms(1) by (cases ?cs) (auto simp: bounded_by_def)
  ultimately show ?thesis using assms(1) unfolding bounded_by_def cs by blast
qed

text \<open>The bound survives every round; whatever is asked for exists and was missing from the first diff.\<close>

lemma bounded_exchange:
  assumes "env_sound env" "provider_ok p"
  shows "\<exists>reqs out. exchange env p sender t m d = Some (reqs, out)
    \<and> set (asked reqs) \<subseteq> in_range p - chunk_index ` set (diff_chunks d)
    \<and> (\<forall>d'. out = Inr d' \<longrightarrow> bounded_by env p b d \<longrightarrow> bounded_by env p b d')"
proof (induction "unat (cm_max_rounds m) - unat (cm_refinement_rounds m)" arbitrary: m d
    rule: less_induct)
  case less
  obtain m' res where ev: "evaluate m d sender t (provider_total_chunks p) = (m', res)"
    by (cases "evaluate m d sender t (provider_total_chunks p)")
  have stop: ?case if "exchange env p sender t m d = Some ([], out)" "out = Inr d \<or> out = Inl e" for out e
    using that by (auto simp: asked_def)
  consider e where "res = Inl e" | "res = Inr None" | req where "res = Inr (Some req)"
    by (cases res; cases "projr res") auto
  then show ?case
  proof cases
    case (1 e)
    show ?thesis by (rule stop [of "Inl e" e]) (simp_all add: exchange.simps ev 1)
  next
    case 2
    show ?thesis by (rule stop [of "Inr d"]) (simp_all add: exchange.simps ev 2)
  next
    case (3 req)
    have ev': "evaluate m d sender t (provider_total_chunks p) = (m', Inr (Some req))"
      using ev 3 by simp
    let ?idxs = "creq_requested_chunk_indices req"
    let ?d = "merge_chunks d (map (provider_chunk env p) ?idxs)"
    have sub: "set ?idxs \<subseteq> in_range p - chunk_index ` set (diff_chunks d)"
      using requested_subset(1) [OF ev'] below_total by (auto simp: in_range_def)
    have dec: "unat (cm_max_rounds m') - unat (cm_refinement_rounds m') <
        unat (cm_max_rounds m) - unat (cm_refinement_rounds m)"
      using round_room(1) [OF evaluate_request(1) [OF ev']] by (simp add: evaluate_request(2) [OF ev'])
    obtain reqs out where IH: "exchange env p sender t m' ?d = Some (reqs, out)"
      "set (asked reqs) \<subseteq> in_range p - chunk_index ` set (diff_chunks ?d)"
      "\<forall>d'. out = Inr d' \<longrightarrow> bounded_by env p b ?d \<longrightarrow> bounded_by env p b d'"
      using less.hyps [OF dec, of ?d] by blast
    have "exchange env p sender t m d = Some (req # reqs, out)"
      by (subst exchange.simps) (simp add: ev' answer_to_request [OF assms(1,2) ev'] IH(1))
    moreover have "set (asked (req # reqs)) \<subseteq> in_range p - chunk_index ` set (diff_chunks d)"
      using sub IH(2) unfolding merge_indices asked_def by auto
    ultimately show ?thesis using IH(3) bounded_merge [OF _ sub] by blast
  qed
qed

lemma initial_diff_best:
  assumes "env_sound env" "provider_ok p" "length (provider_raw p) \<le> 2 ^ 32"
    and "initial_diff env p = Some (Inr d)"
  shows "best_chunks env (cp_task_embedding p)
      (msc_relevance_threshold (comp_config (cp_compressor p)))
      (msc_max_chunks (comp_config (cp_compressor p))) (provider_raw p) (diff_chunks d)"
proof -
  obtain r where r: "extract_msc env (cp_full_context p) (cp_task_embedding p)
      (comp_config (cp_compressor p)) = Some (Inr r)" "d = msc_to_diff r"
    using compress_Inr assms(4) unfolding initial_diff_def by blast
  then have ne: "provider_raw p \<noteq> []"
    by (auto simp: extract_msc_def Let_def provider_raw_def split: if_splits)
  have ok: "consistent (cp_task_embedding p)"
    "emb_dimensions (cp_task_embedding p) = msc_dimensions (comp_config (cp_compressor p))"
    using assms(2) by (simp_all add: provider_ok_def)
  have "res_chunks r = truncate_budget (msc_max_chunks (comp_config (cp_compressor p)))
      (by_score (map (scored_chunk env (cp_task_embedding p) (provider_raw p))
        (relevant env (cp_task_embedding p)
          (msc_relevance_threshold (comp_config (cp_compressor p))) (provider_raw p))))"
    using extract_msc_total [OF assms(1) ok, of "cp_full_context p"] ne r(1)
    unfolding by_score_def provider_raw_def by auto
  then show ?thesis
    using extraction_best [OF assms(3)] by (simp add: r(2) msc_to_diff_def)
qed

text \<open>What the first diff leaves out is no better than anything in it, and than the threshold if it is empty.\<close>

lemma left_out_no_better:
  assumes "env_sound env" "provider_ok p" "length (provider_raw p) \<le> 2 ^ 32"
    and "scores_are_numbers env p" and "initial_diff env p = Some (Inr d)"
    and "i \<in> in_range p - chunk_index ` set (diff_chunks d)"
  defines "s \<equiv> chunk_relevance_score (provider_chunk env p i)"
  shows "\<forall>c \<in> set (diff_chunks d). s \<le> chunk_relevance_score c
      \<and> rat_value s \<le> rat_value (chunk_relevance_score c)"
    and "diff_chunks d = [] \<Longrightarrow> \<not> msc_relevance_threshold (comp_config (cp_compressor p)) < s"
proof -
  let ?e = "cp_task_embedding p" and ?raw = "provider_raw p"
    and ?thr = "msc_relevance_threshold (comp_config (cp_compressor p))"
    and ?budget = "msc_max_chunks (comp_config (cp_compressor p))"
    and ?sc = "\<lambda>i. score_of env (cp_task_embedding p) (provider_raw p ! i)"
  obtain I where I: "I \<subseteq> set (relevant env ?e ?thr ?raw)"
    "set (diff_chunks d) = scored_chunk env ?e ?raw ` I"
    "length (diff_chunks d) = card I"
    "card I = (if ?budget = 0 then card (set (relevant env ?e ?thr ?raw))
      else min ?budget (card (set (relevant env ?e ?thr ?raw))))"
    "\<forall>i \<in> I. \<forall>j \<in> set (relevant env ?e ?thr ?raw) - I. ?sc j \<le> ?sc i"
    using initial_diff_best [OF assms(1-3,5)] by (auto simp: best_chunks_def Let_def)
  note Fin = score_Fin [OF assms(1,2,4)]
  let ?j = "unat i"
  have j: "?j < length ?raw" "?j \<notin> I"
    using assms(6) imageI [of ?j I "of_nat :: nat \<Rightarrow> u32"] by (auto simp: in_range_def I(2) image_image)
  have s: "s = ?sc ?j" by (simp add: s_def provider_chunk_def)
  have "?sc ?j \<le> ?sc k" if k: "k \<in> I" for k
  proof (cases "?j \<in> set (relevant env ?e ?thr ?raw)")
    case True
    then show ?thesis using I(5) k j(2) by blast
  next
    case False
    have "?thr < ?sc k" "\<not> ?thr < ?sc ?j" using I(1) k False j(1) by (auto simp: relevant_props)
    moreover from this have "?thr \<noteq> NaN" using f64_less_not_NaN by blast
    moreover have "?sc ?j \<noteq> NaN" using Fin [OF j(1)] by (metis f64.distinct(5))
    ultimately show ?thesis by (meson f64_less_imp_le f64_le_trans f64_not_less)
  qed
  moreover have "k < length ?raw" if "k \<in> I" for k using that I(1) by (auto simp: relevant_props)
  ultimately show "\<forall>c \<in> set (diff_chunks d). s \<le> chunk_relevance_score c
      \<and> rat_value s \<le> rat_value (chunk_relevance_score c)"
    unfolding I(2) s using Fin [OF j(1)] Fin
    by (fastforce simp del: less_eq_f64.simps simp: less_eq_f64.simps(1) [symmetric])
  show "\<not> ?thr < s" if "diff_chunks d = []"
  proof -
    have "set (relevant env ?e ?thr ?raw) = {}"
      using that I(3,4) by (auto simp: min_def split: if_splits)
    moreover have "?j \<in> set (relevant env ?e ?thr ?raw)" if "?thr < ?sc ?j"
      using that j(1) by (simp add: relevant_props)
    ultimately show ?thesis unfolding s by (metis empty_iff)
  qed
qed

text \<open>
  C7. Asking for more context never raises the mean relevance. Starting from the provider's own first
  diff, and if no score is NaN, the exchange ends; every chunk it asks for, in any round, scores at
  most what every chunk of the first diff scores (and is not above the relevance threshold when the
  first diff is empty); and if the exchange ends with a diff that suffices, the mean score of its
  chunks, taken without rounding, is at most that of the first diff when that had any. The
  confidence compared with the manager's threshold is this mean, rounded.
\<close>

theorem refinement_never_helps:
  assumes "env_sound env" and "provider_ok p" and "length (provider_raw p) \<le> 2 ^ 32"
    and "scores_are_numbers env p" and "initial_diff env p = Some (Inr d)"
  shows "\<exists>reqs out. exchange env p sender t m d = Some (reqs, out)
    \<and> (\<forall>req \<in> set reqs. \<forall>i \<in> set (creq_requested_chunk_indices req).
         (\<forall>c \<in> set (diff_chunks d).
            chunk_relevance_score (provider_chunk env p i) \<le> chunk_relevance_score c)
         \<and> (diff_chunks d = [] \<longrightarrow>
              \<not> msc_relevance_threshold (comp_config (cp_compressor p))
                < chunk_relevance_score (provider_chunk env p i)))
    \<and> (\<forall>d'. out = Inr d' \<longrightarrow> diff_chunks d \<noteq> [] \<longrightarrow>
         exact_mean (diff_chunks d') \<le> exact_mean (diff_chunks d))"
proof -
  note left = left_out_no_better [OF assms]
  let ?b = "exact_mean (diff_chunks d)"
  obtain reqs out where run: "exchange env p sender t m d = Some (reqs, out)"
    "set (asked reqs) \<subseteq> in_range p - chunk_index ` set (diff_chunks d)"
    "\<forall>d'. out = Inr d' \<longrightarrow> bounded_by env p ?b d \<longrightarrow> bounded_by env p ?b d'"
    using bounded_exchange [OF assms(1,2)] by blast
  have start: "bounded_by env p ?b d" if ne: "diff_chunks d \<noteq> []"
  proof -
    have len: "0 < (of_nat (length (diff_chunks d)) :: rat)" using ne by simp
    have "rat_value (chunk_relevance_score (provider_chunk env p i)) \<le> ?b"
      if "i \<in> in_range p - chunk_index ` set (diff_chunks d)" for i
      using rat_sum_lower [of "diff_chunks d"] left(1) [OF that] len
      by (simp add: exact_mean_def le_divide_eq)
    then show ?thesis using ne by (simp add: bounded_by_def exact_mean_def)
  qed
  have "exact_mean (diff_chunks d') \<le> ?b" if "out = Inr d'" "diff_chunks d \<noteq> []" for d'
  proof -
    have "bounded_by env p ?b d'" using run(3) that start by blast
    then show ?thesis by (simp add: bounded_by_def exact_mean_def [of "diff_chunks d'"] divide_le_eq)
  qed
  moreover have "(\<forall>c \<in> set (diff_chunks d).
        chunk_relevance_score (provider_chunk env p i) \<le> chunk_relevance_score c)
      \<and> (diff_chunks d = [] \<longrightarrow> \<not> msc_relevance_threshold (comp_config (cp_compressor p))
                < chunk_relevance_score (provider_chunk env p i))"
    if "req \<in> set reqs" "i \<in> set (creq_requested_chunk_indices req)" for req i
  proof -
    have "i \<in> in_range p - chunk_index ` set (diff_chunks d)"
      using that run(2) by (auto simp: asked_def)
    from left(1) [OF this] left(2) [OF this] show ?thesis by auto
  qed
  ultimately show ?thesis
    using run(1) by (intro exI [of _ reqs] exI [of _ out] conjI) simp_all
qed

lemma sample_raw: "provider_raw sample_provider = [[3], [4], [6]]"
  by (simp add: provider_raw_def sample_provider_def provider_new_def compressor_with_config_def
      sample_config_def split_into_chunks_def chunks_of.simps)

text \<open>
  The scores of the three chunks are 1, -1 and -1; the first diff has two of them, so the manager asks
  for the third one, which does not help.
\<close>

theorem refinement_never_helps_witness:
  "\<exists>d reqs out. initial_diff toy_env sample_provider = Some (Inr d) \<and> length (diff_chunks d) = 2
    \<and> exchange toy_env sample_provider (AgentId 2) 7 (context_manager_new (AgentId 1)) d = Some (reqs, out)
    \<and> list_all (\<lambda>req. list_all (\<lambda>i. list_all (\<lambda>c.
         chunk_relevance_score (provider_chunk toy_env sample_provider i) \<le> chunk_relevance_score c)
       (diff_chunks d)) (creq_requested_chunk_indices req)) reqs"
proof -
  let ?p = sample_provider and ?m = "context_manager_new (AgentId 1)"
  have p: "cp_task_embedding ?p = unit_task" "cp_full_context ?p = [3, 4, 6]"
    "comp_config (cp_compressor ?p) =
      \<lparr>msc_relevance_threshold = Fin (- 2), msc_max_chunks = 2, msc_chunk_size = 1, msc_dimensions = 1\<rparr>"
    by (simp_all add: sample_provider_def provider_new_def compressor_with_config_def sample_config_def)
  have raw: "split_into_chunks [3, 4, 6] 1 = [[3], [4], [6 :: u8]]"
    using sample_raw by (simp add: provider_raw_def p)
  let ?c = "scored_chunk toy_env unit_task [[3], [4], [6]]"
  obtain r where r: "extract_msc toy_env [3, 4, 6] unit_task (comp_config (cp_compressor ?p)) = Some (Inr r)"
    "res_chunks r = truncate_budget 2 (by_score (map ?c
       (relevant toy_env unit_task (Fin (- 2)) [[3], [4], [6]])))"
    using extract_msc_total [OF toy_env_sound, of unit_task "comp_config (cp_compressor ?p)" "[3, 4, 6]"]
    raw unfolding by_score_def by (auto simp: p)
  have "relevant toy_env unit_task (Fin (- 2)) [[3], [4], [6]] = [0, 1, 2]"
    by (simp add: relevant_def toy_score upt_rec [of 0] upt_rec [of 1] upt_rec [of 2])
  then have chunks: "res_chunks r = [?c 0, ?c 1]"
    by (simp add: r(2) by_score_def sort_by_def truncate_budget_def toy_score)
  have d: "initial_diff toy_env ?p = Some (Inr (msc_to_diff r))"
    by (simp add: initial_diff_def compress_def p(1,2) r(1))
  have "scores_are_numbers toy_env ?p" by (simp add: scores_are_numbers_def p(1) toy_score)
  moreover have "length (provider_raw ?p) \<le> 2 ^ 32" by (simp add: sample_raw)
  ultimately show ?thesis
    using refinement_never_helps [OF toy_env_sound sample_provider_ok _ _ d, of "AgentId 2" 7 ?m] d chunks
    by (auto simp: msc_to_diff_def list_all_iff)
qed

text \<open>
  A provider whose task embedding has another dimension than its compressor reports the
  mismatch when it makes the first diff, but panics on the first request for a chunk that exists:
  extraction by index does not check the dimensions.
\<close>

lemma mismatched_provider_panics:
  assumes "env_sound env" and "consistent (cp_task_embedding p)"
    and "emb_dimensions (cp_task_embedding p) \<noteq> msc_dimensions (comp_config (cp_compressor p))"
    and "creq_requested_chunk_indices req = i # is" and "unat i < length (provider_raw p)"
  shows "initial_diff env p = Some (Inl (DimensionMismatch
      (msc_dimensions (comp_config (cp_compressor p))) (emb_dimensions (cp_task_embedding p))))
    \<and> handle_request env p req = None"
proof -
  let ?dims = "msc_dimensions (comp_config (cp_compressor p))"
  obtain c where "embed env (provider_raw p ! unat i) ?dims = Some c" "length (emb_values c) = ?dims"
    using embed_total [OF assms(1)] by blast
  then have "chunk_similarity env (emb_values (cp_task_embedding p)) ?dims (provider_raw p ! unat i) = None"
    using cosine_panics [of "emb_values (cp_task_embedding p)" "emb_values c"] assms(2,3)
    by (simp add: chunk_similarity_def to_array_def consistent_def)
  then show ?thesis
    using assms(3-5)
    by (simp add: initial_diff_def compress_def extract_msc_def handle_request_def
        extract_additional_def provider_raw_def to_array_def Let_def)
qed

lemma mismatched_provider_panics_example:
  "handle_request toy_env (sample_provider\<lparr>cp_task_embedding := embedding_new [1, 1]\<rparr>)
     \<lparr>creq_from = AgentId 1, creq_to = AgentId 2, creq_task_id = 7, creq_current_confidence = 0,
      creq_requested_chunk_indices = [2]\<rparr> = None"
  using mismatched_provider_panics [OF toy_env_sound, of
      "sample_provider\<lparr>cp_task_embedding := embedding_new [1, 1]\<rparr>" _ 2 "[]"] sample_raw
  by (simp add: consistent_def embedding_new_def sample_provider_def provider_new_def
      compressor_with_config_def sample_config_def provider_raw_def)

text \<open>Merging removes duplicates of the diff's chunks, not duplicates within what is merged.\<close>

lemma merge_keeps_new_duplicates:
  assumes "chunk_index c \<notin> chunk_index ` set (diff_chunks d)" "chunk_index c' = chunk_index c"
  shows "\<not> distinct (map chunk_index (diff_chunks (merge_chunks d [c, c'])))"
proof -
  let ?pushed = "diff_chunks d @ [c, c']"
  have "filter (\<lambda>x. chunk_index x \<notin> chunk_index ` set (diff_chunks d)) [c, c'] = [c, c']"
    using assms by simp
  then have "mset (map chunk_index (diff_chunks (merge_chunks d [c, c']))) =
      mset (map chunk_index ?pushed)"
    by (simp only: merge_chunks_def Let_def) simp
  moreover have "\<not> distinct (map chunk_index ?pushed)" using assms(2) by simp
  ultimately show ?thesis by (metis mset_eq_imp_distinct_iff)
qed

end
