(* ===== verification/Node.thy ===== *)
theory Node
  imports Dispatcher Handshake Router Adaptive
begin

text \<open>
  The node of \<open>atp-node\<close> (\<open>node.rs\<close>, \<open>builder.rs\<close>): the five layers and the dispatcher, put together.
  Identifiers, clock readings and the libraries a call depends on are its arguments. Accessors that
  return a field are the fields of the record.
\<close>

section \<open>Construction\<close>

record atp_node =
  nd_agent_id :: agent_id
  nd_config :: atp_config
  nd_layers :: layers
  nd_coordinator :: handshake_coordinator
  nd_compressor :: compressor
  nd_router :: economic_router
  nd_dispatcher :: dispatcher

definition node_msc_config :: "atp_config \<Rightarrow> msc_config" where
  "node_msc_config cfg =
     \<lparr>msc_relevance_threshold = cc_relevance_threshold (cfg_context cfg), msc_max_chunks = 10,
      msc_chunk_size = 512, msc_dimensions = cc_embedding_dimensions (cfg_context cfg)\<rparr>"

definition node_cooldown :: "atp_config \<Rightarrow> duration option" where
  "node_cooldown cfg = do {
     d \<leftarrow> dur_mul (heartbeat_interval (cfg_fault cfg)) (heartbeat_timeout_multiplier (cfg_fault cfg));
     dur_mul d 10
   }"

text \<open>\<open>a\<close> is the fresh identifier of the node.\<close>

definition node_new :: "agent_id \<Rightarrow> atp_config \<Rightarrow> atp_node option" where
  "node_new a cfg = do {
     cooldown \<leftarrow> node_cooldown cfg;
     Some \<lparr>nd_agent_id = a, nd_config = cfg,
       nd_layers = \<lparr>ly_identity = identity_store_new, ly_registry = registry_new,
         ly_heartbeat = heartbeat_monitor_new (cfg_fault cfg),
         ly_breaker = circuit_breaker_new (cfg_fault cfg) cooldown,
         ly_checkpoints = checkpoint_store_new, ly_poison = poison_detector_new (cfg_fault cfg),
         ly_load = load_tracker_new (cfg_fault cfg)\<rparr>,
       nd_coordinator = coordinator_new a (cfg_handshake cfg),
       nd_compressor = compressor_with_config (node_msc_config cfg),
       nd_router = router_with_config graph_new default_cost_model (cfg_routing cfg),
       nd_dispatcher = dispatcher_new a\<rparr>
   }"

definition node_from_components ::
  "agent_id \<Rightarrow> atp_config \<Rightarrow> layers \<Rightarrow> handshake_coordinator \<Rightarrow> compressor \<Rightarrow> economic_router \<Rightarrow> atp_node"
where
  "node_from_components a cfg ls hc cpr er =
     \<lparr>nd_agent_id = a, nd_config = cfg, nd_layers = ls, nd_coordinator = hc,
      nd_compressor = cpr, nd_router = er, nd_dispatcher = dispatcher_new a\<rparr>"

record node_builder =
  nb_config :: atp_config
  nb_agent_id :: "agent_id option"
  nb_identity_store :: "identity_store option"
  nb_capability_registry :: "capability_registry option"
  nb_handshake_coordinator :: "handshake_coordinator option"
  nb_context_compressor :: "compressor option"
  nb_economic_router :: "economic_router option"
  nb_heartbeat_monitor :: "heartbeat_monitor option"
  nb_circuit_breaker :: "circuit_breaker option"
  nb_checkpoint_store :: "checkpoint_store option"
  nb_poison_detector :: "poison_detector option"
  nb_load_tracker :: "load_tracker option"

definition node_builder_new :: node_builder where
  "node_builder_new =
     \<lparr>nb_config = default_atp_config, nb_agent_id = None, nb_identity_store = None,
      nb_capability_registry = None, nb_handshake_coordinator = None, nb_context_compressor = None,
      nb_economic_router = None, nb_heartbeat_monitor = None, nb_circuit_breaker = None,
      nb_checkpoint_store = None, nb_poison_detector = None, nb_load_tracker = None\<rparr>"

definition with_config :: "atp_config \<Rightarrow> node_builder \<Rightarrow> node_builder" where
  "with_config cfg b = b\<lparr>nb_config := cfg\<rparr>"

definition with_agent_id :: "agent_id \<Rightarrow> node_builder \<Rightarrow> node_builder" where
  "with_agent_id a b = b\<lparr>nb_agent_id := Some a\<rparr>"

definition with_identity_store :: "identity_store \<Rightarrow> node_builder \<Rightarrow> node_builder" where
  "with_identity_store x b = b\<lparr>nb_identity_store := Some x\<rparr>"

definition with_capability_registry :: "capability_registry \<Rightarrow> node_builder \<Rightarrow> node_builder" where
  "with_capability_registry x b = b\<lparr>nb_capability_registry := Some x\<rparr>"

definition with_handshake_coordinator :: "handshake_coordinator \<Rightarrow> node_builder \<Rightarrow> node_builder" where
  "with_handshake_coordinator x b = b\<lparr>nb_handshake_coordinator := Some x\<rparr>"

definition with_context_compressor :: "compressor \<Rightarrow> node_builder \<Rightarrow> node_builder" where
  "with_context_compressor x b = b\<lparr>nb_context_compressor := Some x\<rparr>"

definition with_economic_router :: "economic_router \<Rightarrow> node_builder \<Rightarrow> node_builder" where
  "with_economic_router x b = b\<lparr>nb_economic_router := Some x\<rparr>"

definition with_heartbeat_monitor :: "heartbeat_monitor \<Rightarrow> node_builder \<Rightarrow> node_builder" where
  "with_heartbeat_monitor x b = b\<lparr>nb_heartbeat_monitor := Some x\<rparr>"

definition with_circuit_breaker :: "circuit_breaker \<Rightarrow> node_builder \<Rightarrow> node_builder" where
  "with_circuit_breaker x b = b\<lparr>nb_circuit_breaker := Some x\<rparr>"

definition with_checkpoint_store :: "checkpoint_store \<Rightarrow> node_builder \<Rightarrow> node_builder" where
  "with_checkpoint_store x b = b\<lparr>nb_checkpoint_store := Some x\<rparr>"

definition with_poison_detector :: "poison_detector \<Rightarrow> node_builder \<Rightarrow> node_builder" where
  "with_poison_detector x b = b\<lparr>nb_poison_detector := Some x\<rparr>"

definition with_load_tracker :: "load_tracker \<Rightarrow> node_builder \<Rightarrow> node_builder" where
  "with_load_tracker x b = b\<lparr>nb_load_tracker := Some x\<rparr>"

definition or_default :: "'a \<Rightarrow> 'a option \<Rightarrow> 'a" where
  "or_default d v = (case v of Some x \<Rightarrow> x | None \<Rightarrow> d)"

lemma or_default_simps [simp]: "or_default d None = d" "or_default d (Some x) = x"
  by (simp_all add: or_default_def)

definition configured_identity_store :: "identity_config \<Rightarrow> identity_store" where
  "configured_identity_store cfg =
     (let te = trust_engine_new (trust_decay_rate cfg) (to_f64 (5 / 10));
          sg = sybil_guard_new (sybil_dampening cfg) 5
            (trust_engine_new (trust_decay_rate cfg) (to_f64 (5 / 10)))
      in identity_store_with_engines te sg)"

text \<open>\<open>fresh\<close> is the random identifier of \<open>AgentId::default\<close>.\<close>

definition node_build :: "agent_id \<Rightarrow> node_builder \<Rightarrow> (atp_error + atp_node) option" where
  "node_build fresh b = do {
     let cfg = nb_config b;
     let a = or_default fresh (nb_agent_id b);
     breaker \<leftarrow> (case nb_circuit_breaker b of
         Some x \<Rightarrow> Some x
       | None \<Rightarrow> do { cooldown \<leftarrow> node_cooldown cfg; Some (circuit_breaker_new (cfg_fault cfg) cooldown) });
     Some (Inr (node_from_components a cfg
       \<lparr>ly_identity = or_default (configured_identity_store (cfg_identity cfg)) (nb_identity_store b),
        ly_registry = or_default registry_new (nb_capability_registry b),
        ly_heartbeat = or_default (heartbeat_monitor_new (cfg_fault cfg)) (nb_heartbeat_monitor b),
        ly_breaker = breaker,
        ly_checkpoints = or_default checkpoint_store_new (nb_checkpoint_store b),
        ly_poison = or_default (poison_detector_new (cfg_fault cfg)) (nb_poison_detector b),
        ly_load = or_default (load_tracker_new (cfg_fault cfg)) (nb_load_tracker b)\<rparr>
       (or_default (coordinator_new a (cfg_handshake cfg)) (nb_handshake_coordinator b))
       (or_default (compressor_with_config (node_msc_config cfg)) (nb_context_compressor b))
       (or_default (router_with_config graph_new default_cost_model (cfg_routing cfg))
         (nb_economic_router b))))
   }"

section \<open>Agents\<close>

definition map_layers :: "(layers \<Rightarrow> layers) \<Rightarrow> atp_node \<Rightarrow> atp_node" where
  "map_layers f nd = nd\<lparr>nd_layers := f (nd_layers nd)\<rparr>"

definition register_capability :: "capability \<Rightarrow> f64 \<Rightarrow> atp_node \<Rightarrow> atp_node" where
  "register_capability cap trust nd =
     map_layers (\<lambda>ls. ls\<lparr>ly_registry := registry_register (ly_registry ls) (nd_agent_id nd) cap trust\<rparr>) nd"

fun connect_existing ::
  "agent_id \<Rightarrow> agent_id list \<Rightarrow> economic_router \<Rightarrow> economic_router option" where
  "connect_existing a [] er = Some er"
| "connect_existing a (b # bs) er =
     (if b \<noteq> a
      then Option.bind (router_connect er a b (from_millis 5)) (connect_existing a bs)
      else connect_existing a bs er)"

text \<open>\<open>ks\<close> is the order in which the identity store lists its agents.\<close>

definition register_agent ::
  "libm \<Rightarrow> datetime \<Rightarrow> agent_id list \<Rightarrow> agent_identity \<Rightarrow> atp_node \<Rightarrow>
     ((atp_error + unit) \<times> atp_node) option"
where
  "register_agent lm now ks identity nd =
     (let a = ident_id identity;
          capabilities = ident_capabilities identity;
          (store, res) = register_identity (ly_identity (nd_layers nd)) identity;
          nd = map_layers (\<lambda>ls. ls\<lparr>ly_identity := store\<rparr>) nd
      in case res of
           Inl e \<Rightarrow> Some (Inl (IdentityErr e), nd)
         | Inr _ \<Rightarrow> do {
             let trust = store_aggregate_trust lm store a now;
             let nd = map_layers (\<lambda>ls. ls\<lparr>ly_registry :=
               fold (\<lambda>cap r. registry_register r a cap trust) capabilities (ly_registry ls)\<rparr>) nd;
             (er, _) \<leftarrow> router_add_agent (nd_router nd) a capabilities trust;
             er \<leftarrow> connect_existing a (list_agents store ks) er;
             Some (Inr (), nd\<lparr>nd_router := er\<rparr>)
           })"

section \<open>Tasks\<close>

text \<open>What one run of a task depends on besides the node.\<close>

record task_run =
  tr_chrono :: chrono
  tr_libm :: libm
  tr_vectors :: vector_env
  tr_task_id :: uuid
  tr_handshake :: handshake_env
  tr_allow_clock :: clock
  tr_order :: table_order
  tr_stamp :: stamp
  tr_success_clock :: clock
  tr_now :: clock
  tr_elapsed :: duration

definition empty_context :: context_diff where
  "empty_context = \<lparr>diff_base_hash = replicate 32 0, diff_chunks = [], diff_confidence = 1,
     diff_original_size = 0, diff_compressed_size = 0\<rparr>"

definition task_context ::
  "task_run \<Rightarrow> atp_node \<Rightarrow> task_type \<Rightarrow> u8 list \<Rightarrow> (context_error + context_diff) option" where
  "task_context run nd t payload =
     (if payload \<noteq> [] then compress_for_task (tr_vectors run) (nd_compressor nd) payload t payload
      else Some (Inr empty_context))"

text \<open>Steps 6 to 9: the checkpoint, the simulated result, and what is recorded of it.\<close>

definition finish_task ::
  "task_run \<Rightarrow> atp_node \<Rightarrow> agent_id \<Rightarrow> task_type \<Rightarrow> u8 list \<Rightarrow> task_result_msg \<times> atp_node" where
  "finish_task run nd contracted t payload =
     (let ls = nd_layers nd;
          task_id = tr_task_id run;
          (_, checkpoints) = create_checkpoint (tr_now run 0) (ly_checkpoints ls) task_id payload
            (nd_agent_id nd) 1;
          (quality, cost) = (case get_capability (ly_registry ls) contracted t of
              Some entry \<Rightarrow> (cap_estimated_quality (re_capability entry),
                cap_cost_per_task (re_capability entry))
            | None \<Rightarrow> (to_f64 (8 / 10), to_f64 (5 / 10)));
          elapsed = tr_elapsed run;
          result = \<lparr>result_from = contracted, result_task_id = task_id,
            result_quality_self_report = quality, result_payload = payload,
            result_elapsed = elapsed, result_actual_cost = cost\<rparr>;
          breaker = breaker_record_success (tr_success_clock run) (ly_breaker ls) contracted;
          (_, checkpoints) = checkpoint_remove checkpoints task_id;
          record = \<lparr>ir_evaluator = nd_agent_id nd, ir_subject = contracted, ir_task_type = t,
            ir_quality_score = quality, ir_latency_ms = as_millis_u64 elapsed, ir_cost = cost,
            ir_timestamp = tr_now run 1, ir_signature = []\<rparr>;
          store = add_interaction (ly_identity ls) record;
          new_trust = store_aggregate_trust (tr_libm run) store contracted (tr_now run 2);
          registry = registry_update_trust (ly_registry ls) contracted t new_trust
      in (result, nd\<lparr>nd_layers := ls\<lparr>ly_checkpoints := checkpoints, ly_breaker := breaker,
            ly_identity := store, ly_registry := registry\<rparr>\<rparr>))"

definition execute_task ::
  "task_run \<Rightarrow> atp_node \<Rightarrow> task_type \<Rightarrow> u8 list \<Rightarrow> qos_constraints \<Rightarrow>
     ((atp_error + task_result_msg) \<times> atp_node) option"
where
  "execute_task run nd t payload q =
     (let ls = nd_layers nd; task_id = tr_task_id run
      in if is_poisoned (ly_poison ls) task_id then Some (Inl (FaultErr (PoisonTask task_id)), nd)
         else do {
           let coordinator = coordinator_new (nd_agent_id nd) (cfg_handshake (nd_config nd));
           (outcome, _) \<leftarrow>
             negotiate (tr_chrono run) (tr_handshake run) coordinator t q (ly_registry ls);
           case outcome of
             Inl e \<Rightarrow> Some (Inl (HandshakeErr e), nd)
           | Inr out \<Rightarrow>
               (let contracted = contract_to (ho_contract out);
                    (allowed, breaker) = allow_request (tr_chrono run) (tr_allow_clock run)
                      (ly_breaker ls) contracted;
                    nd = map_layers (\<lambda>ls. ls\<lparr>ly_breaker := breaker\<rparr>) nd
                in case allowed of
                     Inl e \<Rightarrow> Some (Inl (FaultErr e), nd)
                   | Inr _ \<Rightarrow> do {
                       context \<leftarrow> task_context run nd t payload;
                       case context of
                         Inl e \<Rightarrow> Some (Inl (ContextErr e), nd)
                       | Inr _ \<Rightarrow> do {
                           _ \<leftarrow> find_route (nd_router nd) (tr_order run) t q None (tr_stamp run);
                           let (result, nd) = finish_task run nd contracted t payload;
                           Some (Inr result, nd)
                         }
                     })
         })"

section \<open>Messages and queries\<close>

definition handle_message ::
  "chrono \<Rightarrow> clock \<Rightarrow> atp_message \<Rightarrow> atp_node \<Rightarrow> reply \<times> atp_node" where
  "handle_message c clk msg nd =
     (let (r, ls) = dispatch c clk (nd_dispatcher nd) msg (nd_layers nd)
      in (r, nd\<lparr>nd_layers := ls\<rparr>))"

definition process_message ::
  "chrono \<Rightarrow> clock \<Rightarrow> atp_message \<Rightarrow> atp_node \<Rightarrow> reply \<times> atp_node" where
  "process_message c clk msg nd = handle_message c clk msg nd"

definition node_trust_score :: "libm \<Rightarrow> datetime \<Rightarrow> atp_node \<Rightarrow> agent_id \<Rightarrow> task_type \<Rightarrow> f64" where
  "node_trust_score lm now nd a t =
     ts_score (store_trust_score lm (ly_identity (nd_layers nd)) a t now)"

definition generate_heartbeat :: "atp_node \<Rightarrow> u64 \<Rightarrow> u32 \<Rightarrow> f64 \<Rightarrow> atp_message" where
  "generate_heartbeat nd sequence queue_depth load =
     Heartbeat \<lparr>hb_from = nd_agent_id nd, hb_sequence = sequence, hb_queue_depth = queue_depth,
       hb_load_factor = load\<rparr>"

definition agent_health :: "atp_node \<Rightarrow> agent_id \<Rightarrow> fault_error + heartbeat_status" where
  "agent_health nd a = heartbeat_status_of (ly_heartbeat (nd_layers nd)) a"

definition node_alive_agents :: "agent_id list \<Rightarrow> atp_node \<Rightarrow> agent_id list" where
  "node_alive_agents ks nd = alive_agents ks (ly_heartbeat (nd_layers nd))"

definition node_open_circuits :: "agent_id list \<Rightarrow> atp_node \<Rightarrow> agent_id list" where
  "node_open_circuits ks nd = open_circuits ks (ly_breaker (nd_layers nd))"

definition record_task_failure ::
  "chrono \<Rightarrow> clock \<Rightarrow> datetime \<Rightarrow> uuid \<Rightarrow> agent_id \<Rightarrow> atp_node \<Rightarrow> (poison_status \<times> atp_node) option"
where
  "record_task_failure c clk now task_id a nd = do {
     let ls = nd_layers nd;
     let breaker = breaker_record_failure clk (ly_breaker ls) a;
     (status, poison) \<leftarrow> poison_record_failure c now (ly_poison ls) task_id a;
     Some (status, nd\<lparr>nd_layers := ls\<lparr>ly_breaker := breaker, ly_poison := poison\<rparr>\<rparr>)
   }"

section \<open>Construction, two ways\<close>

lemma configured_default: "configured_identity_store default_identity_config = identity_store_new"
proof -
  have "clamp DEFAULT_ALPHA 0 1 = DEFAULT_ALPHA"
    unfolding DEFAULT_ALPHA_def by (intro clamp_id to_f64_unit) simp_all
  then show ?thesis
    by (simp add: configured_identity_store_def identity_store_new_def identity_store_with_engines_def
        trust_engine_new_def sybil_guard_new_def default_trust_engine_def default_sybil_guard_def
        default_identity_config_def DEFAULT_LAMBDA_def DEFAULT_PRIOR_def DEFAULT_ALPHA_def
        MAX_CHAIN_DEPTH_def)
qed

text \<open>
  The builder, given only a configuration and an identifier, makes the node that \<open>AtpNode::new\<close>
  makes, except for the identity store: only the builder uses the identity part of the
  configuration. For the default configuration the two agree. Either panics exactly when the
  breaker's cooldown overflows.
\<close>

lemma builder_matches_new:
  "node_build fresh (with_agent_id a (with_config cfg node_builder_new)) =
     map_option (\<lambda>nd. Inr (map_layers (\<lambda>ls. ls\<lparr>ly_identity :=
       configured_identity_store (cfg_identity cfg)\<rparr>) nd)) (node_new a cfg)
   \<and> configured_identity_store default_identity_config = identity_store_new
   \<and> (node_new a cfg = None \<longleftrightarrow> node_cooldown cfg = None)"
  by (cases "node_cooldown cfg")
    (simp_all add: node_build_def node_new_def with_agent_id_def with_config_def node_builder_new_def
      node_from_components_def map_layers_def configured_default Let_def)

section \<open>What a task changes\<close>

lemma execute_task_cases:
  assumes "execute_task run nd t payload q = Some (res, nd')"
  obtains (poisoned) "is_poisoned (ly_poison (nd_layers nd)) (tr_task_id run)"
      "res = Inl (FaultErr (PoisonTask (tr_task_id run)))" "nd' = nd"
  | (handshake) e hc where "negotiate (tr_chrono run) (tr_handshake run)
        (coordinator_new (nd_agent_id nd) (cfg_handshake (nd_config nd))) t q
        (ly_registry (nd_layers nd)) = Some (Inl e, hc)"
      "res = Inl (HandshakeErr e)" "nd' = nd"
  | (blocked) out hc e breaker where "negotiate (tr_chrono run) (tr_handshake run)
        (coordinator_new (nd_agent_id nd) (cfg_handshake (nd_config nd))) t q
        (ly_registry (nd_layers nd)) = Some (Inr out, hc)"
      "allow_request (tr_chrono run) (tr_allow_clock run) (ly_breaker (nd_layers nd))
        (contract_to (ho_contract out)) = (Inl e, breaker)"
      "res = Inl (FaultErr e)" "nd' = map_layers (\<lambda>ls. ls\<lparr>ly_breaker := breaker\<rparr>) nd"
  | (no_context) out hc e breaker where "negotiate (tr_chrono run) (tr_handshake run)
        (coordinator_new (nd_agent_id nd) (cfg_handshake (nd_config nd))) t q
        (ly_registry (nd_layers nd)) = Some (Inr out, hc)"
      "allow_request (tr_chrono run) (tr_allow_clock run) (ly_breaker (nd_layers nd))
        (contract_to (ho_contract out)) = (Inr (), breaker)"
      "res = Inl (ContextErr e)"
      "nd' = map_layers (\<lambda>ls. ls\<lparr>ly_breaker := breaker\<rparr>) nd"
  | (finished) out hc breaker where "\<not> is_poisoned (ly_poison (nd_layers nd)) (tr_task_id run)"
      "negotiate (tr_chrono run) (tr_handshake run)
        (coordinator_new (nd_agent_id nd) (cfg_handshake (nd_config nd))) t q
        (ly_registry (nd_layers nd)) = Some (Inr out, hc)"
      "allow_request (tr_chrono run) (tr_allow_clock run) (ly_breaker (nd_layers nd))
        (contract_to (ho_contract out)) = (Inr (), breaker)"
      "res = Inr (fst (finish_task run (map_layers (\<lambda>ls. ls\<lparr>ly_breaker := breaker\<rparr>) nd)
        (contract_to (ho_contract out)) t payload))"
      "nd' = snd (finish_task run (map_layers (\<lambda>ls. ls\<lparr>ly_breaker := breaker\<rparr>) nd)
        (contract_to (ho_contract out)) t payload)"
proof (cases "is_poisoned (ly_poison (nd_layers nd)) (tr_task_id run)")
  case True
  then show ?thesis using assms by (intro poisoned) (simp_all add: execute_task_def)
next
  case False
  let ?neg = "negotiate (tr_chrono run) (tr_handshake run)
    (coordinator_new (nd_agent_id nd) (cfg_handshake (nd_config nd))) t q (ly_registry (nd_layers nd))"
  obtain r hc where neg: "?neg = Some (r, hc)"
    using assms False by (cases ?neg) (auto simp: execute_task_def)
  show ?thesis
  proof (cases r)
    case (Inl e)
    then show ?thesis
      using assms False neg by (intro handshake [of e hc]) (simp_all add: execute_task_def)
  next
    case (Inr out)
    let ?a = "contract_to (ho_contract out)"
    obtain v breaker where al: "allow_request (tr_chrono run) (tr_allow_clock run)
        (ly_breaker (nd_layers nd)) ?a = (v, breaker)"
      by (cases "allow_request (tr_chrono run) (tr_allow_clock run) (ly_breaker (nd_layers nd)) ?a")
    let ?nd = "map_layers (\<lambda>ls. ls\<lparr>ly_breaker := breaker\<rparr>) nd"
    show ?thesis
    proof (cases v)
      case (Inl e)
      then show ?thesis
        using assms False neg \<open>r = Inr out\<close> al
        by (intro blocked [of out hc e breaker]) (simp_all add: execute_task_def)
    next
      case (Inr u)
      note step = assms False neg \<open>r = Inr out\<close> al Inr
      obtain ctx where ctx: "task_context run ?nd t payload = Some ctx"
        using step by (cases "task_context run ?nd t payload") (simp_all add: execute_task_def)
      show ?thesis
      proof (cases ctx)
        case (Inl e)
        then show ?thesis
          using step ctx by (intro no_context [of out hc breaker e]) (simp_all add: execute_task_def)
      next
        case (Inr d)
        obtain rt where "find_route (nd_router ?nd) (tr_order run) t q None (tr_stamp run) = Some rt"
          using step ctx Inr
          by (cases "find_route (nd_router ?nd) (tr_order run) t q None (tr_stamp run)")
            (simp_all add: execute_task_def)
        then show ?thesis
          using step ctx Inr by (intro finished [of out hc breaker])
            (simp_all add: execute_task_def split_beta Let_def)
      qed
    qed
  qed
qed

lemma map_layers_simps [simp]:
  "nd_layers (map_layers f nd) = f (nd_layers nd)" "nd_router (map_layers f nd) = nd_router nd"
  "nd_agent_id (map_layers f nd) = nd_agent_id nd" "nd_config (map_layers f nd) = nd_config nd"
  "nd_compressor (map_layers f nd) = nd_compressor nd"
  by (simp_all add: map_layers_def)

lemma task_context_total:
  assumes "env_sound (tr_vectors run)" "0 < msc_chunk_size (comp_config (nd_compressor nd))"
  shows "\<exists>d. task_context run nd t payload = Some (Inr d)"
proof (cases "payload = []")
  case True
  then show ?thesis by (simp add: task_context_def)
next
  case False
  let ?cfg = "comp_config (nd_compressor nd)"
  obtain e where e: "embed_task (tr_vectors run) t payload (msc_dimensions ?cfg) = Some e"
    "emb_dimensions e = msc_dimensions ?cfg" "length (emb_values e) = msc_dimensions ?cfg"
    using embed_total [OF assms(1)] unfolding embed_task_def by blast
  have "consistent e" using e by (simp add: consistent_def)
  moreover have "split_into_chunks payload (msc_chunk_size ?cfg) \<noteq> []"
    using False assms(2) by (simp add: split_empty)
  ultimately obtain r where "extract_msc (tr_vectors run) payload e ?cfg = Some (Inr r)"
    using extract_msc_total [OF assms(1) _ e(2)] by blast
  then show ?thesis
    using False e(1) by (simp add: task_context_def compress_for_task_def compress_def)
qed

lemma allow_request_frame:
  "b \<noteq> a \<Longrightarrow> brk_breakers (snd (allow_request c clk cb a)) b = brk_breakers cb b"
  by (auto simp: allow_request_def put_breaker_def Let_def split: circuit_state.splits)

lemma allow_request_counts:
  "failure_count (snd (allow_request c clk cb a)) b = failure_count cb b"
  by (auto simp: allow_request_def put_breaker_def breaker_entry_def breaker_new_def
      failure_count_def Let_def split: circuit_state.splits option.splits)

text \<open>
  What the breaker is after a request for agent \<open>a\<close>: the entries of the other agents, the
  configuration and every failure count are what they were, and the circuit of \<open>a\<close> can only have
  gone from open to half-open.
\<close>

definition only_asked :: "agent_id \<Rightarrow> circuit_breaker \<Rightarrow> circuit_breaker \<Rightarrow> bool" where
  "only_asked a cb cb' \<longleftrightarrow>
     brk_config cb' = brk_config cb \<and> brk_cooldown cb' = brk_cooldown cb
   \<and> (\<forall>b. b \<noteq> a \<longrightarrow> brk_breakers cb' b = brk_breakers cb b)
   \<and> failure_count cb' = failure_count cb
   \<and> (circuit_state_of cb' a = circuit_state_of cb a
      \<or> circuit_state_of cb a = Open \<and> circuit_state_of cb' a = HalfOpen)"

lemma allow_only_asked: "only_asked a cb (snd (allow_request c clk cb a))"
  unfolding only_asked_def
  by (simp add: allow_request_frame allow_request_counts frame_simps fun_eq_iff)
    (auto simp: allow_request_def put_breaker_def breaker_entry_def breaker_new_def
      circuit_state_of_def Let_def split: circuit_state.splits option.splits)

text \<open>
  C40. A task that fails leaves no record, no trust, no checkpoint and no poison entry: either the
  node is as it was, or the negotiation contracted some agent \<open>a\<close> and the node differs in the
  breaker only, which has been asked about \<open>a\<close>. There the entries of all other agents and every
  failure count are unchanged, and the circuit of \<open>a\<close> is as it was or has gone from open to
  half-open. In particular neither the poison detector nor the breaker learns of the failure.
\<close>

theorem failed_task_leaves_no_trace:
  assumes "execute_task run nd t payload q = Some (Inl e, nd')"
  shows "nd' = nd
    \<or> (\<exists>out hc breaker. negotiate (tr_chrono run) (tr_handshake run)
          (coordinator_new (nd_agent_id nd) (cfg_handshake (nd_config nd))) t q
          (ly_registry (nd_layers nd)) = Some (Inr out, hc)
        \<and> nd' = map_layers (\<lambda>ls. ls\<lparr>ly_breaker := breaker\<rparr>) nd
        \<and> only_asked (contract_to (ho_contract out)) (ly_breaker (nd_layers nd)) breaker)"
  using assms
proof (cases rule: execute_task_cases)
  case (blocked out hc e' breaker)
  then show ?thesis by (metis allow_only_asked snd_conv)
next
  case (no_context out hc e' breaker)
  then show ?thesis by (metis allow_only_asked snd_conv)
qed auto

text \<open>A node with a directory of agents, and a run in which time stands still.\<close>

definition sample_node :: atp_node where
  "sample_node =
     \<lparr>nd_agent_id = AgentId 9, nd_config = default_atp_config,
      nd_layers = fresh_layers\<lparr>ly_registry := registry_example\<rparr>,
      nd_coordinator = coordinator_with_defaults (AgentId 9),
      nd_compressor = compressor_with_config sample_config, nd_router = router_new graph_new,
      nd_dispatcher = dispatcher_new (AgentId 9)\<rparr>"

definition sample_run :: task_run where
  "sample_run =
     \<lparr>tr_chrono = chrono_limits, tr_libm = flat_libm, tr_vectors = toy_env, tr_task_id = 7,
      tr_handshake = still_env, tr_allow_clock = (\<lambda>_. 0), tr_order = (\<lambda>_ _. []), tr_stamp = (3, 0),
      tr_success_clock = (\<lambda>_. 0), tr_now = (\<lambda>_. 0), tr_elapsed = from_secs 1\<rparr>"

text \<open>The same node with the circuit of every agent open.\<close>

definition blocked_node :: atp_node where
  "blocked_node = map_layers (\<lambda>ls. ls\<lparr>ly_breaker := (ly_breaker ls)\<lparr>brk_breakers :=
     (\<lambda>_. Some ((breaker_new 0)\<lparr>bs_state := Open\<rparr>))\<rparr>\<rparr>) sample_node"

lemma sample_layers:
  "ly_registry (nd_layers sample_node) = registry_example"
  "cfg_handshake (nd_config sample_node) = default_handshake_config"
  "tr_chrono sample_run = chrono_limits" "tr_handshake sample_run = still_env"
  "tr_vectors sample_run = toy_env"
  by (simp_all add: sample_node_def sample_run_def default_atp_config_def)

lemma sample_not_poisoned: "\<not> is_poisoned (ly_poison (nd_layers sample_node)) task"
  by (simp add: sample_node_def fresh_layers_def is_poisoned_def poison_detector_with_defaults_def
      poison_detector_new_def)

lemma sample_attempts: "(0 :: nat) < unat (max_attempts default_handshake_config)"
  by (simp add: max_attempts_def default_handshake_config_def)

lemma sample_negotiates:
  "\<exists>out hc. negotiate chrono_limits still_env (coordinator_new a default_handshake_config)
     Analysis example_qos registry_example = Some (Inr out, hc)"
proof -
  have "hc_contract_duration (coordinator_new a default_handshake_config) = from_secs 60"
    "hsm_state (hc_machine (coordinator_new a default_handshake_config)) = Idle"
    "hc_config (coordinator_new a default_handshake_config) = default_handshake_config"
    by (simp_all add: coordinator_new_def handshake_machine_new_def)
  then show ?thesis
    using negotiation_succeeds [OF registry_example_inv, of chrono_limits still_env
        "coordinator_new a default_handshake_config" 0 Analysis example_qos example_qos]
      still_env_fresh example_first_match sample_attempts by auto
qed

lemma blocked_fails:
  "\<exists>a nd'. execute_task sample_run blocked_node Analysis [1] example_qos =
     Some (Inl (FaultErr (CircuitOpen a)), nd')"
proof -
  have cb: "brk_breakers (ly_breaker (nd_layers blocked_node)) a = Some ((breaker_new 0)\<lparr>bs_state := Open\<rparr>)"
    "brk_cooldown (ly_breaker (nd_layers blocked_node)) = from_secs 30" for a
    by (simp_all add: blocked_node_def sample_node_def fresh_layers_def
        circuit_breaker_with_defaults_def circuit_breaker_new_def)
  have "from_std_or_secs chrono_limits 30 (from_secs 30) = 30000000000"
    by (simp add: from_std_or_secs_def chrono_limits_def from_secs_def NANOS_PER_SEC_def TD_MAX_def)
  then have al: "fst (allow_request chrono_limits (\<lambda>_. 0) (ly_breaker (nd_layers blocked_node)) a) =
      Inl (CircuitOpen a)" for a
    by (simp add: allow_request_def breaker_entry_def breaker_new_def cb)
  obtain out hc where n: "negotiate chrono_limits still_env
      (coordinator_new (nd_agent_id sample_node) default_handshake_config) Analysis example_qos
      registry_example = Some (Inr out, hc)"
    using sample_negotiates by blast
  have l: "ly_registry (nd_layers blocked_node) = registry_example"
    "nd_agent_id blocked_node = nd_agent_id sample_node"
    "cfg_handshake (nd_config blocked_node) = default_handshake_config"
    "tr_allow_clock sample_run = (\<lambda>_. 0)"
    "\<not> is_poisoned (ly_poison (nd_layers blocked_node)) task" for task
    using sample_layers sample_not_poisoned by (simp_all add: blocked_node_def sample_run_def)
  obtain cb' where "allow_request chrono_limits (\<lambda>_. 0) (ly_breaker (nd_layers blocked_node))
      (contract_to (ho_contract out)) = (Inl (CircuitOpen (contract_to (ho_contract out))), cb')"
    using al [of "contract_to (ho_contract out)"] by (metis eq_fst_iff)
  then show ?thesis
    using n by (simp add: execute_task_def l sample_layers)
qed

theorem failed_task_leaves_no_trace_witness:
  "\<exists>a e nd'. execute_task sample_run blocked_node Analysis [1] example_qos =
       Some (Inl (FaultErr e), nd')
     \<and> (nd' = blocked_node \<or> only_asked a (ly_breaker (nd_layers blocked_node))
          (ly_breaker (nd_layers nd')))"
proof -
  obtain a nd' where r: "execute_task sample_run blocked_node Analysis [1] example_qos =
      Some (Inl (FaultErr (CircuitOpen a)), nd')"
    using blocked_fails by blast
  from failed_task_leaves_no_trace [OF r] show ?thesis
    using r by (auto simp: map_layers_def)
qed

lemma get_capability_registered:
  "registered reg (a, t) = Some (cap, trust) \<Longrightarrow>
     \<exists>e. get_capability reg a t = Some e \<and> re_capability e = cap"
  by (auto simp: registered_def get_capability_def task_entries_def split: option.splits)

lemma allow_when_not_open:
  assumes "circuit_state_of cb a \<noteq> Open"
  shows "\<exists>cb'. allow_request c clk cb a = (Inr (), cb')"
proof -
  have "bs_state (breaker_entry now cb a) \<noteq> Open" for now
    using assms by (auto simp: circuit_state_of_def breaker_entry_def breaker_new_def split: option.splits)
  then show ?thesis
    unfolding allow_request_def Let_def by (cases "bs_state (breaker_entry (clk 0) cb a)") auto
qed

definition task_record ::
  "task_run \<Rightarrow> atp_node \<Rightarrow> agent_id \<Rightarrow> task_type \<Rightarrow> capability \<Rightarrow> interaction_record" where
  "task_record run nd a t cap =
     \<lparr>ir_evaluator = nd_agent_id nd, ir_subject = a, ir_task_type = t,
      ir_quality_score = cap_estimated_quality cap, ir_latency_ms = as_millis_u64 (tr_elapsed run),
      ir_cost = cap_cost_per_task cap, ir_timestamp = tr_now run 1, ir_signature = []\<rparr>"

text \<open>What a finished task by agent \<open>a\<close> with the registered capability \<open>cap\<close> leaves behind.\<close>

definition task_done ::
  "task_run \<Rightarrow> atp_node \<Rightarrow> task_type \<Rightarrow> u8 list \<Rightarrow> agent_id \<Rightarrow> capability \<Rightarrow> task_result_msg \<Rightarrow> atp_node \<Rightarrow> bool"
where
  "task_done run nd t payload a cap res nd' \<longleftrightarrow>
     (let ls = nd_layers nd; ls' = nd_layers nd'
      in res = \<lparr>result_from = a, result_task_id = tr_task_id run,
           result_quality_self_report = cap_estimated_quality cap, result_payload = payload,
           result_elapsed = tr_elapsed run, result_actual_cost = cap_cost_per_task cap\<rparr>
         \<and> get_interactions (ly_identity ls') = (get_interactions (ly_identity ls))
             (a := get_interactions (ly_identity ls) a @ [task_record run nd a t cap])
         \<and> is_identities (ly_identity ls') = is_identities (ly_identity ls)
         \<and> registered (ly_registry ls') = (registered (ly_registry ls))((a, t) \<mapsto>
             (cap, clamp (store_aggregate_trust (tr_libm run) (ly_identity ls') a (tr_now run 2)) 0 1))
         \<and> cs_store (ly_checkpoints ls') (tr_task_id run) = None
         \<and> ly_poison ls' = ly_poison ls \<and> nd_router nd' = nd_router nd)"

lemma finish_task_done:
  assumes "registered (ly_registry (nd_layers nd)) (a, t) = Some (cap, trust)"
  shows "task_done run nd t payload a cap (fst (finish_task run nd a t payload))
    (snd (finish_task run nd a t payload))"
proof -
  obtain e where e: "get_capability (ly_registry (nd_layers nd)) a t = Some e" "re_capability e = cap"
    using get_capability_registered [OF assms] by blast
  have upd: "registered (registry_update_trust (ly_registry (nd_layers nd)) a t x) =
      (registered (ly_registry (nd_layers nd)))((a, t) \<mapsto> (cap, clamp x 0 1))" for x
    using registered_run [of _ "UpdateTrust a t x"] assms by simp
  have ints: "get_interactions (add_interaction st r) = (get_interactions st)
      (ir_subject r := get_interactions st (ir_subject r) @ [r])"
    "is_identities (add_interaction st r) = is_identities st" for st r
    by (auto simp: get_interactions_def add_interaction_def Let_def fun_eq_iff split: option.split)
  show ?thesis
    using ints [of _ "task_record run nd a t cap"] unfolding task_done_def Let_def
    by (simp add: finish_task_def Let_def e upd split_beta task_record_def checkpoint_remove_def
        remove_store_def remove_history_def create_checkpoint_def)
qed

text \<open>
  C4. The whole protocol succeeds when it can. Suppose the registry is well formed, and some
  registered agent meets the constraints after \<open>k\<close> relaxations and none after fewer, where \<open>k\<close> is
  below the configured number of attempts; the clock stays in range and no offer expires before it is
  used (\<open>env_fresh\<close>); the digests have 32 bytes (\<open>env_sound\<close>) and the chunk size is positive; the task
  is not poisoned, no circuit is open and the route search does not panic. Then the task is carried
  out by a registered agent that meets the constraints relaxed \<open>k\<close> times. The result repeats the
  agent's advertised quality and cost; one record about that agent is added to the interactions and
  no other agent's records change; the agent's registered trust for the task type becomes the trust
  recomputed with that record, and no other registration changes; the identities, the poison
  detector and the routing graph are not touched, and no checkpoint of the task is left.
\<close>

theorem execute_task_succeeds:
  assumes "registry_inv (ly_registry (nd_layers nd))"
    and "env_fresh (tr_chrono run) (tr_handshake run) (from_secs 60)"
    and "k < unat (max_attempts (cfg_handshake (nd_config nd)))"
    and "first_match (ly_registry (nd_layers nd)) t
      (relaxation_factor (cfg_handshake (nd_config nd))) q k qk"
    and "\<not> is_poisoned (ly_poison (nd_layers nd)) (tr_task_id run)"
    and "\<forall>a. circuit_state_of (ly_breaker (nd_layers nd)) a \<noteq> Open"
    and "env_sound (tr_vectors run)" and "0 < msc_chunk_size (comp_config (nd_compressor nd))"
    and "find_route (nd_router nd) (tr_order run) t q None (tr_stamp run) \<noteq> None"
  shows "\<exists>res nd' a cap trust. execute_task run nd t payload q = Some (Inr res, nd')
    \<and> registered (ly_registry (nd_layers nd)) (a, t) = Some (cap, trust)
    \<and> capability_matches_probe cap trust qk \<and> task_done run nd t payload a cap res nd'"
proof -
  let ?hc = "coordinator_new (nd_agent_id nd) (cfg_handshake (nd_config nd))"
  have hc: "hc_contract_duration ?hc = from_secs 60" "hsm_state (hc_machine ?hc) = Idle"
    "hc_config ?hc = cfg_handshake (nd_config nd)"
    by (simp_all add: coordinator_new_def handshake_machine_new_def)
  obtain out hc' where neg: "negotiate (tr_chrono run) (tr_handshake run) ?hc t q
      (ly_registry (nd_layers nd)) = Some (Inr out, hc')"
    and ok: "outcome_ok (ly_registry (nd_layers nd)) t qk (Suc k) (hc_machine hc') out"
    using negotiation_succeeds [OF assms(1), of "tr_chrono run" "tr_handshake run" ?hc k t q qk]
      assms(2-4) unfolding hc by blast
  let ?a = "contract_to (ho_contract out)" and ?ofr = "ro_offer (ho_selected_offer out)"
  have reg: "registered (ly_registry (nd_layers nd)) (?a, t) =
      Some (offer_capability ?ofr, offer_trust_score ?ofr)"
    "capability_matches_probe (offer_capability ?ofr) (offer_trust_score ?ofr) qk"
    using ok by (simp_all add: outcome_ok_def Let_def)
  obtain breaker where al: "allow_request (tr_chrono run) (tr_allow_clock run)
      (ly_breaker (nd_layers nd)) ?a = (Inr (), breaker)"
    using allow_when_not_open assms(6) by blast
  let ?nd = "map_layers (\<lambda>ls. ls\<lparr>ly_breaker := breaker\<rparr>) nd"
  obtain d where ctx: "task_context run ?nd t payload = Some (Inr d)"
    using task_context_total [OF assms(7), of ?nd t payload] assms(8) by auto
  obtain rt where rt: "find_route (nd_router ?nd) (tr_order run) t q None (tr_stamp run) = Some rt"
    using assms(9) by auto
  have ex: "execute_task run nd t payload q =
      Some (Inr (fst (finish_task run ?nd ?a t payload)), snd (finish_task run ?nd ?a t payload))"
    using assms(5) neg al ctx rt by (simp add: execute_task_def split_beta Let_def)
  have "task_done run ?nd t payload ?a (offer_capability ?ofr)
      (fst (finish_task run ?nd ?a t payload)) (snd (finish_task run ?nd ?a t payload))"
    by (rule finish_task_done) (simp add: reg(1))
  then have "task_done run nd t payload ?a (offer_capability ?ofr)
      (fst (finish_task run ?nd ?a t payload)) (snd (finish_task run ?nd ?a t payload))"
    by (simp add: task_done_def task_record_def)
  then show ?thesis using ex reg by blast
qed

theorem execute_task_succeeds_witness:
  "\<exists>res nd' a cap. execute_task sample_run sample_node Analysis [1, 2, 3] example_qos = Some (Inr res, nd')
    \<and> task_done sample_run sample_node Analysis [1, 2, 3] a cap res nd'"
proof -
  have "find_route (nd_router sample_node) ord Analysis example_qos None stamp \<noteq> None" for ord stamp
    by (simp add: sample_node_def router_new_def find_route_def graph_validate_def graph_new_def)
  moreover have "circuit_state_of (ly_breaker (nd_layers sample_node)) a \<noteq> Open" for a
    by (simp add: sample_node_def fresh_layers_def circuit_state_of_def
        circuit_breaker_with_defaults_def circuit_breaker_new_def)
  moreover have "0 < msc_chunk_size (comp_config (nd_compressor sample_node))"
    by (simp add: sample_node_def compressor_with_config_def sample_config_def)
  ultimately show ?thesis
    using execute_task_succeeds [of sample_node sample_run 0 Analysis example_qos example_qos "[1, 2, 3]"]
      registry_example_inv still_env_fresh example_first_match toy_env_sound sample_not_poisoned
      sample_attempts unfolding sample_layers by auto
qed

section \<open>Registering an agent\<close>

lemma connect_existing_run:
  "connect_existing a bs er = map_option (\<lambda>g. er\<lparr>er_graph := g\<rparr>)
     (graph_run (map (\<lambda>b. AddBidiEdge a b (from_millis 5)) (filter (\<lambda>b. b \<noteq> a) bs)) (er_graph er))"
proof (induction bs arbitrary: er)
  case Nil
  then show ?case by simp
next
  case (Cons b bs)
  show ?case
    by (cases "add_bidi_edge (er_graph er) a b (from_millis 5)")
      (simp_all add: router_connect_def Cons.IH)
qed

lemma links_mono: "snd nw k \<noteq> None \<Longrightarrow> snd (net_link a b lat nw) k \<noteq> None"
  by (auto simp: net_link_def split: prod.splits)

lemma links_kept: "snd nw k \<noteq> None \<Longrightarrow>
    snd (fold net_step (map (\<lambda>b. AddBidiEdge a b lat) bs) nw) k \<noteq> None"
  by (induction bs arbitrary: nw) (simp_all add: links_mono del: not_None_eq)

lemma fst_net_link [simp]: "fst (net_link a b lat nw) = fst nw"
  by (simp add: net_link_def split: prod.splits)

lemma link_made:
  "a \<in> dom (fst nw) \<Longrightarrow> b \<in> dom (fst nw) \<Longrightarrow> snd (net_link a b lat nw) (a, b) \<noteq> None"
  by (auto simp: net_link_def split: prod.splits)

lemma star_links:
  assumes "a \<in> dom (fst nw)" "b \<in> dom (fst nw)" "b \<in> set bs"
  shows "snd (fold net_step (map (\<lambda>b. AddBidiEdge a b lat) bs) nw) (a, b) \<noteq> None
    \<and> snd (fold net_step (map (\<lambda>b. AddBidiEdge a b lat) bs) nw) (b, a) \<noteq> None"
  using assms
proof (induction bs arbitrary: nw)
  case Nil
  then show ?case by simp
next
  case (Cons c bs)
  let ?nw = "net_link c a lat (net_link a c lat nw)"
  show ?case
  proof (cases "b = c")
    case True
    have "snd ?nw (a, c) \<noteq> None"
      using links_mono [OF link_made [of a nw c lat]] Cons.prems True by simp
    moreover have "snd ?nw (c, a) \<noteq> None"
      using link_made [of c "net_link a c lat nw" a lat] Cons.prems True by simp
    ultimately show ?thesis using links_kept [of ?nw] True by simp
  next
    case False
    then show ?thesis using Cons.IH [of ?nw] Cons.prems by simp
  qed
qed

lemma fst_star: "fst (fold net_step (map (\<lambda>b. AddBidiEdge a b lat) bs) nw) = fst nw"
  by (induction bs arbitrary: nw) simp_all

lemma registered_fold:
  "registered (fold (\<lambda>cap r. registry_register r a cap trust) caps reg) =
     fold (\<lambda>cap m. m((a, cap_task_type cap) \<mapsto> (cap, trust))) caps (registered reg)"
proof (induction caps arbitrary: reg)
  case Nil
  then show ?case by simp
next
  case (Cons cap caps)
  have "registered (registry_register reg a cap trust) =
      (registered reg)((a, cap_task_type cap) \<mapsto> (cap, trust))"
    using registered_run [of reg "Register a cap trust"] by simp
  then show ?case by (simp add: Cons.IH)
qed

text \<open>
  C15. Registering an agent succeeds and reaches three layers at once: the identity is stored, every
  capability is in the directory under the agent's trust (the later of two for one task type
  replacing the earlier), and the routing network has the agent, available, with the capabilities
  and that trust, linked both ways with every other stored agent that the network knows. The trust is
  the aggregate of the trust engine over the records about the agent that the store already has, which
  is the prior when there are none. (The routing graph is well formed, and the store's iteration
  order lists every stored agent once.)
\<close>

theorem register_agent_reaches_layers:
  assumes "graph_wf (er_graph (nd_router nd))"
    and "iterates ks ((is_identities (ly_identity (nd_layers nd)))(ident_id identity \<mapsto> identity))"
  shows "\<exists>nd' trust. trust = compute_aggregate_trust lm
        (is_trust_engine (ly_identity (nd_layers nd))) (ident_id identity)
        (get_interactions (ly_identity (nd_layers nd)) (ident_id identity)) now
    \<and> register_agent lm now ks identity nd = Some (Inr (), nd')
    \<and> graph_wf (er_graph (nd_router nd'))
    \<and> is_identities (ly_identity (nd_layers nd')) =
        (is_identities (ly_identity (nd_layers nd)))(ident_id identity \<mapsto> identity)
    \<and> registered (ly_registry (nd_layers nd')) =
        fold (\<lambda>cap m. m((ident_id identity, cap_task_type cap) \<mapsto> (cap, trust)))
          (ident_capabilities identity) (registered (ly_registry (nd_layers nd)))
    \<and> fst (network_of (er_graph (nd_router nd'))) =
        (fst (network_of (er_graph (nd_router nd))))
          (ident_id identity \<mapsto> (ident_capabilities identity, trust, True))
    \<and> (\<forall>b. b \<noteq> ident_id identity \<and> b \<in> dom (is_identities (ly_identity (nd_layers nd)))
          \<and> b \<in> dom (fst (network_of (er_graph (nd_router nd)))) \<longrightarrow>
        snd (network_of (er_graph (nd_router nd'))) (ident_id identity, b) \<noteq> None
        \<and> snd (network_of (er_graph (nd_router nd'))) (b, ident_id identity) \<noteq> None)
    \<and> (get_interactions (ly_identity (nd_layers nd)) (ident_id identity) = [] \<longrightarrow>
        trust = te_prior (is_trust_engine (ly_identity (nd_layers nd))))"
proof -
  let ?a = "ident_id identity" and ?caps = "ident_capabilities identity"
    and ?st = "ly_identity (nd_layers nd)" and ?g = "er_graph (nd_router nd)"
  obtain store where st: "register_identity ?st identity = (store, Inr ?a)"
    "is_identities store = (is_identities ?st)(?a \<mapsto> identity)"
    "is_trust_engine store = is_trust_engine ?st"
    "get_interactions store ?a = get_interactions ?st ?a"
    by (simp add: register_identity_def Let_def get_interactions_def split: option.split)
  let ?trust = "store_aggregate_trust lm store ?a now"
  let ?others = "filter (\<lambda>b. b \<noteq> ?a) (list_agents store ks)"
  let ?ops = "AddAgent ?a ?caps ?trust # map (\<lambda>b. AddBidiEdge ?a b (from_millis 5)) ?others"
  obtain g where g: "graph_run ?ops ?g = Some g" "graph_wf g"
    "network_of g = fold net_step ?ops (network_of ?g)"
    using graph_run_correct [OF assms(1), of ?ops] by blast
  obtain g1 i where g1: "add_agent ?g ?a ?caps ?trust = Some (g1, i)"
    "graph_run (map (\<lambda>b. AddBidiEdge ?a b (from_millis 5)) ?others) g1 = Some g"
    using g(1) by (cases "add_agent ?g ?a ?caps ?trust") auto
  let ?nd = "map_layers (\<lambda>ls. ls\<lparr>ly_registry :=
      fold (\<lambda>cap r. registry_register r ?a cap ?trust) ?caps (ly_registry ls)\<rparr>)
    (map_layers (\<lambda>ls. ls\<lparr>ly_identity := store\<rparr>) nd)"
  let ?nd' = "?nd\<lparr>nd_router := (nd_router nd)\<lparr>er_graph := g\<rparr>\<rparr>"
  have run: "register_agent lm now ks identity nd = Some (Inr (), ?nd')"
    using g1 by (simp add: register_agent_def st(1) router_add_agent_def connect_existing_run Let_def)
  have agents: "set (list_agents store ks) = insert ?a (dom (is_identities ?st))"
    using set_entries [of ks "is_identities store"] assms(2)
    by (force simp: list_agents_def st(2))
  have nodes: "fst (network_of g) = (fst (network_of ?g))(?a \<mapsto> (?caps, ?trust, True))"
    by (simp add: g(3) fst_star)
  have links: "snd (network_of g) (?a, b) \<noteq> None \<and> snd (network_of g) (b, ?a) \<noteq> None"
    if "b \<noteq> ?a" "b \<in> dom (is_identities ?st)" "b \<in> dom (fst (network_of ?g))" for b
  proof -
    have "b \<in> set ?others" using that agents by simp
    then show ?thesis
      using star_links [of ?a "net_step (AddAgent ?a ?caps ?trust) (network_of ?g)" b ?others] that(3)
      by (simp add: g(3))
  qed
  have trust: "?trust = compute_aggregate_trust lm (is_trust_engine ?st) ?a (get_interactions ?st ?a) now"
    using st(3) st(4) [symmetric] by (simp add: store_aggregate_trust_def get_interactions_def)
  have prior: "?trust = te_prior (is_trust_engine ?st)" if "get_interactions ?st ?a = []"
    using that st(3,4) by (simp add: store_aggregate_trust_def get_interactions_def
        compute_aggregate_trust_def weighted_average_def)
  show ?thesis
    using run nodes links prior trust g(2)
    by (intro exI [of _ ?nd'] exI [of _ ?trust]) (simp add: st(2) registered_fold)
qed

definition newcomer :: agent_identity where
  "newcomer = \<lparr>ident_id = AgentId 3, ident_did = \<lparr>did_method = [], did_identifier = []\<rparr>, ident_public_key = [],
     ident_capabilities = [cap_example], ident_created_at = 0\<rparr>"

theorem register_agent_reaches_layers_witness:
  "\<exists>nd'. register_agent flat_libm 0 [AgentId 3] newcomer sample_node = Some (Inr (), nd')
    \<and> fst (network_of (er_graph (nd_router nd'))) (AgentId 3) = Some ([cap_example], DEFAULT_PRIOR, True)"
proof -
  have n: "graph_wf (er_graph (nd_router sample_node))"
    by (simp add: sample_node_def router_new_def graph_new_wf)
  have s: "ly_identity (nd_layers sample_node) = identity_store_new"
    by (simp add: sample_node_def fresh_layers_def)
  have "get_interactions identity_store_new a = []" for a
    by (simp add: get_interactions_def identity_store_new_def)
  moreover have "te_prior (is_trust_engine identity_store_new) = DEFAULT_PRIOR"
    by (simp add: identity_store_new_def default_trust_engine_def)
  ultimately show ?thesis
    using register_agent_reaches_layers [OF n, of "[AgentId 3]" newcomer flat_libm 0]
    by (auto simp: s newcomer_def identity_store_new_def iterates_def)
qed

end
