(* ===== verification/Sim_Agent.thy ===== *)
theory Sim_Agent
  imports Trust Wire
begin

text \<open>
  The simulated agents and the clock of \<open>atp-sim\<close> (\<open>agent.rs\<close>, \<open>clock.rs\<close>), and the task generator
  (\<open>task_gen.rs\<close>). The generator of random numbers (crates \<open>rand\<close> and \<open>rand_distr\<close>) is the
  parameter \<open>sim_env\<close>: its state is a type variable that every drawing operation takes and returns.
\<close>

record 'r sim_env =
  se_libm :: libm
  se_ln :: "f64 \<Rightarrow> f64"
  rand_seed :: "u64 \<Rightarrow> 'r"  \<comment> \<open>\<open>StdRng::seed_from_u64\<close>\<close>
  rand_f64 :: "'r \<Rightarrow> f64 \<times> 'r"  \<comment> \<open>\<open>gen::<f64>()\<close>\<close>
  rand_u8 :: "'r \<Rightarrow> u8 \<times> 'r"  \<comment> \<open>\<open>gen::<u8>()\<close>\<close>
  rand_range :: "nat \<Rightarrow> nat \<Rightarrow> 'r \<Rightarrow> nat \<times> 'r"  \<comment> \<open>\<open>gen_range(a..b)\<close>, for \<open>a < b\<close>\<close>
  rand_normal :: "f64 \<Rightarrow> f64 \<Rightarrow> ('r \<Rightarrow> f64 \<times> 'r) option"  \<comment> \<open>\<open>Normal::new\<close>, \<open>None\<close> for \<open>Err\<close>\<close>
  rand_log_normal :: "f64 \<Rightarrow> f64 \<Rightarrow> ('r \<Rightarrow> f64 \<times> 'r) option"

text \<open>
  The documentation: \<open>gen\<close> draws from \<open>[0, 1)\<close>, \<open>gen_range\<close> from the range; a normal distribution
  exists for a finite mean and a finite standard deviation that is not negative, and its samples
  are numbers; a log-normal distribution exists for every such deviation.
\<close>

definition rand_sound :: "'r sim_env \<Rightarrow> bool" where
  "rand_sound e \<longleftrightarrow>
     (\<forall>r. 0 \<le> fst (rand_f64 e r) \<and> fst (rand_f64 e r) < 1)
     \<and> (\<forall>a b r. a < b \<longrightarrow> a \<le> fst (rand_range e a b r) \<and> fst (rand_range e a b r) < b)
     \<and> (\<forall>m s. is_finite m \<and> is_finite s \<and> 0 \<le> s \<longrightarrow>
          (\<exists>d. rand_normal e m s = Some d \<and> (\<forall>r. fst (d r) \<noteq> NaN)))
     \<and> (\<forall>m s. is_finite s \<and> 0 \<le> s \<longrightarrow> rand_log_normal e m s \<noteq> None)"

lemma rand_soundD:
  assumes "rand_sound e"
  shows "0 \<le> fst (rand_f64 e r)" "fst (rand_f64 e r) < 1"
    and "a < b \<Longrightarrow> a \<le> fst (rand_range e a b r)" "a < b \<Longrightarrow> fst (rand_range e a b r) < b"
    and "is_finite m \<Longrightarrow> is_finite s \<Longrightarrow> 0 \<le> s \<Longrightarrow>
      \<exists>d. rand_normal e m s = Some d \<and> (\<forall>r. fst (d r) \<noteq> NaN)"
    and "is_finite s \<Longrightarrow> 0 \<le> s \<Longrightarrow> \<exists>d. rand_log_normal e m s = Some d"
  using assms by (simp_all add: rand_sound_def)

text \<open>\<open>gen_range(a..b)\<close> panics on an empty range.\<close>

definition gen_range :: "'r sim_env \<Rightarrow> nat \<Rightarrow> nat \<Rightarrow> 'r \<Rightarrow> (nat \<times> 'r) option" where
  "gen_range e a b r = (if a < b then Some (rand_range e a b r) else None)"

section \<open>Agents\<close>

record simulated_capability =
  sc_task_type :: task_type
  sc_quality_mean :: f64
  sc_quality_std :: f64
  sc_latency_mean_ms :: f64
  sc_latency_std_ms :: f64
  sc_cost :: f64

record simulated_agent =
  sim_id :: agent_id
  sim_identity :: agent_identity
  sim_capabilities :: "simulated_capability list"
  sim_failure_rate :: f64
  sim_queue_capacity :: nat
  sim_current_queue_depth :: u32

record simulated_task_result =
  str_agent_id :: agent_id
  str_task_type :: task_type
  str_quality :: f64
  str_latency :: duration
  str_cost :: f64
  str_success :: bool

definition to_capability :: "simulated_capability \<Rightarrow> capability" where
  "to_capability c =
     \<lparr>cap_task_type = sc_task_type c, cap_estimated_quality = sc_quality_mean c,
      cap_estimated_latency = from_millis (unat (f64_to_u64 (sc_latency_mean_ms c))),
      cap_cost_per_task = sc_cost c\<rparr>"

text \<open>The text \<open>id.0.as_simple()\<close> of the crate \<open>uuid\<close> and the clock reading are arguments.\<close>

definition simulated_agent_new ::
  "(uuid \<Rightarrow> unicode_text) \<Rightarrow> datetime \<Rightarrow> agent_id \<Rightarrow> simulated_capability list \<Rightarrow> f64 \<Rightarrow>
   simulated_agent" where
  "simulated_agent_new as_simple now a caps failure_rate =
     \<lparr>sim_id = a,
      sim_identity = \<lparr>ident_id = a,
        ident_did = \<lparr>did_method = text_of ''key'',
                     did_identifier = text_of ''z6Mk'' @ as_simple (agent_uuid a)\<rparr>,
        ident_public_key = replicate 32 0, ident_capabilities = map to_capability caps,
        ident_created_at = now\<rparr>,
      sim_capabilities = caps, sim_failure_rate = failure_rate, sim_queue_capacity = 100,
      sim_current_queue_depth = 0\<rparr>"

definition sim_get_capability :: "simulated_agent \<Rightarrow> task_type \<Rightarrow> simulated_capability option" where
  "sim_get_capability a t = find (\<lambda>c. sc_task_type c = t) (sim_capabilities a)"

definition sim_has_capability :: "simulated_agent \<Rightarrow> task_type \<Rightarrow> bool" where
  "sim_has_capability a t \<longleftrightarrow> (\<exists>c \<in> set (sim_capabilities a). sc_task_type c = t)"

definition sim_default_cap :: "task_type \<Rightarrow> simulated_capability" where
  "sim_default_cap t =
     \<lparr>sc_task_type = t, sc_quality_mean = to_f64 (5 / 10), sc_quality_std = to_f64 (15 / 100),
      sc_latency_mean_ms = to_f64 5000, sc_latency_std_ms = to_f64 1, sc_cost = to_f64 (1 / 10)\<rparr>"

text \<open>The two \<open>unwrap\<close>s on the distributions are panics.\<close>

definition sim_execute_task ::
  "'r sim_env \<Rightarrow> simulated_agent \<Rightarrow> task_type \<Rightarrow> 'r \<Rightarrow> (simulated_task_result \<times> 'r) option" where
  "sim_execute_task e a t r =
     (let (x, r) = rand_f64 e r
      in if x < sim_failure_rate a
         then Some (\<lparr>str_agent_id = sim_id a, str_task_type = t, str_quality = 0,
                     str_latency = from_millis 100, str_cost = 0, str_success = False\<rparr>, r)
         else do {
           let cap = (case find (\<lambda>c. sc_task_type c = t) (sim_capabilities a) of
                        Some c \<Rightarrow> c | None \<Rightarrow> sim_default_cap t);
           quality_dist \<leftarrow> rand_normal e (sc_quality_mean cap) (sc_quality_std cap);
           let (q, r) = quality_dist r;
           let ln_mean = se_ln e (sc_latency_mean_ms cap);
           latency_dist \<leftarrow> rand_log_normal e ln_mean (f64_max (sc_latency_std_ms cap) (to_f64 (1 / 100)));
           let (l, r) = latency_dist r;
           let latency_ms = f64_max l 1;
           Some (\<lparr>str_agent_id = sim_id a, str_task_type = t, str_quality = clamp q 0 1,
                  str_latency = from_millis (unat (f64_to_u64 latency_ms)),
                  str_cost = sc_cost cap, str_success = True\<rparr>, r)
         })"

section \<open>Archetypes\<close>

type_synonym agent_stamp = "(uuid \<Rightarrow> unicode_text) \<times> datetime"

definition budget_cap :: "task_type \<Rightarrow> simulated_capability" where
  "budget_cap t =
     \<lparr>sc_task_type = t, sc_quality_mean = to_f64 (65 / 100), sc_quality_std = to_f64 (1 / 10),
      sc_latency_mean_ms = to_f64 500, sc_latency_std_ms = to_f64 (3 / 10), sc_cost = to_f64 (1 / 100)\<rparr>"

definition standard_cap :: "task_type \<Rightarrow> simulated_capability" where
  "standard_cap t =
     \<lparr>sc_task_type = t, sc_quality_mean = to_f64 (82 / 100), sc_quality_std = to_f64 (8 / 100),
      sc_latency_mean_ms = to_f64 2000, sc_latency_std_ms = to_f64 (4 / 10), sc_cost = to_f64 (5 / 100)\<rparr>"

definition premium_cap :: "task_type \<Rightarrow> simulated_capability" where
  "premium_cap t =
     \<lparr>sc_task_type = t, sc_quality_mean = to_f64 (95 / 100), sc_quality_std = to_f64 (3 / 100),
      sc_latency_mean_ms = to_f64 5000, sc_latency_std_ms = to_f64 (5 / 10), sc_cost = to_f64 (15 / 100)\<rparr>"

definition specialist_cap :: "task_type \<Rightarrow> simulated_capability" where
  "specialist_cap t =
     \<lparr>sc_task_type = t, sc_quality_mean = to_f64 (93 / 100), sc_quality_std = to_f64 (4 / 100),
      sc_latency_mean_ms = to_f64 1500, sc_latency_std_ms = to_f64 (3 / 10), sc_cost = to_f64 (8 / 100)\<rparr>"

definition unreliable_cap :: "task_type \<Rightarrow> simulated_capability" where
  "unreliable_cap t =
     \<lparr>sc_task_type = t, sc_quality_mean = to_f64 (80 / 100), sc_quality_std = to_f64 (12 / 100),
      sc_latency_mean_ms = to_f64 1000, sc_latency_std_ms = to_f64 (8 / 10), sc_cost = to_f64 (3 / 100)\<rparr>"

definition budget_agent :: "agent_stamp \<Rightarrow> agent_id \<Rightarrow> task_type list \<Rightarrow> simulated_agent" where
  "budget_agent st a ts = simulated_agent_new (fst st) (snd st) a (map budget_cap ts) (to_f64 (2 / 100))"

definition standard_agent :: "agent_stamp \<Rightarrow> agent_id \<Rightarrow> task_type list \<Rightarrow> simulated_agent" where
  "standard_agent st a ts = simulated_agent_new (fst st) (snd st) a (map standard_cap ts) (to_f64 (3 / 100))"

definition premium_agent :: "agent_stamp \<Rightarrow> agent_id \<Rightarrow> task_type list \<Rightarrow> simulated_agent" where
  "premium_agent st a ts = simulated_agent_new (fst st) (snd st) a (map premium_cap ts) (to_f64 (1 / 100))"

definition specialist_agent :: "agent_stamp \<Rightarrow> agent_id \<Rightarrow> task_type \<Rightarrow> simulated_agent" where
  "specialist_agent st a t = simulated_agent_new (fst st) (snd st) a [specialist_cap t] (to_f64 (15 / 1000))"

definition unreliable_agent :: "agent_stamp \<Rightarrow> agent_id \<Rightarrow> task_type list \<Rightarrow> simulated_agent" where
  "unreliable_agent st a ts = simulated_agent_new (fst st) (snd st) a (map unreliable_cap ts) (to_f64 (15 / 100))"

section \<open>The clock\<close>

text \<open>
  The clock is one shared atomic counter of nanoseconds; an operation maps its value to the next.
\<close>

type_synonym simulated_clock = u64

definition clock_new :: simulated_clock where
  "clock_new = 1767225600000000000"

definition now_nanos :: "simulated_clock \<Rightarrow> u64" where
  "now_nanos c = c"

definition now_chrono :: "wire_env \<Rightarrow> simulated_clock \<Rightarrow> datetime" where
  "now_chrono w c =
     (let secs = int (unat (now_nanos c div 1000000000));
          nsecs = unat (now_nanos c mod 1000000000)
      in case from_timestamp w secs nsecs of Some t \<Rightarrow> t | None \<Rightarrow> 0)"

definition clock_advance :: "simulated_clock \<Rightarrow> duration \<Rightarrow> simulated_clock" where
  "clock_advance c d = c + of_nat d"

definition clock_advance_ms :: "simulated_clock \<Rightarrow> u64 \<Rightarrow> simulated_clock" where
  "clock_advance_ms c ms = clock_advance c (from_millis (unat ms))"

definition elapsed_since :: "simulated_clock \<Rightarrow> u64 \<Rightarrow> duration" where
  "elapsed_since c start = unat (now_nanos c) - unat start"

section \<open>Task generation\<close>

record sim_task =
  stask_id :: uuid
  stask_type :: task_type
  stask_payload :: "u8 list"
  stask_full_context_size :: nat
  stask_qos :: qos_constraints

record task_generator =
  tg_task_types :: "task_type list"
  tg_context_size :: nat

definition task_generator_new :: task_generator where
  "task_generator_new = \<lparr>tg_task_types = all_task_types, tg_context_size = 50000\<rparr>"

definition with_context_size :: "nat \<Rightarrow> task_generator \<Rightarrow> task_generator" where
  "with_context_size n g = g\<lparr>tg_context_size := n\<rparr>"

text \<open>\<open>(0..n).map(|_| rng.gen()).collect()\<close>.\<close>

fun draw_bytes :: "'r sim_env \<Rightarrow> nat \<Rightarrow> 'r \<Rightarrow> u8 list \<times> 'r" where
  "draw_bytes e 0 r = ([], r)"
| "draw_bytes e (Suc n) r =
     (let (b, r) = rand_u8 e r; (bs, r) = draw_bytes e n r in (b # bs, r))"

definition generate_task ::
  "'r sim_env \<Rightarrow> task_generator \<Rightarrow> uuid \<Rightarrow> 'r \<Rightarrow> (sim_task \<times> 'r) option" where
  "generate_task e g new_id r = do {
     (i, r) \<leftarrow> gen_range e 0 (length (tg_task_types g)) r;
     let t = tg_task_types g ! i;
     let (payload_size, r) = rand_range e 100 1000 r;
     let (payload, r) = draw_bytes e payload_size r;
     let (x, r) = rand_f64 e r;
     let (ms, r) = rand_range e 2000 10000 r;
     let (y, r) = rand_f64 e r;
     let (z, r) = rand_f64 e r;
     Some (\<lparr>stask_id = new_id, stask_type = t, stask_payload = payload,
            stask_full_context_size = tg_context_size g,
            stask_qos = \<lparr>min_quality = to_f64 (7 / 10) + x * to_f64 (2 / 10),
              max_latency = from_millis ms,
              max_cost = to_f64 (5 / 100) + y * to_f64 (15 / 100),
              min_trust = to_f64 (5 / 10) + z * to_f64 (3 / 10)\<rparr>\<rparr>, r)
   }"

text \<open>The fresh identifiers are the argument \<open>ids\<close>; their number is the \<open>count\<close> of the code.\<close>

fun generate_tasks ::
  "'r sim_env \<Rightarrow> task_generator \<Rightarrow> uuid list \<Rightarrow> 'r \<Rightarrow> (sim_task list \<times> 'r) option" where
  "generate_tasks e g [] r = Some ([], r)"
| "generate_tasks e g (i # ids) r = do {
     (task, r) \<leftarrow> generate_task e g i r;
     (tasks, r) \<leftarrow> generate_tasks e g ids r;
     Some (task # tasks, r)
   }"

section \<open>What a run of a task yields\<close>

text \<open>An agent whose distributions exist and whose costs are finite and not negative.\<close>

definition sim_cap_ok :: "simulated_capability \<Rightarrow> bool" where
  "sim_cap_ok c \<longleftrightarrow> is_finite (sc_quality_mean c) \<and> is_finite (sc_quality_std c)
     \<and> 0 \<le> sc_quality_std c \<and> is_finite (sc_latency_std_ms c) \<and> 0 \<le> sc_cost c
     \<and> is_finite (sc_cost c)"

definition sim_agent_ok :: "simulated_agent \<Rightarrow> bool" where
  "sim_agent_ok a \<longleftrightarrow> (\<forall>c \<in> set (sim_capabilities a). sim_cap_ok c)"

definition U64_MILLIS :: duration where
  "U64_MILLIS = (2 ^ 64 - 1) * 1000000"

definition sim_result_ok :: "simulated_agent \<Rightarrow> task_type \<Rightarrow> simulated_task_result \<Rightarrow> bool" where
  "sim_result_ok a t res \<longleftrightarrow> str_agent_id res = sim_id a \<and> str_task_type res = t
     \<and> unit_f64 (str_quality res) \<and> str_latency res \<le> U64_MILLIS \<and> 0 \<le> str_cost res
     \<and> is_finite (str_cost res)
     \<and> (\<not> str_success res \<longrightarrow> str_quality res = 0 \<and> str_cost res = 0 \<and> str_latency res = from_millis 100)
     \<and> (str_success res \<longrightarrow> from_millis 1 \<le> str_latency res)"

lemma is_finite_01 [simp]: "is_finite 0" "is_finite 1"
  by (simp_all add: is_finite_def f64_zero_one_Fin)

lemma is_finite_lit: "0 \<le> q \<Longrightarrow> q \<le> 2 ^ 53 \<Longrightarrow> is_finite (to_f64 q)"
proof -
  assume q: "0 \<le> q" "q \<le> 2 ^ 53"
  have "exact (2 ^ 53)" using exact_of_int [of "2 ^ 53"] by simp
  then obtain s where "to_f64 q = Fin s" using to_f64_between [OF q] by auto
  then show ?thesis by (simp add: is_finite_def)
qed

lemma to_f64_nonneg: "0 \<le> q \<Longrightarrow> 0 \<le> to_f64 q"
  using to_f64_mono [of 0 q] by (simp add: to_f64_exact f64_zero_one_Fin)

lemma f64_max_finite:
  "is_finite a \<Longrightarrow> is_finite b \<Longrightarrow> is_finite (f64_max a b)"
  by (cases a; cases b) (simp_all add: f64_max_def is_finite_def)

lemma f64_max_ge: "b \<noteq> NaN \<Longrightarrow> b \<le> f64_max a b"
  by (cases a; cases b) (auto simp: f64_max_def f64_le_refl)

lemma millis_sample: "from_millis 1 \<le> from_millis (unat (f64_to_u64 (f64_max l 1)))
    \<and> from_millis (unat (f64_to_u64 (f64_max l 1))) \<le> U64_MILLIS"
proof -
  let ?n = "f64_to_nat_sat (2 ^ 64 - 1) (f64_max l 1)"
  have le: "?n \<le> 2 ^ 64 - 1" by (auto simp: f64_to_nat_sat_def split: f64.split)
  then have n: "unat (f64_to_u64 (f64_max l 1)) = ?n"
    by (simp add: f64_to_u64_def unat_of_nat take_bit_nat_eq_self)
  have "1 \<le> f64_max l 1" by (rule f64_max_ge) simp
  then have "1 \<le> ?n"
    by (cases "f64_max l 1") (auto simp: f64_to_nat_sat_def f64_zero_one_Fin le_nat_iff)
  then show ?thesis using le unfolding n by (simp add: from_millis_def U64_MILLIS_def)
qed

lemma sim_default_cap_ok: "sim_cap_ok (sim_default_cap t)"
  by (simp add: sim_cap_ok_def sim_default_cap_def is_finite_lit to_f64_nonneg)

lemma sim_execute_ok:
  assumes "rand_sound e" "sim_agent_ok a"
  shows "\<exists>res r'. sim_execute_task e a t r = Some (res, r') \<and> sim_result_ok a t res"
proof -
  obtain x r1 where x: "rand_f64 e r = (x, r1)" by fastforce
  define cap where "cap = (case find (\<lambda>c. sc_task_type c = t) (sim_capabilities a) of
      Some c \<Rightarrow> c | None \<Rightarrow> sim_default_cap t)"
  have "sim_cap_ok cap"
    using assms(2) sim_default_cap_ok
    by (auto simp: cap_def sim_agent_ok_def find_Some_iff split: option.split)
  then have cap: "is_finite (sc_quality_mean cap)" "is_finite (sc_quality_std cap)"
    "0 \<le> sc_quality_std cap" "is_finite (sc_latency_std_ms cap)" "0 \<le> sc_cost cap" "is_finite (sc_cost cap)"
    by (simp_all add: sim_cap_ok_def)
  obtain d where d: "rand_normal e (sc_quality_mean cap) (sc_quality_std cap) = Some d" "fst (d r1) \<noteq> NaN"
    using rand_soundD(5) [OF assms(1) cap(1-3)] by blast
  have "is_finite (f64_max (sc_latency_std_ms cap) (to_f64 (1 / 100)))"
    by (intro f64_max_finite cap is_finite_lit) simp_all
  moreover have "0 \<le> f64_max (sc_latency_std_ms cap) (to_f64 (1 / 100))"
    by (rule f64_le_trans [OF to_f64_nonneg f64_max_ge]) simp_all
  ultimately obtain d' where d': "rand_log_normal e (se_ln e (sc_latency_mean_ms cap))
      (f64_max (sc_latency_std_ms cap) (to_f64 (1 / 100))) = Some d'"
    using rand_soundD(6) [OF assms(1)] by blast
  obtain q r2 where q: "d r1 = (q, r2)" by fastforce
  obtain l r3 where l: "d' r2 = (l, r3)" by fastforce
  have "unit_f64 (clamp q 0 1)" using d(2) q by (intro clamp_unit) simp
  then show ?thesis
    using millis_sample [of l] cap d(1) d' q l
    by (auto simp: sim_execute_task_def x sim_result_ok_def cap_def [symmetric] Let_def from_millis_def
        U64_MILLIS_def f64_le_refl)
qed

lemma archetypes_ok [simp]:
  "sim_agent_ok (budget_agent st a ts)" "sim_agent_ok (standard_agent st a ts)"
  "sim_agent_ok (premium_agent st a ts)" "sim_agent_ok (specialist_agent st a t)"
  "sim_agent_ok (unreliable_agent st a ts)"
  by (auto simp: sim_agent_ok_def sim_cap_ok_def simulated_agent_new_def budget_agent_def
      standard_agent_def premium_agent_def specialist_agent_def unreliable_agent_def budget_cap_def
      standard_cap_def premium_cap_def specialist_cap_def unreliable_cap_def is_finite_lit to_f64_nonneg)

lemma has_capability_get:
  "sim_has_capability a t \<longleftrightarrow> (\<exists>c. sim_get_capability a t = Some c)"
proof -
  have "sim_get_capability a t = None \<longleftrightarrow> \<not> sim_has_capability a t"
    by (auto simp: sim_has_capability_def sim_get_capability_def find_None_iff)
  then show ?thesis by (metis not_None_eq)
qed

section \<open>The clock\<close>

text \<open>
  Until it overflows in the year 2554, the clock counts what it is advanced by and its instant is its
  counter.
\<close>

lemma clock_counts:
  assumes "unat c + d < 2 ^ 64"
  shows "unat (now_nanos (clock_advance c d)) = unat (now_nanos c) + d"
    and "elapsed_since (clock_advance c d) (now_nanos c) = d"
proof -
  have "unat (c + of_nat d) = unat c + d"
    using assms by (simp add: unat_word_ariths unat_of_nat take_bit_nat_eq_self mod_less)
  then show "unat (now_nanos (clock_advance c d)) = unat (now_nanos c) + d"
    "elapsed_since (clock_advance c d) (now_nanos c) = d"
    by (simp_all add: now_nanos_def clock_advance_def elapsed_since_def)
qed

lemma clock_instant:
  assumes "wire_sound w" "datetime_ok w (int (unat c))"
  shows "now_chrono w c = int (unat c)"
proof -
  have "int (unat (now_nanos c div 1000000000)) = int (unat c) div 1000000000"
    "unat (now_nanos c mod 1000000000) = nat (int (unat c) mod 1000000000)"
    by (simp_all add: now_nanos_def unat_div unat_mod zdiv_int nat_mod_as_int zmod_int)
  then show ?thesis
    using wire_soundD(2) [OF assms] by (simp add: now_chrono_def Let_def)
qed

section \<open>Generated tasks\<close>

definition qos_in_range :: "qos_constraints \<Rightarrow> bool" where
  "qos_in_range q \<longleftrightarrow> to_f64 (7 / 10) \<le> min_quality q \<and> min_quality q \<le> to_f64 (9 / 10)
     \<and> from_secs 2 \<le> max_latency q \<and> max_latency q < from_secs 10
     \<and> to_f64 (1 / 20) \<le> max_cost q \<and> max_cost q \<le> to_f64 (1 / 5)
     \<and> to_f64 (1 / 2) \<le> min_trust q \<and> min_trust q \<le> to_f64 (4 / 5)"

definition task_generated :: "task_generator \<Rightarrow> uuid \<Rightarrow> sim_task \<Rightarrow> bool" where
  "task_generated g i task \<longleftrightarrow> stask_id task = i \<and> stask_type task \<in> set (tg_task_types g)
     \<and> 100 \<le> length (stask_payload task) \<and> length (stask_payload task) < 1000
     \<and> stask_full_context_size task = tg_context_size g \<and> qos_in_range (stask_qos task)"

lemma draw_bytes_length: "length (fst (draw_bytes e n r)) = n"
  by (induction n arbitrary: r) (simp_all add: case_prod_beta Let_def)

text \<open>A literal plus a sample scaled by a literal stays between the literal and the sum.\<close>

lemma scaled_sample:
  assumes "unit_f64 x" "f64_wf w" "is_finite w" "0 \<le> w" "f64_wf b" "0 \<le> b"
  shows "b \<le> b + x * w \<and> b + x * w \<le> b + w"
proof -
  have "x * w \<le> w" by (rule times_unit_le) (use assms in simp_all)
  moreover have "0 \<le> x * w" using times_unit_nonneg [OF assms(1,4,3)]
    by (cases x; cases w) (auto simp: mult.commute)
  ultimately show ?thesis
    using assms le_plus_nonneg [of b "x * w"] plus_mono_nonneg [of b b "x * w" w] f64_le_refl [of b]
    by (cases "b = NaN") auto
qed

lemma scaled_lit:
  assumes "unit_f64 x" "0 \<le> p" "0 \<le> w" "w \<le> 2 ^ 53" "to_f64 p + to_f64 w \<le> c"
  shows "to_f64 p \<le> to_f64 p + x * to_f64 w \<and> to_f64 p + x * to_f64 w \<le> c"
proof -
  have "to_f64 p \<le> to_f64 p + x * to_f64 w \<and> to_f64 p + x * to_f64 w \<le> to_f64 p + to_f64 w"
    by (rule scaled_sample) (use assms in \<open>simp_all add: is_finite_lit to_f64_nonneg\<close>)
  then show ?thesis using assms(5) f64_le_trans by blast
qed

lemma sample_lits:
  "to_f64 (7 / 10) + to_f64 (1 / 5) \<le> to_f64 (9 / 10)"
  "to_f64 (1 / 20) + to_f64 (3 / 20) \<le> to_f64 (1 / 5)"
  "to_f64 (1 / 2) + to_f64 (3 / 10) \<le> to_f64 (4 / 5)"
proof -
  have "to_f64 (3 / 20) = Fin (5404319552844595 / 36028797018963968)"
    using to_f64_lit [of "3 / 20" 55 5404319552844595] by simp
  note l = this to_f64_lits(1-3,5,11,13)
  show "to_f64 (7 / 10) + to_f64 (1 / 5) \<le> to_f64 (9 / 10)"
    unfolding to_f64_lits(1,5) plus_f64.simps(1) by (rule to_f64_mono) simp
  show "to_f64 (1 / 20) + to_f64 (3 / 20) \<le> to_f64 (1 / 5)"
    unfolding to_f64_lits(11) l(1) plus_f64.simps(1) by (rule to_f64_mono) simp
  show "to_f64 (1 / 2) + to_f64 (3 / 10) \<le> to_f64 (4 / 5)"
    unfolding to_f64_lits(13,2) plus_f64.simps(1) by (rule to_f64_mono) simp
qed

lemma generate_task_ok:
  assumes "rand_sound e" "tg_task_types g \<noteq> []"
  shows "\<exists>task r'. generate_task e g i r = Some (task, r') \<and> task_generated g i task"
proof -
  have unit: "unit_f64 (fst (rand_f64 e r))" for r
    using rand_soundD(1,2) [OF assms(1)] by (simp add: unit_f64_def f64_less_imp_le)
  obtain j r1 where j: "rand_range e 0 (length (tg_task_types g)) r = (j, r1)" by fastforce
  obtain n r2 where n: "rand_range e 100 1000 r1 = (n, r2)" by fastforce
  obtain bs r3 where bs: "draw_bytes e n r2 = (bs, r3)" by fastforce
  obtain x r4 where x: "rand_f64 e r3 = (x, r4)" by fastforce
  obtain ms r5 where ms: "rand_range e 2000 10000 r4 = (ms, r5)" by fastforce
  obtain y r6 where y: "rand_f64 e r5 = (y, r6)" by fastforce
  obtain z r7 where z: "rand_f64 e r6 = (z, r7)" by fastforce
  have "j < length (tg_task_types g)"
    using rand_soundD(4) [OF assms(1), of 0 "length (tg_task_types g)" r] assms(2) j by simp
  then have t: "tg_task_types g ! j \<in> set (tg_task_types g)" by (rule nth_mem)
  have p: "100 \<le> n" "n < 1000" "length bs = n"
    using rand_soundD(3,4) [OF assms(1), of 100 1000 r1] n draw_bytes_length [of e n r2] bs by simp_all
  have m: "2000 \<le> ms" "ms < 10000"
    using rand_soundD(3,4) [OF assms(1), of 2000 10000 r4] ms by simp_all
  have u: "unit_f64 x" "unit_f64 y" "unit_f64 z" using unit [of r3] unit [of r5] unit [of r6] x y z by simp_all
  have s: "0 \<le> (7::rat) / 10" "0 \<le> (1::rat) / 20" "0 \<le> (1::rat) / 2" "0 \<le> (1::rat) / 5"
    "0 \<le> (3::rat) / 20" "0 \<le> (3::rat) / 10" "(1::rat) / 5 \<le> 2 ^ 53" "(3::rat) / 20 \<le> 2 ^ 53"
    "(3::rat) / 10 \<le> 2 ^ 53" by simp_all
  show ?thesis
    using scaled_lit [OF u(1) s(1,4,7) sample_lits(1)] scaled_lit [OF u(2) s(2,5,8) sample_lits(2)]
      scaled_lit [OF u(3) s(3,6,9) sample_lits(3)]
    using t p m assms(2)
    by (simp add: generate_task_def gen_range_def j n bs x ms y z task_generated_def qos_in_range_def
        from_secs_def from_millis_def NANOS_PER_SEC_def)
qed

lemma generate_tasks_ok:
  assumes "rand_sound e" "tg_task_types g \<noteq> []"
  shows "\<exists>tasks r'. generate_tasks e g ids r = Some (tasks, r') \<and> list_all2 (task_generated g) ids tasks"
proof (induction ids arbitrary: r)
  case Nil
  then show ?case by simp
next
  case (Cons i ids)
  obtain task r1 where 1: "generate_task e g i r = Some (task, r1)" "task_generated g i task"
    using generate_task_ok [OF assms] by blast
  obtain tasks r2 where "generate_tasks e g ids r1 = Some (tasks, r2)"
    "list_all2 (task_generated g) ids tasks" using Cons by blast
  then show ?case using 1 by simp
qed

end
