(* ===== verification/Sim_Network.thy ===== *)
theory Sim_Network
  imports Sim_Agent Graph "HOL-Library.Sublist"
begin

text \<open>
  The simulated network of \<open>atp-sim\<close> (\<open>network.rs\<close>): the agents with their index and the edges of
  the three topologies. The fresh identifiers of the benchmark network, the text form of a UUID and
  the clock readings are arguments.
\<close>

datatype network_topology = FullyConnected | RandomTopology f64 | SmallWorld nat f64

record edge_latency =
  el_from :: agent_id
  el_to :: agent_id
  el_latency :: duration

record simulated_network =
  nw_agents :: "simulated_agent list"
  nw_topology :: network_topology
  nw_edges :: "edge_latency list"
  nw_agent_index :: "agent_id \<rightharpoonup> nat"

section \<open>Edges\<close>

definition link_between :: "simulated_agent \<Rightarrow> simulated_agent \<Rightarrow> nat \<Rightarrow> edge_latency" where
  "link_between a b ms = \<lparr>el_from = sim_id a, el_to = sim_id b, el_latency = from_millis ms\<rparr>"

text \<open>The bodies of the nested loops; the state is the list of edges and the generator.\<close>

definition full_step ::
  "'r sim_env \<Rightarrow> simulated_agent list \<Rightarrow> edge_latency list \<times> 'r \<Rightarrow> nat \<times> nat \<Rightarrow> edge_latency list \<times> 'r"
  where
  "full_step e agents s p = (case (s, p) of ((es, r), (i, j)) \<Rightarrow>
     if i \<noteq> j then (let (ms, r) = rand_range e 1 50 r
       in (es @ [link_between (agents ! i) (agents ! j) ms], r))
     else (es, r))"

definition random_step ::
  "'r sim_env \<Rightarrow> f64 \<Rightarrow> simulated_agent list \<Rightarrow> edge_latency list \<times> 'r \<Rightarrow> nat \<times> nat \<Rightarrow>
   edge_latency list \<times> 'r" where
  "random_step e connectivity agents s p = (case (s, p) of ((es, r), (i, j)) \<Rightarrow>
     if i \<noteq> j then (let (x, r) = rand_f64 e r
       in if x < connectivity then (let (ms, r) = rand_range e 5 100 r
            in (es @ [link_between (agents ! i) (agents ! j) ms], r))
          else (es, r))
     else (es, r))"

definition ring_step ::
  "'r sim_env \<Rightarrow> simulated_agent list \<Rightarrow> edge_latency list \<times> 'r \<Rightarrow> nat \<times> nat \<Rightarrow> edge_latency list \<times> 'r"
  where
  "ring_step e agents s p = (case (s, p) of ((es, r), (i, offset)) \<Rightarrow>
     (let j = (i + offset) mod length agents; (ms, r) = rand_range e 5 50 r
      in (es @ [link_between (agents ! i) (agents ! j) ms, link_between (agents ! j) (agents ! i) ms], r)))"

text \<open>Rewiring: an edge whose new target is its source is dropped.\<close>

fun rewire ::
  "'r sim_env \<Rightarrow> f64 \<Rightarrow> simulated_agent list \<Rightarrow> edge_latency list \<Rightarrow> 'r \<Rightarrow>
   (edge_latency list \<times> 'r) option" where
  "rewire e beta agents [] r = Some ([], r)"
| "rewire e beta agents (edge # rest) r =
     (let (x, r) = rand_f64 e r
      in if x < beta then do {
           (idx, r) \<leftarrow> gen_range e 0 (length agents) r;
           target \<leftarrow> vec_at agents idx;
           let (new, r) = (if sim_id target \<noteq> el_from edge
             then (let (ms, r) = rand_range e 5 100 r
               in ([\<lparr>el_from = el_from edge, el_to = sim_id target, el_latency = from_millis ms\<rparr>], r))
             else ([], r));
           (edges, r) \<leftarrow> rewire e beta agents rest r;
           Some (new @ edges, r)
         }
         else do { (edges, r) \<leftarrow> rewire e beta agents rest r; Some (edge # edges, r) })"

definition generate_edges ::
  "'r sim_env \<Rightarrow> network_topology \<Rightarrow> simulated_agent list \<Rightarrow> 'r \<Rightarrow> (edge_latency list \<times> 'r) option" where
  "generate_edges e topology agents r =
     (let n = length agents; pairs = List.product [0..<n] [0..<n]
      in case topology of
           FullyConnected \<Rightarrow> Some (foldl (full_step e agents) ([], r) pairs)
         | RandomTopology connectivity \<Rightarrow>
             Some (foldl (random_step e connectivity agents) ([], r) pairs)
         | SmallWorld k beta \<Rightarrow>
             (let half_k = k div 2;
                  (original_edges, r) =
                    foldl (ring_step e agents) ([], r) (List.product [0..<n] [1..<Suc half_k])
              in rewire e beta agents original_edges r))"

section \<open>Networks\<close>

definition index_agents :: "simulated_agent list \<Rightarrow> (agent_id \<rightharpoonup> nat)" where
  "index_agents agents = foldl (\<lambda>m (i, a). m(sim_id a \<mapsto> i)) Map.empty (enumerate 0 agents)"

definition network_new ::
  "'r sim_env \<Rightarrow> simulated_agent list \<Rightarrow> network_topology \<Rightarrow> u64 \<Rightarrow> simulated_network option" where
  "network_new e agents topology seed = do {
     (edges, r) \<leftarrow> generate_edges e topology agents (rand_seed e seed);
     Some \<lparr>nw_agents = agents, nw_topology = topology, nw_edges = edges,
           nw_agent_index = index_agents agents\<rparr>
   }"

text \<open>The fifty agents: the \<open>i\<close>-th has the fresh identifier \<open>ids i\<close> and the stamp \<open>st i\<close>.\<close>

definition benchmark_agents ::
  "(nat \<Rightarrow> agent_stamp) \<Rightarrow> (nat \<Rightarrow> agent_id) \<Rightarrow> simulated_agent list" where
  "benchmark_agents st ids =
     map (\<lambda>i. budget_agent (st i) (ids i) all_task_types) [0..<10]
     @ map (\<lambda>i. standard_agent (st i) (ids i) all_task_types) [10..<25]
     @ map (\<lambda>i. premium_agent (st i) (ids i) all_task_types) [25..<33]
     @ concat (map (\<lambda>(k, t). map (\<lambda>j. specialist_agent (st (33 + 3 * k + j)) (ids (33 + 3 * k + j)) t)
         [0..<3]) (enumerate 0 all_task_types))
     @ map (\<lambda>i. unreliable_agent (st i) (ids i) all_task_types) [45..<50]"

definition benchmark_network ::
  "'r sim_env \<Rightarrow> (nat \<Rightarrow> agent_stamp) \<Rightarrow> (nat \<Rightarrow> agent_id) \<Rightarrow> u64 \<Rightarrow> simulated_network option" where
  "benchmark_network e st ids seed =
     (let agents = benchmark_agents st ids; topology = SmallWorld 6 (to_f64 (3 / 10))
      in do {
        (edges, r) \<leftarrow> generate_edges e topology agents (rand_seed e seed);
        Some \<lparr>nw_agents = agents, nw_topology = topology, nw_edges = edges,
              nw_agent_index = index_agents agents\<rparr>
      })"

definition network_get_agent :: "simulated_network \<Rightarrow> agent_id \<Rightarrow> simulated_agent option option" where
  "network_get_agent nw a =
     (case nw_agent_index nw a of
        None \<Rightarrow> Some None
      | Some i \<Rightarrow> map_option Some (vec_at (nw_agents nw) i))"

text \<open>\<open>get_agent_mut\<close>, with what the caller does to the agent as an argument.\<close>

definition network_modify_agent ::
  "simulated_network \<Rightarrow> agent_id \<Rightarrow> (simulated_agent \<Rightarrow> simulated_agent) \<Rightarrow> simulated_network option" where
  "network_modify_agent nw a f =
     (case nw_agent_index nw a of
        None \<Rightarrow> Some nw
      | Some i \<Rightarrow> map_option (\<lambda>as. nw\<lparr>nw_agents := as\<rparr>) (vec_modify (nw_agents nw) i f))"

definition network_capable_agents :: "simulated_network \<Rightarrow> task_type \<Rightarrow> simulated_agent list" where
  "network_capable_agents nw t = filter (\<lambda>a. sim_has_capability a t) (nw_agents nw)"

definition network_edge_latency :: "simulated_network \<Rightarrow> agent_id \<Rightarrow> agent_id \<Rightarrow> duration" where
  "network_edge_latency nw a b =
     (case find (\<lambda>e. el_from e = a \<and> el_to e = b) (nw_edges nw) of
        Some e \<Rightarrow> el_latency e | None \<Rightarrow> from_millis 50)"

definition network_agent_count :: "simulated_network \<Rightarrow> nat" where
  "network_agent_count nw = length (nw_agents nw)"

section \<open>What the generators draw\<close>

definition ends :: "edge_latency list \<Rightarrow> (agent_id \<times> agent_id) list" where
  "ends es = map (\<lambda>e. (el_from e, el_to e)) es"

definition latencies_in :: "nat \<Rightarrow> nat \<Rightarrow> edge_latency list \<Rightarrow> bool" where
  "latencies_in lo hi es \<longleftrightarrow> (\<forall>e \<in> set es. from_millis lo \<le> el_latency e \<and> el_latency e < from_millis hi)"

lemma ends_simps [simp]: "ends [] = []" "ends (e # es) = (el_from e, el_to e) # ends es"
  "ends (xs @ ys) = ends xs @ ends ys" "length (ends es) = length es"
  by (simp_all add: ends_def)

lemma latencies_in_simps [simp]: "latencies_in lo hi []"
  "latencies_in lo hi (e # es) \<longleftrightarrow> from_millis lo \<le> el_latency e \<and> el_latency e < from_millis hi
     \<and> latencies_in lo hi es"
  "latencies_in lo hi (xs @ ys) \<longleftrightarrow> latencies_in lo hi xs \<and> latencies_in lo hi ys"
  by (auto simp: latencies_in_def)

lemma latencies_in_weaken: "latencies_in lo hi es \<Longrightarrow> lo' \<le> lo \<Longrightarrow> hi \<le> hi' \<Longrightarrow> latencies_in lo' hi' es"
  by (force simp: latencies_in_def from_millis_def)

lemma from_millis_mono [simp]: "from_millis a \<le> from_millis b \<longleftrightarrow> a \<le> b"
  "from_millis a < from_millis b \<longleftrightarrow> a < b"
  by (simp_all add: from_millis_def)

lemma link_between_simps [simp]: "el_from (link_between a b ms) = sim_id a"
  "el_to (link_between a b ms) = sim_id b" "el_latency (link_between a b ms) = from_millis ms"
  by (simp_all add: link_between_def)

definition off_diagonal :: "simulated_agent list \<Rightarrow> (nat \<times> nat) list \<Rightarrow> (agent_id \<times> agent_id) list" where
  "off_diagonal agents ps =
     map (\<lambda>(i, j). (sim_id (agents ! i), sim_id (agents ! j))) (filter (\<lambda>(i, j). i \<noteq> j) ps)"

lemma full_loop:
  assumes "rand_sound e" "latencies_in 1 50 es"
  shows "ends (fst (foldl (full_step e agents) (es, r) ps)) = ends es @ off_diagonal agents ps
    \<and> latencies_in 1 50 (fst (foldl (full_step e agents) (es, r) ps))"
  using assms(2)
proof (induction ps arbitrary: es r)
  case Nil
  then show ?case by (simp add: off_diagonal_def)
next
  case (Cons p ps)
  obtain i j where p: "p = (i, j)" by fastforce
  obtain ms r' where ms: "rand_range e 1 50 r = (ms, r')" by fastforce
  have st: "full_step e agents (es, r) (i, j) = (if i \<noteq> j
      then (es @ [link_between (agents ! i) (agents ! j) ms], r') else (es, r))"
    using ms by (simp add: full_step_def)
  have "1 \<le> ms" "ms < 50" using rand_soundD(3,4) [OF assms(1), of 1 50 r] ms by simp_all
  then show ?case
    using Cons.IH [of es r] Cons.IH [of "es @ [link_between (agents ! i) (agents ! j) ms]" r'] Cons.prems
    by (simp add: p st off_diagonal_def)
qed

lemma random_loop:
  assumes "rand_sound e" "latencies_in 5 100 es"
  shows "(\<exists>sub. ends (fst (foldl (random_step e c agents) (es, r) ps)) = ends es @ sub
      \<and> subseq sub (off_diagonal agents ps))
    \<and> latencies_in 5 100 (fst (foldl (random_step e c agents) (es, r) ps))"
  using assms(2)
proof (induction ps arbitrary: es r)
  case Nil
  then show ?case by (simp add: off_diagonal_def)
next
  case (Cons p ps)
  obtain i j where p: "p = (i, j)" by fastforce
  obtain x r1 where x: "rand_f64 e r = (x, r1)" by fastforce
  obtain ms r' where ms: "rand_range e 5 100 r1 = (ms, r')" by fastforce
  have st: "random_step e c agents (es, r) (i, j) = (if i \<noteq> j then if x < c
      then (es @ [link_between (agents ! i) (agents ! j) ms], r') else (es, r1) else (es, r))"
    by (simp add: random_step_def x ms)
  have "5 \<le> ms" "ms < 100" using rand_soundD(3,4) [OF assms(1), of 5 100 r1] ms by simp_all
  then show ?case
    using Cons.IH [of es r] Cons.IH [of es r1]
      Cons.IH [of "es @ [link_between (agents ! i) (agents ! j) ms]" r'] Cons.prems
    by (auto simp: p st off_diagonal_def)
qed

text \<open>The ring: every agent and the next ones, in both directions.\<close>

definition ring_ends :: "simulated_agent list \<Rightarrow> (nat \<times> nat) list \<Rightarrow> (agent_id \<times> agent_id) list" where
  "ring_ends agents ps = concat (map (\<lambda>(i, k).
     let a = sim_id (agents ! i); b = sim_id (agents ! ((i + k) mod length agents)) in [(a, b), (b, a)]) ps)"

lemma ring_loop:
  assumes "rand_sound e" "latencies_in 5 50 es"
  shows "ends (fst (foldl (ring_step e agents) (es, r) ps)) = ends es @ ring_ends agents ps
    \<and> latencies_in 5 50 (fst (foldl (ring_step e agents) (es, r) ps))"
  using assms(2)
proof (induction ps arbitrary: es r)
  case Nil
  then show ?case by (simp add: ring_ends_def)
next
  case (Cons p ps)
  obtain i k where p: "p = (i, k)" by fastforce
  obtain ms r' where ms: "rand_range e 5 50 r = (ms, r')" by fastforce
  let ?es = "es @ [link_between (agents ! i) (agents ! ((i + k) mod length agents)) ms,
    link_between (agents ! ((i + k) mod length agents)) (agents ! i) ms]"
  have st: "ring_step e agents (es, r) (i, k) = (?es, r')" by (simp add: ring_step_def ms Let_def)
  have "5 \<le> ms" "ms < 50" using rand_soundD(3,4) [OF assms(1), of 5 50 r] ms by simp_all
  then show ?case
    using Cons.IH [of ?es r'] Cons.prems by (simp add: p st ring_ends_def Let_def)
qed

section \<open>Rewiring\<close>

text \<open>
  What rewiring makes of a list of edges: each one is kept, dropped, or redirected from the same
  source to another agent.
\<close>

inductive rewired :: "agent_id set \<Rightarrow> edge_latency list \<Rightarrow> edge_latency list \<Rightarrow> bool"
  for A :: "agent_id set" where
  rewired_Nil: "rewired A [] []"
| rewired_keep: "rewired A es es' \<Longrightarrow> rewired A (e # es) (e # es')"
| rewired_drop: "rewired A es es' \<Longrightarrow> rewired A (e # es) es'"
| rewired_redirect: "rewired A es es' \<Longrightarrow> b \<in> A \<Longrightarrow> b \<noteq> el_from e \<Longrightarrow> 5 \<le> ms \<Longrightarrow> ms < 100 \<Longrightarrow>
    rewired A (e # es) (\<lparr>el_from = el_from e, el_to = b, el_latency = from_millis ms\<rparr> # es')"

lemma rewire_rewired:
  assumes "rand_sound e" "agents \<noteq> []"
  shows "\<exists>es' r'. rewire e beta agents es r = Some (es', r') \<and> rewired (sim_id ` set agents) es es'"
proof (induction es arbitrary: r)
  case Nil
  then show ?case by (simp add: rewired_Nil)
next
  case (Cons edge es)
  obtain x r1 where x: "rand_f64 e r = (x, r1)" by fastforce
  obtain i r2 where i: "rand_range e 0 (length agents) r1 = (i, r2)" by fastforce
  obtain ms r3 where ms: "rand_range e 5 100 r2 = (ms, r3)" by fastforce
  have ms_in: "5 \<le> ms" "ms < 100" using rand_soundD(3,4) [OF assms(1), of 5 100 r2] ms by simp_all
  have il: "i < length agents" using rand_soundD(4) [OF assms(1), of 0 "length agents" r1] i assms(2) by simp
  then have mem: "sim_id (agents ! i) \<in> sim_id ` set agents" by simp
  note step = assms(2) il x i ms vec_at_def gen_range_def
  consider "\<not> x < beta" | "x < beta" "sim_id (agents ! i) = el_from edge"
    | "x < beta" "sim_id (agents ! i) \<noteq> el_from edge" by blast
  then show ?case
  proof cases
    case 1
    obtain es' r' where "rewire e beta agents es r1 = Some (es', r')" "rewired (sim_id ` set agents) es es'"
      using Cons.IH by blast
    then show ?thesis using 1 by (auto simp: step intro: rewired_keep)
  next
    case 2
    obtain es' r' where "rewire e beta agents es r2 = Some (es', r')" "rewired (sim_id ` set agents) es es'"
      using Cons.IH by blast
    then show ?thesis using 2 by (auto simp: step intro: rewired_drop)
  next
    case 3
    obtain es' r' where "rewire e beta agents es r3 = Some (es', r')" "rewired (sim_id ` set agents) es es'"
      using Cons.IH by blast
    then show ?thesis using 3 rewired_redirect [OF _ mem 3(2) ms_in] by (auto simp: step)
  qed
qed

lemma rewired_length: "rewired A es es' \<Longrightarrow> length es' \<le> length es"
  by (induction rule: rewired.induct) simp_all

lemma rewired_latencies: "rewired A es es' \<Longrightarrow> latencies_in 5 100 es \<Longrightarrow> latencies_in 5 100 es'"
  by (induction rule: rewired.induct) simp_all

lemma rewired_ends:
  "rewired A es es' \<Longrightarrow> (a, b) \<in> set (ends es') \<Longrightarrow>
   (a, b) \<in> set (ends es) \<or> a \<noteq> b \<and> b \<in> A \<and> a \<in> fst ` set (ends es)"
  by (induction rule: rewired.induct) auto

section \<open>The index\<close>

lemma index_agents_snoc:
  "index_agents (agents @ [a]) = (index_agents agents)(sim_id a \<mapsto> length agents)"
  by (simp add: index_agents_def enumerate_append_eq)

lemma index_agents_iff:
  assumes "distinct (map sim_id agents)"
  shows "index_agents agents a = Some i \<longleftrightarrow> i < length agents \<and> sim_id (agents ! i) = a"
  using assms
proof (induction agents rule: rev_induct)
  case Nil
  then show ?case by (simp add: index_agents_def)
next
  case (snoc x xs)
  have "sim_id (xs ! j) \<noteq> sim_id x" if "j < length xs" for j
    using snoc.prems imageI [OF nth_mem [OF that], of sim_id] by auto
  then show ?case using snoc by (auto simp: index_agents_snoc nth_append less_Suc_eq)
qed

lemma index_agents_None: "index_agents agents a = None \<longleftrightarrow> a \<notin> sim_id ` set agents"
  by (induction agents rule: rev_induct) (auto simp: index_agents_snoc, simp add: index_agents_def)

lemma network_lookup:
  assumes "nw_agent_index nw = index_agents (nw_agents nw)" "distinct (map sim_id (nw_agents nw))"
  shows "network_get_agent nw a = Some (find (\<lambda>x. sim_id x = a) (nw_agents nw))"
proof (cases "index_agents (nw_agents nw) a")
  case None
  then have "find (\<lambda>x. sim_id x = a) (nw_agents nw) = None"
    by (auto simp: index_agents_None find_None_iff)
  then show ?thesis using None assms(1) by (simp add: network_get_agent_def)
next
  case (Some i)
  then have i: "i < length (nw_agents nw)" "sim_id (nw_agents nw ! i) = a"
    using index_agents_iff [OF assms(2)] by blast+
  moreover have "sim_id (nw_agents nw ! j) \<noteq> a" if "j < i" for j
    using assms(2) i that nth_eq_iff_index_eq [of "map sim_id (nw_agents nw)" j i] by auto
  ultimately have "find (\<lambda>x. sim_id x = a) (nw_agents nw) = Some (nw_agents nw ! i)"
    by (auto simp: find_Some_iff)
  then show ?thesis using Some i assms(1) by (simp add: network_get_agent_def vec_at_def)
qed

section \<open>The topologies\<close>

definition agent_ids :: "simulated_agent list \<Rightarrow> agent_id set" where
  "agent_ids agents = sim_id ` set agents"

definition all_pairs :: "nat \<Rightarrow> (nat \<times> nat) list" where
  "all_pairs n = List.product [0..<n] [0..<n]"

lemma off_diagonal_pairs:
  assumes "distinct (map sim_id agents)"
  shows "distinct (off_diagonal agents (all_pairs (length agents)))"
    and "set (off_diagonal agents (all_pairs (length agents))) =
      {(a, b). a \<in> agent_ids agents \<and> b \<in> agent_ids agents \<and> a \<noteq> b}"
proof -
  let ?n = "length agents" and ?id = "\<lambda>i. sim_id (agents ! i)"
  have eq: "?id i = ?id j \<longleftrightarrow> i = j" if "i < ?n" "j < ?n" for i j
    using nth_eq_iff_index_eq [OF assms, of i j] that by simp
  have inj: "inj_on (\<lambda>(i, j). (?id i, ?id j)) (set (all_pairs ?n))"
    using eq by (auto simp: inj_on_def all_pairs_def)
  show "distinct (off_diagonal agents (all_pairs ?n))"
    using inj by (auto simp: off_diagonal_def distinct_map all_pairs_def distinct_product
        intro: inj_on_subset)
  have "a \<in> agent_ids agents \<longleftrightarrow> (\<exists>i < ?n. ?id i = a)" for a
    using in_set_conv_nth [of a "map sim_id agents"] by (auto simp: agent_ids_def)
  then show "set (off_diagonal agents (all_pairs ?n)) =
      {(a, b). a \<in> agent_ids agents \<and> b \<in> agent_ids agents \<and> a \<noteq> b}"
    using eq by (auto simp: off_diagonal_def all_pairs_def image_iff)
qed

lemma subseq_keeps: "subseq xs ys \<Longrightarrow> distinct ys \<Longrightarrow> distinct xs \<and> set xs \<subseteq> set ys"
  by (auto simp: subseq_conv_nths set_nths)

lemma ring_ends_length: "length (ring_ends agents ps) = 2 * length ps"
  by (induction ps) (auto simp: ring_ends_def Let_def)

lemma ring_ends_mem:
  assumes "(a, b) \<in> set (ring_ends agents (List.product [0..<length agents] [1..<Suc h]))"
  obtains i k where "i < length agents" "1 \<le> k" "k \<le> h"
    "{a, b} = {sim_id (agents ! i), sim_id (agents ! ((i + k) mod length agents))}"
proof -
  from assms obtain i k where "i < length agents" "1 \<le> k" "k < Suc h"
    "(a, b) \<in> {(sim_id (agents ! i), sim_id (agents ! ((i + k) mod length agents))),
      (sim_id (agents ! ((i + k) mod length agents)), sim_id (agents ! i))}"
    by (auto simp: ring_ends_def Let_def)
  then show ?thesis using that [of i k] by auto
qed

lemma ring_ends_ids:
  assumes "(a, b) \<in> set (ring_ends agents (List.product [0..<length agents] [1..<Suc h]))"
  shows "a \<in> agent_ids agents \<and> b \<in> agent_ids agents"
proof -
  obtain i k where ik: "i < length agents"
    "{a, b} = {sim_id (agents ! i), sim_id (agents ! ((i + k) mod length agents))}"
    using ring_ends_mem [OF assms] by metis
  then have "(i + k) mod length agents < length agents" by (intro mod_less_divisor) auto
  then show ?thesis using ik by (auto simp: agent_ids_def doubleton_eq_iff)
qed

lemma ring_no_loop:
  assumes "distinct (map sim_id agents)" "h < length agents"
    and "(a, b) \<in> set (ring_ends agents (List.product [0..<length agents] [1..<Suc h]))"
  shows "a \<noteq> b"
proof
  assume ab: "a = b"
  obtain i k where ik: "i < length agents" "1 \<le> k" "k \<le> h"
    "{a, b} = {sim_id (agents ! i), sim_id (agents ! ((i + k) mod length agents))}"
    using ring_ends_mem [OF assms(3)] by metis
  let ?j = "(i + k) mod length agents"
  have "?j < length agents" using ik(1) by (intro mod_less_divisor) auto
  moreover have "sim_id (agents ! i) = sim_id (agents ! ?j)" using ab ik(4) by auto
  ultimately have "i = ?j" using nth_eq_iff_index_eq [OF assms(1), of i ?j] ik(1) by simp
  then show False
  proof (cases "i + k < length agents")
    case True
    then show False using \<open>i = ?j\<close> ik(2) by simp
  next
    case False
    then have "?j = i + k - length agents" using ik(1,3) assms(2) by (simp add: le_mod_geq)
    then show False using \<open>i = ?j\<close> False ik(3) assms(2) by linarith
  qed
qed

text \<open>What the edges of a network look like, for each topology.\<close>

definition edges_match :: "network_topology \<Rightarrow> simulated_agent list \<Rightarrow> edge_latency list \<Rightarrow> bool" where
  "edges_match topology agents es =
     (case topology of
        FullyConnected \<Rightarrow> distinct (ends es) \<and> latencies_in 1 50 es
          \<and> set (ends es) = {(a, b). a \<in> agent_ids agents \<and> b \<in> agent_ids agents \<and> a \<noteq> b}
      | RandomTopology _ \<Rightarrow> distinct (ends es) \<and> latencies_in 5 100 es
          \<and> set (ends es) \<subseteq> {(a, b). a \<in> agent_ids agents \<and> b \<in> agent_ids agents \<and> a \<noteq> b}
      | SmallWorld k _ \<Rightarrow> length es \<le> 2 * (length agents * (k div 2)) \<and> latencies_in 5 100 es
          \<and> set (ends es) \<subseteq> agent_ids agents \<times> agent_ids agents
          \<and> (k div 2 < length agents \<longrightarrow> (\<forall>(a, b) \<in> set (ends es). a \<noteq> b)))"

lemma small_world_match:
  assumes "rand_sound e" "distinct (map sim_id agents)"
  shows "\<exists>es r'. generate_edges e (SmallWorld k beta) agents r = Some (es, r')
    \<and> edges_match (SmallWorld k beta) agents es"
proof -
  let ?ps = "List.product [0..<length agents] [1..<Suc (k div 2)]"
  obtain es0 r0 where ring: "foldl (ring_step e agents) ([], r) ?ps = (es0, r0)" by fastforce
  have es0: "ends es0 = ring_ends agents ?ps" "latencies_in 5 50 es0"
    using ring_loop [OF assms(1), of "[]" agents r ?ps] ring by simp_all
  obtain es r' where rw: "rewire e beta agents es0 r0 = Some (es, r')" "rewired (agent_ids agents) es0 es"
  proof (cases "agents = []")
    case True
    then have "es0 = []" using es0(1) ends_simps(4) [of es0] by (simp add: ring_ends_def)
    then show ?thesis using that [of "[]" r0] by (simp add: rewired_Nil)
  next
    case False
    then show ?thesis using rewire_rewired [OF assms(1) False] that unfolding agent_ids_def by blast
  qed
  have "length es0 = 2 * (length agents * (k div 2))"
    using es0(1) ends_simps(4) [of es0] by (simp add: ring_ends_length del: ends_simps upt_Suc)
  then have "length es \<le> 2 * (length agents * (k div 2))" using rewired_length [OF rw(2)] by simp
  moreover have "latencies_in 5 100 es"
    using rewired_latencies [OF rw(2)] latencies_in_weaken [OF es0(2), of 5 100] by simp
  moreover have "set (ends es) \<subseteq> agent_ids agents \<times> agent_ids agents"
    using rewired_ends [OF rw(2)] es0(1) ring_ends_ids by fastforce
  moreover have "a \<noteq> b" if "k div 2 < length agents" "(a, b) \<in> set (ends es)" for a b
    using rewired_ends [OF rw(2) that(2)] es0(1) ring_no_loop [OF assms(2) that(1)] by auto
  ultimately have "edges_match (SmallWorld k beta) agents es" by (auto simp: edges_match_def)
  then show ?thesis using rw(1) ring by (simp add: generate_edges_def Let_def del: upt_Suc)
qed

lemma generate_edges_match:
  assumes "rand_sound e" "distinct (map sim_id agents)"
  shows "\<exists>es r'. generate_edges e topology agents r = Some (es, r') \<and> edges_match topology agents es"
proof (cases topology)
  case FullyConnected
  obtain es r' where f: "foldl (full_step e agents) ([], r) (all_pairs (length agents)) = (es, r')" by fastforce
  then have "ends es = off_diagonal agents (all_pairs (length agents))" "latencies_in 1 50 es"
    using full_loop [OF assms(1), of "[]" agents r "all_pairs (length agents)"] by simp_all
  then have "edges_match FullyConnected agents es"
    using off_diagonal_pairs [OF assms(2)] by (simp add: edges_match_def)
  then show ?thesis using f FullyConnected by (simp add: generate_edges_def all_pairs_def Let_def)
next
  case (RandomTopology c)
  obtain es r' where f: "foldl (random_step e c agents) ([], r) (all_pairs (length agents)) = (es, r')" by fastforce
  then have s: "subseq (ends es) (off_diagonal agents (all_pairs (length agents)))" "latencies_in 5 100 es"
    using random_loop [OF assms(1), of "[]" c agents r "all_pairs (length agents)"] by auto
  then have "edges_match (RandomTopology c) agents es"
    using off_diagonal_pairs [OF assms(2)] subseq_keeps [OF s(1)] by (auto simp: edges_match_def)
  then show ?thesis using f RandomTopology by (simp add: generate_edges_def all_pairs_def Let_def)
next
  case (SmallWorld k beta)
  then show ?thesis using small_world_match [OF assms] by simp
qed

section \<open>The benchmark network\<close>

lemma sim_id_simps [simp]:
  "sim_id (budget_agent st a ts) = a" "sim_id (standard_agent st a ts) = a"
  "sim_id (premium_agent st a ts) = a" "sim_id (specialist_agent st a t) = a"
  "sim_id (unreliable_agent st a ts) = a"
  by (simp_all add: simulated_agent_new_def budget_agent_def standard_agent_def premium_agent_def
      specialist_agent_def unreliable_agent_def)

lemma archetype_capabilities [simp]:
  "sim_capabilities (budget_agent st a ts) = map budget_cap ts"
  "sim_capabilities (standard_agent st a ts) = map standard_cap ts"
  "sim_capabilities (premium_agent st a ts) = map premium_cap ts"
  "sim_capabilities (specialist_agent st a t) = [specialist_cap t]"
  "sim_capabilities (unreliable_agent st a ts) = map unreliable_cap ts"
  by (simp_all add: simulated_agent_new_def budget_agent_def standard_agent_def premium_agent_def
      specialist_agent_def unreliable_agent_def)

lemma archetype_task_type [simp]:
  "sc_task_type (budget_cap t) = t" "sc_task_type (standard_cap t) = t"
  "sc_task_type (premium_cap t) = t" "sc_task_type (specialist_cap t) = t"
  "sc_task_type (unreliable_cap t) = t"
  by (simp_all add: budget_cap_def standard_cap_def premium_cap_def specialist_cap_def unreliable_cap_def)

definition benchmark_specialists :: "(nat \<Rightarrow> agent_stamp) \<Rightarrow> (nat \<Rightarrow> agent_id) \<Rightarrow> simulated_agent list" where
  "benchmark_specialists st ids =
     concat (map (\<lambda>(k, t). map (\<lambda>j. specialist_agent (st (33 + 3 * k + j)) (ids (33 + 3 * k + j)) t)
         [0..<3]) (enumerate 0 all_task_types))"

lemma specialists_eq:
  "benchmark_specialists st ids =
     map (\<lambda>(i, t). specialist_agent (st i) (ids i) t)
       [(33, CodeGeneration), (34, CodeGeneration), (35, CodeGeneration), (36, Analysis), (37, Analysis),
        (38, Analysis), (39, CreativeWriting), (40, CreativeWriting), (41, CreativeWriting),
        (42, DataProcessing), (43, DataProcessing), (44, DataProcessing)]"
proof -
  have three: "[0..<3] = [0, 1, 2]" by (simp add: upt_rec)
  show ?thesis by (simp add: benchmark_specialists_def all_task_types_def three)
qed

lemma in_all_task_types [simp]: "t \<in> set all_task_types"
  by (cases t) (simp_all add: all_task_types_def)

lemma specialists_capable:
  "length (filter (\<lambda>a. sim_has_capability a t) (benchmark_specialists st ids)) = 3"
  by (cases t) (simp_all add: specialists_eq sim_has_capability_def)

lemma benchmark_split:
  "benchmark_agents st ids =
     map (\<lambda>i. budget_agent (st i) (ids i) all_task_types) [0..<10]
     @ map (\<lambda>i. standard_agent (st i) (ids i) all_task_types) [10..<25]
     @ map (\<lambda>i. premium_agent (st i) (ids i) all_task_types) [25..<33]
     @ benchmark_specialists st ids
     @ map (\<lambda>i. unreliable_agent (st i) (ids i) all_task_types) [45..<50]"
  by (simp add: benchmark_agents_def benchmark_specialists_def)

lemma benchmark_ids: "map sim_id (benchmark_agents st ids) = map ids [0..<50]"
proof -
  have s: "map sim_id (benchmark_specialists st ids) = map ids [33..<45]"
    by (simp add: specialists_eq upt_rec)
  have "[0..<50] = [0..<10] @ [10..<25] @ [25..<33] @ [33..<45] @ [45..<50]" by (simp add: upt_rec)
  then show ?thesis by (simp only: benchmark_split map_append map_map s) (simp add: comp_def)
qed

lemma benchmark_length: "length (benchmark_agents st ids) = 50"
  using arg_cong [OF benchmark_ids [of st ids], of length] by simp

lemma benchmark_agents_ok: "\<forall>a \<in> set (benchmark_agents st ids). sim_agent_ok a"
  by (auto simp: benchmark_split specialists_eq)

text \<open>Every type of task has 41 capable agents: all but the specialists of the other types.\<close>

lemma benchmark_capable:
  "length (filter (\<lambda>a. sim_has_capability a t) (benchmark_agents st ids)) = 41"
proof -
  have all: "sim_has_capability (budget_agent s a all_task_types) t"
    "sim_has_capability (standard_agent s a all_task_types) t"
    "sim_has_capability (premium_agent s a all_task_types) t"
    "sim_has_capability (unreliable_agent s a all_task_types) t" for s a
    by (auto simp: sim_has_capability_def)
  show ?thesis
    by (simp add: benchmark_split specialists_capable filter_map comp_def all)
qed

lemma benchmark_network_new:
  "benchmark_network e st ids seed =
     network_new e (benchmark_agents st ids) (SmallWorld 6 (to_f64 (3 / 10))) seed"
  by (simp add: benchmark_network_def network_new_def Let_def)

section \<open>Properties\<close>

text \<open>
  Building a simulated network never fails; its edges are those of its topology (all ordered
  pairs of different agents, each once; some of them; or a rewired ring, with at most \<open>k/2\<close> edges
  in either direction per agent and, when the network has more than \<open>k/2\<close> agents, no loops), with
  latencies in the range of the topology; and looking an agent up by its identifier finds it.
\<close>

lemma network_construction_correct:
  assumes "rand_sound e" and "distinct (map sim_id agents)"
  shows "\<exists>nw. network_new e agents topology seed = Some nw \<and> nw_agents nw = agents
    \<and> edges_match topology agents (nw_edges nw)
    \<and> (\<forall>a. network_get_agent nw a = Some (find (\<lambda>x. sim_id x = a) agents))"
proof -
  obtain es r' where "generate_edges e topology agents (rand_seed e seed) = Some (es, r')"
    "edges_match topology agents es" using generate_edges_match [OF assms] by blast
  then show ?thesis
    using network_lookup [of "\<lparr>nw_agents = agents, nw_topology = topology, nw_edges = es,
      nw_agent_index = index_agents agents\<rparr>"] assms(2)
    by (simp add: network_new_def)
qed

text \<open>A generator that always draws the smallest value, and the mean of a distribution.\<close>

definition still_rand :: "unit sim_env" where
  "still_rand =
     \<lparr>se_libm = flat_libm, se_ln = (\<lambda>x. x), rand_seed = (\<lambda>_. ()), rand_f64 = (\<lambda>r. (0, r)),
      rand_u8 = (\<lambda>r. (0, r)), rand_range = (\<lambda>a b r. (a, r)),
      rand_normal = (\<lambda>m s. if is_finite m \<and> is_finite s then Some (\<lambda>r. (m, r)) else None),
      rand_log_normal = (\<lambda>m s. if is_finite s then Some (\<lambda>r. (1, r)) else None)\<rparr>"

lemma still_rand_sound: "rand_sound still_rand"
proof -
  have "m \<noteq> NaN" if "is_finite m" for m using that by (auto simp: is_finite_def)
  moreover have "(0 :: f64) \<le> 0" "(0 :: f64) < 1" by (simp_all add: f64_zero_one_Fin)
  ultimately show ?thesis by (auto simp: rand_sound_def still_rand_def)
qed

lemma benchmark_ids_distinct: "distinct (map sim_id (benchmark_agents st (\<lambda>i. AgentId (of_nat i))))"
proof -
  have "inj_on (\<lambda>i. AgentId (of_nat i)) {..<50 :: nat}"
    by (auto simp: inj_on_def word_of_nat_eq_iff take_bit_nat_eq_self)
  then show ?thesis by (simp add: benchmark_ids distinct_map atLeast_upt)
qed

lemma network_construction_correct_example:
  "\<exists>nw. benchmark_network still_rand (\<lambda>_. ((\<lambda>_. []), 0)) (\<lambda>i. AgentId (of_nat i)) 42 = Some nw
     \<and> length (nw_edges nw) \<le> 300"
  using network_construction_correct [OF still_rand_sound benchmark_ids_distinct,
      of "\<lambda>_. ((\<lambda>_. []), 0)" "SmallWorld 6 (to_f64 (3 / 10))" 42]
  by (auto simp: benchmark_network_new edges_match_def benchmark_length)

text \<open>
  The ring does not check its size: with at most \<open>k/2\<close> agents it links an agent to itself.
\<close>

lemma small_ring_loops:
  "\<exists>nw. network_new still_rand [a] (SmallWorld 2 0) seed = Some nw
     \<and> (sim_id a, sim_id a) \<in> set (ends (nw_edges nw))"
  by (simp add: network_new_def generate_edges_def ring_step_def still_rand_def Let_def link_between_def)

end
