(* ===== verification/Harness.thy ===== *)
theory Harness
  imports Sim_Network
begin

text \<open>
  The benchmark harness of \<open>atp-sim\<close> (\<open>harness.rs\<close>): seven ways of choosing an agent, run over a
  list of tasks. The local variables of \<open>run_scenario\<close> are one record, the generator among them.
  The stopwatch readings are arguments: \<open>routed i\<close> for the choice of the \<open>i\<close>-th task, \<open>recovered i j\<close>
  for its \<open>j\<close>-th retry. The outer \<open>option\<close> is a panic.
\<close>

datatype scenario =
  Sequential | RoundRobin | FullAtp | AtpNoContext | AtpNoRouting | AtpNoTrust | AtpNoFault

fun show_scenario :: "scenario \<Rightarrow> string" where
  "show_scenario Sequential = ''Sequential''"
| "show_scenario RoundRobin = ''Round-Robin''"
| "show_scenario FullAtp = ''ATP (full)''"
| "show_scenario AtpNoContext = ''ATP w/o SCD''"
| "show_scenario AtpNoRouting = ''ATP w/o routing''"
| "show_scenario AtpNoTrust = ''ATP w/o trust''"
| "show_scenario AtpNoFault = ''ATP w/o fault''"

record bench_metrics =
  bm_scenario :: string
  bm_total_tasks :: nat
  bm_tasks_completed :: nat
  bm_tasks_failed :: nat
  bm_total_cost :: f64
  bm_avg_cost_per_task :: f64
  bm_avg_latency_ms :: f64
  bm_p50_latency_ms :: f64
  bm_p95_latency_ms :: f64
  bm_p99_latency_ms :: f64
  bm_avg_quality :: f64
  bm_fault_recovery_ms :: f64
  bm_context_efficiency :: f64
  bm_routing_time_us :: f64

record sim_harness =
  sh_network :: simulated_network
  sh_clock :: simulated_clock
  sh_seed :: u64

definition harness_new :: "simulated_network \<Rightarrow> u64 \<Rightarrow> sim_harness" where
  "harness_new nw seed = \<lparr>sh_network = nw, sh_clock = clock_new, sh_seed = seed\<rparr>"

definition harness_benchmark ::
  "'r sim_env \<Rightarrow> (nat \<Rightarrow> agent_stamp) \<Rightarrow> (nat \<Rightarrow> agent_id) \<Rightarrow> u64 \<Rightarrow> sim_harness option" where
  "harness_benchmark e st ids seed =
     map_option (\<lambda>nw. harness_new nw seed) (benchmark_network e st ids seed)"

section \<open>The running totals\<close>

type_synonym track_record = "agent_id \<times> task_type \<rightharpoonup> f64 list"

record 'r tally =
  tl_rng :: 'r
  tl_latencies :: "duration list"
  tl_qualities :: "f64 list"
  tl_total_cost :: f64
  tl_completed :: nat
  tl_failed :: nat
  tl_context_sent :: u64
  tl_context_full :: u64
  tl_routing_time :: duration
  tl_fault_recovery_times :: "f64 list"
  tl_trust_scores :: track_record
  tl_rr_counters :: "task_type \<rightharpoonup> nat"

definition tally_start :: "'r \<Rightarrow> 'r tally" where
  "tally_start r =
     \<lparr>tl_rng = r, tl_latencies = [], tl_qualities = [], tl_total_cost = 0, tl_completed = 0,
      tl_failed = 0, tl_context_sent = 0, tl_context_full = 0, tl_routing_time = 0,
      tl_fault_recovery_times = [], tl_trust_scores = Map.empty, tl_rr_counters = Map.empty\<rparr>"

text \<open>\<open>entry(key).or_default().push(q)\<close>.\<close>

definition push_trust :: "agent_id \<Rightarrow> task_type \<Rightarrow> f64 \<Rightarrow> 'r tally \<Rightarrow> 'r tally" where
  "push_trust a t q acc = acc\<lparr>tl_trust_scores := (tl_trust_scores acc)((a, t) \<mapsto>
     (case tl_trust_scores acc (a, t) of None \<Rightarrow> [] | Some qs \<Rightarrow> qs) @ [q])\<rparr>"

text \<open>The four updates for a completed task.\<close>

definition count_completed :: "duration \<Rightarrow> f64 \<Rightarrow> f64 \<Rightarrow> 'r tally \<Rightarrow> 'r tally" where
  "count_completed latency quality cost acc =
     acc\<lparr>tl_latencies := tl_latencies acc @ [latency], tl_qualities := tl_qualities acc @ [quality],
        tl_total_cost := tl_total_cost acc + cost, tl_completed := tl_completed acc + 1\<rparr>"

definition CONTEXT_COST_FRACTION :: f64 where
  "CONTEXT_COST_FRACTION = to_f64 (55 / 100)"

definition effective_cost :: "f64 \<Rightarrow> bool \<Rightarrow> f64" where
  "effective_cost base_cost scd =
     (if scd
      then (let compression_ratio = to_f64 28;
                savings = CONTEXT_COST_FRACTION * (1 - 1 / compression_ratio)
            in base_cost * (1 - savings))
      else base_cost)"

definition compute_transfer_latency :: "u64 \<Rightarrow> duration" where
  "compute_transfer_latency context_size =
     (if 10000 < context_size
      then from_millis (unat (f64_to_u64 (f64_of_nat (unat context_size) / to_f64 10000 * to_f64 50)))
      else from_millis 10)"

definition is_complex_task :: "task_type \<Rightarrow> bool" where
  "is_complex_task t \<longleftrightarrow> t = CodeGeneration \<or> t = Analysis"

section \<open>Choosing an agent\<close>

definition cost_for :: "task_type \<Rightarrow> simulated_agent \<Rightarrow> f64" where
  "cost_for t a = (case sim_get_capability a t of Some c \<Rightarrow> sc_cost c | None \<Rightarrow> F64_MAX)"

text \<open>
  \<open>min_by\<close> keeps the first of the smallest elements; the comparison panics on NaN, and the final
  \<open>unwrap\<close> on an empty list.
\<close>

fun min_by_cost :: "task_type \<Rightarrow> simulated_agent \<Rightarrow> simulated_agent list \<Rightarrow> simulated_agent option" where
  "min_by_cost t best [] = Some best"
| "min_by_cost t best (a # rest) =
     (if cost_for t best = NaN \<or> cost_for t a = NaN then None
      else min_by_cost t (if cost_for t a < cost_for t best then a else best) rest)"

definition find_draft_agent :: "simulated_agent list \<Rightarrow> sim_task \<Rightarrow> simulated_agent option" where
  "find_draft_agent capable task =
     (case capable of [] \<Rightarrow> None | a # rest \<Rightarrow> min_by_cost (stask_type task) a rest)"

definition select_cheapest_agent :: "simulated_agent list \<Rightarrow> sim_task \<Rightarrow> simulated_agent option" where
  "select_cheapest_agent capable task =
     (case capable of [] \<Rightarrow> None | a # rest \<Rightarrow> min_by_cost (stask_type task) a rest)"

definition effective_quality ::
  "libm \<Rightarrow> track_record \<Rightarrow> agent_id \<Rightarrow> task_type \<Rightarrow> simulated_capability \<Rightarrow> f64" where
  "effective_quality lm trust_scores a t cap =
     (case trust_scores (a, t) of
        None \<Rightarrow> sc_quality_mean cap
      | Some scores \<Rightarrow>
          (let n = f64_of_nat (length scores);
               avg = f64_sum scores / n;
               confidence = 1 - lm_exp lm (- n / to_f64 10)
           in sc_quality_mean cap * (1 - confidence) + avg * confidence))"

definition agent_score ::
  "libm \<Rightarrow> track_record \<Rightarrow> sim_task \<Rightarrow> bool \<Rightarrow> simulated_agent \<Rightarrow> f64 option" where
  "agent_score lm trust_scores task is_complex a = do {
     cap \<leftarrow> sim_get_capability a (stask_type task);
     let eq = effective_quality lm trust_scores (sim_id a) (stask_type task) cap;
     let cost_eff = eq / f64_max (sc_cost cap) (to_f64 (1 / 1000));
     let quality_power = (if is_complex then eq * eq else eq * eq * eq);
     let latency_penalty =
       sc_latency_mean_ms cap / f64_of_nat (as_millis (max_latency (stask_qos task)));
     Some (if is_complex
       then quality_power * to_f64 5 + cost_eff * to_f64 (1 / 10) - latency_penalty * to_f64 (3 / 10)
       else quality_power * to_f64 8 + cost_eff * to_f64 (3 / 10) - latency_penalty * to_f64 (3 / 10))
   }"

fun best_loop ::
  "(simulated_agent \<Rightarrow> f64 option) \<Rightarrow> f64 \<Rightarrow> simulated_agent \<Rightarrow> simulated_agent list \<Rightarrow>
   simulated_agent option" where
  "best_loop score best_score best [] = Some best"
| "best_loop score best_score best (a # rest) = do {
     s \<leftarrow> score a;
     if best_score < s then best_loop score s a rest else best_loop score best_score best rest
   }"

definition qualifies :: "f64 \<Rightarrow> task_type \<Rightarrow> simulated_agent \<Rightarrow> bool" where
  "qualifies quality_floor t a =
     (case sim_get_capability a t of Some c \<Rightarrow> quality_floor \<le> sc_quality_mean c | None \<Rightarrow> False)"

definition select_best_agent ::
  "libm \<Rightarrow> simulated_agent list \<Rightarrow> sim_task \<Rightarrow> track_record \<Rightarrow> bool \<Rightarrow> simulated_agent option" where
  "select_best_agent lm capable task trust_scores is_complex =
     (let quality_floor = (if is_complex then to_f64 (85 / 100) else to_f64 (82 / 100));
          qualifying = filter (qualifies quality_floor (stask_type task)) capable;
          candidates = (if qualifying = [] then capable else qualifying)
      in do {
        first \<leftarrow> vec_at candidates 0;
        best_loop (agent_score lm trust_scores task is_complex) NInf first candidates
      })"

section \<open>Fault recovery\<close>

text \<open>The loop over the backups; the Boolean is \<open>retried\<close>, and the loop stops when it is set.\<close>

fun recovery_loop ::
  "'r sim_env \<Rightarrow> (nat \<Rightarrow> duration) \<Rightarrow> nat \<Rightarrow> simulated_agent \<Rightarrow> task_type \<Rightarrow> u64 \<Rightarrow>
   simulated_task_result \<Rightarrow> bool \<Rightarrow> simulated_agent list \<Rightarrow> 'r tally \<Rightarrow> ('r tally \<times> bool) option" where
  "recovery_loop e elapsed j failed t context_size original scd [] acc = Some (acc, False)"
| "recovery_loop e elapsed j failed t context_size original scd (backup # rest) acc =
     (if sim_id backup \<noteq> sim_id failed then do {
        (retry, r) \<leftarrow> sim_execute_task e backup t (tl_rng acc);
        let acc = acc\<lparr>tl_rng := r, tl_fault_recovery_times := tl_fault_recovery_times acc
          @ [f64_of_nat (as_millis (elapsed j))]\<rparr>;
        if str_success retry then do {
          l1 \<leftarrow> dur_add (str_latency original) (str_latency retry);
          l2 \<leftarrow> dur_add l1 (from_millis 500);
          l3 \<leftarrow> dur_add l2 (compute_transfer_latency context_size);
          Some (push_trust (sim_id backup) t (str_quality retry)
            (count_completed l3 (str_quality retry) (effective_cost (str_cost retry) scd) acc), True)
        }
        else recovery_loop e elapsed (Suc j) failed t context_size original scd rest acc
      }
      else recovery_loop e elapsed j failed t context_size original scd rest acc)"

definition handle_fault_recovery ::
  "'r sim_env \<Rightarrow> (nat \<Rightarrow> duration) \<Rightarrow> scenario \<Rightarrow> simulated_agent list \<Rightarrow> simulated_agent \<Rightarrow>
   sim_task \<Rightarrow> u64 \<Rightarrow> simulated_task_result \<Rightarrow> bool \<Rightarrow> 'r tally \<Rightarrow> 'r tally option" where
  "handle_fault_recovery e elapsed scenario capable failed task context_size original scd acc =
     (if scenario \<in> {FullAtp, AtpNoContext, AtpNoRouting, AtpNoTrust} then do {
        (acc, retried) \<leftarrow> recovery_loop e elapsed 0 failed (stask_type task) context_size original
          scd capable acc;
        Some (if \<not> retried then acc\<lparr>tl_failed := tl_failed acc + 1\<rparr> else acc)
      }
      else Some (acc\<lparr>tl_failed := tl_failed acc + 1,
        tl_fault_recovery_times := tl_fault_recovery_times acc @ [PInf]\<rparr>))"

section \<open>One task\<close>

text \<open>\<open>f64::ceil\<close>.\<close>

definition f64_ceil :: "f64 \<Rightarrow> f64" where
  "f64_ceil x = (case x of Fin q \<Rightarrow> Fin (of_int \<lceil>q\<rceil>) | _ \<Rightarrow> x)"

definition scd_size :: "nat \<Rightarrow> u64" where
  "scd_size full = f64_to_u64 (f64_ceil (f64_of_nat full / to_f64 28))"

definition scenario_scd :: "scenario \<Rightarrow> bool" where
  "scenario_scd scenario \<longleftrightarrow> scenario \<in> {FullAtp, AtpNoRouting, AtpNoTrust, AtpNoFault}"

definition scenario_complex :: "scenario \<Rightarrow> task_type \<Rightarrow> bool" where
  "scenario_complex scenario t \<longleftrightarrow> scenario \<in> {FullAtp, AtpNoContext, AtpNoFault} \<and> is_complex_task t"

definition select_agent ::
  "'r sim_env \<Rightarrow> scenario \<Rightarrow> simulated_agent list \<Rightarrow> sim_task \<Rightarrow> 'r tally \<Rightarrow>
   (simulated_agent \<times> 'r tally) option" where
  "select_agent e scenario capable task acc =
     (let t = stask_type task
      in case scenario of
           Sequential \<Rightarrow> do { a \<leftarrow> vec_at capable 0; Some (a, acc) }
         | RoundRobin \<Rightarrow>
             (let counter = (case tl_rr_counters acc t of None \<Rightarrow> 0 | Some n \<Rightarrow> n)
              in do {
                a \<leftarrow> vec_at capable (counter mod length capable);
                Some (a, acc\<lparr>tl_rr_counters := (tl_rr_counters acc)(t \<mapsto> counter + 1)\<rparr>)
              })
         | AtpNoRouting \<Rightarrow> do {
             (i, r) \<leftarrow> gen_range e 0 (length capable) (tl_rng acc);
             a \<leftarrow> vec_at capable i;
             Some (a, acc\<lparr>tl_rng := r\<rparr>)
           }
         | AtpNoTrust \<Rightarrow> do { a \<leftarrow> select_cheapest_agent capable task; Some (a, acc) }
         | _ \<Rightarrow> do {
             a \<leftarrow> select_best_agent (se_libm e) capable task (tl_trust_scores acc) (scenario_complex scenario t);
             Some (a, acc)
           })"

definition count_context :: "scenario \<Rightarrow> nat \<Rightarrow> 'r tally \<Rightarrow> u64 \<times> 'r tally" where
  "count_context scenario full acc =
     (let cs = (if scenario_scd scenario then scd_size full else of_nat full)
      in (cs, acc\<lparr>tl_context_sent := tl_context_sent acc + cs,
                    tl_context_full := tl_context_full acc + of_nat full\<rparr>))"

text \<open>A task that one agent runs alone, with the recovery if it fails.\<close>

definition run_direct ::
  "'r sim_env \<Rightarrow> (nat \<Rightarrow> duration) \<Rightarrow> scenario \<Rightarrow> simulated_agent list \<Rightarrow> simulated_agent \<Rightarrow>
   sim_task \<Rightarrow> u64 \<Rightarrow> 'r tally \<Rightarrow> 'r tally option" where
  "run_direct e recovered scenario capable a task cs acc = do {
     (res, r) \<leftarrow> sim_execute_task e a (stask_type task) (tl_rng acc);
     let acc = acc\<lparr>tl_rng := r\<rparr>;
     if \<not> str_success res
     then handle_fault_recovery e recovered scenario capable a task cs res (scenario_scd scenario) acc
     else do {
       latency \<leftarrow> dur_add (str_latency res) (compute_transfer_latency cs);
       Some (push_trust (str_agent_id res) (stask_type task) (str_quality res)
         (count_completed latency (str_quality res)
           (effective_cost (str_cost res) (scenario_scd scenario)) acc))
     }
   }"

text \<open>The draft-refine branch; a failed draft leaves the refining agent to run the task alone.\<close>

definition run_draft_refine ::
  "'r sim_env \<Rightarrow> (nat \<Rightarrow> duration) \<Rightarrow> scenario \<Rightarrow> simulated_agent list \<Rightarrow> simulated_agent \<Rightarrow>
   sim_task \<Rightarrow> u64 \<Rightarrow> 'r tally \<Rightarrow> 'r tally option" where
  "run_draft_refine e recovered scenario capable refine_agent task cs acc =
     (let t = stask_type task; scd = scenario_scd scenario
      in do {
        draft_agent \<leftarrow> find_draft_agent capable task;
        (draft, r) \<leftarrow> sim_execute_task e draft_agent t (tl_rng acc);
        let acc = acc\<lparr>tl_rng := r\<rparr>;
        if \<not> str_success draft
        then run_direct e recovered scenario capable refine_agent task cs acc
        else do {
          (refine, r) \<leftarrow> sim_execute_task e refine_agent t (tl_rng acc);
          let acc = acc\<lparr>tl_rng := r\<rparr>;
          if str_success refine then do {
            l1 \<leftarrow> dur_add (str_latency draft) (str_latency refine);
            combined_latency \<leftarrow> dur_add l1 (compute_transfer_latency cs);
            let combined_quality = f64_min (str_quality refine * to_f64 (85 / 100)
              + str_quality draft * to_f64 (15 / 100)) 1;
            let combined_cost = effective_cost (str_cost draft) scd + effective_cost (str_cost refine) scd;
            Some (push_trust (str_agent_id refine) t (str_quality refine)
              (push_trust (str_agent_id draft) t (str_quality draft)
                (count_completed combined_latency combined_quality combined_cost acc)))
          }
          else do {
            latency \<leftarrow> dur_add (str_latency draft) (compute_transfer_latency cs);
            Some (push_trust (str_agent_id draft) t (str_quality draft)
              (count_completed latency (str_quality draft) (effective_cost (str_cost draft) scd) acc))
          }
        }
      })"

definition run_task ::
  "'r sim_env \<Rightarrow> duration \<Rightarrow> (nat \<Rightarrow> duration) \<Rightarrow> simulated_network \<Rightarrow> scenario \<Rightarrow> sim_task \<Rightarrow>
   'r tally \<Rightarrow> 'r tally option" where
  "run_task e routed recovered nw scenario task acc =
     (let t = stask_type task; capable = network_capable_agents nw t
      in if capable = [] then Some (acc\<lparr>tl_failed := tl_failed acc + 1\<rparr>)
         else do {
           (a, acc) \<leftarrow> select_agent e scenario capable task acc;
           spent \<leftarrow> dur_add (tl_routing_time acc) routed;
           let acc = acc\<lparr>tl_routing_time := spent\<rparr>;
           use_draft_refine \<leftarrow> (if scenario_complex scenario t
             then map_option (\<lambda>c. to_f64 (85 / 100) \<le> sc_quality_mean c) (sim_get_capability a t)
             else Some False);
           let (cs, acc) = count_context scenario (stask_full_context_size task) acc;
           if use_draft_refine then run_draft_refine e recovered scenario capable a task cs acc
           else run_direct e recovered scenario capable a task cs acc
         })"

fun run_tasks ::
  "'r sim_env \<Rightarrow> (nat \<Rightarrow> duration) \<Rightarrow> (nat \<Rightarrow> nat \<Rightarrow> duration) \<Rightarrow> simulated_network \<Rightarrow> scenario \<Rightarrow>
   nat \<Rightarrow> sim_task list \<Rightarrow> 'r tally \<Rightarrow> 'r tally option" where
  "run_tasks e routed recovered nw scenario i [] acc = Some acc"
| "run_tasks e routed recovered nw scenario i (task # tasks) acc = do {
     acc \<leftarrow> run_task e (routed i) (recovered i) nw scenario task acc;
     run_tasks e routed recovered nw scenario (Suc i) tasks acc
   }"

section \<open>The metrics\<close>

definition percentile :: "duration list \<Rightarrow> f64 \<Rightarrow> f64" where
  "percentile durations p =
     (if durations = [] then 0
      else (let idx = min (f64_to_nat_sat (2 ^ 64 - 1) (f64_of_nat (length durations) * p)) (length durations - 1)
            in f64_of_nat (as_millis (durations ! idx))))"

definition average_recovery :: "f64 list \<Rightarrow> f64" where
  "average_recovery recoveries =
     (if recoveries = [] then 0
      else (let finite = filter is_finite recoveries
            in if finite = [] then PInf else f64_sum finite / f64_of_nat (length finite)))"

text \<open>\<open>as_micros() as f64\<close>.\<close>

definition micros_f64 :: "duration \<Rightarrow> f64" where
  "micros_f64 d = f64_of_nat (d div 1000)"

definition summarize :: "scenario \<Rightarrow> nat \<Rightarrow> 'r tally \<Rightarrow> bench_metrics" where
  "summarize scenario task_count acc =
     (let latencies = sort_by (\<lambda>a b. a < b) (tl_latencies acc);
          avg_latency = (if latencies = [] then 0
            else f64_sum (map (\<lambda>l. f64_of_nat (as_millis l)) latencies) / f64_of_nat (length latencies));
          avg_quality = (if tl_qualities acc = [] then 0
            else f64_sum (tl_qualities acc) / f64_of_nat (length (tl_qualities acc)));
          context_efficiency = (if tl_context_full acc = 0 then 1
            else f64_of_nat (unat (tl_context_sent acc)) / f64_of_nat (unat (tl_context_full acc)))
      in \<lparr>bm_scenario = show_scenario scenario, bm_total_tasks = task_count,
          bm_tasks_completed = tl_completed acc, bm_tasks_failed = tl_failed acc,
          bm_total_cost = tl_total_cost acc,
          bm_avg_cost_per_task = (if 0 < tl_completed acc
            then tl_total_cost acc / f64_of_nat (tl_completed acc) else 0),
          bm_avg_latency_ms = avg_latency,
          bm_p50_latency_ms = percentile latencies (to_f64 (1 / 2)),
          bm_p95_latency_ms = percentile latencies (to_f64 (95 / 100)),
          bm_p99_latency_ms = percentile latencies (to_f64 (99 / 100)),
          bm_avg_quality = avg_quality,
          bm_fault_recovery_ms = average_recovery (tl_fault_recovery_times acc),
          bm_context_efficiency = context_efficiency,
          bm_routing_time_us = micros_f64 (tl_routing_time acc) / f64_of_nat task_count\<rparr>)"

definition run_scenario ::
  "'r sim_env \<Rightarrow> (nat \<Rightarrow> duration) \<Rightarrow> (nat \<Rightarrow> nat \<Rightarrow> duration) \<Rightarrow> sim_harness \<Rightarrow> scenario \<Rightarrow>
   sim_task list \<Rightarrow> bench_metrics option" where
  "run_scenario e routed recovered h scenario tasks = do {
     acc \<leftarrow> run_tasks e routed recovered (sh_network h) scenario 0 tasks
       (tally_start (rand_seed e (sh_seed h)));
     Some (summarize scenario (length tasks) acc)
   }"

section \<open>The totals add up\<close>

text \<open>
  After \<open>n\<close> tasks: each one is completed or failed, every completed one has a latency and a quality
  in the unit interval, and so has every entry of the track record.
\<close>

definition tally_inv :: "nat \<Rightarrow> 'r tally \<Rightarrow> bool" where
  "tally_inv n acc \<longleftrightarrow> tl_completed acc + tl_failed acc = n
     \<and> length (tl_latencies acc) = tl_completed acc \<and> length (tl_qualities acc) = tl_completed acc
     \<and> (\<forall>q \<in> set (tl_qualities acc). unit_f64 q) \<and> 0 \<le> tl_total_cost acc
     \<and> (\<forall>k qs. tl_trust_scores acc k = Some qs \<longrightarrow> qs \<noteq> [] \<and> (\<forall>q \<in> set qs. unit_f64 q))"

named_theorems tally_intros \<open>steps that keep the totals consistent\<close>

lemma tally_start_inv [tally_intros]: "tally_inv 0 (tally_start r)"
  by (simp add: tally_inv_def tally_start_def f64_le_refl)

lemma count_completed_inv [tally_intros]:
  "tally_inv n acc \<Longrightarrow> unit_f64 q \<Longrightarrow> 0 \<le> cost \<Longrightarrow> tally_inv (Suc n) (count_completed l q cost acc)"
  by (auto simp: tally_inv_def count_completed_def nonneg_plus)

lemma push_trust_inv [tally_intros]:
  "tally_inv n acc \<Longrightarrow> unit_f64 q \<Longrightarrow> tally_inv n (push_trust a t q acc)"
  by (cases "tl_trust_scores acc (a, t)") (auto simp: tally_inv_def push_trust_def)

lemma tally_frame_inv [simp]:
  "tally_inv n (acc\<lparr>tl_rng := r\<rparr>) = tally_inv n acc"
  "tally_inv n (acc\<lparr>tl_rr_counters := c\<rparr>) = tally_inv n acc"
  "tally_inv n (acc\<lparr>tl_routing_time := d\<rparr>) = tally_inv n acc"
  "tally_inv n (acc\<lparr>tl_context_sent := x, tl_context_full := y\<rparr>) = tally_inv n acc"
  "tally_inv n (acc\<lparr>tl_fault_recovery_times := ts\<rparr>) = tally_inv n acc"
  "tally_inv n (acc\<lparr>tl_rng := r, tl_fault_recovery_times := ts\<rparr>) = tally_inv n acc"
  by (simp_all add: tally_inv_def)

lemma tally_failed_inv:
  "tally_inv n acc \<Longrightarrow> tally_inv (Suc n) (acc\<lparr>tl_failed := tl_failed acc + 1\<rparr>)"
  "tally_inv n acc \<Longrightarrow>
     tally_inv (Suc n) (acc\<lparr>tl_failed := tl_failed acc + 1, tl_fault_recovery_times := ts\<rparr>)"
  by (simp_all add: tally_inv_def)

lemma tally_simps [simp]:
  "tl_routing_time (push_trust a t q acc) = tl_routing_time acc"
  "tl_routing_time (count_completed l q' c acc) = tl_routing_time acc"
  "tl_rng (push_trust a t q acc) = tl_rng acc" "tl_rng (count_completed l q' c acc) = tl_rng acc"
  "tl_failed (push_trust a t q acc) = tl_failed acc" "tl_failed (count_completed l q' c acc) = tl_failed acc"
  "tl_completed (push_trust a t q acc) = tl_completed acc"
  "tl_completed (count_completed l q' c acc) = Suc (tl_completed acc)"
  "tl_fault_recovery_times (push_trust a t q acc) = tl_fault_recovery_times acc"
  "tl_fault_recovery_times (count_completed l q' c acc) = tl_fault_recovery_times acc"
  "tl_trust_scores (count_completed l q' c acc) = tl_trust_scores acc"
  by (simp_all add: push_trust_def count_completed_def)

text \<open>Costs and durations stay in range.\<close>

lemma f64_to_u64_le: "unat (f64_to_u64 x) \<le> 2 ^ 64 - 1"
  using unsigned_less [of "f64_to_u64 x", where 'a = nat] by simp

lemma transfer_latency_le: "compute_transfer_latency s \<le> U64_MILLIS"
  using f64_to_u64_le by (simp add: compute_transfer_latency_def from_millis_def U64_MILLIS_def)

lemma unit_finite: "unit_f64 x \<Longrightarrow> is_finite x"
  by (auto simp: unit_f64_Fin is_finite_def)

lemma effective_cost_nonneg: "0 \<le> c \<Longrightarrow> is_finite c \<Longrightarrow> 0 \<le> effective_cost c scd"
proof -
  assume c: "0 \<le> c" "is_finite c"
  have "to_f64 28 = Fin 28" using to_f64_exact [OF exact_of_int, of 28] by simp
  then have "unit_f64 (1 / to_f64 28)" by (simp add: f64_zero_one_Fin to_f64_unit)
  moreover have "unit_f64 CONTEXT_COST_FRACTION" by (simp add: CONTEXT_COST_FRACTION_def to_f64_unit)
  ultimately have "unit_f64 (1 - CONTEXT_COST_FRACTION * (1 - 1 / to_f64 28))" by simp
  then show ?thesis
    using c nonneg_times_fin [of c] by (simp add: effective_cost_def Let_def unit_finite unit_f64_def)
qed

lemma latency_budget:
  assumes "a \<le> U64_MILLIS" "b \<le> U64_MILLIS" "c \<le> U64_MILLIS"
  shows "a + b + from_millis 500 + c \<le> DURATION_MAX" "a + b + c \<le> DURATION_MAX" "a + b \<le> DURATION_MAX"
    "a + b + from_millis 500 \<le> DURATION_MAX"
  using assms by (simp_all add: U64_MILLIS_def from_millis_def DURATION_MAX_def NANOS_PER_SEC_def)

lemma dur_add_fits: "a + b \<le> DURATION_MAX \<Longrightarrow> dur_add a b = Some (a + b)"
  by simp

section \<open>Recovery\<close>

abbreviation others :: "simulated_agent \<Rightarrow> simulated_agent list \<Rightarrow> simulated_agent list" where
  "others failed capable \<equiv> filter (\<lambda>b. sim_id b \<noteq> sim_id failed) capable"

lemma recovery_loop_ok:
  assumes "rand_sound e" "str_latency original \<le> U64_MILLIS"
    and "\<forall>a \<in> set capable. sim_agent_ok a" "tally_inv n acc"
  shows "\<exists>acc' retried. recovery_loop e elapsed j failed t cs original scd capable acc = Some (acc', retried)
    \<and> tally_inv (if retried then Suc n else n) acc'
    \<and> tl_routing_time acc' = tl_routing_time acc \<and> tl_failed acc' = tl_failed acc
    \<and> tl_trust_scores acc' (sim_id failed, t) = tl_trust_scores acc (sim_id failed, t)
    \<and> length (tl_fault_recovery_times acc') \<le> length (tl_fault_recovery_times acc) + length (others failed capable)
    \<and> (\<not> retried \<longrightarrow> length (tl_fault_recovery_times acc') =
         length (tl_fault_recovery_times acc) + length (others failed capable))"
  using assms(3,4)
proof (induction capable arbitrary: j acc)
  case Nil
  then show ?case by (auto intro!: exI [of _ False])
next
  case (Cons b rest)
  show ?case
  proof (cases "sim_id b = sim_id failed")
    case True
    then show ?thesis using Cons by simp
  next
    case False
    obtain res r where res: "sim_execute_task e b t (tl_rng acc) = Some (res, r)" "sim_result_ok b t res"
      using sim_execute_ok [OF assms(1)] Cons.prems(1) by fastforce
    have lat: "str_latency res \<le> U64_MILLIS" and u: "unit_f64 (str_quality res)"
      and c: "0 \<le> str_cost res" "is_finite (str_cost res)"
      using res(2) by (simp_all add: sim_result_ok_def)
    note fits = latency_budget [OF assms(2) lat transfer_latency_le [of cs]]
    let ?acc = "acc\<lparr>tl_rng := r, tl_fault_recovery_times := tl_fault_recovery_times acc
      @ [f64_of_nat (as_millis (elapsed j))]\<rparr>"
    have inv: "tally_inv n ?acc" using Cons.prems(2) by simp
    show ?thesis
    proof (cases "str_success res")
      case True
      let ?l = "str_latency original + str_latency res + from_millis 500 + compute_transfer_latency cs"
      let ?out = "push_trust (sim_id b) t (str_quality res)
        (count_completed ?l (str_quality res) (effective_cost (str_cost res) scd) ?acc)"
      have "tally_inv (Suc n) ?out" using inv u c by (intro tally_intros effective_cost_nonneg)
      moreover have "recovery_loop e elapsed j failed t cs original scd (b # rest) acc = Some (?out, True)"
        using False True res(1) fits by (simp add: dur_add_fits)
      moreover have "tl_trust_scores ?out (sim_id failed, t) = tl_trust_scores acc (sim_id failed, t)"
        using False by (simp add: push_trust_def)
      ultimately show ?thesis using False by (intro exI [of _ ?out] exI [of _ True]) simp
    next
      case fails: False
      then show ?thesis using False res(1) Cons.IH [of ?acc "Suc j"] inv Cons.prems(1) by auto
    qed
  qed
qed

lemma handle_fault_recovery_ok:
  assumes "rand_sound e" "str_latency original \<le> U64_MILLIS"
    and "\<forall>a \<in> set capable. sim_agent_ok a" "tally_inv n acc"
  shows "\<exists>acc'. handle_fault_recovery e elapsed s capable failed task cs original scd acc = Some acc'
    \<and> tally_inv (Suc n) acc' \<and> tl_routing_time acc' = tl_routing_time acc
    \<and> tl_trust_scores acc' (sim_id failed, stask_type task) = tl_trust_scores acc (sim_id failed, stask_type task)
    \<and> (tl_failed acc' = tl_failed acc + 1 \<longrightarrow>
         (if s \<in> {FullAtp, AtpNoContext, AtpNoRouting, AtpNoTrust}
          then length (tl_fault_recovery_times acc') =
            length (tl_fault_recovery_times acc) + length (others failed capable)
          else tl_fault_recovery_times acc' = tl_fault_recovery_times acc @ [PInf]))"
proof (cases "s \<in> {FullAtp, AtpNoContext, AtpNoRouting, AtpNoTrust}")
  case True
  obtain acc' retried where
    loop: "recovery_loop e elapsed 0 failed (stask_type task) cs original scd capable acc = Some (acc', retried)"
    and l: "tally_inv (if retried then Suc n else n) acc'"
    "tl_routing_time acc' = tl_routing_time acc" "tl_failed acc' = tl_failed acc"
    "tl_trust_scores acc' (sim_id failed, stask_type task) = tl_trust_scores acc (sim_id failed, stask_type task)"
    "\<not> retried \<longrightarrow> length (tl_fault_recovery_times acc') =
         length (tl_fault_recovery_times acc) + length (others failed capable)"
    using recovery_loop_ok [OF assms] by blast
  let ?acc = "if \<not> retried then acc'\<lparr>tl_failed := tl_failed acc' + 1\<rparr> else acc'"
  have "handle_fault_recovery e elapsed s capable failed task cs original scd acc = Some ?acc"
    using True loop by (simp add: handle_fault_recovery_def)
  moreover have "tally_inv (Suc n) ?acc" using l(1) tally_failed_inv(1) [of n acc'] by auto
  ultimately show ?thesis using True l by auto
next
  case False
  then show ?thesis using tally_failed_inv(2) [OF assms(4)] by (simp add: handle_fault_recovery_def)
qed

section \<open>The choice never fails\<close>

lemma cost_not_NaN:
  assumes "sim_agent_ok a"
  shows "cost_for t a \<noteq> NaN"
proof (cases "sim_get_capability a t")
  case None
  then show ?thesis by (simp add: cost_for_def F64_MAX_def)
next
  case (Some c)
  then have "sim_cap_ok c" using assms by (auto simp: sim_agent_ok_def sim_get_capability_def find_Some_iff)
  then show ?thesis using Some by (auto simp: cost_for_def sim_cap_ok_def is_finite_def)
qed

text \<open>The cheapest agent, and the first one of several.\<close>

lemma min_by_cost_least:
  assumes "\<forall>a \<in> set (best # rest). cost_for t a \<noteq> NaN"
  shows "\<exists>a. min_by_cost t best rest = Some a \<and> a \<in> set (best # rest)
    \<and> (\<forall>b \<in> set (best # rest). cost_for t a \<le> cost_for t b)"
  using assms
proof (induction rest arbitrary: best)
  case Nil
  then show ?case by (simp add: f64_le_refl)
next
  case (Cons x rest)
  let ?b = "if cost_for t x < cost_for t best then x else best"
  have step: "min_by_cost t best (x # rest) = min_by_cost t ?b rest" using Cons.prems by simp
  obtain a where a: "min_by_cost t ?b rest = Some a" "a \<in> set (?b # rest)"
    "\<forall>b \<in> set (?b # rest). cost_for t a \<le> cost_for t b"
    using Cons.IH [of ?b] Cons.prems by auto
  have "cost_for t ?b \<le> cost_for t x" "cost_for t ?b \<le> cost_for t best"
    using Cons.prems f64_not_less [of "cost_for t x" "cost_for t best"] f64_le_refl f64_less_imp_le by auto
  then have "cost_for t a \<le> cost_for t x" "cost_for t a \<le> cost_for t best"
    using a(3) f64_le_trans by auto
  then show ?case using a step by (auto split: if_splits)
qed

lemma cheapest_ok:
  assumes "capable \<noteq> []" "\<forall>a \<in> set capable. sim_agent_ok a"
  shows "\<exists>a. select_cheapest_agent capable task = Some a \<and> find_draft_agent capable task = Some a
    \<and> a \<in> set capable \<and> (\<forall>b \<in> set capable. cost_for (stask_type task) a \<le> cost_for (stask_type task) b)"
proof -
  obtain x rest where c: "capable = x # rest" using assms(1) by (cases capable) simp_all
  have "\<forall>a \<in> set (x # rest). cost_for (stask_type task) a \<noteq> NaN"
    using assms(2) cost_not_NaN by (auto simp: c)
  from min_by_cost_least [OF this] show ?thesis
    by (simp add: select_cheapest_agent_def find_draft_agent_def c)
qed

lemma best_loop_mem:
  assumes "\<forall>a \<in> set as. score a \<noteq> None"
  shows "\<exists>a. best_loop score s best as = Some a \<and> a \<in> set (best # as)"
  using assms
proof (induction as arbitrary: s best)
  case Nil
  then show ?case by simp
next
  case (Cons x as)
  then obtain y where "score x = Some y" by auto
  then show ?case using Cons.IH [of y x] Cons.IH [of s best] Cons.prems by auto
qed

lemma select_best_ok:
  assumes "capable \<noteq> []" "\<forall>a \<in> set capable. sim_get_capability a (stask_type task) \<noteq> None"
  shows "\<exists>a. select_best_agent lm capable task trust cx = Some a \<and> a \<in> set capable"
proof -
  let ?q = "filter (qualifies (if cx then to_f64 (85 / 100) else to_f64 (82 / 100)) (stask_type task)) capable"
  let ?c = "if ?q = [] then capable else ?q"
  have c: "?c \<noteq> []" "set ?c \<subseteq> set capable" using assms(1) by auto
  then have first: "vec_at ?c 0 = Some (hd ?c)" by (simp add: vec_at_def hd_conv_nth)
  have "\<forall>a \<in> set ?c. agent_score lm trust task cx a \<noteq> None"
    using assms(2) c(2) by (auto simp: agent_score_def Let_def)
  from best_loop_mem [OF this, of NInf "hd ?c"] obtain a where
    a: "best_loop (agent_score lm trust task cx) NInf (hd ?c) ?c = Some a" "a \<in> set (hd ?c # ?c)" by blast
  have "a \<in> set capable" using a(2) c hd_in_set [OF c(1)] by auto
  moreover have "select_best_agent lm capable task trust cx = Some a"
    unfolding select_best_agent_def Let_def first using a(1) by (simp only: bind.bind_lunit)
  ultimately show ?thesis by blast
qed

lemma select_agent_ok:
  assumes "rand_sound e" "capable \<noteq> []" "\<forall>a \<in> set capable. sim_agent_ok a"
    and "\<forall>a \<in> set capable. sim_get_capability a (stask_type task) \<noteq> None" "tally_inv n acc"
  shows "\<exists>a acc'. select_agent e s capable task acc = Some (a, acc') \<and> a \<in> set capable \<and> tally_inv n acc'
    \<and> tl_routing_time acc' = tl_routing_time acc"
proof -
  have pos: "0 < length capable" using assms(2) by simp
  obtain best where best: "select_best_agent (se_libm e) capable task (tl_trust_scores acc)
      (scenario_complex s (stask_type task)) = Some best" "best \<in> set capable"
    using select_best_ok [OF assms(2,4)] by blast
  obtain cheap where cheap: "select_cheapest_agent capable task = Some cheap" "cheap \<in> set capable"
    using cheapest_ok [OF assms(2,3)] by blast
  obtain i r where i: "rand_range e 0 (length capable) (tl_rng acc) = (i, r)" by fastforce
  have il: "i < length capable" using rand_soundD(4) [OF assms(1) pos, of "tl_rng acc"] i by simp
  show ?thesis
    using pos best cheap i il assms(5)
    by (cases s) (auto simp: select_agent_def vec_at_def gen_range_def Let_def)
qed

section \<open>A task\<close>

lemma run_direct_ok:
  assumes "rand_sound e" "\<forall>a \<in> set capable. sim_agent_ok a" "sim_agent_ok a" "tally_inv n acc"
  shows "\<exists>acc'. run_direct e recovered s capable a task cs acc = Some acc' \<and> tally_inv (Suc n) acc'
    \<and> tl_routing_time acc' = tl_routing_time acc"
proof -
  obtain res r where res: "sim_execute_task e a (stask_type task) (tl_rng acc) = Some (res, r)"
    "sim_result_ok a (stask_type task) res" using sim_execute_ok [OF assms(1,3)] by blast
  then have q: "unit_f64 (str_quality res)" "str_latency res \<le> U64_MILLIS" "0 \<le> str_cost res"
    "is_finite (str_cost res)" by (simp_all add: sim_result_ok_def)
  have inv: "tally_inv n (acc\<lparr>tl_rng := r\<rparr>)" using assms(4) by simp
  show ?thesis
  proof (cases "str_success res")
    case True
    have "str_latency res + compute_transfer_latency cs \<le> DURATION_MAX"
      using latency_budget(3) [OF q(2) transfer_latency_le [of cs] q(2)] .
    moreover have "tally_inv (Suc n) (push_trust (str_agent_id res) (stask_type task) (str_quality res)
        (count_completed l (str_quality res) (effective_cost (str_cost res) (scenario_scd s))
          (acc\<lparr>tl_rng := r\<rparr>)))" for l
      using inv q by (intro tally_intros effective_cost_nonneg)
    ultimately show ?thesis using True res(1) by (simp add: run_direct_def dur_add_fits)
  next
    case False
    then show ?thesis
      using handle_fault_recovery_ok [OF assms(1) q(2) assms(2) inv] res(1)
      by (fastforce simp: run_direct_def)
  qed
qed

lemma blended_quality:
  assumes "unit_f64 a" "unit_f64 b"
  shows "unit_f64 (f64_min (a * to_f64 (85 / 100) + b * to_f64 (15 / 100)) 1)"
proof -
  have w: "unit_f64 (to_f64 (85 / 100))" "unit_f64 (to_f64 (15 / 100))" by (simp_all add: to_f64_unit)
  have "0 \<le> a * to_f64 (85 / 100)" "0 \<le> b * to_f64 (15 / 100)"
    using unit_times [OF assms(1) w(1)] unit_times [OF assms(2) w(2)] by (simp_all only: unit_f64_def)
  then have s: "0 \<le> a * to_f64 (85 / 100) + b * to_f64 (15 / 100)" (is "0 \<le> ?s") by (rule nonneg_plus)
  then have "?s \<noteq> NaN" by auto
  moreover have "(0::f64) \<le> 1" by (simp add: f64_zero_one_Fin)
  ultimately show ?thesis
    using s f64_not_less [of 1 ?s] by (auto simp: f64_min_def unit_f64_def f64_le_refl)
qed

lemma run_draft_refine_ok:
  assumes "rand_sound e" "\<forall>a \<in> set capable. sim_agent_ok a" "a \<in> set capable" "tally_inv n acc"
  shows "\<exists>acc'. run_draft_refine e recovered s capable a task cs acc = Some acc' \<and> tally_inv (Suc n) acc'
    \<and> tl_routing_time acc' = tl_routing_time acc"
proof -
  let ?t = "stask_type task"
  have ne: "capable \<noteq> []" and aok: "sim_agent_ok a" using assms(2,3) by auto
  obtain d where d: "find_draft_agent capable task = Some d" "d \<in> set capable"
    using cheapest_ok [OF ne assms(2)] by blast
  obtain draft r where draft: "sim_execute_task e d ?t (tl_rng acc) = Some (draft, r)" "sim_result_ok d ?t draft"
    using sim_execute_ok [OF assms(1)] assms(2) d(2) by blast
  have inv: "tally_inv n (acc\<lparr>tl_rng := r\<rparr>)" using assms(4) by simp
  obtain refine r' where refine: "sim_execute_task e a ?t r = Some (refine, r')" "sim_result_ok a ?t refine"
    using sim_execute_ok [OF assms(1) aok] by blast
  have inv': "tally_inv n (acc\<lparr>tl_rng := r'\<rparr>)" using assms(4) by simp
  have q: "unit_f64 (str_quality draft)" "str_latency draft \<le> U64_MILLIS" "0 \<le> str_cost draft"
    "is_finite (str_cost draft)" "unit_f64 (str_quality refine)" "str_latency refine \<le> U64_MILLIS"
    "0 \<le> str_cost refine" "is_finite (str_cost refine)"
    using draft(2) refine(2) by (simp_all add: sim_result_ok_def)
  note fits = latency_budget [OF q(2) q(6) transfer_latency_le [of cs]]
    latency_budget(3) [OF q(2) transfer_latency_le [of cs] q(2)]
  show ?thesis
  proof (cases "str_success draft")
    case False
    then show ?thesis
      using run_direct_ok [OF assms(1,2) aok inv] d(1) draft(1) by (simp add: run_draft_refine_def Let_def)
  next
    case True
    have both: "tally_inv (Suc n) (push_trust (str_agent_id refine) ?t (str_quality refine)
        (push_trust (str_agent_id draft) ?t (str_quality draft)
          (count_completed l (f64_min (str_quality refine * to_f64 (85 / 100)
            + str_quality draft * to_f64 (15 / 100)) 1)
            (effective_cost (str_cost draft) scd + effective_cost (str_cost refine) scd)
            (acc\<lparr>tl_rng := r'\<rparr>))))" for l scd
      using inv' q by (intro tally_intros effective_cost_nonneg blended_quality nonneg_plus)
    have alone: "tally_inv (Suc n) (push_trust (str_agent_id draft) ?t (str_quality draft)
        (count_completed l (str_quality draft) (effective_cost (str_cost draft) scd)
          (acc\<lparr>tl_rng := r'\<rparr>)))" for l scd
      using inv' q by (intro tally_intros effective_cost_nonneg)
    show ?thesis
      using True d(1) draft(1) refine(1) both alone fits
      by (cases "str_success refine") (simp_all add: run_draft_refine_def Let_def dur_add_fits)
  qed
qed

lemma count_context_ok:
  "tally_inv n (snd (count_context s full acc)) = tally_inv n acc"
  "tl_routing_time (snd (count_context s full acc)) = tl_routing_time acc"
  by (simp_all add: count_context_def Let_def)

lemma capable_has: "a \<in> set (network_capable_agents nw t) \<Longrightarrow> sim_get_capability a t \<noteq> None"
  using has_capability_get by (auto simp: network_capable_agents_def)

lemma run_task_ok:
  assumes "rand_sound e" "\<forall>a \<in> set (nw_agents nw). sim_agent_ok a" "tally_inv n acc"
    and "tl_routing_time acc + routed \<le> DURATION_MAX"
  shows "\<exists>acc'. run_task e routed recovered nw s task acc = Some acc' \<and> tally_inv (Suc n) acc'
    \<and> tl_routing_time acc' \<le> tl_routing_time acc + routed"
proof -
  let ?t = "stask_type task"
  let ?c = "network_capable_agents nw ?t"
  show ?thesis
  proof (cases "?c = []")
    case True
    then show ?thesis using tally_failed_inv(1) [OF assms(3)] by (simp add: run_task_def Let_def)
  next
    case False
    have ok: "\<forall>a \<in> set ?c. sim_agent_ok a" "\<forall>a \<in> set ?c. sim_get_capability a ?t \<noteq> None"
      using assms(2) capable_has by (auto simp: network_capable_agents_def)
    obtain a acc1 where sel: "select_agent e s ?c task acc = Some (a, acc1)" "a \<in> set ?c"
      "tally_inv n acc1" "tl_routing_time acc1 = tl_routing_time acc"
      using select_agent_ok [OF assms(1) False ok assms(3)] by blast
    obtain c where c: "sim_get_capability a ?t = Some c" using ok(2) sel(2) by blast
    let ?acc2 = "acc1\<lparr>tl_routing_time := tl_routing_time acc + routed\<rparr>"
    obtain cs acc3 where cc: "count_context s (stask_full_context_size task) ?acc2 = (cs, acc3)" by fastforce
    have acc3: "tally_inv n acc3" "tl_routing_time acc3 = tl_routing_time acc + routed"
      using count_context_ok(1) [of n s "stask_full_context_size task" ?acc2]
        count_context_ok(2) [of s "stask_full_context_size task" ?acc2] cc sel(3) by simp_all
    have aok: "sim_agent_ok a" using ok(1) sel(2) by blast
    note both = run_draft_refine_ok [OF assms(1) ok(1) sel(2) acc3(1), of recovered s task cs]
      run_direct_ok [OF assms(1) ok(1) aok acc3(1), of recovered s task cs]
    have "run_task e routed recovered nw s task acc =
        (if scenario_complex s ?t \<and> to_f64 (85 / 100) \<le> sc_quality_mean c
         then run_draft_refine e recovered s ?c a task cs acc3
         else run_direct e recovered s ?c a task cs acc3)"
      using False sel(1,4) cc c assms(4) by (simp add: run_task_def Let_def dur_add_fits)
    then show ?thesis using both acc3(2) by auto
  qed
qed

lemma run_tasks_ok:
  assumes "rand_sound e" "\<forall>a \<in> set (nw_agents nw). sim_agent_ok a" "tally_inv n acc"
    and "tl_routing_time acc + (\<Sum>j = i..<i + length tasks. routed j) \<le> DURATION_MAX"
  shows "\<exists>acc'. run_tasks e routed recovered nw s i tasks acc = Some acc' \<and> tally_inv (n + length tasks) acc'"
  using assms(3,4)
proof (induction tasks arbitrary: i n acc)
  case Nil
  then show ?case by simp
next
  case (Cons task tasks)
  have sum: "(\<Sum>j = i..<i + length (task # tasks). routed j) =
      routed i + (\<Sum>j = Suc i..<Suc i + length tasks. routed j)"
    by (simp add: sum.atLeast_Suc_lessThan)
  obtain acc1 where 1: "run_task e (routed i) (recovered i) nw s task acc = Some acc1"
    "tally_inv (Suc n) acc1" "tl_routing_time acc1 \<le> tl_routing_time acc + routed i"
    using run_task_ok [OF assms(1,2) Cons.prems(1), of "routed i"] Cons.prems(2) sum by fastforce
  have "tl_routing_time acc1 + (\<Sum>j = Suc i..<Suc i + length tasks. routed j) \<le> DURATION_MAX"
    using Cons.prems(2) sum 1(3) by linarith
  from Cons.IH [OF 1(2) this] show ?case using 1(1) by simp
qed

section \<open>The metrics\<close>

text \<open>The mean of values of the unit interval is one, as long as their number is exact.\<close>

lemma unit_sum:
  assumes "\<forall>q \<in> set qs. unit_f64 q" "length qs + n \<le> 2 ^ 53" "0 \<le> s" "s \<le> Fin (of_nat n)"
  shows "0 \<le> foldl (+) s qs \<and> foldl (+) s qs \<le> Fin (of_nat (n + length qs))"
  using assms
proof (induction qs arbitrary: s n)
  case Nil
  then show ?case by simp
next
  case (Cons q qs)
  obtain a b where ab: "s = Fin a" "0 \<le> a" "a \<le> of_nat n" "q = Fin b" "0 \<le> b" "b \<le> 1"
    using Cons.prems by (cases s) (auto simp: unit_f64_Fin f64_zero_one_Fin)
  have "f64_of_nat (Suc n) = Fin (of_nat (Suc n))" using Cons.prems(2) by (intro f64_of_nat_exact) simp
  then have "to_f64 (of_nat (Suc n)) = Fin (of_nat (Suc n))" by (simp add: f64_of_nat_def)
  moreover have "to_f64 (a + b) \<le> to_f64 (of_nat (Suc n))" using ab by (intro to_f64_mono) simp
  ultimately have "s + q \<le> Fin (of_nat (Suc n))" using ab by simp
  moreover have "0 \<le> s + q" using ab by (simp add: to_f64_nonneg)
  ultimately show ?case using Cons.IH [of "Suc n" "s + q"] Cons.prems by simp
qed

lemma unit_mean:
  assumes "\<forall>q \<in> set qs. unit_f64 q" "length qs \<le> 2 ^ 53" "qs \<noteq> []"
  shows "unit_f64 (f64_sum qs / f64_of_nat (length qs))"
proof -
  have "0 \<le> f64_sum qs \<and> f64_sum qs \<le> Fin (of_nat (length qs))"
    using unit_sum [OF assms(1), of 0 0] assms(2) by (simp add: f64_sum_def f64_zero_one_Fin)
  then show ?thesis
    unfolding f64_of_nat_exact [OF assms(2)] using assms(3)
    by (intro div_le_one) (simp_all add: f64_zero_one_Fin is_finite_def)
qed

lemma nat_sat_mono: "x \<le> y \<Longrightarrow> f64_to_nat_sat m x \<le> f64_to_nat_sat m y"
  by (cases x; cases y) (auto simp: f64_to_nat_sat_def min_def intro: nat_mono floor_mono dest: floor_mono)

lemma percentile_mono:
  assumes "sorted durations" "length durations \<le> 2 ^ 53" "unit_f64 p" "unit_f64 p'" "p \<le> p'"
  shows "percentile durations p \<le> percentile durations p'"
proof (cases "durations = []")
  case True
  then show ?thesis by (simp add: percentile_def f64_le_refl)
next
  case False
  let ?i = "\<lambda>p. min (f64_to_nat_sat (2 ^ 64 - 1) (f64_of_nat (length durations) * p)) (length durations - 1)"
  have "f64_of_nat (length durations) * p \<le> f64_of_nat (length durations) * p'"
    by (rule times_unit_mono [OF assms(3-5)]) (simp_all add: f64_of_nat_exact [OF assms(2)] is_finite_def f64_zero_one_Fin)
  then have "?i p \<le> ?i p'" using nat_sat_mono by (meson min.mono order_refl)
  moreover have "?i p' < length durations" using False by (simp add: min_less_iff_disj)
  ultimately have "durations ! ?i p \<le> durations ! ?i p'" using assms(1) by (intro sorted_nth_mono)
  then have "as_millis (durations ! ?i p) \<le> as_millis (durations ! ?i p')" by (simp add: as_millis_def div_le_mono)
  then have "f64_of_nat (as_millis (durations ! ?i p)) \<le> f64_of_nat (as_millis (durations ! ?i p'))"
    unfolding f64_of_nat_def by (intro to_f64_mono) simp
  then show ?thesis using False by (simp add: percentile_def Let_def)
qed

interpretation by_duration: strict_weak_order "\<lambda>a b. (a :: duration) < b" "\<lambda>_. True"
  by unfold_locales auto

lemma durations_sorted: "sorted (sort_by (\<lambda>a b. (a :: duration) < b) xs)"
  using by_duration.sort_by_sorted [of xs] by (simp add: sorted_wrt_iff_nth_less sorted_iff_nth_mono_less not_less)

section \<open>Where tasks fail\<close>

text \<open>
  Draft-refine hides a failure whatever the scenario is: when the draft succeeds the task is counted
  as completed, also without fault tolerance and although the refining agent failed.
\<close>

lemma draft_hides_failure:
  assumes "rand_sound e" "\<forall>a \<in> set capable. sim_agent_ok a" "a \<in> set capable"
    and "find_draft_agent capable task = Some d"
    and "sim_execute_task e d (stask_type task) (tl_rng acc) = Some (draft, r)" "str_success draft"
  shows "\<exists>acc'. run_draft_refine e recovered AtpNoFault capable a task cs acc = Some acc'
    \<and> tl_completed acc' = Suc (tl_completed acc) \<and> tl_failed acc' = tl_failed acc"
proof -
  let ?t = "stask_type task"
  have aok: "sim_agent_ok a" using assms(2,3) by blast
  have "d \<in> set capable" using cheapest_ok [of capable task] assms(2-4) by force
  then have "sim_result_ok d ?t draft" using sim_execute_ok [OF assms(1), of d ?t "tl_rng acc"] assms(2,5) by auto
  then have d: "str_latency draft \<le> U64_MILLIS" by (simp add: sim_result_ok_def)
  obtain refine r' where refine: "sim_execute_task e a ?t r = Some (refine, r')" "sim_result_ok a ?t refine"
    using sim_execute_ok [OF assms(1) aok] by blast
  then have "str_latency refine \<le> U64_MILLIS" by (simp add: sim_result_ok_def)
  note fits = latency_budget [OF d this transfer_latency_le [of cs]]
    latency_budget(3) [OF d transfer_latency_le [of cs] d]
  show ?thesis
    using assms(4-6) refine(1) fits
    by (cases "str_success refine") (simp_all add: run_draft_refine_def Let_def dur_add_fits)
qed

text \<open>A failure leaves no trace in the track record of the agent that failed.\<close>

lemma failures_are_forgotten:
  assumes "rand_sound e" "\<forall>b \<in> set capable. sim_agent_ok b" "sim_agent_ok a" "tally_inv n acc"
    and "sim_execute_task e a (stask_type task) (tl_rng acc) = Some (res, r)" "\<not> str_success res"
  shows "\<exists>acc'. run_direct e recovered s capable a task cs acc = Some acc'
    \<and> tl_trust_scores acc' (sim_id a, stask_type task) = tl_trust_scores acc (sim_id a, stask_type task)"
proof -
  have "sim_result_ok a (stask_type task) res"
    using sim_execute_ok [OF assms(1,3), of "stask_type task" "tl_rng acc"] assms(5) by auto
  then have "str_latency res \<le> U64_MILLIS" by (simp add: sim_result_ok_def)
  from handle_fault_recovery_ok [OF assms(1) this assms(2), of n "acc\<lparr>tl_rng := r\<rparr>"]
  show ?thesis using assms(4-6) by (fastforce simp: run_direct_def)
qed

lemma empty_run_routing_time:
  "\<exists>m. run_scenario e routed recovered h s [] = Some m \<and> bm_routing_time_us m = NaN"
  by (simp add: run_scenario_def summarize_def Let_def micros_f64_def f64_of_nat_def to_f64_exact
      tally_start_def)

text \<open>Round-robin takes the capable agents in turn: the counter is the number of tasks so far.\<close>

lemma round_robin_turn:
  assumes "capable \<noteq> []" "tl_rr_counters acc (stask_type task) = (if k = 0 then None else Some k)"
  shows "\<exists>acc'. select_agent e RoundRobin capable task acc = Some (capable ! (k mod length capable), acc')
    \<and> tl_rr_counters acc' (stask_type task) = Some (Suc k)"
  using assms by (auto simp: select_agent_def vec_at_def Let_def split: if_splits)

section \<open>Properties\<close>

lemma run_scenario_spec:
  assumes "rand_sound e" and "\<forall>a \<in> set (nw_agents (sh_network h)). sim_agent_ok a"
    and "(\<Sum>i < length tasks. routed i) \<le> DURATION_MAX" and "length tasks \<le> 2 ^ 53"
  shows "\<exists>m. run_scenario e routed recovered h s tasks = Some m
    \<and> bm_total_tasks m = length tasks \<and> bm_tasks_completed m + bm_tasks_failed m = length tasks
    \<and> unit_f64 (bm_avg_quality m) \<and> 0 \<le> bm_total_cost m
    \<and> bm_p50_latency_ms m \<le> bm_p95_latency_ms m \<and> bm_p95_latency_ms m \<le> bm_p99_latency_ms m"
proof -
  let ?start = "tally_start (rand_seed e (sh_seed h))"
  have "tl_routing_time ?start + (\<Sum>j = 0..<0 + length tasks. routed j) \<le> DURATION_MAX"
    using assms(3) by (simp add: tally_start_def atLeast0LessThan)
  from run_tasks_ok [OF assms(1,2) tally_start_inv this] obtain acc where
    run: "run_tasks e routed recovered (sh_network h) s 0 tasks ?start = Some acc"
    and inv: "tally_inv (length tasks) acc" by auto
  let ?ls = "sort_by (\<lambda>a b. a < b) (tl_latencies acc)"
  have n: "length ?ls \<le> 2 ^ 53" "length (tl_qualities acc) \<le> 2 ^ 53"
    using inv assms(4) by (simp_all add: tally_inv_def)
  have q: "tl_qualities acc \<noteq> [] \<Longrightarrow>
      unit_f64 (f64_sum (tl_qualities acc) / f64_of_nat (length (tl_qualities acc)))"
    using unit_mean [OF _ n(2)] inv by (simp add: tally_inv_def)
  have "percentile ?ls (to_f64 (1 / 2)) \<le> percentile ?ls (to_f64 (95 / 100))"
    "percentile ?ls (to_f64 (95 / 100)) \<le> percentile ?ls (to_f64 (99 / 100))"
    by (intro percentile_mono durations_sorted n to_f64_unit to_f64_mono; simp)+
  then show ?thesis
    using inv q by (simp add: run_scenario_def run summarize_def Let_def tally_inv_def)
qed

text \<open>
  C11. A benchmark run is sound: on a network whose distributions exist, every scenario returns
  metrics for every list of tasks; each task is counted once, as completed or as failed; the average
  quality is in the unit interval, the cost is not negative, and the latency percentiles are in
  order.
\<close>

theorem run_scenario_accounts:
  assumes "rand_sound e" and "\<forall>a \<in> set (nw_agents (sh_network h)). sim_agent_ok a"
    and "(\<Sum>i < length tasks. routed i) \<le> DURATION_MAX" and "length tasks \<le> 2 ^ 53"
  shows "\<exists>m. run_scenario e routed recovered h s tasks = Some m
    \<and> bm_total_tasks m = length tasks \<and> bm_tasks_completed m + bm_tasks_failed m = length tasks
    \<and> unit_f64 (bm_avg_quality m) \<and> 0 \<le> bm_total_cost m
    \<and> bm_p50_latency_ms m \<le> bm_p95_latency_ms m \<and> bm_p95_latency_ms m \<le> bm_p99_latency_ms m"
  by (rule run_scenario_spec [OF assms])

definition sample_task :: sim_task where
  "sample_task = \<lparr>stask_id = 1, stask_type = Analysis, stask_payload = [], stask_full_context_size = 50000,
     stask_qos = default_qos\<rparr>"

theorem run_scenario_accounts_witness:
  "\<exists>h m. harness_benchmark still_rand (\<lambda>_. ((\<lambda>_. []), 0)) (\<lambda>i. AgentId (of_nat i)) 42 = Some h
     \<and> run_scenario still_rand (\<lambda>_. 7) (\<lambda>_ _. 0) h FullAtp [sample_task] = Some m
     \<and> bm_tasks_completed m + bm_tasks_failed m = 1"
proof -
  let ?as = "benchmark_agents (\<lambda>_. ((\<lambda>_. []), 0)) (\<lambda>i. AgentId (of_nat i))"
  obtain es r' where "generate_edges still_rand (SmallWorld 6 (to_f64 (3 / 10))) ?as () = Some (es, r')"
    using generate_edges_match [OF still_rand_sound] benchmark_ids_distinct by blast
  then obtain nw where nw: "benchmark_network still_rand (\<lambda>_. ((\<lambda>_. []), 0)) (\<lambda>i. AgentId (of_nat i)) 42 = Some nw"
    "nw_agents nw = ?as"
    by (simp add: benchmark_network_def Let_def)
  have "\<forall>a \<in> set (nw_agents (sh_network (harness_new nw 42))). sim_agent_ok a"
    using benchmark_agents_ok nw(2) by (simp add: harness_new_def)
  from run_scenario_accounts [OF still_rand_sound this, of "\<lambda>_. 7" "[sample_task]" "\<lambda>_ _. 0" FullAtp]
  show ?thesis using nw(1) by (auto simp: harness_benchmark_def DURATION_MAX_def NANOS_PER_SEC_def)
qed

text \<open>
  Fault recovery gives up only when it must: with it, a task whose agent failed is counted as
  failed only after every other capable agent has been tried once; without it, it fails at once with
  an infinite recovery time. Either way the task is counted once, and the failure is not held
  against the agent in the track record that later choices are based on.
\<close>

lemma recovery_tries_everyone:
  assumes "rand_sound e" and "\<forall>a \<in> set capable. sim_agent_ok a" and "tally_inv n acc"
    and "sim_result_ok failed (stask_type task) original"
  shows "\<exists>acc'. handle_fault_recovery e elapsed s capable failed task cs original scd acc = Some acc'
    \<and> tally_inv (Suc n) acc'
    \<and> tl_trust_scores acc' (sim_id failed, stask_type task) = tl_trust_scores acc (sim_id failed, stask_type task)
    \<and> (tl_failed acc' = tl_failed acc + 1 \<longrightarrow>
         (if s \<in> {FullAtp, AtpNoContext, AtpNoRouting, AtpNoTrust}
          then length (tl_fault_recovery_times acc') =
            length (tl_fault_recovery_times acc) + length (others failed capable)
          else tl_fault_recovery_times acc' = tl_fault_recovery_times acc @ [PInf]))"
proof -
  have "str_latency original \<le> U64_MILLIS" using assms(4) by (simp add: sim_result_ok_def)
  from handle_fault_recovery_ok [OF assms(1) this assms(2,3)] show ?thesis by blast
qed

lemma recovery_tries_everyone_example:
  "\<exists>acc'. handle_fault_recovery still_rand (\<lambda>_. 0) Sequential
      [specialist_agent ((\<lambda>_. []), 0) (AgentId 1) Analysis]
      (specialist_agent ((\<lambda>_. []), 0) (AgentId 1) Analysis) sample_task 1786
      \<lparr>str_agent_id = AgentId 1, str_task_type = Analysis, str_quality = 0,
       str_latency = from_millis 100, str_cost = 0, str_success = False\<rparr> False (tally_start ()) = Some acc'
    \<and> tally_inv 1 acc'"
proof -
  let ?a = "specialist_agent ((\<lambda>_. []), 0) (AgentId 1) Analysis"
  let ?r = "\<lparr>str_agent_id = AgentId 1, str_task_type = Analysis, str_quality = 0,
    str_latency = from_millis 100, str_cost = 0, str_success = False\<rparr>"
  have "sim_result_ok ?a (stask_type sample_task) ?r"
    by (simp add: sim_result_ok_def sample_task_def f64_le_refl U64_MILLIS_def from_millis_def)
  from recovery_tries_everyone [OF still_rand_sound _ tally_start_inv this, of "[?a]" "\<lambda>_. 0" Sequential 1786
      False "()"]
  show ?thesis by auto
qed

end
