(* ===== verification/Keypair.thy ===== *)
theory Keypair
  imports Did_Key
begin

text \<open>
  Key pairs of \<open>atp-identity\<close> (\<open>keypair.rs\<close>) and the SDK's agent on top of them
  (\<open>atp-sdk/src/agent.rs\<close>). The Ed25519 implementation is the third-party crate \<open>ed25519-dalek\<close>:
  its keys and signatures are type variables and its operations the fields of the parameter
  \<open>ed25519\<close>. A freshly drawn secret key is an argument.
\<close>

record ('sk, 'vk, 'sg) ed25519 =
  sk_from_bytes :: "u8 list \<Rightarrow> 'sk"
  sk_to_bytes :: "'sk \<Rightarrow> u8 list"
  sk_verifying_key :: "'sk \<Rightarrow> 'vk"
  vk_to_bytes :: "'vk \<Rightarrow> u8 list"
  sk_sign :: "'sk \<Rightarrow> u8 list \<Rightarrow> 'sg"
  vk_verify_strict :: "'vk \<Rightarrow> u8 list \<Rightarrow> 'sg \<Rightarrow> bool"
  sg_to_bytes :: "'sg \<Rightarrow> u8 list"

text \<open>
  The documented behaviour the callers rely on: a secret key is restored from its bytes, a public
  key has 32 bytes, and a signature verifies against the public key of its signer.
\<close>

definition ed25519_sound :: "('sk, 'vk, 'sg) ed25519 \<Rightarrow> bool" where
  "ed25519_sound ed \<longleftrightarrow>
     (\<forall>k. sk_from_bytes ed (sk_to_bytes ed k) = k)
     \<and> (\<forall>vk. length (vk_to_bytes ed vk) = 32)
     \<and> (\<forall>k m. vk_verify_strict ed (sk_verifying_key ed k) m (sk_sign ed k m))"

section \<open>Key pairs\<close>

record 'sk key_pair =
  kp_signing_key :: 'sk

definition keypair_generate :: "'sk \<Rightarrow> identity_error + 'sk key_pair" where
  "keypair_generate fresh = Inr \<lparr>kp_signing_key = fresh\<rparr>"

definition keypair_from_bytes ::
  "('sk, 'vk, 'sg) ed25519 \<Rightarrow> u8 list \<Rightarrow> identity_error + 'sk key_pair" where
  "keypair_from_bytes ed bs = Inr \<lparr>kp_signing_key = sk_from_bytes ed bs\<rparr>"

definition secret_key_bytes :: "('sk, 'vk, 'sg) ed25519 \<Rightarrow> 'sk key_pair \<Rightarrow> u8 list" where
  "secret_key_bytes ed kp = sk_to_bytes ed (kp_signing_key kp)"

definition public_key_bytes :: "('sk, 'vk, 'sg) ed25519 \<Rightarrow> 'sk key_pair \<Rightarrow> u8 list" where
  "public_key_bytes ed kp = vk_to_bytes ed (sk_verifying_key ed (kp_signing_key kp))"

definition keypair_verifying_key :: "('sk, 'vk, 'sg) ed25519 \<Rightarrow> 'sk key_pair \<Rightarrow> 'vk" where
  "keypair_verifying_key ed kp = sk_verifying_key ed (kp_signing_key kp)"

definition keypair_sign :: "('sk, 'vk, 'sg) ed25519 \<Rightarrow> 'sk key_pair \<Rightarrow> u8 list \<Rightarrow> 'sg" where
  "keypair_sign ed kp message = sk_sign ed (kp_signing_key kp) message"

definition keypair_verify ::
  "('sk, 'vk, 'sg) ed25519 \<Rightarrow> 'sk key_pair \<Rightarrow> u8 list \<Rightarrow> 'sg \<Rightarrow> identity_error + unit" where
  "keypair_verify ed kp message sg =
     (if vk_verify_strict ed (sk_verifying_key ed (kp_signing_key kp)) message sg
      then Inr () else Inl SignatureVerification)"

definition verify_with_key ::
  "('sk, 'vk, 'sg) ed25519 \<Rightarrow> 'vk \<Rightarrow> u8 list \<Rightarrow> 'sg \<Rightarrow> identity_error + unit" where
  "verify_with_key ed vk message sg =
     (if vk_verify_strict ed vk message sg then Inr () else Inl SignatureVerification)"

definition keypair_clone :: "('sk, 'vk, 'sg) ed25519 \<Rightarrow> 'sk key_pair \<Rightarrow> 'sk key_pair" where
  "keypair_clone ed kp = \<lparr>kp_signing_key = sk_from_bytes ed (sk_to_bytes ed (kp_signing_key kp))\<rparr>"

section \<open>The agent of the SDK\<close>

record 'sk sdk_agent =
  sa_keypair :: "'sk key_pair"
  sa_did_uri :: unicode_text

text \<open>\<open>Agent::new\<close>; the two \<open>expect\<close>s are panics.\<close>

definition sdk_agent_new :: "('sk, 'vk, 'sg) ed25519 \<Rightarrow> 'sk \<Rightarrow> 'sk sdk_agent option" where
  "sdk_agent_new ed fresh =
     (case keypair_generate fresh of
        Inl _ \<Rightarrow> None
      | Inr kp \<Rightarrow> (case generate_did (public_key_bytes ed kp) of
          Inl _ \<Rightarrow> None
        | Inr d \<Rightarrow> Some \<lparr>sa_keypair = kp, sa_did_uri = to_uri d\<rparr>))"

definition sdk_agent_did :: "'sk sdk_agent \<Rightarrow> unicode_text" where
  "sdk_agent_did a = sa_did_uri a"

definition sdk_agent_sign :: "('sk, 'vk, 'sg) ed25519 \<Rightarrow> 'sk sdk_agent \<Rightarrow> u8 list \<Rightarrow> 'sg" where
  "sdk_agent_sign ed a message = keypair_sign ed (sa_keypair a) message"

definition sdk_agent_verify ::
  "('sk, 'vk, 'sg) ed25519 \<Rightarrow> 'sk sdk_agent \<Rightarrow> u8 list \<Rightarrow> 'sg \<Rightarrow> bool" where
  "sdk_agent_verify ed a message sg = is_ok (keypair_verify ed (sa_keypair a) message sg)"

text \<open>\<open>format!("{b:02x}")\<close>.\<close>

definition hex_digit :: "nat \<Rightarrow> nat" where
  "hex_digit n = (if n < 10 then 48 + n else 87 + n)"

definition hex_byte :: "u8 \<Rightarrow> unicode_text" where
  "hex_byte b = [hex_digit (unat b div 16), hex_digit (unat b mod 16)]"

definition public_key_hex :: "('sk, 'vk, 'sg) ed25519 \<Rightarrow> 'sk sdk_agent \<Rightarrow> unicode_text" where
  "public_key_hex ed a = concat (map hex_byte (public_key_bytes ed (sa_keypair a)))"

text \<open>
  The \<open>Display\<close> of an agent. The code slices the URI by bytes; a URI made by \<open>sdk_agent_new\<close> is
  ASCII, where a byte is a character.
\<close>

definition show_sdk_agent :: "'sk sdk_agent \<Rightarrow> unicode_text" where
  "show_sdk_agent a =
     (let uri = sa_did_uri a
      in if 30 < length uri
         then text_of ''Agent('' @ take 20 uri @ text_of ''...'' @ drop (length uri - 6) uri @ text_of '')''
         else text_of ''Agent('' @ uri @ text_of '')'')"

definition debug_sdk_agent :: "'sk sdk_agent \<Rightarrow> unicode_text" where
  "debug_sdk_agent a = text_of ''Agent('' @ sa_did_uri a @ text_of '')''"

definition show_sdk_signature :: "('sk, 'vk, 'sg) ed25519 \<Rightarrow> 'sg \<Rightarrow> unicode_text" where
  "show_sdk_signature ed sg =
     text_of ''Sig('' @ concat (map hex_byte (take 8 (sg_to_bytes ed sg))) @ text_of ''...)''"

section \<open>The identifier of an Ed25519 key\<close>

lemma bytes_value_snoc: "bytes_value (bs @ [b]) = 256 * bytes_value bs + unat b"
  by (simp add: bytes_value_def)

lemma bytes_value_prefix:
  "bytes_value (as @ bs) = 256 ^ length bs * bytes_value as + bytes_value bs"
proof (induction bs rule: rev_induct)
  case Nil
  then show ?case by (simp add: bytes_value_def)
next
  case (snoc b bs)
  then show ?case
    using bytes_value_snoc [of "as @ bs" b] by (simp add: bytes_value_snoc algebra_simps)
qed

lemma bytes_value_less: "bytes_value bs < 256 ^ length bs"
proof (induction bs rule: rev_induct)
  case Nil
  then show ?case by (simp add: bytes_value_def)
next
  case (snoc b bs)
  then show ?case using u8_less [of b] by (simp add: bytes_value_snoc)
qed

lemma multicodec_value: "bytes_value ED25519_MULTICODEC_PREFIX = 60673"
  by (simp add: bytes_value_def ED25519_MULTICODEC_PREFIX_def)

text \<open>
  The number of a multicodec payload has 47 digits in base 58 and starts with 5, 20, 43: whatever
  the key is, the identifier starts with \<open>z6Mk\<close> and has 48 characters.
\<close>

lemma three_digits:
  assumes "minimal ds" "digits_ok 58 ds" "dval 58 ds = 18023"
  shows "ds = [43, 20, 5]"
proof -
  have "(58::nat) ^ (length ds - 1) \<le> 18023" using dval_minimal [OF assms(1), of 58] assms(3) by simp
  also have "\<dots> < 58 ^ 3" by simp
  finally have "length ds - 1 < 3" by (rule power_less_imp_less_exp [rotated]) simp
  moreover have "(58::nat) ^ 2 < 58 ^ length ds" using dval_less [OF assms(2)] assms(3) by simp
  then have "2 < length ds" by (rule power_less_imp_less_exp [rotated]) simp
  ultimately have "length ds = Suc (Suc (Suc 0))" by simp
  then obtain x y z where d: "ds = [x, y, z]" by (auto simp: length_Suc_conv)
  have lt: "unat x < 58" "unat y < 58" using assms(2) d by simp_all
  have v: "18023 = unat x + 58 * (unat y + 58 * unat z)" using assms(3) d by simp
  have dm: "(a + 58 * k) mod 58 = a" "(a + 58 * k) div 58 = k" if "a < 58" for a k :: nat
    using that by simp_all
  have x: "unat x = 43" and "unat y + 58 * unat z = 310"
    using dm [OF lt(1), of "unat y + 58 * unat z"] unfolding v [symmetric] by simp_all
  then have "unat y = 20" "unat z = 5" using dm [OF lt(2), of "unat z"] by simp_all
  then have "x = 43" "y = 20" "z = 5" using x by (simp_all add: word_unat_eq_iff)
  then show ?thesis using d by simp
qed

lemma payload_digits:
  assumes "length pk = 32"
  shows "\<exists>lo. encode_num (ED25519_MULTICODEC_PREFIX @ pk) = lo @ [43, 20, 5] \<and> length lo = 44"
proof -
  define ds where "ds = encode_num (ED25519_MULTICODEC_PREFIX @ pk)"
  have ds: "minimal ds" "digits_ok 58 ds" "dval 58 ds = 256 ^ 32 * 60673 + bytes_value pk"
    using encode_num_props [of "ED25519_MULTICODEC_PREFIX @ pk"] assms
    by (simp_all add: ds_def bytes_value_prefix multicodec_value)
  have lo: "256 ^ 32 * 60673 \<le> dval 58 ds" and hi: "dval 58 ds < 256 ^ 32 * 60674"
    using ds(3) bytes_value_less [of pk] assms by simp_all
  have len: "44 \<le> length ds"
  proof (rule ccontr)
    assume "\<not> ?thesis"
    then have "(58::nat) ^ length ds \<le> 58 ^ 44" by (intro power_increasing) simp_all
    then have "dval 58 ds < 58 ^ 44" using dval_less [OF ds(2)] by (rule less_le_trans [rotated])
    then show False using lo by simp
  qed
  define hs where "hs = drop 44 ds"
  have split: "take 44 ds @ hs = ds" by (simp add: hs_def)
  then have ok: "digits_ok 58 (take 44 ds)" "digits_ok 58 hs" using ds(2) by (metis digits_ok_simps(3))+
  have v: "dval 58 ds = dval 58 (take 44 ds) + 58 ^ 44 * dval 58 hs"
    using dval_append [of 58 "take 44 ds" hs] split len by simp
  have "dval 58 (take 44 ds) < 58 ^ 44" using dval_less [OF ok(1)] len by simp
  then have h: "dval 58 hs = 18023" using v lo hi by simp
  then have "hs \<noteq> []" by auto
  then have "minimal hs" using ds(1) split h by (cases "ds = [0]") (auto simp: minimal_def hs_def)
  then have "hs = [43, 20, 5]" using ok(2) h by (rule three_digits)
  then show ?thesis using split len unfolding ds_def by (metis length_take min.absorb2)
qed

lemma z6Mk_identifier:
  assumes "length pk = 32" and "generate_did pk = Inr d"
  shows "\<exists>rest. to_uri d = text_of ''did:key:z6Mk'' @ rest \<and> length rest = 44"
proof -
  obtain lo where lo: "encode_num (ED25519_MULTICODEC_PREFIX @ pk) = lo @ [43, 20, 5]" "length lo = 44"
    using payload_digits [OF assms(1)] by blast
  have z: "takeWhile (\<lambda>b. b = 0) (ED25519_MULTICODEC_PREFIX @ pk) = []"
    by (simp add: ED25519_MULTICODEC_PREFIX_def)
  have c: "map digit_char [5, 20, 43] = text_of ''6Mk''"
    by (simp add: digit_char_def BASE58_ALPHABET_def text_of_def)
  have "base58_encode (ED25519_MULTICODEC_PREFIX @ pk) = text_of ''6Mk'' @ map digit_char (rev lo)"
    using c base58_encode_num [of "ED25519_MULTICODEC_PREFIX @ pk"]
    by (simp add: z lo(1)) (simp add: ED25519_MULTICODEC_PREFIX_def)
  then have "to_uri d = text_of ''did:key:z6Mk'' @ map digit_char (rev lo)"
    using assms(2) by (auto simp: generate_did_def to_uri_def text_of_def)
  then show ?thesis using lo(2) by (metis length_map length_rev)
qed

text \<open>A toy implementation: the public key is the secret key, a signature names its signer.\<close>

definition toy_ed25519 :: "(u8 list, u8 list, u8 list \<times> u8 list) ed25519" where
  "toy_ed25519 =
     \<lparr>sk_from_bytes = (\<lambda>bs. bs), sk_to_bytes = (\<lambda>k. k), sk_verifying_key = (\<lambda>k. k),
      vk_to_bytes = (\<lambda>vk. take 32 (vk @ replicate 32 0)), sk_sign = (\<lambda>k m. (k, m)),
      vk_verify_strict = (\<lambda>vk m sg. sg = (vk, m)), sg_to_bytes = (\<lambda>(k, m). k @ m)\<rparr>"

lemma toy_ed25519_sound: "ed25519_sound toy_ed25519"
  by (simp add: ed25519_sound_def toy_ed25519_def min_def)

text \<open>A restored or a cloned key pair is the key pair.\<close>

lemma keypair_round_trip:
  assumes "ed25519_sound ed"
  shows "keypair_from_bytes ed (secret_key_bytes ed kp) = Inr kp" "keypair_clone ed kp = kp"
  using assms
  by (simp_all add: ed25519_sound_def keypair_from_bytes_def secret_key_bytes_def keypair_clone_def)

lemma hex_digit_inj: "m < 16 \<Longrightarrow> n < 16 \<Longrightarrow> hex_digit m = hex_digit n \<longleftrightarrow> m = n"
  by (auto simp: hex_digit_def split: if_splits)

lemma hex_byte_inj: "hex_byte a = hex_byte b \<longleftrightarrow> a = b"
proof
  assume "hex_byte a = hex_byte b"
  moreover have "unat a div 16 < 16" "unat b div 16 < 16" using u8_less [of a] u8_less [of b] by simp_all
  ultimately have "unat a div 16 = unat b div 16" "unat a mod 16 = unat b mod 16"
    by (simp_all add: hex_byte_def hex_digit_inj)
  then have "unat a = unat b" by (metis div_mult_mod_eq)
  then show "a = b" by (simp add: word_unat_eq_iff)
qed simp

lemma hex_bytes_inj: "concat (map hex_byte as) = concat (map hex_byte bs) \<longleftrightarrow> as = bs"
proof (induction as arbitrary: bs)
  case Nil
  show ?case by (cases bs) (simp_all add: hex_byte_def)
next
  case (Cons a as)
  show ?case
  proof (cases bs)
    case Nil
    then show ?thesis by (simp add: hex_byte_def)
  next
    case (Cons b bs')
    have "length (hex_byte a) = length (hex_byte b)" by (simp add: hex_byte_def)
    then show ?thesis using Cons.IH [of bs'] Cons by (simp add: hex_byte_inj)
  qed
qed

section \<open>Properties\<close>

text \<open>
  C33. The identity of an agent holds together: making one from a fresh key never fails; its DID
  starts with \<open>did:key:z6Mk\<close>, has 56 characters and yields its public key back, under which what it
  signs verifies; the key pair survives storage as bytes; two agents show the same hexadecimal key
  only if their public keys are the same.
\<close>

theorem agent_identity_authentic:
  assumes "ed25519_sound ed"
  shows "\<exists>a d rest. sdk_agent_new ed k = Some a \<and> sa_did_uri a = to_uri d
    \<and> to_uri d = text_of ''did:key:z6Mk'' @ rest \<and> length rest = 44
    \<and> extract_public_key d = Inr (public_key_bytes ed (sa_keypair a))
    \<and> (\<forall>m. sdk_agent_verify ed a m (sdk_agent_sign ed a m)
         \<and> verify_with_key ed (keypair_verifying_key ed (sa_keypair a)) m (sdk_agent_sign ed a m) = Inr ())
    \<and> keypair_from_bytes ed (secret_key_bytes ed (sa_keypair a)) = Inr (sa_keypair a)
    \<and> (\<forall>b. public_key_hex ed a = public_key_hex ed b \<longleftrightarrow>
         public_key_bytes ed (sa_keypair a) = public_key_bytes ed (sa_keypair b))"
proof -
  let ?kp = "\<lparr>kp_signing_key = k\<rparr>"
  have len: "length (public_key_bytes ed ?kp) = 32"
    using assms by (simp add: ed25519_sound_def public_key_bytes_def)
  obtain d where d: "generate_did (public_key_bytes ed ?kp) = Inr d" by (simp add: generate_did_def)
  let ?a = "\<lparr>sa_keypair = ?kp, sa_did_uri = to_uri d\<rparr>"
  have new: "sdk_agent_new ed k = Some ?a" by (simp add: sdk_agent_new_def keypair_generate_def d)
  obtain rest where rest: "to_uri d = text_of ''did:key:z6Mk'' @ rest" "length rest = 44"
    using z6Mk_identifier [OF len d] by blast
  have key: "extract_public_key d = Inr (public_key_bytes ed ?kp)"
    using d extract_payload [OF payload_round_trip len] by (auto simp: generate_did_def)
  have sign: "sdk_agent_verify ed ?a m (sdk_agent_sign ed ?a m)
      \<and> verify_with_key ed (keypair_verifying_key ed ?kp) m (sdk_agent_sign ed ?a m) = Inr ()" for m
    using assms by (simp add: ed25519_sound_def sdk_agent_verify_def sdk_agent_sign_def
        keypair_verify_def keypair_sign_def verify_with_key_def keypair_verifying_key_def)
  have hex: "public_key_hex ed ?a = public_key_hex ed b \<longleftrightarrow>
      public_key_bytes ed ?kp = public_key_bytes ed (sa_keypair b)" for b
    by (simp add: public_key_hex_def hex_bytes_inj)
  show ?thesis
    using new rest key sign hex keypair_round_trip(1) [OF assms, of ?kp]
    by (intro exI [of _ ?a] exI [of _ d] exI [of _ rest] conjI allI) simp_all
qed

theorem agent_identity_authentic_witness:
  "\<exists>a. sdk_agent_new toy_ed25519 [1, 2, 3] = Some a
     \<and> sdk_agent_verify toy_ed25519 a [7] (sdk_agent_sign toy_ed25519 a [7])"
  using agent_identity_authentic [OF toy_ed25519_sound, of "[1, 2, 3]"] by blast

end
