(* ===== verification/Sdk.thy ===== *)
theory Sdk
  imports Harness Router Context_Diff Keypair
begin

text \<open>
  The SDK (\<open>atp-sdk\<close>: \<open>parse.rs\<close>, \<open>network.rs\<close>, and the types of \<open>report.rs\<close> and \<open>results.rs\<close>;
  \<open>agent.rs\<close> is in \<open>Keypair\<close>): the simulated network behind the calls that route, compress and
  benchmark. The printed forms and the functions of \<open>lib.rs\<close> are in \<open>Sdk_Print\<close>.
\<close>

section \<open>Names of skills\<close>

text \<open>
  \<open>to_lowercase().trim()\<close>. Outside ASCII only the Kelvin sign and the dotted capital I have ASCII
  letters in their lower-case form, \<open>k\<close>, which no alias and no scenario contains, and \<open>i\<close> with a
  combining dot; so characters outside ASCII are left alone. What is trimmed is the white space of
  Unicode.
\<close>

definition lower_char :: "nat \<Rightarrow> nat" where
  "lower_char c = (if 65 \<le> c \<and> c \<le> 90 then c + 32 else c)"

definition is_white_space :: "nat \<Rightarrow> bool" where
  "is_white_space c \<longleftrightarrow> 9 \<le> c \<and> c \<le> 13 \<or> 0x2000 \<le> c \<and> c \<le> 0x200A
     \<or> c \<in> {32, 0x85, 0xA0, 0x1680, 0x2028, 0x2029, 0x202F, 0x205F, 0x3000}"

definition trim_text :: "unicode_text \<Rightarrow> unicode_text" where
  "trim_text s = rev (dropWhile is_white_space (rev (dropWhile is_white_space s)))"

text \<open>An unknown name panics.\<close>

definition parse_skill :: "unicode_text \<Rightarrow> task_type option" where
  "parse_skill s =
     (let w = trim_text (map lower_char s)
      in if w \<in> text_of ` {''coding'', ''code'', ''codegen'', ''code_generation'', ''cg''}
         then Some CodeGeneration
         else if w \<in> text_of ` {''analysis'', ''analyze'', ''analyse''} then Some Analysis
         else if w \<in> text_of ` {''writing'', ''creative'', ''creative_writing'', ''cw''}
         then Some CreativeWriting
         else if w \<in> text_of ` {''data'', ''processing'', ''data_processing'', ''dp''}
         then Some DataProcessing
         else None)"

section \<open>Results\<close>

record route_result =
  rr_task :: string
  rr_pattern :: string
  rr_agents :: nat
  rr_quality :: f64
  rr_cost :: f64
  rr_latency_ms :: u64
  rr_ok :: bool
  rr_error :: "string option"

record compress_result =
  cr_original_size :: u64
  cr_compressed_size :: u64
  cr_ratio :: f64
  cr_chunks :: nat
  cr_confidence :: f64

record trust_info =
  ti_score :: f64
  ti_samples :: u32

fun show_routing_pattern :: "routing_pattern \<Rightarrow> string" where
  "show_routing_pattern DraftRefine = ''draft_refine''"
| "show_routing_pattern ParallelMerge = ''parallel_merge''"
| "show_routing_pattern Cascade = ''cascade''"
| "show_routing_pattern Ensemble = ''ensemble''"
| "show_routing_pattern Pipeline = ''pipeline''"

fun show_routing_error :: "routing_error \<Rightarrow> string" where
  "show_routing_error NoFeasibleRoute = ''no route satisfies constraints''"
| "show_routing_error NegativeCycle = ''negative cycle detected in routing graph''"
| "show_routing_error RouteExpired = ''route expired (TTL exceeded)''"
| "show_routing_error EmptyGraph = ''graph is empty''"

definition result_from_route :: "route \<Rightarrow> task_type \<Rightarrow> route_result" where
  "result_from_route r t =
     \<lparr>rr_task = show_task_type t, rr_pattern = show_routing_pattern (route_pattern r),
      rr_agents = length (route_agents r), rr_quality = rm_quality (route_metrics r),
      rr_cost = rm_cost (route_metrics r), rr_latency_ms = as_millis_u64 (rm_latency (route_metrics r)),
      rr_ok = True, rr_error = None\<rparr>"

definition result_from_metrics :: "task_type \<Rightarrow> bench_metrics \<Rightarrow> route_result" where
  "result_from_metrics t m =
     \<lparr>rr_task = show_task_type t, rr_pattern = ''full_atp'', rr_agents = 1,
      rr_quality = bm_avg_quality m, rr_cost = bm_avg_cost_per_task m,
      rr_latency_ms = f64_to_u64 (bm_avg_latency_ms m), rr_ok = True, rr_error = None\<rparr>"

definition result_failed :: "task_type \<Rightarrow> string \<Rightarrow> route_result" where
  "result_failed t reason =
     \<lparr>rr_task = show_task_type t, rr_pattern = ''none'', rr_agents = 0, rr_quality = 0, rr_cost = 0,
      rr_latency_ms = 0, rr_ok = False, rr_error = Some reason\<rparr>"

record bench_report =
  br_metrics :: "bench_metrics list"
  br_agents :: nat
  br_tasks :: nat
  br_seed :: u64

text \<open>\<open>name.to_lowercase()\<close> on both sides, then \<open>contains\<close>; the names of scenarios are ASCII.\<close>

definition report_scenario :: "bench_report \<Rightarrow> unicode_text \<Rightarrow> bench_metrics option" where
  "report_scenario rep name =
     find (\<lambda>m. sublist (map lower_char name) (map lower_char (text_of (bm_scenario m)))) (br_metrics rep)"

definition report_atp :: "bench_report \<Rightarrow> bench_metrics option" where
  "report_atp rep = report_scenario rep (text_of ''ATP (full)'')"

definition report_baseline :: "bench_report \<Rightarrow> bench_metrics option" where
  "report_baseline rep = report_scenario rep (text_of ''Sequential'')"

section \<open>The network behind the calls\<close>

record sdk_network =
  sn_harness :: sim_harness
  sn_seed :: u64
  sn_agent_count :: nat

definition network_with_seed ::
  "'r sim_env \<Rightarrow> (nat \<Rightarrow> agent_stamp) \<Rightarrow> (nat \<Rightarrow> agent_id) \<Rightarrow> u64 \<Rightarrow> sdk_network option" where
  "network_with_seed e st ids seed = do {
     h \<leftarrow> harness_benchmark e st ids seed;
     Some \<lparr>sn_harness = h, sn_seed = seed, sn_agent_count = network_agent_count (sh_network h)\<rparr>
   }"

definition sdk_network_new ::
  "'r sim_env \<Rightarrow> (nat \<Rightarrow> agent_stamp) \<Rightarrow> (nat \<Rightarrow> agent_id) \<Rightarrow> sdk_network option" where
  "sdk_network_new e st ids = network_with_seed e st ids 42"

fun add_sim_agents :: "simulated_agent list \<Rightarrow> agent_graph \<Rightarrow> agent_graph option" where
  "add_sim_agents [] g = Some g"
| "add_sim_agents (a # as) g = do {
     (g, idx) \<leftarrow> add_agent g (sim_id a) (map to_capability (sim_capabilities a)) (to_f64 (8 / 10));
     add_sim_agents as g
   }"

definition sdk_graph :: "sdk_network \<Rightarrow> agent_graph option" where
  "sdk_graph sn = do {
     g \<leftarrow> add_sim_agents (nw_agents (sh_network (sn_harness sn))) graph_new;
     fully_connect g (from_millis 5)
   }"

definition sdk_qos :: "f64 \<Rightarrow> qos_constraints" where
  "sdk_qos q = \<lparr>min_quality = q, max_latency = from_secs 30, max_cost = to_f64 10, min_trust = to_f64 (3 / 10)\<rparr>"

definition route_with_quality ::
  "sdk_network \<Rightarrow> table_order \<Rightarrow> stamp \<Rightarrow> unicode_text \<Rightarrow> f64 \<Rightarrow> route_result option" where
  "route_with_quality sn ord stamp skill q = do {
     t \<leftarrow> parse_skill skill;
     g \<leftarrow> sdk_graph sn;
     r \<leftarrow> find_route (router_new g) ord t (sdk_qos q) None stamp;
     Some (case r of Inr x \<Rightarrow> result_from_route x t | Inl e \<Rightarrow> result_failed t (show_routing_error e))
   }"

definition sdk_route ::
  "sdk_network \<Rightarrow> table_order \<Rightarrow> stamp \<Rightarrow> unicode_text \<Rightarrow> route_result option" where
  "sdk_route sn ord stamp skill = route_with_quality sn ord stamp skill (to_f64 (3 / 10))"

text \<open>One simulated task; \<open>payload\<close> is not used.\<close>

definition sdk_run ::
  "'r sim_env \<Rightarrow> (nat \<Rightarrow> duration) \<Rightarrow> (nat \<Rightarrow> nat \<Rightarrow> duration) \<Rightarrow> uuid \<Rightarrow> sdk_network \<Rightarrow>
   unicode_text \<Rightarrow> u8 list \<Rightarrow> route_result option" where
  "sdk_run e routed recovered new_id sn skill payload = do {
     t \<leftarrow> parse_skill skill;
     (tasks, r) \<leftarrow> generate_tasks e task_generator_new [new_id] (rand_seed e (sn_seed sn));
     m \<leftarrow> run_scenario e routed recovered (sn_harness sn) FullAtp tasks;
     Some (result_from_metrics t m)
   }"

definition all_scenarios :: "scenario list" where
  "all_scenarios =
     [Sequential, RoundRobin, FullAtp, AtpNoContext, AtpNoRouting, AtpNoTrust, AtpNoFault]"

definition sdk_benchmark ::
  "'r sim_env \<Rightarrow> (scenario \<Rightarrow> nat \<Rightarrow> duration) \<Rightarrow> (scenario \<Rightarrow> nat \<Rightarrow> nat \<Rightarrow> duration) \<Rightarrow> uuid list \<Rightarrow>
   sdk_network \<Rightarrow> bench_report option" where
  "sdk_benchmark e routed recovered ids sn = do {
     (tasks, r) \<leftarrow> generate_tasks e (with_context_size 50000 task_generator_new) ids
       (rand_seed e (sn_seed sn));
     all_metrics \<leftarrow> collect_options
       (\<lambda>s. run_scenario e (routed s) (recovered s) (sn_harness sn) s tasks) all_scenarios;
     Some \<lparr>br_metrics = all_metrics, br_agents = sn_agent_count sn, br_tasks = length ids,
           br_seed = sn_seed sn\<rparr>
   }"

definition sdk_compress :: "vector_env \<Rightarrow> u8 list \<Rightarrow> unicode_text \<Rightarrow> compress_result option" where
  "sdk_compress env data skill = do {
     t \<leftarrow> parse_skill skill;
     r \<leftarrow> compress_for_task env compressor_new data t (map of_char ''task'');
     Some (case r of
         Inr d \<Rightarrow>
           \<lparr>cr_original_size = diff_original_size d, cr_compressed_size = diff_compressed_size d,
            cr_ratio = (if 0 < diff_compressed_size d
              then f64_of_nat (unat (diff_original_size d)) / f64_of_nat (unat (diff_compressed_size d))
              else PInf),
            cr_chunks = length (diff_chunks d), cr_confidence = diff_confidence d\<rparr>
       | Inl _ \<Rightarrow>
           \<lparr>cr_original_size = of_nat (length data), cr_compressed_size = of_nat (length data),
            cr_ratio = 1, cr_chunks = 0, cr_confidence = 0\<rparr>)
   }"

definition sdk_trust :: "sdk_network \<Rightarrow> unicode_text \<Rightarrow> trust_info option" where
  "sdk_trust sn skill = do {
     t \<leftarrow> parse_skill skill;
     let caps = filter (\<lambda>c. sc_task_type c = t)
       (concat (map sim_capabilities (nw_agents (sh_network (sn_harness sn)))));
     let total_quality = f64_sum (map sc_quality_mean caps);
     let n = (of_nat (length caps) :: u32);
     Some (if 0 < n then \<lparr>ti_score = total_quality / f64_of_nat (unat n), ti_samples = n\<rparr>
       else \<lparr>ti_score = to_f64 (5 / 10), ti_samples = 0\<rparr>)
   }"

section \<open>The graph behind a route\<close>

definition add_op :: "simulated_agent \<Rightarrow> graph_op" where
  "add_op a = AddAgent (sim_id a) (map to_capability (sim_capabilities a)) (to_f64 (8 / 10))"

lemma add_sim_agents_run: "add_sim_agents as g = graph_run (map add_op as) g"
  by (induction as arbitrary: g) (auto simp: add_op_def bind_eq_Some_conv split: option.split bind_splits)

lemma graph_run_append: "graph_run (xs @ ys) g = Option.bind (graph_run xs g) (graph_run ys)"
  by (induction xs arbitrary: g) (auto split: bind_splits)

lemma graph_run_Nil: "graph_run [] = Some"
  by (rule ext) simp

lemma sdk_graph_run:
  "sdk_graph sn = graph_run (map add_op (nw_agents (sh_network (sn_harness sn))) @ [FullyConnect (from_millis 5)])
     graph_new"
  by (cases "graph_run (map add_op (nw_agents (sh_network (sn_harness sn)))) graph_new")
    (simp_all add: sdk_graph_def add_sim_agents_run graph_run_append graph_run_Nil)

lemma add_ops_nodes:
  assumes "distinct (map sim_id as)"
  shows "fst (fold net_step (map add_op as) (N, L)) a =
    (case find (\<lambda>x. sim_id x = a) as of
       Some x \<Rightarrow> Some (map to_capability (sim_capabilities x), to_f64 (8 / 10), True)
     | None \<Rightarrow> N a)"
  using assms
proof (induction as arbitrary: N)
  case Nil
  then show ?case by simp
next
  case (Cons x as)
  have "find (\<lambda>y. sim_id y = sim_id x) as = None"
    using Cons.prems by (auto simp: find_None_iff) (metis imageI)
  then show ?case using Cons by (auto simp: add_op_def split: option.split)
qed

lemma sdk_graph_view:
  assumes "distinct (map sim_id (nw_agents (sh_network (sn_harness sn))))"
  shows "\<exists>g. sdk_graph sn = Some g \<and> graph_wf g \<and>
    (\<forall>a. node_view g a = map_option (\<lambda>x. (map to_capability (sim_capabilities x), to_f64 (8 / 10), True))
       (find (\<lambda>x. sim_id x = a) (nw_agents (sh_network (sn_harness sn)))))"
proof -
  let ?as = "nw_agents (sh_network (sn_harness sn))"
  obtain g where g: "sdk_graph sn = Some g" "graph_wf g"
    "network_of g = fold net_step (map add_op ?as @ [FullyConnect (from_millis 5)]) (network_of graph_new)"
    using graph_run_correct [OF graph_new_wf] unfolding sdk_graph_run by blast
  have "node_view g = fst (network_of g)" by (simp add: network_of_def)
  also have "\<dots> = fst (fold net_step (map add_op ?as) (Map.empty, Map.empty))" using g(3) by simp
  finally have "node_view g a = map_option (\<lambda>x. (map to_capability (sim_capabilities x), to_f64 (8 / 10), True))
       (find (\<lambda>x. sim_id x = a) ?as)" for a
    by (simp add: add_ops_nodes [OF assms] split: option.split)
  then show ?thesis using g(1,2) by blast
qed

lemma find_to_capability:
  "find (\<lambda>c. cap_task_type c = t) (map to_capability cs) = map_option to_capability (find (\<lambda>c. sc_task_type c = t) cs)"
  by (induction cs) (simp_all add: to_capability_def)

text \<open>The candidates of a route are the capable agents of the simulated network.\<close>

lemma sdk_candidates:
  assumes "graph_wf g" "distinct (map sim_id agents)" "mt \<le> to_f64 (8 / 10)"
    and "\<forall>a. node_view g a = map_option (\<lambda>x. (map to_capability (sim_capabilities x), to_f64 (8 / 10), True))
       (find (\<lambda>x. sim_id x = a) agents)"
  shows "x \<in> set agents \<Longrightarrow> sim_get_capability x t = Some c \<Longrightarrow>
      \<exists>y \<in> set (extract_agents g t mt). ai_capability y = to_capability c"
    and "y \<in> set (extract_agents g t mt) \<Longrightarrow>
      \<exists>x \<in> set agents. \<exists>c. sim_get_capability x t = Some c \<and> ai_capability y = to_capability c"
proof -
  have nodes: "\<exists>x \<in> set agents. an_capabilities n = map to_capability (sim_capabilities x)"
    if n: "n \<in> set (g_nodes g)" for n
  proof -
    obtain i where i: "i < length (g_nodes g)" "n = g_nodes g ! i"
      using n by (auto simp: in_set_conv_nth)
    then have "node_view g (an_id n) = Some (node_info n)"
      using graph_wfD(2) [OF assms(1), of "an_id n" i] by (simp add: node_view_def node_by_id_def vec_at_def)
    then obtain x where "find (\<lambda>x. sim_id x = an_id n) agents = Some x"
      "an_capabilities n = map to_capability (sim_capabilities x)"
      using assms(4) by (auto simp: node_info_def)
    then show ?thesis by (auto simp: find_Some_iff)
  qed
  show "\<exists>x \<in> set agents. \<exists>c. sim_get_capability x t = Some c \<and> ai_capability y = to_capability c"
    if y: "y \<in> set (extract_agents g t mt)"
  proof -
    have "agent_info_of g t (ai_index y) = Some y" using y extract_agents_mem by blast
    from info_of_fields [OF this] have y': "ai_index y < length (g_nodes g)"
      "capability_for (g_nodes g ! ai_index y) t = Some (ai_capability y)"
      by simp_all
    obtain x where x: "x \<in> set agents"
      "an_capabilities (g_nodes g ! ai_index y) = map to_capability (sim_capabilities x)"
      using nodes [OF nth_mem [OF y'(1)]] by blast
    have "map_option to_capability (sim_get_capability x t) = Some (ai_capability y)"
      using y'(2) by (simp only: capability_for_def x(2) find_to_capability sim_get_capability_def)
    then obtain c where "sim_get_capability x t = Some c" "ai_capability y = to_capability c" by auto
    then show ?thesis using x(1) by blast
  qed
  show "\<exists>y \<in> set (extract_agents g t mt). ai_capability y = to_capability c"
    if x: "x \<in> set agents" "sim_get_capability x t = Some c"
  proof -
    have "find (\<lambda>z. sim_id z = sim_id x) agents = Some x"
      using x(1) assms(2) by (induction agents) auto
    then have "node_view g (sim_id x) = Some (map to_capability (sim_capabilities x), to_f64 (8 / 10), True)"
      using assms(4) by simp
    then obtain i where i: "i < length (g_nodes g)"
      "node_info (g_nodes g ! i) = (map to_capability (sim_capabilities x), to_f64 (8 / 10), True)"
      by (auto simp: node_view_def node_by_id_def vec_at_def bind_eq_Some_conv split: if_splits)
    then have cap: "capability_for (g_nodes g ! i) t = Some (to_capability c)"
      using x(2) by (simp add: capability_for_def node_info_def find_to_capability sim_get_capability_def)
    then have "i \<in> set (capable_agents g t mt)"
      using i assms(3) by (simp add: capable_agents_iff is_capable_def node_info_def)
    moreover obtain y where "agent_info_of g t i = Some y" "ai_index y = i" "ai_capability y = to_capability c"
      using i(1) cap by (simp add: agent_info_of_def graph_node_def vec_at_def)
    ultimately show ?thesis unfolding extract_agents_mem Bex_def by metis
  qed
qed

section \<open>The automatic choice does not panic\<close>

lemma fold_max_le: "\<forall>x \<in> set xs. x \<le> b \<Longrightarrow> a \<le> b \<Longrightarrow> fold max xs a \<le> (b :: nat)"
  by (induction xs arbitrary: a) simp_all

lemma redundant_metrics_total:
  assumes "\<forall>a \<in> set sel. info_latency a \<le> U64_MILLIS" "overhead \<le> from_secs 1"
  shows "redundant_metrics sel overhead \<noteq> None"
proof -
  have "fold max (map info_latency sel) 0 \<le> U64_MILLIS" using assms(1) by (intro fold_max_le) simp_all
  then have "fold max (map info_latency sel) 0 + overhead \<le> DURATION_MAX"
    using assms(2) by (simp add: U64_MILLIS_def from_secs_def DURATION_MAX_def NANOS_PER_SEC_def)
  then show ?thesis by (simp add: redundant_metrics_def Let_def dur_add_fits)
qed

lemma ensemble_total:
  assumes "\<forall>a \<in> set (extract_agents g t (min_trust q)). info_latency a \<le> U64_MILLIS"
  shows "ensemble g t q cm ttl n stamp \<noteq> None"
proof -
  let ?s = "sorted_by_quality (extract_agents g t (min_trust q))"
  have "redundant_metrics (take k (sort_by ensemble_less ?s)) (from_millis 5) \<noteq> None" for k
  proof (rule redundant_metrics_total)
    show "\<forall>a \<in> set (take k (sort_by ensemble_less ?s)). info_latency a \<le> U64_MILLIS"
      using assms set_take_subset [of k "sort_by ensemble_less ?s"] by auto
  qed (simp add: from_millis_def from_secs_def NANOS_PER_SEC_def)
  then obtain m where "redundant_metrics (take (min n (length (extract_agents g t (min_trust q))))
      (sort_by ensemble_less ?s)) (from_millis 5) = Some m" by (metis not_None_eq)
  then show ?thesis by (simp add: ensemble_def Let_def)
qed

lemma single_total:
  assumes "cap_estimated_latency c \<le> U64_MILLIS"
  shows "\<exists>m. compute_route_metrics cm [c] [] = Some m
    \<and> rm_quality m = 1 * clamp (cap_estimated_quality c) 0 1 \<and> rm_latency m = cap_estimated_latency c
    \<and> rm_cost m = 0 + cap_cost_per_task c"
proof -
  have "cap_estimated_latency c \<le> DURATION_MAX"
    using assms by (simp add: U64_MILLIS_def DURATION_MAX_def NANOS_PER_SEC_def)
  then show ?thesis
    by (simp add: compute_route_metrics_def dur_sum_def dur_add_def f64_product_def f64_sum_def)
qed

lemma first_alone_total:
  "\<forall>a \<in> set as. info_latency a \<le> U64_MILLIS \<Longrightarrow> first_alone q cm ttl stamp as \<noteq> None"
proof (induction as)
  case Nil
  then show ?case by simp
next
  case (Cons a as)
  obtain m where "compute_route_metrics cm [ai_capability a] [] = Some m"
    using single_total [of "ai_capability a" cm] Cons.prems by auto
  then show ?case using Cons by simp
qed

lemma or_else_total: "r \<noteq> None \<Longrightarrow> s \<noteq> None \<Longrightarrow> or_else r s \<noteq> None"
  by (auto simp: or_else_def split: option.split sum.split)

text \<open>
  For a request with time and money to spare only the ensemble and the single agents are tried, and
  their arithmetic cannot overflow.
\<close>

lemma auto_select_total:
  assumes "\<forall>a \<in> set (extract_agents g t (min_trust q)). info_latency a \<le> U64_MILLIS
      \<and> \<not> max_cost q < info_cost a * to_f64 (15 / 10)"
    and "from_millis 500 < max_latency q"
  shows "auto_select_pattern g t q cm ttl stamp \<noteq> None"
proof (cases "extract_agents g t (min_trust q) = []")
  case True
  then show ?thesis by (simp add: auto_select_pattern_def)
next
  case False
  let ?as = "extract_agents g t (min_trust q)"
  let ?costs = "sort_by (\<lambda>a b. a < b) (map info_cost ?as)"
  have "length ?costs div 2 < length ?costs" using False by (intro div_less_dividend) simp_all
  then have "?costs ! (length ?costs div 2) \<in> set ?costs" by (rule nth_mem)
  then obtain a where "a \<in> set ?as" "median_cost ?as = info_cost a" by (auto simp: median_cost_def Let_def)
  then have cheap: "\<not> max_cost q < median_cost ?as * to_f64 (15 / 10)" using assms(1) by auto
  have alone: "first_alone q cm ttl stamp (sorted_by_cost ?as) \<noteq> None"
    by (rule first_alone_total) (use assms(1) in simp)
  have "or_else (ensemble g t q cm ttl 3 stamp) (first_alone q cm ttl stamp (sorted_by_cost ?as)) \<noteq> None"
    by (rule or_else_total [OF ensemble_total alone]) (use assms(1) in simp)
  then show ?thesis
    unfolding auto_select_pattern_def Let_def using False alone cheap assms(2) by simp
qed

section \<open>Routes on the benchmark network\<close>

lemma to_capability_simps [simp]:
  "cap_estimated_quality (to_capability c) = sc_quality_mean c"
  "cap_cost_per_task (to_capability c) = sc_cost c"
  "cap_task_type (to_capability c) = sc_task_type c"
  "cap_estimated_latency (to_capability c) = from_millis (unat (f64_to_u64 (sc_latency_mean_ms c)))"
  by (simp_all add: to_capability_def)

lemma advertised_latency: "cap_estimated_latency (to_capability c) \<le> U64_MILLIS"
  using f64_to_u64_le [of "sc_latency_mean_ms c"] by (simp add: from_millis_def U64_MILLIS_def)

lemma benchmark_costs:
  assumes "x \<in> set (benchmark_agents st ids)" "c \<in> set (sim_capabilities x)"
  shows "unit_f64 (sc_cost c)"
proof -
  have u: "unit_f64 (sc_cost (budget_cap t))" "unit_f64 (sc_cost (standard_cap t))"
    "unit_f64 (sc_cost (premium_cap t))" "unit_f64 (sc_cost (specialist_cap t))"
    "unit_f64 (sc_cost (unreliable_cap t))" for t
    by (simp_all add: budget_cap_def standard_cap_def premium_cap_def specialist_cap_def
        unreliable_cap_def to_f64_unit)
  then show ?thesis using assms by (auto simp: benchmark_split specialists_eq)
qed

lemma benchmark_specialist:
  "\<exists>x \<in> set (benchmark_agents st ids). sim_get_capability x t = Some (specialist_cap t)"
  by (cases t) (auto simp: benchmark_split specialists_eq sim_get_capability_def)

lemma unit_neutral: "f64_wf x \<Longrightarrow> unit_f64 x \<Longrightarrow> 1 * x = x \<and> 0 + x = x"
  by (auto simp: unit_f64_Fin f64_zero_one_Fin f64_wf_Fin to_f64_exact)

lemma specialist_metrics:
  "\<exists>m. compute_route_metrics cm [to_capability (specialist_cap t)] [] = Some m
     \<and> rm_quality m = to_f64 (93 / 100) \<and> rm_latency m = from_millis 1500 \<and> rm_cost m = to_f64 (8 / 100)"
proof -
  have u: "unit_f64 (to_f64 (93 / 100))" by (simp add: to_f64_unit)
  have one: "1 * to_f64 q = to_f64 q" "0 + to_f64 q = to_f64 q" if "0 \<le> q" "q \<le> 1" for q
    using unit_neutral [OF f64_wf_to_f64 to_f64_unit [OF that]] by simp_all
  have "to_f64 1500 = Fin 1500" using to_f64_exact [OF exact_of_int, of 1500] by simp
  then have lat: "unat (f64_to_u64 (to_f64 1500)) = 1500"
    by (simp add: f64_to_u64_def f64_to_nat_sat_def)
  have caps: "sc_quality_mean (specialist_cap t) = to_f64 (93 / 100)"
    "sc_latency_mean_ms (specialist_cap t) = to_f64 1500" "sc_cost (specialist_cap t) = to_f64 (8 / 100)"
    by (simp_all add: specialist_cap_def)
  obtain m where "compute_route_metrics cm [to_capability (specialist_cap t)] [] = Some m"
    "rm_quality m = 1 * clamp (to_f64 (93 / 100)) 0 1" "rm_latency m = from_millis 1500"
    "rm_cost m = 0 + to_f64 (8 / 100)"
    using single_total [OF advertised_latency, of cm "specialist_cap t"] by (auto simp: caps lat)
  then show ?thesis unfolding clamp_id [OF u] one(1) by (auto simp: one)
qed

lemma benchmark_route:
  assumes "graph_wf g" "orders_ok ord" "distinct (map sim_id (benchmark_agents st ids))"
    and "\<forall>a. node_view g a = map_option (\<lambda>x. (map to_capability (sim_capabilities x), to_f64 (8 / 10), True))
       (find (\<lambda>x. sim_id x = a) (benchmark_agents st ids))"
    and "q \<le> to_f64 (93 / 100)"
  shows "\<exists>r. find_route (router_new g) ord t (sdk_qos q) None stamp = Some (Inr r)"
proof -
  let ?q = "sdk_qos q" and ?cm = default_cost_model
  have trust: "min_trust ?q \<le> to_f64 (8 / 10)" unfolding sdk_qos_def by (simp, rule to_f64_mono) simp
  note cand = sdk_candidates [OF assms(1,3) trust assms(4)]
  obtain x where x: "x \<in> set (benchmark_agents st ids)" "sim_get_capability x t = Some (specialist_cap t)"
    using benchmark_specialist by blast
  obtain y where y: "y \<in> set (extract_agents g t (min_trust ?q))"
    "ai_capability y = to_capability (specialist_cap t)" using cand(1) [OF x] by blast
  have "g_nodes g \<noteq> []" using y(1) extract_needs_nodes by (metis empty_iff empty_set)
  then have valid: "graph_validate g = Inr ()" by (simp add: validate_ok)
  have limit: "to_f64 (15 / 10) \<le> to_f64 10" by (rule to_f64_mono) simp
  have bounded: "info_latency a \<le> U64_MILLIS \<and> \<not> max_cost ?q < info_cost a * to_f64 (15 / 10)"
    if a: "a \<in> set (extract_agents g t (min_trust ?q))" for a
  proof -
    obtain z c where z: "z \<in> set (benchmark_agents st ids)" "sim_get_capability z t = Some c"
      "ai_capability a = to_capability c" using cand(2) [OF a] by blast
    then have "c \<in> set (sim_capabilities z)" by (auto simp: sim_get_capability_def find_Some_iff)
    then have "unit_f64 (info_cost a)" using benchmark_costs [OF z(1)] z(3) by simp
    then have "info_cost a * to_f64 (15 / 10) \<le> to_f64 (15 / 10)"
      by (rule times_unit_le) (simp_all add: to_f64_nonneg is_finite_lit)
    then have "info_cost a * to_f64 (15 / 10) \<le> to_f64 10" using limit f64_le_trans by blast
    then have "\<not> to_f64 10 < info_cost a * to_f64 (15 / 10)"
      using f64_le_less_trans f64_less_irrefl by blast
    then show ?thesis using advertised_latency [of c] z(3) by (simp add: sdk_qos_def)
  qed
  have time: "from_millis 500 < max_latency ?q"
    by (simp add: sdk_qos_def from_millis_def from_secs_def NANOS_PER_SEC_def)
  have "auto_select_pattern g t ?q ?cm (cfg_route_ttl default_routing_config) stamp \<noteq> None"
    using auto_select_total [OF _ time] bounded by blast
  moreover have "auto_select_pattern g t ?q ?cm (cfg_route_ttl default_routing_config) stamp \<noteq> Some (Inl e)" for e
  proof
    assume e: "auto_select_pattern g t ?q ?cm (cfg_route_ttl default_routing_config) stamp = Some (Inl e)"
    obtain m where m: "compute_route_metrics ?cm [ai_capability y] [] = Some m"
      "rm_quality m = to_f64 (93 / 100)" "rm_latency m = from_millis 1500" "rm_cost m = to_f64 (8 / 100)"
      using specialist_metrics [of ?cm t] y(2) by auto
    have "to_f64 (8 / 100) \<le> to_f64 10" by (rule to_f64_mono) simp
    then have "satisfies_constraints ?cm m ?q"
      using m(2-4) assms(5)
      by (simp add: satisfies_constraints_def sdk_qos_def from_millis_def from_secs_def NANOS_PER_SEC_def)
    then show False using auto_select_Inl [OF e] y(1) m(1) by blast
  qed
  ultimately obtain r where "auto_select_pattern g t ?q ?cm (cfg_route_ttl default_routing_config) stamp
      = Some (Inr r)" by (metis option.exhaust sum.exhaust)
  then show ?thesis
    by (simp add: find_route_def router_new_def valid or_else_def Let_def)
qed

section \<open>Reports\<close>

lemma benchmark_network_parts:
  assumes "network_with_seed e st ids seed = Some sn"
  shows "nw_agents (sh_network (sn_harness sn)) = benchmark_agents st ids" "sn_seed sn = seed"
    "sh_seed (sn_harness sn) = seed" "sn_agent_count sn = 50"
  using assms
  by (auto simp: network_with_seed_def harness_benchmark_def harness_new_def benchmark_network_def
      network_agent_count_def benchmark_length Let_def bind_eq_Some_conv)

lemma report_lookup:
  assumes "map bm_scenario (br_metrics rep) = map show_scenario all_scenarios"
  shows "report_atp rep = Some (br_metrics rep ! 2) \<and> report_baseline rep = Some (br_metrics rep ! 0)"
proof -
  have "length (br_metrics rep) = 7" using arg_cong [OF assms, of length] by (simp add: all_scenarios_def)
  then obtain a b c d f g h where ms: "br_metrics rep = [a, b, c, d, f, g, h]"
    by (auto simp: length_Suc_conv eval_nat_numeral)
  then have s: "bm_scenario a = ''Sequential''" "bm_scenario b = ''Round-Robin''"
    "bm_scenario c = ''ATP (full)''" using assms by (simp_all add: all_scenarios_def)
  show ?thesis
    by (simp add: report_atp_def report_baseline_def report_scenario_def ms s text_of_def lower_char_def
        sublist_code)
qed

lemma scenario_named:
  "run_scenario e routed recovered h s tasks = Some m \<Longrightarrow> bm_scenario m = show_scenario s"
  by (auto simp: run_scenario_def summarize_def Let_def bind_eq_Some_conv)

lemma collect_all:
  assumes "\<And>x. x \<in> set xs \<Longrightarrow> \<exists>y. f x = Some y \<and> P x y"
  shows "\<exists>ys. collect_options f xs = Some ys \<and> list_all2 P xs ys"
  using assms
proof (induction xs)
  case Nil
  then show ?case by simp
next
  case (Cons x xs)
  obtain y where y: "f x = Some y" "P x y" using Cons.prems by auto
  obtain ys where "collect_options f xs = Some ys" "list_all2 P xs ys" using Cons by auto
  then show ?case using y by simp
qed

text \<open>A result that is reported as found has what was asked for, whatever that was.\<close>

lemma benchmark_graph:
  assumes "inj_on ids {..<50}" and "network_with_seed e st ids seed = Some sn"
  obtains g where "sdk_graph sn = Some g" "graph_wf g"
    "\<forall>a. node_view g a = map_option (\<lambda>x. (map to_capability (sim_capabilities x), to_f64 (8 / 10), True))
       (find (\<lambda>x. sim_id x = a) (benchmark_agents st ids))"
    "distinct (map sim_id (benchmark_agents st ids))"
proof -
  note parts = benchmark_network_parts [OF assms(2)]
  have ids: "distinct (map sim_id (benchmark_agents st ids))"
    using assms(1) by (simp add: benchmark_ids distinct_map atLeast_upt)
  then show ?thesis using sdk_graph_view [of sn] that unfolding parts(1) by blast
qed

definition result_keeps :: "f64 \<Rightarrow> route_result \<Rightarrow> bool" where
  "result_keeps q rr \<longleftrightarrow> q \<le> rr_quality rr \<and> rr_cost rr \<le> to_f64 10
     \<and> unat (rr_latency_ms rr) \<le> 30000 \<and> 1 \<le> rr_agents rr"

lemma result_from_route_keeps:
  assumes "satisfies_constraints cm (route_metrics r) (sdk_qos q)" "route_agents r \<noteq> []"
  shows "result_keeps q (result_from_route r t)"
proof -
  have "rm_latency (route_metrics r) div 1000000 \<le> 30000"
    using assms(1) div_le_mono [of "rm_latency (route_metrics r)" 30000000000 1000000]
    by (simp add: satisfies_constraints_def sdk_qos_def from_secs_def NANOS_PER_SEC_def)
  then have "unat (as_millis_u64 (rm_latency (route_metrics r))) \<le> 30000"
    by (simp add: as_millis_u64_def as_millis_def unat_of_nat take_bit_nat_eq_self)
  then show ?thesis
    using assms
    by (simp add: result_keeps_def result_from_route_def satisfies_constraints_def sdk_qos_def Suc_le_eq)
qed

lemma routed_result_keeps:
  assumes "orders_ok ord" and "sdk_graph sn = Some g" "graph_wf g"
    and "route_with_quality sn ord stamp skill q = Some rr" and "rr_ok rr"
  shows "result_keeps q rr"
proof -
  obtain t out where out: "find_route (router_new g) ord t (sdk_qos q) None stamp = Some out"
    "rr = (case out of Inr x \<Rightarrow> result_from_route x t | Inl e \<Rightarrow> result_failed t (show_routing_error e))"
    using assms(2,4) by (auto simp: route_with_quality_def bind_eq_Some_conv)
  then obtain r where r: "find_route (router_new g) ord t (sdk_qos q) None stamp = Some (Inr r)"
    "rr = result_from_route r t"
    using assms(5) by (cases out) (simp_all add: result_failed_def)
  have "graph_wf (er_graph (router_new g))" using assms(3) by (simp add: router_new_def)
  from find_route_soundness [OF this assms(1) r(1)] show ?thesis
    unfolding r(2) by (intro result_from_route_keeps) (auto simp: route_sound_def)
qed

section \<open>Properties\<close>

text \<open>
  C12. The SDK finds routes: on the benchmark network an unknown name of a skill panics, and for every
  known one and every quality up to that of the specialists (0.93, and the default of 0.3 is below
  it) a route is found. Whatever quality was asked for, a result that is reported as found has it,
  costs at most ten dollars, takes at most thirty seconds and names at least one agent.
\<close>

theorem sdk_route_finds:
  assumes "orders_ok ord" and "inj_on ids {..<50}" and "network_with_seed e st ids seed = Some sn"
  shows "(case parse_skill skill of
      None \<Rightarrow> route_with_quality sn ord stamp skill q = None
    | Some t \<Rightarrow> q \<le> to_f64 (93 / 100) \<longrightarrow>
        (\<exists>rr. route_with_quality sn ord stamp skill q = Some rr \<and> rr_ok rr \<and> rr_task rr = show_task_type t))
    \<and> (\<forall>rr. route_with_quality sn ord stamp skill q = Some rr \<and> rr_ok rr \<longrightarrow>
        q \<le> rr_quality rr \<and> rr_cost rr \<le> to_f64 10 \<and> unat (rr_latency_ms rr) \<le> 30000 \<and> 1 \<le> rr_agents rr)"
proof -
  obtain g where g: "sdk_graph sn = Some g" "graph_wf g"
    "\<forall>a. node_view g a = map_option (\<lambda>x. (map to_capability (sim_capabilities x), to_f64 (8 / 10), True))
       (find (\<lambda>x. sim_id x = a) (benchmark_agents st ids))"
    "distinct (map sim_id (benchmark_agents st ids))"
    using benchmark_graph [OF assms(2,3)] by blast
  have "\<exists>rr. route_with_quality sn ord stamp skill q = Some rr \<and> rr_ok rr \<and> rr_task rr = show_task_type t"
    if "parse_skill skill = Some t" "q \<le> to_f64 (93 / 100)" for t
    using benchmark_route [OF g(2) assms(1) g(4,3) that(2), of t stamp] that(1) g(1)
    by (auto simp: route_with_quality_def result_from_route_def)
  moreover have "route_with_quality sn ord stamp skill q = None" if "parse_skill skill = None"
    using that by (simp add: route_with_quality_def)
  ultimately show ?thesis
    using routed_result_keeps [OF assms(1) g(1,2), of stamp skill q]
    unfolding result_keeps_def by (cases "parse_skill skill") auto
qed

lemma coding_skill: "parse_skill (text_of '' Coding '') = Some CodeGeneration"
  by (simp add: parse_skill_def text_of_def lower_char_def trim_text_def is_white_space_def Let_def)

lemma sample_network: "\<exists>sn. network_with_seed still_rand (\<lambda>_. ((\<lambda>_. []), 0)) (\<lambda>i. AgentId (of_nat i)) 42 = Some sn"
proof -
  obtain es r' where "generate_edges still_rand (SmallWorld 6 (to_f64 (3 / 10)))
      (benchmark_agents (\<lambda>_. ((\<lambda>_. []), 0)) (\<lambda>i. AgentId (of_nat i))) (rand_seed still_rand 42) = Some (es, r')"
    using generate_edges_match [OF still_rand_sound] benchmark_ids_distinct by blast
  then show ?thesis
    by (simp add: network_with_seed_def harness_benchmark_def benchmark_network_def Let_def)
qed

lemma numbered_ids: "inj_on (\<lambda>i. AgentId (of_nat i)) {..<50 :: nat}"
  by (auto simp: inj_on_def word_of_nat_eq_iff take_bit_nat_eq_self)

theorem sdk_route_finds_witness:
  "\<exists>sn rr. network_with_seed still_rand (\<lambda>_. ((\<lambda>_. []), 0)) (\<lambda>i. AgentId (of_nat i)) 42 = Some sn
     \<and> route_with_quality sn (\<lambda>_ rs. remdups (map bf_path rs)) (0, 0) (text_of '' Coding '')
          (to_f64 (3 / 10)) = Some rr \<and> rr_ok rr"
proof -
  obtain sn where sn: "network_with_seed still_rand (\<lambda>_. ((\<lambda>_. []), 0)) (\<lambda>i. AgentId (of_nat i)) 42 = Some sn"
    using sample_network by blast
  have "to_f64 (3 / 10) \<le> to_f64 (93 / 100)" by (rule to_f64_mono) simp
  then show ?thesis
    using sn sdk_route_finds [OF keys_order_ok numbered_ids sn, of "(0, 0)" "text_of '' Coding ''" "to_f64 (3 / 10)"]
    by (simp add: coding_skill) blast
qed

text \<open>
  A benchmark of the SDK is complete: tasks are generated and all seven scenarios run to the end,
  in the documented order, each counting every task once; the report's lookups by name find the
  full protocol and the sequential baseline.
\<close>

lemma sdk_benchmark_complete:
  assumes "rand_sound e" and "network_with_seed e st ids seed = Some sn"
    and "\<forall>s. (\<Sum>i < length tids. routed s i) \<le> DURATION_MAX" and "length tids \<le> 2 ^ 53"
  shows "\<exists>rep. sdk_benchmark e routed recovered tids sn = Some rep
    \<and> map bm_scenario (br_metrics rep) = map show_scenario all_scenarios
    \<and> (\<forall>m \<in> set (br_metrics rep). bm_total_tasks m = length tids
         \<and> bm_tasks_completed m + bm_tasks_failed m = length tids)
    \<and> report_atp rep = Some (br_metrics rep ! 2) \<and> report_baseline rep = Some (br_metrics rep ! 0)"
proof -
  let ?g = "with_context_size 50000 task_generator_new"
  have "tg_task_types ?g \<noteq> []"
    by (simp add: with_context_size_def task_generator_new_def all_task_types_def)
  from generate_tasks_ok [OF assms(1) this] obtain tasks r' where
    gen: "generate_tasks e ?g tids (rand_seed e (sn_seed sn)) = Some (tasks, r')"
    and "list_all2 (task_generated ?g) tids tasks" by blast
  then have len: "length tasks = length tids" by (simp add: list_all2_lengthD)
  have ok: "\<forall>a \<in> set (nw_agents (sh_network (sn_harness sn))). sim_agent_ok a"
    using benchmark_agents_ok by (simp add: benchmark_network_parts [OF assms(2)])
  have run: "\<exists>m. run_scenario e (routed s) (recovered s) (sn_harness sn) s tasks = Some m
      \<and> bm_scenario m = show_scenario s \<and> bm_total_tasks m = length tids
      \<and> bm_tasks_completed m + bm_tasks_failed m = length tids" for s
    using run_scenario_spec [OF assms(1) ok, of "routed s" tasks "recovered s" s] assms(3,4) len scenario_named
    by fastforce
  have "\<exists>ms. collect_options
      (\<lambda>s. run_scenario e (routed s) (recovered s) (sn_harness sn) s tasks) all_scenarios = Some ms
    \<and> list_all2 (\<lambda>s m. bm_scenario m = show_scenario s \<and> bm_total_tasks m = length tids
      \<and> bm_tasks_completed m + bm_tasks_failed m = length tids) all_scenarios ms"
    by (rule collect_all) (rule run)
  then obtain ms where ms: "collect_options
      (\<lambda>s. run_scenario e (routed s) (recovered s) (sn_harness sn) s tasks) all_scenarios = Some ms"
    "list_all2 (\<lambda>s m. bm_scenario m = show_scenario s \<and> bm_total_tasks m = length tids
      \<and> bm_tasks_completed m + bm_tasks_failed m = length tids) all_scenarios ms" by blast
  then have names: "map bm_scenario ms = map show_scenario all_scenarios"
    and each: "\<forall>m \<in> set ms. bm_total_tasks m = length tids
         \<and> bm_tasks_completed m + bm_tasks_failed m = length tids"
    by (auto simp: list_all2_conv_all_nth in_set_conv_nth list_eq_iff_nth_eq)
  have "sdk_benchmark e routed recovered tids sn = Some \<lparr>br_metrics = ms, br_agents = sn_agent_count sn,
      br_tasks = length tids, br_seed = sn_seed sn\<rparr>"
    by (simp add: sdk_benchmark_def gen ms(1))
  then show ?thesis
    using names each report_lookup [of "\<lparr>br_metrics = ms, br_agents = sn_agent_count sn,
      br_tasks = length tids, br_seed = sn_seed sn\<rparr>"] by simp
qed

lemma sdk_benchmark_complete_example:
  "\<exists>sn rep m. network_with_seed still_rand (\<lambda>_. ((\<lambda>_. []), 0)) (\<lambda>i. AgentId (of_nat i)) 42 = Some sn
     \<and> sdk_benchmark still_rand (\<lambda>_ _. 7) (\<lambda>_ _ _. 0) [1, 2, 3] sn = Some rep
     \<and> report_atp rep = Some m"
proof -
  obtain sn where sn: "network_with_seed still_rand (\<lambda>_. ((\<lambda>_. []), 0)) (\<lambda>i. AgentId (of_nat i)) 42 = Some sn"
    using sample_network by blast
  have "\<forall>s::scenario. (\<Sum>i < length [1, 2, 3 :: uuid]. 7) \<le> DURATION_MAX"
    by (simp add: DURATION_MAX_def NANOS_PER_SEC_def)
  from sdk_benchmark_complete [OF still_rand_sound sn this, of "\<lambda>_ _ _. 0"] show ?thesis
    using sn by auto
qed

section \<open>Observations\<close>

text \<open>
  \<open>Network::run\<close> simulates a task of a random type: neither the skill nor the payload has an
  influence on it, and the result is labelled with the skill all the same.
\<close>

lemma run_ignores_its_arguments:
  assumes "parse_skill skill = Some t" "parse_skill skill' = Some t'"
  shows "sdk_run e routed recovered i sn skill payload =
    map_option (\<lambda>rr. rr\<lparr>rr_task := show_task_type t\<rparr>) (sdk_run e routed recovered i sn skill' payload')"
  using assms
  by (cases "generate_tasks e task_generator_new [i] (rand_seed e (sn_seed sn))")
    (auto simp: sdk_run_def result_from_metrics_def split: bind_splits)

text \<open>
  The samples of \<open>TrustInfo\<close> are not interactions but the capabilities of the simulated agents: 41 for
  every skill, before anything has been run.
\<close>

lemma filter_archetype:
  assumes "\<And>t. sc_task_type (f t) = t"
  shows "filter (\<lambda>c. sc_task_type c = t) (map f all_task_types) = [f t]"
  using assms by (cases t) (simp_all add: all_task_types_def)

lemma replicated_caps:
  assumes "\<And>i. filter P (sim_capabilities (f i)) = [c]"
  shows "filter P (concat (map (sim_capabilities \<circ> f) is)) = replicate (length is) c"
  using assms by (induction "is") simp_all

lemma benchmark_caps:
  "length (filter (\<lambda>c. sc_task_type c = t) (concat (map sim_capabilities (benchmark_agents st ids)))) = 41"
proof -
  have s: "length (filter (\<lambda>c. sc_task_type c = t)
      (concat (map sim_capabilities (benchmark_specialists st ids)))) = 3"
    by (cases t) (simp_all add: specialists_eq)
  show ?thesis
    by (simp add: benchmark_split s replicated_caps filter_archetype
        del: filter_concat)
qed

lemma benchmark_trust:
  assumes "network_with_seed e st ids seed = Some sn" "parse_skill skill = Some t"
  shows "\<exists>ti. sdk_trust sn skill = Some ti \<and> ti_samples ti = 41 \<and> unit_f64 (ti_score ti)"
proof -
  let ?caps = "filter (\<lambda>c. sc_task_type c = t) (concat (map sim_capabilities (benchmark_agents st ids)))"
  have u: "unit_f64 (sc_quality_mean (budget_cap t))" "unit_f64 (sc_quality_mean (standard_cap t))"
    "unit_f64 (sc_quality_mean (premium_cap t))" "unit_f64 (sc_quality_mean (specialist_cap t))"
    "unit_f64 (sc_quality_mean (unreliable_cap t))" for t
    by (simp_all add: budget_cap_def standard_cap_def premium_cap_def specialist_cap_def
        unreliable_cap_def to_f64_unit)
  have "\<forall>q \<in> set (map sc_quality_mean ?caps). unit_f64 q"
    by (auto simp: benchmark_split specialists_eq u)
  then have "unit_f64 (f64_sum (map sc_quality_mean ?caps) / f64_of_nat (length (map sc_quality_mean ?caps)))"
    by (rule unit_mean) (use benchmark_caps [of t st ids] in auto)
  then show ?thesis
    using assms(2) by (simp add: sdk_trust_def benchmark_network_parts [OF assms(1)] benchmark_caps Let_def)
qed

text \<open>Compression never makes the context larger.\<close>

lemma compression_never_grows:
  assumes "env_sound env" "parse_skill skill = Some t" "length data < 2 ^ 53"
    and "length (split_into_chunks data DEFAULT_CHUNK_SIZE) \<le> 2 ^ 32"
  shows "\<exists>cr. sdk_compress env data skill = Some cr \<and> unat (cr_original_size cr) = length data
    \<and> cr_compressed_size cr \<le> cr_original_size cr \<and> 1 \<le> cr_ratio cr"
proof -
  let ?cfg = "default_msc_config" and ?task = "map of_char ''task''"
  obtain e where e: "embed_task env t ?task (msc_dimensions ?cfg) = Some e"
    "emb_dimensions e = msc_dimensions ?cfg" "length (emb_values e) = msc_dimensions ?cfg"
    using embed_total [OF assms(1)] unfolding embed_task_def by blast
  have "consistent e" using e by (simp add: consistent_def)
  from extraction_spec [OF assms(1) this, of data ?cfg] assms(4)
  have x: "case extract_msc env data e ?cfg of None \<Rightarrow> False | Some (Inl err) \<Rightarrow> True
    | Some (Inr r) \<Rightarrow> res_compressed_size r \<le> length data \<and> res_original_size r = length data"
    by (auto simp: default_msc_config_def split: option.splits sum.splits)
  have n: "unat (of_nat (length data) :: u64) = length data"
    using assms(3) by (simp add: unat_of_nat take_bit_nat_eq_self)
  have run: "sdk_compress env data skill = map_option (\<lambda>r. case map_sum id msc_to_diff r of
      Inr d \<Rightarrow> \<lparr>cr_original_size = diff_original_size d, cr_compressed_size = diff_compressed_size d,
            cr_ratio = (if 0 < diff_compressed_size d
              then f64_of_nat (unat (diff_original_size d)) / f64_of_nat (unat (diff_compressed_size d))
              else PInf), cr_chunks = length (diff_chunks d), cr_confidence = diff_confidence d\<rparr>
    | Inl _ \<Rightarrow> \<lparr>cr_original_size = of_nat (length data), cr_compressed_size = of_nat (length data),
            cr_ratio = 1, cr_chunks = 0, cr_confidence = 0\<rparr>) (extract_msc env data e ?cfg)"
    using e(1) by (cases "extract_msc env data e ?cfg")
      (simp_all add: sdk_compress_def assms(2) compress_for_task_def compress_def compressor_new_def)
  show ?thesis
  proof (cases "\<exists>r. extract_msc env data e ?cfg = Some (Inr r)")
    case False
    then show ?thesis using x run n by (auto simp: f64_le_refl split: option.splits sum.splits)
  next
    case True
    then obtain r where r: "extract_msc env data e ?cfg = Some (Inr r)" by blast
    then have le: "res_compressed_size r \<le> length data" "res_original_size r = length data" using x by simp_all
    let ?k = "res_compressed_size r"
    have k: "unat (of_nat ?k :: u64) = ?k" using le(1) assms(3) by (simp add: unat_of_nat take_bit_nat_eq_self)
    have "(1 :: f64) \<le> f64_of_nat (length data) / f64_of_nat ?k" if "0 < ?k"
    proof -
      have f: "f64_of_nat (length data) = Fin (of_nat (length data))" "f64_of_nat ?k = Fin (of_nat ?k)"
        using le(1) assms(3) by (simp_all add: f64_of_nat_exact)
      have "to_f64 1 \<le> to_f64 (of_nat (length data) / of_nat ?k)"
        using that le(1) by (intro to_f64_mono) (simp add: le_divide_eq)
      then show ?thesis using that by (simp add: f to_f64_exact f64_zero_one_Fin)
    qed
    moreover have "(1 :: f64) \<le> PInf" by (simp add: f64_zero_one_Fin)
    ultimately show ?thesis
      using run r le n k by (auto simp: msc_to_diff_def word_le_nat_alt word_less_nat_alt)
  qed
qed

end
