(* ===== verification/Sdk_Print.thy ===== *)
theory Sdk_Print
  imports Sdk
begin

text \<open>
  What the SDK prints (the \<open>Display\<close> implementations of \<open>results.rs\<close>, \<open>report.rs\<close> and \<open>network.rs\<close>),
  and the functions of \<open>lib.rs\<close>, which share one network for the whole process. Printed text is the
  list of its code points; what the functions write to the terminal is returned.
\<close>

section \<open>Numbers\<close>

text \<open>
  \<open>{:.n}\<close> of an \<open>f64\<close>: the exact value rounded to \<open>n\<close> decimals, ties to even, after the sign;
  \<open>{:+.n}\<close> writes the sign of positive numbers too.
\<close>

definition fraction_digits :: "nat \<Rightarrow> nat \<Rightarrow> unicode_text" where
  "fraction_digits n k = map (\<lambda>i. 48 + k div 10 ^ (n - Suc i) mod 10) [0..<n]"

definition fixed_digits :: "nat \<Rightarrow> rat \<Rightarrow> unicode_text" where
  "fixed_digits n q =
     (let k = nat (round_half_even (q * 10 ^ n))
      in decimal (k div 10 ^ n) @ (if n = 0 then [] else 46 # fraction_digits n (k mod 10 ^ n)))"

definition fixed_text :: "nat \<Rightarrow> f64 \<Rightarrow> unicode_text" where
  "fixed_text n x =
     (case x of
        Fin q \<Rightarrow> (if q < 0 then [45] else []) @ fixed_digits n \<bar>q\<bar>
      | PInf \<Rightarrow> text_of ''inf'' | NInf \<Rightarrow> text_of ''-inf'' | NaN \<Rightarrow> text_of ''NaN'')"

definition signed_text :: "nat \<Rightarrow> f64 \<Rightarrow> unicode_text" where
  "signed_text n x = (if 0 \<le> x then [43] else []) @ fixed_text n x"

text \<open>\<open>{:<w}\<close> and \<open>{:>w}\<close>.\<close>

definition pad_right :: "nat \<Rightarrow> unicode_text \<Rightarrow> unicode_text" where
  "pad_right w s = s @ replicate (w - length s) 32"

definition pad_left :: "nat \<Rightarrow> unicode_text \<Rightarrow> unicode_text" where
  "pad_left w s = replicate (w - length s) 32 @ s"

section \<open>Results\<close>

definition plural :: "nat \<Rightarrow> unicode_text" where
  "plural n = (if n = 1 then [] else text_of ''s'')"

definition show_route_result :: "route_result \<Rightarrow> unicode_text" where
  "show_route_result r =
     (if rr_ok r
      then text_of ''Route: '' @ text_of (rr_pattern r) @ text_of '' via '' @ decimal (rr_agents r)
        @ text_of '' agent'' @ plural (rr_agents r) @ text_of '' (q='' @ fixed_text 2 (rr_quality r)
        @ text_of '', $'' @ fixed_text 4 (rr_cost r) @ text_of '', ''
        @ decimal (unat (rr_latency_ms r)) @ text_of ''ms)''
      else text_of ''Route: FAILED '' @ [0x2014, 32]
        @ text_of (case rr_error r of Some reason \<Rightarrow> reason | None \<Rightarrow> ''unknown''))"

definition show_compress_result :: "compress_result \<Rightarrow> unicode_text" where
  "show_compress_result r =
     fixed_text 1 (cr_ratio r) @ text_of ''x compression ('' @ decimal (unat (cr_original_size r))
     @ text_of ''B '' @ [0x2192, 32] @ decimal (unat (cr_compressed_size r)) @ text_of ''B, ''
     @ decimal (cr_chunks r) @ text_of '' chunk'' @ plural (cr_chunks r) @ text_of '')''"

definition show_trust_info :: "trust_info \<Rightarrow> unicode_text" where
  "show_trust_info i =
     text_of ''Trust: '' @ fixed_text 2 (ti_score i) @ text_of '' (n='' @ decimal (unat (ti_samples i))
     @ text_of '')''"

definition show_sdk_network :: "sdk_network \<Rightarrow> unicode_text" where
  "show_sdk_network sn =
     text_of ''Network('' @ decimal (sn_agent_count sn) @ text_of '' agents, ''
     @ decimal (length (nw_edges (sh_network (sn_harness sn)))) @ text_of '' edges, seed=''
     @ decimal (unat (sn_seed sn)) @ text_of '')''"

section \<open>The report\<close>

definition rule_line :: "nat \<Rightarrow> unicode_text" where
  "rule_line c = replicate 68 c @ [10]"

definition report_header :: unicode_text where
  "report_header =
     pad_right 20 (text_of ''Scenario'') @ [32] @ pad_left 9 (text_of ''Cost/Task'') @ [32]
     @ pad_left 8 (text_of ''Latency'') @ [32] @ pad_left 8 (text_of ''Quality'') @ [32]
     @ pad_left 9 (text_of ''Recovery'') @ [32] @ pad_left 6 (text_of ''Ctx'') @ [32]
     @ pad_left 6 (text_of ''Failed'') @ [10]"

definition recovery_text :: "f64 \<Rightarrow> unicode_text" where
  "recovery_text x =
     (if x = PInf \<or> x = NInf then text_of ''inf'' else fixed_text 0 x @ text_of ''ms'')"

definition report_row :: "bench_metrics \<Rightarrow> unicode_text" where
  "report_row m =
     (let recovery = recovery_text (bm_fault_recovery_ms m);
          ctx = 1 / f64_max (bm_context_efficiency m) (to_f64 (1 / 1000))
      in pad_right 20 (text_of (bm_scenario m)) @ text_of '' $''
         @ pad_left 7 (fixed_text 4 (bm_avg_cost_per_task m)) @ [32]
         @ pad_left 6 (fixed_text 0 (bm_avg_latency_ms m)) @ text_of ''ms ''
         @ pad_left 7 (fixed_text 3 (bm_avg_quality m)) @ [32] @ pad_left 9 recovery @ [32]
         @ pad_left 5 (fixed_text 1 ctx) @ text_of ''x '' @ pad_left 6 (decimal (bm_tasks_failed m)) @ [10])"

definition report_comparison :: "bench_metrics \<Rightarrow> bench_metrics \<Rightarrow> unicode_text" where
  "report_comparison sq atp =
     [10] @ text_of ''  ATP vs Sequential:'' @ [10]
     @ (if 0 < bm_avg_cost_per_task sq
        then text_of ''    Cost:    ''
          @ signed_text 1 ((1 - bm_avg_cost_per_task atp / bm_avg_cost_per_task sq) * to_f64 100)
          @ text_of ''%'' @ [10]
        else [])
     @ (if 0 < bm_avg_latency_ms sq
        then text_of ''    Latency: ''
          @ signed_text 1 ((1 - bm_avg_latency_ms atp / bm_avg_latency_ms sq) * to_f64 100)
          @ text_of ''%'' @ [10]
        else [])
     @ text_of ''    Quality: '' @ signed_text 3 (bm_avg_quality atp - bm_avg_quality sq) @ [10]"

definition show_report :: "bench_report \<Rightarrow> unicode_text" where
  "show_report rep =
     rule_line 0x2550
     @ text_of ''  ATP Benchmark: '' @ decimal (br_agents rep) @ text_of '' agents, ''
     @ decimal (br_tasks rep) @ text_of '' tasks, seed='' @ decimal (unat (br_seed rep)) @ [10]
     @ rule_line 0x2550 @ [10] @ report_header @ rule_line 0x2500
     @ concat (map report_row (br_metrics rep)) @ rule_line 0x2500
     @ (case (report_baseline rep, report_atp rep) of
          (Some sq, Some atp) \<Rightarrow> report_comparison sq atp
        | _ \<Rightarrow> [])"

section \<open>One network for the process\<close>

text \<open>
  The static \<open>GLOBAL\<close>: the first call fills it with \<open>Network::new()\<close>, later calls find it there.
\<close>

type_synonym sdk_cell = "sdk_network option"

definition sdk_global :: "sdk_network option \<Rightarrow> sdk_cell \<Rightarrow> (sdk_network \<times> sdk_cell) option" where
  "sdk_global new_network cell =
     (case cell of
        Some sn \<Rightarrow> Some (sn, cell)
      | None \<Rightarrow> do { sn \<leftarrow> new_network; Some (sn, Some sn) })"

definition sdk_bench ::
  "sdk_network option \<Rightarrow> 'r sim_env \<Rightarrow> (scenario \<Rightarrow> nat \<Rightarrow> duration) \<Rightarrow>
   (scenario \<Rightarrow> nat \<Rightarrow> nat \<Rightarrow> duration) \<Rightarrow> uuid list \<Rightarrow> sdk_cell \<Rightarrow> (bench_report \<times> sdk_cell) option" where
  "sdk_bench new_network e routed recovered ids cell = do {
     (sn, cell) \<leftarrow> sdk_global new_network cell;
     rep \<leftarrow> sdk_benchmark e routed recovered ids sn;
     Some (rep, cell)
   }"

definition sdk_find_route ::
  "sdk_network option \<Rightarrow> table_order \<Rightarrow> stamp \<Rightarrow> unicode_text \<Rightarrow> sdk_cell \<Rightarrow>
   (route_result \<times> sdk_cell) option" where
  "sdk_find_route new_network ord stamp skill cell = do {
     (sn, cell) \<leftarrow> sdk_global new_network cell;
     r \<leftarrow> sdk_route sn ord stamp skill;
     Some (r, cell)
   }"

definition sdk_find_route_with ::
  "sdk_network option \<Rightarrow> table_order \<Rightarrow> stamp \<Rightarrow> unicode_text \<Rightarrow> f64 \<Rightarrow> sdk_cell \<Rightarrow>
   (route_result \<times> sdk_cell) option" where
  "sdk_find_route_with new_network ord stamp skill q cell = do {
     (sn, cell) \<leftarrow> sdk_global new_network cell;
     r \<leftarrow> route_with_quality sn ord stamp skill q;
     Some (r, cell)
   }"

text \<open>Compressing does not use the network, but the call creates it.\<close>

definition sdk_shrink ::
  "sdk_network option \<Rightarrow> vector_env \<Rightarrow> u8 list \<Rightarrow> unicode_text \<Rightarrow> sdk_cell \<Rightarrow>
   (compress_result \<times> sdk_cell) option" where
  "sdk_shrink new_network env data skill cell = do {
     (sn, cell) \<leftarrow> sdk_global new_network cell;
     r \<leftarrow> sdk_compress env data skill;
     Some (r, cell)
   }"

definition sdk_trust_score ::
  "sdk_network option \<Rightarrow> unicode_text \<Rightarrow> sdk_cell \<Rightarrow> (trust_info \<times> sdk_cell) option" where
  "sdk_trust_score new_network skill cell = do {
     (sn, cell) \<leftarrow> sdk_global new_network cell;
     i \<leftarrow> sdk_trust sn skill;
     Some (i, cell)
   }"

text \<open>The functions that print; the second component is what they write.\<close>

definition print_benchmark ::
  "sdk_network option \<Rightarrow> 'r sim_env \<Rightarrow> (scenario \<Rightarrow> nat \<Rightarrow> duration) \<Rightarrow>
   (scenario \<Rightarrow> nat \<Rightarrow> nat \<Rightarrow> duration) \<Rightarrow> (nat \<Rightarrow> uuid) \<Rightarrow> sdk_cell \<Rightarrow> (unicode_text \<times> sdk_cell) option"
  where
  "print_benchmark new_network e routed recovered new_ids cell = do {
     (rep, cell) \<leftarrow> sdk_bench new_network e routed recovered (map new_ids [0..<10000]) cell;
     Some (show_report rep @ [10], cell)
   }"

definition print_route ::
  "sdk_network option \<Rightarrow> table_order \<Rightarrow> stamp \<Rightarrow> unicode_text \<Rightarrow> sdk_cell \<Rightarrow>
   (unicode_text \<times> sdk_cell) option" where
  "print_route new_network ord stamp skill cell = do {
     (r, cell) \<leftarrow> sdk_find_route new_network ord stamp skill cell;
     Some (show_route_result r @ [10], cell)
   }"

definition print_compress ::
  "sdk_network option \<Rightarrow> vector_env \<Rightarrow> u8 list \<Rightarrow> unicode_text \<Rightarrow> sdk_cell \<Rightarrow>
   (unicode_text \<times> sdk_cell) option" where
  "print_compress new_network env data skill cell = do {
     (r, cell) \<leftarrow> sdk_shrink new_network env data skill cell;
     Some (show_compress_result r @ [10], cell)
   }"

definition print_sign ::
  "('sk, 'vk, 'sg) ed25519 \<Rightarrow> 'sk \<Rightarrow> u8 list \<Rightarrow> unicode_text option" where
  "print_sign ed fresh message = do {
     a \<leftarrow> sdk_agent_new ed fresh;
     let sg = sdk_agent_sign ed a message;
     let verified = sdk_agent_verify ed a message sg;
     Some (show_sdk_agent a @ [10] @ text_of ''  Signed: '' @ show_sdk_signature ed sg @ [10]
       @ text_of ''  Verified: '' @ text_of (if verified then ''true'' else ''false'') @ [10])
   }"

definition print_trust ::
  "sdk_network option \<Rightarrow> unicode_text \<Rightarrow> sdk_cell \<Rightarrow> (unicode_text \<times> sdk_cell) option" where
  "print_trust new_network skill cell = do {
     (i, cell) \<leftarrow> sdk_trust_score new_network skill cell;
     Some (show_trust_info i @ [10], cell)
   }"

section \<open>What is printed is the nearest decimal\<close>

text \<open>Reading a printed number back: the digits, divided by the power of ten of those after the point.\<close>

definition digits_value :: "unicode_text \<Rightarrow> nat" where
  "digits_value ds = foldl (\<lambda>v c. 10 * v + (c - 48)) 0 ds"

definition read_fixed :: "unicode_text \<Rightarrow> rat" where
  "read_fixed s =
     (let neg = s \<noteq> [] \<and> hd s = 45; body = (if neg then tl s else s);
          whole = takeWhile (\<lambda>c. c \<noteq> 46) body; frac = tl (dropWhile (\<lambda>c. c \<noteq> 46) body);
          v = of_nat (digits_value (whole @ frac)) / 10 ^ length frac
      in if neg then - v else v)"

lemma digits_value_append:
  "digits_value (xs @ ys) = digits_value xs * 10 ^ length ys + digits_value ys"
proof (induction ys rule: rev_induct)
  case (snoc y ys)
  then show ?case by (simp add: digits_value_def algebra_simps)
qed (simp add: digits_value_def)

lemma digits_value_decimal: "digits_value (decimal n) = n"
proof (induction n rule: decimal.induct)
  case (1 n)
  show ?case
  proof (cases "n < 10")
    case True
    then show ?thesis by (simp add: decimal.simps [of n] digits_value_def)
  next
    case False
    then show ?thesis
      using 1 by (simp add: decimal.simps [of n] digits_value_append) (simp add: digits_value_def)
  qed
qed

lemma decimal_digits: "\<forall>c \<in> set (decimal n). 48 \<le> c \<and> c \<le> 57"
proof (induction n rule: decimal.induct)
  case (1 n)
  then show ?case by (subst decimal.simps) auto
qed

lemma decimal_not_empty [simp]: "decimal n \<noteq> []"
  by (subst decimal.simps) simp

lemma length_fraction_digits [simp]: "length (fraction_digits n k) = n"
  by (simp add: fraction_digits_def)

lemma fraction_digits_Suc:
  "fraction_digits (Suc n) k = fraction_digits n (k div 10) @ [48 + k mod 10]"
proof -
  have "k div 10 ^ (n - i) = k div 10 div 10 ^ (n - Suc i)" if "i < n" for i
    using that by (simp add: Suc_diff_Suc [symmetric] div_mult2_eq)
  then show ?thesis by (auto simp: fraction_digits_def Suc_diff_le)
qed

lemma digits_value_fraction: "digits_value (fraction_digits n k) = k mod 10 ^ n"
proof (induction n arbitrary: k)
  case 0
  show ?case by (simp add: fraction_digits_def digits_value_def)
next
  case (Suc n)
  have "digits_value (fraction_digits (Suc n) k) = 10 * (k div 10 mod 10 ^ n) + k mod 10"
    unfolding fraction_digits_Suc digits_value_append Suc by (simp add: digits_value_def)
  then show ?case by (simp add: mod_mult2_eq)
qed

lemma read_fixed_digits:
  assumes "0 \<le> q"
  shows "read_fixed (fixed_digits n q) = of_int (round_half_even (q * 10 ^ n)) / 10 ^ n"
    and "fixed_digits n q \<noteq> [] \<and> hd (fixed_digits n q) \<noteq> 45"
proof -
  let ?k = "nat (round_half_even (q * 10 ^ n))"
  let ?w = "decimal (?k div 10 ^ n)" and ?f = "fraction_digits n (?k mod 10 ^ n)"
  have k: "0 \<le> round_half_even (q * 10 ^ n)" using assms by (intro int_le_round_half_even) simp
  have w: "\<forall>c \<in> set ?w. c \<noteq> 46" "hd ?w \<noteq> 45"
    using decimal_digits [of "?k div 10 ^ n"] hd_in_set [OF decimal_not_empty] by fastforce+
  have split: "fixed_digits n q = ?w @ (if n = 0 then [] else 46 # ?f)"
    by (simp add: fixed_digits_def Let_def)
  show start: "fixed_digits n q \<noteq> [] \<and> hd (fixed_digits n q) \<noteq> 45"
    using w(2) by (simp add: split hd_append)
  have parts: "takeWhile (\<lambda>c. c \<noteq> 46) (fixed_digits n q) = ?w"
    "tl (dropWhile (\<lambda>c. c \<noteq> 46) (fixed_digits n q)) = ?f"
    using w(1) by (auto simp: split takeWhile_append dropWhile_append takeWhile_eq_all_conv
        fraction_digits_def)
  have "digits_value (?w @ ?f) = ?k"
    by (simp add: digits_value_append digits_value_decimal digits_value_fraction div_mult_mod_eq)
  then have "read_fixed (fixed_digits n q) = of_nat ?k / 10 ^ n"
    using start by (simp add: read_fixed_def Let_def parts)
  then show "read_fixed (fixed_digits n q) = of_int (round_half_even (q * 10 ^ n)) / 10 ^ n"
    using k by simp
qed

lemma round_half_even_within: "\<bar>of_int (round_half_even x) - x\<bar> \<le> 1 / 2"
proof -
  have "x - of_int \<lfloor>x\<rfloor> < 1" "0 \<le> x - of_int \<lfloor>x\<rfloor>" by linarith+
  then show ?thesis by (auto simp: round_half_even_def Let_def abs_le_iff)
qed

lemma fixed_digits_near:
  assumes "0 \<le> q"
  shows "\<bar>read_fixed (fixed_digits n q) - q\<bar> \<le> 1 / 2 / 10 ^ n"
proof -
  have "of_int (round_half_even (q * 10 ^ n)) / 10 ^ n - q =
      (of_int (round_half_even (q * 10 ^ n)) - q * 10 ^ n) / 10 ^ n"
    by (simp add: field_simps)
  then have "\<bar>of_int (round_half_even (q * 10 ^ n)) / 10 ^ n - q\<bar> =
      \<bar>of_int (round_half_even (q * 10 ^ n)) - q * 10 ^ n\<bar> / 10 ^ n"
    by (simp add: abs_divide)
  then show ?thesis
    using divide_right_mono [OF round_half_even_within [of "q * 10 ^ n"], of "10 ^ n"]
    unfolding read_fixed_digits(1) [OF assms] by simp
qed

text \<open>A finite number is printed as the nearest decimal with \<open>n\<close> places.\<close>

lemma fixed_text_nearest: "\<bar>read_fixed (fixed_text n (Fin q)) - q\<bar> \<le> 1 / 2 / 10 ^ n"
proof (cases "q < 0")
  case False
  then show ?thesis using fixed_digits_near [of q n] by (simp add: fixed_text_def)
next
  case True
  have "read_fixed (45 # fixed_digits n \<bar>q\<bar>) = - read_fixed (fixed_digits n \<bar>q\<bar>)"
    using read_fixed_digits(2) [of "\<bar>q\<bar>" n] by (simp add: read_fixed_def Let_def)
  then show ?thesis using True fixed_digits_near [of "\<bar>q\<bar>" n] by (simp add: fixed_text_def)
qed

section \<open>The columns of the report\<close>

lemma length_pad [simp]:
  "length (pad_right w s) = max w (length s)" "length (pad_left w s) = max w (length s)"
  by (simp_all add: pad_right_def pad_left_def)

lemma length_text_of [simp]: "length (text_of s) = length s"
  by (simp add: text_of_def)

text \<open>
  Rows and header do not line up: the rules are 68 characters wide, the header 72, and a row whose
  fields fit their columns 70, without the line ends.
\<close>

lemma report_widths:
  assumes "length (bm_scenario m) \<le> 20" "length (fixed_text 4 (bm_avg_cost_per_task m)) \<le> 7"
    and "length (fixed_text 0 (bm_avg_latency_ms m)) \<le> 6" "length (fixed_text 3 (bm_avg_quality m)) \<le> 7"
    and "length (recovery_text (bm_fault_recovery_ms m)) \<le> 9"
    and "length (fixed_text 1 (1 / f64_max (bm_context_efficiency m) (to_f64 (1 / 1000)))) \<le> 5"
    and "length (decimal (bm_tasks_failed m)) \<le> 6"
  shows "length (rule_line c) = 69" "length report_header = 73" "length (report_row m) = 71"
  using assms by (simp_all add: rule_line_def report_header_def report_row_def Let_def max_def)

section \<open>The calls share one network\<close>

datatype sdk_call =
    CallFindRoute table_order stamp unicode_text
  | CallFindRouteWith table_order stamp unicode_text f64
  | CallShrink vector_env "u8 list" unicode_text
  | CallTrustScore unicode_text

datatype sdk_value = Routed route_result | Shrunk compress_result | Scored trust_info

fun sdk_step :: "sdk_network option \<Rightarrow> sdk_call \<Rightarrow> sdk_cell \<Rightarrow> (sdk_value \<times> sdk_cell) option" where
  "sdk_step nn (CallFindRoute ord stamp skill) cell =
     map_option (apfst Routed) (sdk_find_route nn ord stamp skill cell)"
| "sdk_step nn (CallFindRouteWith ord stamp skill q) cell =
     map_option (apfst Routed) (sdk_find_route_with nn ord stamp skill q cell)"
| "sdk_step nn (CallShrink env data skill) cell =
     map_option (apfst Shrunk) (sdk_shrink nn env data skill cell)"
| "sdk_step nn (CallTrustScore skill) cell =
     map_option (apfst Scored) (sdk_trust_score nn skill cell)"

text \<open>The same call as a method of a network.\<close>

fun sdk_method :: "sdk_network \<Rightarrow> sdk_call \<Rightarrow> sdk_value option" where
  "sdk_method sn (CallFindRoute ord stamp skill) = map_option Routed (sdk_route sn ord stamp skill)"
| "sdk_method sn (CallFindRouteWith ord stamp skill q) =
     map_option Routed (route_with_quality sn ord stamp skill q)"
| "sdk_method sn (CallShrink env data skill) = map_option Shrunk (sdk_compress env data skill)"
| "sdk_method sn (CallTrustScore skill) = map_option Scored (sdk_trust sn skill)"

fun sdk_session ::
  "sdk_network option \<Rightarrow> sdk_call list \<Rightarrow> sdk_cell \<Rightarrow> (sdk_value list \<times> sdk_cell) option" where
  "sdk_session nn [] cell = Some ([], cell)"
| "sdk_session nn (call # calls) cell = do {
     (v, cell) \<leftarrow> sdk_step nn call cell;
     (vs, cell) \<leftarrow> sdk_session nn calls cell;
     Some (v # vs, cell)
   }"

lemma sdk_global_ready: "cell \<in> {None, Some sn} \<Longrightarrow> sdk_global (Some sn) cell = Some (sn, Some sn)"
  by (auto simp: sdk_global_def)

lemma sdk_step_method:
  "cell \<in> {None, Some sn} \<Longrightarrow>
    sdk_step (Some sn) call cell = map_option (\<lambda>v. (v, Some sn)) (sdk_method sn call)"
  by (cases call; frule sdk_global_ready)
    (auto simp: sdk_find_route_def sdk_find_route_with_def sdk_shrink_def sdk_trust_score_def
      map_option_case split: option.splits)

text \<open>
  Whatever was called before, a function of the SDK answers as the method of the default network; a
  call that panics ends the session.
\<close>

lemma sdk_session_methods:
  assumes "cell \<in> {None, Some sn}"
  shows "sdk_session (Some sn) calls cell =
    map_option (\<lambda>vs. (vs, if calls = [] then cell else Some sn)) (collect_options (sdk_method sn) calls)"
  using assms
proof (induction calls arbitrary: cell)
  case (Cons call calls)
  have "sdk_session (Some sn) calls (Some sn) =
      map_option (\<lambda>vs. (vs, Some sn)) (collect_options (sdk_method sn) calls)"
    using Cons.IH [of "Some sn"] by simp
  then show ?case
    by (simp add: sdk_step_method [OF Cons.prems])
      (cases "sdk_method sn call"; cases "collect_options (sdk_method sn) calls"; simp)
qed simp

end
