(* ===== verification/Bench.thy ===== *)
theory Bench
  imports Sdk_Print
begin

text \<open>
  The benchmark program (\<open>atp-bench\<close>: \<open>main.rs\<close>): its choice of scenarios, its runs and what it writes
  to the terminal. The parsed command line is a record; the JSON form of \<open>serde_json\<close> and the readings
  of the stopwatch are arguments; the log is left out.
\<close>

section \<open>The command line\<close>

record bench_cli =
  cli_agents :: nat
  cli_tasks :: nat
  cli_seed :: u64
  cli_output :: unicode_text
  cli_scenario :: "unicode_text option"
  cli_context_size :: nat

text \<open>The scenarios to run; an unknown name ends the program.\<close>

definition bench_scenarios :: "unicode_text option \<Rightarrow> scenario list option" where
  "bench_scenarios choice =
     (case choice of
        None \<Rightarrow> Some [Sequential, RoundRobin, FullAtp, AtpNoContext, AtpNoRouting, AtpNoTrust, AtpNoFault]
      | Some s \<Rightarrow>
          if s = text_of ''sequential'' then Some [Sequential]
          else if s = text_of ''roundrobin'' then Some [RoundRobin]
          else if s = text_of ''atp'' then Some [FullAtp]
          else if s = text_of ''nocontext'' then Some [AtpNoContext]
          else if s = text_of ''norouting'' then Some [AtpNoRouting]
          else if s = text_of ''notrust'' then Some [AtpNoTrust]
          else if s = text_of ''nofault'' then Some [AtpNoFault]
          else None)"

section \<open>Output\<close>

definition bench_banner :: unicode_text where
  "bench_banner =
     [0x2554] @ replicate 62 0x2550 @ [0x2557] @ [10]
     @ [0x2551] @ text_of ''           AgentNet-Bench: ATP Protocol Benchmark            '' @ [0x2551] @ [10]
     @ [0x2551] @ text_of ''         Agent Transport Protocol v0.1.0                     '' @ [0x2551] @ [10]
     @ [0x2551] @ text_of ''   Continuous Learning Systems (CLS++) - Rajamohan Jabbala   '' @ [0x2551] @ [10]
     @ [0x255A] @ replicate 62 0x2550 @ [0x255D] @ [10] @ [10]"

definition bench_configuration :: "bench_cli \<Rightarrow> unicode_text" where
  "bench_configuration cli =
     text_of ''Configuration:'' @ [10]
     @ text_of ''  Agents:       '' @ decimal (cli_agents cli) @ [10]
     @ text_of ''  Tasks:        '' @ decimal (cli_tasks cli) @ [10]
     @ text_of ''  Seed:         '' @ decimal (unat (cli_seed cli)) @ [10]
     @ text_of ''  Context size: '' @ decimal (cli_context_size cli) @ text_of '' tokens'' @ [10] @ [10]"

definition network_line :: "simulated_network \<Rightarrow> duration \<Rightarrow> unicode_text" where
  "network_line nw elapsed =
     text_of ''Network initialized: '' @ decimal (network_agent_count nw) @ text_of '' agents, ''
     @ decimal (length (nw_edges nw)) @ text_of '' edges (''
     @ fixed_text 1 (as_secs_f64 elapsed * to_f64 1000) @ text_of ''ms)'' @ [10]"

definition table_row :: "bench_metrics \<Rightarrow> unicode_text" where
  "table_row m =
     (let recovery = recovery_text (bm_fault_recovery_ms m);
          ctx = 1 / f64_max (bm_context_efficiency m) (to_f64 (1 / 1000)); bar = [32, 0x2502, 32]
      in [0x2502, 32] @ pad_right 19 (text_of (bm_scenario m)) @ bar
         @ text_of ''$'' @ pad_right 7 (fixed_text 4 (bm_avg_cost_per_task m)) @ bar
         @ pad_right 7 (fixed_text 0 (bm_avg_latency_ms m)) @ text_of ''ms'' @ [0x2502, 32]
         @ pad_right 8 (fixed_text 3 (bm_avg_quality m)) @ bar @ pad_right 8 recovery @ bar
         @ pad_right 8 (fixed_text 2 ctx) @ text_of ''x'' @ [0x2502, 32]
         @ pad_right 8 (decimal (bm_tasks_completed m)) @ bar
         @ pad_right 8 (decimal (bm_tasks_failed m)) @ [32, 0x2502] @ [10])"

definition table_top :: unicode_text where
  "table_top =
     [0x250C] @ replicate 21 0x2500 @ [0x252C] @ replicate 10 0x2500 @ [0x252C]
     @ replicate 10 0x2500 @ [0x252C] @ replicate 10 0x2500 @ [0x252C] @ replicate 10 0x2500
     @ [0x252C] @ replicate 10 0x2500 @ [0x252C] @ replicate 10 0x2500 @ [0x252C]
     @ replicate 10 0x2500 @ [0x2510] @ [10]"

definition table_titles :: unicode_text where
  "table_titles =
     [0x2502] @ text_of '' Scenario            '' @ [0x2502] @ text_of '' Cost/Task''
     @ [0x2502] @ text_of '' Latency  '' @ [0x2502] @ text_of '' Quality  '' @ [0x2502]
     @ text_of '' Recovery '' @ [0x2502] @ text_of '' Ctx Eff  '' @ [0x2502]
     @ text_of '' Complete '' @ [0x2502] @ text_of '' Failed   '' @ [0x2502] @ [10]"

definition table_middle :: unicode_text where
  "table_middle =
     [0x251C] @ replicate 21 0x2500 @ [0x253C] @ replicate 10 0x2500 @ [0x253C]
     @ replicate 10 0x2500 @ [0x253C] @ replicate 10 0x2500 @ [0x253C] @ replicate 10 0x2500
     @ [0x253C] @ replicate 10 0x2500 @ [0x253C] @ replicate 10 0x2500 @ [0x253C]
     @ replicate 10 0x2500 @ [0x2524] @ [10]"

definition table_bottom :: unicode_text where
  "table_bottom =
     [0x2514] @ replicate 21 0x2500 @ [0x2534] @ replicate 10 0x2500 @ [0x2534]
     @ replicate 10 0x2500 @ [0x2534] @ replicate 10 0x2500 @ [0x2534] @ replicate 10 0x2500
     @ [0x2534] @ replicate 10 0x2500 @ [0x2534] @ replicate 10 0x2500 @ [0x2534]
     @ replicate 10 0x2500 @ [0x2518] @ [10]"

definition print_table :: "bench_metrics list \<Rightarrow> unicode_text" where
  "print_table metrics =
     table_top @ table_titles @ table_middle @ concat (map table_row metrics) @ table_bottom"

text \<open>The fields of a line of the CSV output, with commas between them.\<close>

fun comma_separated :: "unicode_text list \<Rightarrow> unicode_text" where
  "comma_separated [] = []"
| "comma_separated [s] = s"
| "comma_separated (s # t # rest) = s @ 44 # comma_separated (t # rest)"

definition csv_fields :: "bench_metrics \<Rightarrow> unicode_text list" where
  "csv_fields m =
     [text_of (bm_scenario m), decimal (bm_total_tasks m), decimal (bm_tasks_completed m),
      decimal (bm_tasks_failed m), fixed_text 4 (bm_total_cost m), fixed_text 4 (bm_avg_cost_per_task m),
      fixed_text 1 (bm_avg_latency_ms m), fixed_text 1 (bm_p50_latency_ms m),
      fixed_text 1 (bm_p95_latency_ms m), fixed_text 1 (bm_p99_latency_ms m),
      fixed_text 3 (bm_avg_quality m), fixed_text 1 (bm_fault_recovery_ms m),
      fixed_text 4 (bm_context_efficiency m), fixed_text 1 (bm_routing_time_us m)]"

definition csv_titles :: "unicode_text list" where
  "csv_titles = map text_of
     [''scenario'', ''total_tasks'', ''completed'', ''failed'', ''total_cost'', ''avg_cost'',
      ''avg_latency_ms'', ''p50_ms'', ''p95_ms'', ''p99_ms'', ''avg_quality'', ''recovery_ms'',
      ''ctx_efficiency'', ''routing_us'']"

definition print_csv :: "bench_metrics list \<Rightarrow> unicode_text" where
  "print_csv metrics =
     comma_separated csv_titles @ [10]
     @ concat (map (\<lambda>m. comma_separated (csv_fields m) @ [10]) metrics)"

section \<open>The comparison\<close>

definition recovery_lines :: "f64 \<Rightarrow> f64 \<Rightarrow> unicode_text" where
  "recovery_lines atp sq =
     (if is_finite atp \<and> (sq = PInf \<or> sq = NInf)
      then text_of ''  Fault recovery:      '' @ fixed_text 0 atp @ text_of ''ms (vs pipeline death)'' @ [10]
      else if is_finite atp \<and> is_finite sq
      then text_of ''  Fault recovery:      '' @ fixed_text 1 (sq / atp) @ text_of ''x faster'' @ [10]
      else [])"

definition ablation_line :: "bench_metrics \<Rightarrow> bench_metrics \<Rightarrow> unicode_text" where
  "ablation_line atp m =
     (if prefix ''ATP'' (bm_scenario m) \<and> bm_scenario m \<noteq> ''ATP (full)''
      then (let cost_delta = (if 0 < bm_avg_cost_per_task atp
                  then (bm_avg_cost_per_task m / bm_avg_cost_per_task atp - 1) * to_f64 100 else 0);
                quality_delta = bm_avg_quality m - bm_avg_quality atp
            in text_of ''    '' @ pad_right 20 (text_of (bm_scenario m)) @ text_of '' cost: ''
               @ signed_text 0 cost_delta @ text_of ''%  quality: '' @ signed_text 3 quality_delta @ [10])
      else [])"

definition comparison_lines :: "bench_metrics \<Rightarrow> bench_metrics \<Rightarrow> unicode_text" where
  "comparison_lines sq atp =
     (if 0 < bm_avg_cost_per_task sq
      then text_of ''  Cost reduction:      ''
        @ fixed_text 1 ((1 - bm_avg_cost_per_task atp / bm_avg_cost_per_task sq) * to_f64 100)
        @ text_of ''%'' @ [10]
      else [])
     @ (if 0 < bm_avg_latency_ms sq
        then text_of ''  Latency reduction:   ''
          @ fixed_text 1 ((1 - bm_avg_latency_ms atp / bm_avg_latency_ms sq) * to_f64 100)
          @ text_of ''%'' @ [10]
        else [])
     @ text_of ''  Quality delta:       '' @ signed_text 3 (bm_avg_quality atp - bm_avg_quality sq) @ [10]
     @ text_of ''  Context efficiency:  ''
     @ fixed_text 1 ((1 / f64_max (bm_context_efficiency atp) (to_f64 (1 / 1000)))
         / (1 / f64_max (bm_context_efficiency sq) (to_f64 (1 / 1000))))
     @ text_of ''x better'' @ [10]
     @ recovery_lines (bm_fault_recovery_ms atp) (bm_fault_recovery_ms sq)"

definition print_comparison :: "bench_metrics list \<Rightarrow> unicode_text" where
  "print_comparison metrics =
     (case (find (\<lambda>m. bm_scenario m = ''Sequential'') metrics,
            find (\<lambda>m. bm_scenario m = ''ATP (full)'') metrics) of
        (Some sq, Some atp) \<Rightarrow>
          [10] @ replicate 63 0x2550 @ [10] @ text_of ''  ATP vs Sequential Baseline Comparison'' @ [10]
          @ replicate 63 0x2550 @ [10] @ comparison_lines sq atp @ replicate 63 0x2550 @ [10]
          @ [10] @ text_of ''  Ablation Study:'' @ [10] @ concat (map (ablation_line atp) metrics) @ [10]
      | _ \<Rightarrow> [])"

section \<open>The program\<close>

fun bench_runs ::
  "'r sim_env \<Rightarrow> (scenario \<Rightarrow> nat \<Rightarrow> duration) \<Rightarrow> (scenario \<Rightarrow> nat \<Rightarrow> nat \<Rightarrow> duration) \<Rightarrow>
   (scenario \<Rightarrow> duration) \<Rightarrow> sim_harness \<Rightarrow> sim_task list \<Rightarrow> scenario list \<Rightarrow>
   (unicode_text \<times> bench_metrics list) option" where
  "bench_runs e routed recovered elapsed h tasks [] = Some ([], [])"
| "bench_runs e routed recovered elapsed h tasks (s # ss) = do {
     m \<leftarrow> run_scenario e (routed s) (recovered s) h s tasks;
     (out, ms) \<leftarrow> bench_runs e routed recovered elapsed h tasks ss;
     Some (text_of ''Running '' @ text_of (show_scenario s) @ text_of ''...''
       @ text_of '' done ('' @ fixed_text 1 (as_secs_f64 (elapsed s)) @ text_of ''s)'' @ [10] @ out, m # ms)
   }"

datatype bench_end = Completed unicode_text | Exited unicode_text unicode_text

definition unknown_scenario :: "unicode_text \<Rightarrow> unicode_text" where
  "unknown_scenario s =
     text_of ''Unknown scenario: '' @ s @ text_of ''. Options: sequential, roundrobin, atp, nocontext, ''
     @ text_of ''norouting, notrust, nofault'' @ [10]"

definition bench_results ::
  "(bench_metrics list \<Rightarrow> unicode_text option) \<Rightarrow> unicode_text \<Rightarrow> bench_metrics list \<Rightarrow>
   unicode_text option" where
  "bench_results json output ms =
     (if output = text_of ''json'' then map_option (\<lambda>s. s @ [10]) (json ms)
      else if output = text_of ''csv'' then Some (print_csv ms)
      else Some (print_table ms))"

text \<open>What the program writes before and after an early exit with status 1.\<close>

definition bench_main ::
  "'r sim_env \<Rightarrow> (nat \<Rightarrow> agent_stamp) \<Rightarrow> (nat \<Rightarrow> agent_id) \<Rightarrow> (nat \<Rightarrow> uuid) \<Rightarrow>
   (bench_metrics list \<Rightarrow> unicode_text option) \<Rightarrow> duration \<Rightarrow> (scenario \<Rightarrow> nat \<Rightarrow> duration) \<Rightarrow>
   (scenario \<Rightarrow> nat \<Rightarrow> nat \<Rightarrow> duration) \<Rightarrow> (scenario \<Rightarrow> duration) \<Rightarrow> bench_cli \<Rightarrow> bench_end option" where
  "bench_main e st ids new_ids json built routed recovered elapsed cli = do {
     h \<leftarrow> harness_benchmark e st ids (cli_seed cli);
     (tasks, r) \<leftarrow> generate_tasks e (with_context_size (cli_context_size cli) task_generator_new)
       (map new_ids [0..<cli_tasks cli]) (rand_seed e (cli_seed cli));
     let start = bench_banner @ bench_configuration cli @ network_line (sh_network h) built
       @ text_of ''Generated '' @ decimal (length tasks) @ text_of '' tasks across 4 categories'' @ [10] @ [10];
     case bench_scenarios (cli_scenario cli) of
       None \<Rightarrow> Some (Exited start (unknown_scenario (the (cli_scenario cli))))
     | Some scenarios \<Rightarrow> do {
         (out, ms) \<leftarrow> bench_runs e routed recovered elapsed h tasks scenarios;
         results \<leftarrow> bench_results json (cli_output cli) ms;
         Some (Completed (start @ out @ [10] @ results
           @ (if 2 < length ms then print_comparison ms else [])))
       }
   }"

section \<open>The CSV form reads back\<close>

fun split_commas :: "unicode_text \<Rightarrow> unicode_text list" where
  "split_commas [] = [[]]"
| "split_commas (c # cs) =
     (if c = 44 then [] # split_commas cs
      else (case split_commas cs of w # ws \<Rightarrow> (c # w) # ws | [] \<Rightarrow> [[c]]))"

lemma split_commas_field: "44 \<notin> set s \<Longrightarrow> split_commas s = [s]"
  by (induction s) auto

lemma split_commas_first: "44 \<notin> set s \<Longrightarrow> split_commas (s @ 44 # rest) = s # split_commas rest"
  by (induction s) auto

lemma split_comma_separated:
  "fs \<noteq> [] \<Longrightarrow> \<forall>f \<in> set fs. 44 \<notin> set f \<Longrightarrow> split_commas (comma_separated fs) = fs"
  by (induction fs rule: comma_separated.induct) (simp_all add: split_commas_field split_commas_first)

lemma no_comma_decimal: "44 \<notin> set (decimal n)"
  using decimal_digits [of n] by fastforce

lemma no_comma_fixed: "44 \<notin> set (fixed_text n x)"
  using no_comma_decimal
  by (auto simp: fixed_text_def fixed_digits_def fraction_digits_def Let_def text_of_def split: f64.split)

lemma no_comma_scenario: "44 \<notin> set (text_of (show_scenario s))"
  by (cases s) (simp_all add: text_of_def)

text \<open>
  Every line of the CSV output has a field for each title, and the fields are found again between
  the commas.
\<close>

lemma csv_reads_back:
  assumes "bm_scenario m = show_scenario s"
  shows "split_commas (comma_separated (csv_fields m)) = csv_fields m"
    and "length (split_commas (comma_separated csv_titles)) = length (csv_fields m)"
proof -
  have fields: "\<forall>f \<in> set (csv_fields m). 44 \<notin> set f"
    using no_comma_scenario [of s] no_comma_decimal no_comma_fixed by (simp add: csv_fields_def assms)
  show "split_commas (comma_separated (csv_fields m)) = csv_fields m"
    by (rule split_comma_separated [OF _ fields]) (simp add: csv_fields_def)
  have "split_commas (comma_separated csv_titles) = csv_titles"
    by (rule split_comma_separated) (simp_all add: csv_titles_def text_of_def)
  then show "length (split_commas (comma_separated csv_titles)) = length (csv_fields m)"
    by (simp add: csv_fields_def csv_titles_def)
qed

text \<open>The lines of the table are equally wide as long as the fields fit their columns.\<close>

lemma table_widths:
  assumes "length (bm_scenario m) \<le> 19" "length (fixed_text 4 (bm_avg_cost_per_task m)) \<le> 7"
    and "length (fixed_text 0 (bm_avg_latency_ms m)) \<le> 7" "length (fixed_text 3 (bm_avg_quality m)) \<le> 8"
    and "length (recovery_text (bm_fault_recovery_ms m)) \<le> 8"
    and "length (fixed_text 2 (1 / f64_max (bm_context_efficiency m) (to_f64 (1 / 1000)))) \<le> 8"
    and "length (decimal (bm_tasks_completed m)) \<le> 8" "length (decimal (bm_tasks_failed m)) \<le> 8"
  shows "length (table_row m) = length table_titles" "length table_top = length table_titles"
    "length table_middle = length table_titles" "length table_bottom = length table_titles"
  using assms
  by (simp_all add: table_row_def table_top_def table_titles_def table_middle_def table_bottom_def
      Let_def max_def)

section \<open>The program ends\<close>

lemma harness_exists:
  assumes "rand_sound e" "distinct (map sim_id (benchmark_agents st ids))"
  shows "\<exists>h. harness_benchmark e st ids seed = Some h \<and> nw_agents (sh_network h) = benchmark_agents st ids"
proof -
  obtain es r where "generate_edges e (SmallWorld 6 (to_f64 (3 / 10))) (benchmark_agents st ids)
      (rand_seed e seed) = Some (es, r)"
    using generate_edges_match [OF assms] by blast
  then show ?thesis
    by (simp add: harness_benchmark_def harness_new_def benchmark_network_def Let_def)
qed

definition metrics_of :: "nat \<Rightarrow> scenario \<Rightarrow> bench_metrics \<Rightarrow> bool" where
  "metrics_of n s m \<longleftrightarrow> bm_scenario m = show_scenario s \<and> bm_total_tasks m = n
     \<and> bm_tasks_completed m + bm_tasks_failed m = n"

lemma bench_runs_ok:
  assumes "rand_sound e" and "\<forall>a \<in> set (nw_agents (sh_network h)). sim_agent_ok a"
    and "\<And>s. (\<Sum>i < length tasks. routed s i) \<le> DURATION_MAX" and "length tasks \<le> 2 ^ 53"
  shows "\<exists>out ms. bench_runs e routed recovered elapsed h tasks ss = Some (out, ms)
    \<and> list_all2 (metrics_of (length tasks)) ss ms"
proof (induction ss)
  case (Cons s ss)
  obtain m where "run_scenario e (routed s) (recovered s) h s tasks = Some m" "metrics_of (length tasks) s m"
    using run_scenario_spec [OF assms(1,2) assms(3) assms(4), of s "recovered s" s] scenario_named
    unfolding metrics_of_def by blast
  then show ?case using Cons by auto
qed simp

text \<open>
  The program runs to its end for every known choice of scenarios and exits with the list of names
  for an unknown one.
\<close>

lemma bench_main_ends:
  assumes "rand_sound e" and "distinct (map sim_id (benchmark_agents st ids))"
    and "\<And>ms. json ms \<noteq> None" and "\<And>s. (\<Sum>i < cli_tasks cli. routed s i) \<le> DURATION_MAX"
    and "cli_tasks cli \<le> 2 ^ 53"
  shows "case bench_scenarios (cli_scenario cli) of
      None \<Rightarrow> \<exists>out s. cli_scenario cli = Some s
        \<and> bench_main e st ids new_ids json built routed recovered elapsed cli
          = Some (Exited out (unknown_scenario s))
    | Some ss \<Rightarrow> \<exists>out. bench_main e st ids new_ids json built routed recovered elapsed cli
          = Some (Completed out)"
proof -
  let ?g = "with_context_size (cli_context_size cli) task_generator_new"
  obtain h where h: "harness_benchmark e st ids (cli_seed cli) = Some h"
    "nw_agents (sh_network h) = benchmark_agents st ids" using harness_exists [OF assms(1,2)] by blast
  have "tg_task_types ?g \<noteq> []"
    by (simp add: with_context_size_def task_generator_new_def all_task_types_def)
  from generate_tasks_ok [OF assms(1) this] obtain tasks r where
    gen: "generate_tasks e ?g (map new_ids [0..<cli_tasks cli]) (rand_seed e (cli_seed cli)) = Some (tasks, r)"
    and "list_all2 (task_generated ?g) (map new_ids [0..<cli_tasks cli]) tasks" by blast
  then have len: "length tasks = cli_tasks cli" using list_all2_lengthD by fastforce
  show ?thesis
  proof (cases "bench_scenarios (cli_scenario cli)")
    case None
    then obtain s where "cli_scenario cli = Some s"
      by (cases "cli_scenario cli") (auto simp: bench_scenarios_def)
    then show ?thesis using None by (simp add: bench_main_def h(1) gen Let_def)
  next
    case (Some ss)
    obtain out ms where "bench_runs e routed recovered elapsed h tasks ss = Some (out, ms)"
      using bench_runs_ok [OF assms(1), of h routed tasks recovered elapsed ss] benchmark_agents_ok
        assms(4,5) len h(2) by auto
    moreover have "bench_results json (cli_output cli) ms \<noteq> None"
      using assms(3) [of ms] by (simp add: bench_results_def)
    then obtain res where "bench_results json (cli_output cli) ms = Some res" by blast
    ultimately show ?thesis using Some by (simp add: bench_main_def h(1) gen Let_def)
  qed
qed

text \<open>
  The number of agents on the command line is written out again and has no other effect: the network
  always has fifty.
\<close>

lemma bench_ignores_agents:
  assumes "bench_main e st ids new_ids json built routed recovered elapsed cli = Some (Completed out)"
  shows "\<exists>before after. \<forall>n. bench_main e st ids new_ids json built routed recovered elapsed
    (cli\<lparr>cli_agents := n\<rparr>) = Some (Completed (before @ decimal n @ after))"
proof -
  let ?head = "bench_banner @ text_of ''Configuration:'' @ [10] @ text_of ''  Agents:       ''"
  obtain rest where conf: "bench_banner @ bench_configuration (cli\<lparr>cli_agents := n\<rparr>) = ?head @ decimal n @ rest"
    for n by (simp add: bench_configuration_def)
  obtain h tasks r ss runs ms res where run: "harness_benchmark e st ids (cli_seed cli) = Some h"
    "generate_tasks e (with_context_size (cli_context_size cli) task_generator_new)
       (map new_ids [0..<cli_tasks cli]) (rand_seed e (cli_seed cli)) = Some (tasks, r)"
    "bench_scenarios (cli_scenario cli) = Some ss"
    "bench_runs e routed recovered elapsed h tasks ss = Some (runs, ms)"
    "bench_results json (cli_output cli) ms = Some res"
    using assms by (auto simp: bench_main_def Let_def bind_eq_Some_conv split: option.splits)
  let ?tail = "network_line (sh_network h) built @ text_of ''Generated '' @ decimal (length tasks)
    @ text_of '' tasks across 4 categories'' @ [10] @ [10] @ runs @ [10] @ res
    @ (if 2 < length ms then print_comparison ms else [])"
  have "bench_main e st ids new_ids json built routed recovered elapsed (cli\<lparr>cli_agents := n\<rparr>)
      = Some (Completed ((bench_banner @ bench_configuration (cli\<lparr>cli_agents := n\<rparr>)) @ ?tail))" for n
    using run by (simp add: bench_main_def Let_def)
  then have "bench_main e st ids new_ids json built routed recovered elapsed (cli\<lparr>cli_agents := n\<rparr>)
      = Some (Completed (?head @ decimal n @ rest @ ?tail))" for n
    unfolding conf by simp
  then show ?thesis by blast
qed

end
