(* ===== verification/Python_Bindings.thy ===== *)
theory Python_Bindings
  imports Sdk_Print Identity_Store Wire
begin

text \<open>
  The classes of the Python module (\<open>atp-python\<close>: \<open>py_types.rs\<close>, \<open>py_identity.rs\<close>, \<open>py_context.rs\<close>,
  \<open>py_routing.rs\<close> and \<open>py_sim.rs\<close>). A wrapper class is the value it wraps; an argument with a default
  is an \<open>option\<close>. A method that raises returns the exception on the left of a sum, and one that can
  panic an \<open>option\<close> of its result. Fresh keys, identifiers and clock readings are arguments.
\<close>

section \<open>Exceptions and default arguments\<close>

text \<open>A \<open>PyRuntimeError\<close> has the text of a Rust error; the model keeps the error.\<close>

datatype raised_error =
    RaisedIdentity identity_error
  | RaisedContext context_error
  | RaisedRouting routing_error

datatype py_err = PyRuntimeError raised_error | PyValueError unicode_text

definition or_default :: "'a \<Rightarrow> 'a option \<Rightarrow> 'a" where
  "or_default d x = (case x of Some v \<Rightarrow> v | None \<Rightarrow> d)"

definition raising :: "('e \<Rightarrow> raised_error) \<Rightarrow> 'e + 'a \<Rightarrow> py_err + 'a" where
  "raising f r = map_sum (PyRuntimeError \<circ> f) id r"

section \<open>Core types\<close>

definition py_agent_id_new :: "uuid \<Rightarrow> agent_id" where
  "py_agent_id_new fresh = AgentId fresh"

definition py_agent_id_str :: "wire_env \<Rightarrow> agent_id \<Rightarrow> unicode_text" where
  "py_agent_id_str w a = text_of (uuid_text w (agent_uuid a))"

definition py_agent_id_repr :: "wire_env \<Rightarrow> agent_id \<Rightarrow> unicode_text" where
  "py_agent_id_repr w a = text_of ''AgentId('' @ text_of (uuid_text w (agent_uuid a)) @ text_of '')''"

definition py_code_generation :: task_type where
  "py_code_generation = CodeGeneration"

definition py_analysis :: task_type where
  "py_analysis = Analysis"

definition py_creative_writing :: task_type where
  "py_creative_writing = CreativeWriting"

definition py_data_processing :: task_type where
  "py_data_processing = DataProcessing"

definition py_complexity_weight :: "task_type \<Rightarrow> f64" where
  "py_complexity_weight t = complexity_weight t"

definition py_task_type_str :: "task_type \<Rightarrow> unicode_text" where
  "py_task_type_str t = text_of (show_task_type t)"

definition py_task_type_repr :: "task_type \<Rightarrow> unicode_text" where
  "py_task_type_repr t = text_of ''TaskType.'' @ text_of (show_task_type t)"

definition py_qos_new ::
  "f64 option \<Rightarrow> u64 option \<Rightarrow> f64 option \<Rightarrow> f64 option \<Rightarrow> qos_constraints" where
  "py_qos_new mq latency_ms mc mt =
     \<lparr>min_quality = or_default (to_f64 (7 / 10)) mq,
      max_latency = from_millis (unat (or_default 10000 latency_ms)),
      max_cost = or_default 1 mc,
      min_trust = or_default (to_f64 (5 / 10)) mt\<rparr>"

definition py_qos_min_quality :: "qos_constraints \<Rightarrow> f64" where
  "py_qos_min_quality q = min_quality q"

definition py_qos_max_cost :: "qos_constraints \<Rightarrow> f64" where
  "py_qos_max_cost q = max_cost q"

definition py_qos_min_trust :: "qos_constraints \<Rightarrow> f64" where
  "py_qos_min_trust q = min_trust q"

definition py_qos_relax :: "qos_constraints \<Rightarrow> f64 \<Rightarrow> qos_constraints option" where
  "py_qos_relax q factor = relax q factor"

definition py_qos_repr :: "qos_constraints \<Rightarrow> unicode_text" where
  "py_qos_repr q =
     text_of ''QoSConstraints(min_quality='' @ fixed_text 2 (min_quality q)
     @ text_of '', max_cost='' @ fixed_text 2 (max_cost q)
     @ text_of '', min_trust='' @ fixed_text 2 (min_trust q) @ text_of '')''"

definition py_capability_new :: "task_type \<Rightarrow> f64 \<Rightarrow> u64 \<Rightarrow> f64 \<Rightarrow> capability" where
  "py_capability_new t quality latency_ms cost =
     \<lparr>cap_task_type = t, cap_estimated_quality = quality,
      cap_estimated_latency = from_millis (unat latency_ms), cap_cost_per_task = cost\<rparr>"

definition py_capability_quality :: "capability \<Rightarrow> f64" where
  "py_capability_quality c = cap_estimated_quality c"

definition py_capability_cost :: "capability \<Rightarrow> f64" where
  "py_capability_cost c = cap_cost_per_task c"

definition py_capability_repr :: "capability \<Rightarrow> unicode_text" where
  "py_capability_repr c =
     text_of ''Capability('' @ text_of (show_task_type (cap_task_type c))
     @ text_of '', q='' @ fixed_text 2 (cap_estimated_quality c)
     @ text_of '', cost=$'' @ fixed_text 3 (cap_cost_per_task c) @ text_of '')''"

record py_trust_score =
  pts_score :: f64
  pts_sample_count :: u32
  pts_task_type :: task_type

definition py_trust_score_repr :: "py_trust_score \<Rightarrow> unicode_text" where
  "py_trust_score_repr ts =
     text_of ''TrustScore('' @ fixed_text 3 (pts_score ts) @ text_of '', n=''
     @ decimal (unat (pts_sample_count ts)) @ text_of '')''"

section \<open>Hexadecimal text\<close>

definition hex_encode :: "u8 list \<Rightarrow> unicode_text" where
  "hex_encode bs = concat (map hex_byte bs)"

text \<open>The bytes of a character in UTF-8.\<close>

definition utf8_width :: "nat \<Rightarrow> nat" where
  "utf8_width c = (if c < 0x80 then 1 else if c < 0x800 then 2 else if c < 0x10000 then 3 else 4)"

definition hex_value :: "nat \<Rightarrow> nat option" where
  "hex_value c =
     (if 48 \<le> c \<and> c \<le> 57 then Some (c - 48)
      else if 97 \<le> c \<and> c \<le> 102 then Some (c - 87)
      else if 65 \<le> c \<and> c \<le> 70 then Some (c - 55)
      else None)"

definition invalid_digit :: py_err where
  "invalid_digit = PyValueError (text_of ''invalid digit found in string'')"

text \<open>
  \<open>u8::from_str_radix(s, 16)\<close> of a slice of two bytes: one plus sign before the digits is accepted, a
  minus sign is not a digit of an unsigned number.
\<close>

definition byte_from_hex :: "unicode_text \<Rightarrow> py_err + u8" where
  "byte_from_hex s =
     (let digits = (if 1 < length s \<and> hd s = 43 then tl s else s)
      in case those (map hex_value digits) of
           None \<Rightarrow> Inl invalid_digit
         | Some vs \<Rightarrow> Inr (of_nat (foldl (\<lambda>v d. 16 * v + d) 0 vs)))"

text \<open>
  The slices \<open>&hex[i..i + 2]\<close> are slices of bytes: one that reaches past the end or into a character
  panics, and decoding stops at the first slice that is not a number.
\<close>

fun hex_decode :: "unicode_text \<Rightarrow> (py_err + u8 list) option" where
  "hex_decode [] = Some (Inr [])"
| "hex_decode [c] =
     (if utf8_width c = 2
      then (case byte_from_hex [c] of Inl e \<Rightarrow> Some (Inl e) | Inr b \<Rightarrow> Some (Inr [b]))
      else None)"
| "hex_decode (c # d # s) =
     (if utf8_width c = 2
      then (case byte_from_hex [c] of
              Inl e \<Rightarrow> Some (Inl e)
            | Inr b \<Rightarrow> map_option (map_sum id (Cons b)) (hex_decode (d # s)))
      else if utf8_width c = 1 \<and> utf8_width d = 1
      then (case byte_from_hex [c, d] of
              Inl e \<Rightarrow> Some (Inl e)
            | Inr b \<Rightarrow> map_option (map_sum id (Cons b)) (hex_decode s))
      else None)"

section \<open>Identity\<close>

definition py_keypair_new :: "'sk \<Rightarrow> py_err + 'sk key_pair" where
  "py_keypair_new fresh = raising RaisedIdentity (keypair_generate fresh)"

definition py_public_key_hex :: "('sk, 'vk, 'sg) ed25519 \<Rightarrow> 'sk key_pair \<Rightarrow> unicode_text" where
  "py_public_key_hex ed kp = hex_encode (public_key_bytes ed kp)"

definition py_did_uri :: "('sk, 'vk, 'sg) ed25519 \<Rightarrow> 'sk key_pair \<Rightarrow> py_err + unicode_text" where
  "py_did_uri ed kp =
     map_sum id to_uri (raising RaisedIdentity (generate_did (public_key_bytes ed kp)))"

definition py_sign_message ::
  "('sk, 'vk, 'sg) ed25519 \<Rightarrow> 'sk key_pair \<Rightarrow> u8 list \<Rightarrow> unicode_text" where
  "py_sign_message ed kp message = hex_encode (sg_to_bytes ed (keypair_sign ed kp message))"

text \<open>\<open>ed25519_dalek::Signature::from_bytes\<close> is the argument \<open>sg_from_bytes\<close>.\<close>

definition py_verify_message ::
  "('sk, 'vk, 'sg) ed25519 \<Rightarrow> (u8 list \<Rightarrow> 'sg) \<Rightarrow> 'sk key_pair \<Rightarrow> u8 list \<Rightarrow> unicode_text \<Rightarrow>
   (py_err + bool) option" where
  "py_verify_message ed sg_from_bytes kp message signature_hex = do {
     r \<leftarrow> hex_decode signature_hex;
     Some (case r of
         Inl e \<Rightarrow> Inl e
       | Inr sig_bytes \<Rightarrow>
           if length sig_bytes \<noteq> 64 then Inl (PyValueError (text_of ''Signature must be 64 bytes''))
           else Inr (is_ok (keypair_verify ed kp message (sg_from_bytes sig_bytes))))
   }"

definition py_keypair_repr :: "('sk, 'vk, 'sg) ed25519 \<Rightarrow> 'sk key_pair \<Rightarrow> unicode_text" where
  "py_keypair_repr ed kp =
     (case py_did_uri ed kp of
        Inr uri \<Rightarrow> text_of ''KeyPair(did='' @ uri @ text_of '')''
      | Inl _ \<Rightarrow> text_of ''KeyPair(<error>)'')"

definition py_store_new :: identity_store where
  "py_store_new = identity_store_new"

definition py_register_agent ::
  "('sk, 'vk, 'sg) ed25519 \<Rightarrow> 'sk \<Rightarrow> agent_id \<Rightarrow> datetime \<Rightarrow> identity_store \<Rightarrow>
   identity_store \<times> (py_err + agent_id)" where
  "py_register_agent ed fresh new_id now st =
     (case keypair_generate fresh of
        Inl e \<Rightarrow> (st, Inl (PyRuntimeError (RaisedIdentity e)))
      | Inr kp \<Rightarrow>
          (case create_identity new_id now (public_key_bytes ed kp) of
             Inl e \<Rightarrow> (st, Inl (PyRuntimeError (RaisedIdentity e)))
           | Inr identity \<Rightarrow>
               (let (st, r) = register_identity st identity in (st, raising RaisedIdentity r))))"

definition py_store_trust_score ::
  "libm \<Rightarrow> identity_store \<Rightarrow> agent_id \<Rightarrow> task_type \<Rightarrow> datetime \<Rightarrow> py_trust_score" where
  "py_store_trust_score lm st a t now =
     (let ts = store_trust_score lm st a t now
      in \<lparr>pts_score = ts_score ts, pts_sample_count = ts_sample_count ts,
          pts_task_type = ts_task_type ts\<rparr>)"

text \<open>\<open>ks\<close> is the order in which the map of identities is listed.\<close>

definition py_store_agent_count :: "identity_store \<Rightarrow> agent_id list \<Rightarrow> nat" where
  "py_store_agent_count st ks = length (list_agents st ks)"

definition py_store_repr :: "identity_store \<Rightarrow> agent_id list \<Rightarrow> unicode_text" where
  "py_store_repr st ks =
     text_of ''IdentityStore(agents='' @ decimal (py_store_agent_count st ks) @ text_of '')''"

section \<open>Context\<close>

record py_compression_result =
  pcr_original_size :: u64
  pcr_compressed_size :: u64
  pcr_compression_ratio :: f64
  pcr_chunks_kept :: nat
  pcr_total_chunks :: nat
  pcr_confidence :: f64

definition py_compression_repr :: "py_compression_result \<Rightarrow> unicode_text" where
  "py_compression_repr r =
     text_of ''CompressionResult(ratio='' @ fixed_text 1 (pcr_compression_ratio r)
     @ text_of ''x, chunks='' @ decimal (pcr_chunks_kept r) @ text_of ''/''
     @ decimal (pcr_total_chunks r) @ text_of '', confidence='' @ fixed_text 2 (pcr_confidence r)
     @ text_of '')''"

record py_compressor =
  pc_inner :: compressor
  pc_chunk_size :: u64

definition py_compressor_new ::
  "f64 option \<Rightarrow> u64 option \<Rightarrow> u64 option \<Rightarrow> py_compressor" where
  "py_compressor_new threshold chunk dims =
     (let chunk_size = or_default 512 chunk;
          config = \<lparr>msc_relevance_threshold = or_default (to_f64 (3 / 10)) threshold,
            msc_max_chunks = 2 ^ 64 - 1, msc_chunk_size = unat chunk_size,
            msc_dimensions = unat (or_default 256 dims)\<rparr>
      in \<lparr>pc_inner = compressor_with_config config, pc_chunk_size = chunk_size\<rparr>)"

text \<open>
  The sum in the numerator wraps around in a release build. The prompt is its bytes in UTF-8.
\<close>

definition py_total_chunks :: "u8 list \<Rightarrow> u64 \<Rightarrow> nat" where
  "py_total_chunks context_bytes chunk_size =
     (if 0 < chunk_size
      then unat ((of_nat (length context_bytes) + chunk_size - 1) div chunk_size) else 0)"

definition py_compress_context ::
  "vector_env \<Rightarrow> py_compressor \<Rightarrow> u8 list \<Rightarrow> task_type \<Rightarrow> u8 list \<Rightarrow>
   (py_err + py_compression_result) option" where
  "py_compress_context env c context_bytes t task_prompt = do {
     r \<leftarrow> compress_for_task env (pc_inner c) context_bytes t task_prompt;
     Some (case r of
         Inl e \<Rightarrow> Inl (PyRuntimeError (RaisedContext e))
       | Inr d \<Rightarrow>
           let orig = diff_original_size d; compressed = diff_compressed_size d
           in Inr \<lparr>pcr_original_size = orig, pcr_compressed_size = compressed,
                pcr_compression_ratio = (if 0 < compressed
                  then f64_of_nat (unat orig) / f64_of_nat (unat compressed) else PInf),
                pcr_chunks_kept = length (diff_chunks d),
                pcr_total_chunks = py_total_chunks context_bytes (pc_chunk_size c),
                pcr_confidence = diff_confidence d\<rparr>)
   }"

definition py_compressor_repr :: unicode_text where
  "py_compressor_repr = text_of ''ContextCompressor()''"

section \<open>Routing\<close>

record py_route_info =
  pri_pattern :: string
  pri_quality :: f64
  pri_latency_ms :: u64
  pri_cost :: f64
  pri_agent_count :: nat

definition py_route_repr :: "py_route_info \<Rightarrow> unicode_text" where
  "py_route_repr r =
     text_of ''Route('' @ text_of (pri_pattern r) @ text_of '', q='' @ fixed_text 3 (pri_quality r)
     @ text_of '', lat='' @ decimal (unat (pri_latency_ms r)) @ text_of ''ms, cost=$''
     @ fixed_text 4 (pri_cost r) @ text_of '', agents='' @ decimal (pri_agent_count r) @ text_of '')''"

definition py_router_new :: economic_router where
  "py_router_new = router_new graph_new"

definition py_router_add_agent ::
  "economic_router \<Rightarrow> agent_id \<Rightarrow> capability list \<Rightarrow> f64 \<Rightarrow> economic_router option" where
  "py_router_add_agent er a caps trust = map_option fst (router_add_agent er a caps trust)"

definition py_router_fully_connect :: "economic_router \<Rightarrow> u64 \<Rightarrow> economic_router option" where
  "py_router_fully_connect er latency_ms = router_fully_connect er (from_millis (unat latency_ms))"

definition py_route_of :: "route \<Rightarrow> py_route_info" where
  "py_route_of r =
     \<lparr>pri_pattern = show_routing_pattern (route_pattern r), pri_quality = rm_quality (route_metrics r),
      pri_latency_ms = as_millis_u64 (rm_latency (route_metrics r)),
      pri_cost = rm_cost (route_metrics r), pri_agent_count = length (route_agents r)\<rparr>"

definition py_find_route ::
  "economic_router \<Rightarrow> table_order \<Rightarrow> task_type \<Rightarrow> qos_constraints \<Rightarrow> stamp \<Rightarrow>
   (py_err + py_route_info) option" where
  "py_find_route er ord t q stamp =
     map_option (\<lambda>r. map_sum id py_route_of (raising RaisedRouting r)) (find_route er ord t q None stamp)"

definition py_find_routes ::
  "economic_router \<Rightarrow> (bf_result list \<Rightarrow> nat list list) \<Rightarrow> task_type \<Rightarrow> qos_constraints \<Rightarrow>
   (nat \<Rightarrow> stamp) \<Rightarrow> (py_err + py_route_info list) option" where
  "py_find_routes er ord t q stamps =
     map_option (\<lambda>r. map_sum id (map py_route_of) (raising RaisedRouting r)) (find_routes er ord t q stamps)"

definition py_router_agent_count :: "economic_router \<Rightarrow> nat" where
  "py_router_agent_count er = node_count (er_graph er)"

definition py_router_repr :: "economic_router \<Rightarrow> unicode_text" where
  "py_router_repr er =
     text_of ''EconomicRouter(agents='' @ decimal (py_router_agent_count er) @ text_of '')''"

section \<open>Simulation\<close>

record py_bench_metrics =
  pbm_scenario :: string
  pbm_total_tasks :: nat
  pbm_tasks_completed :: nat
  pbm_tasks_failed :: nat
  pbm_avg_cost_per_task :: f64
  pbm_avg_latency_ms :: f64
  pbm_p50_latency_ms :: f64
  pbm_p95_latency_ms :: f64
  pbm_p99_latency_ms :: f64
  pbm_avg_quality :: f64
  pbm_fault_recovery_ms :: f64
  pbm_context_efficiency :: f64

definition py_metrics_repr :: "py_bench_metrics \<Rightarrow> unicode_text" where
  "py_metrics_repr m =
     text_of ''BenchMetrics(scenario='' @ [39] @ text_of (pbm_scenario m) @ [39]
     @ text_of '', cost=$'' @ fixed_text 4 (pbm_avg_cost_per_task m)
     @ text_of '', latency='' @ fixed_text 0 (pbm_avg_latency_ms m)
     @ text_of ''ms, quality='' @ fixed_text 3 (pbm_avg_quality m)
     @ text_of '', completed='' @ decimal (pbm_tasks_completed m)
     @ text_of '', failed='' @ decimal (pbm_tasks_failed m) @ text_of '')''"

definition to_py_metrics :: "bench_metrics \<Rightarrow> py_bench_metrics" where
  "to_py_metrics m =
     \<lparr>pbm_scenario = bm_scenario m, pbm_total_tasks = bm_total_tasks m,
      pbm_tasks_completed = bm_tasks_completed m, pbm_tasks_failed = bm_tasks_failed m,
      pbm_avg_cost_per_task = bm_avg_cost_per_task m, pbm_avg_latency_ms = bm_avg_latency_ms m,
      pbm_p50_latency_ms = bm_p50_latency_ms m, pbm_p95_latency_ms = bm_p95_latency_ms m,
      pbm_p99_latency_ms = bm_p99_latency_ms m, pbm_avg_quality = bm_avg_quality m,
      pbm_fault_recovery_ms = bm_fault_recovery_ms m,
      pbm_context_efficiency = bm_context_efficiency m\<rparr>"

record py_simulation =
  psim_harness :: sim_harness
  psim_seed :: u64

text \<open>The number of agents that is asked for is ignored.\<close>

definition py_simulation_new ::
  "'r sim_env \<Rightarrow> (nat \<Rightarrow> agent_stamp) \<Rightarrow> (nat \<Rightarrow> agent_id) \<Rightarrow> nat option \<Rightarrow> u64 option \<Rightarrow>
   py_simulation option" where
  "py_simulation_new e st ids agents seed = do {
     let seed = or_default 42 seed;
     h \<leftarrow> harness_benchmark e st ids seed;
     Some \<lparr>psim_harness = h, psim_seed = seed\<rparr>
   }"

definition py_sim_agent_count :: "py_simulation \<Rightarrow> nat" where
  "py_sim_agent_count s = network_agent_count (sh_network (psim_harness s))"

definition py_sim_edge_count :: "py_simulation \<Rightarrow> nat" where
  "py_sim_edge_count s = length (nw_edges (sh_network (psim_harness s)))"

text \<open>
  \<open>to_lowercase\<close>, as for the names of skills, but without \<open>trim\<close>; the message quotes the name as it
  was given.
\<close>

definition unknown_py_scenario :: "unicode_text \<Rightarrow> py_err" where
  "unknown_py_scenario name = PyValueError (text_of ''Unknown scenario: '' @ name
     @ text_of ''. Options: sequential, roundrobin, atp, nocontext, norouting, notrust, nofault'')"

definition py_parse_scenario :: "unicode_text \<Rightarrow> py_err + scenario" where
  "py_parse_scenario name =
     (let w = map lower_char name
      in if w = text_of ''sequential'' then Inr Sequential
         else if w \<in> text_of ` {''roundrobin'', ''round_robin''} then Inr RoundRobin
         else if w \<in> text_of ` {''atp'', ''full'', ''full_atp''} then Inr FullAtp
         else if w \<in> text_of ` {''nocontext'', ''no_context''} then Inr AtpNoContext
         else if w \<in> text_of ` {''norouting'', ''no_routing''} then Inr AtpNoRouting
         else if w \<in> text_of ` {''notrust'', ''no_trust''} then Inr AtpNoTrust
         else if w \<in> text_of ` {''nofault'', ''no_fault''} then Inr AtpNoFault
         else Inl (unknown_py_scenario name))"

definition py_generate_tasks ::
  "'r sim_env \<Rightarrow> (nat \<Rightarrow> uuid) \<Rightarrow> py_simulation \<Rightarrow> nat \<Rightarrow> nat \<Rightarrow> sim_task list option" where
  "py_generate_tasks e new_ids s tasks context_size =
     map_option fst (generate_tasks e (with_context_size context_size task_generator_new)
       (map new_ids [0..<tasks]) (rand_seed e (psim_seed s)))"

definition py_run_scenario ::
  "'r sim_env \<Rightarrow> (scenario \<Rightarrow> nat \<Rightarrow> duration) \<Rightarrow> (scenario \<Rightarrow> nat \<Rightarrow> nat \<Rightarrow> duration) \<Rightarrow>
   (nat \<Rightarrow> uuid) \<Rightarrow> py_simulation \<Rightarrow> unicode_text option \<Rightarrow> nat option \<Rightarrow> nat option \<Rightarrow>
   (py_err + py_bench_metrics) option" where
  "py_run_scenario e routed recovered new_ids s name tasks context_size =
     (case py_parse_scenario (or_default (text_of ''atp'') name) of
        Inl err \<Rightarrow> Some (Inl err)
      | Inr scenario_enum \<Rightarrow> do {
          task_list \<leftarrow> py_generate_tasks e new_ids s (or_default 10000 tasks) (or_default 50000 context_size);
          metrics \<leftarrow> run_scenario e (routed scenario_enum) (recovered scenario_enum) (psim_harness s)
            scenario_enum task_list;
          Some (Inr (to_py_metrics metrics))
        })"

definition py_run_benchmark ::
  "'r sim_env \<Rightarrow> (scenario \<Rightarrow> nat \<Rightarrow> duration) \<Rightarrow> (scenario \<Rightarrow> nat \<Rightarrow> nat \<Rightarrow> duration) \<Rightarrow>
   (nat \<Rightarrow> uuid) \<Rightarrow> py_simulation \<Rightarrow> nat option \<Rightarrow> nat option \<Rightarrow>
   (py_err + py_bench_metrics list) option" where
  "py_run_benchmark e routed recovered new_ids s tasks context_size = do {
     task_list \<leftarrow> py_generate_tasks e new_ids s (or_default 10000 tasks) (or_default 50000 context_size);
     results \<leftarrow> collect_options
       (\<lambda>sc. map_option to_py_metrics
          (run_scenario e (routed sc) (recovered sc) (psim_harness s) sc task_list))
       [Sequential, RoundRobin, FullAtp, AtpNoContext, AtpNoRouting, AtpNoTrust, AtpNoFault];
     Some (Inr results)
   }"

definition py_simulation_repr :: "py_simulation \<Rightarrow> unicode_text" where
  "py_simulation_repr s =
     text_of ''Simulation(agents='' @ decimal (py_sim_agent_count s) @ text_of '', edges=''
     @ decimal (py_sim_edge_count s) @ text_of '', seed='' @ decimal (unat (psim_seed s)) @ text_of '')''"

section \<open>Decoding undoes encoding\<close>

lemma hex_digit_facts:
  assumes "n < 16"
  shows "hex_value (hex_digit n) = Some n" "utf8_width (hex_digit n) = 1" "hex_digit n \<noteq> 43"
  using assms by (auto simp: hex_value_def hex_digit_def utf8_width_def)

lemma hex_byte_nibbles: "unat (b :: u8) div 16 < 16" "unat b mod 16 < 16"
  using u8_less [of b] by simp_all

lemma byte_from_hex_byte: "byte_from_hex (hex_byte b) = Inr b"
proof -
  have "16 * (unat b div 16) + unat b mod 16 = unat b" by simp
  then show ?thesis
    using hex_byte_nibbles [of b]
    by (simp add: byte_from_hex_def hex_byte_def hex_digit_facts Let_def)
qed

lemma hex_decode_byte:
  "hex_decode (hex_byte b @ s) = map_option (map_sum id (Cons b)) (hex_decode s)"
proof -
  have "byte_from_hex [hex_digit (unat b div 16), hex_digit (unat b mod 16)] = Inr b"
    using byte_from_hex_byte [of b] by (simp add: hex_byte_def)
  then show ?thesis using hex_byte_nibbles [of b] by (simp add: hex_byte_def hex_digit_facts)
qed

lemma hex_round_trip: "hex_decode (hex_encode bs) = Some (Inr bs)"
  by (induction bs) (simp_all add: hex_encode_def hex_decode_byte)

lemma length_hex_encode: "length (hex_encode bs) = 2 * length bs"
  by (induction bs) (simp_all add: hex_encode_def hex_byte_def)

text \<open>Text that is not closed by a second digit panics instead of raising.\<close>

lemma hex_decode_odd: "utf8_width c = 1 \<Longrightarrow> hex_decode (hex_encode bs @ [c]) = None"
  by (induction bs) (simp_all add: hex_encode_def hex_decode_byte)

text \<open>What is decoded is at most half as long as the text, and exactly half for ASCII text.\<close>

lemma hex_decode_length:
  "hex_decode s = Some (Inr bs) \<Longrightarrow> 2 * length bs = length s"
proof (induction s arbitrary: bs rule: hex_decode.induct)
  case (2 c)
  have "hex_value c = None" if "utf8_width c = 2"
    using that by (auto simp: utf8_width_def hex_value_def split: if_splits)
  then show ?case
    using 2 by (auto simp: byte_from_hex_def split: if_splits sum.splits)
next
  case (3 c d s)
  have "hex_value c = None" if "utf8_width c = 2"
    using that by (auto simp: utf8_width_def hex_value_def split: if_splits)
  then have "\<exists>e. byte_from_hex [c] = Inl e" if "utf8_width c = 2"
    using that by (simp add: byte_from_hex_def)
  then obtain b r where "utf8_width c \<noteq> 2" "byte_from_hex [c, d] = Inr b" "utf8_width c = 1" "utf8_width d = 1"
    "hex_decode s = Some r" "map_sum id (Cons b) r = Inr bs"
    using 3(3) by (fastforce split: if_splits sum.splits)
  then show ?case using 3(2) by (cases r) auto
qed simp

section \<open>What the classes do\<close>

lemma py_qos_defaults: "py_qos_new None None None None = default_qos"
proof -
  have "from_millis (unat (10000 :: u64)) = from_secs 10"
    by (simp add: from_millis_def from_secs_def NANOS_PER_SEC_def)
  then show ?thesis by (simp add: py_qos_new_def or_default_def default_qos_def)
qed

lemma py_did_uri_total: "\<exists>uri. py_did_uri ed kp = Inr uri \<and> py_keypair_repr ed kp = text_of ''KeyPair(did='' @ uri @ text_of '')''"
  by (simp add: py_did_uri_def raising_def generate_did_def py_keypair_repr_def)

text \<open>Registering never raises; the store then has the agent under the key it was made with.\<close>

lemma py_register_agent_ok:
  assumes "ed25519_sound ed"
  shows "\<exists>identity st'. py_register_agent ed k a now st = (st', Inr a)
     \<and> is_identities st' = (is_identities st)(a \<mapsto> identity)
     \<and> extract_public_key (ident_did identity) = Inr (public_key_bytes ed \<lparr>kp_signing_key = k\<rparr>)"
proof -
  let ?pk = "public_key_bytes ed \<lparr>kp_signing_key = k\<rparr>"
  obtain d where d: "generate_did ?pk = Inr d" by (simp add: generate_did_def)
  have "length ?pk = 32" using assms by (simp add: ed25519_sound_def public_key_bytes_def)
  then have "extract_public_key d = Inr ?pk"
    using d extract_payload [OF payload_round_trip] by (auto simp: generate_did_def)
  then show ?thesis
    using d by (intro exI [of _ "\<lparr>ident_id = a, ident_did = d, ident_public_key = ?pk,
        ident_capabilities = [], ident_created_at = now\<rparr>"])
      (simp add: py_register_agent_def keypair_generate_def create_identity_def register_identity_def
        raising_def Let_def)
qed

text \<open>The total number of chunks, as long as the sum does not wrap around.\<close>

lemma ceil_div_step:
  assumes "0 < n" and "0 < k"
  shows "Suc ((k - n + n - 1) div n) = (k + n - 1) div (n :: nat)"
proof (cases "k \<le> n")
  case True
  then obtain j where "k = Suc j" "j < n" using assms(2) by (cases k) auto
  then show ?thesis using True assms(1) by simp
next
  case False
  then have "k + n - 1 = (k - n + n - 1) + n" using assms by simp
  then show ?thesis using assms(1) by (metis add.commute div_add_self2 not_less_zero plus_1_eq_Suc)
qed

lemma length_chunks_of: "0 < n \<Longrightarrow> length (chunks_of n xs) = (length xs + n - 1) div n"
proof (induction n xs rule: chunks_of.induct)
  case (1 n xs)
  show ?case
  proof (cases "xs = []")
    case True
    then show ?thesis using "1.prems" by (simp add: chunks_of.simps [of n "[]"])
  next
    case False
    have "length (chunks_of n xs) = Suc (length (chunks_of n (drop n xs)))"
      by (subst chunks_of.simps) (use False "1.prems" in simp)
    also have "\<dots> = Suc ((length xs - n + n - 1) div n)"
      using "1.IH" "1.prems" False by (simp only: length_drop) blast
    also have "\<dots> = (length xs + n - 1) div n"
      by (rule ceil_div_step) (use False "1.prems" in simp_all)
    finally show ?thesis .
  qed
qed

lemma py_total_chunks_ok:
  assumes "length data + unat n \<le> 2 ^ 64"
  shows "py_total_chunks data n = length (split_into_chunks data (unat n))"
proof (cases "n = 0 \<or> data = []")
  case True
  then show ?thesis
  proof
    assume data: "data = []"
    show ?thesis
    proof (cases "n = 0")
      case False
      then have "unat (n - 1) < unat n" by (simp add: unat_minus_one unat_gt_0)
      then have "(n - 1) div n = 0" by (simp add: word_unat_eq_iff unat_div)
      then show ?thesis by (simp add: data py_total_chunks_def split_into_chunks_def)
    qed (simp add: py_total_chunks_def split_into_chunks_def data)
  qed (simp add: py_total_chunks_def split_into_chunks_def)
next
  case False
  then have n: "0 < n" "0 < unat n" by (auto simp: unat_gt_0 word_neq_0_conv)
  have "of_nat (length data) + n - 1 = (of_nat (length data + unat n - 1) :: u64)"
    using n(2) by (simp add: of_nat_diff)
  moreover have "length data + unat n - 1 < 2 ^ 64" using assms n(2) by linarith
  ultimately have "unat (of_nat (length data) + n - 1) = length data + unat n - 1"
    by (simp add: unat_of_nat take_bit_nat_eq_self)
  then show ?thesis
    using n False by (simp add: py_total_chunks_def unat_div split_into_chunks_def length_chunks_of)
qed

text \<open>\<open>Simulation(agents=...)\<close> has fifty agents whatever is asked for.\<close>

lemma py_simulation_ignores_agents:
  "py_simulation_new e st ids agents seed = py_simulation_new e st ids agents' seed"
  "py_simulation_new e st ids agents seed = Some s \<Longrightarrow> py_sim_agent_count s = 50"
  by (auto simp: py_simulation_new_def py_sim_agent_count_def harness_benchmark_def harness_new_def
      benchmark_network_def network_agent_count_def benchmark_length Let_def bind_eq_Some_conv)

section \<open>Signatures\<close>

text \<open>
  What the methods rely on in \<open>ed25519_dalek\<close>: a signature is 64 bytes, and is read back from them.
\<close>

definition signature_bytes_sound :: "('sk, 'vk, 'sg) ed25519 \<Rightarrow> (u8 list \<Rightarrow> 'sg) \<Rightarrow> bool" where
  "signature_bytes_sound ed sg_from_bytes \<longleftrightarrow>
     (\<forall>sg. length (sg_to_bytes ed sg) = 64 \<and> sg_from_bytes (sg_to_bytes ed sg) = sg)"

text \<open>
  A signature survives its way through Python: the hexadecimal text of \<open>sign\<close> has 128 characters,
  decodes to the bytes it was made from and verifies for its message under its key pair, where it
  answers what the signature itself would for every other message; a decodable text of another
  length raises a \<open>ValueError\<close> instead of an answer.
\<close>

lemma python_signature_round_trip:
  assumes "ed25519_sound ed" and "signature_bytes_sound ed sg_from_bytes"
  shows "py_verify_message ed sg_from_bytes kp m (py_sign_message ed kp m) = Some (Inr True)
    \<and> py_verify_message ed sg_from_bytes kp m' (py_sign_message ed kp m) =
        Some (Inr (is_ok (keypair_verify ed kp m' (keypair_sign ed kp m))))
    \<and> length (py_sign_message ed kp m) = 128
    \<and> hex_decode (py_sign_message ed kp m) = Some (Inr (sg_to_bytes ed (keypair_sign ed kp m)))
    \<and> (hex_decode s = Some (Inr bs) \<longrightarrow> length s \<noteq> 128 \<longrightarrow>
        py_verify_message ed sg_from_bytes kp m s
          = Some (Inl (PyValueError (text_of ''Signature must be 64 bytes''))))"
proof -
  have sg: "length (sg_to_bytes ed g) = 64" "sg_from_bytes (sg_to_bytes ed g) = g" for g
    using assms(2) by (simp_all add: signature_bytes_sound_def)
  have "is_ok (keypair_verify ed kp m (keypair_sign ed kp m))"
    using assms(1) by (simp add: ed25519_sound_def keypair_verify_def keypair_sign_def)
  moreover have "py_verify_message ed sg_from_bytes kp m s
      = Some (Inl (PyValueError (text_of ''Signature must be 64 bytes'')))"
    if "hex_decode s = Some (Inr bs)" "length s \<noteq> 128"
    using that hex_decode_length [OF that(1)] by (auto simp: py_verify_message_def)
  ultimately show ?thesis
    by (simp add: py_verify_message_def py_sign_message_def hex_round_trip length_hex_encode sg)
qed

text \<open>A toy scheme with signatures of 64 bytes: a checksum of the key and the message.\<close>

definition checksum_ed25519 :: "(u8, u8, u8) ed25519" where
  "checksum_ed25519 =
     \<lparr>sk_from_bytes = hd, sk_to_bytes = (\<lambda>k. [k]), sk_verifying_key = (\<lambda>k. k),
      vk_to_bytes = (\<lambda>vk. vk # replicate 31 0), sk_sign = (\<lambda>k m. k + sum_list m),
      vk_verify_strict = (\<lambda>vk m sg. sg = vk + sum_list m), sg_to_bytes = (\<lambda>sg. sg # replicate 63 0)\<rparr>"

lemma python_signature_round_trip_example:
  "py_verify_message checksum_ed25519 hd \<lparr>kp_signing_key = 7\<rparr> [1, 2]
      (py_sign_message checksum_ed25519 \<lparr>kp_signing_key = 7\<rparr> [1, 2]) = Some (Inr True)
   \<and> py_verify_message checksum_ed25519 hd \<lparr>kp_signing_key = 7\<rparr> [1, 3]
      (py_sign_message checksum_ed25519 \<lparr>kp_signing_key = 7\<rparr> [1, 2]) = Some (Inr False)
   \<and> py_verify_message checksum_ed25519 hd \<lparr>kp_signing_key = 7\<rparr> [1, 2] (text_of ''0aFF'') =
      Some (Inl (PyValueError (text_of ''Signature must be 64 bytes'')))"
proof -
  have ok: "ed25519_sound checksum_ed25519" "signature_bytes_sound checksum_ed25519 hd"
    by (simp_all add: ed25519_sound_def checksum_ed25519_def signature_bytes_sound_def)
  have "hex_decode (text_of ''0aFF'') = Some (Inr [10, 255])"
    by (simp add: text_of_def utf8_width_def byte_from_hex_def hex_value_def)
  then show ?thesis
    using python_signature_round_trip [OF ok, of "\<lparr>kp_signing_key = 7\<rparr>" "[1, 2]" "[1, 3]"
        "text_of ''0aFF''" "[10, 255]"]
    by (simp add: text_of_def) (simp add: checksum_ed25519_def keypair_verify_def keypair_sign_def)
qed

text \<open>
  The text of a signature is not unique: a byte below sixteen can be written with a plus sign. An
  odd number of digits panics, where a wrong digit raises a \<open>ValueError\<close>.
\<close>

lemma hex_decode_plus:
  "hex_decode (text_of ''+f'') = hex_decode (hex_encode [15])"
  "hex_decode (text_of ''0f0'') = None"
  "hex_decode (text_of ''0g'') = Some (Inl invalid_digit)"
proof -
  show "hex_decode (text_of ''+f'') = hex_decode (hex_encode [15])"
    by (simp add: hex_round_trip) (simp add: text_of_def utf8_width_def byte_from_hex_def hex_value_def)
  show "hex_decode (text_of ''0f0'') = None" "hex_decode (text_of ''0g'') = Some (Inl invalid_digit)"
    by (simp_all add: text_of_def utf8_width_def byte_from_hex_def hex_value_def)
qed

end
