(* ===== verification/Python_Sdk.thy ===== *)
theory Python_Sdk
  imports Python_Bindings Bench
begin

text \<open>
  The free functions of the Python module (\<open>atp-python\<close>: \<open>py_sdk.rs\<close>), which print. Each one builds a
  network of its own; what it writes to the terminal is returned, and a panic is \<open>None\<close>. The lemmas
  compare them with the functions of the Rust SDK and state what the classes do.
\<close>

section \<open>The functions\<close>

definition py_parse_skill :: "unicode_text \<Rightarrow> task_type option" where
  "py_parse_skill s =
     (let w = trim_text (map lower_char s)
      in if w \<in> text_of ` {''coding'', ''code'', ''codegen'', ''code_generation'', ''cg''}
         then Some CodeGeneration
         else if w \<in> text_of ` {''analysis'', ''analyze'', ''analyse''} then Some Analysis
         else if w \<in> text_of ` {''writing'', ''creative'', ''creative_writing'', ''cw''}
         then Some CreativeWriting
         else if w \<in> text_of ` {''data'', ''processing'', ''data_processing'', ''dp''}
         then Some DataProcessing
         else None)"

definition py_benchmark_row :: "bench_metrics \<Rightarrow> unicode_text" where
  "py_benchmark_row m =
     (let recovery = (if bm_fault_recovery_ms m = PInf \<or> bm_fault_recovery_ms m = NInf
            then text_of ''inf'' else fixed_text 0 (bm_fault_recovery_ms m) @ text_of ''ms'');
          ctx = 1 / f64_max (bm_context_efficiency m) (to_f64 (1 / 1000))
      in pad_right 20 (text_of (bm_scenario m)) @ text_of '' $''
         @ pad_left 7 (fixed_text 4 (bm_avg_cost_per_task m)) @ [32]
         @ pad_left 6 (fixed_text 0 (bm_avg_latency_ms m)) @ text_of ''ms ''
         @ pad_left 7 (fixed_text 3 (bm_avg_quality m)) @ [32] @ pad_left 9 recovery @ [32]
         @ pad_left 5 (fixed_text 1 ctx) @ text_of ''x '' @ pad_left 6 (decimal (bm_tasks_failed m)) @ [10])"

definition py_benchmark_head :: unicode_text where
  "py_benchmark_head =
     rule_line 0x2550 @ text_of ''  ATP Benchmark: 50 agents, 10000 tasks, seed=42'' @ [10]
     @ rule_line 0x2550 @ [10] @ report_header @ rule_line 0x2500"

definition py_benchmark ::
  "'r sim_env \<Rightarrow> (nat \<Rightarrow> agent_stamp) \<Rightarrow> (nat \<Rightarrow> agent_id) \<Rightarrow> (scenario \<Rightarrow> nat \<Rightarrow> duration) \<Rightarrow>
   (scenario \<Rightarrow> nat \<Rightarrow> nat \<Rightarrow> duration) \<Rightarrow> (nat \<Rightarrow> uuid) \<Rightarrow> unicode_text option" where
  "py_benchmark e st ids routed recovered new_ids = do {
     h \<leftarrow> harness_benchmark e st ids 42;
     (tasks, r) \<leftarrow> generate_tasks e (with_context_size 50000 task_generator_new)
       (map new_ids [0..<10000]) (rand_seed e 42);
     rows \<leftarrow> collect_options
       (\<lambda>s. map_option py_benchmark_row (run_scenario e (routed s) (recovered s) h s tasks))
       [Sequential, RoundRobin, FullAtp, AtpNoContext, AtpNoRouting, AtpNoTrust, AtpNoFault];
     Some (py_benchmark_head @ concat rows @ rule_line 0x2500)
   }"

text \<open>The graph of the route has every agent at a trust of 0.8.\<close>

definition py_route_line :: "routing_error + route \<Rightarrow> unicode_text" where
  "py_route_line r =
     (case r of
        Inr x \<Rightarrow> text_of ''Route: '' @ text_of (show_routing_pattern (route_pattern x)) @ text_of '' via ''
          @ decimal (length (route_agents x)) @ text_of '' agent'' @ plural (length (route_agents x))
          @ text_of '' (q='' @ fixed_text 2 (rm_quality (route_metrics x)) @ text_of '', $''
          @ fixed_text 4 (rm_cost (route_metrics x)) @ text_of '', ''
          @ decimal (as_millis (rm_latency (route_metrics x))) @ text_of ''ms)'' @ [10]
      | Inl err \<Rightarrow> text_of ''Route: FAILED '' @ [0x2014, 32] @ text_of (show_routing_error err) @ [10])"

definition py_route ::
  "'r sim_env \<Rightarrow> (nat \<Rightarrow> agent_stamp) \<Rightarrow> (nat \<Rightarrow> agent_id) \<Rightarrow> table_order \<Rightarrow> stamp \<Rightarrow> unicode_text \<Rightarrow>
   unicode_text option" where
  "py_route e st ids ord stamp skill = do {
     t \<leftarrow> py_parse_skill skill;
     h \<leftarrow> harness_benchmark e st ids 42;
     g \<leftarrow> add_sim_agents (nw_agents (sh_network h)) graph_new;
     g \<leftarrow> fully_connect g (from_millis 5);
     let q = \<lparr>min_quality = to_f64 (3 / 10), max_latency = from_secs 30, max_cost = to_f64 10,
              min_trust = to_f64 (3 / 10)\<rparr>;
     r \<leftarrow> find_route (router_new g) ord t q None stamp;
     Some (py_route_line r)
   }"

text \<open>On the left, the error printed after \<open>Compression failed:\<close>; on the right, the line of a success.\<close>

definition py_compress ::
  "vector_env \<Rightarrow> u8 list \<Rightarrow> unicode_text \<Rightarrow> (context_error + unicode_text) option" where
  "py_compress env data skill = do {
     t \<leftarrow> py_parse_skill skill;
     r \<leftarrow> compress_for_task env compressor_new data t (map of_char ''task'');
     Some (map_sum id (\<lambda>d.
       let ratio = (if 0 < diff_compressed_size d
             then f64_of_nat (unat (diff_original_size d)) / f64_of_nat (unat (diff_compressed_size d))
             else PInf)
       in fixed_text 1 ratio @ text_of ''x compression ('' @ decimal (unat (diff_original_size d))
          @ text_of ''B '' @ [0x2192, 32] @ decimal (unat (diff_compressed_size d)) @ text_of ''B, ''
          @ decimal (length (diff_chunks d)) @ text_of '' chunks)'' @ [10]) r)
   }"

definition py_sign ::
  "('sk, 'vk, 'sg) ed25519 \<Rightarrow> 'sk \<Rightarrow> u8 list \<Rightarrow> unicode_text option" where
  "py_sign ed fresh message =
     (case keypair_generate fresh of
        Inl _ \<Rightarrow> None
      | Inr kp \<Rightarrow>
          (case generate_did (public_key_bytes ed kp) of
             Inl _ \<Rightarrow> None
           | Inr d \<Rightarrow>
               let uri = to_uri d;
                   sg = keypair_sign ed kp message;
                   verified = is_ok (keypair_verify ed kp message sg);
                   hex = concat (map hex_byte (take 8 (sg_to_bytes ed sg)));
                   short_uri = (if 30 < length uri
                     then take 20 uri @ text_of ''...'' @ drop (length uri - 6) uri else uri)
               in Some (text_of ''Agent('' @ short_uri @ text_of '')'' @ [10]
                  @ text_of ''  Signed: Sig('' @ hex @ text_of ''...)'' @ [10]
                  @ text_of ''  Verified: '' @ text_of (if verified then ''true'' else ''false'') @ [10])))"

definition py_trust ::
  "'r sim_env \<Rightarrow> (nat \<Rightarrow> agent_stamp) \<Rightarrow> (nat \<Rightarrow> agent_id) \<Rightarrow> unicode_text \<Rightarrow> unicode_text option" where
  "py_trust e st ids skill = do {
     t \<leftarrow> py_parse_skill skill;
     h \<leftarrow> harness_benchmark e st ids 42;
     let caps = filter (\<lambda>c. sc_task_type c = t) (concat (map sim_capabilities (nw_agents (sh_network h))));
     let n = (of_nat (length caps) :: u32);
     let score = (if 0 < n then f64_sum (map sc_quality_mean caps) / f64_of_nat (unat n)
       else to_f64 (5 / 10));
     Some (text_of ''Trust: '' @ fixed_text 2 score @ text_of '' (n='' @ decimal (unat n)
       @ text_of '')'' @ [10])
   }"

section \<open>The same functions in the SDK\<close>

lemma py_parse_skill_eq: "py_parse_skill s = parse_skill s"
  by (simp add: py_parse_skill_def parse_skill_def)

lemma py_benchmark_row_eq: "py_benchmark_row m = report_row m"
  by (simp add: py_benchmark_row_def report_row_def recovery_text_def)

lemma new_network_Some:
  "sdk_network_new e st ids = map_option (\<lambda>h. \<lparr>sn_harness = h, sn_seed = 42,
     sn_agent_count = network_agent_count (sh_network h)\<rparr>) (harness_benchmark e st ids 42)"
  by (simp add: sdk_network_new_def network_with_seed_def map_option_case split: option.split)

lemma py_trust_eq: "py_trust e st ids skill = map_option fst (print_trust (sdk_network_new e st ids) skill None)"
proof (cases "harness_benchmark e st ids 42")
  case None
  then show ?thesis
    by (simp add: py_trust_def print_trust_def sdk_trust_score_def sdk_global_def new_network_Some)
next
  case (Some h)
  show ?thesis
  proof (cases "parse_skill skill")
    case skill: (Some t)
    define n where "n = (of_nat (length (filter (\<lambda>c. sc_task_type c = t)
      (concat (map sim_capabilities (nw_agents (sh_network h)))))) :: u32)"
    show ?thesis
      by (cases "n = 0")
        (simp_all add: py_trust_def print_trust_def sdk_trust_score_def sdk_global_def new_network_Some
          Some skill sdk_trust_def py_parse_skill_eq show_trust_info_def Let_def n_def [symmetric]
          word_neq_0_conv del: filter_concat)
  qed (simp add: py_trust_def print_trust_def sdk_trust_score_def sdk_global_def new_network_Some
      Some sdk_trust_def py_parse_skill_eq)
qed

lemma py_sign_eq: "py_sign ed k m = print_sign ed k m"
  by (simp add: py_sign_def print_sign_def sdk_agent_new_def keypair_generate_def generate_did_def
      show_sdk_agent_def show_sdk_signature_def sdk_agent_sign_def sdk_agent_verify_def Let_def
      text_of_def)

text \<open>The bindings print the latency in full, the SDK its 64 low bits: within thirty seconds, the same.\<close>

lemma py_route_line_eq:
  assumes "case r of Inr x \<Rightarrow> rm_latency (route_metrics x) \<le> from_secs 30 | Inl _ \<Rightarrow> True"
  shows "py_route_line r =
    show_route_result (case r of Inr x \<Rightarrow> result_from_route x t | Inl e \<Rightarrow> result_failed t (show_routing_error e))
      @ [10]"
proof (cases r)
  case (Inr x)
  have "rm_latency (route_metrics x) div 1000000 \<le> 30000"
    using assms Inr div_le_mono [of "rm_latency (route_metrics x)" 30000000000 1000000]
    by (simp add: from_secs_def NANOS_PER_SEC_def)
  then have "unat (as_millis_u64 (rm_latency (route_metrics x))) = as_millis (rm_latency (route_metrics x))"
    by (simp add: as_millis_u64_def as_millis_def unat_of_nat take_bit_nat_eq_self)
  then show ?thesis
    by (simp add: Inr py_route_line_def show_route_result_def result_from_route_def)
qed (simp add: py_route_line_def show_route_result_def result_failed_def)

lemma py_route_eq:
  assumes "orders_ok ord" and "inj_on ids {..<50}"
  shows "py_route e st ids ord stamp skill =
    map_option fst (print_route (sdk_network_new e st ids) ord stamp skill None)"
proof (cases "harness_benchmark e st ids 42")
  case None
  then show ?thesis
    by (simp add: py_route_def print_route_def sdk_find_route_def sdk_global_def new_network_Some
        split: bind_splits)
next
  case (Some h)
  then obtain sn where sn: "network_with_seed e st ids 42 = Some sn" "sn_harness sn = h"
    by (simp add: network_with_seed_def)
  obtain g where g: "sdk_graph sn = Some g" "graph_wf g"
    using benchmark_graph [OF assms(2) sn(1)] by blast
  have q: "sdk_qos (to_f64 (3 / 10)) = \<lparr>min_quality = to_f64 (3 / 10), max_latency = from_secs 30,
      max_cost = to_f64 10, min_trust = to_f64 (3 / 10)\<rparr>" by (simp add: sdk_qos_def)
  obtain g0 where g0: "add_sim_agents (nw_agents (sh_network h)) graph_new = Some g0"
    "fully_connect g0 (from_millis 5) = Some g"
    using g(1) by (auto simp: sdk_graph_def sn(2) bind_eq_Some_conv)
  have new: "sdk_network_new e st ids = Some sn" using sn(1) by (simp add: sdk_network_new_def)
  have line: "py_route_line r = show_route_result (case r of Inr x \<Rightarrow> result_from_route x t
        | Inl e \<Rightarrow> result_failed t (show_routing_error e)) @ [10]"
    if r: "find_route (router_new g) ord t (sdk_qos (to_f64 (3 / 10))) None stamp = Some r" for t r
  proof (rule py_route_line_eq, cases r)
    case (Inr x)
    have "graph_wf (er_graph (router_new g))" using g(2) by (simp add: router_new_def)
    from find_route_soundness [OF this assms(1) r [unfolded Inr]]
    show "case r of Inr x \<Rightarrow> rm_latency (route_metrics x) \<le> from_secs 30 | Inl _ \<Rightarrow> True"
      by (auto simp: Inr route_sound_def satisfies_constraints_def sdk_qos_def)
  qed simp
  show ?thesis
  proof (cases "parse_skill skill")
    case skill: (Some t)
    show ?thesis
    proof (cases "find_route (router_new g) ord t (sdk_qos (to_f64 (3 / 10))) None stamp")
      case None
      then show ?thesis
        by (simp add: py_route_def py_parse_skill_eq skill Some g0 q print_route_def sdk_find_route_def
            sdk_global_def new sdk_route_def route_with_quality_def g(1))
    next
      case r: (Some r)
      then show ?thesis
        using line [OF r]
        by (simp add: py_route_def py_parse_skill_eq skill Some g0 q print_route_def sdk_find_route_def
            sdk_global_def new sdk_route_def route_with_quality_def g(1))
    qed
  qed (simp add: py_route_def py_parse_skill_eq print_route_def sdk_find_route_def sdk_global_def new
      sdk_route_def route_with_quality_def)
qed

text \<open>The report of the SDK continues with the comparison, which the bindings leave out.\<close>

lemma collect_map_option:
  "collect_options (\<lambda>x. map_option f (g x)) xs = map_option (map f) (collect_options g xs)"
  by (induction xs) (auto split: bind_splits option.split simp: map_option_case)

definition py_benchmark_text :: "bench_report \<Rightarrow> unicode_text" where
  "py_benchmark_text rep =
     py_benchmark_head @ concat (map report_row (br_metrics rep)) @ rule_line 0x2500"

lemma py_benchmark_report:
  assumes "network_with_seed e st ids 42 = Some sn"
  shows "py_benchmark e st ids routed recovered new_ids =
    map_option py_benchmark_text (sdk_benchmark e routed recovered (map new_ids [0..<10000]) sn)"
proof -
  define tids where "tids = map new_ids [0..<10000]"
  have h: "harness_benchmark e st ids 42 = Some (sn_harness sn)" and seed: "sn_seed sn = 42"
    using assms by (auto simp: network_with_seed_def bind_eq_Some_conv)
  let ?g = "generate_tasks e (with_context_size 50000 task_generator_new) tids (rand_seed e 42)"
  show ?thesis
  proof (cases ?g)
    case None
    then show ?thesis
      by (simp add: py_benchmark_def sdk_benchmark_def h seed tids_def [symmetric])
  next
    case (Some tr)
    obtain tasks r where tr: "tr = (tasks, r)" by (cases tr)
    let ?run = "\<lambda>s. run_scenario e (routed s) (recovered s) (sn_harness sn) s tasks"
    have "py_benchmark e st ids routed recovered new_ids =
        map_option (\<lambda>rows. py_benchmark_head @ concat rows @ rule_line 0x2500)
          (map_option (map report_row) (collect_options ?run all_scenarios))"
      using Some unfolding py_benchmark_def tids_def [symmetric] all_scenarios_def [symmetric]
        py_benchmark_row_eq collect_map_option h
      by (simp add: tr) (cases "collect_options ?run all_scenarios"; simp)
    then show ?thesis
      using Some by (cases "collect_options ?run all_scenarios")
        (simp_all add: sdk_benchmark_def seed tids_def [symmetric] tr py_benchmark_text_def)
  qed
qed

lemma py_benchmark_head_eq:
  "py_benchmark_head = rule_line 0x2550
     @ text_of ''  ATP Benchmark: '' @ decimal 50 @ text_of '' agents, '' @ decimal 10000
     @ text_of '' tasks, seed='' @ decimal 42 @ [10]
     @ rule_line 0x2550 @ [10] @ report_header @ rule_line 0x2500"
  by (simp add: py_benchmark_head_def decimal.simps text_of_def)

lemma py_benchmark_eq:
  "case py_benchmark e st ids routed recovered new_ids of
     None \<Rightarrow> print_benchmark (sdk_network_new e st ids) e routed recovered new_ids None = None
   | Some out \<Rightarrow> \<exists>comparison sn.
       print_benchmark (sdk_network_new e st ids) e routed recovered new_ids None
         = Some (out @ comparison @ [10], Some sn)"
proof (cases "network_with_seed e st ids 42")
  case None
  then have "harness_benchmark e st ids 42 = None"
    by (simp add: network_with_seed_def bind_eq_None_conv)
  then show ?thesis
    using None by (simp add: py_benchmark_def print_benchmark_def sdk_bench_def sdk_global_def
        sdk_network_new_def)
next
  case (Some sn)
  define tids where "tids = map new_ids [0..<10000]"
  have len: "length tids = 10000" by (simp add: tids_def)
  have new: "print_benchmark (sdk_network_new e st ids) e routed recovered new_ids None =
      map_option (\<lambda>rep. (show_report rep @ [10], Some sn)) (sdk_benchmark e routed recovered tids sn)"
    unfolding print_benchmark_def sdk_bench_def tids_def [symmetric]
    by (cases "sdk_benchmark e routed recovered tids sn") (simp_all add: sdk_global_def sdk_network_new_def Some)
  note py = py_benchmark_report [OF Some, of routed recovered new_ids, folded tids_def]
  show ?thesis
  proof (cases "sdk_benchmark e routed recovered tids sn")
    case rep: (Some rep)
    then have "br_agents rep = 50" "br_tasks rep = 10000" "br_seed rep = 42"
      using benchmark_network_parts [OF Some] len by (auto simp: sdk_benchmark_def bind_eq_Some_conv)
    then obtain comparison where "show_report rep = py_benchmark_text rep @ comparison"
      by (simp add: show_report_def py_benchmark_text_def py_benchmark_head_eq)
    then show ?thesis by (simp add: py new rep)
  qed (simp add: py new)
qed

section \<open>Properties\<close>

text \<open>
  C31. The Python functions print what the SDK prints on a fresh process, for every skill, message and
  random choice: the same route line, trust line and signature lines, a panic where the SDK panics,
  and the report of the benchmark up to the comparison that ends it in the SDK.
\<close>

theorem python_agrees_with_sdk:
  assumes "orders_ok ord" and "inj_on ids {..<50}"
  shows "py_route e st ids ord stamp skill =
      map_option fst (print_route (sdk_network_new e st ids) ord stamp skill None)
    \<and> py_trust e st ids skill = map_option fst (print_trust (sdk_network_new e st ids) skill None)
    \<and> py_sign ed key message = print_sign ed key message
    \<and> (case py_benchmark e st ids routed recovered new_ids of
         None \<Rightarrow> print_benchmark (sdk_network_new e st ids) e routed recovered new_ids None = None
       | Some out \<Rightarrow> \<exists>comparison sn.
           print_benchmark (sdk_network_new e st ids) e routed recovered new_ids None
             = Some (out @ comparison @ [10], Some sn))"
  by (intro conjI py_route_eq [OF assms] py_trust_eq py_sign_eq py_benchmark_eq)

text \<open>A skill with spaces and a capital; the network of an unremarkable random source.\<close>

theorem python_agrees_with_sdk_witness:
  "\<exists>out. py_route still_rand (\<lambda>_. ((\<lambda>_. []), 0)) (\<lambda>i. AgentId (of_nat i))
      (\<lambda>_ rs. remdups (map bf_path rs)) (0, 0) (text_of '' Coding '') = Some out
    \<and> map_option fst (print_route
        (sdk_network_new still_rand (\<lambda>_. ((\<lambda>_. []), 0)) (\<lambda>i. AgentId (of_nat i)))
        (\<lambda>_ rs. remdups (map bf_path rs)) (0, 0) (text_of '' Coding '') None) = Some out"
proof -
  let ?st = "\<lambda>_ :: nat. ((\<lambda>_. []), 0)" and ?ids = "\<lambda>i. AgentId (of_nat i)"
    and ?ord = "\<lambda>_ rs. remdups (map bf_path rs)" and ?skill = "text_of '' Coding ''"
  obtain sn where sn: "network_with_seed still_rand ?st ?ids 42 = Some sn" using sample_network by blast
  obtain g where g: "sdk_graph sn = Some g" "graph_wf g"
    "\<forall>a. node_view g a = map_option (\<lambda>x. (map to_capability (sim_capabilities x), to_f64 (8 / 10), True))
       (find (\<lambda>x. sim_id x = a) (benchmark_agents ?st ?ids))"
    "distinct (map sim_id (benchmark_agents ?st ?ids))"
    using benchmark_graph [OF numbered_ids sn] by blast
  have "to_f64 (3 / 10) \<le> to_f64 (93 / 100)" by (rule to_f64_mono) simp
  then obtain r where "find_route (router_new g) ?ord CodeGeneration (sdk_qos (to_f64 (3 / 10))) None (0, 0)
      = Some (Inr r)" using benchmark_route [OF g(2) keys_order_ok g(4,3)] by blast
  then obtain out cell where out: "print_route (sdk_network_new still_rand ?st ?ids) ?ord (0, 0) ?skill None
      = Some (out, cell)"
    by (simp add: print_route_def sdk_find_route_def sdk_global_def sdk_network_new_def sn sdk_route_def
        route_with_quality_def coding_skill g(1))
  moreover have "py_route still_rand ?st ?ids ?ord (0, 0) ?skill =
      map_option fst (print_route (sdk_network_new still_rand ?st ?ids) ?ord (0, 0) ?skill None)"
    by (rule python_agrees_with_sdk [OF keys_order_ok numbered_ids, THEN conjunct1])
  ultimately show ?thesis by simp
qed

section \<open>Observations\<close>

text \<open>
  Every name of a scenario that the benchmark program knows is known to \<open>run_scenario\<close> and means the
  same there.
\<close>

lemma bench_names_known:
  assumes "bench_scenarios (Some s) = Some scs"
  shows "\<exists>sc. scs = [sc] \<and> py_parse_scenario s = Inr sc"
  using assms by (auto simp: bench_scenarios_def py_parse_scenario_def text_of_def lower_char_def Let_def
      split: if_splits)

text \<open>\<open>run_benchmark\<close> of a simulation gives the metrics of the SDK's report for the same seed.\<close>

lemma run_benchmark_metrics:
  assumes "network_with_seed e st ids seed = Some sn" and "py_simulation_new e st ids n (Some seed) = Some sim"
  shows "py_run_benchmark e routed recovered new_ids sim (Some k) None =
    map_option (\<lambda>rep. Inr (map to_py_metrics (br_metrics rep)))
      (sdk_benchmark e routed recovered (map new_ids [0..<k]) sn)"
proof -
  have sim: "psim_harness sim = sn_harness sn" "psim_seed sim = seed" "sn_seed sn = seed"
    using assms by (auto simp: network_with_seed_def py_simulation_new_def or_default_def bind_eq_Some_conv)
  let ?g = "generate_tasks e (with_context_size 50000 task_generator_new) (map new_ids [0..<k])
    (rand_seed e seed)"
  show ?thesis
  proof (cases ?g)
    case (Some tr)
    obtain tasks r where tr: "tr = (tasks, r)" by (cases tr)
    show ?thesis
      using Some unfolding py_run_benchmark_def py_generate_tasks_def sdk_benchmark_def sim
        all_scenarios_def [symmetric] collect_map_option
      by (cases "collect_options (\<lambda>s. run_scenario e (routed s) (recovered s) (sn_harness sn) s tasks)
          all_scenarios") (simp_all add: or_default_def tr)
  qed (simp add: py_run_benchmark_def py_generate_tasks_def sdk_benchmark_def sim or_default_def)
qed

text \<open>
  One chunk is printed as \<open>1 chunks\<close> in Python and as \<open>1 chunk\<close> by the SDK; any other number of
  chunks is printed in the same way.
\<close>

lemma py_compress_eq:
  assumes "py_compress env data skill = Some (Inr out)" and "sdk_compress env data skill = Some r"
  shows "show_compress_result r @ [10] = out \<longleftrightarrow> cr_chunks r \<noteq> 1"
proof -
  obtain t res where t: "parse_skill skill = Some t"
    "compress_for_task env compressor_new data t (map of_char ''task'') = Some res"
    using assms(2) by (auto simp: sdk_compress_def bind_eq_Some_conv)
  then obtain d where d: "res = Inr d"
    using assms(1) by (cases res) (simp_all add: py_compress_def py_parse_skill_eq)
  have "r = \<lparr>cr_original_size = diff_original_size d, cr_compressed_size = diff_compressed_size d,
      cr_ratio = (if 0 < diff_compressed_size d
        then f64_of_nat (unat (diff_original_size d)) / f64_of_nat (unat (diff_compressed_size d)) else PInf),
      cr_chunks = length (diff_chunks d), cr_confidence = diff_confidence d\<rparr>"
    using assms(2) t d by (simp add: sdk_compress_def del: list.map)
  moreover have "out = fixed_text 1 (if 0 < diff_compressed_size d
        then f64_of_nat (unat (diff_original_size d)) / f64_of_nat (unat (diff_compressed_size d)) else PInf)
      @ text_of ''x compression ('' @ decimal (unat (diff_original_size d))
      @ text_of ''B '' @ [0x2192, 32] @ decimal (unat (diff_compressed_size d)) @ text_of ''B, ''
      @ decimal (length (diff_chunks d)) @ text_of '' chunks)'' @ [10]"
    using assms(1) t d by (simp add: py_compress_def py_parse_skill_eq Let_def del: list.map)
  ultimately show ?thesis
    by (simp add: show_compress_result_def plural_def text_of_def)
qed

end
