(* ===== verification/Spec2Isabelle.thy ===== *)
theory Spec2Isabelle
  imports Circuit_Breaker Heartbeat Checkpoint Poison_Concurrent Backpressure Handshake Did_Key
    Identity_Store Router Rpc Node Bench Python_Sdk
begin

text \<open>
  The Agent Transport Protocol: a verification library for the Rust workspace under
  \<open>src/crates\<close>. Agents advertise capabilities, a requester negotiates a contract with one of them,
  routes a task through one or several agents, sends it a compressed context, and watches its
  health; trust in an agent is computed from signed records of past interactions.

  Parts and how they interact. A \<open>node\<close> owns one instance of every layer: an identity store with
  its trust engine and Sybil guard (\<open>atp-identity\<close>), a capability registry and a handshake
  manager (\<open>atp-handshake\<close>), an economic router over an agent graph (\<open>atp-routing\<close>), and a circuit
  breaker, heartbeat monitor, checkpoint store, poison detector and load tracker (\<open>atp-fault\<close>).
  \<open>execute_task\<close> takes a task through all of them; the dispatcher updates them from the messages
  of other agents; the gRPC service of \<open>atp-transport\<close> carries the messages in the encoding of the
  codec; \<open>atp-context\<close> cuts the context of a task down to the chunks worth sending. \<open>atp-sim\<close> runs
  generated tasks through simulated agents under seven scenarios; \<open>atp-sdk\<close> is the front of the whole:
  it routes over a simulated network with the router above and calls the compressor and the harness;
  \<open>atp-python\<close> offers the same to Python, and the layers one by one as classes.

  Correspondence, in the order of the imports. Definitions carry the names of the functions, types
  and fields of the source, with a prefix where two of them share a name.

  \<^item> \<open>Prelude\<close>: effects as values (a panic is \<open>None\<close>, a \<open>Result\<close> is a sum), hash tables with the
    iteration order as a parameter, the stable sort of the standard library with the locale
    \<open>strict_weak_order\<close>, under which a sort is sorted and stable.
  \<^item> \<open>F64\<close>, \<open>Rust_Time\<close>: \<open>f64\<close> as IEEE-754 binary64 over the rationals, rounded to nearest, ties
    to even, with NaN and the infinities; \<open>Duration\<close> as nanoseconds with its panics; the instants
    of the third-party \<open>chrono\<close> as a parameter with its documented meaning as hypothesis.
  \<^item> \<open>Atp_Types\<close>: the data of \<open>atp-types\<close> (\<open>agent.rs\<close>, \<open>capability.rs\<close>, \<open>config.rs\<close>,
    \<open>context.rs\<close>, \<open>error.rs\<close>, \<open>message.rs\<close>, \<open>route.rs\<close>, \<open>task.rs\<close>, \<open>trust.rs\<close>).
  \<^item> \<open>Circuit_Breaker\<close>, \<open>Heartbeat\<close>, \<open>Checkpoint\<close>, \<open>Poison\<close>, \<open>Backpressure\<close>: the files of
    \<open>atp-fault\<close> with these names. The circuit breaker is an inductive step relation with its
    reachable states beside the operations; the checkpoint store, the poison detector and the
    heartbeat monitor are shown to compute functions of the log of their calls. The calls of the
    checkpoint store and of the poison detector, which take two locks one after the other, are also
    modelled as interleaved sections (\<open>Checkpoint\<close>; \<open>Poison_Concurrent\<close> with the locale
    \<open>interleaving_invariant\<close>).
  \<^item> \<open>Registry\<close>, \<open>Offer\<close>, \<open>Handshake\<close>: \<open>registry.rs\<close> and \<open>probe.rs\<close>, \<open>offer.rs\<close>,
    \<open>contract.rs\<close> and \<open>negotiation.rs\<close>. The registry refines a map from agents to capabilities
    and implements the locale \<open>capability_directory\<close> that the negotiation reads.
  \<^item> \<open>Did_Key\<close>, \<open>Keypair\<close>, \<open>Trust\<close>, \<open>Sybil\<close>, \<open>Identity_Store\<close>: \<open>did.rs\<close> with its base-58 loops,
    \<open>keypair.rs\<close> with the agent of the SDK, \<open>trust.rs\<close>, \<open>sybil.rs\<close>, \<open>store.rs\<close>; the store refines
    a log of interactions.
  \<^item> \<open>Graph\<close>, \<open>Cost\<close>, \<open>Bellman_Ford\<close>, \<open>Shortest_Path\<close>, \<open>Optimizer\<close>, \<open>Patterns\<close>, \<open>Router\<close>:
    \<open>graph.rs\<close>, \<open>cost.rs\<close>, \<open>bellman_ford.rs\<close>, the correctness of that search, \<open>optimizer.rs\<close>,
    \<open>patterns.rs\<close> and the router of \<open>lib.rs\<close>. The indexed graph refines a network of agents and
    links; a route that is found is one of capable, available, trusted agents within the QoS.
  \<^item> \<open>Wire\<close>, \<open>Codec\<close>, \<open>Codec_Correct\<close>, \<open>Rpc\<close>: the messages of \<open>proto/atp/v1\<close> as the Rust code
    sees them, \<open>codec.rs\<close> with its round trips (locale \<open>wire_codec\<close>), and \<open>server.rs\<close> with
    \<open>client.rs\<close>: a remote call is the handler's call on what the codec keeps of the request
    (locale \<open>remote_procedure\<close>, one interpretation for each procedure).
  \<^item> \<open>Embedding\<close>, \<open>Context_Diff\<close>, \<open>Adaptive\<close>: \<open>embedding.rs\<close> and \<open>similarity.rs\<close>,
    \<open>extraction.rs\<close> and \<open>differential.rs\<close>, \<open>adaptive.rs\<close> with the exchange of requests and
    answers between its two sides.
  \<^item> \<open>Dispatcher\<close>, \<open>Node\<close>: \<open>dispatcher.rs\<close>, and \<open>node.rs\<close> with \<open>builder.rs\<close>.
  \<^item> \<open>Sim_Agent\<close>, \<open>Sim_Network\<close>, \<open>Harness\<close>: \<open>agent.rs\<close>, \<open>clock.rs\<close> and \<open>task_gen.rs\<close>,
    \<open>network.rs\<close>, \<open>harness.rs\<close> of \<open>atp-sim\<close>; the local variables of \<open>run_scenario\<close> are the
    record \<open>tally\<close>.
  \<^item> \<open>Sdk\<close>, \<open>Sdk_Print\<close>, \<open>Bench\<close>: \<open>parse.rs\<close>, \<open>network.rs\<close>, \<open>results.rs\<close> and \<open>report.rs\<close> of
    \<open>atp-sdk\<close>; their printed forms with the functions of \<open>lib.rs\<close>; \<open>main.rs\<close> of \<open>atp-bench\<close>.
  \<^item> \<open>Python_Bindings\<close>, \<open>Python_Sdk\<close>: the classes of \<open>atp-python\<close> (\<open>py_types.rs\<close>,
    \<open>py_identity.rs\<close>, \<open>py_context.rs\<close>, \<open>py_routing.rs\<close>, \<open>py_sim.rs\<close>), where an exception carries the
    Rust error it shows, and its printing functions (\<open>py_sdk.rs\<close>).

  What the lemmas show, layer by layer. Fault tolerance: a circuit is never open below its
  threshold and opens at it; the stored checkpoint is the newest one; a task is poisoned exactly
  when enough distinct agents failed within the window, also when the failures are reported at the
  same time; every heartbeat verdict; exactly when a query of the load panics. Handshake: a
  negotiation that succeeds accepts the best-ranked offer of an agent that meets the QoS, every way
  in which it fails, and exactly the moves of its state machine, the undrawn ones of the diagram in
  \<open>contract.rs\<close> included. Identity: DIDs round-trip, trust stays in the unit interval, vouchers are
  bounded by the dampening. Routing: routes are sound, the search finds a least-cost path, the
  Pareto front is exact, the ranking is sorted, and the documented fallback never helps. Transport:
  every message survives the wire up to what the wire can carry; what is decoded is in normal form;
  a request is handled exactly when it is readable. Context: extraction keeps the best chunks, a diff
  applies back to the chunks of the source, an exchange ends and never raises the mean relevance.
  Node: what a task that succeeds or fails changes in every layer, and what
  an unauthenticated message can change. Simulation: every task of a run is accounted for, a
  network has the edges of its topology, recovery tries every other agent. SDK: every skill is
  routed on the benchmark network, whatever the random generator draws; its functions answer as the
  methods of one network; what is printed is the nearest decimal, and the CSV form reads back.
  Python: the functions print what the SDK prints, and signatures survive their hexadecimal text.

  Bounds and termination. Every loop of the source is a total function, by recursion over the data
  or with a measure (the base-58 carry loops, the chunking), save two that are written with
  \<open>partial_function\<close> so that not returning would be the value \<open>None\<close>: the loop that fills an
  embedding and the exchange of refinement requests; both are proved to return. Loops that take
  their bound from a number of the source (retries, rounds of the search) recurse on that number,
  so no fuel is invented. Machine integers are \<open>word\<close>s where
  the code counts in \<open>u32\<close>, \<open>u64\<close> or \<open>i32\<close>; a \<open>usize\<close> that counts objects in memory is a
  natural number. The equivalence of the search with least-cost paths holds for edge costs on a
  grid of 20 fractional bits, where sums of costs are exact, so that rounding cannot reorder paths.

  Parameters. Third-party code is an argument of the definitions that use it: \<open>chrono\<close>'s range
  checks, \<open>uuid\<close>'s and \<open>prost\<close>'s text and enumeration forms (\<open>wire_env\<close>), SHA-256 and the dot
  product of \<open>ndarray\<close> (\<open>vector_env\<close>), the keys and signatures of \<open>ed25519-dalek\<close> (\<open>ed25519\<close>), the
  generator and the distributions of the \<open>rand\<close> crates (\<open>sim_env\<close>), the iteration order of a hash table, and whether \<open>tokio\<close>'s
  timeout fires. So are \<open>exp\<close>, \<open>powi\<close> and \<open>ln\<close> of the platform's \<open>libm\<close>, clock readings, fresh
  identifiers and keys. What a property relies on is a named hypothesis
  (\<open>chrono_sound\<close>, \<open>exp_ok\<close>, \<open>wire_sound\<close>, \<open>rand_sound\<close> and the like), and its witness instantiates
  the parameter with a concrete function.

  Not modelled: the HTTP/2 connection of \<open>tonic\<close> (\<open>serve\<close>, \<open>connect\<close>), log output, serde
  derives, the generated code of \<open>atp-proto\<close>, the parser of the command line, the conversion of
  Python arguments by \<open>pyo3\<close>, and accessors of the Rust crates that only return a field of a record.
\<close>

end
